(* ===== verification/Prelude.thy ===== *)
theory Prelude
  imports Main "HOL-Library.Word" "HOL-Library.List_Lexorder" "HOL-Library.Char_ord"
begin

text \<open>
  What every component shares: the machine integers and their saturating operations,
  byte strings with Rust's string helpers, and the generic list facts the component
  proofs use.

  Rust values are represented as follows.  A \<open>u64\<close> is a \<open>64 word\<close>; the code's plain
  \<open>+\<close> on such values wraps, as the release profile of the workspace does (no
  \<open>overflow-checks\<close> is set in any \<open>Cargo.toml\<close>).  \<open>String\<close>, \<open>&str\<close> and \<open>Vec<u8>\<close> are
  \<open>string\<close>, that is lists of 8-bit characters: the UTF-8 bytes.
\<close>

named_theorems wf_intros "introduction rules for the well-formedness invariants"
named_theorems frame_simps "fields an operation leaves unchanged"

section \<open>Machine integers\<close>

type_synonym u64 = "64 word"
type_synonym u32 = "32 word"

text \<open>Values are read with \<open>unat\<close> throughout.\<close>

declare of_nat_unat [simp del]

definition sat_add :: "u64 \<Rightarrow> u64 \<Rightarrow> u64" where
  "sat_add a b = (if unat a + unat b < 2 ^ 64 then a + b else - 1)"

definition sat_sub :: "u64 \<Rightarrow> u64 \<Rightarrow> u64" where
  "sat_sub a b = (if b \<le> a then a - b else 0)"

definition sat_mul :: "u64 \<Rightarrow> u64 \<Rightarrow> u64" where
  "sat_mul a b = (if unat a * unat b < 2 ^ 64 then a * b else - 1)"

lemma u64_of_nat_unat [simp]: "(of_nat (unat w) :: u64) = w"
  by (simp add: of_nat_unat)

lemma u64_eqI: "unat w = n \<Longrightarrow> w = (of_nat n :: u64)"
  by auto

lemma unat_u64_lt: "unat (a :: u64) < 2 ^ 64"
  using unsigned_less [of a, where 'a = nat] by simp

lemma unat_u64_max [simp]: "unat (- 1 :: u64) = 2 ^ 64 - 1"
  by (simp add: unsigned_minus_1_eq_mask mask_eq_exp_minus_1)

lemma u64_addI: "unat w = unat a + n \<Longrightarrow> w = (a + of_nat n :: u64)"
  by (metis of_nat_add u64_of_nat_unat)

lemma u64_less_max:
  assumes "(a :: u64) \<noteq> - 1"
  shows "unat a < 2 ^ 64 - 1"
proof -
  have "unat a \<noteq> unat (- 1 :: u64)" using assms by (metis u64_of_nat_unat)
  then show ?thesis using unat_u64_lt [of a] by simp
qed

lemma unat_sat_add: "unat (sat_add a b) = min (unat a + unat b) (2 ^ 64 - 1)"
  by (auto simp: sat_add_def unat_word_ariths)

lemma unat_sat_sub: "unat (sat_sub a b) = unat a - unat b"
  by (auto simp: sat_sub_def unat_sub word_le_nat_alt)

lemma unat_sat_mul: "unat (sat_mul a b) = min (unat a * unat b) (2 ^ 64 - 1)"
  by (auto simp: sat_mul_def unat_word_ariths)

lemma unat_min_u64: "unat (min a b :: u64) = min (unat a) (unat b)"
  by (auto simp: min_def word_le_nat_alt)

lemma unat_max_u64: "unat (max a b :: u64) = max (unat a) (unat b)"
  by (auto simp: max_def word_le_nat_alt)

lemma sat_add_mono: "a \<le> c \<Longrightarrow> sat_add a b \<le> sat_add c b"
  by (auto simp: word_le_nat_alt unat_sat_add)

lemma sat_add_ge: "a \<le> sat_add a b"
  using unat_u64_lt [of a] by (auto simp: word_le_nat_alt unat_sat_add)

lemma sat_add_0 [simp]: "sat_add a 0 = a"
  using unat_u64_lt [of a] by (auto simp: sat_add_def)

lemma sat_sub_0 [simp]: "sat_sub a 0 = a"
  by (simp add: sat_sub_def)

text \<open>\<open>iter().sum()\<close> over \<open>u64\<close> values wraps; below \<open>2 ^ 64\<close> it is the sum.\<close>

lemma unat_sum_list_u64:
  "sum_list (map unat ws) < 2 ^ 64 \<Longrightarrow> unat (sum_list (ws :: u64 list)) = sum_list (map unat ws)"
  by (induction ws) (auto simp: unat_word_ariths)

section \<open>Options\<close>

definition unwrap_or :: "'a option \<Rightarrow> 'a \<Rightarrow> 'a" where
  "unwrap_or x d = (case x of Some v \<Rightarrow> v | None \<Rightarrow> d)"

lemma unwrap_or_simps [simp]: "unwrap_or (Some v) d = v" "unwrap_or None d = d"
  by (simp_all add: unwrap_or_def)

section \<open>Lists\<close>

text \<open>\<open>iter().position(p)\<close>: the first index whose element satisfies \<open>p\<close>.\<close>

fun position :: "('a \<Rightarrow> bool) \<Rightarrow> 'a list \<Rightarrow> nat option" where
  "position p [] = None"
| "position p (x # xs) = (if p x then Some 0 else map_option Suc (position p xs))"

lemma position_None: "position p xs = None \<longleftrightarrow> (\<forall>x \<in> set xs. \<not> p x)"
  by (induction xs) auto

lemma position_Some:
  "position p xs = Some i \<Longrightarrow> i < length xs \<and> p (xs ! i) \<and> (\<forall>j < i. \<not> p (xs ! j))"
proof (induction xs arbitrary: i)
  case Nil
  then show ?case by simp
next
  case (Cons x xs)
  show ?case
  proof (cases "p x")
    case True
    with Cons.prems show ?thesis by auto
  next
    case False
    with Cons.prems obtain k where k: "position p xs = Some k" and i: "i = Suc k" by auto
    from Cons.IH [OF k] False i show ?thesis
      by (auto simp: nth_Cons less_Suc_eq_0_disj split: nat.splits)
  qed
qed

lemma position_first:
  "i < length xs \<Longrightarrow> p (xs ! i) \<Longrightarrow> \<forall>j < i. \<not> p (xs ! j) \<Longrightarrow> position p xs = Some i"
proof (induction xs arbitrary: i)
  case Nil
  then show ?case by simp
next
  case (Cons x xs)
  show ?case
  proof (cases i)
    case 0
    with Cons.prems show ?thesis by simp
  next
    case (Suc k)
    from Cons.prems(3) Suc have "\<not> p x" by (metis nth_Cons_0 zero_less_Suc)
    moreover from Cons.prems Suc have "position p xs = Some k"
      by (intro Cons.IH) auto
    ultimately show ?thesis using Suc by simp
  qed
qed

text \<open>Keep the first occurrence of each element, in order: the code's
  \<open>retain(|k| seen.insert(k))\<close> with the set of keys seen so far.\<close>

fun dedup_from :: "'a set \<Rightarrow> 'a list \<Rightarrow> 'a list" where
  "dedup_from seen [] = []"
| "dedup_from seen (x # xs) =
     (if x \<in> seen then dedup_from seen xs else x # dedup_from (insert x seen) xs)"

lemma set_dedup_from: "set (dedup_from seen xs) = set xs - seen"
  by (induction xs arbitrary: seen) auto

lemma distinct_dedup_from: "distinct (dedup_from seen xs)"
  by (induction xs arbitrary: seen) (auto simp: set_dedup_from)

lemma dedup_from_id: "distinct xs \<Longrightarrow> set xs \<inter> seen = {} \<Longrightarrow> dedup_from seen xs = xs"
  by (induction xs arbitrary: seen) auto

lemma sum_list_le_sum_list:
  "(\<And>x. x \<in> set xs \<Longrightarrow> f x \<le> g x) \<Longrightarrow> sum_list (map f xs) \<le> (sum_list (map g xs) :: 'b::ordered_comm_monoid_add)"
  by (induction xs) (auto intro: add_mono)

end
