(* ===== verification/OrdMap.thy ===== *)
theory OrdMap
  imports Prelude
begin

text \<open>
  \<open>BTreeMap<K, V>\<close> as the list of its entries in ascending key order, which is the order
  its iterators visit.  The contract of a key-value store is the locale \<open>kv_store\<close>;
  \<open>bt\<close> interprets it on the sorted lists, and the components use \<open>bt\<close>'s facts.
\<close>

section \<open>The contract of a map\<close>

locale kv_store =
  fixes empty :: "'m"
    and insert :: "'k \<Rightarrow> 'v \<Rightarrow> 'm \<Rightarrow> 'm"
    and remove :: "'k \<Rightarrow> 'm \<Rightarrow> 'm"
    and get :: "'m \<Rightarrow> 'k \<Rightarrow> 'v option"
    and invar :: "'m \<Rightarrow> bool"
  assumes get_empty: "get empty k = None"
    and get_insert: "invar m \<Longrightarrow> get (insert k v m) k' = (if k' = k then Some v else get m k')"
    and get_remove: "invar m \<Longrightarrow> get (remove k m) k' = (if k' = k then None else get m k')"
    and invar_empty: "invar empty"
    and invar_insert: "invar m \<Longrightarrow> invar (insert k v m)"
    and invar_remove: "invar m \<Longrightarrow> invar (remove k m)"
begin

lemma get_insert_same: "invar m \<Longrightarrow> get (insert k v m) k = Some v"
  by (simp add: get_insert)

lemma get_insert_other: "invar m \<Longrightarrow> k' \<noteq> k \<Longrightarrow> get (insert k v m) k' = get m k'"
  by (simp add: get_insert)

lemma get_insert_twice:
  "invar m \<Longrightarrow> get (insert k v (insert k w m)) k' = get (insert k v m) k'"
  by (simp add: get_insert invar_insert)

lemma get_remove_insert:
  "invar m \<Longrightarrow> get (remove k (insert k v m)) k' = get (remove k m) k'"
  by (simp add: get_insert get_remove invar_insert)

lemma invar_fold_insert:
  "invar m \<Longrightarrow> invar (fold (\<lambda>(k, v). insert k v) kvs m)"
  by (induction kvs arbitrary: m) (auto intro: invar_insert)

text \<open>Inserting entries one after the other: the last entry of a key wins, and a key
  that is not inserted keeps its value.\<close>

lemma get_fold_insert:
  "invar m \<Longrightarrow> get (fold (\<lambda>(k, v). insert k v) kvs m) k =
     (case map_of (rev kvs) k of Some v \<Rightarrow> Some v | None \<Rightarrow> get m k)"
proof (induction kvs arbitrary: m)
  case Nil
  then show ?case by simp
next
  case (Cons kv kvs)
  obtain a b where kv: "kv = (a, b)" by (cases kv)
  have "invar (insert a b m)" using Cons.prems by (rule invar_insert)
  from Cons.IH [OF this] Cons.prems show ?case
    by (auto simp: kv get_insert map_add_def split: option.splits)
qed

end

section \<open>Sorted association lists\<close>

type_synonym ('k, 'v) btree = "('k \<times> 'v) list"

definition bt_wf :: "('k::linorder, 'v) btree \<Rightarrow> bool" where
  "bt_wf m \<longleftrightarrow> sorted_wrt (<) (map fst m)"

definition bt_get :: "('k::linorder, 'v) btree \<Rightarrow> 'k \<Rightarrow> 'v option" where
  "bt_get m k = map_of m k"

fun bt_insert :: "'k::linorder \<Rightarrow> 'v \<Rightarrow> ('k, 'v) btree \<Rightarrow> ('k, 'v) btree" where
  "bt_insert k v [] = [(k, v)]"
| "bt_insert k v ((a, b) # m) =
     (if k < a then (k, v) # (a, b) # m
      else if k = a then (k, v) # m
      else (a, b) # bt_insert k v m)"

definition bt_remove :: "'k::linorder \<Rightarrow> ('k, 'v) btree \<Rightarrow> ('k, 'v) btree" where
  "bt_remove k m = filter (\<lambda>(a, _). a \<noteq> k) m"

definition bt_keys :: "('k::linorder, 'v) btree \<Rightarrow> 'k list" where
  "bt_keys m = map fst m"

definition bt_values :: "('k::linorder, 'v) btree \<Rightarrow> 'v list" where
  "bt_values m = map snd m"

definition bt_contains :: "('k::linorder, 'v) btree \<Rightarrow> 'k \<Rightarrow> bool" where
  "bt_contains m k \<longleftrightarrow> bt_get m k \<noteq> None"

text \<open>\<open>entry(k).or_insert(d)\<close>: the entry of \<open>k\<close>, created with \<open>d\<close> when absent.\<close>

definition bt_entry :: "('k::linorder, 'v) btree \<Rightarrow> 'k \<Rightarrow> 'v \<Rightarrow> 'v" where
  "bt_entry m k d = (case bt_get m k of Some v \<Rightarrow> v | None \<Rightarrow> d)"

definition bt_of_list :: "('k::linorder \<times> 'v) list \<Rightarrow> ('k, 'v) btree" where
  "bt_of_list kvs = fold (\<lambda>(k, v). bt_insert k v) kvs []"

lemma fst_set_bt_insert: "fst ` set (bt_insert k v m) = insert k (fst ` set m)"
  by (induction k v m rule: bt_insert.induct) auto

lemma set_bt_insert: "set (bt_insert k v m) \<subseteq> insert (k, v) (set m)"
  by (induction k v m rule: bt_insert.induct) auto

lemma bt_wf_Nil [simp, wf_intros]: "bt_wf []"
  by (simp add: bt_wf_def)

lemma bt_wf_Cons: "bt_wf ((k, v) # m) \<longleftrightarrow> (\<forall>a \<in> fst ` set m. k < a) \<and> bt_wf m"
  by (auto simp: bt_wf_def)

lemma bt_wf_distinct: "bt_wf m \<Longrightarrow> distinct (map fst m)"
  by (simp add: bt_wf_def strict_sorted_iff)

lemma bt_wf_insert [wf_intros]: "bt_wf m \<Longrightarrow> bt_wf (bt_insert k v m)"
proof (induction k v m rule: bt_insert.induct)
  case (1 k v)
  show ?case by (simp add: bt_wf_Cons)
next
  case (2 k v a b m)
  have *: "\<forall>x \<in> fst ` set m. a < x" and wf: "bt_wf m"
    using "2.prems" by (simp_all add: bt_wf_Cons)
  consider "k < a" | "k = a" | "a < k" by (rule linorder_cases)
  then show ?case
  proof cases
    case 1
    then show ?thesis using * wf by (auto simp: bt_wf_Cons)
  next
    case 2
    then show ?thesis using * wf by (auto simp: bt_wf_Cons)
  next
    case 3
    then have ne: "\<not> k < a" "k \<noteq> a" by auto
    then have IH: "bt_wf (bt_insert k v m)" using "2.IH" wf by simp
    then show ?thesis using 3 ne * by (simp add: bt_wf_Cons fst_set_bt_insert)
  qed
qed

lemma bt_wf_remove [wf_intros]: "bt_wf m \<Longrightarrow> bt_wf (bt_remove k m)"
  by (induction m) (auto simp: bt_remove_def bt_wf_Cons)

lemma bt_wf_map_values: "bt_wf (map (\<lambda>(k, v). (k, f k v)) m) = bt_wf m"
proof -
  have "map fst (map (\<lambda>(k, v). (k, f k v)) m) = map fst m" by (induction m) auto
  then show ?thesis by (simp only: bt_wf_def)
qed

lemma map_of_bt_insert: "bt_wf m \<Longrightarrow> map_of (bt_insert k v m) = (map_of m)(k \<mapsto> v)"
proof (induction k v m rule: bt_insert.induct)
  case (1 k v)
  then show ?case by simp
next
  case (2 k v a b m)
  then show ?case by (auto simp: bt_wf_Cons fun_upd_twist)
qed

lemma map_of_bt_remove: "map_of (bt_remove k m) = (map_of m)(k := None)"
  by (induction m) (auto simp: bt_remove_def fun_eq_iff)

interpretation bt: kv_store "[]" bt_insert bt_remove bt_get bt_wf
  by unfold_locales
    (auto simp: bt_get_def map_of_bt_insert map_of_bt_remove intro: bt_wf_insert bt_wf_remove)

lemma bt_get_Nil [simp]: "bt_get [] k = None"
  by (rule bt.get_empty)

lemma bt_get_Cons [simp]: "bt_get ((a, b) # m) k = (if k = a then Some b else bt_get m k)"
  by (simp add: bt_get_def)

lemma bt_get_map_values:
  "bt_get (map (\<lambda>(k, v). (k, f k v)) m) k = map_option (f k) (bt_get m k)"
  by (induction m) auto

lemma bt_get_in_set: "bt_get m k = Some v \<Longrightarrow> (k, v) \<in> set m"
  by (simp add: bt_get_def map_of_SomeD)

lemma bt_in_set_get: "bt_wf m \<Longrightarrow> (k, v) \<in> set m \<Longrightarrow> bt_get m k = Some v"
  by (simp add: bt_get_def bt_wf_distinct)

lemma bt_wf_of_list [wf_intros]: "bt_wf (bt_of_list kvs)"
  unfolding bt_of_list_def by (rule bt.invar_fold_insert) simp

lemma bt_get_of_list: "bt_get (bt_of_list kvs) k = map_of (rev kvs) k"
  by (simp add: bt_of_list_def bt.get_fold_insert split: option.splits)

text \<open>How a sum over the entries changes when one entry is replaced or removed.\<close>

lemma sum_list_bt_insert:
  fixes f :: "'k::linorder \<times> 'v \<Rightarrow> nat"
  assumes "bt_wf m"
  shows "sum_list (map f (bt_insert k v m)) +
      (case bt_get m k of Some w \<Rightarrow> f (k, w) | None \<Rightarrow> 0) =
    sum_list (map f m) + f (k, v)"
  using assms
proof (induction k v m rule: bt_insert.induct)
  case (1 k v)
  then show ?case by simp
next
  case (2 k v a b m)
  have wf: "bt_wf m" and lt: "\<forall>x \<in> fst ` set m. a < x"
    using "2.prems" by (simp_all add: bt_wf_Cons)
  show ?case
  proof (cases "k < a")
    case True
    have "bt_get m k = None"
      using True lt by (force simp: bt_get_def map_of_eq_None_iff)
    moreover have "k \<noteq> a" using True by simp
    ultimately show ?thesis using True by simp
  next
    case False
    then show ?thesis using "2.IH" wf by (auto split: if_splits)
  qed
qed

lemma map_of_rev_distinct: "distinct (map fst kvs) \<Longrightarrow> map_of (rev kvs) = map_of kvs"
  by (rule map_of_eqI) (auto simp: rev_map [symmetric])

text \<open>A sorted list is determined by its lookups.\<close>

lemma bt_eqI:
  assumes "bt_wf m" "bt_wf n" "\<And>k. bt_get m k = bt_get n k"
  shows "m = n"
proof -
  have "map_of m = map_of n" using assms(3) by (auto simp: bt_get_def)
  then have eq: "set m = set n" using assms(1,2) by (simp add: map_of_inject_set bt_wf_distinct)
  have "inj_on fst (set m \<union> set n)"
    using bt_wf_distinct [OF assms(1)] by (simp add: eq [symmetric] distinct_map)
  then show ?thesis
    using assms(1,2) eq by (intro map_sorted_distinct_set_unique [where f = fst])
      (auto simp: bt_wf_def strict_sorted_iff)
qed

lemma bt_get_merge:
  assumes "bt_wf m" "bt_wf n"
  shows "bt_get (fold (\<lambda>(k, v). bt_insert k v) n m) k =
    (case bt_get n k of Some v \<Rightarrow> Some v | None \<Rightarrow> bt_get m k)"
  unfolding bt.get_fold_insert [OF assms(1)] map_of_rev_distinct [OF bt_wf_distinct [OF assms(2)]]
  by (simp only: bt_get_def)

end
