(* ===== verification/RustStr.thy ===== *)
theory RustStr
  imports Prelude
begin

text \<open>
  The string functions of Rust's standard library that the code calls, on UTF-8 bytes.
  A character of Unicode's \<open>White_Space\<close> property is one of the byte sequences
  \<open>whitespace_seqs\<close>; \<open>trim\<close> removes such sequences at both ends, \<open>char_count\<close> is
  \<open>chars().count()\<close>, and the ASCII case functions act on single bytes.
\<close>

definition byte :: "nat \<Rightarrow> char" where
  "byte n = char_of n"

definition utf8_bytes :: "nat list \<Rightarrow> string" where
  "utf8_bytes ns = map char_of ns"

section \<open>White space and trim\<close>

definition whitespace_seqs :: "string list" where
  "whitespace_seqs = map utf8_bytes
     ([[9], [10], [11], [12], [13], [32], [0xC2, 0x85], [0xC2, 0xA0], [0xE1, 0x9A, 0x80]] @
      map (\<lambda>n. [0xE2, 0x80, n]) [0x80 ..< 0x8B] @
      [[0xE2, 0x80, 0xA8], [0xE2, 0x80, 0xA9], [0xE2, 0x80, 0xAF], [0xE2, 0x81, 0x9F],
       [0xE3, 0x80, 0x80]])"

text \<open>The table as literal characters, for evaluation.\<close>

lemma whitespace_seqs_code [code]:
  "whitespace_seqs =
    [[CHR 0x09], [CHR 0x0A], [CHR 0x0B], [CHR 0x0C], [CHR 0x0D], [CHR 0x20], [CHR 0xC2, CHR 0x85],
     [CHR 0xC2, CHR 0xA0], [CHR 0xE1, CHR 0x9A, CHR 0x80], [CHR 0xE2, CHR 0x80, CHR 0x80],
     [CHR 0xE2, CHR 0x80, CHR 0x81], [CHR 0xE2, CHR 0x80, CHR 0x82], [CHR 0xE2, CHR 0x80, CHR 0x83],
     [CHR 0xE2, CHR 0x80, CHR 0x84], [CHR 0xE2, CHR 0x80, CHR 0x85], [CHR 0xE2, CHR 0x80, CHR 0x86],
     [CHR 0xE2, CHR 0x80, CHR 0x87], [CHR 0xE2, CHR 0x80, CHR 0x88], [CHR 0xE2, CHR 0x80, CHR 0x89],
     [CHR 0xE2, CHR 0x80, CHR 0x8A], [CHR 0xE2, CHR 0x80, CHR 0xA8], [CHR 0xE2, CHR 0x80, CHR 0xA9],
     [CHR 0xE2, CHR 0x80, CHR 0xAF], [CHR 0xE2, CHR 0x81, CHR 0x9F], [CHR 0xE3, CHR 0x80, CHR 0x80]]"
  by (simp add: whitespace_seqs_def utf8_bytes_def upt_rec_numeral char_of_def bit_0)

fun strip_one :: "string list \<Rightarrow> string \<Rightarrow> string" where
  "strip_one [] s = s"
| "strip_one (p # ps) s = (if take (length p) s = p then drop (length p) s else strip_one ps s)"

lemma length_strip_one: "length (strip_one ps s) \<le> length s"
  by (induction ps s rule: strip_one.induct) auto

function strip_all :: "string list \<Rightarrow> string \<Rightarrow> string" where
  "strip_all ps s =
     (let r = strip_one ps s in if length r < length s then strip_all ps r else s)"
  by pat_completeness auto

termination
  by (relation "measure (\<lambda>(ps, s). length s)") auto

declare strip_all.simps [simp del]

definition trim_start :: "string \<Rightarrow> string" where
  "trim_start s = strip_all whitespace_seqs s"

definition trim_end :: "string \<Rightarrow> string" where
  "trim_end s = rev (strip_all (map rev whitespace_seqs) (rev s))"

definition trim :: "string \<Rightarrow> string" where
  "trim s = trim_end (trim_start s)"

text \<open>\<open>s.trim().is_empty()\<close>.\<close>

definition is_blank :: "string \<Rightarrow> bool" where
  "is_blank s \<longleftrightarrow> trim s = []"

lemma strip_all_Nil [simp]: "strip_all ps [] = []"
proof -
  have "length (strip_one ps []) \<le> length ([] :: string)" by (rule length_strip_one)
  then show ?thesis by (subst strip_all.simps) (simp add: Let_def)
qed

lemma trim_Nil [simp]: "trim [] = []"
  by (simp add: trim_def trim_start_def trim_end_def)

lemma is_blank_Nil [simp]: "is_blank []"
  by (simp add: is_blank_def)

text \<open>A string whose first and last bytes start and end no white space character is
  its own trim.\<close>

lemma strip_one_id: "\<forall>p \<in> set ps. p \<noteq> [] \<and> hd p \<noteq> c \<Longrightarrow> strip_one ps (c # s) = c # s"
  by (induction ps) (auto simp: neq_Nil_conv)

lemma strip_all_id: "\<forall>p \<in> set ps. p \<noteq> [] \<and> hd p \<noteq> c \<Longrightarrow> strip_all ps (c # s) = c # s"
  by (subst strip_all.simps) (simp add: strip_one_id)

definition ws_first :: "char list" where
  "ws_first = map hd whitespace_seqs"

definition ws_last :: "char list" where
  "ws_last = map last whitespace_seqs"

lemma whitespace_seqs_nonempty: "[] \<notin> set whitespace_seqs"
  by (auto simp: whitespace_seqs_def utf8_bytes_def)

lemma is_blank_False:
  assumes "c \<notin> set ws_first" "last (c # s) \<notin> set ws_last"
  shows "\<not> is_blank (c # s)" and "trim (c # s) = c # s"
proof -
  have 1: "trim_start (c # s) = c # s"
    unfolding trim_start_def
    by (rule strip_all_id) (use assms(1) whitespace_seqs_nonempty in \<open>auto simp: ws_first_def\<close>)
  obtain d t where dt: "rev (c # s) = d # t" by (cases "rev (c # s)") auto
  then have d: "d = last (c # s)" by (metis last_rev list.sel(1) rev_rev_ident)
  have "p \<noteq> [] \<and> hd p \<noteq> d" if "p \<in> set (map rev whitespace_seqs)" for p
  proof -
    from that obtain q where q: "q \<in> set whitespace_seqs" "p = rev q" by auto
    then have ne: "q \<noteq> []" using whitespace_seqs_nonempty by metis
    moreover have "last q \<in> set ws_last" using q(1) by (auto simp: ws_last_def)
    then have "last q \<noteq> d" using assms(2) d by metis
    ultimately show ?thesis by (simp add: q(2) hd_rev)
  qed
  then have "strip_all (map rev whitespace_seqs) (d # t) = d # t" by (intro strip_all_id) blast
  then have 2: "trim_end (c # s) = c # s" unfolding trim_end_def dt by (simp add: dt [symmetric])
  show "trim (c # s) = c # s" by (simp add: trim_def 1 2)
  then show "\<not> is_blank (c # s)" by (simp add: is_blank_def)
qed

text \<open>Printable ASCII at both ends is enough.\<close>

definition is_ascii_graphic :: "char \<Rightarrow> bool" where
  "is_ascii_graphic c \<longleftrightarrow> 33 \<le> (of_char c :: nat) \<and> (of_char c :: nat) \<le> 126"

lemma graphic_no_space:
  "is_ascii_graphic c \<Longrightarrow> c \<notin> set ws_first" "is_ascii_graphic c \<Longrightarrow> c \<notin> set ws_last"
proof -
  have "list_all (\<lambda>c. \<not> is_ascii_graphic c) ws_first" "list_all (\<lambda>c. \<not> is_ascii_graphic c) ws_last"
    by code_simp+
  then show "is_ascii_graphic c \<Longrightarrow> c \<notin> set ws_first" "is_ascii_graphic c \<Longrightarrow> c \<notin> set ws_last"
    by (auto simp: list_all_iff)
qed

lemma not_blank_ascii:
  "is_ascii_graphic c \<Longrightarrow> is_ascii_graphic (last (c # s)) \<Longrightarrow> \<not> is_blank (c # s)"
  by (rule is_blank_False(1)) (rule graphic_no_space, assumption)+

lemma trim_graphic: "is_ascii_graphic c \<Longrightarrow> is_ascii_graphic (last (c # s)) \<Longrightarrow> trim (c # s) = c # s"
  by (rule is_blank_False(2)) (rule graphic_no_space, assumption)+

section \<open>Characters and ASCII case\<close>

text \<open>A byte starts a character unless it is a continuation byte, \<open>10xxxxxx\<close>.\<close>

definition is_continuation :: "char \<Rightarrow> bool" where
  "is_continuation c \<longleftrightarrow> 0x80 \<le> (of_char c :: nat) \<and> (of_char c :: nat) < 0xC0"

definition char_count :: "string \<Rightarrow> nat" where
  "char_count s = length (filter (\<lambda>c. \<not> is_continuation c) s)"

definition is_ascii_digit :: "char \<Rightarrow> bool" where
  "is_ascii_digit c \<longleftrightarrow> 48 \<le> (of_char c :: nat) \<and> (of_char c :: nat) \<le> 57"

definition is_ascii_lower :: "char \<Rightarrow> bool" where
  "is_ascii_lower c \<longleftrightarrow> 97 \<le> (of_char c :: nat) \<and> (of_char c :: nat) \<le> 122"

definition is_ascii_upper :: "char \<Rightarrow> bool" where
  "is_ascii_upper c \<longleftrightarrow> 65 \<le> (of_char c :: nat) \<and> (of_char c :: nat) \<le> 90"

definition is_ascii_alphanumeric :: "char \<Rightarrow> bool" where
  "is_ascii_alphanumeric c \<longleftrightarrow> is_ascii_digit c \<or> is_ascii_lower c \<or> is_ascii_upper c"

definition to_ascii_lower :: "char \<Rightarrow> char" where
  "to_ascii_lower c = (if is_ascii_upper c then char_of ((of_char c :: nat) + 32) else c)"

definition to_ascii_lowercase :: "string \<Rightarrow> string" where
  "to_ascii_lowercase s = map to_ascii_lower s"

definition eq_ignore_ascii_case :: "string \<Rightarrow> string \<Rightarrow> bool" where
  "eq_ignore_ascii_case a b \<longleftrightarrow> to_ascii_lowercase a = to_ascii_lowercase b"

definition starts_with :: "string \<Rightarrow> string \<Rightarrow> bool" where
  "starts_with s p \<longleftrightarrow> take (length p) s = p"

definition ends_with :: "string \<Rightarrow> string \<Rightarrow> bool" where
  "ends_with s p \<longleftrightarrow> length p \<le> length s \<and> drop (length s - length p) s = p"

definition strip_prefix :: "string \<Rightarrow> string \<Rightarrow> string option" where
  "strip_prefix s p = (if starts_with s p then Some (drop (length p) s) else None)"

lemma starts_with_append [simp]: "starts_with (p @ s) p"
  by (simp add: starts_with_def)

lemma strip_prefix_append [simp]: "strip_prefix (p @ s) p = Some s"
  by (simp add: strip_prefix_def)

lemma strip_prefix_Some: "strip_prefix s p = Some r \<longleftrightarrow> s = p @ r"
  by (auto simp: strip_prefix_def starts_with_def split: if_splits) (metis append_take_drop_id)

lemma char_count_append [simp]: "char_count (s @ t) = char_count s + char_count t"
  by (simp add: char_count_def)

lemma char_count_le: "char_count s \<le> length s"
  by (simp add: char_count_def)

section \<open>UTF-8\<close>

definition between :: "nat \<Rightarrow> nat \<Rightarrow> char \<Rightarrow> bool" where
  "between lo hi c \<longleftrightarrow> lo \<le> of_char c \<and> of_char c \<le> hi"

definition cont_byte :: "char \<Rightarrow> bool" where
  "cont_byte c = between 0x80 0xBF c"

text \<open>The length of the well-formed character a byte sequence starts with, if it does
  (the table of the Unicode standard: no overlong forms, surrogates or values beyond
  \<open>U+10FFFF\<close>).\<close>

fun utf8_char_len :: "string \<Rightarrow> nat option" where
  "utf8_char_len [] = None"
| "utf8_char_len (a # s) =
     (if between 0 0x7F a then Some 1
      else
        (case s of
           [] \<Rightarrow> None
         | b # t \<Rightarrow>
             if between 0xC2 0xDF a \<and> cont_byte b then Some 2
             else
               (case t of
                  [] \<Rightarrow> None
                | c # u \<Rightarrow>
                    if cont_byte c \<and>
                       ((between 0xE0 0xE0 a \<and> between 0xA0 0xBF b) \<or>
                        (between 0xE1 0xEC a \<and> cont_byte b) \<or>
                        (between 0xED 0xED a \<and> between 0x80 0x9F b) \<or>
                        (between 0xEE 0xEF a \<and> cont_byte b))
                    then Some 3
                    else
                      (case u of
                         [] \<Rightarrow> None
                       | d # v \<Rightarrow>
                           if cont_byte c \<and> cont_byte d \<and>
                              ((between 0xF0 0xF0 a \<and> between 0x90 0xBF b) \<or>
                               (between 0xF1 0xF3 a \<and> cont_byte b) \<or>
                               (between 0xF4 0xF4 a \<and> between 0x80 0x8F b))
                           then Some 4 else None))))"

lemma utf8_char_len_pos: "utf8_char_len s = Some n \<Longrightarrow> 0 < n \<and> n \<le> length s"
  by (cases s rule: utf8_char_len.cases) (auto split: if_splits list.splits)

text \<open>\<open>str::from_utf8(bytes).is_ok()\<close>.\<close>

function is_utf8 :: "string \<Rightarrow> bool" where
  "is_utf8 s =
     (case utf8_char_len s of
        None \<Rightarrow> s = []
      | Some n \<Rightarrow> is_utf8 (drop n s))"
  by pat_completeness auto

termination
  by (relation "measure length") (auto dest: utf8_char_len_pos)

declare is_utf8.simps [simp del]

lemma is_utf8_Nil [simp]: "is_utf8 []"
  by (simp add: is_utf8.simps)

lemma is_utf8_ascii: "list_all (between 0 0x7F) s \<Longrightarrow> is_utf8 s"
  by (induction s) (auto simp: is_utf8.simps [of "_ # _"])

section \<open>Replacing and splitting\<close>

definition replace_char :: "char \<Rightarrow> char \<Rightarrow> string \<Rightarrow> string" where
  "replace_char a b s = map (\<lambda>c. if c = a then b else c) s"

definition trim_end_char :: "char \<Rightarrow> string \<Rightarrow> string" where
  "trim_end_char c s = rev (dropWhile (\<lambda>x. x = c) (rev s))"

text \<open>\<open>split_once\<close> on a single character.\<close>

fun split_once :: "char \<Rightarrow> string \<Rightarrow> (string \<times> string) option" where
  "split_once c [] = None"
| "split_once c (x # s) =
     (if x = c then Some ([], s)
      else map_option (\<lambda>(a, b). (x # a, b)) (split_once c s))"

lemma split_once_Some: "split_once c s = Some (a, b) \<longleftrightarrow> s = a @ c # b \<and> c \<notin> set a"
proof (induction s arbitrary: a)
  case Nil
  then show ?case by simp
next
  case (Cons x s)
  then show ?case by (cases a) auto
qed

end
