(* ===== verification/Waves.thy ===== *)
theory Waves
  imports OrdMap RustStr "HOL-Library.Multiset"
begin

text \<open>
  \<open>gatewayctl/src/waves.rs\<close>: label selectors, the ordered wave plan, the assignment of
  nodes to waves and the validation of \<open>waves.yaml\<close>.  The YAML reader (\<open>serde_yaml\<close>) is a
  parameter of \<open>parse_wave_plan\<close>: it turns the document into a \<open>waves_file\<close> or an error
  message.  Error texts are constructors of \<open>wave_plan_error\<close> that carry what the text
  names.  Lemmas: which wave a node lands in, that the assignment partitions the nodes,
  and what holds of every plan the parser accepts.
\<close>

section \<open>Selectors\<close>

type_synonym labels = "(string, string) btree"

record selector_term =
  st_label :: string
  st_in_values :: "string list"

definition eq_term :: "string \<Rightarrow> string \<Rightarrow> selector_term" where
  "eq_term label value = \<lparr>st_label = label, st_in_values = [value]\<rparr>"

definition in_set_term :: "string \<Rightarrow> string list \<Rightarrow> selector_term" where
  "in_set_term label values = \<lparr>st_label = label, st_in_values = values\<rparr>"

definition term_matches :: "selector_term \<Rightarrow> labels \<Rightarrow> bool" where
  "term_matches t labels =
     (case bt_get labels (st_label t) of
        Some v \<Rightarrow> list_ex (\<lambda>accepted. accepted = v) (st_in_values t)
      | None \<Rightarrow> False)"

record selector =
  sel_terms :: "selector_term list"

definition sel_everything :: selector where
  "sel_everything = \<lparr>sel_terms = []\<rparr>"

definition sel_of :: "selector_term list \<Rightarrow> selector" where
  "sel_of terms = \<lparr>sel_terms = terms\<rparr>"

definition sel_matches :: "selector \<Rightarrow> labels \<Rightarrow> bool" where
  "sel_matches s labels = list_all (\<lambda>t. term_matches t labels) (sel_terms s)"

section \<open>The plan\<close>

record wave =
  wv_name :: string
  wv_selector :: selector

datatype unmatched_policy = ImplicitFinalWave

record wave_plan =
  wp_waves :: "wave list"
  wp_unmatched :: unmatched_policy

definition IMPLICIT_FINAL_WAVE :: string where
  "IMPLICIT_FINAL_WAVE = ''implicit-final''"

definition wp_single :: wave_plan where
  "wp_single = \<lparr>wp_waves = [\<lparr>wv_name = ''all'', wv_selector = sel_everything\<rparr>],
                wp_unmatched = ImplicitFinalWave\<rparr>"

definition wp_new :: "wave list \<Rightarrow> unmatched_policy \<Rightarrow> wave_plan" where
  "wp_new ws u = \<lparr>wp_waves = ws, wp_unmatched = u\<rparr>"

record assigned_wave =
  aw_name :: string
  aw_node_ids :: "string list"

definition wave_position :: "wave list \<Rightarrow> labels \<Rightarrow> nat option" where
  "wave_position ws labels = position (\<lambda>w. sel_matches (wv_selector w) labels) ws"

definition assign_step ::
  "wave list \<Rightarrow> string \<times> labels \<Rightarrow> string list list \<times> string list \<Rightarrow> string list list \<times> string list"
where
  "assign_step ws n b =
     (case wave_position ws (snd n) of
        Some idx \<Rightarrow> ((fst b)[idx := fst b ! idx @ [fst n]], snd b)
      | None \<Rightarrow> (fst b, snd b @ [fst n]))"

definition assign :: "wave_plan \<Rightarrow> (string \<times> labels) list \<Rightarrow> assigned_wave list" where
  "assign p nodes =
     (let b = fold (assign_step (wp_waves p)) (sort_key fst nodes)
                (replicate (length (wp_waves p)) [], []);
          out = map (\<lambda>(w, ids). \<lparr>aw_name = wv_name w, aw_node_ids = ids\<rparr>)
                  (zip (wp_waves p) (fst b))
      in if snd b = [] then out
         else out @ [\<lparr>aw_name = IMPLICIT_FINAL_WAVE, aw_node_ids = snd b\<rparr>])"

definition wave_index_for :: "wave_plan \<Rightarrow> labels \<Rightarrow> nat" where
  "wave_index_for p labels =
     (case wave_position (wp_waves p) labels of Some i \<Rightarrow> i | None \<Rightarrow> length (wp_waves p))"

section \<open>Reading waves.yaml\<close>

datatype selector_value = One string | Many "string list"

record wave_entry =
  we_name :: string
  we_selector :: "(string, selector_value) btree"

record waves_file =
  wf_waves :: "wave_entry list"

datatype wave_plan_error =
    YamlError string
  | EmptyWaveName
  | ReservedWaveName
  | EmptyValueList string string
  | DuplicateWaveName string

fun selector_terms ::
  "string \<Rightarrow> (string \<times> selector_value) list \<Rightarrow> wave_plan_error + selector_term list"
where
  "selector_terms name [] = Inr []"
| "selector_terms name ((label, val) # rest) =
     (case (case val of
              One v \<Rightarrow> Inr [v]
            | Many vs \<Rightarrow> if vs = [] then Inl (EmptyValueList name label) else Inr vs) of
        Inl e \<Rightarrow> Inl e
      | Inr in_values \<Rightarrow>
          (case selector_terms name rest of
             Inl e \<Rightarrow> Inl e
           | Inr ts \<Rightarrow> Inr (\<lparr>st_label = label, st_in_values = in_values\<rparr> # ts)))"

fun build_waves :: "wave_entry list \<Rightarrow> wave_plan_error + wave list" where
  "build_waves [] = Inr []"
| "build_waves (entry # rest) =
     (if is_blank (we_name entry) then Inl EmptyWaveName
      else if we_name entry = IMPLICIT_FINAL_WAVE then Inl ReservedWaveName
      else
        (case selector_terms (we_name entry) (we_selector entry) of
           Inl e \<Rightarrow> Inl e
         | Inr terms \<Rightarrow>
             (case build_waves rest of
                Inl e \<Rightarrow> Inl e
              | Inr ws \<Rightarrow>
                  Inr (\<lparr>wv_name = we_name entry, wv_selector = sel_of terms\<rparr> # ws))))"

fun first_duplicate :: "string set \<Rightarrow> wave list \<Rightarrow> string option" where
  "first_duplicate seen [] = None"
| "first_duplicate seen (w # ws) =
     (if wv_name w \<in> seen then Some (wv_name w)
      else first_duplicate (insert (wv_name w) seen) ws)"

definition parse_wave_plan ::
  "(string \<Rightarrow> string + waves_file) \<Rightarrow> string \<Rightarrow> wave_plan_error + wave_plan"
where
  "parse_wave_plan from_str yaml =
     (if is_blank yaml then Inr wp_single
      else
        (case from_str yaml of
           Inl e \<Rightarrow> Inl (YamlError e)
         | Inr parsed \<Rightarrow>
             if wf_waves parsed = [] then Inr wp_single
             else
               (case build_waves (wf_waves parsed) of
                  Inl e \<Rightarrow> Inl e
                | Inr ws \<Rightarrow>
                    (case first_duplicate {} ws of
                       Some n \<Rightarrow> Inl (DuplicateWaveName n)
                     | None \<Rightarrow> Inr (wp_new ws ImplicitFinalWave)))))"

section \<open>Where a node lands\<close>

lemma sel_everything_matches [simp]: "sel_matches sel_everything labels"
  by (simp add: sel_matches_def sel_everything_def)

lemma wave_index_le: "wave_index_for p labels \<le> length (wp_waves p)"
  by (auto simp: wave_index_for_def wave_position_def dest: position_Some split: option.splits)

text \<open>The ids of the nodes with a given wave index, in order.\<close>

definition ids_in :: "wave_plan \<Rightarrow> nat \<Rightarrow> (string \<times> labels) list \<Rightarrow> string list" where
  "ids_in p i nodes = map fst (filter (\<lambda>n. wave_index_for p (snd n) = i) nodes)"

lemma assign_step_index:
  assumes "length (fst b) = length (wp_waves p)"
  shows "assign_step (wp_waves p) n b =
     (if wave_index_for p (snd n) < length (wp_waves p)
      then ((fst b)[wave_index_for p (snd n) := fst b ! wave_index_for p (snd n) @ [fst n]], snd b)
      else (fst b, snd b @ [fst n]))"
  by (auto simp: assign_step_def wave_index_for_def wave_position_def
      dest: position_Some split: option.splits)

lemma assign_buckets:
  assumes "length (fst b) = length (wp_waves p)"
  shows "fold (assign_step (wp_waves p)) nodes b =
     (map (\<lambda>i. fst b ! i @ ids_in p i nodes) [0 ..< length (wp_waves p)],
      snd b @ ids_in p (length (wp_waves p)) nodes)"
  using assms
proof (induction nodes arbitrary: b)
  case Nil
  then show ?case by (auto simp: ids_in_def map_nth [symmetric] intro!: prod_eqI nth_equalityI)
next
  case (Cons n nodes)
  let ?b = "assign_step (wp_waves p) n b"
  have len: "length (fst ?b) = length (wp_waves p)"
    using Cons.prems by (simp add: assign_step_index)
  have le: "wave_index_for p (snd n) \<le> length (wp_waves p)" by (rule wave_index_le)
  show ?case
    unfolding fold_Cons comp_apply Cons.IH [OF len]
    using Cons.prems le by (auto simp: assign_step_index ids_in_def nth_list_update)
qed

lemma assign_alt:
  "assign p nodes =
     map (\<lambda>i. \<lparr>aw_name = wv_name (wp_waves p ! i), aw_node_ids = ids_in p i (sort_key fst nodes)\<rparr>)
       [0 ..< length (wp_waves p)] @
     (let last = ids_in p (length (wp_waves p)) (sort_key fst nodes)
      in if last = [] then [] else [\<lparr>aw_name = IMPLICIT_FINAL_WAVE, aw_node_ids = last\<rparr>])"
proof -
  have "zip (wp_waves p) (map f [0 ..< length (wp_waves p)]) =
      map (\<lambda>i. (wp_waves p ! i, f i)) [0 ..< length (wp_waves p)]" for f :: "nat \<Rightarrow> string list"
    by (rule nth_equalityI) auto
  then show ?thesis
    by (simp add: assign_def assign_buckets Let_def comp_def cong: map_cong)
qed

lemma mset_ids_in_le:
  "(\<Sum>i \<leftarrow> [0 ..< Suc k]. mset (ids_in p i nodes)) =
     mset (map fst (filter (\<lambda>n. wave_index_for p (snd n) \<le> k) nodes))"
proof (induction k)
  case 0
  then show ?case by (simp add: ids_in_def)
next
  case (Suc k)
  have "mset (filter (\<lambda>n. wave_index_for p (snd n) \<le> Suc k) nodes) =
      mset (filter (\<lambda>n. wave_index_for p (snd n) \<le> k) nodes) +
      mset (filter (\<lambda>n. wave_index_for p (snd n) = Suc k) nodes)"
    by (induction nodes) auto
  with Suc.IH show ?case by (simp add: ids_in_def)
qed

lemma assign_node_ids:
  "map aw_node_ids (assign p nodes) =
     map (\<lambda>i. ids_in p i (sort_key fst nodes)) [0 ..< length (wp_waves p)] @
     filter (\<lambda>ids. ids \<noteq> []) [ids_in p (length (wp_waves p)) (sort_key fst nodes)]"
  by (simp add: assign_alt Let_def comp_def)

lemma mset_assign:
  "mset (concat (map aw_node_ids (assign p nodes))) = mset (map fst nodes)"
proof -
  let ?ids = "\<lambda>i. ids_in p i (sort_key fst nodes)" and ?n = "length (wp_waves p)"
  have "mset (concat (map aw_node_ids (assign p nodes))) = (\<Sum>i \<leftarrow> [0 ..< Suc ?n]. mset (?ids i))"
    by (simp add: assign_node_ids mset_concat comp_def)
  also have "\<dots> = mset (map fst (filter (\<lambda>n. wave_index_for p (snd n) \<le> ?n) (sort_key fst nodes)))"
    by (rule mset_ids_in_le)
  also have "\<dots> = mset (map fst nodes)"
    by (simp add: wave_index_le)
  finally show ?thesis .
qed

text \<open>Assignment agrees with the wave index and loses no node: the bucket at
  position \<open>i\<close> of the assignment holds exactly the ids of the nodes whose
  \<open>wave_index_for\<close> is \<open>i\<close>, in ascending id order (the bucket after the configured waves is
  the implicit final one, present only when some node falls into it), and all buckets
  together hold every node exactly as often as it was given.\<close>

theorem assign_partitions_nodes:
  "map aw_node_ids (assign p nodes) =
     map (\<lambda>i. map fst (filter (\<lambda>n. wave_index_for p (snd n) = i) (sort_key fst nodes)))
       [0 ..< length (wp_waves p)] @
     filter (\<lambda>ids. ids \<noteq> [])
       [map fst (filter (\<lambda>n. wave_index_for p (snd n) = length (wp_waves p)) (sort_key fst nodes))] \<and>
   mset (concat (map aw_node_ids (assign p nodes))) = mset (map fst nodes)"
  using assign_node_ids [of p nodes] mset_assign [of p nodes] by (simp add: ids_in_def)

section \<open>What the parser accepts\<close>

lemma selector_terms_values:
  "selector_terms name sel = Inr ts \<Longrightarrow>
     map st_label ts = map fst sel \<and> (\<forall>t \<in> set ts. st_in_values t \<noteq> [])"
  by (induction name sel arbitrary: ts rule: selector_terms.induct)
    (auto split: sum.splits selector_value.splits if_splits)

lemma build_waves_ok:
  "build_waves es = Inr ws \<Longrightarrow>
     map wv_name ws = map we_name es \<and>
     (\<forall>w \<in> set ws. \<not> is_blank (wv_name w) \<and> wv_name w \<noteq> IMPLICIT_FINAL_WAVE \<and>
        (\<forall>t \<in> set (sel_terms (wv_selector w)). st_in_values t \<noteq> []))"
proof (induction es arbitrary: ws rule: build_waves.induct)
  case 1
  then show ?case by simp
next
  case (2 entry rest)
  from "2.prems" obtain terms vs where
    e: "\<not> is_blank (we_name entry)" "we_name entry \<noteq> IMPLICIT_FINAL_WAVE"
      "selector_terms (we_name entry) (we_selector entry) = Inr terms"
      "build_waves rest = Inr vs"
      "ws = \<lparr>wv_name = we_name entry, wv_selector = sel_of terms\<rparr> # vs"
    by (auto split: if_splits sum.splits)
  from "2.IH" [OF e(1,2,3,4)] selector_terms_values [OF e(3)] e(1,2) show ?case
    by (simp add: e(5) sel_of_def)
qed

lemma first_duplicate_None:
  "first_duplicate seen ws = None \<longleftrightarrow>
     distinct (map wv_name ws) \<and> set (map wv_name ws) \<inter> seen = {}"
  by (induction seen ws rule: first_duplicate.induct) auto

lemma not_blank_all: "\<not> is_blank ''all''"
  by (rule not_blank_ascii; code_simp)

lemma parse_wave_plan_ok:
  assumes "parse_wave_plan from_str yaml = Inr p"
  shows "wp_waves p \<noteq> [] \<and> distinct (map wv_name (wp_waves p)) \<and>
    (\<forall>w \<in> set (wp_waves p). \<not> is_blank (wv_name w) \<and> wv_name w \<noteq> IMPLICIT_FINAL_WAVE \<and>
       (\<forall>t \<in> set (sel_terms (wv_selector w)). st_in_values t \<noteq> []))"
proof (cases "p = wp_single")
  case True
  then show ?thesis
    by (simp add: wp_single_def sel_everything_def not_blank_all IMPLICIT_FINAL_WAVE_def)
next
  case False
  with assms obtain parsed where parsed: "from_str yaml = Inr parsed" "wf_waves parsed \<noteq> []"
    by (cases "from_str yaml") (auto simp: parse_wave_plan_def split: if_splits)
  with assms False obtain ws where ws: "build_waves (wf_waves parsed) = Inr ws"
    by (cases "build_waves (wf_waves parsed)") (auto simp: parse_wave_plan_def split: if_splits)
  with assms False parsed have p: "wf_waves parsed \<noteq> []" "build_waves (wf_waves parsed) = Inr ws"
    "first_duplicate {} ws = None" "p = wp_new ws ImplicitFinalWave"
    by (auto simp: parse_wave_plan_def split: if_splits option.splits)
  from build_waves_ok [OF p(2)] p(1) have "ws \<noteq> []" by auto
  with build_waves_ok [OF p(2)] p(3) show ?thesis
    by (simp add: p(4) wp_new_def first_duplicate_None)
qed

lemma assign_names:
  "map aw_name (assign p nodes) =
     map wv_name (wp_waves p) @
     (if ids_in p (length (wp_waves p)) (sort_key fst nodes) = [] then [] else [IMPLICIT_FINAL_WAVE])"
  by (auto simp: assign_alt Let_def comp_def intro: nth_equalityI)

text \<open>The wave names the rollout reports under are unambiguous: whatever the
  YAML reader returns for the document, if \<open>parse_wave_plan\<close> accepts it then assigning any
  nodes gives waves of pairwise different, non-blank names, and no selector term has an
  empty value list.\<close>

theorem parsed_plan_names_unambiguous:
  assumes "parse_wave_plan from_str yaml = Inr p"
  shows "distinct (map aw_name (assign p nodes)) \<and>
    (\<forall>w \<in> set (assign p nodes). \<not> is_blank (aw_name w)) \<and>
    (\<forall>w \<in> set (wp_waves p). \<forall>t \<in> set (sel_terms (wv_selector w)). st_in_values t \<noteq> [])"
proof -
  note ok = parse_wave_plan_ok [OF assms]
  have "set (map aw_name (assign p nodes)) \<subseteq> set (map wv_name (wp_waves p)) \<union> {IMPLICIT_FINAL_WAVE}"
    unfolding assign_names by auto
  moreover have "\<not> is_blank IMPLICIT_FINAL_WAVE"
    unfolding IMPLICIT_FINAL_WAVE_def
    by (rule not_blank_ascii; code_simp)
  ultimately have blank: "\<forall>w \<in> set (assign p nodes). \<not> is_blank (aw_name w)"
    using ok by (auto simp: subset_iff)
  have "distinct (map aw_name (assign p nodes))"
    unfolding assign_names using ok by auto
  with blank ok show ?thesis by blast
qed

definition example_waves_file :: waves_file where
  "example_waves_file = \<lparr>wf_waves =
     [\<lparr>we_name = ''eu'', we_selector = [(''region'', One ''eu'')]\<rparr>,
      \<lparr>we_name = ''us'', we_selector = [(''region'', Many [''us'', ''ap''])]\<rparr>]\<rparr>"

lemma not_blank_eu: "\<not> is_blank ''eu''"
  by (rule not_blank_ascii; code_simp)

lemma not_blank_us: "\<not> is_blank ''us''"
  by (rule not_blank_ascii; code_simp)

theorem parsed_plan_names_unambiguous_witness:
  "\<exists>p. parse_wave_plan (\<lambda>_. Inr example_waves_file) ''eu'' = Inr p \<and>
     distinct (map aw_name (assign p [(''n1'', [(''region'', ''eu'')]), (''n2'', [])]))"
proof -
  obtain p where p: "parse_wave_plan (\<lambda>_. Inr example_waves_file) ''eu'' = Inr p"
    by (simp add: parse_wave_plan_def example_waves_file_def not_blank_eu not_blank_us
        IMPLICIT_FINAL_WAVE_def)
  from parsed_plan_names_unambiguous [OF p] p show ?thesis by blast
qed

end
