(* ===== verification/GatewaySet.thy ===== *)
theory GatewaySet
  imports Waves
begin

text \<open>
  \<open>gatewayctl/src/gatewayset.rs\<close>: GatewaySets, the deep merge of their overlays onto the
  assembled document, and the validation of \<open>gatewaysets.yaml\<close>.  A \<open>serde_yaml::Value\<close> is
  the datatype \<open>yaml\<close>; its \<open>Mapping\<close> is documented as an insertion-ordered map, so it is the
  list of its entries, \<open>get\<close> finds the entry of a key and \<open>insert\<close> replaces the value in place
  or appends.  The reader \<open>serde_yaml::from_str\<close> is a parameter.  Lemmas: what a merged
  document holds at every path, and what an accepted file guarantees.
\<close>

section \<open>YAML values\<close>

datatype yaml =
    YNull
  | YBool bool
  | YNumber string
  | YString string
  | YSequence "yaml list"
  | YMapping "(yaml \<times> yaml) list"
  | YTagged string yaml

type_synonym ymap = "(yaml \<times> yaml) list"

definition ym_get :: "ymap \<Rightarrow> yaml \<Rightarrow> yaml option" where
  "ym_get m k = map_of m k"

fun ym_insert :: "yaml \<Rightarrow> yaml \<Rightarrow> ymap \<Rightarrow> ymap" where
  "ym_insert k v [] = [(k, v)]"
| "ym_insert k v ((a, b) # m) = (if a = k then (a, v) # m else (a, b) # ym_insert k v m)"

definition ym_wf :: "ymap \<Rightarrow> bool" where
  "ym_wf m \<longleftrightarrow> distinct (map fst m)"

lemma map_of_ym_insert: "map_of (ym_insert k v m) = (map_of m)(k \<mapsto> v)"
  by (induction k v m rule: ym_insert.induct) (auto simp: fun_eq_iff)

lemma keys_ym_insert: "map fst (ym_insert k v m) =
    (if k \<in> fst ` set m then map fst m else map fst m @ [k])"
  by (induction k v m rule: ym_insert.induct) auto

lemma ym_wf_insert [wf_intros]: "ym_wf m \<Longrightarrow> ym_wf (ym_insert k v m)"
  by (auto simp: ym_wf_def keys_ym_insert)

definition ym_remove :: "yaml \<Rightarrow> ymap \<Rightarrow> ymap" where
  "ym_remove k m = filter (\<lambda>(a, _). a \<noteq> k) m"

lemma map_of_ym_remove: "map_of (ym_remove k m) = (map_of m)(k := None)"
  by (induction m) (auto simp: ym_remove_def fun_eq_iff)

lemma ym_wf_remove [wf_intros]: "ym_wf m \<Longrightarrow> ym_wf (ym_remove k m)"
  by (induction m) (auto simp: ym_wf_def ym_remove_def)

interpretation ym: kv_store "[]" ym_insert ym_remove ym_get ym_wf
  by unfold_locales
    (auto simp: ym_get_def map_of_ym_insert map_of_ym_remove ym_wf_def
      intro: ym_wf_insert [unfolded ym_wf_def] ym_wf_remove [unfolded ym_wf_def])

lemma ym_get_Nil [simp]: "ym_get [] k = None"
  by (rule ym.get_empty)

lemma ym_get_Cons [simp]: "ym_get ((a, b) # m) k = (if k = a then Some b else ym_get m k)"
  by (simp add: ym_get_def)

lemma ym_get_None: "ym_get m k = None \<longleftrightarrow> k \<notin> fst ` set m"
  by (simp add: ym_get_def map_of_eq_None_iff)

section \<open>The deep merge\<close>

function deep_merge_mapping :: "ymap \<Rightarrow> ymap \<Rightarrow> ymap" where
  "deep_merge_mapping base [] = base"
| "deep_merge_mapping base ((k, ov) # overlay) =
     deep_merge_mapping
       (case (ym_get base k, ov) of
          (Some (YMapping base_child), YMapping ov_child) \<Rightarrow>
            ym_insert k (YMapping (deep_merge_mapping base_child ov_child)) base
        | _ \<Rightarrow> ym_insert k ov base)
       overlay"
  by pat_completeness auto

termination
  by (relation "measure (\<lambda>(b, ov). size_list (size_prod size size) ov)") auto

section \<open>GatewaySets\<close>

record gateway_set =
  gs_name :: string
  gs_selector :: selector
  gs_overlay :: ymap

type_synonym gateway_sets = "gateway_set list"

definition gs_matches :: "gateway_set \<Rightarrow> labels \<Rightarrow> bool" where
  "gs_matches g labels = sel_matches (gs_selector g) labels"

definition matching :: "gateway_sets \<Rightarrow> labels \<Rightarrow> gateway_set list" where
  "matching sets labels = filter (\<lambda>g. gs_matches g labels) sets"

definition stamp :: "gateway_sets \<Rightarrow> ymap \<Rightarrow> labels \<Rightarrow> ymap \<times> nat" where
  "stamp sets doc labels =
     (let ms = matching sets labels
      in (foldl (\<lambda>d g. deep_merge_mapping d (gs_overlay g)) doc ms, length ms))"

record gateway_set_entry =
  ge_name :: string
  ge_selector :: "(string, selector_value) btree"
  ge_overlay :: ymap

datatype gateway_set_error =
    GsYaml string
  | GsEmptyName
  | GsEmptyValueList string string
  | GsDuplicate string

fun gs_terms ::
  "string \<Rightarrow> (string \<times> selector_value) list \<Rightarrow> gateway_set_error + selector_term list"
where
  "gs_terms name [] = Inr []"
| "gs_terms name ((label, val) # rest) =
     (case (case val of
              One v \<Rightarrow> Inr [v]
            | Many vs \<Rightarrow> if vs = [] then Inl (GsEmptyValueList name label) else Inr vs) of
        Inl e \<Rightarrow> Inl e
      | Inr in_values \<Rightarrow>
          (case gs_terms name rest of
             Inl e \<Rightarrow> Inl e
           | Inr ts \<Rightarrow> Inr (\<lparr>st_label = label, st_in_values = in_values\<rparr> # ts)))"

fun build_sets :: "gateway_set_entry list \<Rightarrow> gateway_set_error + gateway_set list" where
  "build_sets [] = Inr []"
| "build_sets (entry # rest) =
     (if is_blank (ge_name entry) then Inl GsEmptyName
      else
        (case gs_terms (ge_name entry) (ge_selector entry) of
           Inl e \<Rightarrow> Inl e
         | Inr terms \<Rightarrow>
             (case build_sets rest of
                Inl e \<Rightarrow> Inl e
              | Inr gs \<Rightarrow> Inr (\<lparr>gs_name = ge_name entry, gs_selector = sel_of terms,
                                gs_overlay = ge_overlay entry\<rparr> # gs))))"

fun gs_duplicate :: "string set \<Rightarrow> gateway_set list \<Rightarrow> string option" where
  "gs_duplicate seen [] = None"
| "gs_duplicate seen (g # gs) =
     (if gs_name g \<in> seen then Some (gs_name g) else gs_duplicate (insert (gs_name g) seen) gs)"

definition parse_gatewaysets ::
  "(string \<Rightarrow> string + gateway_set_entry list) \<Rightarrow> string \<Rightarrow> gateway_set_error + gateway_sets"
where
  "parse_gatewaysets from_str yaml =
     (if is_blank yaml then Inr []
      else
        (case from_str yaml of
           Inl e \<Rightarrow> Inl (GsYaml e)
         | Inr parsed \<Rightarrow>
             (case build_sets parsed of
                Inl e \<Rightarrow> Inl e
              | Inr gs \<Rightarrow>
                  let sets = sort_key gs_name gs in
                  (case gs_duplicate {} sets of
                     Some n \<Rightarrow> Inl (GsDuplicate n)
                   | None \<Rightarrow> Inr sets))))"

section \<open>What the merge holds\<close>

text \<open>One key of a merged mapping.\<close>

definition merge_value :: "yaml option \<Rightarrow> yaml option \<Rightarrow> yaml option" where
  "merge_value b ov =
     (case ov of
        None \<Rightarrow> b
      | Some (YMapping oc) \<Rightarrow>
          (case b of Some (YMapping bc) \<Rightarrow> Some (YMapping (deep_merge_mapping bc oc)) | _ \<Rightarrow> ov)
      | _ \<Rightarrow> ov)"

lemma merge_step:
  assumes "ym_wf base"
  shows "ym_get (case (ym_get base k, ov) of
          (Some (YMapping base_child), YMapping ov_child) \<Rightarrow>
            ym_insert k (YMapping (deep_merge_mapping base_child ov_child)) base
        | _ \<Rightarrow> ym_insert k ov base) k' =
     (if k' = k then merge_value (ym_get base k) (Some ov) else ym_get base k')"
  using assms by (auto simp: merge_value_def ym.get_insert split: option.splits yaml.splits)

lemma merge_step_wf:
  "ym_wf base \<Longrightarrow> ym_wf (case (ym_get base k, ov) of
          (Some (YMapping base_child), YMapping ov_child) \<Rightarrow>
            ym_insert k (YMapping (deep_merge_mapping base_child ov_child)) base
        | _ \<Rightarrow> ym_insert k ov base)"
  by (auto intro: wf_intros split: option.splits yaml.splits)

lemma deep_merge_wf [wf_intros]: "ym_wf base \<Longrightarrow> ym_wf (deep_merge_mapping base overlay)"
proof (induction overlay arbitrary: base)
  case Nil
  then show ?case by simp
next
  case (Cons kv overlay)
  obtain k ov where kv: "kv = (k, ov)" by (cases kv)
  show ?case unfolding kv deep_merge_mapping.simps by (rule Cons.IH [OF merge_step_wf [OF Cons.prems]])
qed

lemma get_deep_merge:
  "ym_wf base \<Longrightarrow> ym_wf overlay \<Longrightarrow>
   ym_get (deep_merge_mapping base overlay) k = merge_value (ym_get base k) (ym_get overlay k)"
proof (induction overlay arbitrary: base)
  case Nil
  then show ?case by (simp add: merge_value_def)
next
  case (Cons kv overlay)
  obtain a ov where kv: "kv = (a, ov)" by (cases kv)
  have wf: "ym_wf overlay" "ym_get overlay a = None"
    using Cons.prems(2) by (auto simp: ym_wf_def ym_get_None kv)
  show ?case
    unfolding kv deep_merge_mapping.simps Cons.IH [OF merge_step_wf [OF Cons.prems(1)] wf(1)]
      merge_step [OF Cons.prems(1)]
    using wf(2) by (auto simp: merge_value_def)
qed

text \<open>The value at a path of keys, and the paths a document settles: those it has a
  non-mapping value at, or that pass through one.\<close>

fun at_path :: "yaml list \<Rightarrow> yaml \<Rightarrow> yaml option" where
  "at_path [] v = Some v"
| "at_path (k # ks) (YMapping m) = (case ym_get m k of None \<Rightarrow> None | Some v \<Rightarrow> at_path ks v)"
| "at_path (k # ks) v = None"

fun settles :: "yaml \<Rightarrow> yaml list \<Rightarrow> bool" where
  "settles (YMapping m) [] = False"
| "settles (YMapping m) (k # ks) = (case ym_get m k of None \<Rightarrow> False | Some v \<Rightarrow> settles v ks)"
| "settles v ks = True"

text \<open>Every mapping of a document has each key once.\<close>

fun yaml_wf :: "yaml \<Rightarrow> bool" where
  "yaml_wf (YMapping m) \<longleftrightarrow> ym_wf m \<and> (\<forall>(k, v) \<in> set m. yaml_wf v)"
| "yaml_wf (YSequence vs) \<longleftrightarrow> (\<forall>v \<in> set vs. yaml_wf v)"
| "yaml_wf (YTagged t v) \<longleftrightarrow> yaml_wf v"
| "yaml_wf _ \<longleftrightarrow> True"

lemma yaml_wf_get: "yaml_wf (YMapping m) \<Longrightarrow> ym_get m k = Some v \<Longrightarrow> yaml_wf v"
  by (auto simp: ym_get_def dest: map_of_SomeD)

lemma at_path_merge_settled:
  "yaml_wf (YMapping base) \<Longrightarrow> yaml_wf (YMapping overlay) \<Longrightarrow> settles (YMapping overlay) p \<Longrightarrow>
   at_path p (YMapping (deep_merge_mapping base overlay)) = at_path p (YMapping overlay)"
proof (induction p arbitrary: base overlay)
  case Nil
  then show ?case by simp
next
  case (Cons k ks)
  then obtain ov where ov: "ym_get overlay k = Some ov" "settles ov ks"
    by (auto split: option.splits)
  have get: "ym_get (deep_merge_mapping base overlay) k = merge_value (ym_get base k) (Some ov)"
    using Cons.prems(1,2) ov by (simp add: get_deep_merge)
  show ?case
  proof (cases "\<exists>bc oc. ym_get base k = Some (YMapping bc) \<and> ov = YMapping oc")
    case True
    then obtain bc oc where b: "ym_get base k = Some (YMapping bc)" "ov = YMapping oc" by auto
    have "yaml_wf (YMapping bc)" "yaml_wf (YMapping oc)"
      using yaml_wf_get [OF Cons.prems(1) b(1)] yaml_wf_get [OF Cons.prems(2) ov(1)] b(2) by auto
    from Cons.IH [OF this] ov(2) show ?thesis
      using b ov(1) by (simp add: get merge_value_def)
  next
    case False
    then have "merge_value (ym_get base k) (Some ov) = Some ov"
      by (auto simp: merge_value_def split: yaml.splits option.splits)
    then show ?thesis by (simp add: get ov(1))
  qed
qed

text \<open>The paths a document says nothing about.\<close>

fun leaves_alone :: "yaml \<Rightarrow> yaml list \<Rightarrow> bool" where
  "leaves_alone (YMapping m) (k # ks) =
     (case ym_get m k of None \<Rightarrow> True | Some v \<Rightarrow> leaves_alone v ks)"
| "leaves_alone _ _ = False"

lemma at_path_leaves_alone: "leaves_alone v p \<Longrightarrow> at_path p v = None"
  by (induction v p rule: leaves_alone.induct) (auto split: option.splits)

lemma at_path_merge_alone:
  "yaml_wf (YMapping base) \<Longrightarrow> yaml_wf (YMapping overlay) \<Longrightarrow> leaves_alone (YMapping overlay) p \<Longrightarrow>
   at_path p (YMapping (deep_merge_mapping base overlay)) = at_path p (YMapping base)"
proof (induction p arbitrary: base overlay)
  case Nil
  then show ?case by simp
next
  case (Cons k ks)
  have get: "ym_get (deep_merge_mapping base overlay) k = merge_value (ym_get base k) (ym_get overlay k)"
    using Cons.prems(1,2) by (simp add: get_deep_merge)
  show ?case
  proof (cases "ym_get overlay k")
    case None
    then show ?thesis by (simp add: get merge_value_def)
  next
    case (Some ov)
    then have alone: "leaves_alone ov ks" using Cons.prems(3) by simp
    then obtain oc where oc: "ov = YMapping oc" by (cases ov; cases ks) auto
    show ?thesis
    proof (cases "\<exists>bc. ym_get base k = Some (YMapping bc)")
      case True
      then obtain bc where b: "ym_get base k = Some (YMapping bc)" by auto
      have "yaml_wf (YMapping bc)" "yaml_wf (YMapping oc)"
        using yaml_wf_get [OF Cons.prems(1) b] yaml_wf_get [OF Cons.prems(2) Some] oc by auto
      from Cons.IH [OF this] alone show ?thesis
        using b Some oc by (simp add: get merge_value_def)
    next
      case False
      from alone obtain k' ks' where ks: "ks = k' # ks'" by (cases ks) (auto simp: oc)
      have "at_path (k' # ks') x = None" if "\<forall>bc. x \<noteq> YMapping bc" for x
        using that by (cases x) auto
      then have "at_path (k # ks) (YMapping base) = None"
        using False by (auto simp: ks split: option.splits)
      moreover have "merge_value (ym_get base k) (Some ov) = Some ov"
        using False by (auto simp: merge_value_def split: yaml.splits option.splits)
      ultimately show ?thesis using at_path_leaves_alone [OF alone] by (simp add: get Some)
    qed
  qed
qed

lemma yaml_wf_merge:
  "yaml_wf (YMapping base) \<Longrightarrow> yaml_wf (YMapping overlay) \<Longrightarrow>
   yaml_wf (YMapping (deep_merge_mapping base overlay))"
proof (induction base overlay rule: deep_merge_mapping.induct)
  case (1 base)
  then show ?case by simp
next
  case (2 base k ov overlay)
  let ?step = "case (ym_get base k, ov) of
          (Some (YMapping base_child), YMapping ov_child) \<Rightarrow>
            ym_insert k (YMapping (deep_merge_mapping base_child ov_child)) base
        | _ \<Rightarrow> ym_insert k ov base"
  have ins: "yaml_wf (YMapping (ym_insert k v base))" if "yaml_wf v" for v
  proof -
    have "set (ym_insert k v m) \<subseteq> insert (k, v) (set m)" for m
      by (induction k v m rule: ym_insert.induct) auto
    then show ?thesis
      using "2.prems"(1) that by (fastforce simp: ym_wf_insert)
  qed
  have wf_ov: "yaml_wf ov" "yaml_wf (YMapping overlay)"
    using "2.prems"(2) by (auto simp: ym_wf_def)
  have "yaml_wf (YMapping ?step)"
  proof (cases "\<exists>bc oc. ym_get base k = Some (YMapping bc) \<and> ov = YMapping oc")
    case True
    then obtain bc oc where b: "ym_get base k = Some (YMapping bc)" "ov = YMapping oc" by auto
    have "yaml_wf (YMapping bc)" "yaml_wf (YMapping oc)"
      using yaml_wf_get [OF "2.prems"(1) b(1)] wf_ov(1) b(2) by auto
    then have "yaml_wf (YMapping (deep_merge_mapping bc oc))"
      using "2.IH"(1) b by blast
    from ins [OF this] show ?thesis by (simp only: b prod.case option.case yaml.case)
  next
    case False
    then have "?step = ym_insert k ov base" by (auto split: option.splits yaml.splits)
    with ins [OF wf_ov(1)] show ?thesis by simp
  qed
  with "2.IH"(2) [OF _ wf_ov(2)] show ?case
    by (simp only: deep_merge_mapping.simps prod.case)
qed

lemma fold_merge_alone:
  assumes "\<forall>g \<in> set gs. yaml_wf (YMapping (gs_overlay g)) \<and> leaves_alone (YMapping (gs_overlay g)) p"
    and "yaml_wf (YMapping doc)"
  shows "at_path p (YMapping (foldl (\<lambda>d g. deep_merge_mapping d (gs_overlay g)) doc gs)) =
    at_path p (YMapping doc)"
  using assms
  by (induction gs arbitrary: doc) (simp_all add: at_path_merge_alone yaml_wf_merge del: yaml_wf.simps)

lemma fold_merge_wf:
  "yaml_wf (YMapping doc) \<Longrightarrow> \<forall>g \<in> set gs. yaml_wf (YMapping (gs_overlay g)) \<Longrightarrow>
   yaml_wf (YMapping (foldl (\<lambda>d g. deep_merge_mapping d (gs_overlay g)) doc gs))"
  by (induction gs arbitrary: doc) (simp_all add: yaml_wf_merge del: yaml_wf.simps)

text \<open>Stamping is last-writer-wins in name order and drops nothing: at a path
  that some matching GatewaySet settles and no later matching one mentions, the stamped
  document holds that set's value, and a path that no matching set mentions keeps the value
  the document had.\<close>

theorem stamp_last_writer_wins:
  assumes "yaml_wf (YMapping doc)"
    and "\<forall>g \<in> set (matching sets labels). yaml_wf (YMapping (gs_overlay g))"
  shows "(\<forall>gs g gs'. matching sets labels = gs @ g # gs' \<longrightarrow> settles (YMapping (gs_overlay g)) p \<longrightarrow>
            (\<forall>h \<in> set gs'. leaves_alone (YMapping (gs_overlay h)) p) \<longrightarrow>
            at_path p (YMapping (fst (stamp sets doc labels))) = at_path p (YMapping (gs_overlay g))) \<and>
         ((\<forall>g \<in> set (matching sets labels). leaves_alone (YMapping (gs_overlay g)) p) \<longrightarrow>
            at_path p (YMapping (fst (stamp sets doc labels))) = at_path p (YMapping doc))"
proof (intro conjI allI impI)
  fix gs g gs'
  assume m: "matching sets labels = gs @ g # gs'" and g: "settles (YMapping (gs_overlay g)) p"
    and alone: "\<forall>h \<in> set gs'. leaves_alone (YMapping (gs_overlay h)) p"
  let ?d = "foldl (\<lambda>d g. deep_merge_mapping d (gs_overlay g)) doc gs"
  have d: "yaml_wf (YMapping ?d)" using assms m by (intro fold_merge_wf) (auto simp del: yaml_wf.simps)
  have g_wf: "yaml_wf (YMapping (gs_overlay g))" using assms(2) m by simp
  have "yaml_wf (YMapping (deep_merge_mapping ?d (gs_overlay g)))" by (rule yaml_wf_merge [OF d g_wf])
  then show "at_path p (YMapping (fst (stamp sets doc labels))) = at_path p (YMapping (gs_overlay g))"
    using alone assms(2) at_path_merge_settled [OF d g_wf g]
    by (simp add: stamp_def Let_def m fold_merge_alone del: yaml_wf.simps)
next
  assume "\<forall>g \<in> set (matching sets labels). leaves_alone (YMapping (gs_overlay g)) p"
  then show "at_path p (YMapping (fst (stamp sets doc labels))) = at_path p (YMapping doc)"
    using assms by (simp add: stamp_def Let_def fold_merge_alone del: yaml_wf.simps)
qed

definition example_set :: gateway_set where
  "example_set = \<lparr>gs_name = ''gold'', gs_selector = sel_everything,
     gs_overlay = [(YString ''fleet'', YMapping [(YString ''tier'', YString ''gold'')])]\<rparr>"

definition example_doc :: ymap where
  "example_doc = [(YString ''fleet'', YMapping [(YString ''env'', YString ''prod'')])]"

theorem stamp_last_writer_wins_witness:
  "at_path [YString ''fleet'', YString ''tier''] (YMapping (fst (stamp [example_set] example_doc []))) =
     Some (YString ''gold'') \<and>
   at_path [YString ''fleet'', YString ''env''] (YMapping (fst (stamp [example_set] example_doc []))) =
     Some (YString ''prod'')"
proof -
  have m: "matching [example_set] [] = [] @ example_set # []"
    by (simp add: matching_def gs_matches_def example_set_def)
  have wf: "yaml_wf (YMapping example_doc)"
    "\<forall>g \<in> set (matching [example_set] []). yaml_wf (YMapping (gs_overlay g))"
    unfolding m by (simp_all add: example_doc_def example_set_def ym_wf_def)
  have tier: "settles (YMapping (gs_overlay example_set)) [YString ''fleet'', YString ''tier'']"
    and env: "leaves_alone (YMapping (gs_overlay example_set)) [YString ''fleet'', YString ''env'']"
    by (simp_all add: example_set_def)
  show ?thesis
    using stamp_last_writer_wins [OF wf, THEN conjunct1, THEN spec, THEN spec, THEN spec, THEN mp,
        OF m, THEN mp, OF tier]
      stamp_last_writer_wins [OF wf, THEN conjunct2, THEN mp, of "[YString ''fleet'', YString ''env'']"]
      env
    by (simp add: m) (simp add: example_set_def example_doc_def)
qed

section \<open>What the parser accepts\<close>

lemma gs_duplicate_None:
  "gs_duplicate seen gs = None \<longleftrightarrow> distinct (map gs_name gs) \<and> set (map gs_name gs) \<inter> seen = {}"
  by (induction seen gs rule: gs_duplicate.induct) auto

text \<open>The sets of an accepted file are in strictly ascending name order, so the order in
  which overlays are stamped is determined by the names alone.\<close>

lemma parse_gatewaysets_sorted:
  assumes "parse_gatewaysets from_str yaml = Inr sets"
  shows "sorted_wrt (<) (map gs_name sets)"
proof (cases "is_blank yaml")
  case True
  then show ?thesis using assms by (simp add: parse_gatewaysets_def)
next
  case False
  with assms obtain parsed where "from_str yaml = Inr parsed"
    by (cases "from_str yaml") (auto simp: parse_gatewaysets_def)
  with assms False obtain gs where gs: "sets = sort_key gs_name gs" "gs_duplicate {} sets = None"
    by (cases "build_sets parsed") (auto simp: parse_gatewaysets_def Let_def split: option.splits)
  then show ?thesis by (simp add: gs_duplicate_None strict_sorted_iff)
qed

end
