(* ===== verification/F64.thy ===== *)
theory F64
  imports Complex_Main Prelude
begin

text \<open>
  IEEE 754 binary64 with round-to-nearest-even, as far as the code uses it.  A finite
  value is the rational number it denotes; the sign of a zero is not kept (no code
  modelled here divides by a zero whose sign could matter).  \<open>f64_round\<close> rounds an exact
  rational result to the nearest double, with the subnormal spacing below \<open>2 ^ - 1022\<close> and
  overflow to an infinity.  The lemmas give what the components use: monotonicity, the
  relative error \<open>2 ^ - 53\<close>, and exactness on integers up to \<open>2 ^ 53\<close>.
\<close>

section \<open>Powers of two and the binary exponent\<close>

definition pow2 :: "int \<Rightarrow> rat" where
  "pow2 e = (if 0 \<le> e then 2 ^ nat e else 1 / 2 ^ nat (- e))"

lemma pow2_pos [simp]: "0 < pow2 e"
  by (simp add: pow2_def)

lemma pow2_nonzero [simp]: "pow2 e \<noteq> 0"
  using pow2_pos [of e] by linarith

lemma pow2_0 [simp]: "pow2 0 = 1"
  by (simp add: pow2_def)

lemma pow2_Suc: "pow2 (e + 1) = 2 * pow2 e"
proof -
  consider "0 \<le> e" | "e = - 1" | "e < - 1" by linarith
  then show ?thesis
  proof cases
    case 1
    then have "nat (e + 1) = Suc (nat e)" by simp
    with 1 show ?thesis by (simp add: pow2_def)
  next
    case 2
    then show ?thesis by (simp add: pow2_def)
  next
    case 3
    then have "nat (- e) = Suc (nat (- (e + 1)))" by simp
    with 3 show ?thesis by (simp add: pow2_def)
  qed
qed

lemma pow2_add_nat: "pow2 (e + int n) = pow2 e * 2 ^ n"
proof (induction n)
  case 0
  then show ?case by simp
next
  case (Suc n)
  have "pow2 (e + int (Suc n)) = pow2 ((e + int n) + 1)" by (simp add: algebra_simps)
  then show ?case using Suc by (simp only: pow2_Suc) simp
qed

lemma pow2_add: "pow2 (a + b) = pow2 a * pow2 b"
proof (cases "0 \<le> b")
  case True
  then show ?thesis using pow2_add_nat [of a "nat b"] by (simp add: pow2_def [of b])
next
  case False
  then have "pow2 a = pow2 (a + b) * 2 ^ nat (- b)"
    using pow2_add_nat [of "a + b" "nat (- b)"] by simp
  then show ?thesis using False by (simp add: pow2_def [of b] field_simps)
qed

lemma pow2_mono: "a \<le> b \<Longrightarrow> pow2 a \<le> pow2 b"
proof -
  assume "a \<le> b"
  then have "pow2 b = pow2 a * 2 ^ nat (b - a)"
    using pow2_add_nat [of a "nat (b - a)"] by simp
  moreover have "(1 :: rat) \<le> 2 ^ nat (b - a)" by simp
  ultimately show ?thesis
    using mult_left_mono [of 1 "2 ^ nat (b - a)" "pow2 a"] by simp
qed

lemma pow2_less_iff: "pow2 a < pow2 b \<longleftrightarrow> a < b"
proof
  assume "pow2 a < pow2 b"
  then show "a < b" using pow2_mono [of b a] by (meson leD not_le)
next
  assume "a < b"
  then have "pow2 (a + 1) \<le> pow2 b" by (intro pow2_mono) simp
  then have "2 * pow2 a \<le> pow2 b" by (simp only: pow2_Suc)
  then show "pow2 a < pow2 b" using pow2_pos [of a] by linarith
qed

fun bit_len :: "nat \<Rightarrow> nat" where
  "bit_len n = (if n = 0 then 0 else Suc (bit_len (n div 2)))"

declare bit_len.simps [simp del]

lemma bit_len_bounds: "0 < n \<Longrightarrow> 2 ^ (bit_len n - 1) \<le> n \<and> n < 2 ^ bit_len n \<and> 0 < bit_len n"
proof (induction n rule: bit_len.induct)
  case (1 n)
  show ?case
  proof (cases "n = 1")
    case True
    have "bit_len 0 = 0" by (simp add: bit_len.simps)
    then have "bit_len (Suc 0) = 1" by (simp add: bit_len.simps [of "Suc 0"])
    with True show ?thesis by simp
  next
    case False
    with "1.prems" have pos: "0 < n div 2" by arith
    with "1.IH" "1.prems" have IH: "2 ^ (bit_len (n div 2) - 1) \<le> n div 2"
      "n div 2 < 2 ^ bit_len (n div 2)" "0 < bit_len (n div 2)" by auto
    have eq: "bit_len n = Suc (bit_len (n div 2))"
      using "1.prems" by (simp add: bit_len.simps [of n])
    have "2 * 2 ^ (bit_len (n div 2) - 1) = (2 :: nat) ^ bit_len (n div 2)"
      using IH(3) by (cases "bit_len (n div 2)") auto
    then have "2 ^ bit_len (n div 2) \<le> n" using IH(1) by (simp add: mult.commute)
    moreover have "n < 2 ^ Suc (bit_len (n div 2))" using IH(2) by simp
    ultimately show ?thesis by (simp add: eq)
  qed
qed

text \<open>The exponent \<open>e\<close> with \<open>2 ^ e \<le> x < 2 ^ (e + 1)\<close>, for \<open>x > 0\<close>.\<close>

definition ilog2 :: "rat \<Rightarrow> int" where
  "ilog2 x = (case quotient_of x of (n, d) \<Rightarrow>
     let e = int (bit_len (nat n)) - int (bit_len (nat d))
     in if pow2 e \<le> x then e else e - 1)"

lemma ilog2_bounds:
  assumes "0 < x"
  shows "pow2 (ilog2 x) \<le> x" and "x < pow2 (ilog2 x + 1)"
proof -
  obtain n d where q: "quotient_of x = (n, d)" by (cases "quotient_of x")
  have d: "0 < d" using quotient_of_denom_pos [OF q] .
  have x: "x = of_int n / of_int d" using quotient_of_div [OF q] .
  have n: "0 < n" using assms d unfolding x by (simp add: zero_less_divide_iff)
  define a where "a = bit_len (nat n)"
  define b where "b = bit_len (nat d)"
  have "2 ^ (a - 1) \<le> nat n \<and> nat n < 2 ^ a \<and> 0 < a"
    unfolding a_def using n by (intro bit_len_bounds) simp
  then have A: "(2 :: int) ^ (a - 1) \<le> n" "n < 2 ^ a" "0 < a" using n
    by (auto simp: nat_less_iff le_nat_iff)
  have "2 ^ (b - 1) \<le> nat d \<and> nat d < 2 ^ b \<and> 0 < b"
    unfolding b_def using d by (intro bit_len_bounds) simp
  then have B: "(2 :: int) ^ (b - 1) \<le> d" "d < 2 ^ b" "0 < b" using d
    by (auto simp: nat_less_iff le_nat_iff)
  have p: "pow2 (int k) = of_int (2 ^ k)" for k by (simp add: pow2_def)
  have pb: "pow2 (int a - int b) = pow2 (int a) / pow2 (int b)"
    using pow2_add [of "int a - int b" "int b"] by (simp add: field_simps)
  have upper: "x < pow2 (int a - int b + 1)"
  proof -
    have "of_int n < pow2 (int a)" using A(2) by (simp add: p of_int_less_iff del: of_int_power)
    moreover have "pow2 (int b) \<le> 2 * of_int d"
    proof -
      have "(2 :: int) ^ b = 2 * 2 ^ (b - 1)" using B(3) by (cases b) auto
      then have "(2 :: int) ^ b \<le> 2 * d" using B(1) by linarith
      then have "(of_int (2 ^ b) :: rat) \<le> of_int (2 * d)" by (simp only: of_int_le_iff)
      then show ?thesis by (simp add: p)
    qed
    ultimately have "of_int n * pow2 (int b) < pow2 (int a) * (2 * of_int d)"
      using d by (intro mult_less_le_imp_less) (use n in auto)
    then have "of_int n < of_int d * (2 * (pow2 (int a) / pow2 (int b)))"
      by (simp add: field_simps)
    then have "of_int n < of_int d * pow2 (int a - int b + 1)"
      by (simp only: pow2_Suc pb)
    then show ?thesis using d by (simp only: x pos_divide_less_eq of_int_0_less_iff mult.commute)
  qed
  have lower: "pow2 (int a - int b - 1) \<le> x"
  proof -
    have "pow2 (int a) \<le> 2 * of_int n"
    proof -
      have "(2 :: int) ^ a = 2 * 2 ^ (a - 1)" using A(3) by (cases a) auto
      then have "(2 :: int) ^ a \<le> 2 * n" using A(1) by linarith
      then have "(of_int (2 ^ a) :: rat) \<le> of_int (2 * n)" by (simp only: of_int_le_iff)
      then show ?thesis by (simp add: p)
    qed
    moreover have "of_int d \<le> pow2 (int b)" using B(2) by (simp add: p del: of_int_power)
    ultimately have "pow2 (int a) * of_int d \<le> 2 * of_int n * pow2 (int b)"
      using d n by (intro mult_mono) auto
    moreover have "pow2 (int a - int b) = 2 * pow2 (int a - int b - 1)"
      using pow2_Suc [of "int a - int b - 1"] by simp
    ultimately show ?thesis using d by (simp add: x pb field_simps)
  qed
  have e: "ilog2 x = (if pow2 (int a - int b) \<le> x then int a - int b else int a - int b - 1)"
    by (simp add: ilog2_def q a_def b_def Let_def)
  show "pow2 (ilog2 x) \<le> x" using lower by (simp add: e)
  show "x < pow2 (ilog2 x + 1)" using upper by (simp add: e)
qed

lemma ilog2_unique: "pow2 e \<le> x \<Longrightarrow> x < pow2 (e + 1) \<Longrightarrow> ilog2 x = e"
proof -
  assume lo: "pow2 e \<le> x" and hi: "x < pow2 (e + 1)"
  have pos: "0 < x" using lo pow2_pos [of e] by linarith
  have "pow2 e < pow2 (ilog2 x + 1)" using lo ilog2_bounds(2) [OF pos] by linarith
  moreover have "pow2 (ilog2 x) < pow2 (e + 1)" using hi ilog2_bounds(1) [OF pos] by linarith
  ultimately show ?thesis by (simp add: pow2_less_iff)
qed

lemma ilog2_mono: "0 < x \<Longrightarrow> x \<le> y \<Longrightarrow> ilog2 x \<le> ilog2 y"
proof -
  assume "0 < x" "x \<le> y"
  then have "pow2 (ilog2 x) < pow2 (ilog2 y + 1)"
    using ilog2_bounds(1) [of x] ilog2_bounds(2) [of y] by linarith
  then show ?thesis by (simp add: pow2_less_iff)
qed

section \<open>Rounding\<close>

text \<open>Round to the nearest integer, ties to even.\<close>

definition rne :: "rat \<Rightarrow> int" where
  "rne x = (let f = \<lfloor>x\<rfloor>; d = x - of_int f
     in if d < 1 / 2 then f else if 1 / 2 < d then f + 1 else if even f then f else f + 1)"

lemma rne_err: "\<bar>of_int (rne x) - x\<bar> \<le> 1 / 2"
  by (auto simp: rne_def Let_def abs_if) linarith+

lemma rne_of_int [simp]: "rne (of_int n) = n"
  by (simp add: rne_def)

lemma rne_bounds: "\<lfloor>x\<rfloor> \<le> rne x" "rne x \<le> \<lfloor>x\<rfloor> + 1"
  by (auto simp: rne_def Let_def)

lemma rne_mono: "x \<le> y \<Longrightarrow> rne x \<le> rne y"
proof -
  assume le: "x \<le> y"
  show ?thesis
  proof (cases "\<lfloor>x\<rfloor> = \<lfloor>y\<rfloor>")
    case True
    then show ?thesis using le by (auto simp: rne_def Let_def)
  next
    case False
    then have "\<lfloor>x\<rfloor> + 1 \<le> \<lfloor>y\<rfloor>" using floor_mono [OF le] by linarith
    then show ?thesis using rne_bounds(2) [of x] rne_bounds(1) [of y] by linarith
  qed
qed

text \<open>The spacing of the doubles around \<open>x\<close>: 53 significant bits, and never finer than
  \<open>2 ^ - 1074\<close>.\<close>

definition ulp_exp :: "rat \<Rightarrow> int" where
  "ulp_exp x = max (ilog2 \<bar>x\<bar> - 52) (- 1074)"

definition rnd :: "rat \<Rightarrow> rat" where
  "rnd x = (if x = 0 then 0 else of_int (rne (x / pow2 (ulp_exp x))) * pow2 (ulp_exp x))"

lemma rnd_0 [simp]: "rnd 0 = 0"
  by (simp add: rnd_def)

text \<open>A multiple of the spacing is not crossed by rounding.\<close>

lemma rnd_grid_le: "of_int m * pow2 (ulp_exp x) \<le> x \<Longrightarrow> of_int m * pow2 (ulp_exp x) \<le> rnd x"
proof (cases "x = 0")
  case True
  then show "of_int m * pow2 (ulp_exp x) \<le> x \<Longrightarrow> ?thesis" by simp
next
  case False
  assume "of_int m * pow2 (ulp_exp x) \<le> x"
  then have "of_int m \<le> x / pow2 (ulp_exp x)" by (simp add: field_simps)
  then have "m \<le> rne (x / pow2 (ulp_exp x))" using rne_mono rne_of_int by metis
  then show ?thesis using False by (simp add: rnd_def)
qed

lemma rnd_grid_ge: "x \<le> of_int m * pow2 (ulp_exp x) \<Longrightarrow> rnd x \<le> of_int m * pow2 (ulp_exp x)"
proof (cases "x = 0")
  case True
  then show "x \<le> of_int m * pow2 (ulp_exp x) \<Longrightarrow> ?thesis" by simp
next
  case False
  assume "x \<le> of_int m * pow2 (ulp_exp x)"
  then have "x / pow2 (ulp_exp x) \<le> of_int m" by (simp add: field_simps)
  then have "rne (x / pow2 (ulp_exp x)) \<le> m" using rne_mono rne_of_int by metis
  then show ?thesis using False by (simp add: rnd_def)
qed

lemma rnd_grid_eq: "x = of_int m * pow2 (ulp_exp x) \<Longrightarrow> rnd x = x"
  using rnd_grid_le [of m x] rnd_grid_ge [of x m] by auto

lemma rnd_nonneg: "0 \<le> x \<Longrightarrow> 0 \<le> rnd x"
  using rnd_grid_le [of 0 x] by simp

lemma pow2_grid: "e \<le> k \<Longrightarrow> pow2 k = of_int (2 ^ nat (k - e)) * pow2 e"
  using pow2_add_nat [of e "nat (k - e)"] by simp

lemma rnd_le_pow2: "x \<le> pow2 k \<Longrightarrow> ulp_exp x \<le> k \<Longrightarrow> rnd x \<le> pow2 k"
  using rnd_grid_ge [of x "2 ^ nat (k - ulp_exp x)"] pow2_grid [of "ulp_exp x" k] by simp

lemma rnd_ge_pow2: "pow2 k \<le> x \<Longrightarrow> ulp_exp x \<le> k \<Longrightarrow> pow2 k \<le> rnd x"
  using rnd_grid_le [of "2 ^ nat (k - ulp_exp x)" x] pow2_grid [of "ulp_exp x" k] by simp

lemma rnd_mono:
  assumes "0 \<le> x" "x \<le> y"
  shows "rnd x \<le> rnd y"
proof (cases "x = 0")
  case True
  then show ?thesis using rnd_nonneg [of y] assms by simp
next
  case False
  with assms have px: "0 < x" and py: "0 < y" by auto
  have le: "ulp_exp x \<le> ulp_exp y"
    using ilog2_mono [OF px assms(2)] px py by (auto simp: ulp_exp_def)
  show ?thesis
  proof (cases "ulp_exp x = ulp_exp y")
    case True
    have "x / pow2 (ulp_exp y) \<le> y / pow2 (ulp_exp y)"
      using assms by (intro divide_right_mono) (auto simp: less_imp_le)
    then have "rne (x / pow2 (ulp_exp y)) \<le> rne (y / pow2 (ulp_exp y))" by (rule rne_mono)
    then show ?thesis using True px py by (simp add: rnd_def)
  next
    case False
    with le have lt: "ulp_exp x < ulp_exp y" by simp
    define k where "k = ilog2 y"
    have uy: "ulp_exp y = k - 52" and kx: "ilog2 x < k"
      using lt px py by (auto simp: ulp_exp_def k_def)
    have "x \<le> pow2 k"
      using ilog2_bounds(2) [OF px] pow2_mono [of "ilog2 x + 1" k] kx by linarith
    then have "rnd x \<le> pow2 k" by (rule rnd_le_pow2) (use lt uy in linarith)
    also have "pow2 k \<le> rnd y"
      using ilog2_bounds(1) [OF py] by (intro rnd_ge_pow2) (auto simp: k_def [symmetric] uy)
    finally show ?thesis .
  qed
qed

text \<open>Half a unit in the last place, hence the relative error \<open>2 ^ - 53\<close> of a normal
  result.\<close>

lemma rnd_err:
  assumes "pow2 (- 1022) \<le> x"
  shows "\<bar>rnd x - x\<bar> \<le> x * pow2 (- 53)"
proof -
  have pos: "0 < x" using assms pow2_pos [of "- 1022"] by linarith
  have "pow2 (- 1022) < pow2 (ilog2 x + 1)" using assms ilog2_bounds(2) [OF pos] by linarith
  then have u: "ulp_exp x = ilog2 x - 52" using pos by (simp add: ulp_exp_def pow2_less_iff)
  define p where "p = pow2 (ulp_exp x)"
  have p: "0 < p" by (simp add: p_def)
  have "rnd x - x = (of_int (rne (x / p)) - x / p) * p"
    using pos p by (simp add: rnd_def p_def [symmetric] field_simps)
  then have "\<bar>rnd x - x\<bar> = \<bar>of_int (rne (x / p)) - x / p\<bar> * p"
    using p by (simp only: abs_mult)
  also have "\<dots> \<le> 1 / 2 * p" using p by (intro mult_right_mono rne_err) simp
  also have "1 / 2 * p = pow2 (ilog2 x) * pow2 (- 53)"
  proof -
    have "pow2 (ilog2 x) * pow2 (- 53) = pow2 (ulp_exp x + - 1)"
      by (simp add: u pow2_add [symmetric])
    then show ?thesis unfolding p_def by (simp only: pow2_add) (simp add: pow2_def [of "- 1"])
  qed
  also have "\<dots> \<le> x * pow2 (- 53)"
    using ilog2_bounds(1) [OF pos] by (intro mult_right_mono) (auto simp: less_imp_le)
  finally show ?thesis .
qed

lemma rnd_le_rel: "pow2 (- 1022) \<le> x \<Longrightarrow> rnd x \<le> x * (1 + pow2 (- 53))"
  using rnd_err [of x] by (simp add: algebra_simps abs_le_iff)

lemma rnd_ge_rel: "pow2 (- 1022) \<le> x \<Longrightarrow> x * (1 - pow2 (- 53)) \<le> rnd x"
  using rnd_err [of x] by (simp add: algebra_simps abs_le_iff)

lemma rnd_of_nat:
  assumes "n \<le> 2 ^ 53"
  shows "rnd (of_nat n) = of_nat n"
proof (cases "n = 0 \<or> n = 2 ^ 53")
  case True
  have "ilog2 (2 ^ 53) = 53" by (rule ilog2_unique) (simp_all add: pow2_def)
  then have "ulp_exp (2 ^ 53) = 1" by (simp add: ulp_exp_def)
  then have "rnd (2 ^ 53) = 2 ^ 53" by (intro rnd_grid_eq [of _ "2 ^ 52"]) (simp add: pow2_def)
  then show ?thesis using True by auto
next
  case False
  with assms have n: "0 < n" "n < 2 ^ 53" by auto
  let ?x = "of_nat n :: rat"
  define k where "k = ilog2 ?x"
  have pos: "0 < ?x" using n by simp
  have "?x < of_nat (2 ^ 53)" using n(2) by (simp only: of_nat_less_iff)
  then have "pow2 k < pow2 53" using ilog2_bounds(1) [OF pos] by (simp add: k_def pow2_def [of 53])
  then have k52: "k \<le> 52" by (simp only: pow2_less_iff)
  have "pow2 0 < pow2 (k + 1)" using ilog2_bounds(2) [OF pos] n by (simp add: k_def)
  then have k0: "0 \<le> k" unfolding pow2_less_iff by simp
  have u: "ulp_exp ?x = k - 52" using k0 by (simp add: ulp_exp_def k_def [symmetric])
  have "pow2 0 = of_int (2 ^ nat (52 - k)) * pow2 (k - 52)" using k52 pow2_grid [of "k - 52" 0] by simp
  then have "?x = of_int (int n * 2 ^ nat (52 - k)) * pow2 (ulp_exp ?x)"
    by (simp add: u mult.assoc)
  then show ?thesis by (rule rnd_grid_eq)
qed

lemma rnd_near_grid:
  assumes "x \<noteq> 0" "\<bar>x - of_int m * pow2 (ulp_exp x)\<bar> < pow2 (ulp_exp x) / 2"
  shows "rnd x = of_int m * pow2 (ulp_exp x)"
proof -
  define p where "p = pow2 (ulp_exp x)"
  have p: "0 < p" by (simp add: p_def)
  have "\<bar>x / p - of_int m\<bar> * p = \<bar>x - of_int m * p\<bar>"
    using p by (simp add: abs_mult_pos field_simps)
  then have "\<bar>x / p - of_int m\<bar> * p < 1 / 2 * p" using assms(2) by (simp add: p_def [symmetric])
  then have lt: "\<bar>x / p - of_int m\<bar> < 1 / 2" using p by (simp only: mult_less_cancel_right_pos)
  have "\<bar>of_int (rne (x / p)) - x / p\<bar> \<le> 1 / 2" by (rule rne_err)
  with lt have "\<bar>of_int (rne (x / p)) - of_int m :: rat\<bar> < 1" by linarith
  then have "rne (x / p) = m" by linarith
  then show ?thesis using assms(1) by (simp add: rnd_def p_def [symmetric])
qed

text \<open>An integer is found from an approximation that is a little too large.\<close>

lemma rnd_just_above_nat:
  assumes "0 < n" "n < 2 ^ 52" "of_nat n \<le> x" "x < of_nat n * (1 + pow2 (- 54))"
  shows "rnd x = of_nat n"
proof -
  let ?n = "of_nat n :: rat"
  have pos: "0 < ?n" using assms(1) by simp
  define k where "k = ilog2 ?n"
  have lo: "pow2 k \<le> ?n" and hi: "?n < pow2 (k + 1)"
    using ilog2_bounds [OF pos] by (simp_all add: k_def)
  have "?n < of_nat (2 ^ 52)" using assms(2) by (simp only: of_nat_less_iff)
  then have "pow2 k < pow2 52" using lo by (simp add: pow2_def [of 52])
  then have k51: "k \<le> 51" unfolding pow2_less_iff by simp
  have "pow2 0 < pow2 (k + 1)" using hi assms(1) by (simp add: le_less_trans)
  then have k0: "0 \<le> k" unfolding pow2_less_iff by simp
  have step: "?n + 1 \<le> pow2 (k + 1)"
  proof -
    have e: "pow2 (k + 1) = of_nat (2 ^ nat (k + 1))" using k0 by (simp add: pow2_def)
    have "n < 2 ^ nat (k + 1)" using hi unfolding e of_nat_less_iff .
    then have "n + 1 \<le> 2 ^ nat (k + 1)" by simp
    then have "of_nat (n + 1) \<le> (of_nat (2 ^ nat (k + 1)) :: rat)" unfolding of_nat_le_iff .
    then show ?thesis unfolding e by simp
  qed
  have d: "x - ?n < ?n * pow2 (- 54)" using assms(4) by (simp add: algebra_simps)
  have d1: "?n * pow2 (- 54) < pow2 (k - 53)"
  proof -
    have "?n * pow2 (- 54) < pow2 (k + 1) * pow2 (- 54)"
      using hi by (intro mult_strict_right_mono) auto
    then show ?thesis by (simp add: pow2_add [symmetric])
  qed
  have "pow2 (k - 53) \<le> pow2 0" using k51 by (intro pow2_mono) simp
  with d d1 step have "x < pow2 (k + 1)" by simp
  moreover have "pow2 k \<le> x" using lo assms(3) by linarith
  ultimately have "ilog2 x = k" by (intro ilog2_unique)
  moreover have "0 < x" using pos assms(3) by linarith
  ultimately have u: "ulp_exp x = k - 52" using k0 by (simp add: ulp_exp_def)
  have half: "pow2 (k - 52) / 2 = pow2 (k - 53)" using pow2_Suc [of "k - 53"] by simp
  have "pow2 0 = of_int (2 ^ nat (52 - k)) * pow2 (k - 52)"
    using k51 pow2_grid [of "k - 52" 0] by simp
  then have n: "?n = of_int (int n * 2 ^ nat (52 - k)) * pow2 (ulp_exp x)"
    by (simp add: u mult.assoc)
  have "rnd x = of_int (int n * 2 ^ nat (52 - k)) * pow2 (ulp_exp x)"
  proof (rule rnd_near_grid)
    show "x \<noteq> 0" using \<open>0 < x\<close> by simp
    have "\<bar>x - ?n\<bar> = x - ?n" using assms(3) by simp
    also have "\<dots> < pow2 (ulp_exp x) / 2" using d d1 by (simp add: u half)
    finally show "\<bar>x - of_int (int n * 2 ^ nat (52 - k)) * pow2 (ulp_exp x)\<bar> < pow2 (ulp_exp x) / 2"
      by (simp only: n [symmetric])
  qed
  then show ?thesis by (simp only: n [symmetric])
qed

lemma floor_fraction [simp]:
  "\<lfloor>numeral a / numeral b :: rat\<rfloor> = numeral a div numeral b"
  "\<lfloor>1 / numeral b :: rat\<rfloor> = 1 div numeral b"
  using floor_divide_of_int_eq [of "numeral a" "numeral b"]
    floor_divide_of_int_eq [of 1 "numeral b"] by simp_all

text \<open>Rounding a concrete number: give the exponent, evaluate the rest.\<close>

lemma rnd_eval:
  "pow2 e \<le> x \<Longrightarrow> x < pow2 (e + 1) \<Longrightarrow> - 1022 \<le> e \<Longrightarrow>
   rnd x = of_int (rne (x / pow2 (e - 52))) * pow2 (e - 52)"
proof -
  assume a: "pow2 e \<le> x" "x < pow2 (e + 1)" "- 1022 \<le> e"
  have "0 < x" using a(1) pow2_pos [of e] by linarith
  moreover have "ulp_exp x = e - 52" using \<open>0 < x\<close> a by (simp add: ulp_exp_def ilog2_unique)
  ultimately show ?thesis by (simp add: rnd_def)
qed

section \<open>Doubles\<close>

datatype f64 = FFin rat | FInf bool \<comment> \<open>\<open>True\<close>: negative\<close> | FNaN

definition f64_round :: "rat \<Rightarrow> f64" where
  "f64_round x = (let r = rnd x in if pow2 1024 \<le> \<bar>r\<bar> then FInf (r < 0) else FFin r)"

text \<open>\<open>w as f64\<close>.\<close>

definition u64_to_f64 :: "u64 \<Rightarrow> f64" where
  "u64_to_f64 w = FFin (rnd (of_nat (unat w)))"

fun f_add :: "f64 \<Rightarrow> f64 \<Rightarrow> f64" where
  "f_add (FFin a) (FFin b) = f64_round (a + b)"
| "f_add (FInf s) (FInf t) = (if s = t then FInf s else FNaN)"
| "f_add (FInf s) (FFin b) = FInf s"
| "f_add (FFin a) (FInf t) = FInf t"
| "f_add _ _ = FNaN"

fun f_neg :: "f64 \<Rightarrow> f64" where
  "f_neg (FFin a) = FFin (- a)"
| "f_neg (FInf s) = FInf (\<not> s)"
| "f_neg FNaN = FNaN"

definition f_sub :: "f64 \<Rightarrow> f64 \<Rightarrow> f64" where
  "f_sub a b = f_add a (f_neg b)"

fun f_mul :: "f64 \<Rightarrow> f64 \<Rightarrow> f64" where
  "f_mul (FFin a) (FFin b) = f64_round (a * b)"
| "f_mul (FInf s) (FInf t) = FInf (s \<noteq> t)"
| "f_mul (FInf s) (FFin b) = (if b = 0 then FNaN else FInf (s \<noteq> (b < 0)))"
| "f_mul (FFin a) (FInf t) = (if a = 0 then FNaN else FInf (t \<noteq> (a < 0)))"
| "f_mul _ _ = FNaN"

fun f_div :: "f64 \<Rightarrow> f64 \<Rightarrow> f64" where
  "f_div (FFin a) (FFin b) =
     (if b = 0 then (if a = 0 then FNaN else FInf (a < 0)) else f64_round (a / b))"
| "f_div (FInf s) (FFin b) = FInf (s \<noteq> (b < 0))"
| "f_div (FFin a) (FInf t) = FFin 0"
| "f_div _ _ = FNaN"

text \<open>The comparisons are false when an operand is a NaN.\<close>

fun f_lt :: "f64 \<Rightarrow> f64 \<Rightarrow> bool" where
  "f_lt (FFin a) (FFin b) = (a < b)"
| "f_lt (FInf s) (FInf t) = (s \<and> \<not> t)"
| "f_lt (FInf s) (FFin b) = s"
| "f_lt (FFin a) (FInf t) = (\<not> t)"
| "f_lt _ _ = False"

fun f_le :: "f64 \<Rightarrow> f64 \<Rightarrow> bool" where
  "f_le (FFin a) (FFin b) = (a \<le> b)"
| "f_le (FInf s) (FInf t) = (s \<or> \<not> t)"
| "f_le (FInf s) (FFin b) = s"
| "f_le (FFin a) (FInf t) = (\<not> t)"
| "f_le _ _ = False"

fun f_floor :: "f64 \<Rightarrow> f64" where
  "f_floor (FFin a) = FFin (of_int \<lfloor>a\<rfloor>)"
| "f_floor x = x"

fun f_ceil :: "f64 \<Rightarrow> f64" where
  "f_ceil (FFin a) = FFin (of_int \<lceil>a\<rceil>)"
| "f_ceil x = x"

text \<open>\<open>f64::round\<close>: to the nearest integer, halves away from zero.\<close>

fun f_round :: "f64 \<Rightarrow> f64" where
  "f_round (FFin a) =
     FFin (if 0 \<le> a then of_int \<lfloor>a + 1 / 2\<rfloor> else of_int \<lceil>a - 1 / 2\<rceil>)"
| "f_round x = x"

text \<open>\<open>x as u64\<close>: truncation, saturating at both ends, 0 for a NaN.\<close>

fun f_to_u64 :: "f64 \<Rightarrow> u64" where
  "f_to_u64 (FFin a) =
     (if a < 0 then 0 else if 2 ^ 64 \<le> a then - 1 else of_int \<lfloor>a\<rfloor>)"
| "f_to_u64 (FInf s) = (if s then 0 else - 1)"
| "f_to_u64 FNaN = 0"

lemma rnd_below: "0 \<le> x \<Longrightarrow> x < pow2 1023 \<Longrightarrow> rnd x \<le> pow2 1023"
proof (cases "x = 0")
  case False
  assume x: "0 \<le> x" "x < pow2 1023"
  with False have "pow2 (ilog2 x) < pow2 1023" using ilog2_bounds(1) [of x] by force
  then have "ulp_exp x \<le> 1023" using False x by (simp add: ulp_exp_def pow2_less_iff)
  then show ?thesis using x by (intro rnd_le_pow2) simp_all
qed (simp add: less_imp_le)

lemma f64_round_fin: "0 \<le> x \<Longrightarrow> x < pow2 1023 \<Longrightarrow> f64_round x = FFin (rnd x)"
proof -
  assume x: "0 \<le> x" "x < pow2 1023"
  have "rnd x < pow2 1024" using rnd_below [OF x] pow2_less_iff [of 1023 1024] by linarith
  then show ?thesis using rnd_nonneg [OF x(1)] by (simp add: f64_round_def Let_def)
qed

lemma unat_f_to_u64:
  "0 \<le> a \<Longrightarrow> a < 2 ^ 64 \<Longrightarrow> unat (f_to_u64 (FFin a)) = nat \<lfloor>a\<rfloor>"
proof -
  assume a: "0 \<le> a" "a < 2 ^ 64"
  then have "0 \<le> \<lfloor>a\<rfloor>" "\<lfloor>a\<rfloor> < 2 ^ 64" by (simp_all add: floor_less_iff)
  then have "uint (of_int \<lfloor>a\<rfloor> :: u64) = \<lfloor>a\<rfloor>" by (intro word_of_int_inverse) simp_all
  then show ?thesis using a by (simp add: unat_eq_nat_uint)
qed

end
