(* ===== verification/Canary.thy ===== *)
theory Canary
  imports F64 OrdMap RustStr
begin

text \<open>
  \<open>gatewayctl/src/canary.rs\<close>: the canary policy, the telemetry of a wave, the statistics
  (error rate, nearest-rank p99, mean and deviation of the spend), \<open>analyze\<close> and the
  validation of \<open>canary.yaml\<close> (the YAML reader is a parameter).  All arithmetic is on the
  doubles of \<open>F64\<close>; request and error totals are \<open>u64\<close> sums that wrap.  \<open>sort_by\<close> on
  \<open>partial_cmp\<close> is a stable insertion sort, which is its result whenever no sample is NaN.
\<close>

section \<open>Policy and telemetry\<close>

definition DEFAULT_WINDOW_SECS :: u64 where
  "DEFAULT_WINDOW_SECS = 60"

definition DEFAULT_MAX_ERROR_RATE_INCREASE :: f64 where
  "DEFAULT_MAX_ERROR_RATE_INCREASE = f64_round (5 / 100)"

definition DEFAULT_MAX_P99_FACTOR :: f64 where
  "DEFAULT_MAX_P99_FACTOR = FFin (3 / 2)"

definition DEFAULT_MAX_SPEND_FACTOR :: f64 where
  "DEFAULT_MAX_SPEND_FACTOR = FFin 2"

definition DEFAULT_SPEND_ZSCORE :: f64 where
  "DEFAULT_SPEND_ZSCORE = FFin 3"

definition MIN_BASELINE_FOR_ZSCORE :: nat where
  "MIN_BASELINE_FOR_ZSCORE = 3"

record enabled_metrics =
  em_error_rate :: bool
  em_p99 :: bool
  em_spend_anomaly :: bool

definition default_metrics :: enabled_metrics where
  "default_metrics = \<lparr>em_error_rate = True, em_p99 = True, em_spend_anomaly = True\<rparr>"

record canary_policy =
  cp_enabled :: bool
  cp_metrics :: enabled_metrics
  cp_window_secs :: u64
  cp_max_error_rate_increase :: f64
  cp_max_p99_factor :: f64
  cp_max_spend_factor :: f64
  cp_spend_zscore :: f64
  cp_manual_gate_after :: "string list"

definition default_policy :: canary_policy where
  "default_policy = \<lparr>cp_enabled = False, cp_metrics = default_metrics,
     cp_window_secs = DEFAULT_WINDOW_SECS,
     cp_max_error_rate_increase = DEFAULT_MAX_ERROR_RATE_INCREASE,
     cp_max_p99_factor = DEFAULT_MAX_P99_FACTOR,
     cp_max_spend_factor = DEFAULT_MAX_SPEND_FACTOR,
     cp_spend_zscore = DEFAULT_SPEND_ZSCORE, cp_manual_gate_after = []\<rparr>"

definition gates_after :: "canary_policy \<Rightarrow> string \<Rightarrow> bool" where
  "gates_after p w = list_ex (\<lambda>x. x = w) (cp_manual_gate_after p)"

record node_telemetry =
  nt_requests :: u64
  nt_errors :: u64
  nt_latencies_ms :: "f64 list"
  nt_spent :: u64

type_synonym wave_telemetry = "(string, node_telemetry) btree"

definition error_rate :: "node_telemetry \<Rightarrow> f64" where
  "error_rate t = (if nt_requests t = 0 then FFin 0
     else f_div (u64_to_f64 (nt_errors t)) (u64_to_f64 (nt_requests t)))"

definition wt_insert :: "string \<Rightarrow> node_telemetry \<Rightarrow> wave_telemetry \<Rightarrow> wave_telemetry" where
  "wt_insert node t w = bt_insert node t w"

section \<open>Statistics\<close>

definition aggregate_error_rate :: "wave_telemetry \<Rightarrow> f64" where
  "aggregate_error_rate w =
     (let (req, err) = fold (\<lambda>t (req, err). (req + nt_requests t, err + nt_errors t))
                         (bt_values w) (0, 0)
      in if req = 0 then FFin 0 else f_div (u64_to_f64 err) (u64_to_f64 req))"

fun f_insort :: "f64 \<Rightarrow> f64 list \<Rightarrow> f64 list" where
  "f_insort x [] = [x]"
| "f_insort x (y # ys) = (if f_lt y x then y # f_insort x ys else x # y # ys)"

definition f_sort :: "f64 list \<Rightarrow> f64 list" where
  "f_sort xs = foldr f_insort xs []"

text \<open>A \<open>usize\<close> count as a double.\<close>

definition len_f64 :: "'a list \<Rightarrow> f64" where
  "len_f64 xs = u64_to_f64 (of_nat (length xs))"

definition percentile :: "f64 list \<Rightarrow> f64 \<Rightarrow> f64 option" where
  "percentile samples q =
     (if samples = [] then None
      else
        let rank = unat (f_to_u64 (f_round (f_mul q (f_sub (len_f64 samples) (FFin 1)))))
        in Some (f_sort samples ! min rank (length samples - 1)))"

definition pooled_p99 :: "wave_telemetry \<Rightarrow> f64 option" where
  "pooled_p99 w = percentile (concat (map nt_latencies_ms (bt_values w))) (f64_round (99 / 100))"

definition spend_rates :: "wave_telemetry \<Rightarrow> f64 list" where
  "spend_rates w = map (\<lambda>t. u64_to_f64 (nt_spent t)) (bt_values w)"

definition f_sum :: "f64 list \<Rightarrow> f64" where
  "f_sum xs = foldl f_add (FFin 0) xs"

definition mean_spend :: "wave_telemetry \<Rightarrow> f64" where
  "mean_spend w = (if spend_rates w = [] then FFin 0
     else f_div (f_sum (spend_rates w)) (len_f64 (spend_rates w)))"

definition has_samples :: "wave_telemetry \<Rightarrow> bool" where
  "has_samples w = list_ex (\<lambda>t. 0 < nt_requests t \<or> nt_latencies_ms t \<noteq> [] \<or> 0 < nt_spent t)
     (bt_values w)"

text \<open>\<open>sqrt\<close>, correctly rounded: the integer square root at the spacing of the result,
  rounded up when the argument is beyond the square of the midpoint.\<close>

fun isqrt :: "nat \<Rightarrow> nat" where
  "isqrt n = (if n = 0 then 0
     else let r = 2 * isqrt (n div 4) in if (r + 1) * (r + 1) \<le> n then r + 1 else r)"

declare isqrt.simps [simp del]

definition rnd_sqrt :: "rat \<Rightarrow> rat" where
  "rnd_sqrt q =
     (let e = ilog2 q div 2 - 52;
          t = q / pow2 (2 * e);
          m = isqrt (nat \<lfloor>t\<rfloor>)
      in of_nat (if (of_nat m + 1 / 2) * (of_nat m + 1 / 2) < t then m + 1 else m) * pow2 e)"

fun f_sqrt :: "f64 \<Rightarrow> f64" where
  "f_sqrt (FFin q) = (if q = 0 then FFin 0 else if q < 0 then FNaN else FFin (rnd_sqrt q))"
| "f_sqrt (FInf s) = (if s then FNaN else FInf False)"
| "f_sqrt FNaN = FNaN"

definition mean_std :: "f64 list \<Rightarrow> (f64 \<times> f64) option" where
  "mean_std values =
     (if values = [] then None
      else
        let n = len_f64 values;
            mean = f_div (f_sum values) n;
            var = f_div (f_sum (map (\<lambda>v. f_mul (f_sub v mean) (f_sub v mean)) values)) n
        in Some (mean, f_sqrt var))"

section \<open>Analysis\<close>

datatype breach =
    BErrorRate (be_baseline: f64) (be_canary: f64) (be_max_increase: f64)
  | BP99 (bp_baseline_ms: f64) (bp_canary_ms: f64) (bp_max_factor: f64)
  | BSpendAnomaly (bs_baseline_mean: f64) (bs_canary_mean: f64) (bs_factor: f64)
      (bs_max_factor: f64) (bs_zscore: "f64 option") (bs_max_zscore: f64)

datatype analysis = Pass | Fail breach | NoData

definition is_pass :: "analysis \<Rightarrow> bool" where
  "is_pass a = (a = Pass)"

definition spend_zscore_of :: "wave_telemetry \<Rightarrow> f64 \<Rightarrow> f64 option" where
  "spend_zscore_of baseline canary_mean =
     (if MIN_BASELINE_FOR_ZSCORE \<le> length (spend_rates baseline)
      then
        (case mean_std (spend_rates baseline) of
           None \<Rightarrow> None
         | Some (m, sd) \<Rightarrow>
             if f_lt (FFin 0) sd then Some (f_div (f_sub canary_mean m) sd) else None)
      else None)"

definition spend_breach ::
  "canary_policy \<Rightarrow> wave_telemetry \<Rightarrow> wave_telemetry \<Rightarrow> breach option"
where
  "spend_breach policy canary baseline =
     (let canary_mean = mean_spend canary; baseline_mean = mean_spend baseline in
      if f_le baseline_mean (FFin 0) then
        (if f_lt (FFin 0) canary_mean
         then Some (BSpendAnomaly baseline_mean canary_mean (FInf False)
                (cp_max_spend_factor policy) None (cp_spend_zscore policy))
         else None)
      else
        let factor = f_div canary_mean baseline_mean;
            zscore = spend_zscore_of baseline canary_mean;
            factor_breach = f_lt (cp_max_spend_factor policy) factor;
            zscore_breach = (case zscore of None \<Rightarrow> False | Some z \<Rightarrow> f_lt (cp_spend_zscore policy) z)
        in if factor_breach \<or> zscore_breach
           then Some (BSpendAnomaly baseline_mean canary_mean factor
                  (cp_max_spend_factor policy) zscore (cp_spend_zscore policy))
           else None)"

definition error_rate_breach ::
  "canary_policy \<Rightarrow> wave_telemetry \<Rightarrow> wave_telemetry \<Rightarrow> breach option"
where
  "error_rate_breach policy canary baseline =
     (let b = aggregate_error_rate baseline; c = aggregate_error_rate canary in
      if em_error_rate (cp_metrics policy) \<and> f_lt (cp_max_error_rate_increase policy) (f_sub c b)
      then Some (BErrorRate b c (cp_max_error_rate_increase policy)) else None)"

definition p99_breach ::
  "canary_policy \<Rightarrow> wave_telemetry \<Rightarrow> wave_telemetry \<Rightarrow> breach option"
where
  "p99_breach policy canary baseline =
     (if em_p99 (cp_metrics policy) then
        (case (pooled_p99 canary, pooled_p99 baseline) of
           (Some cp99, Some bp99) \<Rightarrow>
             if f_lt (FFin 0) bp99 \<and> f_lt (f_mul bp99 (cp_max_p99_factor policy)) cp99
             then Some (BP99 bp99 cp99 (cp_max_p99_factor policy)) else None
         | _ \<Rightarrow> None)
      else None)"

definition analyze :: "canary_policy \<Rightarrow> wave_telemetry \<Rightarrow> wave_telemetry \<Rightarrow> analysis" where
  "analyze policy canary baseline =
     (if \<not> has_samples canary then NoData
      else if \<not> has_samples baseline then Pass
      else
        (case error_rate_breach policy canary baseline of
           Some b \<Rightarrow> Fail b
         | None \<Rightarrow>
             (case p99_breach policy canary baseline of
                Some b \<Rightarrow> Fail b
              | None \<Rightarrow>
                  (if em_spend_anomaly (cp_metrics policy) then
                     (case spend_breach policy canary baseline of
                        Some b \<Rightarrow> Fail b
                      | None \<Rightarrow> Pass)
                   else Pass))))"

section \<open>Reading canary.yaml\<close>

record metrics_file =
  mf_error_rate :: "bool option"
  mf_p99 :: "bool option"
  mf_spend_anomaly :: "bool option"

record canary_file =
  cf_enabled :: bool
  cf_metrics :: "metrics_file option"
  cf_window_secs :: "u64 option"
  cf_max_error_rate_increase :: "f64 option"
  cf_max_p99_factor :: "f64 option"
  cf_max_spend_factor :: "f64 option"
  cf_spend_zscore :: "f64 option"
  cf_manual_gate_after :: "string list"

datatype canary_policy_error =
    CanaryYaml string
  | P99FactorNotPositive
  | SpendFactorNotPositive
  | ErrorRateIncreaseOutOfRange
  | ZscoreNotPositive

definition policy_of_file :: "canary_file \<Rightarrow> canary_policy" where
  "policy_of_file f = \<lparr>cp_enabled = cf_enabled f,
     cp_metrics =
       (case cf_metrics f of
          None \<Rightarrow> default_metrics
        | Some m \<Rightarrow> \<lparr>em_error_rate = unwrap_or (mf_error_rate m) True,
                     em_p99 = unwrap_or (mf_p99 m) True,
                     em_spend_anomaly = unwrap_or (mf_spend_anomaly m) True\<rparr>),
     cp_window_secs = unwrap_or (cf_window_secs f) (cp_window_secs default_policy),
     cp_max_error_rate_increase =
       unwrap_or (cf_max_error_rate_increase f) (cp_max_error_rate_increase default_policy),
     cp_max_p99_factor = unwrap_or (cf_max_p99_factor f) (cp_max_p99_factor default_policy),
     cp_max_spend_factor = unwrap_or (cf_max_spend_factor f) (cp_max_spend_factor default_policy),
     cp_spend_zscore = unwrap_or (cf_spend_zscore f) (cp_spend_zscore default_policy),
     cp_manual_gate_after = cf_manual_gate_after f\<rparr>"

definition parse_canary_policy ::
  "(string \<Rightarrow> string + canary_file) \<Rightarrow> string \<Rightarrow> canary_policy_error + canary_policy"
where
  "parse_canary_policy from_str yaml =
     (if is_blank yaml then Inr default_policy
      else
        (case from_str yaml of
           Inl e \<Rightarrow> Inl (CanaryYaml e)
         | Inr parsed \<Rightarrow>
             let policy = policy_of_file parsed in
             if f_le (cp_max_p99_factor policy) (FFin 0) then Inl P99FactorNotPositive
             else if f_le (cp_max_spend_factor policy) (FFin 0) then Inl SpendFactorNotPositive
             else if \<not> (f_le (FFin 0) (cp_max_error_rate_increase policy)
                       \<and> f_le (cp_max_error_rate_increase policy) (FFin 1))
             then Inl ErrorRateIncreaseOutOfRange
             else if f_le (cp_spend_zscore policy) (FFin 0) then Inl ZscoreNotPositive
             else Inr policy))"

section \<open>Correctness\<close>

text \<open>A double the machine can hold.\<close>

definition f64_wf :: "f64 \<Rightarrow> bool" where
  "f64_wf x = (case x of FFin a \<Rightarrow> rnd a = a \<and> \<bar>a\<bar> < pow2 1024 | _ \<Rightarrow> True)"

lemma f_lt_irrefl [simp]: "\<not> f_lt x x"
  by (cases x) auto

lemma f_insort_set [simp]: "set (f_insort x ys) = insert x (set ys)"
  by (induction x ys rule: f_insort.induct) auto

lemma f_insort_length [simp]: "length (f_insort x ys) = Suc (length ys)"
  by (induction x ys rule: f_insort.induct) auto

lemma f_sort_set [simp]: "set (f_sort xs) = set xs"
  by (induction xs) (auto simp: f_sort_def)

lemma f_sort_length [simp]: "length (f_sort xs) = length xs"
  by (induction xs) (auto simp: f_sort_def)

lemma percentile_sample: "percentile samples q = Some v \<Longrightarrow> v \<in> set samples"
  by (auto simp: percentile_def Let_def split: if_splits)
    (metis Suc_pred f_sort_length f_sort_set length_greater_0_conv lessI less_le_trans
      linorder_not_le min.cobounded2 not_less_eq nth_mem order_le_less_trans)

lemma isqrt_correct: "isqrt n * isqrt n \<le> n \<and> n < (isqrt n + 1) * (isqrt n + 1)"
proof (induction n rule: isqrt.induct)
  case (1 n)
  show ?case
  proof (cases "n = 0")
    case True
    then show ?thesis by (simp add: isqrt.simps)
  next
    case False
    let ?s = "isqrt (n div 4)"
    have IH: "?s * ?s \<le> n div 4" "n div 4 < (?s + 1) * (?s + 1)" using "1.IH" [OF False] by auto
    have lo: "(2 * ?s) * (2 * ?s) \<le> n" using IH(1) by (simp add: algebra_simps)
    have "n < 4 * ((?s + 1) * (?s + 1))" using IH(2) by (simp add: div_less_iff_less_mult algebra_simps)
    then have hi: "n < (2 * ?s + 2) * (2 * ?s + 2)" by (simp add: algebra_simps)
    show ?thesis
      using lo hi False by (subst (1 2 3 4) isqrt.simps) (auto simp: Let_def algebra_simps)
  qed
qed

lemma f64_round_0 [simp]: "f64_round 0 = FFin 0"
proof -
  have "\<not> pow2 1024 \<le> 0" by (simp only: not_le pow2_pos)
  then show ?thesis by (simp add: f64_round_def)
qed

lemma f64_round_1: "f64_round 1 = FFin 1"
  using rnd_of_nat [of 1] pow2_less_iff [of 0 1024] by (simp add: f64_round_def Let_def)

text \<open>Comparing a value with itself: a difference is zero or NaN, a quotient one or NaN,
  and no value exceeds itself times a factor of at least one.\<close>

lemma f_sub_self: "f_sub x x = FFin 0 \<or> f_sub x x = FNaN"
  by (cases x) (auto simp: f_sub_def)

lemma f_div_self: "f_div x x = FFin 1 \<or> f_div x x = FNaN"
  by (cases x) (auto simp: f64_round_1)

lemma f_lt_mul_self:
  assumes "f64_wf x" "f_lt (FFin 0) x" "f_le (FFin 1) k"
  shows "\<not> f_lt (f_mul x k) x"
proof (cases x)
  case (FFin a)
  then have a: "0 < a" "rnd a = a" using assms by (auto simp: f64_wf_def)
  show ?thesis
  proof (cases k)
    case k: (FFin b)
    then have "a \<le> a * b" using assms(3) a(1) by simp
    then have le: "rnd a \<le> rnd (a * b)" using a by (intro rnd_mono) auto
    then show ?thesis using a by (auto simp: FFin k f64_round_def Let_def)
  next
    case (FInf s)
    then show ?thesis using assms a by (auto simp: FFin)
  next
    case FNaN
    then show ?thesis by (simp add: FFin)
  qed
next
  case (FInf s)
  then show ?thesis using assms by (cases k) auto
next
  case FNaN
  then show ?thesis by (cases k) auto
qed

lemma f_lt_not_one: "f_le (FFin 1) k \<Longrightarrow> y = FFin 1 \<or> y = FNaN \<Longrightarrow> \<not> f_lt k y"
  by (cases k) auto

lemma f_lt_not_zero: "f_le (FFin 0) k \<Longrightarrow> y = FFin 0 \<or> y = FNaN \<Longrightarrow> \<not> f_lt k y"
  by (cases k) auto

lemma zscore_self: "spend_zscore_of w (mean_spend w) = Some z \<Longrightarrow> z = FFin 0 \<or> z = FNaN"
proof -
  assume z: "spend_zscore_of w (mean_spend w) = Some z"
  then obtain m sd where ms: "mean_std (spend_rates w) = Some (m, sd)" "f_lt (FFin 0) sd"
    and zd: "z = f_div (f_sub (mean_spend w) m) sd"
    by (auto simp: spend_zscore_of_def split: if_splits option.splits)
  have "m = mean_spend w" using ms(1)
    by (auto simp: mean_std_def mean_spend_def Let_def split: if_splits)
  then have "f_sub (mean_spend w) m = FFin 0 \<or> f_sub (mean_spend w) m = FNaN"
    using f_sub_self by metis
  then show ?thesis using ms(2) by (cases sd) (auto simp: zd)
qed

lemma spend_breach_self:
  assumes "f_le (FFin 1) (cp_max_spend_factor p)" "f_le (FFin 0) (cp_spend_zscore p)"
  shows "spend_breach p w w = None"
proof (cases "f_le (mean_spend w) (FFin 0)")
  case True
  then have "\<not> f_lt (FFin 0) (mean_spend w)" by (cases "mean_spend w") auto
  then show ?thesis using True by (simp add: spend_breach_def)
next
  case False
  have "\<not> f_lt (cp_max_spend_factor p) (f_div (mean_spend w) (mean_spend w))"
    using assms(1) f_div_self by (rule f_lt_not_one)
  moreover have "\<not> (case spend_zscore_of w (mean_spend w) of
      None \<Rightarrow> False | Some z \<Rightarrow> f_lt (cp_spend_zscore p) z)"
    using f_lt_not_zero [OF assms(2)] zscore_self by (auto split: option.splits)
  ultimately show ?thesis using False by (simp add: spend_breach_def Let_def)
qed

lemma error_rate_breach_self:
  "f_le (FFin 0) (cp_max_error_rate_increase p) \<Longrightarrow> error_rate_breach p w w = None"
  using f_lt_not_zero [OF _ f_sub_self] by (auto simp: error_rate_breach_def Let_def)

lemma p99_breach_self:
  assumes "f_le (FFin 1) (cp_max_p99_factor p)"
    and "\<forall>t \<in> set (bt_values w). \<forall>x \<in> set (nt_latencies_ms t). f64_wf x"
  shows "p99_breach p w w = None"
proof (cases "pooled_p99 w")
  case None
  then show ?thesis by (simp add: p99_breach_def)
next
  case (Some x)
  then have "f64_wf x" using assms(2) by (auto simp: pooled_p99_def dest!: percentile_sample)
  then show ?thesis using f_lt_mul_self [OF _ _ assms(1)] Some by (auto simp: p99_breach_def)
qed

text \<open>No false alarm: a canary wave whose telemetry equals the baseline's
  passes the analysis (or is reported as having no data), under every policy whose factors
  are at least one and whose other thresholds are not negative, whatever the request,
  error, latency and spend figures are, rounding of every operation included.\<close>

theorem identical_canary_passes:
  assumes "f_le (FFin 1) (cp_max_p99_factor p)" "f_le (FFin 1) (cp_max_spend_factor p)"
    and "f_le (FFin 0) (cp_max_error_rate_increase p)" "f_le (FFin 0) (cp_spend_zscore p)"
    and "\<forall>t \<in> set (bt_values w). \<forall>x \<in> set (nt_latencies_ms t). f64_wf x"
  shows "analyze p w w = (if has_samples w then Pass else NoData)"
  using assms
  by (simp add: analyze_def error_rate_breach_self p99_breach_self spend_breach_self)

definition example_wave :: wave_telemetry where
  "example_wave = [(''n1'', \<lparr>nt_requests = 1000, nt_errors = 5, nt_latencies_ms = [FFin 100],
                            nt_spent = 1000\<rparr>)]"

lemma default_increase_bounds:
  "f_le (FFin 0) DEFAULT_MAX_ERROR_RATE_INCREASE" "f_le DEFAULT_MAX_ERROR_RATE_INCREASE (FFin 1)"
proof -
  have "rnd (5 / 100) \<le> rnd 1" by (rule rnd_mono) auto
  then have le: "rnd (5 / 100) \<le> 1" using rnd_of_nat [of 1] by simp
  have ge: "0 \<le> rnd (5 / 100)" by (rule rnd_nonneg) simp
  have "f64_round (5 / 100) = FFin (rnd (5 / 100))"
    using le ge pow2_less_iff [of 0 1024] by (simp add: f64_round_def Let_def)
  with le ge show "f_le (FFin 0) DEFAULT_MAX_ERROR_RATE_INCREASE"
    "f_le DEFAULT_MAX_ERROR_RATE_INCREASE (FFin 1)"
    by (simp_all add: DEFAULT_MAX_ERROR_RATE_INCREASE_def)
qed

lemma default_policy_simps:
  "cp_max_p99_factor default_policy = FFin (3 / 2)"
  "cp_max_spend_factor default_policy = FFin 2"
  "cp_spend_zscore default_policy = FFin 3"
  "cp_max_error_rate_increase default_policy = DEFAULT_MAX_ERROR_RATE_INCREASE"
  by (simp_all add: default_policy_def DEFAULT_MAX_P99_FACTOR_def DEFAULT_MAX_SPEND_FACTOR_def
      DEFAULT_SPEND_ZSCORE_def)

theorem identical_canary_passes_witness:
  "analyze default_policy example_wave example_wave = Pass"
proof -
  have "f64_wf (FFin 100)"
    using rnd_of_nat [of 100] pow2_less_iff [of 7 1024] by (simp add: f64_wf_def pow2_def)
  then have "\<forall>t \<in> set (bt_values example_wave). \<forall>x \<in> set (nt_latencies_ms t). f64_wf x"
    by (simp add: example_wave_def bt_values_def)
  then have "analyze default_policy example_wave example_wave =
      (if has_samples example_wave then Pass else NoData)"
    by (intro identical_canary_passes) (simp_all add: default_policy_simps default_increase_bounds)
  then show ?thesis by (simp add: has_samples_def example_wave_def bt_values_def)
qed

text \<open>What a policy that was read guarantees.  The comparisons are false on NaN, so the
  guards on the factors let NaN pass; only the error-rate range excludes it.\<close>

lemma parse_canary_policy_ok:
  "parse_canary_policy from_str yaml = Inr p \<Longrightarrow>
     \<not> f_le (cp_max_p99_factor p) (FFin 0) \<and> \<not> f_le (cp_max_spend_factor p) (FFin 0) \<and>
     f_le (FFin 0) (cp_max_error_rate_increase p) \<and> f_le (cp_max_error_rate_increase p) (FFin 1) \<and>
     \<not> f_le (cp_spend_zscore p) (FFin 0)"
  by (auto simp: parse_canary_policy_def Let_def default_policy_simps default_increase_bounds
      split: if_splits sum.splits)

lemma p99_breach_nan: "cp_max_p99_factor p = FNaN \<Longrightarrow> p99_breach p canary baseline = None"
proof -
  have mul: "f_mul x FNaN = FNaN" for x by (cases x) auto
  assume "cp_max_p99_factor p = FNaN"
  then show ?thesis by (auto simp: p99_breach_def mul split: option.splits)
qed

lemma spend_breach_not_p99: "spend_breach p c w \<noteq> Some (BP99 x y z)"
  by (auto simp: spend_breach_def Let_def split: if_splits)

lemma error_rate_breach_not_p99: "error_rate_breach p c w \<noteq> Some (BP99 x y z)"
  by (auto simp: error_rate_breach_def Let_def split: if_splits)

text \<open>A canary file that enables the analysis and sets \<open>max_p99_factor\<close> to
  NaN (YAML \<open>.nan\<close>) is accepted, although the validation is there to reject a factor under
  which the check is meaningless, and the latency signal is then dead: no canary, however
  slow, fails on p99.\<close>

theorem nan_p99_factor_accepted:
  assumes "\<not> is_blank yaml"
    and "from_str yaml = Inr \<lparr>cf_enabled = True, cf_metrics = None, cf_window_secs = None,
      cf_max_error_rate_increase = None, cf_max_p99_factor = Some FNaN,
      cf_max_spend_factor = None, cf_spend_zscore = None, cf_manual_gate_after = []\<rparr>"
  shows "\<exists>p. parse_canary_policy from_str yaml = Inr p \<and> cp_enabled p \<and>
    em_p99 (cp_metrics p) \<and>
    (\<forall>canary baseline b c m. analyze p canary baseline \<noteq> Fail (BP99 b c m))"
proof -
  let ?p = "default_policy\<lparr>cp_enabled := True, cp_max_p99_factor := FNaN\<rparr>"
  have "parse_canary_policy from_str yaml = Inr ?p"
    using assms
    by (simp add: parse_canary_policy_def policy_of_file_def Let_def default_increase_bounds
        default_policy_def DEFAULT_MAX_SPEND_FACTOR_def DEFAULT_SPEND_ZSCORE_def)
  moreover have "analyze ?p canary baseline \<noteq> Fail (BP99 b c m)" for canary baseline b c m
    using spend_breach_not_p99 [of ?p canary baseline b c m]
      error_rate_breach_not_p99 [of ?p canary baseline b c m]
    by (auto simp: analyze_def p99_breach_nan split: option.splits if_splits)
  ultimately show ?thesis by (intro exI [of _ ?p]) (simp add: default_policy_def default_metrics_def)
qed

theorem nan_p99_factor_accepted_witness:
  "\<exists>p. parse_canary_policy (\<lambda>_. Inr \<lparr>cf_enabled = True, cf_metrics = None, cf_window_secs = None,
      cf_max_error_rate_increase = None, cf_max_p99_factor = Some FNaN,
      cf_max_spend_factor = None, cf_spend_zscore = None, cf_manual_gate_after = []\<rparr>) ''x'' = Inr p \<and>
    (\<forall>canary baseline b c m. analyze p canary baseline \<noteq> Fail (BP99 b c m))"
proof -
  have "\<not> is_blank ''x''" by (rule not_blank_ascii; code_simp)
  from nan_p99_factor_accepted [OF this refl] show ?thesis by blast
qed

end
