(* ===== verification/Render.thy ===== *)
theory Render
  imports GatewaySet Canary
begin

text \<open>
  \<open>gatewayctl/src/source.rs\<close> (the resolved repository), \<open>gatewayctl/src/render.rs\<close> and
  \<open>gateway-core/src/snapshot.rs\<close> (the content hash and the renderer's version counter).
  What these files take from other code is the record \<open>render_env\<close>: SHA-256, the YAML
  reader and writer, the \<open>Debug\<close> text of a YAML value, and the verdict of
  \<open>Config::from_yaml\<close> on a flat document.  Reading a directory or a Git object database is
  I/O; it yields the list of files \<open>rr_new\<close> takes.  Lemmas: a repository does not depend on
  the order its files were found in, and the canonical form does not depend on the order of
  keys.
\<close>

section \<open>Hashing and versions\<close>

record render_env =
  re_sha256 :: "string \<Rightarrow> string"
  re_from_str :: "string \<Rightarrow> string + yaml"
  re_to_string :: "yaml \<Rightarrow> string + string"
  re_debug :: "yaml \<Rightarrow> string"
  re_from_yaml :: "string \<Rightarrow> string option" \<comment> \<open>the error of \<open>Config::from_yaml\<close>, if any\<close>
  re_sets_reader :: "string \<Rightarrow> string + gateway_set_entry list"
  re_waves_reader :: "string \<Rightarrow> string + waves_file"
  re_canary_reader :: "string \<Rightarrow> string + canary_file"

definition hex_digit :: "nat \<Rightarrow> char" where
  "hex_digit n = (if n < 10 then char_of (48 + n) else char_of (87 + n))"

definition content_hash :: "render_env \<Rightarrow> string \<Rightarrow> string" where
  "content_hash E text =
     concat (map (\<lambda>b. [hex_digit (of_char b div 16), hex_digit (of_char b mod 16)])
       (re_sha256 E text))"

definition SHORT_HASH_LEN :: nat where
  "SHORT_HASH_LEN = 12"

record 'c snapshot =
  sn_config :: 'c
  sn_version :: u64
  sn_source :: string
  sn_content_hash :: string

definition short_hash :: "'c snapshot \<Rightarrow> string" where
  "short_hash s = take (min SHORT_HASH_LEN (length (sn_content_hash s))) (sn_content_hash s)"

record renderer =
  rd_next :: u64

definition renderer_new :: renderer where
  "renderer_new = \<lparr>rd_next = 0\<rparr>"

text \<open>\<open>render_text\<close>; \<open>from_yaml\<close> is the reader and validator of the configuration.\<close>

definition render_text ::
  "render_env \<Rightarrow> (string \<Rightarrow> 'e + 'c) \<Rightarrow> string \<Rightarrow> string \<Rightarrow> renderer \<Rightarrow>
   ('e + 'c snapshot) \<times> renderer"
where
  "render_text E from_yaml text source r =
     (case from_yaml text of
        Inl e \<Rightarrow> (Inl e, r)
      | Inr config \<Rightarrow>
          (Inr \<lparr>sn_config = config, sn_version = rd_next r + 1, sn_source = source,
                sn_content_hash = content_hash E text\<rparr>,
           r\<lparr>rd_next := rd_next r + 1\<rparr>))"

definition render_file ::
  "render_env \<Rightarrow> (string \<Rightarrow> 'e + 'c) \<Rightarrow> (string \<Rightarrow> 'e) \<Rightarrow> string + string \<Rightarrow> string \<Rightarrow> renderer \<Rightarrow>
   ('e + 'c snapshot) \<times> renderer"
where
  "render_file E from_yaml io_error contents path r =
     (case contents of
        Inl e \<Rightarrow> (Inl (io_error (path @ '': '' @ e)), r)
      | Inr text \<Rightarrow> render_text E from_yaml text path r)"

section \<open>The resolved repository\<close>

record resolved_repo =
  rr_files :: "(string \<times> string) list"
  rr_source_commit :: string

fun dedup_adjacent :: "(string \<times> string) list \<Rightarrow> (string \<times> string) list" where
  "dedup_adjacent [] = []"
| "dedup_adjacent [x] = [x]"
| "dedup_adjacent (x # y # xs) =
     (if fst y = fst x then dedup_adjacent (x # xs) else x # dedup_adjacent (y # xs))"

definition backslash :: char where
  "backslash = char_of (92::nat)"

definition rr_new :: "(string \<times> string) list \<Rightarrow> string \<Rightarrow> resolved_repo" where
  "rr_new files source_commit =
     \<lparr>rr_files = dedup_adjacent
        (sort_key fst (map (\<lambda>(p, b). (replace_char backslash CHR ''/'' p, b)) files)),
      rr_source_commit = source_commit\<rparr>"

definition rr_get :: "resolved_repo \<Rightarrow> string \<Rightarrow> string option" where
  "rr_get r rel = map_option snd (find (\<lambda>f. fst f = rel) (rr_files r))"

definition rr_contains :: "resolved_repo \<Rightarrow> string \<Rightarrow> bool" where
  "rr_contains r rel = list_ex (\<lambda>f. fst f = rel) (rr_files r)"

definition entries_under :: "resolved_repo \<Rightarrow> string \<Rightarrow> (string \<times> string) list" where
  "entries_under r dir =
     List.map_filter (\<lambda>(p, b).
       case strip_prefix p (trim_end_char CHR ''/'' dir @ ''/'') of
         Some rest \<Rightarrow> if rest = [] then None else Some (rest, b)
       | None \<Rightarrow> None) (rr_files r)"

text \<open>\<open>content_id\<close> hashes each file's text; \<open>lossy\<close> is \<open>String::from_utf8_lossy\<close>, the identity on
  well-formed UTF-8.\<close>

definition content_id :: "render_env \<Rightarrow> (string \<Rightarrow> string) \<Rightarrow> (string \<times> string) list \<Rightarrow> string" where
  "content_id E lossy files =
     content_hash E (concat (map (\<lambda>(p, b). p @ [char_of (0::nat)] @ content_hash E (lossy b) @ [char_of (10::nat)])
       (sort_key fst files)))"

section \<open>Rendering\<close>

datatype render_error =
    NotUtf8 string
  | ParseFailed string string
  | NotAMapping string
  | NoProviders
  | NoRoutes
  | NoRejections
  | Serializing string
  | InvalidConfig string
  | InvalidSets gateway_set_error
  | InvalidWaves wave_plan_error
  | InvalidCanary canary_policy_error

record rendered =
  rn_config_bytes :: string
  rn_render_hash :: string
  rn_source_commit :: string

record rendered_snapshot =
  rs_node_id :: string
  rs_source_commit :: string
  rs_render_hash :: string
  rs_fleet_version :: u64
  rs_config :: string
  rs_compiled_at :: u64

definition to_snapshot :: "rendered \<Rightarrow> string \<Rightarrow> u64 \<Rightarrow> u64 \<Rightarrow> rendered_snapshot" where
  "to_snapshot r node version compiled_at =
     \<lparr>rs_node_id = node, rs_source_commit = rn_source_commit r, rs_render_hash = rn_render_hash r,
      rs_fleet_version = version, rs_config = rn_config_bytes r, rs_compiled_at = compiled_at\<rparr>"

definition yaml_key_str :: "render_env \<Rightarrow> yaml \<Rightarrow> string" where
  "yaml_key_str E v = (case v of YString s \<Rightarrow> s | other \<Rightarrow> re_debug E other)"

text \<open>Sorting the entries by the text of their keys; \<open>sorted_value_any\<close> first canonicalises the
  values, which the keys do not depend on.  The entries of a \<open>Mapping\<close> have distinct keys, so
  rebuilding the mapping with \<open>insert\<close> keeps the sorted list.\<close>

fun sorted_value_any :: "render_env \<Rightarrow> yaml \<Rightarrow> yaml" where
  "sorted_value_any E (YMapping m) =
     YMapping (fold (\<lambda>(k, v). ym_insert k v)
       (sort_key (\<lambda>(k, v). yaml_key_str E k) (map (\<lambda>(k, v). (k, sorted_value_any E v)) m)) [])"
| "sorted_value_any E (YSequence vs) = YSequence (map (sorted_value_any E) vs)"
| "sorted_value_any E v = v"

definition parse_yaml_value :: "render_env \<Rightarrow> string \<Rightarrow> string \<Rightarrow> render_error + yaml" where
  "parse_yaml_value E bytes what =
     (if \<not> is_utf8 bytes then Inl (NotUtf8 what)
      else (case re_from_str E bytes of Inl e \<Rightarrow> Inl (ParseFailed what e) | Inr v \<Rightarrow> Inr v))"

definition read_yaml_mapping ::
  "render_env \<Rightarrow> resolved_repo \<Rightarrow> string \<Rightarrow> render_error + ymap option"
where
  "read_yaml_mapping E repo rel =
     (case rr_get repo rel of
        None \<Rightarrow> Inr None
      | Some bytes \<Rightarrow>
          (case parse_yaml_value E bytes rel of
             Inl e \<Rightarrow> Inl e
           | Inr (YMapping m) \<Rightarrow> Inr (Some m)
           | Inr other \<Rightarrow> Inl (NotAMapping rel)))"

definition project_names :: "resolved_repo \<Rightarrow> string list" where
  "project_names repo =
     sort (fold (\<lambda>(rel, _) names.
         case split_once CHR ''/'' rel of
           Some (name, _) \<Rightarrow> if name \<in> set names then names else names @ [name]
         | None \<Rightarrow> names)
       (entries_under repo ''projects'') [])"

fun read_project_list ::
  "render_env \<Rightarrow> resolved_repo \<Rightarrow> string list \<Rightarrow> render_error + (string \<times> yaml) list"
where
  "read_project_list E repo [] = Inr []"
| "read_project_list E repo (name # names) =
     (case read_yaml_mapping E repo (''projects/'' @ name @ ''/base.chain.yaml'') of
        Inl e \<Rightarrow> Inl e
      | Inr scope \<Rightarrow>
          (case read_project_list E repo names of
             Inl e \<Rightarrow> Inl e
           | Inr rest \<Rightarrow>
               Inr (case scope of
                      None \<Rightarrow> rest
                    | Some m \<Rightarrow> (name, sorted_value_any E (YMapping m)) # rest)))"

definition read_projects :: "render_env \<Rightarrow> resolved_repo \<Rightarrow> render_error + (string \<times> yaml) list" where
  "read_projects E repo = read_project_list E repo (project_names repo)"

fun read_route_list ::
  "render_env \<Rightarrow> (string \<times> string) list \<Rightarrow> render_error + yaml list"
where
  "read_route_list E [] = Inr []"
| "read_route_list E ((name, bytes) # files) =
     (case parse_yaml_value E bytes (''routes/'' @ name) of
        Inl e \<Rightarrow> Inl e
      | Inr val \<Rightarrow>
          (case read_route_list E files of
             Inl e \<Rightarrow> Inl e
           | Inr rest \<Rightarrow> Inr (sorted_value_any E val # rest)))"

definition read_routes :: "render_env \<Rightarrow> resolved_repo \<Rightarrow> render_error + yaml list" where
  "read_routes E repo =
     read_route_list E (sort_key fst
       (filter (\<lambda>(name, _). ends_with name ''.route.yaml'') (entries_under repo ''routes'')))"

definition doc_insert :: "string \<Rightarrow> yaml \<Rightarrow> ymap \<Rightarrow> ymap" where
  "doc_insert k v doc = ym_insert (YString k) v doc"

definition insert_optional ::
  "render_env \<Rightarrow> string \<Rightarrow> ymap option \<Rightarrow> ymap \<Rightarrow> ymap"
where
  "insert_optional E k m doc =
     (case m of None \<Rightarrow> doc | Some v \<Rightarrow> doc_insert k (sorted_value_any E (YMapping v)) doc)"

definition assemble_flat_doc :: "render_env \<Rightarrow> resolved_repo \<Rightarrow> render_error + ymap" where
  "assemble_flat_doc E repo =
     (case read_yaml_mapping E repo ''providers.yaml'' of
        Inl e \<Rightarrow> Inl e
      | Inr None \<Rightarrow> Inl NoProviders
      | Inr (Some providers) \<Rightarrow>
     (case read_yaml_mapping E repo ''fleet/base.chain.yaml'' of
        Inl e \<Rightarrow> Inl e
      | Inr fleet \<Rightarrow>
     (case read_projects E repo of
        Inl e \<Rightarrow> Inl e
      | Inr projects \<Rightarrow>
     (case read_routes E repo of
        Inl e \<Rightarrow> Inl e
      | Inr routes \<Rightarrow>
     if routes = [] then Inl NoRoutes else
     (case read_yaml_mapping E repo ''apps.yaml'' of
        Inl e \<Rightarrow> Inl e
      | Inr apps \<Rightarrow>
     (case read_yaml_mapping E repo ''rejections.yaml'' of
        Inl e \<Rightarrow> Inl e
      | Inr None \<Rightarrow> Inl NoRejections
      | Inr (Some rejections) \<Rightarrow>
     (case read_yaml_mapping E repo ''auth.yaml'' of
        Inl e \<Rightarrow> Inl e
      | Inr auth \<Rightarrow>
          let doc = doc_insert ''providers'' (sorted_value_any E (YMapping providers)) [];
              doc = insert_optional E ''fleet'' fleet doc;
              doc = (if projects = [] then doc
                     else doc_insert ''projects''
                       (YMapping (fold (\<lambda>(n, v). doc_insert n v) projects [])) doc);
              doc = doc_insert ''routes'' (YSequence routes) doc;
              doc = insert_optional E ''apps'' apps doc;
              doc = doc_insert ''rejections'' (sorted_value_any E (YMapping rejections)) doc
          in Inr (insert_optional E ''auth'' auth doc))))))))"

definition finalize :: "render_env \<Rightarrow> ymap \<Rightarrow> resolved_repo \<Rightarrow> render_error + rendered" where
  "finalize E doc repo =
     (case re_to_string E (sorted_value_any E (YMapping doc)) of
        Inl e \<Rightarrow> Inl (Serializing e)
      | Inr flat \<Rightarrow>
          (case re_from_yaml E flat of
             Some e \<Rightarrow> Inl (InvalidConfig e)
           | None \<Rightarrow> Inr \<lparr>rn_config_bytes = flat, rn_render_hash = content_hash E flat,
                          rn_source_commit = rr_source_commit repo\<rparr>))"

definition render_resolved :: "render_env \<Rightarrow> resolved_repo \<Rightarrow> render_error + rendered" where
  "render_resolved E repo =
     (case assemble_flat_doc E repo of Inl e \<Rightarrow> Inl e | Inr doc \<Rightarrow> finalize E doc repo)"

definition render_resolved_for_node ::
  "render_env \<Rightarrow> resolved_repo \<Rightarrow> gateway_sets \<Rightarrow> labels \<Rightarrow> render_error + rendered"
where
  "render_resolved_for_node E repo sets labels =
     (case assemble_flat_doc E repo of
        Inl e \<Rightarrow> Inl e
      | Inr doc \<Rightarrow> finalize E (fst (stamp sets doc labels)) repo)"

definition read_gatewaysets :: "render_env \<Rightarrow> resolved_repo \<Rightarrow> render_error + gateway_sets" where
  "read_gatewaysets E repo =
     (case rr_get repo ''gatewaysets.yaml'' of
        None \<Rightarrow> Inr []
      | Some bytes \<Rightarrow>
          if \<not> is_utf8 bytes then Inl (NotUtf8 ''gatewaysets.yaml'')
          else (case parse_gatewaysets (re_sets_reader E) bytes of
                  Inl e \<Rightarrow> Inl (InvalidSets e) | Inr s \<Rightarrow> Inr s))"

definition read_wave_plan :: "render_env \<Rightarrow> resolved_repo \<Rightarrow> render_error + wave_plan" where
  "read_wave_plan E repo =
     (case rr_get repo ''waves.yaml'' of
        None \<Rightarrow> Inr wp_single
      | Some bytes \<Rightarrow>
          if \<not> is_utf8 bytes then Inl (NotUtf8 ''waves.yaml'')
          else (case parse_wave_plan (re_waves_reader E) bytes of
                  Inl e \<Rightarrow> Inl (InvalidWaves e) | Inr p \<Rightarrow> Inr p))"

definition read_canary_policy :: "render_env \<Rightarrow> resolved_repo \<Rightarrow> render_error + canary_policy" where
  "read_canary_policy E repo =
     (case rr_get repo ''canary.yaml'' of
        None \<Rightarrow> Inr default_policy
      | Some bytes \<Rightarrow>
          if \<not> is_utf8 bytes then Inl (NotUtf8 ''canary.yaml'')
          else (case parse_canary_policy (re_canary_reader E) bytes of
                  Inl e \<Rightarrow> Inl (InvalidCanary e) | Inr p \<Rightarrow> Inr p))"

section \<open>Versions\<close>

text \<open>Rendering a sequence of texts, keeping the accepted snapshots.\<close>

fun render_all ::
  "render_env \<Rightarrow> (string \<Rightarrow> 'e + 'c) \<Rightarrow> string \<Rightarrow> string list \<Rightarrow> renderer \<Rightarrow>
   'c snapshot list \<times> renderer"
where
  "render_all E from_yaml source [] r = ([], r)"
| "render_all E from_yaml source (t # ts) r =
     (let (x, r') = render_text E from_yaml t source r;
          (rest, r'') = render_all E from_yaml source ts r'
      in (case x of Inl _ \<Rightarrow> rest | Inr s \<Rightarrow> s # rest, r''))"

text \<open>Versions have no gaps: whatever texts are rendered in whatever order, the
  accepted snapshots carry the versions that follow the counter one by one, a rejected text
  consumes none, and each accepted snapshot carries the hash of its own text.\<close>

theorem accepted_versions_have_no_gaps:
  "map sn_version (fst (render_all E from_yaml source ts r)) =
     map (\<lambda>i. rd_next r + 1 + of_nat i) [0 ..< length (fst (render_all E from_yaml source ts r))] \<and>
   map sn_content_hash (fst (render_all E from_yaml source ts r)) =
     map (content_hash E) (filter (\<lambda>t. \<not> isl (from_yaml t)) ts)"
proof (induction ts arbitrary: r)
  case Nil
  then show ?case by simp
next
  case (Cons t ts)
  show ?case
  proof (cases "from_yaml t")
    case (Inl e)
    then show ?thesis using Cons.IH [of r] by (simp add: render_text_def Let_def split_def)
  next
    case (Inr c)
    let ?r = "r\<lparr>rd_next := rd_next r + 1\<rparr>"
    have "map (\<lambda>i. rd_next ?r + 1 + of_nat i :: u64) [0 ..< n] =
        map (\<lambda>i. rd_next r + 1 + of_nat i) [1 ..< Suc n]" for n
      by (rule nth_equalityI) (simp_all add: algebra_simps del: upt_Suc)
    then show ?thesis using Cons.IH [of ?r] Inr
      by (simp add: render_text_def Let_def split_def upt_conv_Cons del: upt_Suc)
  qed
qed

section \<open>Reproducibility\<close>

lemma sort_key_distinct_mset:
  assumes "mset xs = mset ys" "distinct (map f xs)"
  shows "sort_key f xs = sort_key f ys"
proof (rule map_sorted_distinct_set_unique [where f = f])
  have eq: "set xs = set ys" using assms(1) by (metis set_mset_mset)
  have d: "distinct (map f ys)" using assms by (metis mset_map mset_eq_imp_distinct_iff)
  show "inj_on f (set (sort_key f xs) \<union> set (sort_key f ys))"
    using assms(2) eq by (simp add: distinct_map)
  show "distinct (map f (sort_key f xs))" "distinct (map f (sort_key f ys))"
    using assms(2) d by (simp_all add: distinct_map distinct_sort)
  show "set (sort_key f xs) = set (sort_key f ys)" using eq by simp
qed simp_all

text \<open>Two documents that differ in the order of mapping entries only, at any depth; the
  keys of each mapping have distinct texts.\<close>

inductive reordered :: "render_env \<Rightarrow> yaml \<Rightarrow> yaml \<Rightarrow> bool" for E where
  scalar: "reordered E v v"
| tagged: "reordered E (YTagged t v) (YTagged t v)"
| sequence: "list_all2 (reordered E) vs ws \<Longrightarrow> reordered E (YSequence vs) (YSequence ws)"
| mapping: "distinct (map (\<lambda>(k, v). yaml_key_str E k) m) \<Longrightarrow>
    map fst m = map fst n \<Longrightarrow> list_all2 (reordered E) (map snd m) (map snd n) \<Longrightarrow> mset n = mset n' \<Longrightarrow>
    reordered E (YMapping m) (YMapping n')"

lemma reordered_sorted: "reordered E v w \<Longrightarrow> sorted_value_any E v = sorted_value_any E w"
proof (induction rule: reordered.induct)
  case (sequence vs ws)
  then have "map (sorted_value_any E) vs = map (sorted_value_any E) ws"
    by (induction rule: list_all2_induct) auto
  then show ?case by simp
next
  case (mapping m n n')
  let ?f = "map (\<lambda>(k, v). (k, sorted_value_any E v))" and ?key = "\<lambda>(k, v). yaml_key_str E k"
  have "map (sorted_value_any E) (map snd m) = map (sorted_value_any E) (map snd n)"
    using mapping.IH by (induction rule: list_all2_induct) auto
  moreover have "?f xs = zip (map fst xs) (map (sorted_value_any E) (map snd xs))" for xs
    by (induction xs) auto
  ultimately have mn: "?f m = ?f n" using mapping.hyps(2) by metis
  have keys: "map ?key (?f xs) = map ?key xs" for xs by (induction xs) auto
  have "mset (?f n) = mset (?f n')" using mapping.hyps(3) by simp
  moreover have "distinct (map ?key (?f n))"
    unfolding mn [symmetric] keys using mapping.hyps(1) by simp
  ultimately have "sort_key ?key (?f n) = sort_key ?key (?f n')"
    by (rule sort_key_distinct_mset)
  then show ?case by (simp add: mn)
qed auto

text \<open>Property C25.  The rendered bytes and their hash do not depend on how the repository was
  enumerated or its documents were laid out: files found in any order give the same
  repository, hence the same render for every node, and documents that differ only in the
  order of mapping entries, at any depth, finalize to the same bytes and hash.\<close>

theorem render_is_reproducible:
  assumes "mset files = mset files'"
    and "distinct (map (\<lambda>f. replace_char backslash CHR ''/'' (fst f)) files)"
    and "reordered E (YMapping doc) (YMapping doc')"
  shows "render_resolved_for_node E (rr_new files c) sets labels =
      render_resolved_for_node E (rr_new files' c) sets labels \<and>
    finalize E doc repo = finalize E doc' repo"
proof
  let ?norm = "map (\<lambda>(p, b). (replace_char backslash CHR ''/'' p, b))"
  have "mset (?norm files) = mset (?norm files')" using assms(1) by simp
  moreover have "map fst (?norm files) = map (\<lambda>f. replace_char backslash CHR ''/'' (fst f)) files"
    by (induction files) auto
  then have "distinct (map fst (?norm files))" using assms(2) by (simp only:)
  ultimately have "sort_key fst (?norm files) = sort_key fst (?norm files')"
    by (rule sort_key_distinct_mset)
  then have "rr_new files c = rr_new files' c" by (simp only: rr_new_def)
  then show "render_resolved_for_node E (rr_new files c) sets labels =
      render_resolved_for_node E (rr_new files' c) sets labels" by simp
  show "finalize E doc repo = finalize E doc' repo"
    unfolding finalize_def reordered_sorted [OF assms(3)] ..
qed

definition example_env :: render_env where
  "example_env = \<lparr>re_sha256 = (\<lambda>s. s), re_from_str = (\<lambda>_. Inl ''unused''),
     re_to_string = (\<lambda>_. Inr ''flat''), re_debug = (\<lambda>_. []), re_from_yaml = (\<lambda>_. None),
     re_sets_reader = (\<lambda>_. Inr []), re_waves_reader = (\<lambda>_. Inr \<lparr>wf_waves = []\<rparr>),
     re_canary_reader = (\<lambda>_. Inl ''unused'')\<rparr>"

theorem render_is_reproducible_witness:
  "finalize example_env [(YString ''a'', YNull), (YString ''b'', YNull)] (rr_new [] ''c'') =
   finalize example_env [(YString ''b'', YNull), (YString ''a'', YNull)] (rr_new [] ''c'')"
proof -
  have r: "reordered example_env (YMapping [(YString ''a'', YNull), (YString ''b'', YNull)])
      (YMapping [(YString ''b'', YNull), (YString ''a'', YNull)])"
    by (rule reordered.mapping [where n = "[(YString ''a'', YNull), (YString ''b'', YNull)]"])
      (auto simp: yaml_key_str_def intro: reordered.scalar)
  have d: "distinct (map (\<lambda>f. replace_char backslash CHR ''/'' (fst f)) [(''x'', ''1''), (''y'', ''2'')])"
    by code_simp
  have m: "mset [(''x'', ''1''), (''y'', ''2'')] = mset [(''y'', ''2''), (''x'', ''1'')]" by simp
  show ?thesis using render_is_reproducible [OF m d r] by blast
qed

text \<open>A node no GatewaySet matches renders as the fleet does.\<close>

lemma render_for_unmatched_node:
  "matching sets labels = [] \<Longrightarrow>
   render_resolved_for_node E repo sets labels = render_resolved E repo"
  by (simp add: render_resolved_for_node_def render_resolved_def stamp_def split: sum.splits)

end
