(* ===== verification/Fleet.thy ===== *)
theory Fleet
  imports Render
begin

text \<open>
  \<open>gatewayctl/src/fleet.rs\<close>: the desired state of the fleet, the per-node versions, the
  committed version, the per-wave commits and the adjudication of one wave.  The mutex makes
  each method one step, so a method is a function from \<open>fleet\<close> to its result and the new
  \<open>fleet\<close>.  The two counters \<open>last_version\<close> and \<open>committed_version\<close> are \<open>u64\<close>.  Lemmas: what
  halts a wave, that per-node versions never regress, which nodes are pending, and when the
  render cache answers for another node.
\<close>

section \<open>State\<close>

datatype divergence_kind =
    DNacked u64 string
  | DSilent u64
  | DWrongHash u64 (dk_expected: string) (dk_got: string)

record divergence =
  dv_node_id :: string
  dv_kind :: divergence_kind

datatype wave_outcome =
    WCommitted string nat
  | WHalted string "divergence list"
  | WNoNodes string

datatype ack_result = Acked string | Nacked string | Silent

record node_versioning =
  nv_last_version :: u64
  nv_last_pushed_hash :: "string option"

record desired_inputs =
  di_resolved :: resolved_repo
  di_gatewaysets :: gateway_sets
  di_plan :: wave_plan

record fleet =
  fl_applied :: rendered
  fl_committed_version :: u64
  fl_per_node :: "(string, node_versioning) btree"
  fl_desired :: "desired_inputs option"
  fl_wave_commit :: "(string, string) btree"
  fl_render_cache :: "(string, rendered) btree"
  fl_canary :: canary_policy
  fl_waves_in_flight :: nat

section \<open>Operations\<close>

definition fleet_new :: "rendered \<Rightarrow> fleet" where
  "fleet_new applied = \<lparr>fl_applied = applied, fl_committed_version = 0, fl_per_node = [],
     fl_desired = None, fl_wave_commit = [], fl_render_cache = [],
     fl_canary = default_policy, fl_waves_in_flight = 0\<rparr>"

definition from_source ::
  "rendered \<Rightarrow> resolved_repo \<Rightarrow> gateway_sets \<Rightarrow> wave_plan \<Rightarrow> fleet"
where
  "from_source applied resolved sets plan =
     (fleet_new applied)\<lparr>fl_desired := Some \<lparr>di_resolved = resolved, di_gatewaysets = sets,
                                            di_plan = plan\<rparr>\<rparr>"

definition begin_wave :: "fleet \<Rightarrow> fleet" where
  "begin_wave f = f\<lparr>fl_waves_in_flight := fl_waves_in_flight f + 1\<rparr>"

definition drop_guard :: "fleet \<Rightarrow> fleet" where
  "drop_guard f = f\<lparr>fl_waves_in_flight := fl_waves_in_flight f - 1\<rparr>"

definition wave_in_flight :: "fleet \<Rightarrow> bool" where
  "wave_in_flight f \<longleftrightarrow> 0 < fl_waves_in_flight f"

definition set_applied :: "rendered \<Rightarrow> fleet \<Rightarrow> bool \<times> fleet" where
  "set_applied next f =
     (if rn_render_hash (fl_applied f) = rn_render_hash next then (False, f)
      else (True, f\<lparr>fl_applied := next, fl_render_cache := []\<rparr>))"

definition set_applied_from_source ::
  "rendered \<Rightarrow> resolved_repo \<Rightarrow> gateway_sets \<Rightarrow> wave_plan \<Rightarrow> fleet \<Rightarrow> bool \<times> fleet"
where
  "set_applied_from_source next resolved sets plan f =
     (rn_source_commit (fl_applied f) \<noteq> rn_source_commit next,
      f\<lparr>fl_applied := next,
        fl_desired := Some \<lparr>di_resolved = resolved, di_gatewaysets = sets, di_plan = plan\<rparr>,
        fl_render_cache := []\<rparr>)"

definition fleet_wave_plan :: "fleet \<Rightarrow> wave_plan" where
  "fleet_wave_plan f = (case fl_desired f of Some d \<Rightarrow> di_plan d | None \<Rightarrow> wp_single)"

definition set_canary_policy :: "canary_policy \<Rightarrow> fleet \<Rightarrow> fleet" where
  "set_canary_policy p f = f\<lparr>fl_canary := p\<rparr>"

definition canonical_labels :: "labels \<Rightarrow> string" where
  "canonical_labels labels = concat (map (\<lambda>(k, v). k @ ''='' @ v @ '';'') labels)"

text \<open>The render of a node computed without the cache.\<close>

definition desired_uncached :: "render_env \<Rightarrow> labels \<Rightarrow> fleet \<Rightarrow> rendered" where
  "desired_uncached E labels f =
     (case fl_desired f of
        None \<Rightarrow> fl_applied f
      | Some d \<Rightarrow>
          (case render_resolved_for_node E (di_resolved d) (di_gatewaysets d) labels of
             Inl _ \<Rightarrow> fl_applied f
           | Inr r \<Rightarrow> r))"

definition desired_for :: "render_env \<Rightarrow> labels \<Rightarrow> fleet \<Rightarrow> rendered \<times> fleet" where
  "desired_for E labels f =
     (let key = canonical_labels labels in
      case bt_get (fl_render_cache f) key of
        Some hit \<Rightarrow> (hit, f)
      | None \<Rightarrow>
          let r = desired_uncached E labels f
          in (r, f\<lparr>fl_render_cache := bt_insert key r (fl_render_cache f)\<rparr>))"

definition set_wave_commit :: "string \<Rightarrow> string \<Rightarrow> fleet \<Rightarrow> fleet" where
  "set_wave_commit wave commit f =
     f\<lparr>fl_wave_commit := bt_insert wave commit (fl_wave_commit f)\<rparr>"

definition NEVER_COMMITTED :: string where
  "NEVER_COMMITTED = ''(never committed)''"

definition revert_wave_commit :: "string \<Rightarrow> string \<Rightarrow> fleet \<Rightarrow> fleet" where
  "revert_wave_commit wave prior f =
     (if prior = NEVER_COMMITTED
      then f\<lparr>fl_wave_commit := bt_remove wave (fl_wave_commit f)\<rparr>
      else f\<lparr>fl_wave_commit := bt_insert wave prior (fl_wave_commit f)\<rparr>)"

definition node_pending_in_unapplied_wave :: "labels \<Rightarrow> fleet \<Rightarrow> bool" where
  "node_pending_in_unapplied_wave labels f =
     (case fl_desired f of
        None \<Rightarrow> False
      | Some d \<Rightarrow>
          if length (wp_waves (di_plan d)) \<le> 1 then False
          else
            let target = rn_source_commit (fl_applied f) in
            if \<not> list_ex (\<lambda>c. c = target) (bt_values (fl_wave_commit f)) then False
            else
              let idx = wave_index_for (di_plan d) labels;
                  name = (if idx < length (wp_waves (di_plan d))
                          then wv_name (wp_waves (di_plan d) ! idx) else IMPLICIT_FINAL_WAVE)
              in bt_get (fl_wave_commit f) name \<noteq> Some target)"

definition delivered_hash :: "string \<Rightarrow> fleet \<Rightarrow> string option" where
  "delivered_hash node f =
     Option.bind (bt_get (fl_per_node f) node) nv_last_pushed_hash"

definition next_version_for :: "string \<Rightarrow> string \<Rightarrow> fleet \<Rightarrow> u64 \<times> fleet" where
  "next_version_for node hash f =
     (let entry = bt_entry (fl_per_node f) node \<lparr>nv_last_version = 0, nv_last_pushed_hash = None\<rparr>
      in if nv_last_pushed_hash entry = Some hash
         then (nv_last_version entry, f\<lparr>fl_per_node := bt_insert node entry (fl_per_node f)\<rparr>)
         else
           let entry' = \<lparr>nv_last_version = nv_last_version entry + 1,
                         nv_last_pushed_hash = Some hash\<rparr>
           in (nv_last_version entry', f\<lparr>fl_per_node := bt_insert node entry' (fl_per_node f)\<rparr>))"

definition expected_of :: "string \<Rightarrow> (string \<times> string) list \<Rightarrow> string \<Rightarrow> string" where
  "expected_of outcome_hash expected node =
     (case find (\<lambda>e. fst e = node) expected of Some e \<Rightarrow> snd e | None \<Rightarrow> outcome_hash)"

definition divergence_of :: "u64 \<Rightarrow> string \<Rightarrow> string \<times> ack_result \<Rightarrow> divergence option" where
  "divergence_of version want res =
     (case snd res of
        Acked hash \<Rightarrow>
          if hash = want then None
          else Some \<lparr>dv_node_id = fst res, dv_kind = DWrongHash version want hash\<rparr>
      | Nacked reason \<Rightarrow> Some \<lparr>dv_node_id = fst res, dv_kind = DNacked version reason\<rparr>
      | Silent \<Rightarrow> Some \<lparr>dv_node_id = fst res, dv_kind = DSilent version\<rparr>)"

definition conclude_wave_multi ::
  "string \<Rightarrow> (string \<times> string) list \<Rightarrow> u64 \<Rightarrow> (string \<times> ack_result) list \<Rightarrow> fleet \<Rightarrow>
   wave_outcome \<times> fleet"
where
  "conclude_wave_multi outcome_hash expected version results f =
     (if results = [] then (WNoNodes outcome_hash, f)
      else
        let divergences = List.map_filter
              (\<lambda>r. divergence_of version (expected_of outcome_hash expected (fst r)) r) results
        in if divergences = []
           then (WCommitted outcome_hash (length results), f\<lparr>fl_committed_version := version\<rparr>)
           else (WHalted outcome_hash divergences, f))"

definition conclude_wave ::
  "string \<Rightarrow> u64 \<Rightarrow> (string \<times> ack_result) list \<Rightarrow> fleet \<Rightarrow> wave_outcome \<times> fleet"
where
  "conclude_wave render_hash version results f =
     conclude_wave_multi render_hash (map (\<lambda>(id, _). (id, render_hash)) results) version results f"

section \<open>The in-flight counter\<close>

lemma guard_nests [simp]: "drop_guard (begin_wave f) = f"
  by (simp add: drop_guard_def begin_wave_def)

lemma in_flight_begin: "wave_in_flight (begin_wave f)"
  by (simp add: wave_in_flight_def begin_wave_def)

section \<open>Adjudicating a wave\<close>

lemma divergence_None:
  "divergence_of version want r = None \<longleftrightarrow> snd r = Acked want"
  by (cases "snd r") (auto simp: divergence_of_def)

lemma map_filter_empty: "List.map_filter g xs = [] \<longleftrightarrow> (\<forall>x \<in> set xs. g x = None)"
  by (induction xs) (auto simp: List.map_filter_simps split: option.splits)

lemma conclude_outcome:
  "conclude_wave_multi h expected v results f = (out, f') \<Longrightarrow>
     (out = WNoNodes h \<and> results = [] \<and> f' = f) \<or>
     (out = WCommitted h (length results) \<and> results \<noteq> [] \<and> f' = f\<lparr>fl_committed_version := v\<rparr> \<and>
        (\<forall>r \<in> set results. snd r = Acked (expected_of h expected (fst r)))) \<or>
     (\<exists>ds. out = WHalted h ds \<and> ds \<noteq> [] \<and> f' = f \<and>
        (\<exists>r \<in> set results. snd r \<noteq> Acked (expected_of h expected (fst r))))"
proof -
  assume run: "conclude_wave_multi h expected v results f = (out, f')"
  let ?div = "\<lambda>r. divergence_of v (expected_of h expected (fst r)) r"
  consider "results = []" | "results \<noteq> []" "List.map_filter ?div results = []"
    | "results \<noteq> []" "List.map_filter ?div results \<noteq> []" by blast
  then show ?thesis
  proof cases
    case 1
    then show ?thesis using run by (simp add: conclude_wave_multi_def)
  next
    case 2
    then show ?thesis using run
      by (simp add: conclude_wave_multi_def Let_def map_filter_empty divergence_None)
  next
    case 3
    then have "\<exists>r \<in> set results. snd r \<noteq> Acked (expected_of h expected (fst r))"
      by (simp add: map_filter_empty divergence_None)
    then show ?thesis using run 3 by (auto simp: conclude_wave_multi_def Let_def)
  qed
qed

text \<open>Property C22.  All or nothing: a wave is committed exactly when it pushed to somebody and
  every node acknowledged the very hash expected of it; only then does the fleet's committed
  version become the wave's version.  Otherwise the fleet is unchanged, and a halt names
  exactly the nodes that did not acknowledge their hash.\<close>

theorem wave_is_all_or_nothing:
  assumes "conclude_wave_multi h expected v results f = (out, f')"
  shows "(out = WCommitted h (length results) \<longleftrightarrow>
       results \<noteq> [] \<and> (\<forall>r \<in> set results. snd r = Acked (expected_of h expected (fst r)))) \<and>
    (if out = WCommitted h (length results) then f' = f\<lparr>fl_committed_version := v\<rparr> else f' = f) \<and>
    (\<forall>ds. out = WHalted h ds \<longrightarrow>
       map dv_node_id ds =
       map fst (filter (\<lambda>r. snd r \<noteq> Acked (expected_of h expected (fst r))) results))"
proof -
  have "map dv_node_id (List.map_filter
      (\<lambda>r. divergence_of v (expected_of h expected (fst r)) r) rs) =
      map fst (filter (\<lambda>r. snd r \<noteq> Acked (expected_of h expected (fst r))) rs)" for rs
    by (induction rs) (auto simp: List.map_filter_simps divergence_of_def
        split: option.splits ack_result.splits if_splits)
  note names = this
  show ?thesis
  proof (intro conjI allI impI)
    show "out = WCommitted h (length results) \<longleftrightarrow>
        results \<noteq> [] \<and> (\<forall>r \<in> set results. snd r = Acked (expected_of h expected (fst r)))"
      using conclude_outcome [OF assms] by auto
    show "if out = WCommitted h (length results) then f' = f\<lparr>fl_committed_version := v\<rparr> else f' = f"
      using conclude_outcome [OF assms] by auto
    fix ds
    assume "out = WHalted h ds"
    then have "ds = List.map_filter (\<lambda>r. divergence_of v (expected_of h expected (fst r)) r) results"
      using assms by (auto simp: conclude_wave_multi_def Let_def split: if_splits)
    then show "map dv_node_id ds =
        map fst (filter (\<lambda>r. snd r \<noteq> Acked (expected_of h expected (fst r))) results)"
      by (simp only: names)
  qed
qed

definition example_rendered :: "string \<Rightarrow> string \<Rightarrow> rendered" where
  "example_rendered h c = \<lparr>rn_config_bytes = ''cfg'', rn_render_hash = h, rn_source_commit = c\<rparr>"

theorem wave_is_all_or_nothing_witness:
  "\<exists>f'. conclude_wave ''h'' 3 [(''n1'', Acked ''h''), (''n2'', Silent)]
      (fleet_new (example_rendered ''h'' ''c'')) =
    (WHalted ''h'' [\<lparr>dv_node_id = ''n2'', dv_kind = DSilent 3\<rparr>], f') \<and>
    f' = fleet_new (example_rendered ''h'' ''c'')"
proof -
  let ?f = "fleet_new (example_rendered ''h'' ''c'')"
  have run: "conclude_wave_multi ''h'' [(''n1'', ''h''), (''n2'', ''h'')] 3
      [(''n1'', Acked ''h''), (''n2'', Silent)] ?f =
      (WHalted ''h'' [\<lparr>dv_node_id = ''n2'', dv_kind = DSilent 3\<rparr>], ?f)"
    by (simp add: conclude_wave_multi_def expected_of_def divergence_of_def List.map_filter_simps)
  from wave_is_all_or_nothing [OF run] run show ?thesis
    by (simp add: conclude_wave_def)
qed

section \<open>Per-node versions\<close>

definition node_version :: "fleet \<Rightarrow> string \<Rightarrow> u64" where
  "node_version f node = (case bt_get (fl_per_node f) node of Some e \<Rightarrow> nv_last_version e | None \<Rightarrow> 0)"

lemma next_version_result:
  assumes "bt_wf (fl_per_node f)" "next_version_for node hash f = (v, f')"
  shows "bt_wf (fl_per_node f') \<and> v = node_version f' node \<and> delivered_hash node f' = Some hash \<and>
    v = (if delivered_hash node f = Some hash then node_version f node else node_version f node + 1) \<and>
    (\<forall>n. n \<noteq> node \<longrightarrow> node_version f' n = node_version f n \<and> delivered_hash n f' = delivered_hash n f)"
  using assms
  by (auto simp: next_version_for_def Let_def node_version_def delivered_hash_def bt_entry_def
      bt.get_insert bt_wf_insert split: option.splits if_splits)

text \<open>A run of pushes to nodes, each with its hash; the versions it assigns.\<close>

fun push_all :: "(string \<times> string) list \<Rightarrow> fleet \<Rightarrow> u64 list \<times> fleet" where
  "push_all [] f = ([], f)"
| "push_all ((node, hash) # ps) f =
     (let (v, f1) = next_version_for node hash f; (vs, f2) = push_all ps f1 in (v # vs, f2))"

lemma unat_Suc_u64: "unat (x :: u64) + 1 < 2 ^ 64 \<Longrightarrow> unat (x + 1) = unat x + 1"
  by (simp add: unat_word_ariths)

lemma node_version_push_all:
  assumes "bt_wf (fl_per_node f)" "push_all ps f = (vs, f')"
    and "unat (node_version f node) + length ps < 2 ^ 64"
  shows "unat (node_version f node) \<le> unat (node_version f' node) \<and>
    unat (node_version f' node) \<le> unat (node_version f node) + length ps"
  using assms
proof (induction ps arbitrary: f vs)
  case Nil
  then show ?case by simp
next
  case (Cons p ps)
  obtain n h where p: "p = (n, h)" by (cases p)
  obtain v f1 where v: "next_version_for n h f = (v, f1)" by (cases "next_version_for n h f")
  obtain ws where ws: "push_all ps f1 = (ws, f')"
    using Cons.prems(2) by (auto simp: p v Let_def split_def) (metis prod.collapse)
  note r = next_version_result [OF Cons.prems(1) v]
  have "node_version f1 node = node_version f node \<or> node_version f1 node = node_version f node + 1"
    using r by (cases "n = node") metis+
  moreover have "unat (node_version f node) + 1 < 2 ^ 64" using Cons.prems(3) by simp
  ultimately have step: "unat (node_version f node) \<le> unat (node_version f1 node) \<and>
      unat (node_version f1 node) \<le> unat (node_version f node) + 1"
    using unat_Suc_u64 [of "node_version f node"] by (metis le_add1 le_refl)
  have "unat (node_version f1 node) + length ps < 2 ^ 64" using step Cons.prems(3) by simp
  from Cons.IH [OF _ ws this] r step show ?case by simp
qed

text \<open>Per-node versions never regress: over any sequence of pushes to any nodes,
  a node's version only grows, by at most one per push, as long as the number of pushes keeps
  the counter below \<open>2 ^ 64\<close>.  A repeated push of the hash delivered last keeps the version.\<close>

theorem node_versions_are_monotonic:
  assumes "bt_wf (fl_per_node f)" "push_all ps f = (vs, f')"
    and "unat (node_version f node) + length ps < 2 ^ 64"
  shows "node_version f node \<le> node_version f' node \<and>
    unat (node_version f' node) \<le> unat (node_version f node) + length ps \<and>
    (\<forall>h. delivered_hash node f' = Some h \<longrightarrow> fst (next_version_for node h f') = node_version f' node)"
proof -
  have "fst (next_version_for node h f') = node_version f' node"
    if "delivered_hash node f' = Some h" for h
    using that by (cases "bt_get (fl_per_node f') node")
      (auto simp: next_version_for_def delivered_hash_def node_version_def bt_entry_def)
  then show ?thesis using node_version_push_all [OF assms] by (simp add: word_le_nat_alt)
qed

theorem node_versions_are_monotonic_witness:
  "\<exists>vs f'. push_all [(''n1'', ''a''), (''n2'', ''a''), (''n1'', ''b'')]
      (fleet_new (example_rendered ''h'' ''c'')) = (vs, f') \<and>
    node_version f' ''n1'' \<le> 3 \<and> 0 \<le> node_version f' ''n1''"
proof -
  let ?ps = "[(''n1'', ''a''), (''n2'', ''a''), (''n1'', ''b'')]"
    and ?f = "fleet_new (example_rendered ''h'' ''c'')"
  obtain vs f' where run: "push_all ?ps ?f = (vs, f')" by (cases "push_all ?ps ?f")
  have "unat (node_version f' ''n1'') \<le> 3"
    using node_versions_are_monotonic [OF _ run, of "''n1''"]
    by (simp add: fleet_new_def node_version_def)
  then show ?thesis using run by (simp add: word_le_nat_alt)
qed

section \<open>The render cache\<close>

text \<open>The key of the cache is not injective: the texts of keys and values may contain \<open>=\<close> and
  \<open>;\<close>.  Between applies the cache answers for every label set with the same text.\<close>

lemma desired_for_fresh:
  "fl_render_cache f = [] \<Longrightarrow> fst (desired_for E labels f) = desired_uncached E labels f"
  by (simp add: desired_for_def Let_def)

text \<open>Without \<open>=\<close> and \<open>;\<close> in keys and values the key determines the labels.\<close>

definition plain_labels :: "labels \<Rightarrow> bool" where
  "plain_labels labels \<longleftrightarrow>
     (\<forall>(k, v) \<in> set labels. CHR ''='' \<notin> set k \<and> CHR '';'' \<notin> set v)"

lemma canonical_labels_inj:
  "plain_labels l \<Longrightarrow> plain_labels m \<Longrightarrow> canonical_labels l = canonical_labels m \<Longrightarrow> l = m"
proof (induction l arbitrary: m)
  case Nil
  then show ?case by (cases m) (auto simp: canonical_labels_def)
next
  case (Cons kv l)
  obtain k v where kv: "kv = (k, v)" by (cases kv)
  obtain k' v' m' where m: "m = (k', v') # m'"
    using Cons.prems(3) by (cases m) (auto simp: canonical_labels_def kv)
  have eq: "k @ CHR ''='' # (v @ CHR '';'' # canonical_labels l) =
      k' @ CHR ''='' # (v' @ CHR '';'' # canonical_labels m')"
    using Cons.prems(3) by (simp add: canonical_labels_def kv m)
  have "CHR ''='' \<notin> set k" "CHR ''='' \<notin> set k'" "CHR '';'' \<notin> set v" "CHR '';'' \<notin> set v'"
    using Cons.prems(1,2) by (auto simp: plain_labels_def kv m)
  note sep = this
  have 1: "split_once CHR ''='' (k @ CHR ''='' # (v @ CHR '';'' # canonical_labels l)) =
      Some (k, v @ CHR '';'' # canonical_labels l)"
    "split_once CHR ''='' (k' @ CHR ''='' # (v' @ CHR '';'' # canonical_labels m')) =
      Some (k', v' @ CHR '';'' # canonical_labels m')"
    using sep by (simp_all add: split_once_Some)
  then have "(k, v @ CHR '';'' # canonical_labels l) = (k', v' @ CHR '';'' # canonical_labels m')"
    unfolding eq by (metis option.inject)
  then have k: "k = k'" and rest: "v @ CHR '';'' # canonical_labels l = v' @ CHR '';'' # canonical_labels m'"
    by blast+
  have "split_once CHR '';'' (v @ CHR '';'' # canonical_labels l) = Some (v, canonical_labels l)"
    "split_once CHR '';'' (v' @ CHR '';'' # canonical_labels m') = Some (v', canonical_labels m')"
    using sep by (simp_all add: split_once_Some)
  then have "(v, canonical_labels l) = (v', canonical_labels m')"
    unfolding rest by (metis option.inject)
  then have v: "v = v'" "canonical_labels l = canonical_labels m'" by blast+
  have "l = m'" using Cons.IH [of m'] Cons.prems(1,2) v(2) by (simp add: plain_labels_def kv m)
  then show ?case by (simp add: kv m k v(1))
qed

text \<open>The cache is right for plain labels: every entry is the render of the plain label set
  its key spells.\<close>

definition cache_ok :: "render_env \<Rightarrow> fleet \<Rightarrow> bool" where
  "cache_ok E f \<longleftrightarrow> bt_wf (fl_render_cache f) \<and>
     (\<forall>l r. plain_labels l \<longrightarrow> bt_get (fl_render_cache f) (canonical_labels l) = Some r \<longrightarrow>
        r = desired_uncached E l f)"

lemma cache_ok_desired_for:
  assumes "cache_ok E f" "plain_labels labels"
  shows "fst (desired_for E labels f) = desired_uncached E labels f"
    and "cache_ok E (snd (desired_for E labels f))"
proof -
  show "fst (desired_for E labels f) = desired_uncached E labels f"
    using assms by (auto simp: cache_ok_def desired_for_def Let_def split: option.splits)
  have same: "desired_uncached E l (f\<lparr>fl_render_cache := c\<rparr>) = desired_uncached E l f" for l c
    by (cases "fl_desired f") (simp_all add: desired_uncached_def split: sum.splits)
  show "cache_ok E (snd (desired_for E labels f))"
    using assms
    by (auto simp: cache_ok_def desired_for_def Let_def bt.get_insert bt_wf_insert same
        dest: canonical_labels_inj split: option.splits if_splits)
qed

text \<open>Different labels can share a cache key: the label set with the one label
  \<open>a\<close> of value \<open>1;b=2\<close> and the one with \<open>a = 1\<close> and \<open>b = 2\<close> have the same canonical text, so
  after one node's render is cached a node with the other labels is given that render
  unchanged, although its own GatewaySets may stamp something else.\<close>

theorem cache_confuses_labels:
  assumes "fl_render_cache f = []"
  shows "fst (desired_for E [(''a'', ''1''), (''b'', ''2'')]
           (snd (desired_for E [(''a'', ''1;b=2'')] f))) =
      desired_uncached E [(''a'', ''1;b=2'')] f \<and>
    bt_get [(''a'', ''1''), (''b'', ''2'')] ''b'' \<noteq> bt_get [(''a'', ''1;b=2'')] ''b''"
  using assms by (simp add: desired_for_def Let_def canonical_labels_def)

theorem cache_confuses_labels_witness:
  "fst (desired_for example_env [(''a'', ''1''), (''b'', ''2'')]
      (snd (desired_for example_env [(''a'', ''1;b=2'')] (fleet_new (example_rendered ''h'' ''c''))))) =
    example_rendered ''h'' ''c''"
  using cache_confuses_labels [of "fleet_new (example_rendered ''h'' ''c'')" example_env]
  by (simp add: fleet_new_def desired_uncached_def)

end
