(* ===== verification/Rollout.thy ===== *)
theory Rollout
  imports Fleet
begin

text \<open>
  \<open>gatewayctl/src/rollout.rs\<close>: the ordered walk over the waves.  The network is a parameter:
  \<open>answers wave node\<close> is what the push to \<open>node\<close> during \<open>wave\<close> resolves to, \<open>Silent\<close> when the
  stream is gone, the sender dropped or the wave timeout passed.  The send of a push has no timeout
  of its own; these definitions are about pushes whose sends complete, and what happens to the
  control plane when one does not is in \<open>ControlPlane\<close>.  \<open>lookup node\<close> is the label
  entry of the runtime store and \<open>nodes\<close> the connected nodes with their labels.  The walk is
  one task; a join or a reconcile tick that runs between two of its steps is not part of
  these definitions.  Lemmas: what a walk leaves behind at every wave.
\<close>

section \<open>Outcomes\<close>

datatype wave_step_state =
    SAdvanced string
  | SHalted string "divergence list"
  | SFrozen string
  | SEmpty

record wave_step =
  ws_wave_name :: string
  ws_node_count :: nat
  ws_state :: wave_step_state

record multi_wave_outcome =
  mo_steps :: "wave_step list"
  mo_halted_at :: "nat option"
  mo_target_commit :: string

definition is_fully_applied :: "multi_wave_outcome \<Rightarrow> bool" where
  "is_fully_applied o' \<longleftrightarrow> mo_halted_at o' = None"

section \<open>One wave\<close>

definition frozen_commit :: "fleet \<Rightarrow> string \<Rightarrow> string" where
  "frozen_commit f wave =
     (case bt_get (fl_wave_commit f) wave of Some c \<Rightarrow> c | None \<Rightarrow> NEVER_COMMITTED)"

definition desired_for_node ::
  "render_env \<Rightarrow> (string \<Rightarrow> labels option) \<Rightarrow> string \<Rightarrow> fleet \<Rightarrow> rendered \<times> fleet"
where
  "desired_for_node E lookup node f =
     (case lookup node of Some l \<Rightarrow> desired_for E l f | None \<Rightarrow> (fl_applied f, f))"

text \<open>The push loop: every node's render and version, the expected hashes and the highest
  version assigned.\<close>

fun push_wave ::
  "render_env \<Rightarrow> (string \<Rightarrow> labels option) \<Rightarrow> string list \<Rightarrow> u64 \<Rightarrow> fleet \<Rightarrow>
   (string \<times> string) list \<times> u64 \<times> fleet"
where
  "push_wave E lookup [] wv f = ([], wv, f)"
| "push_wave E lookup (node # ns) wv f =
     (let (r, f1) = desired_for_node E lookup node f;
          (v, f2) = next_version_for node (rn_render_hash r) f1;
          (ex, wv', f3) = push_wave E lookup ns (max wv v) f2
      in ((node, rn_render_hash r) # ex, wv', f3))"

definition run_wave_nodes ::
  "render_env \<Rightarrow> (string \<Rightarrow> labels option) \<Rightarrow> (string \<Rightarrow> ack_result) \<Rightarrow> string list \<Rightarrow> fleet \<Rightarrow>
   wave_outcome \<times> fleet"
where
  "run_wave_nodes E lookup answer node_ids f =
     (let (expected, wv, f1) = push_wave E lookup node_ids (fl_committed_version f) f;
          results = map (\<lambda>n. (n, answer n)) node_ids;
          outcome_hash = (case expected of e # _ \<Rightarrow> snd e | [] \<Rightarrow> [])
      in conclude_wave_multi outcome_hash expected wv results f1)"

section \<open>The walk\<close>

definition wave_step_of ::
  "render_env \<Rightarrow> (string \<Rightarrow> labels option) \<Rightarrow> (string \<Rightarrow> string \<Rightarrow> ack_result) \<Rightarrow> string \<Rightarrow>
   nat \<times> assigned_wave \<Rightarrow> wave_step list \<times> nat option \<times> fleet \<Rightarrow>
   wave_step list \<times> nat option \<times> fleet"
where
  "wave_step_of E lookup answers target iw s =
     (case iw of (idx, w) \<Rightarrow> case s of (steps, halted_at, f) \<Rightarrow>
       let step = (\<lambda>n st. \<lparr>ws_wave_name = aw_name w, ws_node_count = n, ws_state = st\<rparr>) in
       if halted_at \<noteq> None then
         (steps @ [step (length (aw_node_ids w)) (SFrozen (frozen_commit f (aw_name w)))], halted_at, f)
       else if aw_node_ids w = [] then (steps @ [step 0 SEmpty], halted_at, f)
       else
         (case run_wave_nodes E lookup (answers (aw_name w)) (aw_node_ids w) f of
            (WCommitted _ node_count, f1) \<Rightarrow>
              (steps @ [step node_count (SAdvanced target)], halted_at,
               set_wave_commit (aw_name w) target f1)
          | (WHalted _ divergences, f1) \<Rightarrow>
              (steps @ [step (length (aw_node_ids w))
                 (SHalted (frozen_commit f1 (aw_name w)) divergences)], Some idx, f1)
          | (WNoNodes _, f1) \<Rightarrow> (steps @ [step 0 SEmpty], halted_at, f1)))"

definition walk_waves ::
  "render_env \<Rightarrow> (string \<Rightarrow> labels option) \<Rightarrow> (string \<Rightarrow> string \<Rightarrow> ack_result) \<Rightarrow> string \<Rightarrow>
   assigned_wave list \<Rightarrow> fleet \<Rightarrow> wave_step list \<times> nat option \<times> fleet"
where
  "walk_waves E lookup answers target ws f =
     fold (wave_step_of E lookup answers target) (enumerate 0 ws) ([], None, f)"

definition roll_out_plan ::
  "render_env \<Rightarrow> (string \<Rightarrow> labels option) \<Rightarrow> (string \<Rightarrow> string \<Rightarrow> ack_result) \<Rightarrow>
   (string \<times> labels) list \<Rightarrow> fleet \<Rightarrow> multi_wave_outcome \<times> fleet"
where
  "roll_out_plan E lookup answers nodes f0 =
     (let f = begin_wave f0;
          target = rn_source_commit (fl_applied f);
          (steps, halted_at, f1) =
            walk_waves E lookup answers target (assign (fleet_wave_plan f) nodes) f
      in (\<lparr>mo_steps = steps, mo_halted_at = halted_at, mo_target_commit = target\<rparr>, drop_guard f1))"

text \<open>The single-wave path: one render pushed to every connected node.\<close>

fun push_same :: "string \<Rightarrow> string list \<Rightarrow> u64 \<Rightarrow> fleet \<Rightarrow> u64 \<times> fleet" where
  "push_same hash [] wv f = (wv, f)"
| "push_same hash (node # ns) wv f =
     (let (v, f1) = next_version_for node hash f in push_same hash ns (max wv v) f1)"

definition run_wave ::
  "string \<Rightarrow> (string \<Rightarrow> ack_result) \<Rightarrow> string list \<Rightarrow> fleet \<Rightarrow> wave_outcome \<times> fleet"
where
  "run_wave hash answer node_ids f0 =
     (let f = begin_wave f0 in
      if node_ids = [] then
        (case conclude_wave hash (fl_committed_version f) [] f of (o', f1) \<Rightarrow> (o', drop_guard f1))
      else
        let (wv, f1) = push_same hash node_ids (fl_committed_version f) f;
            (o', f2) = conclude_wave hash wv (map (\<lambda>n. (n, answer n)) node_ids) f1
        in (o', drop_guard f2))"

definition roll_out :: "(string \<Rightarrow> ack_result) \<Rightarrow> string list \<Rightarrow> fleet \<Rightarrow> wave_outcome \<times> fleet" where
  "roll_out answer node_ids f = run_wave (rn_render_hash (fl_applied f)) answer node_ids f"

text \<open>A raw snapshot; \<open>lossy\<close> is \<open>String::from_utf8_lossy\<close>.\<close>

definition roll_out_raw ::
  "render_env \<Rightarrow> (string \<Rightarrow> string) \<Rightarrow> (string \<Rightarrow> ack_result) \<Rightarrow> string list \<Rightarrow> string \<Rightarrow> fleet \<Rightarrow>
   wave_outcome \<times> fleet"
where
  "roll_out_raw E lossy answer node_ids bytes f =
     run_wave (content_hash E (lossy bytes)) answer node_ids f"

definition heal_node ::
  "render_env \<Rightarrow> (string \<Rightarrow> labels option) \<Rightarrow> (string \<Rightarrow> ack_result) \<Rightarrow> string \<Rightarrow> fleet \<Rightarrow> bool \<times> fleet"
where
  "heal_node E lookup answer node f =
     (let (r, f1) = desired_for_node E lookup node f;
          (v, f2) = next_version_for node (rn_render_hash r) f1
      in (answer node = Acked (rn_render_hash r), f2))"

section \<open>What pushing leaves alone\<close>

definition fleet_frame :: "fleet \<Rightarrow> fleet \<Rightarrow> bool" where
  "fleet_frame f g \<longleftrightarrow> fl_applied g = fl_applied f \<and> fl_desired g = fl_desired f \<and>
     fl_wave_commit g = fl_wave_commit f \<and> fl_canary g = fl_canary f \<and>
     fl_waves_in_flight g = fl_waves_in_flight f"

lemma fleet_frame_refl [simp]: "fleet_frame f f"
  by (simp add: fleet_frame_def)

lemma fleet_frame_trans: "fleet_frame f g \<Longrightarrow> fleet_frame g h \<Longrightarrow> fleet_frame f h"
  by (simp add: fleet_frame_def)

lemma frame_desired_for_node: "desired_for_node E lookup node f = (r, g) \<Longrightarrow> fleet_frame f g"
  by (auto simp: desired_for_node_def desired_for_def Let_def fleet_frame_def
      split: option.splits)

lemma frame_next_version: "next_version_for node h f = (v, g) \<Longrightarrow> fleet_frame f g"
  by (auto simp: next_version_for_def Let_def fleet_frame_def split: if_splits)

lemma frame_conclude: "conclude_wave_multi h ex v rs f = (o', g) \<Longrightarrow> fleet_frame f g"
  by (auto simp: conclude_wave_multi_def Let_def fleet_frame_def split: if_splits)

lemma push_wave_result:
  "push_wave E lookup ns wv f = (ex, wv', g) \<Longrightarrow> fleet_frame f g \<and> map fst ex = ns \<and> wv \<le> wv'"
proof (induction ns arbitrary: wv f ex)
  case Nil
  then show ?case by simp
next
  case (Cons node ns)
  obtain r f1 where r: "desired_for_node E lookup node f = (r, f1)" by fastforce
  obtain v f2 where v: "next_version_for node (rn_render_hash r) f1 = (v, f2)" by fastforce
  obtain ex' where ex': "push_wave E lookup ns (max wv v) f2 = (ex', wv', g)"
    "ex = (node, rn_render_hash r) # ex'"
    using Cons.prems by (auto simp: r v split: prod.splits)
  have "fleet_frame f2 g" "map fst ex' = ns" "max wv v \<le> wv'" using Cons.IH [OF ex'(1)] by auto
  moreover have "fleet_frame f f2"
    using frame_desired_for_node [OF r] frame_next_version [OF v] by (rule fleet_frame_trans)
  moreover have "wv \<le> wv'" using \<open>max wv v \<le> wv'\<close> by simp
  ultimately show ?case by (auto simp: ex'(2) intro: fleet_frame_trans)
qed

lemma run_wave_nodes_result:
  assumes "run_wave_nodes E lookup answer ids f = (o', g)" "ids \<noteq> []"
  shows "fleet_frame f g \<and>
    ((\<exists>h. o' = WCommitted h (length ids)) \<or> (\<exists>h ds. o' = WHalted h ds \<and> ds \<noteq> []))"
proof -
  obtain ex wv f1 where p: "push_wave E lookup ids (fl_committed_version f) f = (ex, wv, f1)"
    by (metis prod_cases3)
  obtain h where c: "conclude_wave_multi h ex wv (map (\<lambda>n. (n, answer n)) ids) f1 = (o', g)"
    using assms(1) by (auto simp: run_wave_nodes_def p Let_def)
  have "fleet_frame f g"
    using push_wave_result [OF p] frame_conclude [OF c] by (blast intro: fleet_frame_trans)
  then show ?thesis using conclude_outcome [OF c] assms(2) by auto
qed

lemma frozen_commit_cong: "fl_wave_commit f = fl_wave_commit g \<Longrightarrow> frozen_commit f w = frozen_commit g w"
  by (simp add: frozen_commit_def)

section \<open>What a walk leaves behind\<close>

text \<open>The step of a wave that was reached and did not fail, and of one that was never tried.\<close>

definition reached_step :: "string \<Rightarrow> assigned_wave \<Rightarrow> wave_step" where
  "reached_step target w =
     \<lparr>ws_wave_name = aw_name w, ws_node_count = length (aw_node_ids w),
      ws_state = (if aw_node_ids w = [] then SEmpty else SAdvanced target)\<rparr>"

definition frozen_step :: "fleet \<Rightarrow> assigned_wave \<Rightarrow> wave_step" where
  "frozen_step f w =
     \<lparr>ws_wave_name = aw_name w, ws_node_count = length (aw_node_ids w),
      ws_state = SFrozen (frozen_commit f (aw_name w))\<rparr>"

definition halted_step :: "fleet \<Rightarrow> assigned_wave \<Rightarrow> divergence list \<Rightarrow> wave_step" where
  "halted_step f w ds =
     \<lparr>ws_wave_name = aw_name w, ws_node_count = length (aw_node_ids w),
      ws_state = SHalted (frozen_commit f (aw_name w)) ds\<rparr>"

lemma in_flight_steps [simp]:
  "frozen_commit (f\<lparr>fl_waves_in_flight := k\<rparr>) w = frozen_commit f w"
  "frozen_step (f\<lparr>fl_waves_in_flight := k\<rparr>) = frozen_step f"
  "halted_step (f\<lparr>fl_waves_in_flight := k\<rparr>) = halted_step f"
  by (simp_all add: frozen_commit_def frozen_step_def halted_step_def fun_eq_iff)

text \<open>The per-wave commits after advancing some waves.\<close>

definition advance_waves ::
  "string \<Rightarrow> assigned_wave list \<Rightarrow> (string, string) btree \<Rightarrow> (string, string) btree"
where
  "advance_waves target ws m =
     fold (\<lambda>w. bt_insert (aw_name w) target) (filter (\<lambda>w. aw_node_ids w \<noteq> []) ws) m"

lemma bt_wf_advance: "bt_wf m \<Longrightarrow> bt_wf (advance_waves target ws m)"
  by (induction ws arbitrary: m) (auto simp: advance_waves_def bt_wf_insert)

lemma bt_get_advance:
  "bt_wf m \<Longrightarrow> bt_get (advance_waves target ws m) n =
     (if \<exists>w \<in> set ws. aw_node_ids w \<noteq> [] \<and> aw_name w = n then Some target else bt_get m n)"
  by (induction ws arbitrary: m) (auto simp: advance_waves_def bt_wf_insert bt.get_insert)

lemma advance_snoc:
  "advance_waves target (ws @ [w]) m =
     (if aw_node_ids w = [] then advance_waves target ws m
      else bt_insert (aw_name w) target (advance_waves target ws m))"
  by (simp add: advance_waves_def)

text \<open>What the walk state looks like after the waves \<open>ws\<close>.\<close>

definition walk_ok ::
  "string \<Rightarrow> fleet \<Rightarrow> assigned_wave list \<Rightarrow> wave_step list \<times> nat option \<times> fleet \<Rightarrow> bool"
where
  "walk_ok target f0 ws s =
     (case s of (steps, halted_at, f) \<Rightarrow>
        (case halted_at of
           None \<Rightarrow> steps = map (reached_step target) ws \<and>
             fl_wave_commit f = advance_waves target ws (fl_wave_commit f0)
         | Some h \<Rightarrow> h < length ws \<and>
             (\<exists>ds. ds \<noteq> [] \<and> steps = map (reached_step target) (take h ws) @
                halted_step f0 (ws ! h) ds # map (frozen_step f0) (drop (Suc h) ws)) \<and>
             fl_wave_commit f = advance_waves target (take h ws) (fl_wave_commit f0)) \<and>
        fl_applied f = fl_applied f0 \<and> fl_desired f = fl_desired f0 \<and>
        fl_waves_in_flight f = fl_waves_in_flight f0)"

lemma frozen_unreached:
  assumes "bt_wf (fl_wave_commit f0)" "fl_wave_commit f = advance_waves target ws (fl_wave_commit f0)"
    and "n \<notin> aw_name ` set ws"
  shows "frozen_commit f n = frozen_commit f0 n"
  using assms by (auto simp: frozen_commit_def bt_get_advance)

lemma walk_step_ok:
  assumes wf: "bt_wf (fl_wave_commit f0)" and ok: "walk_ok target f0 ws s"
    and fresh: "aw_name w \<notin> aw_name ` set ws"
  shows "walk_ok target f0 (ws @ [w]) (wave_step_of E lookup answers target (length ws, w) s)"
proof -
  obtain steps halted f where s: "s = (steps, halted, f)" by (metis prod_cases3)
  show ?thesis
  proof (cases halted)
    case (Some h)
    have h: "h < length ws" "fl_wave_commit f = advance_waves target (take h ws) (fl_wave_commit f0)"
      using ok by (auto simp: walk_ok_def s Some)
    have "aw_name w \<notin> aw_name ` set (take h ws)"
      using fresh by (meson image_mono in_mono set_take_subset)
    from frozen_unreached [OF wf h(2) this] show ?thesis
      using ok h(1) by (auto simp: walk_ok_def s Some wave_step_of_def Let_def frozen_step_def nth_append)
  next
    case None
    have commits: "fl_wave_commit f = advance_waves target ws (fl_wave_commit f0)"
      using ok by (simp add: walk_ok_def s None)
    show ?thesis
    proof (cases "aw_node_ids w = []")
      case True
      then show ?thesis
        using ok by (simp add: walk_ok_def s None wave_step_of_def reached_step_def advance_snoc)
    next
      case False
      obtain o' g where run: "run_wave_nodes E lookup (answers (aw_name w)) (aw_node_ids w) f = (o', g)"
        by fastforce
      note r = run_wave_nodes_result [OF run False]
      then consider h where "o' = WCommitted h (length (aw_node_ids w))"
        | h ds where "o' = WHalted h ds" "ds \<noteq> []" by blast
      then show ?thesis
      proof cases
        case 1
        then show ?thesis
          using ok r False run
          by (simp add: walk_ok_def s None wave_step_of_def reached_step_def advance_snoc
              set_wave_commit_def fleet_frame_def)
      next
        case 2
        have "frozen_commit g (aw_name w) = frozen_commit f0 (aw_name w)"
          using frozen_unreached [OF wf _ fresh, of g target] r commits by (simp add: fleet_frame_def)
        then show ?thesis
          using ok r False run 2
          by (simp add: walk_ok_def s None wave_step_of_def halted_step_def fleet_frame_def)
      qed
    qed
  qed
qed

lemma walk_waves_ok:
  assumes "bt_wf (fl_wave_commit f)" "distinct (map aw_name ws)"
  shows "walk_ok target f ws (walk_waves E lookup answers target ws f)"
  using assms(2)
proof (induction ws rule: rev_induct)
  case Nil
  then show ?case by (simp add: walk_ok_def walk_waves_def advance_waves_def)
next
  case (snoc w ws)
  then have "walk_ok target f ws (walk_waves E lookup answers target ws f)" and
    "aw_name w \<notin> aw_name ` set ws" by auto
  from walk_step_ok [OF assms(1) this, of E lookup answers] show ?case
    by (simp add: walk_waves_def enumerate_append_eq)
qed

lemma roll_out_plan_walk:
  assumes "roll_out_plan E lookup answers nodes f = (o', f')"
  shows "\<exists>g. walk_waves E lookup answers (rn_source_commit (fl_applied f))
      (assign (fleet_wave_plan f) nodes) (begin_wave f) = (mo_steps o', mo_halted_at o', g) \<and>
    f' = drop_guard g \<and> mo_target_commit o' = rn_source_commit (fl_applied f)"
  using assms
  by (auto simp: roll_out_plan_def Let_def fleet_wave_plan_def begin_wave_def split: prod.splits)

text \<open>An ordered, all-or-nothing rollout: walking the assigned waves (of pairwise
  different names), whatever the nodes answer, the walk either advances every non-empty wave
  to the target commit, or stops at the first wave that fails.  Then the waves before it are
  advanced, it is reported halted on its prior commit with its divergences, and every later
  wave is reported frozen on its prior commit.  The recorded commits say the same: exactly
  the non-empty waves before the stop are on the target, every other entry is untouched, and
  the in-flight count is what it was.\<close>

theorem rollout_stops_at_first_failure:
  assumes "bt_wf (fl_wave_commit f)"
    and "distinct (map aw_name (assign (fleet_wave_plan f) nodes))"
    and "roll_out_plan E lookup answers nodes f = (o', f')"
  shows "let ws = assign (fleet_wave_plan f) nodes; target = rn_source_commit (fl_applied f);
             advanced = (case mo_halted_at o' of None \<Rightarrow> ws | Some h \<Rightarrow> take h ws) in
    (case mo_halted_at o' of
       None \<Rightarrow> mo_steps o' = map (reached_step target) ws
     | Some h \<Rightarrow> h < length ws \<and>
         (\<exists>ds. ds \<noteq> [] \<and> mo_steps o' = map (reached_step target) (take h ws) @
            halted_step f (ws ! h) ds # map (frozen_step f) (drop (Suc h) ws))) \<and>
    (\<forall>n. bt_get (fl_wave_commit f') n =
       (if \<exists>w \<in> set advanced. aw_node_ids w \<noteq> [] \<and> aw_name w = n then Some target
        else bt_get (fl_wave_commit f) n)) \<and>
    fl_waves_in_flight f' = fl_waves_in_flight f"
proof -
  obtain g where g: "walk_waves E lookup answers (rn_source_commit (fl_applied f))
      (assign (fleet_wave_plan f) nodes) (begin_wave f) = (mo_steps o', mo_halted_at o', g)"
    "f' = drop_guard g" using roll_out_plan_walk [OF assms(3)] by blast
  have same: "fl_wave_commit (begin_wave f) = fl_wave_commit f"
    "frozen_step (begin_wave f) = frozen_step f" "halted_step (begin_wave f) = halted_step f"
    by (simp_all add: begin_wave_def)
  have "walk_ok (rn_source_commit (fl_applied f)) (begin_wave f)
      (assign (fleet_wave_plan f) nodes) (mo_steps o', mo_halted_at o', g)"
    using walk_waves_ok [of "begin_wave f", OF _ assms(2)] assms(1) same g(1) by metis
  then show ?thesis
    using assms(1) g(2)
    by (auto simp: walk_ok_def Let_def same bt_get_advance drop_guard_def begin_wave_def
        split: option.splits)
qed

definition example_plan :: wave_plan where
  "example_plan = wp_new [\<lparr>wv_name = ''a'', wv_selector = sel_everything\<rparr>,
     \<lparr>wv_name = ''b'', wv_selector = sel_everything\<rparr>] ImplicitFinalWave"

definition example_fleet :: fleet where
  "example_fleet = from_source (example_rendered ''h'' ''c2'') (rr_new [] ''c2'') [] example_plan"

lemma example_assign_distinct: "distinct (map aw_name (assign example_plan nodes))"
  by (simp add: assign_names example_plan_def wp_new_def IMPLICIT_FINAL_WAVE_def)

theorem rollout_stops_at_first_failure_witness:
  "\<exists>o' f'. roll_out_plan example_env (\<lambda>_. None) (\<lambda>_ _. Silent) [(''n1'', [])] example_fleet = (o', f') \<and>
     fl_waves_in_flight f' = 0"
proof -
  obtain o' f' where run:
    "roll_out_plan example_env (\<lambda>_. None) (\<lambda>_ _. Silent) [(''n1'', [])] example_fleet = (o', f')"
    by fastforce
  have wf: "bt_wf (fl_wave_commit example_fleet)"
    by (simp add: example_fleet_def from_source_def fleet_new_def)
  have "distinct (map aw_name (assign (fleet_wave_plan example_fleet) [(''n1'', [])]))"
    using example_assign_distinct by (simp add: example_fleet_def from_source_def fleet_wave_plan_def)
  from rollout_stops_at_first_failure [OF wf this run]
  have "fl_waves_in_flight f' = fl_waves_in_flight example_fleet" by (simp add: Let_def)
  then show ?thesis using run by (simp add: example_fleet_def from_source_def fleet_new_def)
qed

text \<open>Every plan the repository can name has waves of different names.\<close>

lemma read_plan_distinct:
  assumes "read_wave_plan E repo = Inr p"
  shows "distinct (map aw_name (assign p nodes))"
proof -
  have single: "distinct (map aw_name (assign wp_single nodes))"
    by (simp add: assign_names wp_single_def IMPLICIT_FINAL_WAVE_def)
  show ?thesis
  proof (cases "rr_get repo ''waves.yaml''")
    case None
    then show ?thesis using assms single by (auto simp: read_wave_plan_def)
  next
    case (Some y)
    then have "parse_wave_plan (re_waves_reader E) y = Inr p"
      using assms by (auto simp: read_wave_plan_def split: if_splits sum.splits)
    from parse_wave_plan_ok [OF this] show ?thesis by (auto simp: assign_names)
  qed
qed

end
