(* ===== verification/Telemetry.thy ===== *)
theory Telemetry
  imports Canary
begin

text \<open>
  \<open>gatewayctl/src/telemetry.rs\<close>: the reading of a node's health string and the per-node
  windows it is folded into.  \<open>parse_u64\<close> and \<open>parse_f64\<close> are Rust's \<open>str::parse\<close> for the two
  types (a decimal text denotes the double nearest to its exact value).  Lemmas: the windows
  stay bounded and every operation touches one node only.
\<close>

section \<open>Reading numbers\<close>

definition digit_val :: "char \<Rightarrow> nat" where
  "digit_val c = of_char c - 48"

fun take_digits :: "string \<Rightarrow> string \<times> string" where
  "take_digits [] = ([], [])"
| "take_digits (c # s) =
     (if is_ascii_digit c then (let (d, r) = take_digits s in (c # d, r)) else ([], c # s))"

definition digits_val :: "string \<Rightarrow> nat" where
  "digits_val ds = fold (\<lambda>c n. 10 * n + digit_val c) ds 0"

definition parse_u64 :: "string \<Rightarrow> u64 option" where
  "parse_u64 s =
     (let t = (case s of c # r \<Rightarrow> if c = CHR ''+'' then r else s | [] \<Rightarrow> s) in
      if t = [] \<or> \<not> list_all is_ascii_digit t then None
      else if digits_val t < 2 ^ 64 then Some (of_nat (digits_val t)) else None)"

definition parse_exponent :: "string \<Rightarrow> int option" where
  "parse_exponent s =
     (case s of
        [] \<Rightarrow> Some 0
      | c # r \<Rightarrow>
          if c \<noteq> CHR ''e'' \<and> c \<noteq> CHR ''E'' then None
          else
            let (neg, ds) = (case r of
                  d # q \<Rightarrow> if d = CHR ''-'' then (True, q) else if d = CHR ''+'' then (False, q) else (False, r)
                | [] \<Rightarrow> (False, r))
            in if ds = [] \<or> \<not> list_all is_ascii_digit ds then None
               else Some (if neg then - int (digits_val ds) else int (digits_val ds)))"

definition pow10 :: "int \<Rightarrow> rat" where
  "pow10 e = (if 0 \<le> e then 10 ^ nat e else 1 / 10 ^ nat (- e))"

definition parse_f64_unsigned :: "string \<Rightarrow> f64 option" where
  "parse_f64_unsigned s =
     (if eq_ignore_ascii_case s ''inf'' \<or> eq_ignore_ascii_case s ''infinity'' then Some (FInf False)
      else if eq_ignore_ascii_case s ''nan'' then Some FNaN
      else
        let (whole, r) = take_digits s;
            (frac, rest) = (case r of
                c # q \<Rightarrow> if c = CHR ''.'' then take_digits q else ([], r) | [] \<Rightarrow> ([], r))
        in if whole = [] \<and> frac = [] then None
           else
             (case parse_exponent rest of
                None \<Rightarrow> None
              | Some e \<Rightarrow>
                  Some (f64_round (of_nat (digits_val (whole @ frac)) * pow10 (e - int (length frac))))))"

definition parse_f64 :: "string \<Rightarrow> f64 option" where
  "parse_f64 s =
     (case s of
        [] \<Rightarrow> None
      | c # r \<Rightarrow>
          if c = CHR ''-'' then map_option f_neg (parse_f64_unsigned r)
          else if c = CHR ''+'' then parse_f64_unsigned r
          else parse_f64_unsigned s)"

text \<open>\<open>split_whitespace\<close>: the maximal pieces without white space.\<close>

function split_ws :: "string \<Rightarrow> string \<Rightarrow> string list" where
  "split_ws cur s =
     (case s of
        [] \<Rightarrow> if cur = [] then [] else [rev cur]
      | c # t \<Rightarrow>
          let r = strip_one whitespace_seqs s in
          if length r < length s
          then (if cur = [] then split_ws [] r else rev cur # split_ws [] r)
          else split_ws (c # cur) t)"
  by pat_completeness auto

termination
  by (relation "measure (\<lambda>(cur, s). length s)") auto

declare split_ws.simps [simp del]

definition trim_end_matches_ms :: "string \<Rightarrow> string" where
  "trim_end_matches_ms s = rev (strip_all [''sm''] (rev s))"

section \<open>Windows\<close>

record node_window =
  nw_requests :: u64
  nw_errors :: u64
  nw_latencies_ms :: "f64 list"

definition MAX_LATENCY_SAMPLES :: nat where
  "MAX_LATENCY_SAMPLES = 512"

record parsed_health =
  ph_healthy :: bool
  ph_requests :: "u64 option"
  ph_errors :: "u64 option"
  ph_p99_ms :: "f64 option"

definition health_token :: "string \<Rightarrow> parsed_health \<Rightarrow> parsed_health" where
  "health_token tok p =
     (case split_once CHR ''='' tok of
        None \<Rightarrow> p
      | Some (k, v) \<Rightarrow>
          if k = ''req'' \<or> k = ''requests'' then p\<lparr>ph_requests := parse_u64 v\<rparr>
          else if k = ''err'' \<or> k = ''errors'' then p\<lparr>ph_errors := parse_u64 v\<rparr>
          else if k = ''p99'' \<or> k = ''p99_ms''
          then p\<lparr>ph_p99_ms := parse_f64 (trim_end_matches_ms v)\<rparr>
          else p)"

definition parse_health :: "string \<Rightarrow> parsed_health" where
  "parse_health health =
     (let trimmed = trim health in
      fold health_token (split_ws [] trimmed)
        \<lparr>ph_healthy = \<not> starts_with trimmed ''degraded'', ph_requests = None,
         ph_errors = None, ph_p99_ms = None\<rparr>)"

type_synonym fleet_telemetry = "(string, node_window) btree"

definition empty_window :: node_window where
  "empty_window = \<lparr>nw_requests = 0, nw_errors = 0, nw_latencies_ms = []\<rparr>"

definition fold_health :: "parsed_health \<Rightarrow> node_window \<Rightarrow> node_window" where
  "fold_health p w =
     (let w1 =
        (case (ph_requests p, ph_errors p) of
           (Some req, Some err) \<Rightarrow>
             w\<lparr>nw_requests := sat_add (nw_requests w) req, nw_errors := sat_add (nw_errors w) err\<rparr>
         | (Some req, None) \<Rightarrow>
             w\<lparr>nw_requests := sat_add (nw_requests w) req,
               nw_errors := (if ph_healthy p then nw_errors w else sat_add (nw_errors w) 1)\<rparr>
         | (None, _) \<Rightarrow>
             if ph_healthy p then w
             else w\<lparr>nw_requests := sat_add (nw_requests w) 1, nw_errors := sat_add (nw_errors w) 1\<rparr>)
      in (case ph_p99_ms p of
            None \<Rightarrow> w1
          | Some x \<Rightarrow>
              if length (nw_latencies_ms w1) < MAX_LATENCY_SAMPLES
              then w1\<lparr>nw_latencies_ms := nw_latencies_ms w1 @ [x]\<rparr> else w1))"

definition record_health :: "string \<Rightarrow> string \<Rightarrow> fleet_telemetry \<Rightarrow> fleet_telemetry" where
  "record_health node health t =
     bt_insert node (fold_health (parse_health health) (bt_entry t node empty_window)) t"

definition ft_record_nack :: "string \<Rightarrow> fleet_telemetry \<Rightarrow> fleet_telemetry" where
  "ft_record_nack node t =
     (let w = bt_entry t node empty_window in
      bt_insert node (w\<lparr>nw_requests := sat_add (nw_requests w) 1,
                        nw_errors := sat_add (nw_errors w) 1\<rparr>) t)"

definition set_window :: "string \<Rightarrow> node_window \<Rightarrow> fleet_telemetry \<Rightarrow> fleet_telemetry" where
  "set_window node w t = bt_insert node w t"

definition window_for :: "fleet_telemetry \<Rightarrow> string \<Rightarrow> node_window" where
  "window_for t node = (case bt_get t node of Some w \<Rightarrow> w | None \<Rightarrow> empty_window)"

definition ft_reset :: "string \<Rightarrow> fleet_telemetry \<Rightarrow> fleet_telemetry" where
  "ft_reset node t = bt_remove node t"

definition reset_many :: "string list \<Rightarrow> fleet_telemetry \<Rightarrow> fleet_telemetry" where
  "reset_many nodes t = fold bt_remove nodes t"

section \<open>Bounds\<close>

definition ft_wf :: "fleet_telemetry \<Rightarrow> bool" where
  "ft_wf t \<longleftrightarrow> bt_wf t \<and> (\<forall>node w. bt_get t node = Some w \<longrightarrow>
     length (nw_latencies_ms w) \<le> MAX_LATENCY_SAMPLES)"

lemma fold_health_bounded:
  "length (nw_latencies_ms w) \<le> MAX_LATENCY_SAMPLES \<Longrightarrow>
   length (nw_latencies_ms (fold_health p w)) \<le> MAX_LATENCY_SAMPLES"
  by (auto simp: fold_health_def Let_def split: option.splits)

lemma ft_wf_record_health [wf_intros]: "ft_wf t \<Longrightarrow> ft_wf (record_health node health t)"
  by (auto simp: ft_wf_def record_health_def bt.get_insert bt_wf_insert bt_entry_def
      empty_window_def intro!: fold_health_bounded split: if_splits option.splits)

lemma ft_wf_record_nack [wf_intros]: "ft_wf t \<Longrightarrow> ft_wf (ft_record_nack node t)"
  by (auto simp: ft_wf_def ft_record_nack_def Let_def bt.get_insert bt_wf_insert bt_entry_def
      empty_window_def split: if_splits option.splits)

lemma bt_get_reset_many:
  "bt_wf t \<Longrightarrow> bt_get (reset_many nodes t) n = (if n \<in> set nodes then None else bt_get t n)"
  by (induction nodes arbitrary: t) (auto simp: reset_many_def bt.get_remove bt_wf_remove)

text \<open>A bare \<open>ok\<close> heartbeat adds no sample; a bare \<open>degraded\<close> one counts one failed request.\<close>

lemma fold_health_bare:
  "ph_requests p = None \<Longrightarrow> ph_p99_ms p = None \<Longrightarrow>
   fold_health p w = (if ph_healthy p then w
     else w\<lparr>nw_requests := sat_add (nw_requests w) 1, nw_errors := sat_add (nw_errors w) 1\<rparr>)"
  by (simp add: fold_health_def Let_def)

end
