(* ===== verification/Budget.thy ===== *)
theory Budget
  imports OrdMap F64
begin

text \<open>
  \<open>crates/gateway-core/src/budget.rs\<close>: the capped spender \<open>CapId\<close>, the billing window,
  the composed cap of an attribution key (\<open>KeyCap\<close>), one node's counter for one spender
  (\<open>LocalBudget\<close>) and the alert latch.

  Calendar months are computed by the \<open>chrono\<close> crate.  Its
  \<open>DateTime::from_timestamp(secs, 0)\<close>, read through \<open>year()\<close> and \<open>month0()\<close>, is the
  parameter \<open>cal\<close> of the definitions that need it.
\<close>

section \<open>Capped spenders\<close>

datatype cap_id = CapId (ci_key: string) (ci_value: string)

text \<open>The derived \<open>Ord\<close>: lexicographic, key first.\<close>

instantiation cap_id :: linorder
begin

definition less_eq_cap_id :: "cap_id \<Rightarrow> cap_id \<Rightarrow> bool" where
  "less_eq_cap_id a b \<longleftrightarrow>
     ci_key a < ci_key b \<or> (ci_key a = ci_key b \<and> ci_value a \<le> ci_value b)"

definition less_cap_id :: "cap_id \<Rightarrow> cap_id \<Rightarrow> bool" where
  "less_cap_id a b \<longleftrightarrow>
     ci_key a < ci_key b \<or> (ci_key a = ci_key b \<and> ci_value a < ci_value b)"

instance
  by standard (auto simp: less_eq_cap_id_def less_cap_id_def cap_id.expand)

end

section \<open>Billing windows\<close>

datatype window = Minute | Hour | Day | Month

type_synonym calendar = "int \<Rightarrow> (int \<times> nat) option"

definition id_at :: "calendar \<Rightarrow> window \<Rightarrow> u64 \<Rightarrow> u64" where
  "id_at cal w now = (case w of
     Minute \<Rightarrow> now div 60
   | Hour \<Rightarrow> now div 3600
   | Day \<Rightarrow> now div 86400
   | Month \<Rightarrow>
       (let (y, m0) = (case cal (sint now) of Some ym \<Rightarrow> ym | None \<Rightarrow> (1970, 0))
        in word_of_int y * 12 + of_nat m0))"

section \<open>Composed caps\<close>

definition ESCALATION_FRACTION :: f64 where
  "ESCALATION_FRACTION = f64_round (9 / 10)"

definition SOFT_ALERT_FRACTION :: f64 where
  "SOFT_ALERT_FRACTION = f64_round (8 / 10)"

record cap_terms =
  ct_cap :: u64
  ct_window :: "window option"
  ct_alert_fraction :: f64

record key_cap =
  kc_default :: "u64 option"
  kc_overrides :: "(string, u64 option) btree"
  kc_window :: "window option"
  kc_alert_fraction :: "f64 option"

definition cap_for :: "key_cap \<Rightarrow> string \<Rightarrow> u64 option" where
  "cap_for k v = (case bt_get (kc_overrides k) v of
     Some override_cap \<Rightarrow> override_cap
   | None \<Rightarrow> kc_default k)"

definition terms_for :: "key_cap \<Rightarrow> string \<Rightarrow> cap_terms option" where
  "terms_for k v = (case cap_for k v of
     None \<Rightarrow> None
   | Some c \<Rightarrow> Some \<lparr>ct_cap = c, ct_window = kc_window k,
       ct_alert_fraction = (case kc_alert_fraction k of Some f \<Rightarrow> f | None \<Rightarrow> SOFT_ALERT_FRACTION)\<rparr>)"

definition opt_or :: "'a option \<Rightarrow> 'a option \<Rightarrow> 'a option" where
  "opt_or a b = (case a of Some x \<Rightarrow> Some x | None \<Rightarrow> b)"

definition compose_child :: "key_cap \<Rightarrow> key_cap \<Rightarrow> key_cap" where
  "compose_child self child =
     \<lparr>kc_default = opt_or (kc_default child) (kc_default self),
      kc_overrides = fold (\<lambda>(v, c). bt_insert v c) (kc_overrides child) (kc_overrides self),
      kc_window = opt_or (kc_window child) (kc_window self),
      kc_alert_fraction = opt_or (kc_alert_fraction child) (kc_alert_fraction self)\<rparr>"

section \<open>One node's counter\<close>

datatype verdict = Allow | Escalate | Deny u64

definition is_deny :: "verdict \<Rightarrow> bool" where
  "is_deny v = (case v of Deny _ \<Rightarrow> True | _ \<Rightarrow> False)"

record local_budget =
  lb_id :: cap_id
  lb_cap :: "u64 option"
  lb_share :: u64
  lb_spent :: u64

definition lb_new :: "cap_id \<Rightarrow> u64 option \<Rightarrow> u64 \<Rightarrow> local_budget" where
  "lb_new i c s = \<lparr>lb_id = i, lb_cap = c, lb_share = s, lb_spent = 0\<rparr>"

definition remaining :: "local_budget \<Rightarrow> u64" where
  "remaining b = (if lb_cap b = None then - 1 else sat_sub (lb_share b) (lb_spent b))"

definition overspend :: "local_budget \<Rightarrow> u64" where
  "overspend b = (if lb_cap b = None then 0 else sat_sub (lb_spent b) (lb_share b))"

definition set_share :: "u64 \<Rightarrow> local_budget \<Rightarrow> local_budget" where
  "set_share s b = b\<lparr>lb_share := s\<rparr>"

definition consumed_fraction :: "local_budget \<Rightarrow> f64" where
  "consumed_fraction b =
     (if lb_cap b = None \<or> lb_share b = 0 then FFin 0
      else f_div (u64_to_f64 (lb_spent b)) (u64_to_f64 (lb_share b)))"

definition check :: "local_budget \<Rightarrow> u64 \<Rightarrow> verdict" where
  "check b tokens = (case lb_cap b of
     None \<Rightarrow> Allow
   | Some cap \<Rightarrow>
       let prospective = sat_add (lb_spent b) tokens in
       if prospective > cap then Deny cap
       else if lb_share b > 0 \<and>
           f_le (f_mul ESCALATION_FRACTION (u64_to_f64 (lb_share b))) (u64_to_f64 prospective)
         then Escalate
       else Allow)"

definition check_partitioned :: "local_budget \<Rightarrow> u64 \<Rightarrow> verdict" where
  "check_partitioned b tokens = (case lb_cap b of
     None \<Rightarrow> Allow
   | Some cap \<Rightarrow>
       let ceiling = min (lb_share b) cap in
       if sat_add (lb_spent b) tokens > ceiling then Deny cap else Allow)"

definition commit :: "u64 \<Rightarrow> local_budget \<Rightarrow> local_budget" where
  "commit tokens b = b\<lparr>lb_spent := sat_add (lb_spent b) tokens\<rparr>"

definition lb_reconcile :: "u64 \<Rightarrow> u64 \<Rightarrow> local_budget \<Rightarrow> local_budget" where
  "lb_reconcile estimated authoritative b =
     (if authoritative \<ge> estimated
      then b\<lparr>lb_spent := sat_add (lb_spent b) (authoritative - estimated)\<rparr>
      else b\<lparr>lb_spent := sat_sub (lb_spent b) (estimated - authoritative)\<rparr>)"

definition reset_window_spend :: "local_budget \<Rightarrow> local_budget" where
  "reset_window_spend b = b\<lparr>lb_spent := 0\<rparr>"

section \<open>Alerts\<close>

datatype alert_kind = SoftThreshold f64 | HardCap

record alert =
  al_kind :: alert_kind
  al_id :: cap_id
  al_cap :: u64
  al_spend :: u64
  al_node :: string

record alert_latch =
  soft_fired :: bool
  hard_fired :: bool

definition latch_new :: alert_latch where
  "latch_new = \<lparr>soft_fired = False, hard_fired = False\<rparr>"

text \<open>\<open>AlertLatch::cross\<close>: the two thresholds in order, each latched when it fires.\<close>

definition cross_soft :: "cap_id \<Rightarrow> u64 \<Rightarrow> u64 \<Rightarrow> string \<Rightarrow> f64 \<Rightarrow> alert_latch \<Rightarrow> alert list \<times> alert_latch" where
  "cross_soft i cap spend node fraction l =
     (if \<not> soft_fired l \<and> f_le fraction (f_div (u64_to_f64 spend) (u64_to_f64 cap))
      then ([\<lparr>al_kind = SoftThreshold fraction, al_id = i, al_cap = cap, al_spend = spend,
              al_node = node\<rparr>], l\<lparr>soft_fired := True\<rparr>)
      else ([], l))"

definition cross_hard :: "cap_id \<Rightarrow> u64 \<Rightarrow> u64 \<Rightarrow> string \<Rightarrow> alert_latch \<Rightarrow> alert list \<times> alert_latch" where
  "cross_hard i cap spend node l =
     (if \<not> hard_fired l \<and> spend \<ge> cap
      then ([\<lparr>al_kind = HardCap, al_id = i, al_cap = cap, al_spend = spend, al_node = node\<rparr>],
            l\<lparr>hard_fired := True\<rparr>)
      else ([], l))"

definition cross :: "cap_id \<Rightarrow> u64 \<Rightarrow> u64 \<Rightarrow> string \<Rightarrow> f64 \<Rightarrow> alert_latch \<Rightarrow> alert list \<times> alert_latch" where
  "cross i cap spend node fraction l =
     (if cap = 0 then ([], l)
      else let (soft, l1) = cross_soft i cap spend node fraction l;
               (hard, l2) = cross_hard i cap spend node l1
           in (soft @ hard, l2))"

definition latch_reset :: "alert_latch \<Rightarrow> alert_latch" where
  "latch_reset l = l\<lparr>soft_fired := False, hard_fired := False\<rparr>"

section \<open>Composition down the scope chain\<close>

lemma opt_or_assoc: "opt_or (opt_or a b) c = opt_or a (opt_or b c)"
  by (simp add: opt_or_def split: option.splits)

lemma opt_or_None [simp]: "opt_or None b = b" "opt_or a None = a"
  by (simp_all add: opt_or_def split: option.splits)

definition key_cap_wf :: "key_cap \<Rightarrow> bool" where
  "key_cap_wf k \<longleftrightarrow> bt_wf (kc_overrides k)"

lemma key_cap_wf_compose [wf_intros]: "key_cap_wf a \<Longrightarrow> key_cap_wf (compose_child a b)"
  by (simp add: key_cap_wf_def compose_child_def bt.invar_fold_insert)

lemma overrides_compose:
  "key_cap_wf a \<Longrightarrow> key_cap_wf b \<Longrightarrow>
   bt_get (kc_overrides (compose_child a b)) v = opt_or (bt_get (kc_overrides b) v) (bt_get (kc_overrides a) v)"
  by (simp add: compose_child_def key_cap_wf_def bt_get_merge opt_or_def)

text \<open>Folding a chain of scopes is associative, so a project's caps composed with a route's
  can be precomposed before the fleet's are known.\<close>

lemma compose_child_assoc:
  assumes "key_cap_wf a" "key_cap_wf b" "key_cap_wf c"
  shows "compose_child (compose_child a b) c = compose_child a (compose_child b c)"
proof -
  have "kc_overrides (compose_child (compose_child a b) c) =
      kc_overrides (compose_child a (compose_child b c))"
    using assms
    by (intro bt_eqI)
      (simp_all add: key_cap_wf_def [symmetric] key_cap_wf_compose overrides_compose opt_or_assoc)
  then show ?thesis by (simp add: compose_child_def opt_or_assoc)
qed

section \<open>The counter: spending and settling\<close>

lemmas budget_op_defs = set_share_def commit_def lb_reconcile_def reset_window_spend_def

lemma budget_ops_keep_cap [frame_simps]:
  "lb_cap (commit t b) = lb_cap b" "lb_cap (set_share s b) = lb_cap b"
  "lb_cap (lb_reconcile e a b) = lb_cap b" "lb_cap (reset_window_spend b) = lb_cap b"
  by (simp_all add: budget_op_defs)

lemma budget_ops_keep_share [frame_simps]:
  "lb_share (commit t b) = lb_share b" "lb_share (lb_reconcile e a b) = lb_share b"
  "lb_share (reset_window_spend b) = lb_share b"
  by (simp_all add: budget_op_defs)

lemma budget_ops_keep_id [frame_simps]:
  "lb_id (commit t b) = lb_id b" "lb_id (set_share s b) = lb_id b"
  "lb_id (lb_reconcile e a b) = lb_id b" "lb_id (reset_window_spend b) = lb_id b"
  by (simp_all add: budget_op_defs)

lemma set_share_spent [frame_simps]: "lb_spent (set_share s b) = lb_spent b"
  by (simp add: set_share_def)

lemma spent_commit: "unat (lb_spent (commit t b)) = min (unat (lb_spent b) + unat t) (2 ^ 64 - 1)"
  by (simp add: commit_def unat_sat_add)

lemma check_Deny_iff:
  "check b t = Deny c \<longleftrightarrow> lb_cap b = Some c \<and> lb_spent (commit t b) > c"
  by (auto simp: check_def commit_def Let_def split: option.splits)

lemma check_partitioned_Deny_iff:
  "check_partitioned b t = Deny c \<longleftrightarrow>
     lb_cap b = Some c \<and> lb_spent (commit t b) > min (lb_share b) c"
  by (auto simp: check_partitioned_def commit_def Let_def split: option.splits)

text \<open>A caller that asks before it spends, and spends only what is not denied.\<close>

fun spend_admitted :: "(local_budget \<Rightarrow> u64 \<Rightarrow> verdict) \<Rightarrow> local_budget \<Rightarrow> u64 list \<Rightarrow> local_budget" where
  "spend_admitted decide b [] = b"
| "spend_admitted decide b (t # ts) =
     (if is_deny (decide b t) then spend_admitted decide b ts
      else spend_admitted decide (commit t b) ts)"

lemma spend_admitted_frame [frame_simps]:
  "lb_cap (spend_admitted decide b ts) = lb_cap b"
  "lb_share (spend_admitted decide b ts) = lb_share b"
  "lb_id (spend_admitted decide b ts) = lb_id b"
  by (induction ts arbitrary: b) (auto simp: frame_simps)

text \<open>What an admission decision promises: a bound that spending does not move, and a
  refusal exactly when the spend would carry the counter past it.\<close>

locale admission =
  fixes decide :: "local_budget \<Rightarrow> u64 \<Rightarrow> verdict"
    and bound :: "local_budget \<Rightarrow> u64 option"
  assumes bound_commit: "bound (commit t b) = bound b"
    and deny_iff: "is_deny (decide b t) \<longleftrightarrow> (case bound b of None \<Rightarrow> False | Some m \<Rightarrow> lb_spent (commit t b) > m)"
begin

lemma spend_within:
  "bound b = Some m \<Longrightarrow> lb_spent b \<le> m \<Longrightarrow> lb_spent (spend_admitted decide b ts) \<le> m"
  by (induction ts arbitrary: b) (auto simp: deny_iff bound_commit not_less)

lemma spend_mono: "lb_spent b \<le> lb_spent (spend_admitted decide b ts)"
proof (induction ts arbitrary: b)
  case Nil
  show ?case by simp
next
  case (Cons t ts)
  have "lb_spent b \<le> lb_spent (commit t b)" by (simp add: commit_def sat_add_ge)
  with Cons [of "commit t b"] Cons [of b] show ?case by auto
qed

lemma deny_stays: "lb_spent b \<le> lb_spent b' \<Longrightarrow> bound b' = bound b \<Longrightarrow>
   is_deny (decide b t) \<Longrightarrow> is_deny (decide b' t)"
  by (auto simp: deny_iff commit_def split: option.splits
      dest: sat_add_mono [where b = t] elim: less_le_trans)

end

lemma is_deny_check:
  "is_deny (check b t) \<longleftrightarrow> (case lb_cap b of None \<Rightarrow> False | Some c \<Rightarrow> lb_spent (commit t b) > c)"
  by (auto simp: check_def is_deny_def commit_def Let_def split: option.splits)

interpretation connected: admission check lb_cap
  by unfold_locales (auto simp: frame_simps is_deny_check)

definition held_bound :: "local_budget \<Rightarrow> u64 option" where
  "held_bound b = map_option (min (lb_share b)) (lb_cap b)"

lemma is_deny_check_partitioned:
  "is_deny (check_partitioned b t) \<longleftrightarrow>
     (case held_bound b of None \<Rightarrow> False | Some m \<Rightarrow> lb_spent (commit t b) > m)"
  by (auto simp: check_partitioned_def held_bound_def is_deny_def commit_def Let_def
      split: option.splits)

interpretation partitioned: admission check_partitioned held_bound
  by unfold_locales (auto simp: frame_simps held_bound_def is_deny_check_partitioned)

section \<open>The escalation threshold\<close>

lemma ESCALATION_FRACTION_eq: "ESCALATION_FRACTION = FFin (8106479329266893 / 9007199254740992)"
proof -
  have "rnd (9 / 10) = 8106479329266893 / 9007199254740992"
    by (subst rnd_eval [where e = "- 1"]) (simp_all add: pow2_def rne_def Let_def)
  then show ?thesis by (simp add: ESCALATION_FRACTION_def f64_round_fin pow2_def)
qed

lemma SOFT_ALERT_FRACTION_eq: "SOFT_ALERT_FRACTION = FFin (3602879701896397 / 4503599627370496)"
proof -
  have "rnd (8 / 10) = 3602879701896397 / 4503599627370496"
    by (subst rnd_eval [where e = "- 1"]) (simp_all add: pow2_def rne_def Let_def)
  then show ?thesis by (simp add: SOFT_ALERT_FRACTION_def f64_round_fin pow2_def)
qed

lemma escalation_product:
  assumes "s \<le> 2 ^ 49"
  shows "f_mul ESCALATION_FRACTION (u64_to_f64 s) = FFin (rnd (8106479329266893 / 9007199254740992 * of_nat (unat s)))"
proof -
  have le: "unat s \<le> 2 ^ 49" using assms by (simp add: word_le_nat_alt)
  then have "(of_nat (unat s) :: rat) \<le> of_nat (2 ^ 49)" by (simp only: of_nat_le_iff)
  then have "8106479329266893 / 9007199254740992 * of_nat (unat s) < pow2 1023"
    by (simp add: pow2_def) 
  moreover have "rnd (of_nat (unat s)) = of_nat (unat s)" using le by (intro rnd_of_nat) simp
  ultimately show ?thesis
    by (simp add: ESCALATION_FRACTION_eq u64_to_f64_def f64_round_fin)
qed

text \<open>The double comparison is the integer comparison.\<close>

lemma ninety_percent_nat:
  assumes "0 < s" "s \<le> 2 ^ 49"
  shows "rnd (8106479329266893 / 9007199254740992 * of_nat s) \<le> rnd (of_nat p) \<longleftrightarrow> 9 * s \<le> 10 * p"
proof -
  define C :: rat where "C = 8106479329266893 / 9007199254740992"
  define x where "x = C * of_nat s"
  have s_rat: "(of_nat s :: rat) \<le> 2 ^ 49" using assms(2) by (metis of_nat_le_iff of_nat_numeral of_nat_power)
  have s1: "(1 :: rat) \<le> of_nat s" using assms(1) by simp
  have x1: "9 / 10 * of_nat s \<le> x" using s1 by (simp add: x_def C_def)
  have x2: "x \<le> 9 / 10 * of_nat s + 1 / 20" using s_rat by (simp add: x_def C_def)
  have xpos: "0 < x" using x1 s1 by linarith
  have up: "10 * p < 9 * s \<Longrightarrow> rnd (of_nat p) < rnd x"
  proof -
    assume lt: "10 * p < 9 * s"
    then have "p \<le> 2 ^ 53" using assms(2) by simp
    then have "rnd (of_nat p) = of_nat p" by (rule rnd_of_nat)
    moreover have "of_nat p + 1 / 10 \<le> x"
    proof -
      have "of_nat (10 * p + 1) \<le> (of_nat (9 * s) :: rat)" using lt unfolding of_nat_le_iff by simp
      then show ?thesis using x1 by simp
    qed
    moreover have "x - 1 / 16 \<le> rnd x"
    proof -
      have "pow2 (- 1022) \<le> pow2 (- 1)" by (intro pow2_mono) simp
      also have "pow2 (- 1) \<le> x" using x1 s1 by (simp add: pow2_def)
      finally have "x * (1 - pow2 (- 53)) \<le> rnd x" by (rule rnd_ge_rel)
      moreover have "x * pow2 (- 53) \<le> 1 / 16" using x2 s_rat by (simp add: pow2_def)
      ultimately show ?thesis by (simp add: algebra_simps)
    qed
    ultimately show ?thesis by linarith
  qed
  have down: "9 * s \<le> 10 * p \<Longrightarrow> rnd x \<le> rnd (of_nat p)"
  proof -
    assume le: "9 * s \<le> 10 * p"
    show ?thesis
    proof (cases "9 * s = 10 * p")
      case False
      with le have "of_nat (9 * s + 1) \<le> (of_nat (10 * p) :: rat)" unfolding of_nat_le_iff by simp
      then have "x \<le> of_nat p" using x2 by simp
      then show ?thesis using xpos by (intro rnd_mono) auto
    next
      case True
      then have eq: "9 * of_nat s = (10 * of_nat p :: rat)" by (metis of_nat_mult of_nat_numeral)
      have "p \<le> 2 ^ 50" using True assms(2) by simp
      moreover have "0 < p" using True assms(1) by simp
      moreover have "of_nat p \<le> x" using x1 eq by simp
      moreover have "x < of_nat p * (1 + pow2 (- 54))"
        using eq s1 by (simp add: x_def C_def pow2_def)
      ultimately have "rnd x = of_nat p" by (intro rnd_just_above_nat) auto
      moreover have "rnd (of_nat p) = of_nat p" using \<open>p \<le> 2 ^ 50\<close> by (intro rnd_of_nat) simp
      ultimately show ?thesis by simp
    qed
  qed
  show ?thesis using up down unfolding x_def C_def by (meson not_le not_less)
qed

lemma escalation_band:
  assumes "s \<noteq> 0" "s \<le> 2 ^ 49"
  shows "f_le (f_mul ESCALATION_FRACTION (u64_to_f64 s)) (u64_to_f64 p) \<longleftrightarrow>
    9 * unat s \<le> 10 * unat p"
proof -
  have "0 < unat s" using assms(1) by (simp add: unat_gt_0)
  moreover have "unat s \<le> 2 ^ 49" using assms(2) by (simp add: word_le_nat_alt)
  ultimately show ?thesis
    unfolding escalation_product [OF assms(2)] u64_to_f64_def [of p] f_le.simps
    by (rule ninety_percent_nat)
qed

section \<open>Alerts fire once\<close>

text \<open>The calls of one latch between two resets, each with its cap, spend and threshold.\<close>

fun cross_all :: "cap_id \<Rightarrow> string \<Rightarrow> (u64 \<times> u64 \<times> f64) list \<Rightarrow> alert_latch \<Rightarrow> alert list \<times> alert_latch" where
  "cross_all i node [] l = ([], l)"
| "cross_all i node ((cap, spend, fraction) # cs) l =
     (let (as, l1) = cross i cap spend node fraction l; (bs, l2) = cross_all i node cs l1
      in (as @ bs, l2))"

definition is_soft :: "alert \<Rightarrow> bool" where
  "is_soft a = (case al_kind a of SoftThreshold _ \<Rightarrow> True | HardCap \<Rightarrow> False)"

definition b2n :: "bool \<Rightarrow> nat" where
  "b2n b = (if b then 1 else 0)"

lemma cross_counts:
  "cross i cap spend node fraction l = (as, l') \<Longrightarrow>
   length (filter is_soft as) + b2n (soft_fired l) = b2n (soft_fired l') \<and>
   length (filter (\<lambda>a. \<not> is_soft a) as) + b2n (hard_fired l) = b2n (hard_fired l')"
  by (auto simp: cross_def cross_soft_def cross_hard_def is_soft_def b2n_def Let_def split: if_splits)

lemma cross_all_counts:
  "cross_all i node cs l = (as, l') \<Longrightarrow>
   length (filter is_soft as) + b2n (soft_fired l) = b2n (soft_fired l') \<and>
   length (filter (\<lambda>a. \<not> is_soft a) as) + b2n (hard_fired l) = b2n (hard_fired l')"
proof (induction i node cs l arbitrary: as l' rule: cross_all.induct)
  case (1 i node l)
  then show ?case by simp
next
  case (2 i node cap spend fraction cs l)
  obtain xs l1 where x: "cross i cap spend node fraction l = (xs, l1)" by force
  obtain ys l2 where y: "cross_all i node cs l1 = (ys, l2)" by force
  have IH: "length (filter is_soft ys) + b2n (soft_fired l1) = b2n (soft_fired l2) \<and>
      length (filter (\<lambda>a. \<not> is_soft a) ys) + b2n (hard_fired l1) = b2n (hard_fired l2)"
    using "2.IH" x y by (metis prod.collapse fst_conv snd_conv)
  show ?case using cross_counts [OF x] IH "2.prems" by (auto simp: x y)
qed

lemma reconcile_spent:
  assumes "unat (lb_spent b) + max (unat estimated) (unat authoritative) < 2 ^ 64"
  shows "lb_reconcile estimated authoritative (commit estimated b) = commit authoritative b"
proof -
  have s: "sat_add (lb_spent b) x = lb_spent b + x" if "x = estimated \<or> x = authoritative" for x
    using assms that by (auto simp: sat_add_def)
  have u: "unat (lb_spent b + estimated) = unat (lb_spent b) + unat estimated"
    using assms by (simp add: unat_word_ariths)
  show ?thesis
  proof (cases "estimated \<le> authoritative")
    case True
    then have "unat (authoritative - estimated) = unat authoritative - unat estimated"
      by (simp add: unat_sub)
    then show ?thesis using True assms u
      by (simp add: lb_reconcile_def commit_def s) (simp add: sat_add_def word_le_nat_alt)
  next
    case False
    then have d: "unat (estimated - authoritative) = unat estimated - unat authoritative"
      by (simp add: unat_sub)
    then have "estimated - authoritative \<le> lb_spent b + estimated"
      by (simp add: word_le_nat_alt u)
    then show ?thesis using False by (simp add: lb_reconcile_def commit_def s) (simp add: sat_sub_def)
  qed
qed

section \<open>Properties\<close>

text \<open>The cap of a value under a composed \<open>KeyCap\<close>: the child's override of
  the value, else the parent's override, else the child's default, else the parent's; a
  child default never displaces a parent's per-value override.\<close>

theorem cap_for_compose:
  assumes "bt_wf (kc_overrides parent)" "bt_wf (kc_overrides child)"
  shows "cap_for (compose_child parent child) v =
    (case bt_get (kc_overrides child) v of
       Some c \<Rightarrow> c
     | None \<Rightarrow> (case bt_get (kc_overrides parent) v of
         Some c \<Rightarrow> c
       | None \<Rightarrow> opt_or (kc_default child) (kc_default parent)))"
  using overrides_compose [of parent child v] assms
  by (simp add: cap_for_def key_cap_wf_def opt_or_def split: option.splits)
    (simp_all add: compose_child_def opt_or_def)

theorem cap_for_compose_witness:
  "cap_for (compose_child
      \<lparr>kc_default = Some 100, kc_overrides = [(''a'', Some 7), (''b'', None)], kc_window = None,
       kc_alert_fraction = None\<rparr>
      \<lparr>kc_default = Some 50, kc_overrides = [(''b'', Some 9)], kc_window = Some Day,
       kc_alert_fraction = None\<rparr>) ''a'' = Some 7"
  by (subst cap_for_compose) (simp_all add: bt_wf_def)

text \<open>Property C9.  \<open>check\<close> refuses exactly the spends that would carry the counter past
  the fleet cap, so a caller that asks first never exceeds the cap, whatever it asks for.\<close>

theorem connected_spend_within_cap:
  assumes "lb_cap b = Some cap" "lb_spent b \<le> cap"
  shows "lb_spent (spend_admitted check b ts) \<le> cap"
  using assms by (rule connected.spend_within)

theorem connected_spend_within_cap_witness:
  "lb_spent (spend_admitted check (lb_new (CapId ''team'' ''ml'') (Some 100) 100) [60, 70, 40, 1]) \<le> 100"
  by (rule connected_spend_within_cap) (simp_all add: lb_new_def)

text \<open>Bounded overspend under partition: a node that cannot reach the
  control plane stays within the share it holds and within the cap, so its reported
  overspend stays zero.\<close>

theorem partitioned_spend_within_share:
  assumes "lb_cap b = Some cap" "lb_spent b \<le> min (lb_share b) cap"
  shows "lb_spent (spend_admitted check_partitioned b ts) \<le> min (lb_share b) cap \<and>
    overspend (spend_admitted check_partitioned b ts) = 0"
proof -
  have w: "lb_spent (spend_admitted check_partitioned b ts) \<le> min (lb_share b) cap"
    using assms by (intro partitioned.spend_within) (simp_all add: held_bound_def)
  then show ?thesis using assms(1) by (auto simp: overspend_def sat_sub_def frame_simps)
qed

theorem partitioned_spend_within_share_witness:
  "lb_spent (spend_admitted check_partitioned (lb_new (CapId ''team'' ''ml'') (Some 100) 40) [30, 20, 10, 1])
     \<le> min (lb_share (lb_new (CapId ''team'' ''ml'') (Some 100) 40)) 100 \<and>
   overspend (spend_admitted check_partitioned (lb_new (CapId ''team'' ''ml'') (Some 100) 40) [30, 20, 10, 1]) = 0"
  by (rule partitioned_spend_within_share) (simp_all add: lb_new_def)

text \<open>The measured overspend of a partitioned node is at most the tail of the
  one stream it admitted: if a probe was allowed, committing a stream of \<open>tokens\<close> leaves an
  overspend of at most \<open>tokens\<close>.\<close>

theorem partition_overspend_one_stream:
  assumes "lb_cap b = Some cap" "check_partitioned b probe = Allow"
  shows "overspend (commit tokens b) \<le> tokens"
proof -
  have "lb_spent b \<le> sat_add (lb_spent b) probe" by (rule sat_add_ge)
  also have "\<dots> \<le> lb_share b"
    using assms by (auto simp: check_partitioned_def Let_def not_less split: if_splits)
  finally have "unat (lb_spent b) \<le> unat (lb_share b)" by (simp add: word_le_nat_alt)
  then show ?thesis
    using assms(1) by (simp add: overspend_def frame_simps word_le_nat_alt unat_sat_sub spent_commit)
qed

theorem partition_overspend_one_stream_witness:
  "overspend (commit 1700 (commit 39500 (lb_new (CapId ''team'' ''ml'') (Some 100000) 40000))) \<le> 1700"
  by (rule partition_overspend_one_stream [where cap = 100000 and probe = 100])
    (simp_all add: lb_new_def commit_def check_partitioned_def sat_add_def Let_def)

text \<open>The escalation band in integers: for shares up to \<open>2 ^ 49\<close> tokens the
  comparison of doubles in \<open>check\<close> escalates exactly when the prospective spend is at
  least nine tenths of the share; rounding never moves the boundary.\<close>

theorem escalation_is_ninety_percent:
  assumes "lb_cap b = Some cap" "lb_share b \<le> 2 ^ 49"
  shows "check b tokens = Escalate \<longleftrightarrow>
    sat_add (lb_spent b) tokens \<le> cap \<and> lb_share b \<noteq> 0 \<and>
    9 * unat (lb_share b) \<le> 10 * unat (sat_add (lb_spent b) tokens)"
proof (cases "lb_share b = 0")
  case True
  then show ?thesis using assms(1) by (simp add: check_def Let_def)
next
  case False
  then show ?thesis using assms(1) escalation_band [OF False assms(2)]
    by (auto simp: check_def Let_def word_gt_0)
qed

theorem escalation_is_ninety_percent_witness:
  "check (commit 80000 (lb_new (CapId ''team'' ''ml'') (Some 100000) 100000)) 10000 = Escalate \<and>
   check (commit 80000 (lb_new (CapId ''team'' ''ml'') (Some 100000) 100000)) 9999 \<noteq> Escalate"
  by (subst (1 2) escalation_is_ninety_percent [where cap = 100000])
    (simp_all add: lb_new_def commit_def sat_add_def)

text \<open>Settling a stream replaces its estimate by the authoritative count:
  after the estimate was committed, \<open>reconcile\<close> leaves the counter as if the authoritative
  figure had been committed, while neither total reaches the integer's limit.\<close>

theorem reconcile_replaces_estimate:
  assumes "unat (lb_spent b) + max (unat estimated) (unat authoritative) < 2 ^ 64"
  shows "lb_reconcile estimated authoritative (commit estimated b) = commit authoritative b"
  using assms by (rule reconcile_spent)

theorem reconcile_replaces_estimate_witness:
  "lb_reconcile 1000 1200 (commit 1000 (lb_new (CapId ''team'' ''ml'') (Some 100000) 100000)) =
   commit 1200 (lb_new (CapId ''team'' ''ml'') (Some 100000) 100000)"
  by (rule reconcile_replaces_estimate) (simp add: lb_new_def)

text \<open>Between two resets a latch emits at most one soft and at most one hard
  alert, whatever caps, spends and thresholds it is asked about.\<close>

theorem latch_fires_once:
  "length (filter is_soft (fst (cross_all i node cs latch_new))) \<le> 1 \<and>
   length (filter (\<lambda>a. \<not> is_soft a) (fst (cross_all i node cs latch_new))) \<le> 1"
proof -
  obtain as l where "cross_all i node cs latch_new = (as, l)" by force
  from this cross_all_counts [OF this] show ?thesis
    by (auto simp: b2n_def latch_new_def split: if_splits)
qed

end
