(* ===== verification/FleetBudget.thy ===== *)
theory FleetBudget
  imports Budget
begin

text \<open>
  \<open>crates/gatewayctl/src/budget.rs\<close>: the control plane's ledger of spend per capped value
  and node, the slicing of each cap into node shares, and the fleet-wide alerts.  The two
  mutexes of \<open>FleetBudgets\<close> are the two fields of the state; every method takes the locks
  it needs for its whole body, so a method is one step.
\<close>

section \<open>State\<close>

definition COLD_NODE_FLOOR_FRACTION :: f64 where
  "COLD_NODE_FLOOR_FRACTION = f64_round (1 / 10)"

definition FLEET_NODE :: string where
  "FLEET_NODE = ''<control-plane>''"

record cap_state =
  cs_cap :: u64
  cs_spend :: "(string, u64) btree"
  cs_soft :: bool
  cs_hard :: bool

definition cap_state_default :: cap_state where
  "cap_state_default = \<lparr>cs_cap = 0, cs_spend = [], cs_soft = False, cs_hard = False\<rparr>"

definition cs_total :: "cap_state \<Rightarrow> u64" where
  "cs_total e = sum_list (bt_values (cs_spend e))"

record fleet_budgets =
  fb_caps :: "(cap_id, cap_state) btree"
  fb_open :: "(string, u64) btree"

definition fb_new :: fleet_budgets where
  "fb_new = \<lparr>fb_caps = [], fb_open = []\<rparr>"

record share_allocation =
  sa_id :: cap_id
  sa_cap :: u64
  sa_share :: u64

section \<open>Ingesting reports\<close>

definition observe_cap :: "cap_id \<Rightarrow> u64 \<Rightarrow> fleet_budgets \<Rightarrow> fleet_budgets" where
  "observe_cap i cap f =
     (let e = bt_entry (fb_caps f) i cap_state_default
      in f\<lparr>fb_caps := bt_insert i (e\<lparr>cs_cap := max (cs_cap e) cap\<rparr>) (fb_caps f)\<rparr>)"

definition fleet_alerts :: "cap_id \<Rightarrow> cap_state \<Rightarrow> alert list \<times> cap_state" where
  "fleet_alerts i e =
     (if cs_cap e = 0 then ([], e)
      else
        let tot = cs_total e;
            frac = f_div (u64_to_f64 tot) (u64_to_f64 (cs_cap e));
            (soft, e1) =
              (if \<not> cs_soft e \<and> f_le SOFT_ALERT_FRACTION frac
               then ([\<lparr>al_kind = SoftThreshold SOFT_ALERT_FRACTION, al_id = i, al_cap = cs_cap e,
                       al_spend = tot, al_node = FLEET_NODE\<rparr>], e\<lparr>cs_soft := True\<rparr>)
               else ([], e));
            (hard, e2) =
              (if \<not> cs_hard e1 \<and> tot \<ge> cs_cap e1
               then ([\<lparr>al_kind = HardCap, al_id = i, al_cap = cs_cap e1,
                       al_spend = tot, al_node = FLEET_NODE\<rparr>], e1\<lparr>cs_hard := True\<rparr>)
               else ([], e1))
        in (soft @ hard, e2))"

definition report_entry :: "string \<Rightarrow> u64 \<Rightarrow> u64 \<Rightarrow> cap_state \<Rightarrow> cap_state" where
  "report_entry node cap spent e0 =
     (let e = e0\<lparr>cs_cap := max (cs_cap e0) cap\<rparr>;
          before = cs_total e;
          e1 = e\<lparr>cs_spend := bt_insert node spent (cs_spend e)\<rparr>
      in if cs_total e1 < before then e1\<lparr>cs_soft := False, cs_hard := False\<rparr> else e1)"

definition report_spend :: "string \<Rightarrow> cap_id \<Rightarrow> u64 \<Rightarrow> u64 \<Rightarrow> fleet_budgets \<Rightarrow> alert list \<times> fleet_budgets" where
  "report_spend node i cap spent f =
     (let (alerts, e) = fleet_alerts i (report_entry node cap spent (bt_entry (fb_caps f) i cap_state_default))
      in (alerts, f\<lparr>fb_caps := bt_insert i e (fb_caps f)\<rparr>))"

definition forget_node :: "string \<Rightarrow> fleet_budgets \<Rightarrow> fleet_budgets" where
  "forget_node node f =
     f\<lparr>fb_caps := map (\<lambda>(i, e). (i, e\<lparr>cs_spend := bt_remove node (cs_spend e)\<rparr>)) (fb_caps f)\<rparr>"

section \<open>Slicing a cap\<close>

definition floor_slice :: "u64 \<Rightarrow> u64 \<Rightarrow> u64" where
  "floor_slice amount node_count =
     f_to_u64 (f_floor (f_div (f_mul (u64_to_f64 amount) COLD_NODE_FLOOR_FRACTION)
       (u64_to_f64 node_count)))"

definition hot_slice_of :: "u64 \<Rightarrow> u64 \<Rightarrow> u64 \<Rightarrow> u64" where
  "hot_slice_of hot_pool node_spent tot =
     f_to_u64 (f_floor (f_mul (u64_to_f64 hot_pool)
       (f_div (u64_to_f64 node_spent) (u64_to_f64 tot))))"

definition share_for_node :: "string \<Rightarrow> cap_state \<Rightarrow> u64" where
  "share_for_node node e =
     (let cap = cs_cap e;
          tot = cs_total e;
          node_count = of_nat (max (length (cs_spend e)) 1);
          node_spent = bt_entry (cs_spend e) node 0
      in if cap = 0 then 0
         else if tot = 0 then floor_slice cap node_count
         else
           let headroom = sat_sub cap tot;
               cold_count = of_nat (length (filter (\<lambda>s. s = 0) (bt_values (cs_spend e))));
               cold_floor_each = (if cold_count = 0 then 0 else floor_slice headroom node_count)
           in if node_spent = 0 then min cold_floor_each cap
              else
                let cold_reservation = sat_mul cold_floor_each cold_count;
                    hot_pool = sat_sub cap cold_reservation
                in min (hot_slice_of hot_pool node_spent tot) cap)"

definition shares_for :: "string \<Rightarrow> fleet_budgets \<Rightarrow> share_allocation list" where
  "shares_for node f =
     map (\<lambda>(i, e). \<lparr>sa_id = i, sa_cap = cs_cap e, sa_share = share_for_node node e\<rparr>)
       (filter (\<lambda>(i, e). cs_cap e \<noteq> 0) (fb_caps f))"

section \<open>Reading the ledger\<close>

definition total_spend :: "cap_id \<Rightarrow> fleet_budgets \<Rightarrow> u64" where
  "total_spend i f = (case bt_get (fb_caps f) i of Some e \<Rightarrow> cs_total e | None \<Rightarrow> 0)"

definition node_total_spend :: "string \<Rightarrow> fleet_budgets \<Rightarrow> u64" where
  "node_total_spend node f =
     sum_list (map (\<lambda>e. bt_entry (cs_spend e) node 0) (bt_values (fb_caps f)))"

definition open_spend_window :: "string list \<Rightarrow> fleet_budgets \<Rightarrow> fleet_budgets" where
  "open_spend_window nodes f =
     (let totals = bt_of_list (map (\<lambda>n. (n, node_total_spend n f)) nodes)
      in f\<lparr>fb_open := fold (\<lambda>(n, t). bt_insert n t) totals (fb_open f)\<rparr>)"

definition node_windowed_spend :: "string \<Rightarrow> fleet_budgets \<Rightarrow> u64" where
  "node_windowed_spend node f =
     sat_sub (node_total_spend node f) (bt_entry (fb_open f) node 0)"

definition ledger :: "fleet_budgets \<Rightarrow> (cap_id \<times> u64 \<times> u64) list" where
  "ledger f = map (\<lambda>(i, e). (i, cs_cap e, cs_total e)) (filter (\<lambda>(i, e). cs_cap e > 0) (fb_caps f))"

section \<open>The slices in exact arithmetic\<close>

lemma unat_floor_u64:
  assumes "0 \<le> y" "y < 2 ^ 64"
  shows "unat (f_to_u64 (f_floor (FFin y))) = nat \<lfloor>y\<rfloor>"
proof -
  have "0 \<le> (of_int \<lfloor>y\<rfloor> :: rat)" using assms(1) by simp
  moreover have "(of_int \<lfloor>y\<rfloor> :: rat) < 2 ^ 64" using assms(2) of_int_floor_le [of y] by linarith
  ultimately have "unat (f_to_u64 (FFin (of_int \<lfloor>y\<rfloor>))) = nat \<lfloor>of_int \<lfloor>y\<rfloor> :: rat\<rfloor>"
    by (rule unat_f_to_u64)
  then show ?thesis by (simp only: f_floor.simps floor_of_int)
qed

lemma floor_u64_le:
  assumes "0 \<le> y" "y < 2 ^ 64"
  shows "of_nat (unat (f_to_u64 (f_floor (FFin y)))) \<le> y"
proof -
  have "of_nat (nat \<lfloor>y\<rfloor>) = (of_int \<lfloor>y\<rfloor> :: rat)" using assms(1) by simp
  then show ?thesis unfolding unat_floor_u64 [OF assms] by simp
qed

lemma COLD_NODE_FLOOR_FRACTION_eq:
  "COLD_NODE_FLOOR_FRACTION = FFin (3602879701896397 / 36028797018963968)"
proof -
  have "rnd (1 / 10) = 3602879701896397 / 36028797018963968"
    by (subst rnd_eval [where e = "- 4"]) (simp_all add: pow2_def rne_def Let_def)
  then show ?thesis by (simp add: COLD_NODE_FLOOR_FRACTION_def f64_round_fin pow2_def)
qed

text \<open>The error of one rounding step, as the factor \<open>1 + 2 ^ - 53\<close>, and as the cruder
  factor 2.\<close>

definition eps :: rat where
  "eps = 1 / 9007199254740992"

lemma eps_pow2: "pow2 (- 53) = eps"
  by (simp add: pow2_def eps_def)

lemma tiny_le: "1 / 2 ^ 200 \<le> x \<Longrightarrow> pow2 (- 1022) \<le> x"
  using pow2_mono [of "- 1022" "- 200"] by (simp add: pow2_def [of "- 200"])

lemma rnd_up: "1 / 2 ^ 200 \<le> x \<Longrightarrow> rnd x \<le> x * (1 + eps)"
  using rnd_le_rel [OF tiny_le] by (simp only: eps_pow2)

lemma rnd_down: "1 / 2 ^ 200 \<le> x \<Longrightarrow> x * (1 - eps) \<le> rnd x"
  using rnd_ge_rel [OF tiny_le] by (simp only: eps_pow2)

lemma rnd_up2: "1 / 2 ^ 200 \<le> x \<Longrightarrow> rnd x \<le> 2 * x"
proof -
  assume a: "1 / 2 ^ 200 \<le> x"
  then have "0 \<le> x" by (rule order_trans [rotated]) simp
  then have "x * (1 + eps) \<le> x * 2" by (intro mult_left_mono) (simp_all add: eps_def)
  then show ?thesis using rnd_up [OF a] by simp
qed

lemma rnd_down2: "1 / 2 ^ 200 \<le> x \<Longrightarrow> x / 2 \<le> rnd x"
proof -
  assume a: "1 / 2 ^ 200 \<le> x"
  then have "0 \<le> x" by (rule order_trans [rotated]) simp
  then have "x * (1 / 2) \<le> x * (1 - eps)" by (intro mult_left_mono) (simp_all add: eps_def)
  then show ?thesis using rnd_down [OF a] by simp
qed

lemma f64_round_below: "0 \<le> x \<Longrightarrow> x \<le> 2 ^ 128 \<Longrightarrow> f64_round x = FFin (rnd x)"
  by (rule f64_round_fin) (simp_all add: pow2_def le_less_trans)

section \<open>The slices of a cap\<close>

lemma floor_slice_bound:
  assumes amount: "unat amount \<le> 2 ^ 53" and n: "0 < unat n" "unat n \<le> 2 ^ 53"
  shows "unat (floor_slice amount n) * unat n \<le> unat amount"
proof (cases "amount = 0")
  case True
  have "rnd (of_nat (unat n)) = of_nat (unat n)" using n by (intro rnd_of_nat)
  then show ?thesis using True n
    by (simp add: floor_slice_def u64_to_f64_def COLD_NODE_FLOOR_FRACTION_eq f64_round_below)
next
  case False
  define a :: rat where "a = of_nat (unat amount)"
  define k :: rat where "k = of_nat (unat n)"
  define c :: rat where "c = 3602879701896397 / 36028797018963968"
  have a1: "1 \<le> a" using False by (simp add: a_def unat_gt_0 Suc_le_eq)
  have a2: "a \<le> 2 ^ 53" using amount unfolding a_def
    by (metis of_nat_le_iff of_nat_numeral of_nat_power)
  have k1: "1 \<le> k" using n by (simp add: k_def)
  have k2: "k \<le> 2 ^ 53" using n(2) unfolding k_def
    by (metis of_nat_le_iff of_nat_numeral of_nat_power)
  define p where "p = rnd (a * c)"
  have "1 / 2 ^ 200 \<le> a * c" using a1 by (simp add: c_def)
  then have p1: "a * c / 2 \<le> p" and p2: "p \<le> 2 * (a * c)"
    unfolding p_def by (rule rnd_down2, rule rnd_up2)
  have p3: "1 / 100 \<le> p" using p1 a1 by (simp add: c_def)
  have p4: "p \<le> a / 4" using p2 a1 by (simp add: c_def)
  define q where "q = rnd (p / k)"
  have "1 / 2 ^ 200 \<le> p / k"
  proof -
    have "1 / 2 ^ 200 * k \<le> p" using k2 p3 by simp
    then show ?thesis using k1 by (simp add: field_simps)
  qed
  then have q1: "q \<le> 2 * (p / k)" and q2: "p / k / 2 \<le> q"
    unfolding q_def by (rule rnd_up2, rule rnd_down2)
  have q0: "0 \<le> q" unfolding q_def using p3 k1 by (intro rnd_nonneg) simp
  have qk: "q * k \<le> a"
  proof -
    have "q * k \<le> 2 * (p / k) * k" using q1 k1 by (intro mult_right_mono) auto
    then show ?thesis using p4 k1 a1 by simp
  qed
  have qle: "q \<le> a" using mult_left_mono [OF k1 q0] qk by linarith
  have ra: "rnd a = a" and rk: "rnd k = k"
    using amount n unfolding a_def k_def by (auto intro: rnd_of_nat)
  have "a * c \<le> 2 ^ 128" "0 \<le> a * c" using a1 a2 by (simp_all add: c_def)
  then have "f_mul (u64_to_f64 amount) COLD_NODE_FLOOR_FRACTION = FFin p"
    by (simp add: u64_to_f64_def a_def [symmetric] ra COLD_NODE_FLOOR_FRACTION_eq c_def [symmetric]
        f64_round_below p_def)
  moreover have "p / k \<le> 2 ^ 128"
  proof -
    have "p / k \<le> p / 1" using p3 k1 by (intro divide_left_mono) auto
    then show ?thesis using p4 a2 by simp
  qed
  ultimately have "f_div (f_mul (u64_to_f64 amount) COLD_NODE_FLOOR_FRACTION) (u64_to_f64 n) = FFin q"
    using p3 k1 by (simp add: u64_to_f64_def k_def [symmetric] rk f64_round_below q_def)
  then have "of_nat (unat (floor_slice amount n)) \<le> q"
    unfolding floor_slice_def using q0 qle a2 by (simp only:) (intro floor_u64_le, auto)
  then have "of_nat (unat (floor_slice amount n)) * k \<le> a"
    using qk k1 by (meson mult_right_mono order_trans zero_le_one)
  then show ?thesis unfolding a_def k_def by (metis of_nat_le_iff of_nat_mult)
qed

lemma hot_slice_bound:
  assumes P: "unat P \<le> 2 ^ 50" and s: "0 < unat s" "unat s \<le> unat T"
  shows "of_nat (unat (hot_slice_of P s T)) \<le>
    (of_nat (unat P) * of_nat (unat s) / of_nat (unat T)) * (1 + 6 * eps :: rat)"
proof -
  define p :: rat where "p = of_nat (unat P)"
  define x :: rat where "x = of_nat (unat s)"
  define t :: rat where "t = of_nat (unat T)"
  have p0: "0 \<le> p" by (simp add: p_def)
  have p2: "p \<le> 2 ^ 50" using P unfolding p_def
    by (metis of_nat_le_iff of_nat_numeral of_nat_power)
  have x1: "1 \<le> x" using s by (simp add: x_def)
  have xt: "x \<le> t" using s by (simp add: x_def t_def)
  have t2: "t \<le> 2 ^ 64" using unat_u64_lt [of T] unfolding t_def
    by (metis of_nat_le_iff of_nat_numeral of_nat_power less_imp_le)
  have e: "0 < 1 - eps" "0 < 1 + eps" by (simp_all add: eps_def)
  have rp: "rnd p = p" using P unfolding p_def by (intro rnd_of_nat) simp
  have x200: "1 / 2 ^ 200 \<le> x" and t200: "1 / 2 ^ 200 \<le> t" using x1 xt by simp_all
  define r where "r = rnd x / rnd t"
  have rt: "t * (1 - eps) \<le> rnd t" "t / 2 \<le> rnd t" "rnd t \<le> 2 * t" "0 < rnd t"
    using rnd_down [OF t200] rnd_down2 [OF t200] rnd_up2 [OF t200] x1 xt by auto
  have rx: "rnd x \<le> x * (1 + eps)" "x / 2 \<le> rnd x" "rnd x \<le> 2 * x" "0 < rnd x"
    using rnd_up [OF x200] rnd_down2 [OF x200] rnd_up2 [OF x200] x1 by auto
  have r_up: "r \<le> (x * (1 + eps)) / (t * (1 - eps))"
    unfolding r_def using rx rt x1 xt e by (intro frac_le) auto
  have r_lo: "1 / 2 ^ 67 \<le> r"
  proof -
    have "(1 / 2) / (2 * 2 ^ 64) \<le> r"
      unfolding r_def using rx rt x1 xt t2 by (intro frac_le) auto
    then show ?thesis by simp
  qed
  have r_le: "r \<le> 4"
  proof -
    have "r \<le> (2 * t) / (t / 2)" unfolding r_def using rx rt x1 xt by (intro frac_le) auto
    then show ?thesis using x1 xt by simp
  qed
  define w where "w = rnd r"
  have r200: "1 / 2 ^ 200 \<le> r" using r_lo by (rule order_trans [rotated]) simp
  have w: "w \<le> r * (1 + eps)" "w \<le> 8" "1 / 2 ^ 68 \<le> w"
    unfolding w_def using rnd_up [OF r200] rnd_up2 [OF r200] rnd_down2 [OF r200] r_le r_lo
    by auto
  have div_eq: "f_div (u64_to_f64 s) (u64_to_f64 T) = FFin w"
    using rt r_le r_lo
    by (simp add: u64_to_f64_def x_def [symmetric] t_def [symmetric] f64_round_below w_def r_def [symmetric])
  have pw: "0 \<le> p * w" "p * w \<le> 2 ^ 50 * 8"
    using p0 p2 w mult_mono [of p "2 ^ 50" w 8] by auto
  then have mul_eq: "f_mul (u64_to_f64 P) (FFin w) = FFin (rnd (p * w))"
    by (simp add: u64_to_f64_def p_def [symmetric] rp f64_round_below)
  have y_up: "rnd (p * w) \<le> p * w * (1 + eps)"
  proof (cases "p = 0")
    case False
    then have "1 \<le> p" by (simp add: p_def Suc_le_eq unat_gt_0)
    then have "1 * w \<le> p * w" using w by (intro mult_right_mono) auto
    moreover have "1 / 2 ^ 200 \<le> (1 / 2 ^ 68 :: rat)" by simp
    ultimately have "1 / 2 ^ 200 \<le> p * w" using w(3) by linarith
    then show ?thesis by (rule rnd_up)
  qed simp
  have "rnd (p * w) \<le> p * w * 2"
    using y_up pw mult_left_mono [of "1 + eps" 2 "p * w"] by (simp add: eps_def)
  then have y64: "rnd (p * w) < 2 ^ 64" using pw by simp
  have "of_nat (unat (hot_slice_of P s T)) \<le> rnd (p * w)"
    unfolding hot_slice_of_def div_eq mul_eq using pw y64 by (intro floor_u64_le rnd_nonneg)
  also have "\<dots> \<le> p * w * (1 + eps)" by (rule y_up)
  also have "\<dots> \<le> p * ((x * (1 + eps)) / (t * (1 - eps)) * (1 + eps)) * (1 + eps)"
  proof -
    have "w \<le> (x * (1 + eps)) / (t * (1 - eps)) * (1 + eps)"
      using w(1) mult_right_mono [OF r_up, of "1 + eps"] e by linarith
    then show ?thesis using p0 e by (intro mult_right_mono mult_left_mono) auto
  qed
  also have "\<dots> = p * x / t * ((1 + eps) ^ 3 / (1 - eps))"
    using e x1 xt by (simp add: field_simps power3_eq_cube)
  also have "\<dots> \<le> p * x / t * (1 + 6 * eps)"
  proof -
    have "(1 + eps) ^ 3 / (1 - eps) \<le> 1 + 6 * eps" by (simp add: eps_def power3_eq_cube)
    then show ?thesis using p0 x1 xt by (intro mult_left_mono) auto
  qed
  finally show ?thesis by (simp add: p_def x_def t_def)
qed

definition shares_sum :: "cap_state \<Rightarrow> nat" where
  "shares_sum e = sum_list (map (\<lambda>n. unat (share_for_node n e)) (bt_keys (cs_spend e)))"

text \<open>The sizes for which the slicing in doubles is exact enough: caps up to \<open>2 ^ 50\<close>
  tokens, reports whose sum fits the integer, and fewer than \<open>2 ^ 53\<close> nodes.\<close>

definition sizes_ok :: "cap_state \<Rightarrow> bool" where
  "sizes_ok e \<longleftrightarrow> bt_wf (cs_spend e) \<and> unat (cs_cap e) \<le> 2 ^ 50 \<and>
     sum_list (map unat (bt_values (cs_spend e))) < 2 ^ 64 \<and> length (cs_spend e) \<le> 2 ^ 53"

lemma unat_cs_total:
  "sizes_ok e \<Longrightarrow> unat (cs_total e) = sum_list (map unat (bt_values (cs_spend e)))"
  by (simp add: sizes_ok_def cs_total_def unat_sum_list_u64)

lemma sum_split_zero:
  "sum_list (map (\<lambda>s. if s = 0 then c else h s) xs) =
     length (filter (\<lambda>s. s = (0 :: u64)) xs) * c + sum_list (map h (filter (\<lambda>s. s \<noteq> 0) xs))"
  for c :: nat and h :: "u64 \<Rightarrow> nat"
  by (induction xs) auto

lemma hot_slices_sum:
  assumes "unat P \<le> 2 ^ 50" "unat T = sum_list (map unat xs)"
  shows "sum_list (map (\<lambda>s. unat (hot_slice_of P s T)) (filter (\<lambda>s. s \<noteq> 0) xs)) \<le> unat P"
proof (cases "unat T = 0")
  case True
  then have "filter (\<lambda>s. s \<noteq> 0) xs = []"
    using assms(2) by (auto simp: filter_empty_conv unat_eq_0)
  then show ?thesis by simp
next
  case False
  let ?f = "\<lambda>s. (of_nat (unat P) / of_nat (unat T) * (1 + 6 * eps)) * (of_nat (unat s) :: rat)"
  have le: "of_nat (unat (hot_slice_of P s T)) \<le> ?f s" if "s \<in> set (filter (\<lambda>s. s \<noteq> 0) xs)" for s
  proof -
    have "unat s \<in> set (map unat xs)" using that by auto
    then have "unat s \<le> unat T" unfolding assms(2) by (intro member_le_sum_list) auto
    moreover have "0 < unat s" using that by (simp add: unat_gt_0)
    ultimately show ?thesis using hot_slice_bound [OF assms(1), of s T] by (simp add: field_simps)
  qed
  have fsum: "sum_list (map ?f xs) = of_nat (unat P) * (1 + 6 * eps)"
  proof -
    have "sum_list (map ?f xs) =
        of_nat (unat P) / of_nat (unat T) * (1 + 6 * eps) * of_nat (sum_list (map unat xs))"
      unfolding sum_list_const_mult by (induction xs) (simp_all only: list.map sum_list.Nil sum_list.Cons of_nat_0 of_nat_add distrib_left)
    then show ?thesis using False by (simp add: assms(2) [symmetric])
  qed
  have drop: "sum_list (map ?f (filter (\<lambda>s. s \<noteq> 0) xs)) \<le> sum_list (map ?f xs)"
    by (induction xs) (auto simp: eps_def)
  have "of_nat (sum_list (map (\<lambda>s. unat (hot_slice_of P s T)) (filter (\<lambda>s. s \<noteq> 0) xs))) =
      sum_list (map (\<lambda>s. of_nat (unat (hot_slice_of P s T)) :: rat) (filter (\<lambda>s. s \<noteq> 0) xs))"
    by (induction xs) auto
  also have "\<dots> \<le> sum_list (map ?f (filter (\<lambda>s. s \<noteq> 0) xs))"
    using le by (rule sum_list_le_sum_list)
  also have "\<dots> \<le> of_nat (unat P) * (1 + 6 * eps)" using drop fsum by simp
  also have "\<dots> < of_nat (unat P + 1)"
  proof -
    have "(of_nat (unat P) :: rat) \<le> 2 ^ 50" using assms(1)
      by (metis of_nat_le_iff of_nat_numeral of_nat_power)
    then show ?thesis by (simp add: eps_def)
  qed
  finally show ?thesis unfolding of_nat_less_iff by simp
qed

lemma shares_sum_entries:
  assumes "bt_wf (cs_spend e)" "cs_cap e \<noteq> 0" "cs_total e \<noteq> 0"
    "cc = length (filter (\<lambda>s. s = 0) (bt_values (cs_spend e)))"
    "each = (if (of_nat cc :: u64) = 0 then 0
       else floor_slice (sat_sub (cs_cap e) (cs_total e)) (of_nat (max (length (cs_spend e)) 1)))"
    "P = sat_sub (cs_cap e) (sat_mul each (of_nat cc))"
  shows "shares_sum e \<le> cc * unat each +
    sum_list (map (\<lambda>s. unat (hot_slice_of P s (cs_total e))) (filter (\<lambda>s. s \<noteq> 0) (bt_values (cs_spend e))))"
proof -
  let ?g = "\<lambda>s. if s = 0 then unat each else unat (hot_slice_of P s (cs_total e))"
  have "unat (share_for_node n e) \<le> ?g s" if "(n, s) \<in> set (cs_spend e)" for n s
  proof -
    have "bt_entry (cs_spend e) n 0 = s"
      using bt_in_set_get [OF assms(1) that] by (simp add: bt_entry_def)
    then show ?thesis using assms(2,3)
      by (simp add: share_for_node_def Let_def assms(4-6) unat_min_u64)
  qed
  then have "shares_sum e \<le> sum_list (map (\<lambda>(n, s). ?g s) (cs_spend e))"
    unfolding shares_sum_def bt_keys_def map_map by (intro sum_list_le_sum_list) auto
  also have "\<dots> = sum_list (map ?g (bt_values (cs_spend e)))"
    unfolding bt_values_def map_map by (rule arg_cong [where f = sum_list]) auto
  finally show ?thesis by (simp only: sum_split_zero assms(4))
qed

lemma shares_sum_le_cap:
  assumes "sizes_ok e"
  shows "shares_sum e \<le> unat (cs_cap e)"
proof -
  have wf: "bt_wf (cs_spend e)" and cap: "unat (cs_cap e) \<le> 2 ^ 50"
    and len: "length (cs_spend e) \<le> 2 ^ 53" using assms by (simp_all add: sizes_ok_def)
  define n where "n = length (cs_spend e)"
  define nw :: u64 where "nw = of_nat (max n 1)"
  have nw: "unat nw = max n 1" using len by (simp add: nw_def n_def unat_of_nat)
  have nw': "0 < unat nw" "unat nw \<le> 2 ^ 53" using len by (simp_all add: nw n_def)
  consider "cs_cap e = 0" | "cs_cap e \<noteq> 0" "cs_total e = 0" | "cs_cap e \<noteq> 0" "cs_total e \<noteq> 0"
    by blast
  then show ?thesis
  proof cases
    case 1
    then show ?thesis by (simp add: shares_sum_def share_for_node_def)
  next
    case 2
    then have "shares_sum e = n * unat (floor_slice (cs_cap e) nw)"
      by (simp add: shares_sum_def share_for_node_def Let_def bt_keys_def comp_def sum_list_triv nw_def n_def)
    also have "\<dots> \<le> unat (floor_slice (cs_cap e) nw) * unat nw" by (simp add: nw)
    also have "\<dots> \<le> unat (cs_cap e)" using cap nw' by (intro floor_slice_bound) auto
    finally show ?thesis .
  next
    case 3
    define cc where "cc = length (filter (\<lambda>s. s = 0) (bt_values (cs_spend e)))"
    define each where "each = (if (of_nat cc :: u64) = 0 then 0
      else floor_slice (sat_sub (cs_cap e) (cs_total e)) nw)"
    define P where "P = sat_sub (cs_cap e) (sat_mul each (of_nat cc))"
    have ccn: "cc \<le> n" by (simp add: cc_def n_def bt_values_def length_filter_le)
    have head: "unat (sat_sub (cs_cap e) (cs_total e)) \<le> unat (cs_cap e)"
      by (simp add: unat_sat_sub)
    have "unat (floor_slice (sat_sub (cs_cap e) (cs_total e)) nw) * unat nw \<le> unat (cs_cap e)"
      by (rule order_trans [OF floor_slice_bound head]) (use head cap nw' in simp_all)
    then have "unat each * unat nw \<le> unat (cs_cap e)" by (simp add: each_def)
    moreover have "unat each * cc \<le> unat each * unat nw" using ccn unfolding nw by (intro mult_left_mono) auto
    ultimately have res: "unat each * cc \<le> unat (cs_cap e)" by linarith
    have ccu: "unat (of_nat cc :: u64) = cc" using ccn len by (simp add: n_def unat_of_nat)
    have Pu: "unat P = unat (cs_cap e) - unat each * cc"
      using res cap by (simp add: P_def unat_sat_sub unat_sat_mul ccu)
    have "shares_sum e \<le> cc * unat each +
      sum_list (map (\<lambda>s. unat (hot_slice_of P s (cs_total e))) (filter (\<lambda>s. s \<noteq> 0) (bt_values (cs_spend e))))"
      by (rule shares_sum_entries [OF wf 3 cc_def _ P_def]) (simp add: each_def nw_def n_def)
    also have "\<dots> \<le> cc * unat each + unat P"
      using cap unat_cs_total [OF assms] by (intro add_left_mono hot_slices_sum) (auto simp: Pu)
    also have "\<dots> = unat (cs_cap e)" using res by (simp add: Pu mult.commute)
    finally show ?thesis .
  qed
qed

section \<open>The ledger's invariant\<close>

definition fb_wf :: "fleet_budgets \<Rightarrow> bool" where
  "fb_wf f \<longleftrightarrow> bt_wf (fb_caps f) \<and> bt_wf (fb_open f) \<and>
     (\<forall>(i, e) \<in> set (fb_caps f). bt_wf (cs_spend e))"

lemma fb_wf_entry: "fb_wf f \<Longrightarrow> bt_wf (cs_spend (bt_entry (fb_caps f) i cap_state_default))"
  by (auto simp: fb_wf_def bt_entry_def cap_state_default_def split: option.splits
      dest!: bt_get_in_set)

lemma fb_wf_insert:
  "fb_wf f \<Longrightarrow> bt_wf (cs_spend e) \<Longrightarrow> fb_wf (f\<lparr>fb_caps := bt_insert i e (fb_caps f)\<rparr>)"
  using set_bt_insert [of i e "fb_caps f"] by (fastforce simp: fb_wf_def bt_wf_insert)

lemma fb_wf_new [wf_intros]: "fb_wf fb_new"
  by (simp add: fb_wf_def fb_new_def)

lemma fb_wf_observe_cap [wf_intros]: "fb_wf f \<Longrightarrow> fb_wf (observe_cap i cap f)"
  by (simp add: observe_cap_def Let_def fb_wf_insert fb_wf_entry)

lemma fleet_alerts_frame:
  "fleet_alerts i e = (as, e') \<Longrightarrow> cs_spend e' = cs_spend e \<and> cs_cap e' = cs_cap e"
  by (auto simp: fleet_alerts_def Let_def split: if_splits)

lemma cs_spend_report_entry:
  "cs_spend (report_entry node cap spent e) = bt_insert node spent (cs_spend e)"
  "cs_cap (report_entry node cap spent e) = max (cs_cap e) cap"
  by (simp_all add: report_entry_def Let_def)

lemma fb_wf_report_spend [wf_intros]:
  "fb_wf f \<Longrightarrow> report_spend node i cap spent f = (as, f') \<Longrightarrow> fb_wf f'"
  by (auto simp: report_spend_def Let_def cs_spend_report_entry fb_wf_entry bt_wf_insert
      intro!: fb_wf_insert split: prod.splits dest!: fleet_alerts_frame)

lemma fb_wf_forget_node [wf_intros]: "fb_wf f \<Longrightarrow> fb_wf (forget_node node f)"
  by (auto simp: fb_wf_def forget_node_def bt_wf_map_values bt_wf_remove)

lemma fb_wf_open_spend_window [wf_intros]: "fb_wf f \<Longrightarrow> fb_wf (open_spend_window nodes f)"
  by (simp add: fb_wf_def open_spend_window_def Let_def bt.invar_fold_insert)

lemma bt_get_report_spend:
  assumes "fb_wf f" "report_spend node i cap spent f = (as, f')"
  shows "bt_get (fb_caps f') j =
    (if j = i then Some (snd (fleet_alerts i
       (report_entry node cap spent (bt_entry (fb_caps f) i cap_state_default))))
     else bt_get (fb_caps f) j)"
  using assms by (auto simp: report_spend_def bt.get_insert fb_wf_def split: prod.splits)

lemma node_entry_report_spend:
  assumes "fb_wf f" "report_spend node i cap spent f = (as, f')"
  shows "bt_entry (cs_spend (bt_entry (fb_caps f') j cap_state_default)) n 0 =
    (if j = i \<and> n = node then spent
     else bt_entry (cs_spend (bt_entry (fb_caps f) j cap_state_default)) n 0)"
proof -
  obtain as' e' where fa: "fleet_alerts i
     (report_entry node cap spent (bt_entry (fb_caps f) i cap_state_default)) = (as', e')" by force
  have "cs_spend e' = bt_insert node spent (cs_spend (bt_entry (fb_caps f) i cap_state_default))"
    using fleet_alerts_frame [OF fa] by (simp add: cs_spend_report_entry)
  then show ?thesis
    using fb_wf_entry [OF assms(1), of i]
    by (simp add: bt_entry_def [of "fb_caps f'"] bt_get_report_spend [OF assms] fa)
      (simp add: bt_entry_def bt.get_insert)
qed

section \<open>Properties\<close>

text \<open>Property C8.  Conservation of the cap: the shares granted to all the nodes of a
  ledger entry never sum to more than the cap, for any mix of hot and cold nodes and also
  when the reported spend already exceeds the cap.  The doubles of the code are kept; the
  statement holds for caps up to \<open>2 ^ 50\<close> tokens, any reports whose sum is a \<open>u64\<close>, and
  up to \<open>2 ^ 53\<close> nodes.\<close>

theorem shares_conserve_cap:
  assumes "bt_wf (cs_spend e)" "cs_cap e \<le> 2 ^ 50"
    "sum_list (map unat (bt_values (cs_spend e))) < 2 ^ 64" "length (cs_spend e) \<le> 2 ^ 53"
  shows "sum_list (map (\<lambda>n. unat (share_for_node n e)) (bt_keys (cs_spend e))) \<le> unat (cs_cap e)"
proof -
  have "sizes_ok e" using assms by (simp add: sizes_ok_def word_le_nat_alt)
  then show ?thesis using shares_sum_le_cap [of e] by (simp only: shares_sum_def)
qed

theorem shares_conserve_cap_witness:
  "sum_list (map (\<lambda>n. unat (share_for_node n
      \<lparr>cs_cap = 100000, cs_spend = [(''cold'', 0), (''hot'', 60000)], cs_soft = False, cs_hard = False\<rparr>))
    (bt_keys (cs_spend
      \<lparr>cs_cap = 100000, cs_spend = [(''cold'', 0), (''hot'', 60000)], cs_soft = False, cs_hard = False\<rparr>)))
   \<le> unat (cs_cap
      \<lparr>cs_cap = 100000, cs_spend = [(''cold'', 0 :: u64), (''hot'', 60000)], cs_soft = False, cs_hard = False\<rparr>)"
  by (rule shares_conserve_cap) (simp_all add: bt_wf_def bt_values_def)

text \<open>Without the bound conservation fails: a cap just above \<open>2 ^ 54\<close> is
  rounded up when it is converted to a double, and two equally hot nodes are granted two
  tokens more than the cap between them.\<close>

theorem shares_exceed_huge_cap:
  "\<exists>e. bt_wf (cs_spend e) \<and> bt_keys (cs_spend e) = [''a'', ''b''] \<and>
     unat (cs_cap e) < unat (share_for_node ''a'' e) + unat (share_for_node ''b'' e)"
proof -
  define e where "e = \<lparr>cs_cap = 18014398509481990, cs_spend = [(''a'', 1), (''b'', 1)],
    cs_soft = False, cs_hard = False\<rparr>"
  have r: "rnd 18014398509481990 = 18014398509481992"
    by (subst rnd_eval [where e = 54]) (simp_all add: pow2_def rne_def Let_def)
  have h: "rnd (1 / 2) = 1 / 2" 
    by (subst rnd_eval [where e = "-1"]) (simp_all add: pow2_def rne_def Let_def)
  have q: "rnd 9007199254740996 = 9007199254740996"
    by (subst rnd_eval [where e = "53"]) (simp_all add: pow2_def rne_def Let_def)
  have o: "rnd 1 = 1" "rnd 2 = 2" using rnd_of_nat [of 1] rnd_of_nat [of 2] by simp_all
  have s: "hot_slice_of 18014398509481990 1 2 = 9007199254740996"
    by (simp add: hot_slice_of_def u64_to_f64_def r h o q f64_round_below)
  have "share_for_node ''a'' e = 9007199254740996" "share_for_node ''b'' e = 9007199254740996"
    by (simp_all add: share_for_node_def e_def Let_def cs_total_def bt_values_def bt_entry_def s
        sat_sub_def sat_mul_def)
  then show ?thesis by (intro exI [of _ e]) (simp add: e_def bt_wf_def bt_keys_def)
qed

text \<open>A node that has not reported yet gets no share at all once every
  reporting node has spent something: the cold floor is reserved for cold nodes already in
  the ledger, not for the newcomer.\<close>

theorem unreported_node_gets_nothing:
  assumes "bt_get (cs_spend e) node = None" "cs_total e \<noteq> 0" "0 \<notin> set (bt_values (cs_spend e))"
  shows "share_for_node node e = 0"
proof -
  have "filter (\<lambda>s. s = 0) (bt_values (cs_spend e)) = []"
    using assms(3) by (auto simp: filter_empty_conv)
  then show ?thesis using assms(1,2) by (simp add: share_for_node_def Let_def bt_entry_def)
qed

theorem unreported_node_gets_nothing_witness:
  "share_for_node ''new''
     \<lparr>cs_cap = 100000, cs_spend = [(''hot'', 60000)], cs_soft = False, cs_hard = False\<rparr> = 0"
  by (rule unreported_node_gets_nothing) (simp_all add: cs_total_def bt_values_def)

text \<open>A usage report replaces exactly the reporting node's figure for exactly
  the reported value: every other figure of the ledger is kept, and a repeated report
  changes nothing.\<close>

theorem report_replaces_one_figure:
  assumes "fb_wf f" "report_spend node i cap spent f = (alerts, f')"
  shows "fb_wf f' \<and>
    (\<forall>j n. bt_entry (cs_spend (bt_entry (fb_caps f') j cap_state_default)) n 0 =
      (if j = i \<and> n = node then spent
       else bt_entry (cs_spend (bt_entry (fb_caps f) j cap_state_default)) n 0))"
  using assms fb_wf_report_spend node_entry_report_spend by blast

theorem report_replaces_one_figure_witness:
  "fb_wf (snd (report_spend ''n1'' (CapId ''team'' ''ml'') 100 7 fb_new)) \<and>
    (\<forall>j n. bt_entry (cs_spend (bt_entry (fb_caps (snd (report_spend ''n1'' (CapId ''team'' ''ml'') 100 7 fb_new)))
        j cap_state_default)) n 0 =
      (if j = CapId ''team'' ''ml'' \<and> n = ''n1'' then 7
       else bt_entry (cs_spend (bt_entry (fb_caps fb_new) j cap_state_default)) n 0))"
  by (rule report_replaces_one_figure [where alerts = "fst (report_spend ''n1'' (CapId ''team'' ''ml'') 100 7 fb_new)"])
    (simp_all add: fb_wf_new)

text \<open>A departed node stops counting: after \<open>forget_node\<close> it has no figure
  for any value, every other node keeps its figures, and the caps and the alert latches
  stay.\<close>

theorem forget_node_removes_figures:
  assumes "fb_wf f"
  shows "node_total_spend node (forget_node node f) = 0 \<and>
    (\<forall>n. n \<noteq> node \<longrightarrow> node_total_spend n (forget_node node f) = node_total_spend n f) \<and>
    map (\<lambda>(i, e). (i, cs_cap e, cs_soft e, cs_hard e)) (fb_caps (forget_node node f)) =
      map (\<lambda>(i, e). (i, cs_cap e, cs_soft e, cs_hard e)) (fb_caps f)"
proof -
  have wf: "bt_wf (cs_spend e)" if "(i, e) \<in> set (fb_caps f)" for i e
    using assms that by (auto simp: fb_wf_def)
  have "bt_entry (bt_remove node (cs_spend e)) n 0 = (if n = node then 0 else bt_entry (cs_spend e) n 0)"
    if "(i, e) \<in> set (fb_caps f)" for i e n
    using bt.get_remove [OF wf [OF that]] by (simp add: bt_entry_def)
  then have eq: "map (\<lambda>(i, e). bt_entry (bt_remove node (cs_spend e)) n 0) (fb_caps f) =
      map (\<lambda>(i, e). if n = node then 0 else bt_entry (cs_spend e) n 0) (fb_caps f)" for n
    by (intro map_cong) auto
  have nts: "node_total_spend n (forget_node node f) =
      sum_list (map (\<lambda>(i, e). bt_entry (bt_remove node (cs_spend e)) n 0) (fb_caps f))" for n
    by (simp add: node_total_spend_def forget_node_def bt_values_def comp_def case_prod_unfold)
  show ?thesis
    unfolding nts eq
    by (auto simp: node_total_spend_def bt_values_def comp_def case_prod_unfold forget_node_def
        sum_list_triv)
qed

theorem forget_node_removes_figures_witness:
  "node_total_spend ''n1'' (forget_node ''n1'' (snd (report_spend ''n1'' (CapId ''team'' ''ml'') 100 7 fb_new))) = 0"
  using forget_node_removes_figures [OF fb_wf_report_spend [OF fb_wf_new prod.collapse [symmetric]]]
  by blast

text \<open>Opening an analysis window marks the zero point: a node's windowed spend
  is then the growth of its cumulative spend, and the cumulative ledger is untouched.\<close>

theorem window_spend_is_growth:
  assumes "fb_wf f" "node \<in> set nodes" "fb_open g = fb_open (open_spend_window nodes f)"
  shows "node_windowed_spend node g = sat_sub (node_total_spend node g) (node_total_spend node f) \<and>
    fb_caps (open_spend_window nodes f) = fb_caps f"
proof -
  let ?kvs = "map (\<lambda>n. (n, node_total_spend n f)) nodes"
  have "map_of (rev ?kvs) node = Some (node_total_spend node f)"
    using assms(2) by (simp add: rev_map map_of_map_restrict)
  then have "bt_get (fb_open (open_spend_window nodes f)) node = Some (node_total_spend node f)"
    using assms(1)
    by (simp add: open_spend_window_def Let_def bt_get_merge bt_wf_of_list bt_get_of_list fb_wf_def)
  then show ?thesis
    by (simp add: node_windowed_spend_def assms(3) bt_entry_def open_spend_window_def Let_def)
qed

theorem window_spend_is_growth_witness:
  "node_windowed_spend ''n1''
     (snd (report_spend ''n1'' (CapId ''team'' ''ml'') 100 9
        (open_spend_window [''n1''] (snd (report_spend ''n1'' (CapId ''team'' ''ml'') 100 7 fb_new))))) =
   sat_sub (node_total_spend ''n1''
     (snd (report_spend ''n1'' (CapId ''team'' ''ml'') 100 9
        (open_spend_window [''n1''] (snd (report_spend ''n1'' (CapId ''team'' ''ml'') 100 7 fb_new))))))
     (node_total_spend ''n1'' (snd (report_spend ''n1'' (CapId ''team'' ''ml'') 100 7 fb_new)))"
proof (rule window_spend_is_growth [where nodes = "[''n1'']", THEN conjunct1])
  show "fb_wf (snd (report_spend ''n1'' (CapId ''team'' ''ml'') 100 7 fb_new))"
    by (rule fb_wf_report_spend [OF fb_wf_new prod.collapse [symmetric]])
qed (simp_all add: report_spend_def split: prod.splits)

end
