(* ===== verification/CanaryRollout.thy ===== *)
theory CanaryRollout
  imports Rollout Telemetry FleetBudget
begin

text \<open>
  \<open>gatewayctl/src/canary_rollout.rs\<close>: the wave walk with an analysis window after every wave,
  the rollback of a wave that fails it, and the manual judgment gate.  The network is a
  parameter as in \<open>Rollout\<close>, for pushes whose sends complete; \<open>reports wave\<close> is what the
  fleet's reports make of the telemetry and the spend ledger while the control plane sleeps
  through the window of \<open>wave\<close>; \<open>approved wave k\<close> is whether the approval is in the repository at the \<open>k\<close>-th poll.
  Polling may go on forever, so the walk is a value of \<open>option\<close>: \<open>None\<close> is a rollout that
  never returns.
\<close>

section \<open>Outcomes\<close>

datatype wave_analysis = NotAnalyzed | Passed | Failed breach | NoTelemetry

record rollback =
  rb_wave_name :: string
  rb_breach :: "breach option"
  rb_reverted_to :: string

record canary_outcome =
  co_multi :: multi_wave_outcome
  co_analyses :: "wave_analysis list"
  co_rollback :: "rollback option"
  co_gates_released :: "string list"

definition co_is_fully_applied :: "canary_outcome \<Rightarrow> bool" where
  "co_is_fully_applied c \<longleftrightarrow> is_fully_applied (co_multi c) \<and> co_rollback c = None"

definition rolled_back :: "canary_outcome \<Rightarrow> bool" where
  "rolled_back c \<longleftrightarrow> co_rollback c \<noteq> None"

section \<open>The gate\<close>

definition approval_path :: "string \<Rightarrow> string" where
  "approval_path wave = ''approvals/'' @ wave @ ''.approved''"

text \<open>The repository gate: \<open>resolve\<close> is what resolving the config source gives.\<close>

definition repo_approved :: "string + resolved_repo \<Rightarrow> string \<Rightarrow> bool" where
  "repo_approved resolve wave =
     (case resolve of Inr r \<Rightarrow> rr_contains r (approval_path wave) | Inl _ \<Rightarrow> False)"

definition auto_approve :: "string \<Rightarrow> bool" where
  "auto_approve wave = True"

text \<open>\<open>await_gate\<close> from poll \<open>k\<close> on: the number of the poll that found the approval.\<close>

partial_function (option) await_gate :: "(nat \<Rightarrow> bool) \<Rightarrow> nat \<Rightarrow> nat option" where
  "await_gate approved k = (if approved k then Some k else await_gate approved (k + 1))"

section \<open>Analysis of a wave\<close>

text \<open>The control plane's mutable parts: the fleet, the telemetry sink and the spend ledger.\<close>

type_synonym cp_state = "fleet \<times> fleet_telemetry \<times> fleet_budgets"

definition baseline_ids :: "assigned_wave list \<Rightarrow> nat \<Rightarrow> string list" where
  "baseline_ids assigned idx = concat (map aw_node_ids (drop (idx + 1) assigned))"

definition node_sample :: "fleet_telemetry \<Rightarrow> fleet_budgets \<Rightarrow> string \<Rightarrow> node_telemetry" where
  "node_sample t b node =
     (let w = window_for t node in
      \<lparr>nt_requests = nw_requests w, nt_errors = nw_errors w, nt_latencies_ms = nw_latencies_ms w,
       nt_spent = node_windowed_spend node b\<rparr>)"

definition assemble_telemetry ::
  "fleet_telemetry \<Rightarrow> fleet_budgets \<Rightarrow> string list \<Rightarrow> wave_telemetry"
where
  "assemble_telemetry t b nodes = fold (\<lambda>n. wt_insert n (node_sample t b n)) nodes []"

text \<open>A \<open>Duration\<close> is a number of nanoseconds.\<close>

definition window_nanos :: "canary_policy \<Rightarrow> nat" where
  "window_nanos p = unat (cp_window_secs p) * 10 ^ 9"

definition analyze_wave ::
  "(fleet_telemetry \<times> fleet_budgets \<Rightarrow> fleet_telemetry \<times> fleet_budgets) \<Rightarrow> canary_policy \<Rightarrow>
   string list \<Rightarrow> string list \<Rightarrow> nat option \<Rightarrow> fleet_telemetry \<times> fleet_budgets \<Rightarrow>
   analysis \<times> fleet_telemetry \<times> fleet_budgets"
where
  "analyze_wave reports policy canary_nodes baseline_nodes window_override tb =
     (let window = unwrap_or window_override (window_nanos policy);
          (t, b) =
            (if window \<noteq> 0
             then reports (reset_many canary_nodes (fst tb),
                    open_spend_window (canary_nodes @ baseline_nodes) (snd tb))
             else tb)
      in (analyze policy (assemble_telemetry t b canary_nodes)
            (assemble_telemetry t b baseline_nodes), t, b))"

section \<open>Rollback\<close>

fun repush :: "string \<Rightarrow> string list \<Rightarrow> fleet \<Rightarrow> fleet" where
  "repush hash [] f = f"
| "repush hash (node # ns) f = repush hash ns (snd (next_version_for node hash f))"

definition rollback_wave ::
  "string \<Rightarrow> string list \<Rightarrow> string \<Rightarrow> rendered option \<Rightarrow> fleet \<Rightarrow> string \<times> fleet"
where
  "rollback_wave wave node_ids prior_commit prior_render f =
     (let f1 = revert_wave_commit wave prior_commit f in
      (prior_commit,
       case prior_render of None \<Rightarrow> f1 | Some prior \<Rightarrow> repush (rn_render_hash prior) node_ids f1))"

section \<open>The walk\<close>

record canary_walk =
  cw_steps :: "wave_step list"
  cw_analyses :: "wave_analysis list"
  cw_halted_at :: "nat option"
  cw_rollback :: "rollback option"
  cw_gates :: "string list"
  cw_fleet :: fleet
  cw_telemetry :: "fleet_telemetry \<times> fleet_budgets"

text \<open>The environment of a canary rollout.\<close>

record canary_env =
  ce_render :: render_env
  ce_lookup :: "string \<Rightarrow> labels option"
  ce_answers :: "string \<Rightarrow> string \<Rightarrow> ack_result"
  ce_reports :: "string \<Rightarrow> fleet_telemetry \<times> fleet_budgets \<Rightarrow> fleet_telemetry \<times> fleet_budgets"
  ce_approved :: "string \<Rightarrow> nat \<Rightarrow> bool"
  ce_window_override :: "nat option"
  ce_prior_render :: "rendered option"

definition push_step :: "assigned_wave \<Rightarrow> nat \<Rightarrow> wave_step_state \<Rightarrow> wave_analysis \<Rightarrow> canary_walk \<Rightarrow> canary_walk"
where
  "push_step w n st a s =
     s\<lparr>cw_steps := cw_steps s @ [\<lparr>ws_wave_name = aw_name w, ws_node_count = n, ws_state = st\<rparr>],
       cw_analyses := cw_analyses s @ [a]\<rparr>"

definition fail_wave ::
  "canary_env \<Rightarrow> assigned_wave \<Rightarrow> nat \<Rightarrow> string \<Rightarrow> breach option \<Rightarrow> canary_walk \<Rightarrow> canary_walk"
where
  "fail_wave X w n prior br s =
     (let (reverted_to, f) =
        rollback_wave (aw_name w) (aw_node_ids w) prior (ce_prior_render X) (cw_fleet s)
      in (push_step w n (SHalted reverted_to [])
            (case br of Some b \<Rightarrow> Failed b | None \<Rightarrow> NoTelemetry) s)
         \<lparr>cw_fleet := f,
          cw_rollback := Some \<lparr>rb_wave_name = aw_name w, rb_breach = br,
                              rb_reverted_to = reverted_to\<rparr>\<rparr>)"

definition pass_gate :: "canary_env \<Rightarrow> canary_policy \<Rightarrow> assigned_wave \<Rightarrow> canary_walk \<Rightarrow> canary_walk option"
where
  "pass_gate X policy w s =
     (if gates_after policy (aw_name w) then
        (case await_gate (ce_approved X (aw_name w)) 0 of
           None \<Rightarrow> None
         | Some _ \<Rightarrow> Some (s\<lparr>cw_gates := cw_gates s @ [aw_name w]\<rparr>))
      else Some s)"

definition canary_step ::
  "canary_env \<Rightarrow> canary_policy \<Rightarrow> string \<Rightarrow> assigned_wave list \<Rightarrow> nat \<times> assigned_wave \<Rightarrow>
   canary_walk \<Rightarrow> canary_walk option"
where
  "canary_step X policy target assigned iw s =
     (case iw of (idx, w) \<Rightarrow>
      if cw_halted_at s \<noteq> None \<or> cw_rollback s \<noteq> None then
        Some (push_step w (length (aw_node_ids w))
                (SFrozen (frozen_commit (cw_fleet s) (aw_name w))) NotAnalyzed s)
      else if aw_node_ids w = [] then Some (push_step w 0 SEmpty NotAnalyzed s)
      else
        (case run_wave_nodes (ce_render X) (ce_lookup X) (ce_answers X (aw_name w)) (aw_node_ids w)
                (cw_fleet s) of
           (WHalted _ ds, f) \<Rightarrow>
             Some ((push_step w (length (aw_node_ids w))
                      (SHalted (frozen_commit f (aw_name w)) ds) NotAnalyzed s)
                   \<lparr>cw_fleet := f, cw_halted_at := Some idx\<rparr>)
         | (WNoNodes _, f) \<Rightarrow> Some ((push_step w 0 SEmpty NotAnalyzed s)\<lparr>cw_fleet := f\<rparr>)
         | (WCommitted _ n, f) \<Rightarrow>
             let prior = frozen_commit f (aw_name w);
                 (verdict, tb) = analyze_wave (ce_reports X (aw_name w)) policy (aw_node_ids w)
                   (baseline_ids assigned idx) (ce_window_override X) (cw_telemetry s);
                 s1 = s\<lparr>cw_fleet := f, cw_telemetry := tb\<rparr>
             in (case verdict of
                   Pass \<Rightarrow>
                     pass_gate X policy w
                       ((push_step w n (SAdvanced target) Passed s1)
                        \<lparr>cw_fleet := set_wave_commit (aw_name w) target f\<rparr>)
                 | Fail br \<Rightarrow> Some (fail_wave X w n prior (Some br) s1)
                 | NoData \<Rightarrow> Some (fail_wave X w n prior None s1))))"

fun canary_walk_from ::
  "canary_env \<Rightarrow> canary_policy \<Rightarrow> string \<Rightarrow> assigned_wave list \<Rightarrow> (nat \<times> assigned_wave) list \<Rightarrow>
   canary_walk \<Rightarrow> canary_walk option"
where
  "canary_walk_from X policy target assigned [] s = Some s"
| "canary_walk_from X policy target assigned (iw # iws) s =
     Option.bind (canary_step X policy target assigned iw s)
       (canary_walk_from X policy target assigned iws)"

definition roll_out_plan_canary ::
  "canary_env \<Rightarrow> (string \<times> labels) list \<Rightarrow> cp_state \<Rightarrow> (canary_outcome \<times> cp_state) option"
where
  "roll_out_plan_canary X nodes st =
     (let policy = fl_canary (fst st) in
      if \<not> cp_enabled policy then
        let (multi, f) = roll_out_plan (ce_render X) (ce_lookup X) (ce_answers X) nodes (fst st)
        in Some (\<lparr>co_multi = multi, co_analyses = replicate (length (mo_steps multi)) NotAnalyzed,
                 co_rollback = None, co_gates_released = []\<rparr>, f, snd st)
      else
        let f = begin_wave (fst st);
            target = rn_source_commit (fl_applied f);
            assigned = assign (fleet_wave_plan f) nodes
        in map_option (\<lambda>s.
             (\<lparr>co_multi = \<lparr>mo_steps = cw_steps s, mo_halted_at = cw_halted_at s,
                          mo_target_commit = target\<rparr>,
               co_analyses = cw_analyses s, co_rollback = cw_rollback s,
               co_gates_released = cw_gates s\<rparr>,
              drop_guard (cw_fleet s), cw_telemetry s))
           (canary_walk_from X policy target assigned (enumerate 0 assigned)
             \<lparr>cw_steps = [], cw_analyses = [], cw_halted_at = None, cw_rollback = None,
              cw_gates = [], cw_fleet = f, cw_telemetry = snd st\<rparr>))"

section \<open>The gate waits exactly as long as it must\<close>

lemma await_gate_found:
  "await_gate approved k = Some n \<Longrightarrow> k \<le> n \<and> approved n \<and> (\<forall>j. k \<le> j \<longrightarrow> j < n \<longrightarrow> \<not> approved j)"
proof -
  assume ret: "await_gate approved k = Some n"
  show ?thesis
  proof (rule await_gate.raw_induct [where P = "\<lambda>ap k n. k \<le> n \<and> ap n \<and> (\<forall>j. k \<le> j \<longrightarrow> j < n \<longrightarrow> \<not> ap j)",
        OF _ ret])
    fix f :: "(nat \<Rightarrow> bool) \<Rightarrow> nat \<Rightarrow> nat option" and ap k n
    assume IH: "\<And>ap k n. f ap k = Some n \<Longrightarrow> k \<le> n \<and> ap n \<and> (\<forall>j. k \<le> j \<longrightarrow> j < n \<longrightarrow> \<not> ap j)"
      and step: "(if ap k then Some k else f ap (k + 1)) = Some n"
    show "k \<le> n \<and> ap n \<and> (\<forall>j. k \<le> j \<longrightarrow> j < n \<longrightarrow> \<not> ap j)"
    proof (cases "ap k")
      case True
      then show ?thesis using step by simp
    next
      case False
      then have "f ap (k + 1) = Some n" using step by simp
      then have r: "k + 1 \<le> n \<and> ap n \<and> (\<forall>j. k + 1 \<le> j \<longrightarrow> j < n \<longrightarrow> \<not> ap j)" by (rule IH)
      have "\<not> ap j" if "k \<le> j" "j < n" for j
        using r False that by (cases "j = k") auto
      then show ?thesis using r by auto
    qed
  qed
qed

lemma await_gate_returns:
  "k \<le> n \<Longrightarrow> approved n \<Longrightarrow> \<exists>m \<le> n. await_gate approved k = Some m"
proof (induction "n - k" arbitrary: k)
  case 0
  then show ?case by (subst await_gate.simps) simp
next
  case (Suc d)
  show ?case
  proof (cases "approved k")
    case True
    then show ?thesis using Suc.prems by (subst await_gate.simps) simp
  next
    case False
    have "d = n - (k + 1)" "k + 1 \<le> n" using Suc.hyps(2) by auto
    from Suc.hyps(1) [OF this Suc.prems(2)] False show ?thesis
      by (subst await_gate.simps) simp
  qed
qed

lemma await_gate_None: "await_gate approved k = None \<longleftrightarrow> (\<forall>n \<ge> k. \<not> approved n)"
proof
  assume "await_gate approved k = None"
  then show "\<forall>n \<ge> k. \<not> approved n" using await_gate_returns [of k _ approved] by fastforce
next
  assume "\<forall>n \<ge> k. \<not> approved n"
  then show "await_gate approved k = None"
    by (cases "await_gate approved k") (auto dest!: await_gate_found)
qed

section \<open>What a canary walk leaves behind\<close>

definition reached_analysis :: "assigned_wave \<Rightarrow> wave_analysis" where
  "reached_analysis w = (if aw_node_ids w = [] then NotAnalyzed else Passed)"

definition gated :: "canary_policy \<Rightarrow> assigned_wave list \<Rightarrow> string list" where
  "gated p ws = map aw_name (filter (\<lambda>w. aw_node_ids w \<noteq> [] \<and> gates_after p (aw_name w)) ws)"

text \<open>The commit the fleet reports for every wave name after the waves \<open>ws\<close> advanced.\<close>

definition commits_as :: "string \<Rightarrow> fleet \<Rightarrow> assigned_wave list \<Rightarrow> fleet \<Rightarrow> bool" where
  "commits_as target f0 ws f \<longleftrightarrow> bt_wf (fl_wave_commit f) \<and>
     (\<forall>n. frozen_commit f n =
        (if \<exists>w \<in> set ws. aw_node_ids w \<noteq> [] \<and> aw_name w = n then target else frozen_commit f0 n))"

text \<open>How the wave at which a walk stops is reported.\<close>

definition stop_report ::
  "fleet \<Rightarrow> assigned_wave \<Rightarrow> nat \<Rightarrow> divergence list \<Rightarrow> wave_analysis \<Rightarrow> nat option \<Rightarrow>
   rollback option \<Rightarrow> bool"
where
  "stop_report f0 w h ds a halted rb \<longleftrightarrow>
     (halted = Some h \<and> rb = None \<and> ds \<noteq> [] \<and> a = NotAnalyzed) \<or>
     (halted = None \<and> ds = [] \<and>
        (\<exists>br. rb = Some \<lparr>rb_wave_name = aw_name w, rb_breach = br,
                         rb_reverted_to = frozen_commit f0 (aw_name w)\<rparr> \<and>
           a = (case br of Some b \<Rightarrow> Failed b | None \<Rightarrow> NoTelemetry)))"

definition canary_ok ::
  "canary_policy \<Rightarrow> string \<Rightarrow> fleet \<Rightarrow> assigned_wave list \<Rightarrow> canary_walk \<Rightarrow> bool"
where
  "canary_ok p target f0 ws s \<longleftrightarrow>
     ((cw_halted_at s = None \<and> cw_rollback s = None \<and>
       cw_steps s = map (reached_step target) ws \<and> cw_analyses s = map reached_analysis ws \<and>
       cw_gates s = gated p ws \<and> commits_as target f0 ws (cw_fleet s)) \<or>
      (\<exists>h ds a. h < length ws \<and>
         stop_report f0 (ws ! h) h ds a (cw_halted_at s) (cw_rollback s) \<and>
         cw_steps s = map (reached_step target) (take h ws) @
           halted_step f0 (ws ! h) ds # map (frozen_step f0) (drop (Suc h) ws) \<and>
         cw_analyses s = map reached_analysis (take h ws) @ a # map (\<lambda>_. NotAnalyzed) (drop (Suc h) ws) \<and>
         cw_gates s = gated p (take h ws) \<and> commits_as target f0 (take h ws) (cw_fleet s))) \<and>
     fl_waves_in_flight (cw_fleet s) = fl_waves_in_flight f0 \<and>
     fl_applied (cw_fleet s) = fl_applied f0 \<and> fl_desired (cw_fleet s) = fl_desired f0"

lemma frame_repush: "fleet_frame f (repush h ns f)"
proof (induction ns arbitrary: f)
  case Nil
  then show ?case by simp
next
  case (Cons n ns)
  obtain v g where v: "next_version_for n h f = (v, g)" by fastforce
  show ?case using fleet_frame_trans [OF frame_next_version [OF v] Cons.IH] by (simp add: v)
qed

lemma commits_as_frame: "fleet_frame f g \<Longrightarrow> commits_as target f0 ws f \<Longrightarrow> commits_as target f0 ws g"
  by (simp add: commits_as_def fleet_frame_def frozen_commit_def)

text \<open>Reverting a wave to the commit it is on changes no reported commit.\<close>

lemma commits_as_rollback:
  assumes "commits_as target f0 ws f" "rollback_wave w ids (frozen_commit f w) prior f = (c, g)"
  shows "c = frozen_commit f w \<and> commits_as target f0 ws g \<and> fl_applied g = fl_applied f \<and>
    fl_desired g = fl_desired f \<and> fl_waves_in_flight g = fl_waves_in_flight f"
proof -
  let ?f1 = "revert_wave_commit w (frozen_commit f w) f"
  have wf: "bt_wf (fl_wave_commit f)" using assms(1) by (simp add: commits_as_def)
  have "frozen_commit ?f1 n = frozen_commit f n" for n
    using wf by (auto simp: revert_wave_commit_def frozen_commit_def bt.get_remove bt.get_insert)
  moreover have "bt_wf (fl_wave_commit ?f1)"
    using wf by (simp add: revert_wave_commit_def bt_wf_remove bt_wf_insert)
  ultimately have 1: "commits_as target f0 ws ?f1" using assms(1) by (simp add: commits_as_def)
  have g: "c = frozen_commit f w" "g = ?f1 \<or> (\<exists>h. g = repush h ids ?f1)"
    using assms(2) by (auto simp: rollback_wave_def Let_def split: option.splits)
  then have "fleet_frame ?f1 g" using frame_repush by auto
  then show ?thesis
    using commits_as_frame [OF _ 1] g(1) by (simp add: fleet_frame_def revert_wave_commit_def)
qed

lemma commits_as_advance:
  assumes "commits_as target f0 ws f" "aw_node_ids w \<noteq> []"
  shows "commits_as target f0 (ws @ [w]) (set_wave_commit (aw_name w) target f)"
  using assms
  by (auto simp: commits_as_def set_wave_commit_def frozen_commit_def bt_wf_insert bt.get_insert)

lemma commits_as_fresh:
  assumes "commits_as target f0 ws f" "n \<notin> aw_name ` set ws"
  shows "frozen_commit f n = frozen_commit f0 n"
proof -
  have "\<not> (\<exists>w \<in> set ws. aw_node_ids w \<noteq> [] \<and> aw_name w = n)" using assms(2) by blast
  moreover have "frozen_commit f n =
      (if \<exists>w \<in> set ws. aw_node_ids w \<noteq> [] \<and> aw_name w = n then target else frozen_commit f0 n)"
    using assms(1) unfolding commits_as_def by blast
  ultimately show ?thesis by (simp only: if_False)
qed

lemma frozen_step_ok:
  assumes "canary_ok p target f0 ws s" "aw_name w \<notin> aw_name ` set ws"
    and "cw_halted_at s \<noteq> None \<or> cw_rollback s \<noteq> None"
  shows "canary_ok p target f0 (ws @ [w]) (push_step w (length (aw_node_ids w))
    (SFrozen (frozen_commit (cw_fleet s) (aw_name w))) NotAnalyzed s)"
proof -
  obtain h ds a where h: "h < length ws"
    "stop_report f0 (ws ! h) h ds a (cw_halted_at s) (cw_rollback s)"
    "cw_steps s = map (reached_step target) (take h ws) @
       halted_step f0 (ws ! h) ds # map (frozen_step f0) (drop (Suc h) ws)"
    "cw_analyses s = map reached_analysis (take h ws) @ a # map (\<lambda>_. NotAnalyzed) (drop (Suc h) ws)"
    "cw_gates s = gated p (take h ws)" "commits_as target f0 (take h ws) (cw_fleet s)"
    using assms(1,3) unfolding canary_ok_def by metis
  have "aw_name w \<notin> aw_name ` set (take h ws)"
    using assms(2) by (meson image_mono in_mono set_take_subset)
  then have fz: "frozen_commit (cw_fleet s) (aw_name w) = frozen_commit f0 (aw_name w)"
    by (rule commits_as_fresh [OF h(6)])
  show ?thesis
    unfolding canary_ok_def
    by (intro conjI disjI2 exI [of _ h] exI [of _ ds] exI [of _ a])
      (use h assms(1) fz in \<open>auto simp: push_step_def nth_append frozen_step_def canary_ok_def\<close>)
qed

lemma fail_wave_ok:
  assumes ok: "canary_ok p target f0 ws s" "cw_halted_at s = None" "cw_rollback s = None"
    and fresh: "aw_name w \<notin> aw_name ` set ws"
    and frame: "fleet_frame (cw_fleet s) f"
  shows "canary_ok p target f0 (ws @ [w]) (fail_wave X w (length (aw_node_ids w))
    (frozen_commit f (aw_name w)) br (s\<lparr>cw_fleet := f, cw_telemetry := tb\<rparr>))"
proof -
  have reached: "cw_steps s = map (reached_step target) ws" "cw_analyses s = map reached_analysis ws"
    "cw_gates s = gated p ws" "commits_as target f0 ws (cw_fleet s)"
    "fl_waves_in_flight (cw_fleet s) = fl_waves_in_flight f0"
    "fl_applied (cw_fleet s) = fl_applied f0" "fl_desired (cw_fleet s) = fl_desired f0"
    using ok by (auto simp: canary_ok_def stop_report_def)
  have commits: "commits_as target f0 ws f" using commits_as_frame [OF frame reached(4)] .
  then have fz: "frozen_commit f (aw_name w) = frozen_commit f0 (aw_name w)"
    using fresh by (rule commits_as_fresh)
  obtain c g where rb: "rollback_wave (aw_name w) (aw_node_ids w) (frozen_commit f (aw_name w))
      (ce_prior_render X) f = (c, g)" by fastforce
  note r = commits_as_rollback [OF commits rb]
  show ?thesis
    unfolding canary_ok_def
    by (intro conjI disjI2 exI [of _ "length ws"] exI [of _ "[]"]
        exI [of _ "case br of Some b \<Rightarrow> Failed b | None \<Rightarrow> NoTelemetry"])
      (use r rb reached ok(2) fz frame in
        \<open>auto simp: fail_wave_def push_step_def stop_report_def halted_step_def fleet_frame_def\<close>)
qed

lemma canary_step_ok:
  assumes ok: "canary_ok p target f0 ws s" and fresh: "aw_name w \<notin> aw_name ` set ws"
    and step: "canary_step X p target assigned (length ws, w) s = Some s'"
  shows "canary_ok p target f0 (ws @ [w]) s'"
proof (cases "cw_halted_at s \<noteq> None \<or> cw_rollback s \<noteq> None")
  case True
  then show ?thesis using frozen_step_ok [OF ok fresh True] step by (simp add: canary_step_def)
next
  case False
  then have none: "cw_halted_at s = None" "cw_rollback s = None" by auto
  then have reached: "cw_steps s = map (reached_step target) ws" "cw_analyses s = map reached_analysis ws"
    "cw_gates s = gated p ws" "commits_as target f0 ws (cw_fleet s)"
    "fl_waves_in_flight (cw_fleet s) = fl_waves_in_flight f0"
    "fl_applied (cw_fleet s) = fl_applied f0" "fl_desired (cw_fleet s) = fl_desired f0"
    using ok by (auto simp: canary_ok_def stop_report_def)
  show ?thesis
  proof (cases "aw_node_ids w = []")
    case True
    then show ?thesis
      using step none reached
      by (auto simp: canary_step_def canary_ok_def push_step_def reached_step_def
          reached_analysis_def gated_def commits_as_def)
  next
    case nonempty: False
    obtain o' f where run: "run_wave_nodes (ce_render X) (ce_lookup X) (ce_answers X (aw_name w))
        (aw_node_ids w) (cw_fleet s) = (o', f)" by fastforce
    note r = run_wave_nodes_result [OF run nonempty]
    have commits: "commits_as target f0 ws f" using commits_as_frame [OF _ reached(4)] r by blast
    then have fz: "frozen_commit f (aw_name w) = frozen_commit f0 (aw_name w)"
      using fresh by (rule commits_as_fresh)
    from r consider (halted) h ds where "o' = WHalted h ds" "ds \<noteq> []"
      | (committed) h where "o' = WCommitted h (length (aw_node_ids w))" by blast
    then show ?thesis
    proof cases
      case halted
      have s': "s' = (push_step w (length (aw_node_ids w))
          (SHalted (frozen_commit f (aw_name w)) ds) NotAnalyzed s)
          \<lparr>cw_fleet := f, cw_halted_at := Some (length ws)\<rparr>"
        using step none nonempty run halted by (simp add: canary_step_def)
      show ?thesis
        unfolding canary_ok_def s'
        by (intro conjI disjI2 exI [of _ "length ws"] exI [of _ ds] exI [of _ NotAnalyzed])
          (use r reached none halted(2) fz commits in
            \<open>auto simp: push_step_def stop_report_def halted_step_def fleet_frame_def\<close>)
    next
      case committed
      obtain v tb where a: "analyze_wave (ce_reports X (aw_name w)) p (aw_node_ids w)
          (baseline_ids assigned (length ws)) (ce_window_override X) (cw_telemetry s) = (v, tb)"
        by (metis surj_pair)
      let ?s1 = "s\<lparr>cw_fleet := f, cw_telemetry := tb\<rparr>"
      consider "v = Pass" | br where "s' = fail_wave X w (length (aw_node_ids w))
          (frozen_commit f (aw_name w)) br ?s1"
        using step none nonempty run committed a
        by (cases v) (auto simp: canary_step_def Let_def)
      then show ?thesis
      proof cases
        case 1
        have "pass_gate X p w ((push_step w (length (aw_node_ids w)) (SAdvanced target) Passed ?s1)
            \<lparr>cw_fleet := set_wave_commit (aw_name w) target f\<rparr>) = Some s'"
          using step none nonempty run committed a 1 by (simp add: canary_step_def Let_def)
        then have s': "s' = (push_step w (length (aw_node_ids w)) (SAdvanced target) Passed ?s1)
            \<lparr>cw_fleet := set_wave_commit (aw_name w) target f,
             cw_gates := cw_gates s @ (if gates_after p (aw_name w) then [aw_name w] else [])\<rparr>"
          by (auto simp: pass_gate_def push_step_def split: if_splits option.splits)
        show ?thesis
          using commits_as_advance [OF commits nonempty] none reached r nonempty
          by (auto simp: s' canary_ok_def push_step_def reached_step_def reached_analysis_def
              gated_def set_wave_commit_def fleet_frame_def)
      next
        case 2
        then show ?thesis using fail_wave_ok [OF ok none fresh, of f] r by simp
      qed
    qed
  qed
qed

lemma canary_walk_ok:
  "canary_ok p target f0 ws s \<Longrightarrow> distinct (map aw_name (ws @ vs)) \<Longrightarrow>
   canary_walk_from X p target assigned (enumerate (length ws) vs) s = Some s' \<Longrightarrow>
   canary_ok p target f0 (ws @ vs) s'"
proof (induction vs arbitrary: ws s)
  case Nil
  then show ?case by simp
next
  case (Cons v vs)
  obtain s1 where s1: "canary_step X p target assigned (length ws, v) s = Some s1"
    "canary_walk_from X p target assigned (enumerate (length (ws @ [v])) vs) s1 = Some s'"
    using Cons.prems(3) by (auto simp: bind_eq_Some_conv)
  have "canary_ok p target f0 (ws @ [v]) s1"
    using canary_step_ok [OF Cons.prems(1) _ s1(1)] Cons.prems(2) by auto
  from Cons.IH [OF this _ s1(2)] Cons.prems(2) show ?case by simp
qed

lemma canary_run_ok:
  assumes "cp_enabled (fl_canary f)" "bt_wf (fl_wave_commit f)"
    and "distinct (map aw_name (assign (fleet_wave_plan f) nodes))"
    and run: "roll_out_plan_canary X nodes (f, tb) = Some (c, f', tb')"
  shows "\<exists>s. canary_ok (fl_canary f) (rn_source_commit (fl_applied f)) (begin_wave f)
      (assign (fleet_wave_plan f) nodes) s \<and> f' = drop_guard (cw_fleet s) \<and>
    mo_steps (co_multi c) = cw_steps s \<and> mo_halted_at (co_multi c) = cw_halted_at s \<and>
    co_analyses c = cw_analyses s \<and> co_rollback c = cw_rollback s \<and> co_gates_released c = cw_gates s"
proof -
  let ?ws = "assign (fleet_wave_plan f) nodes" and ?target = "rn_source_commit (fl_applied f)"
  let ?s0 = "\<lparr>cw_steps = [], cw_analyses = [], cw_halted_at = None, cw_rollback = None,
      cw_gates = [], cw_fleet = begin_wave f, cw_telemetry = tb\<rparr>"
  have same: "fleet_wave_plan (begin_wave f) = fleet_wave_plan f"
    "fl_applied (begin_wave f) = fl_applied f" "fl_wave_commit (begin_wave f) = fl_wave_commit f"
    by (simp_all add: begin_wave_def fleet_wave_plan_def)
  obtain s where s: "canary_walk_from X (fl_canary f) ?target ?ws (enumerate 0 ?ws) ?s0 = Some s"
    "f' = drop_guard (cw_fleet s)" "mo_steps (co_multi c) = cw_steps s"
    "mo_halted_at (co_multi c) = cw_halted_at s" "co_analyses c = cw_analyses s"
    "co_rollback c = cw_rollback s" "co_gates_released c = cw_gates s"
    using run assms(1) by (auto simp: roll_out_plan_canary_def Let_def same)
  have "canary_ok (fl_canary f) ?target (begin_wave f) [] ?s0"
    using assms(2) by (simp add: canary_ok_def gated_def commits_as_def same)
  from canary_walk_ok [OF this, of ?ws X ?ws s] assms(3) s(1)
  have "canary_ok (fl_canary f) ?target (begin_wave f) ?ws s" by simp
  with s(2-7) show ?thesis by blast
qed

text \<open>Property C21.  The canary rollout fails closed: with analysis enabled, when the walk over
  waves of different names returns, there is a wave \<open>h\<close> (or the end) such that every non-empty
  wave before it advanced with a passed analysis and, where gated, with its approval; wave \<open>h\<close>
  is reported halted on its prior commit, either because nodes diverged or because the
  analysis failed or saw no telemetry, and then the rollback names that wave and that prior
  commit; every later wave is frozen and not analysed.  The commit the fleet reports is the
  target for exactly the non-empty waves before \<open>h\<close> and the prior one everywhere else.\<close>

theorem canary_rollout_fails_closed:
  assumes "cp_enabled (fl_canary f)" "bt_wf (fl_wave_commit f)"
    and "distinct (map aw_name (assign (fleet_wave_plan f) nodes))"
    and "roll_out_plan_canary X nodes (f, tb) = Some (c, f', tb')"
  shows "let ws = assign (fleet_wave_plan f) nodes; target = rn_source_commit (fl_applied f) in
    \<exists>h ds a. h \<le> length ws \<and>
      mo_steps (co_multi c) = map (reached_step target) (take h ws) @
        (if h = length ws then []
         else halted_step f (ws ! h) ds # map (frozen_step f) (drop (Suc h) ws)) \<and>
      co_analyses c = map reached_analysis (take h ws) @
        (if h = length ws then [] else a # map (\<lambda>_. NotAnalyzed) (drop (Suc h) ws)) \<and>
      (if h = length ws then mo_halted_at (co_multi c) = None \<and> co_rollback c = None
       else stop_report f (ws ! h) h ds a (mo_halted_at (co_multi c)) (co_rollback c)) \<and>
      co_gates_released c = gated (fl_canary f) (take h ws) \<and>
      (\<forall>n. frozen_commit f' n =
         (if \<exists>w \<in> set (take h ws). aw_node_ids w \<noteq> [] \<and> aw_name w = n then target
          else frozen_commit f n))"
proof -
  let ?ws = "assign (fleet_wave_plan f) nodes" and ?target = "rn_source_commit (fl_applied f)"
  obtain s where s: "canary_ok (fl_canary f) ?target (begin_wave f) ?ws s" "f' = drop_guard (cw_fleet s)"
    "mo_steps (co_multi c) = cw_steps s" "mo_halted_at (co_multi c) = cw_halted_at s"
    "co_analyses c = cw_analyses s" "co_rollback c = cw_rollback s" "co_gates_released c = cw_gates s"
    using canary_run_ok [OF assms] by blast
  have same: "frozen_commit (begin_wave f) = frozen_commit f" "frozen_step (begin_wave f) = frozen_step f"
    "halted_step (begin_wave f) = halted_step f" "stop_report (begin_wave f) = stop_report f"
    "frozen_commit f' = frozen_commit (cw_fleet s)"
    by (simp_all add: begin_wave_def s(2) drop_guard_def fun_eq_iff stop_report_def)
  from s(1) consider "cw_halted_at s = None" "cw_rollback s = None"
      "cw_steps s = map (reached_step ?target) ?ws" "cw_analyses s = map reached_analysis ?ws"
      "cw_gates s = gated (fl_canary f) ?ws" "commits_as ?target (begin_wave f) ?ws (cw_fleet s)"
    | h ds a where "h < length ?ws"
      "stop_report (begin_wave f) (?ws ! h) h ds a (cw_halted_at s) (cw_rollback s)"
      "cw_steps s = map (reached_step ?target) (take h ?ws) @
         halted_step (begin_wave f) (?ws ! h) ds # map (frozen_step (begin_wave f)) (drop (Suc h) ?ws)"
      "cw_analyses s = map reached_analysis (take h ?ws) @ a # map (\<lambda>_. NotAnalyzed) (drop (Suc h) ?ws)"
      "cw_gates s = gated (fl_canary f) (take h ?ws)"
      "commits_as ?target (begin_wave f) (take h ?ws) (cw_fleet s)"
    unfolding canary_ok_def by metis
  then show ?thesis
  proof cases
    case 1
    have C: "\<forall>n. frozen_commit (cw_fleet s) n =
        (if \<exists>w \<in> set (take (length ?ws) ?ws). aw_node_ids w \<noteq> [] \<and> aw_name w = n then ?target
         else frozen_commit f n)"
      using 1(6) unfolding commits_as_def same by simp
    show ?thesis
      unfolding Let_def same s(3-7)
      by (rule exI [of _ "length ?ws"]) (intro exI conjI C, simp_all add: 1)
  next
    case 2
    have C: "\<forall>n. frozen_commit (cw_fleet s) n =
        (if \<exists>w \<in> set (take h ?ws). aw_node_ids w \<noteq> [] \<and> aw_name w = n then ?target
         else frozen_commit f n)"
      using 2(6) unfolding commits_as_def same by blast
    show ?thesis
      unfolding Let_def same s(3-7)
      by (rule exI [of _ h], rule exI [of _ ds], rule exI [of _ a]) (intro conjI C, use 2 same in simp_all)
  qed
qed

section \<open>When it returns\<close>

lemma canary_step_returns:
  assumes "\<And>w. gates_after p w \<Longrightarrow> \<exists>k. ce_approved X w k"
  shows "\<exists>s'. canary_step X p target assigned iw s = Some s'"
proof -
  have "\<exists>s'. pass_gate X p w t = Some s'" for w t
  proof (cases "gates_after p (aw_name w)")
    case True
    then obtain k where "ce_approved X (aw_name w) k" using assms by blast
    then obtain m where "await_gate (ce_approved X (aw_name w)) 0 = Some m"
      using await_gate_returns [of 0 k] by blast
    then show ?thesis by (simp add: pass_gate_def True)
  qed (simp add: pass_gate_def)
  then show ?thesis
    by (auto simp: canary_step_def Let_def split: prod.splits wave_outcome.splits analysis.splits)
qed

lemma canary_walk_returns:
  assumes "\<And>w. gates_after p w \<Longrightarrow> \<exists>k. ce_approved X w k"
  shows "\<exists>s'. canary_walk_from X p target assigned iws s = Some s'"
proof (induction iws arbitrary: s)
  case Nil
  then show ?case by simp
next
  case (Cons iw iws)
  obtain s1 where "canary_step X p target assigned iw s = Some s1"
    using canary_step_returns [OF assms] by blast
  then show ?case using Cons.IH by simp
qed

text \<open>When every push of the walk has an answer, that is when no send to a node waits for ever, a
  canary rollout returns whenever every approval its policy asks for is committed at some point, and
  waiting ends at the very first poll that sees the approval.  A send to a stream that is not read
  has no answer at all: \<open>unread_stream_stops_control_plane\<close>.\<close>

theorem canary_rollout_returns:
  assumes "\<And>w. gates_after (fl_canary f) w \<Longrightarrow> \<exists>k. ce_approved X w k"
  shows "(\<exists>r. roll_out_plan_canary X nodes (f, tb) = Some r) \<and>
    (\<forall>w n. await_gate (ce_approved X w) 0 = Some n \<longrightarrow>
       ce_approved X w n \<and> (\<forall>j < n. \<not> ce_approved X w j))"
proof
  show "\<exists>r. roll_out_plan_canary X nodes (f, tb) = Some r"
  proof (cases "cp_enabled (fl_canary f)")
    case True
    let ?ws = "assign (fleet_wave_plan (begin_wave f)) nodes"
    have "\<exists>s'. canary_walk_from X (fl_canary f) (rn_source_commit (fl_applied (begin_wave f))) ?ws
        (enumerate 0 ?ws) \<lparr>cw_steps = [], cw_analyses = [], cw_halted_at = None, cw_rollback = None,
          cw_gates = [], cw_fleet = begin_wave f, cw_telemetry = tb\<rparr> = Some s'"
      by (rule canary_walk_returns) (rule assms)
    then show ?thesis using True by (auto simp: roll_out_plan_canary_def Let_def)
  next
    case False
    then show ?thesis by (simp add: roll_out_plan_canary_def Let_def split: prod.splits)
  qed
  show "\<forall>w n. await_gate (ce_approved X w) 0 = Some n \<longrightarrow>
      ce_approved X w n \<and> (\<forall>j < n. \<not> ce_approved X w j)"
    by (auto dest: await_gate_found)
qed

definition example_canary_env :: canary_env where
  "example_canary_env = \<lparr>ce_render = example_env, ce_lookup = (\<lambda>_. None),
     ce_answers = (\<lambda>_ _. Acked ''h''), ce_reports = (\<lambda>_ tb. tb), ce_approved = (\<lambda>_ k. 2 \<le> k),
     ce_window_override = Some 0, ce_prior_render = None\<rparr>"

definition canary_fleet :: fleet where
  "canary_fleet = example_fleet\<lparr>fl_canary := default_policy\<lparr>cp_enabled := True,
     cp_manual_gate_after := [''a'']\<rparr>\<rparr>"

lemma example_approved: "\<exists>k. ce_approved example_canary_env w k"
  by (rule exI [of _ 2]) (simp add: example_canary_env_def)

theorem canary_rollout_returns_witness:
  "\<exists>r. roll_out_plan_canary example_canary_env [(''n1'', [])] (canary_fleet, [], fb_new) = Some r"
  using canary_rollout_returns [of canary_fleet example_canary_env, OF example_approved] by blast

theorem canary_rollout_fails_closed_witness:
  "\<exists>c st. roll_out_plan_canary example_canary_env [(''n1'', [])] (canary_fleet, [], fb_new) = Some (c, st) \<and>
     length (mo_steps (co_multi c)) = length (assign example_plan [(''n1'', [])])"
proof -
  have plan: "fleet_wave_plan canary_fleet = example_plan"
    by (simp add: canary_fleet_def example_fleet_def from_source_def fleet_wave_plan_def)
  have on: "cp_enabled (fl_canary canary_fleet)" and wf: "bt_wf (fl_wave_commit canary_fleet)"
    by (simp_all add: canary_fleet_def example_fleet_def from_source_def fleet_new_def)
  let ?ws = "assign (fleet_wave_plan (begin_wave canary_fleet)) [(''n1'', [])]"
  have "\<exists>s'. canary_walk_from example_canary_env (fl_canary canary_fleet)
      (rn_source_commit (fl_applied (begin_wave canary_fleet))) ?ws (enumerate 0 ?ws)
      \<lparr>cw_steps = [], cw_analyses = [], cw_halted_at = None, cw_rollback = None, cw_gates = [],
       cw_fleet = begin_wave canary_fleet, cw_telemetry = ([], fb_new)\<rparr> = Some s'"
    by (rule canary_walk_returns) (rule example_approved)
  then have "\<exists>r. roll_out_plan_canary example_canary_env [(''n1'', [])] (canary_fleet, [], fb_new) = Some r"
    using on by (auto simp: roll_out_plan_canary_def Let_def)
  then obtain c f' tb' where run: "roll_out_plan_canary example_canary_env [(''n1'', [])]
      (canary_fleet, [], fb_new) = Some (c, f', tb')"
    by (metis surj_pair)
  have "distinct (map aw_name (assign (fleet_wave_plan canary_fleet) [(''n1'', [])]))"
    unfolding plan by (rule example_assign_distinct)
  from canary_rollout_fails_closed [OF on wf this run] obtain h ds where
    "h \<le> length (assign example_plan [(''n1'', [])])"
    "mo_steps (co_multi c) = map (reached_step (rn_source_commit (fl_applied canary_fleet)))
        (take h (assign example_plan [(''n1'', [])])) @
      (if h = length (assign example_plan [(''n1'', [])]) then []
       else halted_step canary_fleet (assign example_plan [(''n1'', [])] ! h) ds #
         map (frozen_step canary_fleet) (drop (Suc h) (assign example_plan [(''n1'', [])])))"
    unfolding plan Let_def by blast
  then have "length (mo_steps (co_multi c)) = length (assign example_plan [(''n1'', [])])"
    by (auto split: if_splits)
  then show ?thesis using run by blast
qed

end
