(* ===== verification/Store.thy ===== *)
theory Store
  imports OrdMap Waves
begin

text \<open>
  \<open>gatewayctl/src/store.rs\<close>: what the control plane last heard from each node.  The clock
  reading \<open>now_unix()\<close> of an operation is its argument \<open>now\<close>.  The locale \<open>observer\<close> is the
  contract of the operations that record an event of one node; each of them interprets it.
\<close>

record node_state =
  ns_node_id :: string
  ns_labels :: labels
  ns_last_acked_version :: "u64 option"
  ns_last_acked_hash :: "string option"
  ns_last_nack :: "(u64 \<times> string) option"
  ns_consecutive_nacks :: u32
  ns_observed_hash :: "string option"
  ns_health :: "string option"
  ns_last_seen :: u64
  ns_connected :: bool
  ns_break_glass_until :: "u64 option"

type_synonym runtime_store = "(string, node_state) btree"

definition ns_new :: "string \<Rightarrow> labels \<Rightarrow> u64 \<Rightarrow> node_state" where
  "ns_new node labels now = \<lparr>ns_node_id = node, ns_labels = labels, ns_last_acked_version = None,
     ns_last_acked_hash = None, ns_last_nack = None, ns_consecutive_nacks = 0,
     ns_observed_hash = None, ns_health = None, ns_last_seen = now, ns_connected = True,
     ns_break_glass_until = None\<rparr>"

definition break_glass_active :: "node_state \<Rightarrow> u64 \<Rightarrow> bool" where
  "break_glass_active n now =
     (case ns_break_glass_until n of Some until \<Rightarrow> now < until | None \<Rightarrow> False)"

definition sat_add_u32 :: "u32 \<Rightarrow> u32 \<Rightarrow> u32" where
  "sat_add_u32 a b = (if unat a + unat b < 2 ^ 32 then a + b else - 1)"

text \<open>\<open>get_mut\<close>: change the entry of a node when there is one.\<close>

definition modify_node :: "(node_state \<Rightarrow> node_state) \<Rightarrow> string \<Rightarrow> runtime_store \<Rightarrow> runtime_store" where
  "modify_node g node s = (case bt_get s node of Some n \<Rightarrow> bt_insert node (g n) s | None \<Rightarrow> s)"

definition st_connect :: "string \<Rightarrow> labels \<Rightarrow> u64 \<Rightarrow> runtime_store \<Rightarrow> runtime_store" where
  "st_connect node labels now s =
     (case bt_get s node of
        Some n \<Rightarrow> bt_insert node (n\<lparr>ns_labels := labels, ns_connected := True, ns_last_seen := now\<rparr>) s
      | None \<Rightarrow> bt_insert node (ns_new node labels now) s)"

definition st_disconnect :: "string \<Rightarrow> u64 \<Rightarrow> runtime_store \<Rightarrow> runtime_store" where
  "st_disconnect node now = modify_node (\<lambda>n. n\<lparr>ns_connected := False, ns_last_seen := now\<rparr>) node"

definition record_ack :: "string \<Rightarrow> u64 \<Rightarrow> string \<Rightarrow> u64 \<Rightarrow> runtime_store \<Rightarrow> runtime_store" where
  "record_ack node version hash now =
     modify_node (\<lambda>n. n\<lparr>ns_last_acked_version := Some version, ns_last_acked_hash := Some hash,
       ns_last_nack := None, ns_consecutive_nacks := 0, ns_last_seen := now\<rparr>) node"

definition record_nack :: "string \<Rightarrow> u64 \<Rightarrow> string \<Rightarrow> u64 \<Rightarrow> runtime_store \<Rightarrow> runtime_store" where
  "record_nack node version reason now =
     modify_node (\<lambda>n. n\<lparr>ns_last_nack := Some (version, reason),
       ns_consecutive_nacks := sat_add_u32 (ns_consecutive_nacks n) 1, ns_last_seen := now\<rparr>) node"

definition set_break_glass ::
  "string \<Rightarrow> u64 \<Rightarrow> u64 \<Rightarrow> runtime_store \<Rightarrow> u64 option \<times> runtime_store"
where
  "set_break_glass node ttl now s =
     (let until = sat_add now ttl in
      case bt_get s node of
        None \<Rightarrow> (None, s)
      | Some n \<Rightarrow> (Some until, bt_insert node (n\<lparr>ns_break_glass_until := Some until\<rparr>) s))"

definition clear_break_glass :: "string \<Rightarrow> runtime_store \<Rightarrow> runtime_store" where
  "clear_break_glass node = modify_node (\<lambda>n. n\<lparr>ns_break_glass_until := None\<rparr>) node"

definition record_status :: "string \<Rightarrow> string \<Rightarrow> string \<Rightarrow> u64 \<Rightarrow> runtime_store \<Rightarrow> runtime_store" where
  "record_status node observed health now =
     modify_node (\<lambda>n. n\<lparr>ns_observed_hash := Some observed, ns_health := Some health,
       ns_last_seen := now\<rparr>) node"

definition st_get :: "runtime_store \<Rightarrow> string \<Rightarrow> node_state option" where
  "st_get s node = bt_get s node"

definition st_all :: "runtime_store \<Rightarrow> node_state list" where
  "st_all s = bt_values s"

definition connected_ids :: "runtime_store \<Rightarrow> string list" where
  "connected_ids s = map ns_node_id (filter ns_connected (bt_values s))"

section \<open>The contract of an event of one node\<close>

definition st_wf :: "runtime_store \<Rightarrow> bool" where
  "st_wf s \<longleftrightarrow> bt_wf s \<and> (\<forall>node n. bt_get s node = Some n \<longrightarrow> ns_node_id n = node)"

locale observer =
  fixes event :: "string \<Rightarrow> runtime_store \<Rightarrow> runtime_store"
  assumes wf: "st_wf s \<Longrightarrow> st_wf (event node s)"
    and other: "st_wf s \<Longrightarrow> n \<noteq> node \<Longrightarrow> st_get (event node s) n = st_get s n"
    and known: "st_wf s \<Longrightarrow> st_get s node \<noteq> None \<Longrightarrow> st_get (event node s) node \<noteq> None"
begin

lemma many_wf: "st_wf s \<Longrightarrow> st_wf (fold event nodes s)"
  by (induction nodes arbitrary: s) (auto intro: wf)

lemma many_other: "st_wf s \<Longrightarrow> n \<notin> set nodes \<Longrightarrow> st_get (fold event nodes s) n = st_get s n"
  by (induction nodes arbitrary: s) (auto simp: other wf)

lemma many_known:
  "st_wf s \<Longrightarrow> st_get s n \<noteq> None \<Longrightarrow> st_get (fold event nodes s) n \<noteq> None"
proof (induction nodes arbitrary: s)
  case Nil
  then show ?case by simp
next
  case (Cons m nodes)
  have "st_get (event m s) n \<noteq> None"
    using Cons.prems by (cases "n = m") (auto simp: other dest: known)
  then show ?case using Cons.IH [of "event m s"] Cons.prems by (simp add: wf)
qed

end

lemma modify_node_observer:
  assumes "\<And>n. ns_node_id (g n) = ns_node_id n"
  shows "observer (modify_node g)"
proof
  fix s node n
  assume wf: "st_wf s"
  show "st_wf (modify_node g node s)"
    using wf assms by (auto simp: st_wf_def modify_node_def bt.get_insert bt_wf_insert split: option.splits)
  show "n \<noteq> node \<Longrightarrow> st_get (modify_node g node s) n = st_get s n"
    using wf by (auto simp: st_wf_def st_get_def modify_node_def bt.get_insert split: option.splits)
  show "st_get s node \<noteq> None \<Longrightarrow> st_get (modify_node g node s) node \<noteq> None"
    using wf by (auto simp: st_wf_def st_get_def modify_node_def bt.get_insert split: option.splits)
qed

interpretation ack_event: observer "\<lambda>node. record_ack node version hash now"
  unfolding record_ack_def by (rule modify_node_observer) simp

interpretation nack_event: observer "\<lambda>node. record_nack node version reason now"
  unfolding record_nack_def by (rule modify_node_observer) simp

interpretation status_event: observer "\<lambda>node. record_status node observed health now"
  unfolding record_status_def by (rule modify_node_observer) simp

interpretation disconnect_event: observer "\<lambda>node. st_disconnect node now"
  unfolding st_disconnect_def by (rule modify_node_observer) simp

interpretation connect_event: observer "\<lambda>node. st_connect node labels now"
proof
  fix s node n
  assume wf: "st_wf s"
  show "st_wf (st_connect node labels now s)"
    using wf by (auto simp: st_wf_def st_connect_def ns_new_def bt.get_insert bt_wf_insert
        split: option.splits)
  show "n \<noteq> node \<Longrightarrow> st_get (st_connect node labels now s) n = st_get s n"
    using wf by (auto simp: st_wf_def st_get_def st_connect_def bt.get_insert split: option.splits)
  show "st_get s node \<noteq> None \<Longrightarrow> st_get (st_connect node labels now s) node \<noteq> None"
    using wf by (auto simp: st_wf_def st_get_def st_connect_def bt.get_insert split: option.splits)
qed

text \<open>Reconnecting keeps the history of a node.\<close>

lemma reconnect_keeps_history:
  assumes "st_wf s" "st_get s node = Some n"
  shows "st_get (st_connect node labels now2 (st_disconnect node now1 s)) node =
    Some (n\<lparr>ns_labels := labels, ns_connected := True, ns_last_seen := now2\<rparr>)"
  using assms
  by (simp add: st_wf_def st_get_def st_connect_def st_disconnect_def modify_node_def
      bt.get_insert bt_wf_insert)

lemma record_ack_node:
  "st_wf s \<Longrightarrow> st_get s node = Some n \<Longrightarrow>
   st_get (record_ack node v h now s) node =
     Some (n\<lparr>ns_last_acked_version := Some v, ns_last_acked_hash := Some h,
             ns_last_nack := None, ns_consecutive_nacks := 0, ns_last_seen := now\<rparr>)"
  by (simp add: st_wf_def st_get_def record_ack_def modify_node_def bt.get_insert)

lemma record_nack_node:
  "st_wf s \<Longrightarrow> st_get s node = Some n \<Longrightarrow>
   st_get (record_nack node v r now s) node =
     Some (n\<lparr>ns_last_nack := Some (v, r),
             ns_consecutive_nacks := sat_add_u32 (ns_consecutive_nacks n) 1, ns_last_seen := now\<rparr>)"
  by (simp add: st_wf_def st_get_def record_nack_def modify_node_def bt.get_insert)

end
