(* ===== verification/Reconcile.thy ===== *)
theory Reconcile
  imports CanaryRollout Store
begin

text \<open>
  \<open>gatewayctl/src/reconcile.rs\<close>: the classification of a node and one tick of the
  reconciler over the connected nodes.  The store is read at every node; a node's answer to
  a heal push is recorded by another task, so a tick reads the store it started with (each
  node is visited once).  Lemmas: the truth table, what a tick leaves alone, and which nodes
  a tick pushes to after a rollback.
\<close>

definition PERSISTENT_NACK_THRESHOLD :: u32 where
  "PERSISTENT_NACK_THRESHOLD = 3"

datatype drift_case =
    InSync
  | DeliveryStale
  | NodeDrifted
  | BreakGlassTolerated u64
  | PersistentlyDivergent u32
  | ObservedUnknown

definition heals_by_repush :: "drift_case \<Rightarrow> bool" where
  "heals_by_repush c \<longleftrightarrow> c = DeliveryStale \<or> c = NodeDrifted"

definition classify :: "node_state \<Rightarrow> string \<Rightarrow> u64 \<Rightarrow> drift_case" where
  "classify node desired now =
     (if break_glass_active node now
      then BreakGlassTolerated (unwrap_or (ns_break_glass_until node) now)
      else if PERSISTENT_NACK_THRESHOLD \<le> ns_consecutive_nacks node
      then PersistentlyDivergent (ns_consecutive_nacks node)
      else
        (case ns_last_acked_hash node of
           None \<Rightarrow> DeliveryStale
         | Some d \<Rightarrow>
             if d \<noteq> desired then DeliveryStale
             else
               (case ns_observed_hash node of
                  None \<Rightarrow> ObservedUnknown
                | Some o' \<Rightarrow> if o' = desired then InSync else NodeDrifted)))"

record tick_report =
  tr_in_sync :: nat
  tr_healed :: nat
  tr_break_glass_tolerated :: nat
  tr_persistently_divergent :: nat
  tr_observed_unknown :: nat
  tr_delivery_stale :: nat
  tr_mid_rollout_deferred :: nat
  tr_pending_later_wave :: nat

definition empty_report :: tick_report where
  "empty_report = \<lparr>tr_in_sync = 0, tr_healed = 0, tr_break_glass_tolerated = 0,
     tr_persistently_divergent = 0, tr_observed_unknown = 0, tr_delivery_stale = 0,
     tr_mid_rollout_deferred = 0, tr_pending_later_wave = 0\<rparr>"

definition fold_delivered :: "fleet \<Rightarrow> string \<Rightarrow> node_state \<Rightarrow> node_state" where
  "fold_delivered f node n =
     (case delivered_hash node f of
        Some d \<Rightarrow> if ns_last_acked_hash n = None then n\<lparr>ns_last_acked_hash := Some d\<rparr> else n
      | None \<Rightarrow> n)"

definition act ::
  "render_env \<Rightarrow> (string \<Rightarrow> labels option) \<Rightarrow> (string \<Rightarrow> ack_result) \<Rightarrow> string \<Rightarrow> drift_case \<Rightarrow>
   tick_report \<times> fleet \<Rightarrow> tick_report \<times> fleet"
where
  "act E lookup answer node c s =
     (case s of (rep, f) \<Rightarrow>
        (case c of
           InSync \<Rightarrow> (rep\<lparr>tr_in_sync := tr_in_sync rep + 1\<rparr>, f)
         | ObservedUnknown \<Rightarrow> (rep\<lparr>tr_observed_unknown := tr_observed_unknown rep + 1\<rparr>, f)
         | BreakGlassTolerated _ \<Rightarrow>
             (rep\<lparr>tr_break_glass_tolerated := tr_break_glass_tolerated rep + 1\<rparr>, f)
         | PersistentlyDivergent _ \<Rightarrow>
             (rep\<lparr>tr_persistently_divergent := tr_persistently_divergent rep + 1\<rparr>, f)
         | _ \<Rightarrow>
             (case heal_node E lookup answer node f of
                (healed, f1) \<Rightarrow>
                  (if healed
                   then rep\<lparr>tr_healed := tr_healed rep + 1,
                            tr_delivery_stale := (if c = DeliveryStale then tr_delivery_stale rep + 1
                                                  else tr_delivery_stale rep)\<rparr>
                   else rep, f1))))"

definition tick_node ::
  "render_env \<Rightarrow> runtime_store \<Rightarrow> (string \<Rightarrow> ack_result) \<Rightarrow> u64 \<Rightarrow> string \<Rightarrow>
   tick_report \<times> fleet \<Rightarrow> tick_report \<times> fleet"
where
  "tick_node E st answer now node s =
     (case st_get st node of
        None \<Rightarrow> s
      | Some n \<Rightarrow>
          (case s of (rep, f) \<Rightarrow>
             let (r, f1) = desired_for E (ns_labels n) f;
                 c = classify (fold_delivered f1 node n) (rn_render_hash r) now
             in if heals_by_repush c \<and> wave_in_flight f1
                then (rep\<lparr>tr_mid_rollout_deferred := tr_mid_rollout_deferred rep + 1\<rparr>, f1)
                else if heals_by_repush c \<and> node_pending_in_unapplied_wave (ns_labels n) f1
                then (rep\<lparr>tr_pending_later_wave := tr_pending_later_wave rep + 1\<rparr>, f1)
                else act E (\<lambda>m. map_option ns_labels (st_get st m)) answer node c (rep, f1)))"

definition tick ::
  "render_env \<Rightarrow> runtime_store \<Rightarrow> (string \<Rightarrow> ack_result) \<Rightarrow> u64 \<Rightarrow> fleet \<Rightarrow> tick_report \<times> fleet"
where
  "tick E st answer now f = fold (tick_node E st answer now) (connected_ids st) (empty_report, f)"

section \<open>The truth table\<close>

lemma classify_heals:
  "heals_by_repush (classify n desired now) \<longleftrightarrow>
     \<not> break_glass_active n now \<and> ns_consecutive_nacks n < 3 \<and>
     (ns_last_acked_hash n \<noteq> Some desired \<or>
      (\<exists>x. ns_observed_hash n = Some x \<and> x \<noteq> desired))"
  by (auto simp: classify_def heals_by_repush_def PERSISTENT_NACK_THRESHOLD_def not_le
      split: option.splits)

lemma classify_in_sync:
  "classify n desired now = InSync \<longleftrightarrow>
     \<not> break_glass_active n now \<and> ns_consecutive_nacks n < 3 \<and>
     ns_last_acked_hash n = Some desired \<and> ns_observed_hash n = Some desired"
  by (auto simp: classify_def PERSISTENT_NACK_THRESHOLD_def not_le split: option.splits)

section \<open>What a tick leaves alone\<close>

lemma frame_desired_for: "fleet_frame f (snd (desired_for E l f)) \<and>
    fl_per_node (snd (desired_for E l f)) = fl_per_node f \<and>
    fl_committed_version (snd (desired_for E l f)) = fl_committed_version f"
  by (auto simp: desired_for_def Let_def fleet_frame_def split: option.splits)

lemma frame_heal_node:
  assumes "heal_node E lookup answer node f = (b, g)" "bt_wf (fl_per_node f)"
  shows "fleet_frame f g \<and> bt_wf (fl_per_node g) \<and>
    (\<forall>n. n \<noteq> node \<longrightarrow> delivered_hash n g = delivered_hash n f \<and> node_version g n = node_version f n)"
proof -
  obtain r f1 where r: "desired_for_node E lookup node f = (r, f1)" by fastforce
  obtain v f2 where v: "next_version_for node (rn_render_hash r) f1 = (v, f2)" by fastforce
  have g: "g = f2" using assms(1) by (simp add: heal_node_def r v)
  have per: "fl_per_node f1 = fl_per_node f"
    using r frame_desired_for by (auto simp: desired_for_node_def split: option.splits) (metis snd_conv)
  then have "\<forall>n. delivered_hash n f1 = delivered_hash n f \<and> node_version f1 n = node_version f n"
    by (simp add: delivered_hash_def node_version_def)
  then show ?thesis
    using fleet_frame_trans [OF frame_desired_for_node [OF r] frame_next_version [OF v]]
      next_version_result [OF _ v] assms(2) per g by simp
qed

text \<open>A tick may push to a node only when it would heal it: not in break-glass, not
  persistently divergent, drifted, no wave in flight and not pending in an unapplied wave.\<close>

definition may_push :: "render_env \<Rightarrow> u64 \<Rightarrow> node_state \<Rightarrow> fleet \<Rightarrow> bool" where
  "may_push E now n f \<longleftrightarrow> \<not> wave_in_flight f \<and>
     \<not> node_pending_in_unapplied_wave (ns_labels n) f \<and>
     \<not> break_glass_active n now \<and> ns_consecutive_nacks n < 3"

lemma pending_frame:
  "fleet_frame f g \<Longrightarrow> node_pending_in_unapplied_wave l g = node_pending_in_unapplied_wave l f \<and>
     wave_in_flight g = wave_in_flight f"
  by (simp add: node_pending_in_unapplied_wave_def fleet_frame_def wave_in_flight_def
      cong: option.case_cong)

lemma tick_node_frame:
  assumes "tick_node E st answer now node (rep, f) = (rep', g)" "bt_wf (fl_per_node f)"
  shows "fleet_frame f g \<and> bt_wf (fl_per_node g) \<and>
    (\<forall>m. (m \<noteq> node \<or> (\<forall>n. st_get st node = Some n \<longrightarrow> \<not> may_push E now n f)) \<longrightarrow>
       delivered_hash m g = delivered_hash m f \<and> node_version g m = node_version f m)"
proof (cases "st_get st node")
  case None
  then show ?thesis using assms by (simp add: tick_node_def)
next
  case (Some n)
  obtain r f1 where r: "desired_for E (ns_labels n) f = (r, f1)" by fastforce
  have f1: "fleet_frame f f1" "fl_per_node f1 = fl_per_node f"
    using frame_desired_for [of f E "ns_labels n"] by (simp_all add: r)
  then have same: "delivered_hash m f1 = delivered_hash m f \<and> node_version f1 m = node_version f m" for m
    by (simp add: delivered_hash_def node_version_def)
  let ?c = "classify (fold_delivered f1 node n) (rn_render_hash r) now"
  have may: "heals_by_repush ?c \<Longrightarrow> \<not> break_glass_active n now \<and> ns_consecutive_nacks n < 3"
    by (auto simp: classify_heals fold_delivered_def break_glass_active_def split: option.splits if_splits)
  show ?thesis
  proof (cases "heals_by_repush ?c \<and> \<not> wave_in_flight f1 \<and> \<not> node_pending_in_unapplied_wave (ns_labels n) f1")
    case False
    then have "g = f1"
      using assms(1) Some r by (auto simp: tick_node_def Let_def act_def heals_by_repush_def
          split: if_splits drift_case.splits)
    then show ?thesis using f1 same assms(2) by simp
  next
    case True
    obtain b f2 where h: "heal_node E (\<lambda>m. map_option ns_labels (st_get st m)) answer node f1 = (b, f2)"
      by fastforce
    have g: "g = f2"
      using assms(1) Some r True h by (auto simp: tick_node_def Let_def act_def heals_by_repush_def
          split: drift_case.splits)
    have "may_push E now n f"
      using True may pending_frame [OF f1(1)] by (simp add: may_push_def)
    then show ?thesis
      using frame_heal_node [OF h] f1 same assms(2) Some g fleet_frame_trans by auto
  qed
qed

lemma may_push_frame: "fleet_frame f g \<Longrightarrow> may_push E now n g = may_push E now n f"
  by (simp add: may_push_def pending_frame)

lemma tick_fold_frame:
  assumes "bt_wf (fl_per_node f)" "\<forall>n. st_get st m = Some n \<longrightarrow> \<not> may_push E now n f"
  shows "fleet_frame f (snd (fold (tick_node E st answer now) ids (rep, f))) \<and>
    delivered_hash m (snd (fold (tick_node E st answer now) ids (rep, f))) = delivered_hash m f \<and>
    node_version (snd (fold (tick_node E st answer now) ids (rep, f))) m = node_version f m"
  using assms
proof (induction ids arbitrary: rep f)
  case Nil
  then show ?case by simp
next
  case (Cons i ids)
  obtain rep' g where step: "tick_node E st answer now i (rep, f) = (rep', g)" by fastforce
  note r = tick_node_frame [OF step Cons.prems(1)]
  have "\<forall>n. st_get st m = Some n \<longrightarrow> \<not> may_push E now n g"
    using Cons.prems(2) r may_push_frame by blast
  from Cons.IH [of g rep', OF _ this] r Cons.prems(2) show ?case
    by (auto simp: step intro: fleet_frame_trans)
qed

text \<open>A reconcile tick fights nobody: whatever the nodes answer, it leaves the
  desired state, the wave commits and the in-flight count alone, and a node that is in its
  break-glass window, has refused three times in a row, or is pending in an unapplied wave,
  or any node while a wave is in flight, is pushed nothing: its delivered hash and its
  version are what they were.\<close>

theorem tick_leaves_protected_nodes_alone:
  assumes "bt_wf (fl_per_node f)"
    and "\<forall>n. st_get st m = Some n \<longrightarrow>
      wave_in_flight f \<or> node_pending_in_unapplied_wave (ns_labels n) f \<or>
      break_glass_active n now \<or> 3 \<le> ns_consecutive_nacks n"
  shows "delivered_hash m (snd (tick E st answer now f)) = delivered_hash m f \<and>
    node_version (snd (tick E st answer now f)) m = node_version f m \<and>
    fl_applied (snd (tick E st answer now f)) = fl_applied f \<and>
    fl_wave_commit (snd (tick E st answer now f)) = fl_wave_commit f \<and>
    fl_waves_in_flight (snd (tick E st answer now f)) = fl_waves_in_flight f"
proof -
  have "\<forall>n. st_get st m = Some n \<longrightarrow> \<not> may_push E now n f"
    using assms(2) by (auto simp: may_push_def)
  from tick_fold_frame [OF assms(1) this] show ?thesis
    by (simp add: tick_def fleet_frame_def)
qed

definition example_store :: runtime_store where
  "example_store = [(''n1'', (ns_new ''n1'' [] 5)\<lparr>ns_last_acked_hash := Some ''old''\<rparr>)]"

theorem tick_leaves_protected_nodes_alone_witness:
  "delivered_hash ''n1'' (snd (tick example_env example_store (\<lambda>_. Silent) 7 (begin_wave example_fleet))) =
   delivered_hash ''n1'' (begin_wave example_fleet)"
proof -
  have "bt_wf (fl_per_node (begin_wave example_fleet))"
    by (simp add: begin_wave_def example_fleet_def from_source_def fleet_new_def)
  then show ?thesis
    using tick_leaves_protected_nodes_alone [of "begin_wave example_fleet" example_store "''n1''"]
      in_flight_begin by blast
qed

section \<open>After a rollback of the first wave\<close>

lemma desired_for_again:
  "bt_wf (fl_render_cache f) \<Longrightarrow>
   fst (desired_for E l (snd (desired_for E l f))) = fst (desired_for E l f)"
  by (auto simp: desired_for_def Let_def bt.get_insert split: option.splits)

lemma tick_node_pushes:
  assumes "st_get st node = Some n" "may_push E now n f" "ns_last_acked_hash n = Some old"
    and "old \<noteq> rn_render_hash (fst (desired_for E (ns_labels n) f))"
    and "bt_wf (fl_per_node f)" "bt_wf (fl_render_cache f)"
  shows "delivered_hash node (snd (tick_node E st answer now node (rep, f))) =
    Some (rn_render_hash (fst (desired_for E (ns_labels n) f)))"
proof -
  obtain r f1 where r: "desired_for E (ns_labels n) f = (r, f1)" by fastforce
  have f1: "fleet_frame f f1" "fl_per_node f1 = fl_per_node f"
    using frame_desired_for [of f E "ns_labels n"] by (simp_all add: r)
  let ?look = "\<lambda>m. map_option ns_labels (st_get st m)"
  obtain f2 where r2: "desired_for E (ns_labels n) f1 = (r, f2)"
    using desired_for_again [OF assms(6), of E "ns_labels n"] by (simp add: r) (metis prod.collapse)
  have f2: "fl_per_node f2 = fl_per_node f"
    using frame_desired_for [of f1 E "ns_labels n"] f1 by (simp add: r2)
  obtain v f3 where v: "next_version_for node (rn_render_hash r) f2 = (v, f3)" by fastforce
  have heal: "heal_node E ?look answer node f1 = (answer node = Acked (rn_render_hash r), f3)"
    using assms(1) r2 v by (simp add: heal_node_def desired_for_node_def)
  have "fold_delivered f1 node n = n"
    using assms(3) by (auto simp: fold_delivered_def split: option.splits)
  then have c: "classify (fold_delivered f1 node n) (rn_render_hash r) now = DeliveryStale"
    using assms(2,3,4) by (auto simp: may_push_def classify_def PERSISTENT_NACK_THRESHOLD_def r not_le)
  have "\<not> wave_in_flight f1 \<and> \<not> node_pending_in_unapplied_wave (ns_labels n) f1"
    using assms(2) pending_frame [OF f1(1)] by (simp add: may_push_def)
  then have "snd (tick_node E st answer now node (rep, f)) = f3"
    using assms(1) by (simp add: tick_node_def r c heals_by_repush_def act_def heal)
  then show ?thesis
    using next_version_result [OF _ v] assms(5) f2 r by simp
qed

text \<open>Nothing is pending when no wave is on the target commit.\<close>

lemma not_pending_without_target:
  assumes "bt_wf (fl_wave_commit f)" "\<And>n. frozen_commit f n \<noteq> rn_source_commit (fl_applied f)"
  shows "\<not> node_pending_in_unapplied_wave l f"
proof -
  have "rn_source_commit (fl_applied f) \<notin> set (bt_values (fl_wave_commit f))"
  proof
    assume "rn_source_commit (fl_applied f) \<in> set (bt_values (fl_wave_commit f))"
    then obtain n where "(n, rn_source_commit (fl_applied f)) \<in> set (fl_wave_commit f)"
      by (auto simp: bt_values_def)
    then have "frozen_commit f n = rn_source_commit (fl_applied f)"
      using bt_in_set_get [OF assms(1)] by (simp add: frozen_commit_def)
    with assms(2) show False by blast
  qed
  then show ?thesis
    by (auto simp: node_pending_in_unapplied_wave_def list_ex_iff split: option.splits)
qed

lemma nothing_advanced:
  assumes "canary_ok p target f0 ws s" "\<forall>x \<in> set (cw_steps s). \<forall>c. ws_state x \<noteq> SAdvanced c"
  shows "bt_wf (fl_wave_commit (cw_fleet s)) \<and>
    (\<forall>n. frozen_commit (cw_fleet s) n = frozen_commit f0 n)"
proof -
  have empty: "aw_node_ids w = []"
    if "w \<in> set vs" "\<forall>x \<in> set (map (reached_step target) vs). \<forall>c. ws_state x \<noteq> SAdvanced c" for w vs
    using that by (auto simp: reached_step_def split: if_splits)
  have as: "bt_wf (fl_wave_commit f) \<and> (\<forall>n. frozen_commit f n = frozen_commit f0 n)"
    if "commits_as target f0 vs f" "\<forall>w \<in> set vs. aw_node_ids w = []" for vs f
    using that by (auto simp: commits_as_def)
  from assms(1) show ?thesis
    unfolding canary_ok_def
  proof (elim conjE disjE exE)
    assume "cw_steps s = map (reached_step target) ws" "commits_as target f0 ws (cw_fleet s)"
    then show ?thesis using as empty [of _ ws] assms(2) by metis
  next
    fix h ds a
    assume st: "cw_steps s = map (reached_step target) (take h ws) @
        halted_step f0 (ws ! h) ds # map (frozen_step f0) (drop (Suc h) ws)"
      and c: "commits_as target f0 (take h ws) (cw_fleet s)"
    have "\<forall>x \<in> set (map (reached_step target) (take h ws)). \<forall>c. ws_state x \<noteq> SAdvanced c"
      using assms(2) by (auto simp: st)
    then show ?thesis using as [OF c] empty [of _ "take h ws"] by blast
  qed
qed

text \<open>Property C24.  A failed first wave is not protected: suppose a canary rollout ends with no
  wave advanced (its first non-empty wave halted or was rolled back), no wave was on the
  target commit before, and no other wave is in flight.  The fleet still holds the failed
  render as its desired state and no node counts as pending, so the next reconcile tick
  pushes the failed render to every connected node that last acknowledged something else:
  afterwards the hash delivered to that node is the one of the render that was rejected.\<close>

theorem failed_first_wave_is_pushed_again:
  assumes "cp_enabled (fl_canary f)" "bt_wf (fl_wave_commit f)" "\<not> wave_in_flight f"
    and "distinct (map aw_name (assign (fleet_wave_plan f) nodes))"
    and "roll_out_plan_canary X nodes (f, tb) = Some (c, f', tb')"
    and "\<forall>x \<in> set (mo_steps (co_multi c)). \<forall>k. ws_state x \<noteq> SAdvanced k"
    and "\<forall>n. frozen_commit f n \<noteq> rn_source_commit (fl_applied f)"
    and "st_get st node = Some n" "\<not> break_glass_active n now" "ns_consecutive_nacks n < 3"
    and "ns_last_acked_hash n = Some old"
    and "old \<noteq> rn_render_hash (fst (desired_for E (ns_labels n) f'))"
    and "bt_wf (fl_per_node f')" "bt_wf (fl_render_cache f')"
  shows "fl_applied f' = fl_applied f \<and>
    delivered_hash node (snd (tick_node E st answer now node (rep, f'))) =
      Some (rn_render_hash (fst (desired_for E (ns_labels n) f')))"
proof -
  obtain s where s: "canary_ok (fl_canary f) (rn_source_commit (fl_applied f)) (begin_wave f)
      (assign (fleet_wave_plan f) nodes) s" "f' = drop_guard (cw_fleet s)"
    "mo_steps (co_multi c) = cw_steps s"
    using canary_run_ok [OF assms(1,2,4,5)] by blast
  have same: "fl_applied (cw_fleet s) = fl_applied f"
    "fl_waves_in_flight (cw_fleet s) = fl_waves_in_flight f + 1"
    using s(1) by (simp_all add: canary_ok_def begin_wave_def)
  note na = nothing_advanced [OF s(1), folded s(3), OF assms(6)]
  have f': "bt_wf (fl_wave_commit f')" "fl_applied f' = fl_applied f" "\<not> wave_in_flight f'"
    "\<And>n. frozen_commit f' n \<noteq> rn_source_commit (fl_applied f')"
    using na same assms(3,7)
    by (simp_all add: s(2) drop_guard_def wave_in_flight_def begin_wave_def)
  have "may_push E now n f'"
    using f'(3) not_pending_without_target [OF f'(1,4)] assms(9,10) by (simp add: may_push_def)
  then show ?thesis
    using f'(2) tick_node_pushes [OF assms(8) _ assms(11,12,13,14)] by blast
qed

definition silent_env :: canary_env where
  "silent_env = example_canary_env\<lparr>ce_answers := (\<lambda>_ _. Silent)\<rparr>"

lemma example_assign:
  "assign example_plan [(''n1'', [])] =
     [\<lparr>aw_name = ''a'', aw_node_ids = [''n1'']\<rparr>, \<lparr>aw_name = ''b'', aw_node_ids = []\<rparr>]"
  by (simp add: assign_def assign_step_def wave_position_def example_plan_def wp_new_def Let_def)

lemma silent_first_wave:
  "run_wave_nodes example_env (\<lambda>_. None) (\<lambda>_. Silent) [''n1''] (begin_wave canary_fleet) =
     (WHalted ''h'' [\<lparr>dv_node_id = ''n1'', dv_kind = DSilent 1\<rparr>],
      snd (next_version_for ''n1'' ''h'' (begin_wave canary_fleet)))"
  by (simp add: run_wave_nodes_def desired_for_node_def next_version_for_def bt_entry_def
      conclude_wave_multi_def divergence_of_def expected_of_def List.map_filter_simps
      canary_fleet_def example_fleet_def from_source_def fleet_new_def begin_wave_def
      example_rendered_def)

definition silent_result :: fleet where
  "silent_result = drop_guard (snd (next_version_for ''n1'' ''h'' (begin_wave canary_fleet)))"

lemma silent_run:
  "\<exists>c tb. roll_out_plan_canary silent_env [(''n1'', [])] (canary_fleet, [], fb_new) =
      Some (c, silent_result, tb) \<and>
    (\<forall>x \<in> set (mo_steps (co_multi c)). \<forall>k. ws_state x \<noteq> SAdvanced k)"
proof -
  have plan: "fleet_wave_plan (begin_wave canary_fleet) = example_plan"
    by (simp add: canary_fleet_def example_fleet_def from_source_def fleet_wave_plan_def begin_wave_def)
  have on: "cp_enabled (fl_canary canary_fleet)" by (simp add: canary_fleet_def)
  show ?thesis
    by (simp add: roll_out_plan_canary_def Let_def on plan example_assign canary_step_def
        silent_env_def example_canary_env_def silent_first_wave push_step_def silent_result_def)
qed

theorem failed_first_wave_is_pushed_again_witness:
  "delivered_hash ''n1'' (snd (tick_node example_env example_store (\<lambda>_. Acked ''h'') 7 ''n1''
      (empty_report, silent_result))) = Some ''h''"
proof -
  obtain c tb where run: "roll_out_plan_canary silent_env [(''n1'', [])] (canary_fleet, [], fb_new) =
      Some (c, silent_result, tb)"
    and na: "\<forall>x \<in> set (mo_steps (co_multi c)). \<forall>k. ws_state x \<noteq> SAdvanced k"
    using silent_run by blast
  define n where "n = (ns_new ''n1'' [] 5)\<lparr>ns_last_acked_hash := Some ''old''\<rparr>"
  have fleet: "cp_enabled (fl_canary canary_fleet)" "bt_wf (fl_wave_commit canary_fleet)"
    "\<not> wave_in_flight canary_fleet" "\<forall>n. frozen_commit canary_fleet n \<noteq> rn_source_commit (fl_applied canary_fleet)"
    by (simp_all add: canary_fleet_def example_fleet_def from_source_def fleet_new_def wave_in_flight_def
        frozen_commit_def NEVER_COMMITTED_def example_rendered_def)
  have plan: "distinct (map aw_name (assign (fleet_wave_plan canary_fleet) [(''n1'', [])]))"
    by (simp add: canary_fleet_def example_fleet_def from_source_def fleet_wave_plan_def example_assign)
  have node: "st_get example_store ''n1'' = Some n" "\<not> break_glass_active n 7"
    "ns_consecutive_nacks n < 3" "ns_last_acked_hash n = Some ''old''"
    by (simp_all add: st_get_def example_store_def n_def ns_new_def break_glass_active_def)
  have maps: "bt_wf (fl_per_node silent_result)" "bt_wf (fl_render_cache silent_result)"
    "fst (desired_for example_env (ns_labels n) silent_result) = example_rendered ''h'' ''c2''"
    by (simp_all add: silent_result_def drop_guard_def next_version_for_def bt_entry_def Let_def
        desired_for_def desired_uncached_def render_resolved_for_node_def assemble_flat_doc_def
        read_yaml_mapping_def rr_get_def rr_new_def canary_fleet_def example_fleet_def bt_wf_def
        from_source_def fleet_new_def begin_wave_def)
  show ?thesis
    using failed_first_wave_is_pushed_again [OF fleet(1-3) plan run na fleet(4) node, of example_env]
      maps by (simp add: example_rendered_def)
qed

end
