(* ===== verification/JoinToken.thy ===== *)
theory JoinToken
  imports OrdMap Waves
begin

text \<open>
  \<open>gatewayctl/src/token.rs\<close>: the single-use join tokens.  The mutex makes \<open>mint\<close> and
  \<open>authorize\<close> the steps of a transition system; the clock is an input of each step and is not
  assumed to be monotonic.  \<open>token_run\<close> is the system, its histories the sequences of
  operations any set of clients can produce.
\<close>

section \<open>Tokens\<close>

record join_token =
  tk_labels :: labels
  tk_expires_at :: u64
  tk_used :: bool
  tk_bound_node :: "string option"

datatype auth_error = UnknownToken | ExpiredToken | AlreadyUsed

definition show_auth_error :: "auth_error \<Rightarrow> string" where
  "show_auth_error e = (case e of
     UnknownToken \<Rightarrow> ''unknown join token''
   | ExpiredToken \<Rightarrow> ''join token expired''
   | AlreadyUsed \<Rightarrow> ''join token already used by another node (single-use)'')"

datatype admission = FreshJoin | Reconnect

record join_tokens =
  jt_tokens :: "(string, join_token) btree"
  jt_default_ttl :: u64

definition join_tokens_new :: "u64 \<Rightarrow> join_tokens" where
  "join_tokens_new ttl = \<lparr>jt_tokens = [], jt_default_ttl = ttl\<rparr>"

definition mint_with_ttl :: "string \<Rightarrow> labels \<Rightarrow> u64 \<Rightarrow> u64 \<Rightarrow> join_tokens \<Rightarrow> join_tokens" where
  "mint_with_ttl secret labels ttl now t =
     (let token = \<lparr>tk_labels = labels, tk_expires_at = sat_add now ttl, tk_used = False,
                   tk_bound_node = None\<rparr>
      in t\<lparr>jt_tokens := bt_insert secret token (jt_tokens t)\<rparr>)"

definition mint_token :: "string \<Rightarrow> labels \<Rightarrow> u64 \<Rightarrow> join_tokens \<Rightarrow> join_tokens" where
  "mint_token secret labels now t = mint_with_ttl secret labels (jt_default_ttl t) now t"

definition authorize ::
  "string \<Rightarrow> string \<Rightarrow> u64 \<Rightarrow> join_tokens \<Rightarrow> (auth_error + labels \<times> admission) \<times> join_tokens"
where
  "authorize node_id secret now t =
     (case bt_get (jt_tokens t) secret of
        None \<Rightarrow> (Inl UnknownToken, t)
      | Some token \<Rightarrow>
          if tk_used token then
            (if tk_bound_node token = Some node_id then (Inr (tk_labels token, Reconnect), t)
             else (Inl AlreadyUsed, t))
          else if tk_expires_at token \<le> now then (Inl ExpiredToken, t)
          else
            (Inr (tk_labels token, FreshJoin),
             t\<lparr>jt_tokens := bt_insert secret
                (token\<lparr>tk_used := True, tk_bound_node := Some node_id\<rparr>) (jt_tokens t)\<rparr>))"

section \<open>The transition system\<close>

text \<open>One client operation and the answer it got.\<close>

datatype token_op =
    Mint (op_secret: string) labels u64 u64
  | Hello (op_node: string) (op_secret: string) u64 "auth_error + labels \<times> admission"

inductive token_step :: "join_tokens \<Rightarrow> token_op \<Rightarrow> join_tokens \<Rightarrow> bool" where
  minted: "token_step t (Mint secret labels ttl now) (mint_with_ttl secret labels ttl now t)"
| hello: "authorize node secret now t = (answer, t') \<Longrightarrow> token_step t (Hello node secret now answer) t'"

inductive_cases token_stepE: "token_step t op t'"
inductive_simps mint_step_iff: "token_step t (Mint secret labels ttl now) t'"
inductive_simps hello_step_iff: "token_step t (Hello node secret now answer) t'"

inductive token_run :: "join_tokens \<Rightarrow> token_op list \<Rightarrow> join_tokens \<Rightarrow> bool" where
  start: "token_run t [] t"
| step: "token_run t ops t' \<Longrightarrow> token_step t' op t'' \<Longrightarrow> token_run t (ops @ [op]) t''"

code_pred (modes: i \<Rightarrow> i \<Rightarrow> o \<Rightarrow> bool as do_token_op) token_step .

text \<open>A step with the operation \<open>Hello\<close> that admitted the node.\<close>

definition admits :: "string \<Rightarrow> token_op \<Rightarrow> string \<Rightarrow> bool" where
  "admits secret op node \<longleftrightarrow> (\<exists>now r. op = Hello node secret now (Inr r))"

definition mints :: "string \<Rightarrow> token_op \<Rightarrow> bool" where
  "mints secret op \<longleftrightarrow> (\<exists>labels ttl now. op = Mint secret labels ttl now)"

section \<open>Invariants\<close>

text \<open>A token is bound exactly when it is burned.\<close>

definition token_ok :: "join_token \<Rightarrow> bool" where
  "token_ok k \<longleftrightarrow> (tk_used k \<longleftrightarrow> tk_bound_node k \<noteq> None)"

definition tokens_wf :: "join_tokens \<Rightarrow> bool" where
  "tokens_wf t \<longleftrightarrow> bt_wf (jt_tokens t) \<and> (\<forall>s k. bt_get (jt_tokens t) s = Some k \<longrightarrow> token_ok k)"

lemma tokens_wf_new [simp, wf_intros]: "tokens_wf (join_tokens_new ttl)"
  by (simp add: tokens_wf_def join_tokens_new_def)

lemma tokens_wf_step [wf_intros]: "tokens_wf t \<Longrightarrow> token_step t op t' \<Longrightarrow> tokens_wf t'"
  by (erule token_stepE)
    (auto simp: tokens_wf_def token_ok_def mint_with_ttl_def authorize_def Let_def bt.get_insert
      bt_wf_insert split: option.splits if_splits)

lemma tokens_wf_run: "token_run t ops t' \<Longrightarrow> tokens_wf t \<Longrightarrow> tokens_wf t'"
  by (induction rule: token_run.induct) (auto intro: tokens_wf_step)

text \<open>A burned token stays bound to its node until the secret is minted again.\<close>

definition bound_to :: "join_tokens \<Rightarrow> string \<Rightarrow> string \<Rightarrow> bool" where
  "bound_to t secret node \<longleftrightarrow> (\<exists>k. bt_get (jt_tokens t) secret = Some k \<and> tk_bound_node k = Some node)"

lemma bound_to_unique: "bound_to t secret n \<Longrightarrow> bound_to t secret m \<Longrightarrow> n = m"
  by (auto simp: bound_to_def)

lemma step_keeps_binding:
  assumes "tokens_wf t" "token_step t op t'" "\<not> mints secret op" "bound_to t secret node"
  shows "bound_to t' secret node"
  using assms(2) assms(1,3,4)
  by cases (auto simp: tokens_wf_def token_ok_def mints_def bound_to_def mint_with_ttl_def authorize_def
    Let_def bt.get_insert split: option.splits if_splits)

lemma step_admits_binds:
  assumes "tokens_wf t" "token_step t op t'" "admits secret op node"
  shows "bound_to t' secret node"
  using assms(2) assms(1,3)
  by cases (auto simp: admits_def tokens_wf_def bound_to_def authorize_def bt.get_insert
    split: option.splits if_splits)

lemma run_admits_bound:
  assumes "token_run t ops t'" "tokens_wf t" "\<forall>op \<in> set ops. \<not> mints secret op"
    and "op \<in> set ops" "admits secret op node"
  shows "bound_to t' secret node"
  using assms
proof (induction rule: token_run.induct)
  case (start t)
  then show ?case by simp
next
  case (step t ops t' op' t'')
  have wf: "tokens_wf t'" using step.hyps(1) step.prems(1) by (rule tokens_wf_run)
  show ?case
  proof (cases "op = op'")
    case True
    with step.prems(4) wf step.hyps(2) show ?thesis by (auto intro: step_admits_binds)
  next
    case False
    with step.prems have "bound_to t' secret node" by (intro step.IH) auto
    with wf step.hyps(2) step.prems(2) show ?thesis by (auto intro: step_keeps_binding)
  qed
qed

text \<open>Property C28. A join token admits at most one identity: over any interleaving of \<open>mint\<close> and
  \<open>Hello\<close> operations in which the secret is not minted again, all the nodes that were admitted with
  it are the same node, and any other node that presents it afterwards is refused as
  \<open>AlreadyUsed\<close>, whatever the clock says.\<close>

theorem token_admits_one_node:
  assumes "token_run (mint_with_ttl secret labels ttl minted (join_tokens_new d)) ops t"
    and "\<forall>op \<in> set ops. \<not> mints secret op"
    and "op \<in> set ops" "admits secret op node"
  shows "(\<forall>op' \<in> set ops. \<forall>node'. admits secret op' node' \<longrightarrow> node' = node) \<and>
     (\<forall>other now. other \<noteq> node \<longrightarrow> authorize other secret now t = (Inl AlreadyUsed, t)) \<and>
     (\<forall>now. \<exists>ls. authorize node secret now t = (Inr (ls, Reconnect), t))"
proof -
  have wf: "tokens_wf (mint_with_ttl secret labels ttl minted (join_tokens_new d))"
    by (rule tokens_wf_step [OF tokens_wf_new token_step.minted])
  note b = run_admits_bound [OF assms(1) wf assms(2)]
  have bound: "bound_to t secret node" by (rule b [OF assms(3,4)])
  moreover have "token_ok k" if "bt_get (jt_tokens t) secret = Some k" for k
    using tokens_wf_run [OF assms(1) wf] that by (auto simp: tokens_wf_def)
  ultimately show ?thesis
    by (auto simp: bound_to_def token_ok_def authorize_def dest: b bound_to_unique)
qed

theorem token_admits_one_node_witness:
  "authorize ''node-b'' ''s'' 900 (snd (authorize ''node-a'' ''s'' 7
       (mint_with_ttl ''s'' [] 300 5 (join_tokens_new 300)))) =
     (Inl AlreadyUsed, snd (authorize ''node-a'' ''s'' 7
       (mint_with_ttl ''s'' [] 300 5 (join_tokens_new 300))))"
proof -
  let ?t = "mint_with_ttl ''s'' [] 300 5 (join_tokens_new 300)"
  let ?a = "fst (authorize ''node-a'' ''s'' 7 ?t)" and ?t' = "snd (authorize ''node-a'' ''s'' 7 ?t)"
  have adm: "\<exists>r. ?a = Inr r"
    by (simp add: authorize_def mint_with_ttl_def join_tokens_new_def sat_add_def)
  have run: "token_run ?t ([] @ [Hello ''node-a'' ''s'' 7 ?a]) ?t'"
    by (rule token_run.step [OF token_run.start token_step.hello]) simp
  show ?thesis
    using token_admits_one_node [OF run, of "Hello ''node-a'' ''s'' 7 ?a" "''node-a''"] adm
    by (auto simp: admits_def mints_def)
qed

text \<open>An expired token that was never used admits nobody, and a refusal burns nothing.\<close>

lemma refusal_changes_nothing: "authorize node secret now t = (Inl e, t') \<Longrightarrow> t' = t"
  by (auto simp: authorize_def split: option.splits if_splits)

lemma expired_token_refused:
  assumes "sat_add minted ttl \<le> now"
  shows "fst (authorize node secret now (mint_with_ttl secret labels ttl minted (join_tokens_new d))) = Inl ExpiredToken"
  using assms by (simp add: authorize_def mint_with_ttl_def join_tokens_new_def)

end
