(* ===== verification/ControlPlane.thy ===== *)
theory ControlPlane
  imports Fleet Store FleetBudget Telemetry JoinToken
begin

text \<open>
  \<open>gatewayctl/src/server.rs\<close> with the message types of \<open>gateway-proto\<close>: the session table, the
  correlation of pushes with answers, and the handlers of the stream.  A stream is a number, the
  queue of what was sent on it is part of the state, and a oneshot channel is the push id it was
  made for: \<open>cp_answers\<close> lists what was sent on each.  A stream's channel holds sixteen messages and
  \<open>cp_queued\<close> counts those the transport has not taken; a send on a full channel does not complete,
  and the operation that awaits it has no value.  Every handler runs under the lock of the session
  table or calls operations that have their own, so the handlers are the steps of the system; a push
  keeps the lock while its send waits for room (\<open>cp_waiting\<close>), and then no other step that needs
  the table is taken.  A heartbeat or usage handler whose reply waits for room is taken as a whole
  once there is room.  The alert sink is the list of alerts an operation returns.  Not modelled:
  tonic itself and the text of the log lines.
\<close>

section \<open>Messages\<close>

record budget_share =
  bs_key :: string
  bs_value :: string
  bs_cap_tokens :: u64
  bs_tokens :: u64

datatype client_message =
    CHello string string labels u64
  | CAck u64 string
  | CNack u64 string string
  | CStatus string string u32
  | CUsage "budget_share list"
  | CSyncCheck "budget_share list"
  | CEmpty

datatype server_message =
    SPush rendered_snapshot
  | SShareGrant "budget_share list"
  | SAckOfStatus

section \<open>Sessions\<close>

record session =
  se_tx :: nat
  se_pending :: "(u64, u64) btree"  \<comment> \<open>push id to the version awaited\<close>

record control_plane =
  cp_fleet :: fleet
  cp_store :: runtime_store
  cp_tokens :: join_tokens
  cp_sessions :: "(string, session) btree"
  cp_budgets :: fleet_budgets
  cp_telemetry :: fleet_telemetry
  cp_push_seq :: u64
  cp_answers :: "(u64 \<times> ack_result) list"
  cp_sent :: "(nat \<times> server_message) list"
  cp_queued :: "nat \<Rightarrow> nat"
  cp_closed :: "nat set"
  cp_waiting :: "(string \<times> nat \<times> u64 \<times> rendered_snapshot) option"

definition cp_new :: "fleet \<Rightarrow> runtime_store \<Rightarrow> join_tokens \<Rightarrow> control_plane" where
  "cp_new fleet store tokens = \<lparr>cp_fleet = fleet, cp_store = store, cp_tokens = tokens,
     cp_sessions = [], cp_budgets = fb_new, cp_telemetry = [], cp_push_seq = 1, cp_answers = [],
     cp_sent = [], cp_queued = (\<lambda>_. 0), cp_closed = {}, cp_waiting = None\<rparr>"

definition se_insert :: "string \<Rightarrow> nat \<Rightarrow> control_plane \<Rightarrow> control_plane" where
  "se_insert node tx cp =
     cp\<lparr>cp_sessions := bt_insert node \<lparr>se_tx = tx, se_pending = []\<rparr> (cp_sessions cp)\<rparr>"

definition se_remove :: "string \<Rightarrow> control_plane \<Rightarrow> control_plane" where
  "se_remove node cp = cp\<lparr>cp_sessions := bt_remove node (cp_sessions cp)\<rparr>"

definition matching :: "u64 \<Rightarrow> (u64, u64) btree \<Rightarrow> u64 list" where
  "matching version pending = map fst (filter (\<lambda>(_, awaited). awaited = version) pending)"

definition deliver :: "string \<Rightarrow> u64 \<Rightarrow> ack_result \<Rightarrow> control_plane \<Rightarrow> control_plane" where
  "deliver node version result cp =
     (case bt_get (cp_sessions cp) node of
        None \<Rightarrow> cp
      | Some s \<Rightarrow>
          let matched = matching version (se_pending s) in
          cp\<lparr>cp_sessions := bt_insert node
               (s\<lparr>se_pending := fold bt_remove matched (se_pending s)\<rparr>) (cp_sessions cp),
             cp_answers := cp_answers cp @ map (\<lambda>i. (i, result)) matched\<rparr>)"

definition se_connected_ids :: "control_plane \<Rightarrow> string list" where
  "se_connected_ids cp = bt_keys (cp_sessions cp)"

definition next_push_id :: "control_plane \<Rightarrow> u64 \<times> control_plane" where
  "next_push_id cp = (cp_push_seq cp, cp\<lparr>cp_push_seq := cp_push_seq cp + 1\<rparr>)"

definition CHANNEL_CAPACITY :: nat where
  "CHANNEL_CAPACITY = 16"

text \<open>Sending on a stream: it fails once the receiver is gone, and on a full channel it waits; then it
  has no value in this state.\<close>

definition send_on :: "nat \<Rightarrow> server_message \<Rightarrow> control_plane \<Rightarrow> (bool \<times> control_plane) option" where
  "send_on tx msg cp =
     (if tx \<in> cp_closed cp then Some (False, cp)
      else if CHANNEL_CAPACITY \<le> cp_queued cp tx then None
      else Some (True, cp\<lparr>cp_sent := cp_sent cp @ [(tx, msg)],
                          cp_queued := (cp_queued cp)(tx := cp_queued cp tx + 1)\<rparr>))"

definition clear_pending :: "string \<Rightarrow> u64 \<Rightarrow> control_plane \<Rightarrow> control_plane" where
  "clear_pending node push_id cp =
     (case bt_get (cp_sessions cp) node of
        None \<Rightarrow> cp
      | Some s \<Rightarrow> cp\<lparr>cp_sessions := bt_insert node
          (s\<lparr>se_pending := bt_remove push_id (se_pending s)\<rparr>) (cp_sessions cp)\<rparr>)"

text \<open>\<open>push_and_await\<close> in two parts: the waiter goes into the table, then the push into the channel;
  the lock of the table is held over both.  \<open>None\<close>: the send is waiting for room.\<close>

definition register_push :: "string \<Rightarrow> rendered_snapshot \<Rightarrow> control_plane \<Rightarrow> (u64 \<times> nat) option \<times> control_plane" where
  "register_push node snapshot cp0 =
     (let (push_id, cp) = next_push_id cp0 in
      case bt_get (cp_sessions cp) node of
        None \<Rightarrow> (None, cp)
      | Some s \<Rightarrow> (Some (push_id, se_tx s), cp\<lparr>cp_sessions := bt_insert node
          (s\<lparr>se_pending := bt_insert push_id (rs_fleet_version snapshot) (se_pending s)\<rparr>) (cp_sessions cp)\<rparr>))"

definition finish_push ::
  "string \<Rightarrow> nat \<Rightarrow> u64 \<Rightarrow> rendered_snapshot \<Rightarrow> control_plane \<Rightarrow> (u64 option \<times> control_plane) option"
where
  "finish_push node tx push_id snapshot cp =
     map_option (\<lambda>(sent, cp'). if sent then (Some push_id, cp') else (None, clear_pending node push_id cp'))
       (send_on tx (SPush snapshot) cp)"

definition push_and_await ::
  "string \<Rightarrow> rendered_snapshot \<Rightarrow> control_plane \<Rightarrow> (u64 option \<times> control_plane) option"
where
  "push_and_await node snapshot cp =
     (case register_push node snapshot cp of
        (None, cp') \<Rightarrow> Some (None, cp')
      | (Some (push_id, tx), cp') \<Rightarrow> finish_push node tx push_id snapshot cp')"

text \<open>A push whose send waits: its waiter is registered and the lock is its own.\<close>

definition park_push :: "string \<Rightarrow> rendered_snapshot \<Rightarrow> control_plane \<Rightarrow> control_plane" where
  "park_push node snapshot cp =
     (case register_push node snapshot cp of
        (None, cp') \<Rightarrow> cp'
      | (Some (push_id, tx), cp') \<Rightarrow> cp'\<lparr>cp_waiting := Some (node, tx, push_id, snapshot)\<rparr>)"

text \<open>The transport takes a message off a stream's channel, or drops the receiver.\<close>

definition take_from :: "nat \<Rightarrow> control_plane \<Rightarrow> control_plane" where
  "take_from tx cp = cp\<lparr>cp_queued := (cp_queued cp)(tx := cp_queued cp tx - 1)\<rparr>"

definition drop_receiver :: "nat \<Rightarrow> control_plane \<Rightarrow> control_plane" where
  "drop_receiver tx cp = cp\<lparr>cp_closed := insert tx (cp_closed cp)\<rparr>"

section \<open>Shares and usage\<close>

definition share_of_allocation :: "share_allocation \<Rightarrow> budget_share" where
  "share_of_allocation a = \<lparr>bs_key = ci_key (sa_id a), bs_value = ci_value (sa_id a),
     bs_cap_tokens = sa_cap a, bs_tokens = sa_share a\<rparr>"

definition share_grant_for :: "string \<Rightarrow> control_plane \<Rightarrow> budget_share list option" where
  "share_grant_for node cp =
     (let allocations = shares_for node (cp_budgets cp)
      in if allocations = [] then None else Some (map share_of_allocation allocations))"

definition ingest_one :: "string \<Rightarrow> budget_share \<Rightarrow> alert list \<times> control_plane \<Rightarrow> alert list \<times> control_plane" where
  "ingest_one node s = (\<lambda>(emitted, cp).
     (let (alerts, b) = report_spend node (CapId (bs_key s) (bs_value s)) (bs_cap_tokens s) (bs_tokens s) (cp_budgets cp)
      in (emitted @ alerts, cp\<lparr>cp_budgets := b\<rparr>)))"

definition ingest_usage :: "string \<Rightarrow> budget_share list \<Rightarrow> control_plane \<Rightarrow> alert list \<times> control_plane" where
  "ingest_usage node shares cp = fold (ingest_one node) shares ([], cp)"

section \<open>The stream handlers\<close>

datatype session_error = FirstMustBeHello | Unauthenticated auth_error

text \<open>The start of \<open>session\<close>: authenticate, register, mark the node connected.  \<open>tx\<close> is the new stream.\<close>

definition session_open ::
  "client_message \<Rightarrow> nat \<Rightarrow> u64 \<Rightarrow> control_plane \<Rightarrow> (session_error + string \<times> labels) \<times> control_plane"
where
  "session_open first tx now cp =
     (case first of
        CHello node token _ _ \<Rightarrow>
          (case authorize node token now (cp_tokens cp) of
             (Inl e, tokens) \<Rightarrow> (Inl (Unauthenticated e), cp\<lparr>cp_tokens := tokens\<rparr>)
           | (Inr (labels, _), tokens) \<Rightarrow>
               (Inr (node, labels),
                se_insert node tx (cp\<lparr>cp_tokens := tokens, cp_store := st_connect node labels now (cp_store cp),
                  cp_queued := (cp_queued cp)(tx := 0)\<rparr>)))
      | _ \<Rightarrow> (Inl FirstMustBeHello, cp))"

text \<open>The bootstrap push of a joining node: its own render at the node's next version.\<close>

definition bootstrap_snapshot ::
  "render_env \<Rightarrow> string \<Rightarrow> labels \<Rightarrow> u64 \<Rightarrow> control_plane \<Rightarrow> rendered_snapshot \<times> control_plane"
where
  "bootstrap_snapshot E node labels compiled_at cp =
     (let (r, f1) = desired_for E labels (cp_fleet cp);
          (version, f2) = next_version_for node (rn_render_hash r) f1
      in (to_snapshot r node version compiled_at, cp\<lparr>cp_fleet := f2\<rparr>))"

definition bootstrap_push ::
  "render_env \<Rightarrow> string \<Rightarrow> labels \<Rightarrow> u64 \<Rightarrow> control_plane \<Rightarrow> (u64 option \<times> control_plane) option"
where
  "bootstrap_push E node labels compiled_at cp =
     (let (snapshot, cp') = bootstrap_snapshot E node labels compiled_at cp
      in push_and_await node snapshot cp')"

text \<open>\<open>&hash[..12.min(hash.len())]\<close>: \<open>None\<close> is the panic of a slice that ends inside a character.\<close>

definition short :: "string \<Rightarrow> string option" where
  "short hash =
     (let n = min 12 (length hash)
      in if n < length hash \<and> cont_byte (hash ! n) then None else Some (take n hash))"

text \<open>One message of the inbound loop; \<open>tx\<close> is the stream it came on.  \<open>None\<close>: the reply waits for room,
  or the log line of an acknowledgement panicked, which ends the loop before it records anything.\<close>

definition handle_message ::
  "string \<Rightarrow> nat \<Rightarrow> u64 \<Rightarrow> client_message \<Rightarrow> control_plane \<Rightarrow> (alert list \<times> control_plane) option"
where
  "handle_message node tx now msg cp =
     (case msg of
        CAck version hash \<Rightarrow>
          (case short hash of
             None \<Rightarrow> None
           | Some shown \<Rightarrow> Some ([], deliver node version (Acked hash)
               (cp\<lparr>cp_store := record_ack node version hash now (cp_store cp)\<rparr>)))
      | CNack version _ reason \<Rightarrow>
          Some ([], deliver node version (Nacked reason)
             (cp\<lparr>cp_store := record_nack node version reason now (cp_store cp),
                cp_telemetry := ft_record_nack node (cp_telemetry cp)\<rparr>))
      | CStatus observed health _ \<Rightarrow>
          map_option (\<lambda>(_, cp'). ([], cp')) (send_on tx SAckOfStatus
             (cp\<lparr>cp_store := record_status node observed health now (cp_store cp),
                cp_telemetry := record_health node health (cp_telemetry cp)\<rparr>))
      | CUsage shares \<Rightarrow>
          (let (alerts, cp1) = ingest_usage node shares cp
           in case share_grant_for node cp1 of
                Some grant \<Rightarrow> map_option (\<lambda>(_, cp'). (alerts, cp')) (send_on tx (SShareGrant grant) cp1)
              | None \<Rightarrow> Some (alerts, cp1))
      | CSyncCheck shares \<Rightarrow>
          (let (alerts, cp1) = ingest_usage node shares cp
           in map_option (\<lambda>(_, cp'). (alerts, cp'))
                (send_on tx (SShareGrant (unwrap_or (share_grant_for node cp1) [])) cp1))
      | CHello _ _ _ _ \<Rightarrow> Some ([], cp)
      | CEmpty \<Rightarrow> Some ([], cp))"

text \<open>The end of a stream's inbound loop.\<close>

definition session_close :: "string \<Rightarrow> nat \<Rightarrow> u64 \<Rightarrow> control_plane \<Rightarrow> control_plane" where
  "session_close node tx now cp =
     (let cp1 = se_remove node (cp\<lparr>cp_store := st_disconnect node now (cp_store cp)\<rparr>)
      in cp1\<lparr>cp_budgets := forget_node node (cp_budgets cp1), cp_closed := insert tx (cp_closed cp1)\<rparr>)"

section \<open>Correlation\<close>

text \<open>\<open>awaits cp node i v\<close>: push \<open>i\<close> to the node is unanswered and waits for version \<open>v\<close>.\<close>

definition awaits :: "control_plane \<Rightarrow> string \<Rightarrow> u64 \<Rightarrow> u64 \<Rightarrow> bool" where
  "awaits cp node i v \<longleftrightarrow> (\<exists>s. bt_get (cp_sessions cp) node = Some s \<and> bt_get (se_pending s) i = Some v)"

text \<open>Push ids are handed out in order and used once.\<close>

definition sessions_wf :: "control_plane \<Rightarrow> bool" where
  "sessions_wf cp \<longleftrightarrow> bt_wf (cp_sessions cp) \<and>
     (\<forall>node s. bt_get (cp_sessions cp) node = Some s \<longrightarrow> bt_wf (se_pending s) \<and>
        (\<forall>i v. bt_get (se_pending s) i = Some v \<longrightarrow> i < cp_push_seq cp))"

lemma sessions_wf_new [simp]: "sessions_wf (cp_new f st t)"
  by (simp add: sessions_wf_def cp_new_def)

lemma bt_fold_remove:
  "bt_wf m \<Longrightarrow> bt_wf (fold bt_remove ks m) \<and> bt_get (fold bt_remove ks m) k = (if k \<in> set ks then None else bt_get m k)"
  by (induction ks arbitrary: m) (auto simp: bt.get_remove bt_wf_remove)

lemma matched_ids:
  "bt_wf pending \<Longrightarrow> i \<in> set (matching version pending) \<longleftrightarrow> bt_get pending i = Some version"
  by (force simp: matching_def intro: bt_in_set_get dest: bt_get_in_set)

lemma session_wf:
  "sessions_wf cp \<Longrightarrow> bt_get (cp_sessions cp) node = Some s \<Longrightarrow> bt_wf (cp_sessions cp) \<and> bt_wf (se_pending s)"
  by (simp add: sessions_wf_def)

text \<open>What each operation does to the waiting pushes.\<close>

lemma deliver_awaits:
  assumes "sessions_wf cp"
  shows "awaits (deliver node version result cp) n i v \<longleftrightarrow> awaits cp n i v \<and> (n = node \<longrightarrow> v \<noteq> version)"
proof (cases "bt_get (cp_sessions cp) node")
  case None
  then show ?thesis by (auto simp: deliver_def awaits_def)
next
  case (Some s)
  note wf = session_wf [OF assms Some]
  show ?thesis
    using Some wf
    by (auto simp: deliver_def awaits_def Let_def bt.get_insert bt_fold_remove matched_ids)
qed

lemma deliver_answers:
  assumes "sessions_wf cp"
  shows "\<exists>ids. cp_answers (deliver node version result cp) = cp_answers cp @ map (\<lambda>i. (i, result)) ids \<and>
     distinct ids \<and> (\<forall>i. i \<in> set ids \<longleftrightarrow> awaits cp node i version)"
proof (cases "bt_get (cp_sessions cp) node")
  case None
  then show ?thesis by (auto simp: deliver_def awaits_def intro: exI [of _ "[]"])
next
  case (Some s)
  note wf = session_wf [OF assms Some]
  let ?ids = "matching version (se_pending s)"
  have "distinct ?ids" using bt_wf_distinct [of "se_pending s"] wf by (simp add: matching_def distinct_map_filter)
  then show ?thesis
    using Some wf matched_ids [of "se_pending s"]
    by (intro exI [of _ ?ids]) (auto simp: deliver_def awaits_def Let_def)
qed

lemma deliver_wf: "sessions_wf cp \<Longrightarrow> sessions_wf (deliver node version result cp) \<and> cp_push_seq (deliver node version result cp) = cp_push_seq cp"
  by (auto simp: deliver_def sessions_wf_def Let_def bt.get_insert bt_fold_remove bt_wf_insert split: option.splits if_splits)

lemma clear_awaits:
  "sessions_wf cp \<Longrightarrow> awaits (clear_pending node j cp) n i v \<longleftrightarrow> awaits cp n i v \<and> \<not> (n = node \<and> i = j)"
  by (auto simp: clear_pending_def awaits_def sessions_wf_def bt.get_insert bt.get_remove split: option.splits)

lemma clear_wf: "sessions_wf cp \<Longrightarrow> sessions_wf (clear_pending node j cp)"
  by (auto simp: clear_pending_def sessions_wf_def bt.get_insert bt.get_remove bt_wf_insert bt_wf_remove
    split: option.splits if_splits)

lemma clear_frame:
  "cp_push_seq (clear_pending node j cp) = cp_push_seq cp" "cp_answers (clear_pending node j cp) = cp_answers cp"
  by (simp_all add: clear_pending_def split: option.split)

lemma register_result:
  assumes "register_push node snap cp = (r, cp')" "sessions_wf cp" "unat (cp_push_seq cp) + 1 < 2 ^ 64"
  shows "sessions_wf cp' \<and> cp_push_seq cp' = cp_push_seq cp + 1 \<and> cp_answers cp' = cp_answers cp \<and>
     cp_waiting cp' = cp_waiting cp \<and> (\<forall>i tx. r = Some (i, tx) \<longrightarrow> i = cp_push_seq cp) \<and>
     (\<forall>n i v. awaits cp' n i v \<longleftrightarrow> awaits cp n i v \<or>
        (r \<noteq> None \<and> i = cp_push_seq cp \<and> n = node \<and> v = rs_fleet_version snap))"
proof -
  have lt: "i < cp_push_seq cp + 1" if "i < cp_push_seq cp \<or> i = cp_push_seq cp" for i
    using assms(3) that by (auto simp: word_less_nat_alt unat_word_ariths)
  have fresh: "bt_get (se_pending s) (cp_push_seq cp) = None" if "bt_get (cp_sessions cp) n = Some s" for n s
    using assms(2) that by (cases "bt_get (se_pending s) (cp_push_seq cp)") (auto simp: sessions_wf_def)
  show ?thesis
  proof (cases "bt_get (cp_sessions cp) node")
    case None
    then show ?thesis
      using assms(1,2) by (auto simp: register_push_def next_push_id_def sessions_wf_def awaits_def lt)
  next
    case (Some s)
    then show ?thesis
      using assms(1,2) session_wf [OF assms(2) Some] fresh [OF Some] lt
      by (auto simp: register_push_def next_push_id_def Let_def sessions_wf_def awaits_def
        bt.get_insert bt_wf_insert split: if_splits)
  qed
qed

text \<open>Operations that leave the correlation alone.\<close>

definition same_correlation :: "control_plane \<Rightarrow> control_plane \<Rightarrow> bool" where
  "same_correlation cp cp' \<longleftrightarrow> cp_sessions cp' = cp_sessions cp \<and> cp_push_seq cp' = cp_push_seq cp \<and>
     cp_answers cp' = cp_answers cp"

lemma same_correlation_simps:
  "same_correlation cp cp' \<Longrightarrow> awaits cp' n i v = awaits cp n i v"
  "same_correlation cp cp' \<Longrightarrow> sessions_wf cp' = sessions_wf cp"
  by (simp_all add: same_correlation_def awaits_def sessions_wf_def)

lemma same_send_on: "send_on tx msg cp = Some (ok, cp') \<Longrightarrow> same_correlation cp cp'"
  by (auto simp: same_correlation_def send_on_def split: if_splits)

lemma same_trans: "same_correlation a b \<Longrightarrow> same_correlation b c \<Longrightarrow> same_correlation a c"
  by (simp add: same_correlation_def)

lemma same_ingest: "ingest_usage node shares cp = (alerts, cp') \<Longrightarrow> same_correlation cp cp'"
proof -
  have "same_correlation c0 (snd (fold (ingest_one node) shares (al, cp)))"
    if "same_correlation c0 cp" for c0 al
    using that
    by (induction shares arbitrary: al cp)
      (auto simp: ingest_one_def same_correlation_def case_prod_beta)
  from this [of cp "[]"] show "ingest_usage node shares cp = (alerts, cp') \<Longrightarrow> same_correlation cp cp'"
    by (simp add: ingest_usage_def same_correlation_def)
qed

section \<open>The system\<close>

definition needs_table :: "client_message \<Rightarrow> bool" where
  "needs_table msg \<longleftrightarrow> (case msg of CAck _ _ \<Rightarrow> True | CNack _ _ _ \<Rightarrow> True | _ \<Rightarrow> False)"

text \<open>Push ids are 64 bits wide; a step that would wrap them around is left out.\<close>

inductive cp_step :: "render_env \<Rightarrow> control_plane \<Rightarrow> control_plane \<Rightarrow> bool" for E where
  opened: "session_open first tx now cp = (r, cp') \<Longrightarrow> cp_waiting cp = None \<or> (\<exists>e. r = Inl e) \<Longrightarrow> cp_step E cp cp'"
| prepare: "bootstrap_snapshot E node labels at_time cp = (snap, cp') \<Longrightarrow> cp_step E cp cp'"
| push: "cp_waiting cp = None \<Longrightarrow> unat (cp_push_seq cp) + 1 < 2 ^ 64 \<Longrightarrow>
    push_and_await node snap cp = Some (h, cp') \<Longrightarrow> cp_step E cp cp'"
| push_waits: "cp_waiting cp = None \<Longrightarrow> unat (cp_push_seq cp) + 1 < 2 ^ 64 \<Longrightarrow>
    push_and_await node snap cp = None \<Longrightarrow> cp_step E cp (park_push node snap cp)"
| push_resumes: "cp_waiting cp = Some (node, tx, i, snap) \<Longrightarrow>
    finish_push node tx i snap cp = Some (h, cp') \<Longrightarrow> cp_step E cp (cp'\<lparr>cp_waiting := None\<rparr>)"
| timeout: "cp_waiting cp = None \<Longrightarrow> cp_step E cp (clear_pending node i cp)"
| message: "handle_message node tx now msg cp = Some (alerts, cp') \<Longrightarrow>
    cp_waiting cp = None \<or> \<not> needs_table msg \<Longrightarrow> cp_step E cp cp'"
| close: "cp_waiting cp = None \<Longrightarrow> cp_step E cp (session_close node tx now cp)"
| taken: "cp_step E cp (take_from tx cp)"
| gone: "cp_step E cp (drop_receiver tx cp)"

text \<open>The bootstrap push is a step that prepares the render and a push.\<close>

lemma bootstrap_steps:
  "bootstrap_push E node labels at_time cp = Some (h, cp') \<Longrightarrow> cp_waiting cp = None \<Longrightarrow>
     unat (cp_push_seq cp) + 1 < 2 ^ 64 \<Longrightarrow> (cp_step E OO cp_step E) cp cp'"
  unfolding bootstrap_push_def
  by (cases "bootstrap_snapshot E node labels at_time cp")
    (auto intro!: relcomppI intro: cp_step.prepare cp_step.push simp: bootstrap_snapshot_def case_prod_beta)

inductive cp_reach for E cp0 where
  start: "cp_reach E cp0 cp0"
| step: "cp_reach E cp0 cp \<Longrightarrow> cp_step E cp cp' \<Longrightarrow> cp_reach E cp0 cp'"

definition cp_inv :: "control_plane \<Rightarrow> bool" where
  "cp_inv cp \<longleftrightarrow> sessions_wf cp \<and>
     (\<forall>n m i v w. awaits cp n i v \<and> awaits cp m i w \<longrightarrow> n = m \<and> v = w) \<and>
     distinct (map fst (cp_answers cp)) \<and>
     (\<forall>i \<in> fst ` set (cp_answers cp). i < cp_push_seq cp \<and> (\<forall>n v. \<not> awaits cp n i v))"

lemma awaits_old: "sessions_wf cp \<Longrightarrow> awaits cp n i v \<Longrightarrow> i < cp_push_seq cp"
  by (auto simp: sessions_wf_def awaits_def)

text \<open>Fewer pushes waiting, nothing else: what a timeout, an opening and a closing stream do.\<close>

lemma cp_inv_fewer:
  assumes "cp_inv cp" "sessions_wf cp'" "cp_push_seq cp' = cp_push_seq cp" "cp_answers cp' = cp_answers cp"
    and "\<And>n i v. awaits cp' n i v \<Longrightarrow> awaits cp n i v"
  shows "cp_inv cp'"
proof -
  have inv: "\<forall>n m i v w. awaits cp n i v \<and> awaits cp m i w \<longrightarrow> n = m \<and> v = w"
    "distinct (map fst (cp_answers cp))"
    "\<forall>i \<in> fst ` set (cp_answers cp). i < cp_push_seq cp \<and> (\<forall>n v. \<not> awaits cp n i v)"
    using assms(1) unfolding cp_inv_def by blast+
  show ?thesis
    unfolding cp_inv_def assms(3,4) using assms(2,5) inv by blast
qed

lemma cp_inv_same:
  assumes "cp_inv cp" "same_correlation cp cp'"
  shows "cp_inv cp'"
  by (rule cp_inv_fewer [OF assms(1)])
    (use assms in \<open>simp_all add: same_correlation_simps [OF assms(2)] cp_inv_def, simp_all add: same_correlation_def\<close>)

lemma cp_inv_deliver:
  assumes "cp_inv cp"
  shows "cp_inv (deliver node version result cp)"
proof -
  have wf: "sessions_wf cp" using assms by (simp add: cp_inv_def)
  obtain ids where ids: "cp_answers (deliver node version result cp) = cp_answers cp @ map (\<lambda>i. (i, result)) ids"
      "distinct ids" "\<And>i. i \<in> set ids \<longleftrightarrow> awaits cp node i version"
    using deliver_answers [OF wf] by blast
  have "map fst (map (\<lambda>i. (i, result)) ids) = ids" by (induction ids) auto
  then have fsts: "map fst (cp_answers (deliver node version result cp)) = map fst (cp_answers cp) @ ids"
    by (simp add: ids(1))
  have disj: "i \<notin> set ids" if "i \<in> fst ` set (cp_answers cp)" for i
    using that assms by (auto simp: ids(3) cp_inv_def)
  show ?thesis
    unfolding cp_inv_def
  proof (intro conjI)
    show "sessions_wf (deliver node version result cp)" using deliver_wf [OF wf] by blast
    show "\<forall>n m i v w. awaits (deliver node version result cp) n i v \<and> awaits (deliver node version result cp) m i w \<longrightarrow> n = m \<and> v = w"
      using assms by (auto simp: deliver_awaits [OF wf] cp_inv_def)
    show "distinct (map fst (cp_answers (deliver node version result cp)))"
      unfolding fsts using assms ids(2) disj by (auto simp: cp_inv_def)
    have seq: "cp_push_seq (deliver node version result cp) = cp_push_seq cp" using deliver_wf [OF wf] by blast
    show "\<forall>i \<in> fst ` set (cp_answers (deliver node version result cp)).
        i < cp_push_seq (deliver node version result cp) \<and> (\<forall>n v. \<not> awaits (deliver node version result cp) n i v)"
    proof
      fix i assume "i \<in> fst ` set (cp_answers (deliver node version result cp))"
      then have "i \<in> set (map fst (cp_answers (deliver node version result cp)))" by simp
      then consider "i \<in> fst ` set (cp_answers cp)" | "awaits cp node i version"
        unfolding fsts by (auto simp: ids(3))
      then show "i < cp_push_seq (deliver node version result cp) \<and> (\<forall>n v. \<not> awaits (deliver node version result cp) n i v)"
      proof cases
        case 1
        then show ?thesis using assms by (auto simp: seq deliver_awaits [OF wf] cp_inv_def)
      next
        case 2
        then have "n = node \<and> v = version" if "awaits cp n i v" for n v
          using that assms unfolding cp_inv_def by blast
        then show ?thesis using awaits_old [OF wf 2] by (auto simp: seq deliver_awaits [OF wf])
      qed
    qed
  qed
qed

lemma cp_inv_register:
  assumes "register_push node snap cp = (r, cp')" "cp_inv cp" "unat (cp_push_seq cp) + 1 < 2 ^ 64"
  shows "cp_inv cp'"
proof -
  have wf: "sessions_wf cp" using assms(2) by (simp add: cp_inv_def)
  note p = register_result [OF assms(1) wf assms(3)]
  have lt: "i < cp_push_seq cp + 1" if "i < cp_push_seq cp" for i
    using assms(3) that by (auto simp: word_less_nat_alt unat_word_ariths)
  show ?thesis
    using assms(2) p lt awaits_old [OF wf] unfolding cp_inv_def by (auto 4 3)
qed

lemma cp_inv_clear: "cp_inv cp \<Longrightarrow> cp_inv (clear_pending node i cp)"
  by (rule cp_inv_fewer) (auto simp: cp_inv_def clear_wf clear_awaits clear_frame)

lemma cp_inv_send: "send_on tx msg cp = Some (ok, cp') \<Longrightarrow> cp_inv cp \<Longrightarrow> cp_inv cp'"
  using cp_inv_same same_send_on by blast

lemma cp_inv_finish: "finish_push node tx i snap cp = Some (h, cp') \<Longrightarrow> cp_inv cp \<Longrightarrow> cp_inv cp'"
  by (auto simp: finish_push_def dest: cp_inv_send intro: cp_inv_clear split: if_splits)

lemma cp_inv_waiting: "cp_inv (cp\<lparr>cp_waiting := w\<rparr>) \<longleftrightarrow> cp_inv cp"
  by (simp add: cp_inv_def sessions_wf_def awaits_def)

lemma cp_inv_push:
  assumes "push_and_await node snap cp = Some (h, cp')" "cp_inv cp" "unat (cp_push_seq cp) + 1 < 2 ^ 64"
  shows "cp_inv cp'"
proof -
  obtain r cp1 where r: "register_push node snap cp = (r, cp1)" by fastforce
  show ?thesis
    using assms(1) cp_inv_register [OF r assms(2,3)]
    by (auto simp: push_and_await_def r dest: cp_inv_finish split: option.splits)
qed

lemma cp_inv_park: "cp_inv cp \<Longrightarrow> unat (cp_push_seq cp) + 1 < 2 ^ 64 \<Longrightarrow> cp_inv (park_push node snap cp)"
  by (cases "register_push node snap cp")
    (auto simp: park_push_def cp_inv_waiting dest: cp_inv_register split: option.split)

lemma cp_inv_message:
  assumes "handle_message node tx now msg cp = Some (alerts, cp')" "cp_inv cp"
  shows "cp_inv cp'"
proof (cases msg)
  case (CAck version hash)
  have "cp_inv (cp\<lparr>cp_store := record_ack node version hash now (cp_store cp)\<rparr>)"
    by (rule cp_inv_same [OF assms(2)]) (simp add: same_correlation_def)
  then show ?thesis using assms(1) CAck by (auto simp: handle_message_def intro: cp_inv_deliver split: option.splits)
next
  case (CNack version hash reason)
  have "cp_inv (cp\<lparr>cp_store := record_nack node version reason now (cp_store cp),
      cp_telemetry := ft_record_nack node (cp_telemetry cp)\<rparr>)"
    by (rule cp_inv_same [OF assms(2)]) (simp add: same_correlation_def)
  then show ?thesis using assms(1) CNack by (auto simp: handle_message_def intro: cp_inv_deliver)
next
  case (CStatus observed health streams)
  have "same_correlation cp cp'"
    using assms(1) CStatus by (auto simp: handle_message_def same_correlation_def send_on_def split: if_splits)
  then show ?thesis by (rule cp_inv_same [OF assms(2)])
next
  case (CUsage shares)
  obtain al cp1 where i: "ingest_usage node shares cp = (al, cp1)" by fastforce
  have "cp_inv cp1" by (rule cp_inv_same [OF assms(2) same_ingest [OF i]])
  then show ?thesis
    using assms(1) CUsage i by (auto simp: handle_message_def dest: cp_inv_send split: option.splits)
next
  case (CSyncCheck shares)
  obtain al cp1 where i: "ingest_usage node shares cp = (al, cp1)" by fastforce
  have "cp_inv cp1" by (rule cp_inv_same [OF assms(2) same_ingest [OF i]])
  then show ?thesis using assms(1) CSyncCheck i by (auto simp: handle_message_def dest: cp_inv_send)
qed (use assms in \<open>auto simp: handle_message_def\<close>)

lemma cp_inv_step:
  assumes "cp_step E cp cp'" "cp_inv cp"
  shows "cp_inv cp'"
  using assms(1)
proof cases
  case (prepare node labels at_time snap)
  then show ?thesis
    by (intro cp_inv_same [OF assms(2)]) (auto simp: bootstrap_snapshot_def same_correlation_def case_prod_beta)
next
  case (push_resumes node tx i snap h cp1)
  then show ?thesis using cp_inv_finish assms(2) by (simp add: cp_inv_waiting)
next
  case (opened first tx now r)
  have wf: "sessions_wf cp" using assms(2) by (simp add: cp_inv_def)
  show ?thesis
    using opened wf
    by (intro cp_inv_fewer [OF assms(2)])
      (auto simp: session_open_def se_insert_def sessions_wf_def awaits_def bt.get_insert bt_wf_insert
        split: client_message.splits sum.splits prod.splits if_splits)
next
  case (close node tx now)
  have wf: "sessions_wf cp" using assms(2) by (simp add: cp_inv_def)
  show ?thesis unfolding close
    using wf
    by (intro cp_inv_fewer [OF assms(2)])
      (auto simp: session_close_def se_remove_def Let_def sessions_wf_def awaits_def bt.get_remove bt_wf_remove
        split: if_splits)
next
  case (taken tx)
  show ?thesis unfolding taken by (rule cp_inv_same [OF assms(2)]) (simp add: take_from_def same_correlation_def)
next
  case (gone tx)
  show ?thesis unfolding gone by (rule cp_inv_same [OF assms(2)]) (simp add: drop_receiver_def same_correlation_def)
qed (use assms(2) in \<open>auto intro: cp_inv_push cp_inv_park cp_inv_clear cp_inv_message\<close>)

lemma cp_inv_reach: "cp_reach E cp0 cp \<Longrightarrow> cp_inv cp0 \<Longrightarrow> cp_inv cp"
  by (induction rule: cp_reach.induct) (auto intro: cp_inv_step)

lemma cp_inv_new: "cp_inv (cp_new f st t)"
  by (simp add: cp_inv_def) (simp add: awaits_def cp_new_def)

text \<open>Property C26. Answers are correlated: in every state the control plane can reach, each push has
  been answered at most once, an answered push waits no more, and a waiting one waits for one version
  of one node; when a node answers a version, exactly the pushes waiting for that version of that node
  are resolved, each with that answer, and every other push keeps waiting.\<close>

theorem pushes_are_answered_once:
  assumes "cp_reach E (cp_new fleet store tokens) cp"
  shows "distinct (map fst (cp_answers cp)) \<and>
     (\<forall>i \<in> fst ` set (cp_answers cp). \<forall>n v. \<not> awaits cp n i v) \<and>
     (\<forall>n m i v w. awaits cp n i v \<and> awaits cp m i w \<longrightarrow> n = m \<and> v = w) \<and>
     (\<exists>ids. cp_answers (deliver node version result cp) = cp_answers cp @ map (\<lambda>i. (i, result)) ids \<and>
        distinct ids \<and> set ids = {i. awaits cp node i version}) \<and>
     (\<forall>n i v. awaits (deliver node version result cp) n i v \<longleftrightarrow>
        awaits cp n i v \<and> \<not> (n = node \<and> v = version))"
proof -
  have inv: "cp_inv cp" using cp_inv_reach [OF assms cp_inv_new] .
  then have wf: "sessions_wf cp" by (simp add: cp_inv_def)
  obtain ids where "cp_answers (deliver node version result cp) = cp_answers cp @ map (\<lambda>i. (i, result)) ids"
      "distinct ids" "\<And>i. i \<in> set ids \<longleftrightarrow> awaits cp node i version"
    using deliver_answers [OF wf] by blast
  then have "\<exists>ids. cp_answers (deliver node version result cp) = cp_answers cp @ map (\<lambda>i. (i, result)) ids \<and>
      distinct ids \<and> set ids = {i. awaits cp node i version}"
    by (intro exI [of _ ids]) auto
  then show ?thesis
    using inv unfolding cp_inv_def deliver_awaits [OF wf] by blast
qed

text \<open>A node joins, two pushes of version 4 and one of version 5 reach it, and it answers 4.\<close>

definition demo_rendered :: rendered where
  "demo_rendered = \<lparr>rn_config_bytes = ''c'', rn_render_hash = ''h'', rn_source_commit = ''s''\<rparr>"

definition demo_tokens :: join_tokens where
  "demo_tokens = mint_with_ttl ''t'' [(''region'', ''eu'')] 300 5 (join_tokens_new 300)"

definition demo_cp :: control_plane where
  "demo_cp = cp_new (fleet_new demo_rendered) [] demo_tokens"

definition demo_joined :: control_plane where
  "demo_joined = snd (session_open (CHello ''n1'' ''t'' [] 0) 7 9 demo_cp)"

definition demo_push :: "u64 \<Rightarrow> control_plane \<Rightarrow> control_plane" where
  "demo_push version cp = snd (the (push_and_await ''n1'' (to_snapshot demo_rendered ''n1'' version 0) cp))"

definition demo_pushed :: control_plane where
  "demo_pushed = demo_push 5 (demo_push 4 (demo_push 4 demo_joined))"

lemma demo_joined_fields:
  "fst (session_open (CHello ''n1'' ''t'' [] 0) 7 9 demo_cp) = Inr (''n1'', [(''region'', ''eu'')])"
  "cp_sessions demo_joined = [(''n1'', \<lparr>se_tx = 7, se_pending = []\<rparr>)]" "cp_push_seq demo_joined = 1"
  "cp_answers demo_joined = []" "cp_closed demo_joined = {}" "cp_queued demo_joined = (\<lambda>_. 0)"
  "cp_waiting demo_joined = None"
  by (simp_all add: demo_joined_def session_open_def demo_cp_def cp_new_def demo_tokens_def authorize_def
    mint_with_ttl_def join_tokens_new_def sat_add_def se_insert_def fun_eq_iff)

lemmas push_defs = push_and_await_def register_push_def finish_push_def next_push_id_def send_on_def

lemma demo_pushed_fields:
  "cp_sessions demo_pushed = [(''n1'', \<lparr>se_tx = 7, se_pending = [(1, 4), (2, 4), (3, 5)]\<rparr>)]"
  "cp_answers demo_pushed = []"
  by (simp_all add: demo_pushed_def demo_push_def push_defs to_snapshot_def demo_joined_fields Let_def
    CHANNEL_CAPACITY_def)

text \<open>The node's session while its channel has room.\<close>

definition demo_live :: "render_env \<Rightarrow> nat \<Rightarrow> control_plane \<Rightarrow> bool" where
  "demo_live E k cp \<longleftrightarrow> cp_reach E demo_cp cp \<and> cp_waiting cp = None \<and> unat (cp_push_seq cp) = k + 1 \<and>
     cp_queued cp = (\<lambda>_. 0)(7 := k) \<and> cp_closed cp = {} \<and>
     (\<exists>s. bt_get (cp_sessions cp) ''n1'' = Some s \<and> se_tx s = 7)"

lemma demo_joined_live: "demo_live E 0 demo_joined"
proof -
  have "cp_reach E demo_cp demo_joined"
    unfolding demo_joined_def
    by (rule cp_reach.step [OF cp_reach.start cp_step.opened [OF prod.collapse [symmetric]]])
      (simp add: demo_cp_def cp_new_def)
  then show ?thesis by (simp add: demo_live_def demo_joined_fields fun_eq_iff)
qed

lemma demo_push_live:
  assumes "demo_live E k cp" "k < 16"
  shows "demo_live E (k + 1) (demo_push v cp)"
proof -
  have wf: "bt_wf (cp_sessions cp)"
  proof -
    have "cp_inv cp" by (rule cp_inv_reach [of E demo_cp]) (use assms(1) cp_inv_new in \<open>simp_all add: demo_live_def demo_cp_def\<close>)
    then show ?thesis by (simp add: cp_inv_def sessions_wf_def)
  qed
  obtain s where s: "bt_get (cp_sessions cp) ''n1'' = Some s" "se_tx s = 7" using assms(1) by (auto simp: demo_live_def)
  have live: "7 \<notin> cp_closed cp" "cp_queued cp = (\<lambda>_. 0)(7 := k)" "cp_closed cp = {}" "cp_waiting cp = None"
    using assms(1) by (simp_all add: demo_live_def)
  let ?snap = "to_snapshot demo_rendered ''n1'' v 0"
  let ?s = "s\<lparr>se_pending := bt_insert (cp_push_seq cp) (rs_fleet_version ?snap) (se_pending s)\<rparr>"
  define cp' where "cp' = cp\<lparr>cp_push_seq := cp_push_seq cp + 1, cp_sessions := bt_insert ''n1'' ?s (cp_sessions cp),
    cp_sent := cp_sent cp @ [(7, SPush ?snap)], cp_queued := (cp_queued cp)(7 := k + 1)\<rparr>"
  have room: "\<not> CHANNEL_CAPACITY \<le> k" using assms(2) by (simp add: CHANNEL_CAPACITY_def)
  have p: "push_and_await ''n1'' ?snap cp = Some (Some (cp_push_seq cp), cp')"
    using room live(1) by (simp add: push_defs Let_def s live(2) cp'_def)
  have f: "cp_waiting cp' = None" "cp_push_seq cp' = cp_push_seq cp + 1" "cp_queued cp' = (\<lambda>_. 0)(7 := k + 1)"
    "cp_closed cp' = {}" "\<exists>s. bt_get (cp_sessions cp') ''n1'' = Some s \<and> se_tx s = 7"
    using s(2) by (simp_all add: cp'_def live bt.get_insert [OF wf])
  have "cp_step E cp cp'"
    by (rule cp_step.push [OF _ _ p]) (use assms in \<open>auto simp: demo_live_def\<close>)
  then have "cp_reach E demo_cp cp'" using assms(1) by (auto simp: demo_live_def intro: cp_reach.step)
  moreover have "unat (cp_push_seq cp') = k + 2"
    using assms unfolding f(2) by (auto simp: demo_live_def unat_word_ariths)
  ultimately show ?thesis using f p by (simp add: demo_live_def demo_push_def)
qed

lemma demo_reach: "cp_reach E demo_cp demo_pushed"
proof -
  have "demo_live E (0 + 1 + 1 + 1) demo_pushed"
    unfolding demo_pushed_def by (intro demo_push_live demo_joined_live) simp_all
  then show ?thesis by (simp add: demo_live_def)
qed

theorem pushes_are_answered_once_witness:
  "awaits (deliver ''n1'' 4 (Acked ''h'') demo_pushed) ''n1'' 3 5 \<and>
   \<not> awaits (deliver ''n1'' 4 (Acked ''h'') demo_pushed) ''n1'' 1 4"
  using pushes_are_answered_once [OF demo_reach [unfolded demo_cp_def], of "''n1''" 4 "Acked ''h''"]
  by (simp add: awaits_def demo_pushed_fields)

section \<open>Joining and leaving\<close>

text \<open>A stream opens only for a token's own node: if a stream opens, its first message was
  a \<open>Hello\<close> with a token known to the control plane, the labels it gets are the token's and not the
  client's, and from then on that token opens no stream for any other node: it is refused and the
  session table stays as it is.\<close>

theorem stream_opens_for_token_owner:
  assumes "session_open first tx now cp = (Inr (node, ls), cp')" "tokens_wf (cp_tokens cp)"
  shows "\<exists>token client_labels version k. first = CHello node token client_labels version \<and>
     bt_get (jt_tokens (cp_tokens cp)) token = Some k \<and> ls = tk_labels k \<and>
     (\<forall>other tx' now' l v. other \<noteq> node \<longrightarrow>
        fst (session_open (CHello other token l v) tx' now' cp') = Inl (Unauthenticated AlreadyUsed) \<and>
        cp_sessions (snd (session_open (CHello other token l v) tx' now' cp')) = cp_sessions cp')"
proof -
  obtain token l v adm tokens where first: "first = CHello node token l v"
    and auth: "authorize node token now (cp_tokens cp) = (Inr (ls, adm), tokens)"
    and cp': "cp_tokens cp' = tokens"
    using assms(1)
    by (auto simp: session_open_def se_insert_def split: client_message.splits sum.splits prod.splits)
  then obtain k where k: "bt_get (jt_tokens (cp_tokens cp)) token = Some k" "ls = tk_labels k"
    by (auto simp: authorize_def split: option.splits if_splits)
  have step: "token_step (cp_tokens cp) (Hello node token now (Inr (ls, adm))) tokens"
    by (rule token_step.hello [OF auth])
  then have wf: "tokens_wf tokens" using assms(2) by (auto intro: tokens_wf_step)
  have bound: "bound_to tokens token node"
    by (rule step_admits_binds [OF assms(2) step]) (auto simp: admits_def)
  have refused: "authorize other token now' tokens = (Inl AlreadyUsed, tokens)" if "other \<noteq> node" for other now'
    using that bound wf by (auto simp: bound_to_def tokens_wf_def token_ok_def authorize_def)
  then show ?thesis using first k cp' by (auto simp: session_open_def)
qed

theorem stream_opens_for_token_owner_witness:
  "fst (session_open (CHello ''thief'' ''t'' [] 0) 8 10 demo_joined) = Inl (Unauthenticated AlreadyUsed)"
proof -
  have "tokens_wf (cp_tokens demo_cp)"
    using tokens_wf_step [OF tokens_wf_new token_step.minted]
    by (simp add: demo_cp_def cp_new_def demo_tokens_def)
  moreover have "session_open (CHello ''n1'' ''t'' [] 0) 7 9 demo_cp = (Inr (''n1'', [(''region'', ''eu'')]), demo_joined)"
    using demo_joined_fields(1) by (simp add: demo_joined_def prod_eq_iff)
  ultimately show ?thesis using stream_opens_for_token_owner by fastforce
qed

text \<open>Property C27. A late disconnect takes the live session with it: when a node has re-dialled and
  the control plane then notices the end of its old stream, the node's new stream is still open but has
  no session any more, the store calls the node disconnected, and every push to it is silent.\<close>

theorem late_close_drops_live_session:
  assumes "session_open (CHello node token l v) new_tx now cp = (Inr (node, ls), cp')"
    and "st_wf (cp_store cp)" "bt_wf (cp_sessions cp)" "old_tx \<noteq> new_tx" "new_tx \<notin> cp_closed cp"
  shows "new_tx \<notin> cp_closed (session_close node old_tx later cp') \<and>
     bt_get (cp_sessions cp') node = Some \<lparr>se_tx = new_tx, se_pending = []\<rparr> \<and>
     bt_get (cp_sessions (session_close node old_tx later cp')) node = None \<and>
     map_option ns_connected (st_get (cp_store (session_close node old_tx later cp')) node) = Some False \<and>
     map_option fst (push_and_await node snapshot (session_close node old_tx later cp')) = Some None"
proof -
  obtain tokens where cp': "cp' = se_insert node new_tx (cp\<lparr>cp_tokens := tokens,
      cp_store := st_connect node ls now (cp_store cp), cp_queued := (cp_queued cp)(new_tx := 0)\<rparr>)"
    using assms(1) by (auto simp: session_open_def split: sum.splits prod.splits)
  have gone: "bt_get (cp_sessions (session_close node old_tx later cp')) node = None"
    and live: "bt_get (cp_sessions cp') node = Some \<lparr>se_tx = new_tx, se_pending = []\<rparr>"
    using assms(3) by (simp_all add: cp' se_insert_def session_close_def se_remove_def Let_def
      bt.get_insert bt.get_remove bt_wf_insert)
  have wf: "st_wf (st_connect node ls now (cp_store cp))" using assms(2) by (rule connect_event.wf)
  have known: "st_get (st_connect node ls now (cp_store cp)) node \<noteq> None"
    using assms(2) by (auto simp: st_get_def st_wf_def st_connect_def bt.get_insert split: option.splits)
  have "map_option ns_connected (st_get (st_disconnect node later (st_connect node ls now (cp_store cp))) node) = Some False"
    using known wf by (auto simp: st_get_def st_disconnect_def modify_node_def st_wf_def bt.get_insert split: option.splits)
  then have "map_option ns_connected (st_get (cp_store (session_close node old_tx later cp')) node) = Some False"
    by (simp add: cp' se_insert_def session_close_def se_remove_def Let_def)
  moreover have "new_tx \<notin> cp_closed (session_close node old_tx later cp')"
    using assms(4,5) by (simp add: cp' se_insert_def session_close_def se_remove_def Let_def)
  moreover have "map_option fst (push_and_await node snapshot (session_close node old_tx later cp')) = Some None"
    using gone by (simp add: push_and_await_def register_push_def next_push_id_def)
  ultimately show ?thesis using gone live by blast
qed

theorem late_close_drops_live_session_witness:
  "map_option fst (push_and_await ''n1'' (to_snapshot demo_rendered ''n1'' 1 0) (session_close ''n1'' 6 20 demo_joined)) =
     Some None"
proof -
  have "session_open (CHello ''n1'' ''t'' [] 0) 7 9 demo_cp = (Inr (''n1'', [(''region'', ''eu'')]), demo_joined)"
    using demo_joined_fields(1) by (simp add: demo_joined_def prod_eq_iff)
  from late_close_drops_live_session [OF this, where old_tx = 6 and later = 20 and snapshot = "to_snapshot demo_rendered ''n1'' 1 0"] show ?thesis
    by (simp add: demo_cp_def cp_new_def st_wf_def)
qed

section \<open>A stream that is not read\<close>

definition stalled :: "nat \<Rightarrow> control_plane \<Rightarrow> bool" where
  "stalled tx cp \<longleftrightarrow> (\<exists>node i snap. cp_waiting cp = Some (node, tx, i, snap)) \<and> tx \<notin> cp_closed cp \<and>
     CHANNEL_CAPACITY \<le> cp_queued cp tx"

text \<open>Steps in which the transport does not touch the stream \<open>tx\<close>.\<close>

definition step_without :: "nat \<Rightarrow> render_env \<Rightarrow> control_plane \<Rightarrow> control_plane \<Rightarrow> bool" where
  "step_without tx E cp cp' \<longleftrightarrow> cp_step E cp cp' \<and> cp' \<noteq> take_from tx cp \<and> cp' \<noteq> drop_receiver tx cp"

lemma send_queue:
  "send_on tx' msg cp = Some (ok, cp') \<Longrightarrow> CHANNEL_CAPACITY \<le> cp_queued cp tx \<Longrightarrow>
     cp_closed cp' = cp_closed cp \<and> cp_waiting cp' = cp_waiting cp \<and> CHANNEL_CAPACITY \<le> cp_queued cp' tx"
  by (auto simp: send_on_def split: if_splits)

lemma ingest_frame:
  "ingest_usage node shares cp = (alerts, cp') \<Longrightarrow>
     cp_closed cp' = cp_closed cp \<and> cp_waiting cp' = cp_waiting cp \<and> cp_queued cp' = cp_queued cp"
proof -
  have "cp_closed c' = cp_closed cp \<and> cp_waiting c' = cp_waiting cp \<and> cp_queued c' = cp_queued cp"
    if "fold (ingest_one node) shares (al, cp) = (al', c')" for al al' c'
    using that
    by (induction shares arbitrary: al cp) (fastforce simp: ingest_one_def case_prod_beta)+
  then show "ingest_usage node shares cp = (alerts, cp') \<Longrightarrow> ?thesis" by (simp add: ingest_usage_def)
qed

lemma stalled_step:
  assumes "stalled tx cp" "step_without tx E cp cp'"
  shows "stalled tx cp' \<and> same_correlation cp cp'"
proof -
  obtain node i snap where w: "cp_waiting cp = Some (node, tx, i, snap)" "tx \<notin> cp_closed cp"
    "CHANNEL_CAPACITY \<le> cp_queued cp tx" using assms(1) by (auto simp: stalled_def)
  have keep: "stalled tx c" if "cp_closed c = cp_closed cp" "cp_waiting c = cp_waiting cp"
    "CHANNEL_CAPACITY \<le> cp_queued c tx" for c using that w by (auto simp: stalled_def)
  from assms(2) have step: "cp_step E cp cp'" "cp' \<noteq> take_from tx cp" "cp' \<noteq> drop_receiver tx cp"
    by (auto simp: step_without_def)
  from step(1) show ?thesis
  proof cases
    case (opened first tx' now r)
    then obtain e where "r = Inl e" using w(1) by auto
    then have "cp' = cp \<or> (\<exists>tokens. cp' = cp\<lparr>cp_tokens := tokens\<rparr>)"
      using opened(1) by (auto simp: session_open_def split: client_message.splits sum.splits prod.splits)
    then show ?thesis using keep [OF _ _ w(3)] assms(1) keep w(3) by (auto simp: same_correlation_def)
  next
    case (prepare n ls at_time sn)
    then show ?thesis using keep w(3) by (auto simp: bootstrap_snapshot_def same_correlation_def case_prod_beta)
  next
    case (push_resumes n t j sn h c)
    then show ?thesis using w by (auto simp: finish_push_def send_on_def)
  next
    case (message n t now msg alerts)
    show ?thesis
    proof (cases msg)
      case (CStatus observed health streams)
      then obtain ok where "send_on t SAckOfStatus (cp\<lparr>cp_store := record_status n observed health now (cp_store cp),
          cp_telemetry := record_health n health (cp_telemetry cp)\<rparr>) = Some (ok, cp')"
        using message by (auto simp: handle_message_def)
      from send_queue [OF this, of tx] same_send_on [OF this] w(3) keep show ?thesis
        by (simp add: same_correlation_def)
    next
      case (CUsage shares)
      obtain al c where i: "ingest_usage n shares cp = (al, c)" by fastforce
      from message CUsage i consider "cp' = c" | ok m where "send_on t m c = Some (ok, cp')"
        by (auto simp: handle_message_def split: option.splits)
      then show ?thesis
      proof cases
        case 1
        then show ?thesis using ingest_frame [OF i] same_ingest [OF i] keep w(3) by simp
      next
        case 2
        then show ?thesis
          using send_queue [OF 2, of tx] ingest_frame [OF i] same_trans [OF same_ingest [OF i] same_send_on [OF 2]] keep w(3)
          by simp
      qed
    next
      case (CSyncCheck shares)
      obtain al c where i: "ingest_usage n shares cp = (al, c)" by fastforce
      from message CSyncCheck i obtain ok m where m: "send_on t m c = Some (ok, cp')"
        by (auto simp: handle_message_def)
      show ?thesis
        using send_queue [OF m, of tx] ingest_frame [OF i] same_trans [OF same_ingest [OF i] same_send_on [OF m]] keep w(3)
        by simp
    qed (use message w keep in \<open>auto simp: handle_message_def needs_table_def same_correlation_def split: option.splits\<close>)
  next
    case (taken t)
    then have "t \<noteq> tx" using step(2) by auto
    then show ?thesis using taken keep w(3) by (simp add: take_from_def same_correlation_def)
  next
    case (gone t)
    then have "t \<noteq> tx" using step(3) by auto
    then show ?thesis using gone w by (auto simp: drop_receiver_def same_correlation_def stalled_def)
  qed (use w(1) in simp_all)
qed

text \<open>Property C23. One stream that is not read stops the whole control plane: once a push waits for
  room on a stream whose channel is full, then for as long as that stream's transport neither takes a
  message nor goes away, whatever all other nodes and streams do, the push waits on, no session is
  registered or removed, no push to any node is made, and no answer of any node is delivered.  The send
  has no timeout, and it is awaited under the lock of the session table.\<close>

theorem unread_stream_stops_control_plane:
  assumes "stalled tx cp" "(step_without tx E)\<^sup>*\<^sup>* cp cp'"
  shows "stalled tx cp' \<and> cp_sessions cp' = cp_sessions cp \<and> cp_push_seq cp' = cp_push_seq cp \<and>
     cp_answers cp' = cp_answers cp"
  using assms(2,1)
proof (induction rule: rtranclp_induct)
  case (step b c)
  then show ?case using stalled_step [of tx b E c] by (simp add: same_correlation_def)
qed simp

text \<open>A node that reads nothing: sixteen pushes fill its channel, the next one waits.\<close>

definition demo_stalled :: control_plane where
  "demo_stalled = park_push ''n1'' (to_snapshot demo_rendered ''n1'' 4 0) ((demo_push 4 ^^ 16) demo_joined)"

lemma demo_stalled_reach: "cp_reach E demo_cp demo_stalled" and demo_stalled: "stalled 7 demo_stalled"
  and demo_stalled_queues: "cp_queued demo_stalled = (\<lambda>_. 0)(7 := 16)" "cp_closed demo_stalled = {}"
proof -
  have "demo_live E k ((demo_push 4 ^^ k) demo_joined)" if "k \<le> 16" for k
    using that by (induction k) (use demo_joined_live demo_push_live in auto)
  then have full: "demo_live E 16 ((demo_push 4 ^^ 16) demo_joined)" by blast
  let ?snap = "to_snapshot demo_rendered ''n1'' 4 0" and ?cp = "(demo_push 4 ^^ 16) demo_joined"
  have "push_and_await ''n1'' ?snap ?cp = None"
    using full by (auto simp: demo_live_def push_defs Let_def CHANNEL_CAPACITY_def)
  then show "cp_reach E demo_cp demo_stalled"
    using full unfolding demo_stalled_def demo_live_def
    by (intro cp_reach.step [OF _ cp_step.push_waits]) auto
  show "stalled 7 demo_stalled" "cp_queued demo_stalled = (\<lambda>_. 0)(7 := 16)" "cp_closed demo_stalled = {}"
    using full by (auto simp: stalled_def demo_stalled_def park_push_def register_push_def next_push_id_def
      demo_live_def Let_def CHANNEL_CAPACITY_def)
qed

definition demo_heartbeat :: control_plane where
  "demo_heartbeat = snd (the (handle_message ''n2'' 8 30 (CStatus ''h'' ''ok'' 0) demo_stalled))"

theorem unread_stream_stops_control_plane_witness:
  "\<forall>E. cp_reach E demo_cp demo_stalled \<and> step_without 7 E demo_stalled demo_heartbeat \<and>
     stalled 7 demo_heartbeat \<and> cp_answers demo_heartbeat = cp_answers demo_stalled"
proof (intro allI conjI)
  fix E
  show "cp_reach E demo_cp demo_stalled" by (rule demo_stalled_reach)
  obtain alerts where h: "handle_message ''n2'' 8 30 (CStatus ''h'' ''ok'' 0) demo_stalled = Some (alerts, demo_heartbeat)"
    and q: "cp_queued demo_heartbeat 8 = 1" "cp_closed demo_heartbeat = {}"
    by (simp add: demo_heartbeat_def handle_message_def send_on_def demo_stalled_queues CHANNEL_CAPACITY_def)
  have "cp_step E demo_stalled demo_heartbeat" by (rule cp_step.message [OF h]) (simp add: needs_table_def)
  moreover have "cp_queued (take_from 7 demo_stalled) 8 = 0" by (simp add: take_from_def demo_stalled_queues)
  moreover have "cp_closed (drop_receiver 7 demo_stalled) = {7}" by (simp add: drop_receiver_def demo_stalled_queues)
  ultimately show step: "step_without 7 E demo_stalled demo_heartbeat"
    using q unfolding step_without_def by (metis insert_not_empty zero_neq_one)
  from unread_stream_stops_control_plane [OF demo_stalled r_into_rtranclp [where r = "step_without 7 E", OF step]]
  show "stalled 7 demo_heartbeat" "cp_answers demo_heartbeat = cp_answers demo_stalled" by blast+
qed

end
