(* ===== verification/Reloader.thy ===== *)
theory Reloader
  imports Render
begin

text \<open>
  \<open>gatewayd/src/reload.rs\<close>: the one cell that holds the active snapshot and the reload path that
  SIGHUP, the file watcher and the control plane share.  The swap hook is a parameter over a state
  \<open>'w\<close> of its own (\<open>WasmRuntime\<close> supplies the one the program installs); the reload lock makes each
  reload a step.  The reloader refines a register that holds the last accepted text.
\<close>

datatype reload_outcome = Swapped u64 u64 | NoOp u64 | Rejected u64

type_synonym ('c, 'w) swap_hook = "(u64 \<Rightarrow> 'c snapshot \<Rightarrow> 'w \<Rightarrow> (string + unit) \<times> 'w) option"

record 'c reloader =
  rl_shared :: "'c snapshot"
  rl_renderer :: renderer
  rl_path :: "string option"

definition bootstrap_from_text ::
  "render_env \<Rightarrow> (string \<Rightarrow> 'e + 'c) \<Rightarrow> string \<Rightarrow> string \<Rightarrow> 'e + 'c reloader"
where
  "bootstrap_from_text E from_yaml text source =
     (case render_text E from_yaml text source renderer_new of
        (Inl e, _) \<Rightarrow> Inl e
      | (Inr initial, r) \<Rightarrow> Inr \<lparr>rl_shared = initial, rl_renderer = r, rl_path = None\<rparr>)"

definition bootstrap_file ::
  "render_env \<Rightarrow> (string \<Rightarrow> 'e + 'c) \<Rightarrow> (string \<Rightarrow> 'e) \<Rightarrow> string + string \<Rightarrow> string \<Rightarrow> 'e + 'c reloader"
where
  "bootstrap_file E from_yaml io_error contents path =
     (case render_file E from_yaml io_error contents path renderer_new of
        (Inl e, _) \<Rightarrow> Inl e
      | (Inr initial, r) \<Rightarrow> Inr \<lparr>rl_shared = initial, rl_renderer = r, rl_path = Some path\<rparr>)"

text \<open>\<open>reload_from_text_locked\<close>.\<close>

definition reload_from_text ::
  "render_env \<Rightarrow> (string \<Rightarrow> 'e + 'c) \<Rightarrow> ('c, 'w) swap_hook \<Rightarrow> string \<Rightarrow> string \<Rightarrow>
   'c reloader \<times> 'w \<Rightarrow> reload_outcome \<times> 'c reloader \<times> 'w"
where
  "reload_from_text E from_yaml hook text source = (\<lambda>(rl, w).
     (let active = rl_shared rl in
      if content_hash E text = sn_content_hash active then (NoOp (sn_version active), rl, w)
      else (case render_text E from_yaml text source (rl_renderer rl) of
          (Inl e, r) \<Rightarrow> (Rejected (sn_version active), rl\<lparr>rl_renderer := r\<rparr>, w)
        | (Inr next_sn, r) \<Rightarrow>
            (let rl' = rl\<lparr>rl_renderer := r\<rparr>;
                 (hooked, w') = (case hook of Some h \<Rightarrow> h (sn_version active) next_sn w | None \<Rightarrow> (Inr (), w))
             in case hooked of
               Inl e \<Rightarrow> (Rejected (sn_version active), rl', w')
             | Inr _ \<Rightarrow> (Swapped (sn_version active) (sn_version next_sn), rl'\<lparr>rl_shared := next_sn\<rparr>, w')))))"

text \<open>\<open>reload\<close>; \<open>read\<close> is what reading the file gives.\<close>

definition reload_file ::
  "render_env \<Rightarrow> (string \<Rightarrow> 'e + 'c) \<Rightarrow> ('c, 'w) swap_hook \<Rightarrow> (string \<Rightarrow> string + string) \<Rightarrow>
   'c reloader \<times> 'w \<Rightarrow> reload_outcome \<times> 'c reloader \<times> 'w"
where
  "reload_file E from_yaml hook read = (\<lambda>(rl, w).
     (case rl_path rl of
        None \<Rightarrow> (NoOp (sn_version (rl_shared rl)), rl, w)
      | Some path \<Rightarrow> (case read path of
          Inl e \<Rightarrow> (Rejected (sn_version (rl_shared rl)), rl, w)
        | Inr text \<Rightarrow> reload_from_text E from_yaml hook text path (rl, w))))"

text \<open>One tick of the poll watcher: \<open>None\<close> is an mtime that could not be read.\<close>

definition poll_tick ::
  "render_env \<Rightarrow> (string \<Rightarrow> 'e + 'c) \<Rightarrow> ('c, 'w) swap_hook \<Rightarrow> (string \<Rightarrow> string + string) \<Rightarrow>
   int option \<Rightarrow> int option \<times> 'c reloader \<times> 'w \<Rightarrow> int option \<times> 'c reloader \<times> 'w"
where
  "poll_tick E from_yaml hook read mtime = (\<lambda>(last_mtime, st).
     if mtime \<noteq> last_mtime then (mtime, snd (reload_file E from_yaml hook read st)) else (last_mtime, st))"

section \<open>The register it refines\<close>

definition swapped :: "reload_outcome \<Rightarrow> bool" where
  "swapped o' = (case o' of Swapped _ _ \<Rightarrow> True | _ \<Rightarrow> False)"

text \<open>\<open>serves\<close>: the cell holds the configuration read from \<open>text\<close>, under its hash.\<close>

definition serves :: "render_env \<Rightarrow> (string \<Rightarrow> 'e + 'c) \<Rightarrow> 'c reloader \<Rightarrow> string \<Rightarrow> bool" where
  "serves E from_yaml rl text \<longleftrightarrow> from_yaml text = Inr (sn_config (rl_shared rl)) \<and>
     sn_content_hash (rl_shared rl) = content_hash E text"

definition version_ok :: "'c reloader \<Rightarrow> bool" where
  "version_ok rl \<longleftrightarrow> sn_version (rl_shared rl) \<le> rd_next (rl_renderer rl)"

lemma bootstrap_serves:
  "bootstrap_from_text E from_yaml text source = Inr rl \<Longrightarrow>
   serves E from_yaml rl text \<and> version_ok rl \<and> rd_next (rl_renderer rl) = 1 \<and> sn_version (rl_shared rl) = 1"
  by (auto simp: bootstrap_from_text_def render_text_def serves_def version_ok_def renderer_new_def
    split: sum.splits)

text \<open>What one reload does; \<open>rejected\<close> covers an unreadable text and a hook that refused.\<close>

lemma reload_step:
  assumes "reload_from_text E from_yaml hook text source (rl, w) = (outcome, rl', w')"
  shows "(if swapped outcome
      then serves E from_yaml rl' text \<and> sn_version (rl_shared rl') = rd_next (rl_renderer rl) + 1
        \<and> rd_next (rl_renderer rl') = rd_next (rl_renderer rl) + 1
      else rl_shared rl' = rl_shared rl \<and> rd_next (rl_renderer rl') \<in> {rd_next (rl_renderer rl), rd_next (rl_renderer rl) + 1})
    \<and> (content_hash E text = sn_content_hash (rl_shared rl) \<longleftrightarrow> outcome = NoOp (sn_version (rl_shared rl)))
    \<and> rl_path rl' = rl_path rl"
  using assms
  by (auto simp: reload_from_text_def render_text_def swapped_def serves_def Let_def
    split: sum.splits if_splits option.splits prod.splits)

text \<open>A sequence of texts, whatever triggered each of them.\<close>

fun reloads ::
  "render_env \<Rightarrow> (string \<Rightarrow> 'e + 'c) \<Rightarrow> ('c, 'w) swap_hook \<Rightarrow> string \<Rightarrow> string list \<Rightarrow>
   'c reloader \<times> 'w \<Rightarrow> (string \<times> reload_outcome) list \<times> 'c reloader \<times> 'w"
where
  "reloads E from_yaml hook source [] st = ([], st)"
| "reloads E from_yaml hook source (t # ts) st =
     (let (outcome, st') = reload_from_text E from_yaml hook t source st;
          (outs, st'') = reloads E from_yaml hook source ts st'
      in ((t, outcome) # outs, st''))"

text \<open>The abstract register: it takes the accepted texts.\<close>

definition register :: "string \<Rightarrow> (string \<times> reload_outcome) list \<Rightarrow> string" where
  "register start outs = fold (\<lambda>(t, o') cur. if swapped o' then t else cur) outs start"

text \<open>The versions the swaps of a history produce, oldest first.\<close>

definition swap_versions :: "(string \<times> reload_outcome) list \<Rightarrow> (u64 \<times> u64) list" where
  "swap_versions outs = concat (map (\<lambda>(t, o'). case o' of Swapped a b \<Rightarrow> [(a, b)] | _ \<Rightarrow> []) outs)"

lemma reload_swapped_versions:
  assumes "reload_from_text E from_yaml hook text source (rl, w) = (outcome, rl', w')"
  shows "(case outcome of
      Swapped a b \<Rightarrow> a = sn_version (rl_shared rl) \<and> b = sn_version (rl_shared rl')
    | NoOp a \<Rightarrow> a = sn_version (rl_shared rl) | Rejected a \<Rightarrow> a = sn_version (rl_shared rl))"
  using assms
  by (auto simp: reload_from_text_def Let_def split: sum.splits if_splits option.splits prod.splits)

lemma reloads_refine:
  assumes "reloads E from_yaml hook source ts (rl, w) = (outs, rl', w')"
    and "serves E from_yaml rl start" "version_ok rl"
    and "unat (rd_next (rl_renderer rl)) + length ts < 2 ^ 64"
  shows "serves E from_yaml rl' (register start outs) \<and> version_ok rl' \<and>
     sn_version (rl_shared rl) \<le> sn_version (rl_shared rl') \<and>
     (\<forall>(a, b) \<in> set (swap_versions outs). a < b)"
  using assms
proof (induction ts arbitrary: rl w outs start)
  case Nil
  then show ?case by (simp add: register_def swap_versions_def)
next
  case (Cons t ts)
  obtain outcome rl1 w1 where step: "reload_from_text E from_yaml hook t source (rl, w) = (outcome, rl1, w1)"
    by (metis prod_cases3)
  obtain outs' where rest: "reloads E from_yaml hook source ts (rl1, w1) = (outs', rl', w')"
    and outs: "outs = (t, outcome) # outs'"
    using Cons.prems(1) step by (auto split: prod.splits)
  note one = reload_step [OF step] and vers = reload_swapped_versions [OF step]
  have next_up: "unat (rd_next (rl_renderer rl) + 1) = unat (rd_next (rl_renderer rl)) + 1"
    using Cons.prems(4) by (simp add: unat_word_ariths)
  have bound: "unat (rd_next (rl_renderer rl1)) + length ts < 2 ^ 64"
    using one Cons.prems(4) next_up by (auto split: if_splits)
  let ?cur = "if swapped outcome then t else start"
  have serves1: "serves E from_yaml rl1 ?cur" "version_ok rl1"
    and up: "sn_version (rl_shared rl) \<le> sn_version (rl_shared rl1)"
    and lt: "swapped outcome \<longrightarrow> sn_version (rl_shared rl) < sn_version (rl_shared rl1)"
    using one Cons.prems(2,3) next_up
    by (auto simp: serves_def version_ok_def word_le_nat_alt word_less_nat_alt split: if_splits)
  from Cons.IH [OF rest serves1 bound]
  have IH: "serves E from_yaml rl' (register ?cur outs')" "version_ok rl'"
    "sn_version (rl_shared rl1) \<le> sn_version (rl_shared rl')" "\<forall>(a, b) \<in> set (swap_versions outs'). a < b"
    by blast+
  then show ?case
    using up lt vers
    by (auto simp: outs register_def swap_versions_def swapped_def split: reload_outcome.splits)
qed

text \<open>Property C31. A node refines a register that holds the last accepted text: after any sequence
  of reloads the snapshot it serves is the configuration read from the last text whose outcome was
  \<open>Swapped\<close> (the first one if there was none), under that text's hash; every swap raises the version,
  and a text that is rejected, by its reader or by the swap hook, leaves the served snapshot as it was.\<close>

theorem reloader_refines_register:
  assumes "bootstrap_from_text E from_yaml start source = Inr rl" and "length ts < 2 ^ 63"
    and "reloads E from_yaml hook source ts (rl, w) = (outs, rl', w')"
  shows "from_yaml (register start outs) = Inr (sn_config (rl_shared rl')) \<and>
     sn_content_hash (rl_shared rl') = content_hash E (register start outs) \<and>
     (\<forall>(a, b) \<in> set (swap_versions outs). a < b) \<and> 1 \<le> sn_version (rl_shared rl')"
proof -
  note b = bootstrap_serves [OF assms(1)]
  have "unat (rd_next (rl_renderer rl)) + length ts < 2 ^ 64" using b assms(2) by simp
  from reloads_refine [OF assms(3) _ _ this, of start] b show ?thesis by (auto simp: serves_def)
qed

text \<open>A hook that refuses every second version, over texts that are their own configuration.\<close>

definition echo_env :: render_env where
  "echo_env = \<lparr>re_sha256 = id, re_from_str = (\<lambda>_. Inl []), re_to_string = (\<lambda>_. Inl []), re_debug = (\<lambda>_. []),
     re_from_yaml = (\<lambda>_. None), re_sets_reader = (\<lambda>_. Inl []), re_waves_reader = (\<lambda>_. Inl []),
     re_canary_reader = (\<lambda>_. Inl [])\<rparr>"

definition echo_reader :: "string \<Rightarrow> unit + string" where
  "echo_reader t = (if t = ''bad'' then Inl () else Inr t)"

definition picky_hook :: "(string, unit) swap_hook" where
  "picky_hook = Some (\<lambda>old next_sn w. (if sn_config next_sn = ''b'' then Inl ''no'' else Inr (), w))"

definition echo_start :: "string reloader" where
  "echo_start = \<lparr>rl_shared = \<lparr>sn_config = ''a'', sn_version = 1, sn_source = ''p'', sn_content_hash = content_hash echo_env ''a''\<rparr>,
     rl_renderer = \<lparr>rd_next = 1\<rparr>, rl_path = None\<rparr>"

definition echo_run :: "(string \<times> reload_outcome) list \<times> string reloader \<times> unit" where
  "echo_run = reloads echo_env echo_reader picky_hook ''p'' [''bad'', ''b'', ''c''] (echo_start, ())"

theorem reloader_refines_register_witness:
  "sn_content_hash (rl_shared (fst (snd echo_run))) = content_hash echo_env ''c'' \<and>
   sn_config (rl_shared (fst (snd echo_run))) = ''c''"
proof -
  have boot: "bootstrap_from_text echo_env echo_reader ''a'' ''p'' = Inr echo_start"
    by (simp add: bootstrap_from_text_def render_text_def echo_reader_def renderer_new_def echo_start_def)
  obtain outs rl' where run: "echo_run = (outs, rl', ())" by (metis old.unit.exhaust prod_cases3)
  have hashes: "content_hash echo_env ''bad'' \<noteq> content_hash echo_env ''a''"
    "content_hash echo_env ''b'' \<noteq> content_hash echo_env ''a''"
    "content_hash echo_env ''c'' \<noteq> content_hash echo_env ''a''"
    by code_simp+
  have "outs = [(''bad'', Rejected 1), (''b'', Rejected 1), (''c'', Swapped 1 3)]"
    using run hashes
    by (auto simp: echo_run_def echo_start_def reload_from_text_def render_text_def echo_reader_def picky_hook_def)
  then have "register ''a'' outs = ''c''" by (simp add: register_def swapped_def)
  then show ?thesis
    using reloader_refines_register [OF boot _ run [unfolded echo_run_def]] unfolding run
    by (auto simp: echo_reader_def)
qed

end
