(* ===== verification/NodeBudget.thy ===== *)
theory NodeBudget
  imports Budget
begin

text \<open>
  \<open>crates/gatewayd/src/budget.rs\<close>: the data plane's counters for all its capped spenders.
  The mutex around the map makes each method one step on the state; the partition flag is
  an atomic boolean read by those methods.  Alerts are returned in the order the sink
  receives them.  Log lines are left out.  \<open>cal\<close> is the calendar of the \<open>chrono\<close> crate
  (see the theory \<open>Budget\<close>), \<open>now\<close> the Unix time the caller passes in.
\<close>

section \<open>State\<close>

record nb_entry =
  ne_budget :: local_budget
  ne_latch :: alert_latch
  ne_window :: "window option"
  ne_window_id :: u64
  ne_alert_fraction :: f64

record node_budgets =
  nb_node :: string
  nb_inner :: "(cap_id, nb_entry) btree"
  nb_partitioned :: bool

datatype meter_outcome = Continue | Cut cap_id u64

definition nb_new :: "string \<Rightarrow> node_budgets" where
  "nb_new node = \<lparr>nb_node = node, nb_inner = [], nb_partitioned = False\<rparr>"

definition set_partitioned :: "bool \<Rightarrow> node_budgets \<Rightarrow> node_budgets" where
  "set_partitioned on s = s\<lparr>nb_partitioned := on\<rparr>"

section \<open>Windows\<close>

definition roll :: "calendar \<Rightarrow> u64 \<Rightarrow> nb_entry \<Rightarrow> nb_entry" where
  "roll cal now e = (case ne_window e of
     None \<Rightarrow> e
   | Some w \<Rightarrow>
       let i = id_at cal w now in
       if i \<noteq> ne_window_id e
       then e\<lparr>ne_budget := reset_window_spend (ne_budget e), ne_latch := latch_new,
              ne_window_id := i\<rparr>
       else e)"

definition sync_terms :: "calendar \<Rightarrow> cap_terms option \<Rightarrow> u64 \<Rightarrow> nb_entry \<Rightarrow> nb_entry" where
  "sync_terms cal terms now e = (case terms of
     None \<Rightarrow> roll cal now e
   | Some t \<Rightarrow>
       let e1 = e\<lparr>ne_alert_fraction := ct_alert_fraction t\<rparr> in
       if ne_window e1 \<noteq> ct_window t
       then e1\<lparr>ne_window := ct_window t,
               ne_window_id := (case ct_window t of Some w \<Rightarrow> id_at cal w now | None \<Rightarrow> 0),
               ne_budget := reset_window_spend (ne_budget e1),
               ne_latch := latch_new\<rparr>
       else roll cal now e1)"

definition fresh_entry :: "cap_id \<Rightarrow> u64 option \<Rightarrow> nb_entry" where
  "fresh_entry i cap =
     \<lparr>ne_budget = lb_new i cap (case cap of Some c \<Rightarrow> c | None \<Rightarrow> 0), ne_latch = latch_new,
      ne_window = None, ne_window_id = 0, ne_alert_fraction = SOFT_ALERT_FRACTION\<rparr>"

definition ensure :: "cap_id \<Rightarrow> u64 option \<Rightarrow> node_budgets \<Rightarrow> nb_entry" where
  "ensure i cap s = bt_entry (nb_inner s) i (fresh_entry i cap)"

definition put_entry :: "cap_id \<Rightarrow> nb_entry \<Rightarrow> node_budgets \<Rightarrow> node_budgets" where
  "put_entry i e s = s\<lparr>nb_inner := bt_insert i e (nb_inner s)\<rparr>"

section \<open>Enforcement\<close>

definition admit :: "calendar \<Rightarrow> cap_id \<Rightarrow> cap_terms option \<Rightarrow> u64 \<Rightarrow> node_budgets \<Rightarrow> verdict \<times> node_budgets" where
  "admit cal i terms now s =
     (let e = sync_terms cal terms now (ensure i (map_option ct_cap terms) s);
          v = (if nb_partitioned s then check_partitioned (ne_budget e) 1 else check (ne_budget e) 1)
      in (v, put_entry i e s))"

definition meter_alerts :: "cap_id \<Rightarrow> cap_terms option \<Rightarrow> string \<Rightarrow> nb_entry \<Rightarrow> alert list \<times> nb_entry" where
  "meter_alerts i terms node e = (case terms of
     None \<Rightarrow> ([], e)
   | Some t \<Rightarrow>
       let (as, l) = cross i (ct_cap t) (lb_spent (ne_budget e)) node (ne_alert_fraction e) (ne_latch e)
       in (as, e\<lparr>ne_latch := l\<rparr>))"

definition meter_bound :: "bool \<Rightarrow> u64 \<Rightarrow> local_budget \<Rightarrow> u64" where
  "meter_bound part cap b = (if part then min (lb_share b) cap else cap)"

definition meter :: "calendar \<Rightarrow> cap_id \<Rightarrow> cap_terms option \<Rightarrow> u64 \<Rightarrow> u64 \<Rightarrow> node_budgets
    \<Rightarrow> meter_outcome \<times> alert list \<times> node_budgets" where
  "meter cal i terms tokens now s =
     (let e0 = sync_terms cal terms now (ensure i (map_option ct_cap terms) s);
          e1 = e0\<lparr>ne_budget := commit tokens (ne_budget e0)\<rparr>;
          (as, e) = meter_alerts i terms (nb_node s) e1;
          outcome = (case terms of
             None \<Rightarrow> Continue
           | Some t \<Rightarrow>
               if lb_spent (ne_budget e) > meter_bound (nb_partitioned s) (ct_cap t) (ne_budget e)
               then Cut i (ct_cap t) else Continue)
      in (outcome, as, put_entry i e s))"

definition should_escalate :: "cap_id \<Rightarrow> node_budgets \<Rightarrow> bool" where
  "should_escalate i s = (case bt_get (nb_inner s) i of
     Some e \<Rightarrow> f_le ESCALATION_FRACTION (consumed_fraction (ne_budget e))
   | None \<Rightarrow> False)"

definition settle :: "calendar \<Rightarrow> cap_id \<Rightarrow> u64 \<Rightarrow> u64 \<Rightarrow> u64 \<Rightarrow> node_budgets \<Rightarrow> node_budgets" where
  "settle cal i estimated authoritative now s = (case bt_get (nb_inner s) i of
     None \<Rightarrow> s
   | Some e \<Rightarrow>
       let e1 = roll cal now e
       in put_entry i (e1\<lparr>ne_budget := lb_reconcile estimated authoritative (ne_budget e1)\<rparr>) s)"

fun settle_and_log :: "calendar \<Rightarrow> (cap_id \<times> cap_terms) list \<Rightarrow> u64 \<Rightarrow> u64 option \<Rightarrow> u64 \<Rightarrow> node_budgets \<Rightarrow> node_budgets" where
  "settle_and_log cal [] estimated authoritative now s = s"
| "settle_and_log cal ((i, terms) # caps) estimated authoritative now s =
     (case authoritative of
        Some auth \<Rightarrow> settle_and_log cal caps estimated authoritative now (settle cal i estimated auth now s)
      | None \<Rightarrow> settle_and_log cal caps estimated authoritative now s)"

fun charge_terminal_and_log :: "calendar \<Rightarrow> (cap_id \<times> cap_terms) list \<Rightarrow> u64 \<Rightarrow> u64 \<Rightarrow> node_budgets
    \<Rightarrow> meter_outcome list \<times> alert list \<times> node_budgets" where
  "charge_terminal_and_log cal [] charged now s = ([], [], s)"
| "charge_terminal_and_log cal ((i, terms) # caps) charged now s =
     (let (outcome, as, s1) = meter cal i (Some terms) charged now s;
          (outcomes, bs, s2) = charge_terminal_and_log cal caps charged now s1
      in (outcome # outcomes, as @ bs, s2))"

section \<open>The control-plane side\<close>

fun apply_shares :: "(cap_id \<times> u64 \<times> u64) list \<Rightarrow> node_budgets \<Rightarrow> node_budgets" where
  "apply_shares [] s = s"
| "apply_shares ((i, cap, share) # grants) s =
     (let e = ensure i (Some cap) s
      in apply_shares grants (put_entry i (e\<lparr>ne_budget := set_share share (ne_budget e)\<rparr>) s))"

definition roll_all :: "calendar \<Rightarrow> u64 \<Rightarrow> node_budgets \<Rightarrow> node_budgets" where
  "roll_all cal now s = s\<lparr>nb_inner := map (\<lambda>(i, e). (i, roll cal now e)) (nb_inner s)\<rparr>"

definition report_of :: "(local_budget \<Rightarrow> bool) \<Rightarrow> node_budgets \<Rightarrow> (cap_id \<times> u64 \<times> u64) list" where
  "report_of p s = List.map_filter (\<lambda>(i, e).
     case lb_cap (ne_budget e) of
       None \<Rightarrow> None
     | Some cap \<Rightarrow> if p (ne_budget e) then Some (i, cap, lb_spent (ne_budget e)) else None) (nb_inner s)"

definition spend_report :: "calendar \<Rightarrow> u64 \<Rightarrow> node_budgets \<Rightarrow> (cap_id \<times> u64 \<times> u64) list \<times> node_budgets" where
  "spend_report cal now s =
     (let s1 = roll_all cal now s in (report_of (\<lambda>b. lb_spent b \<noteq> 0) s1, s1))"

definition escalating :: "calendar \<Rightarrow> u64 \<Rightarrow> node_budgets \<Rightarrow> (cap_id \<times> u64 \<times> u64) list \<times> node_budgets" where
  "escalating cal now s =
     (let s1 = roll_all cal now s
      in (report_of (\<lambda>b. f_le ESCALATION_FRACTION (consumed_fraction b)) s1, s1))"

definition nb_overspend :: "cap_id \<Rightarrow> node_budgets \<Rightarrow> u64" where
  "nb_overspend i s = (case bt_get (nb_inner s) i of Some e \<Rightarrow> overspend (ne_budget e) | None \<Rightarrow> 0)"

definition nb_snapshot :: "cap_id \<Rightarrow> node_budgets \<Rightarrow> (u64 option \<times> u64 \<times> u64) option" where
  "nb_snapshot i s = map_option (\<lambda>e. (lb_cap (ne_budget e), lb_share (ne_budget e), lb_spent (ne_budget e)))
     (bt_get (nb_inner s) i)"

section \<open>One spender at a time\<close>

definition nb_wf :: "node_budgets \<Rightarrow> bool" where
  "nb_wf s \<longleftrightarrow> bt_wf (nb_inner s)"

lemma nb_wf_new [wf_intros]: "nb_wf (nb_new node)"
  by (simp add: nb_wf_def nb_new_def)

lemma nb_wf_put_entry [wf_intros]: "nb_wf s \<Longrightarrow> nb_wf (put_entry i e s)"
  by (simp add: nb_wf_def put_entry_def bt_wf_insert)

lemma get_put_entry [simp]:
  "nb_wf s \<Longrightarrow> bt_get (nb_inner (put_entry i e s)) j = (if j = i then Some e else bt_get (nb_inner s) j)"
  by (simp add: nb_wf_def put_entry_def bt.get_insert)

lemma put_entry_frame [simp]:
  "nb_node (put_entry i e s) = nb_node s" "nb_partitioned (put_entry i e s) = nb_partitioned s"
  by (simp_all add: put_entry_def)

text \<open>The contract of an operation addressed to one spender: it keeps the map ordered and
  leaves every other spender, the node's name and the partition flag alone.\<close>

locale spender_op =
  fixes step :: "cap_id \<Rightarrow> node_budgets \<Rightarrow> node_budgets"
  assumes step_wf: "nb_wf s \<Longrightarrow> nb_wf (step i s)"
    and step_other: "nb_wf s \<Longrightarrow> j \<noteq> i \<Longrightarrow> bt_get (nb_inner (step i s)) j = bt_get (nb_inner s) j"
    and step_frame: "nb_node (step i s) = nb_node s" "nb_partitioned (step i s) = nb_partitioned s"
begin

lemma fold_wf: "nb_wf s \<Longrightarrow> nb_wf (fold step is s)"
  by (induction "is" arbitrary: s) (auto intro: step_wf)

lemma fold_other:
  "nb_wf s \<Longrightarrow> j \<notin> set is \<Longrightarrow> bt_get (nb_inner (fold step is s)) j = bt_get (nb_inner s) j"
  by (induction "is" arbitrary: s) (auto simp: step_other step_wf)

end

lemma meter_state:
  "snd (snd (meter cal i terms tokens now s)) = put_entry i (snd (meter_alerts i terms (nb_node s)
     ((sync_terms cal terms now (ensure i (map_option ct_cap terms) s))
       \<lparr>ne_budget := commit tokens (ne_budget (sync_terms cal terms now (ensure i (map_option ct_cap terms) s)))\<rparr>))) s"
  by (simp add: meter_def Let_def split: prod.splits)

interpretation admit_op: spender_op "\<lambda>i s. snd (admit cal i terms now s)" for cal terms now
  by unfold_locales (auto simp: admit_def Let_def intro: wf_intros)

interpretation meter_op: spender_op "\<lambda>i s. snd (snd (meter cal i terms tokens now s))"
  for cal terms tokens now
  by unfold_locales (auto simp: meter_state intro: wf_intros)

interpretation settle_op: spender_op "\<lambda>i. settle cal i estimated authoritative now"
  for cal estimated authoritative now
  by unfold_locales (auto simp: settle_def Let_def intro: wf_intros split: option.splits)

definition grant_one :: "u64 \<Rightarrow> u64 \<Rightarrow> cap_id \<Rightarrow> node_budgets \<Rightarrow> node_budgets" where
  "grant_one cap share i s = apply_shares [(i, cap, share)] s"

interpretation grant_op: spender_op "grant_one cap share" for cap share
  by unfold_locales (auto simp: grant_one_def Let_def intro: wf_intros)

lemma meter_alerts_frame:
  "ne_budget (snd (meter_alerts i terms node e)) = ne_budget e"
  "ne_window (snd (meter_alerts i terms node e)) = ne_window e"
  "ne_window_id (snd (meter_alerts i terms node e)) = ne_window_id e"
  "ne_alert_fraction (snd (meter_alerts i terms node e)) = ne_alert_fraction e"
  by (auto simp: meter_alerts_def Let_def split: option.splits prod.splits)

lemma fst_meter:
  "fst (meter cal i (Some t) tokens now s) =
     (let b = commit tokens (ne_budget (sync_terms cal (Some t) now (ensure i (Some (ct_cap t)) s)))
      in if lb_spent b > meter_bound (nb_partitioned s) (ct_cap t) b then Cut i (ct_cap t) else Continue)"
proof -
  let ?e0 = "sync_terms cal (Some t) now (ensure i (Some (ct_cap t)) s)"
  obtain as e where ma: "meter_alerts i (Some t) (nb_node s)
      (?e0\<lparr>ne_budget := commit tokens (ne_budget ?e0)\<rparr>) = (as, e)" by force
  have "ne_budget e = commit tokens (ne_budget ?e0)"
    using meter_alerts_frame(1) [of i "Some t" "nb_node s" "?e0\<lparr>ne_budget := commit tokens (ne_budget ?e0)\<rparr>"]
    by (simp add: ma)
  then show ?thesis by (simp add: meter_def Let_def ma)
qed

section \<open>A stream within one window\<close>

text \<open>An entry is current for the terms at a time when syncing it would change nothing but
  the alert threshold.\<close>

definition current :: "calendar \<Rightarrow> cap_terms \<Rightarrow> u64 \<Rightarrow> nb_entry \<Rightarrow> bool" where
  "current cal t now e \<longleftrightarrow> ne_window e = ct_window t \<and>
     (case ct_window t of None \<Rightarrow> True | Some w \<Rightarrow> ne_window_id e = id_at cal w now)"

lemma sync_current:
  "current cal t now e \<Longrightarrow> sync_terms cal (Some t) now e = e\<lparr>ne_alert_fraction := ct_alert_fraction t\<rparr>"
  by (auto simp: current_def sync_terms_def roll_def Let_def split: option.splits)

lemma roll_current: "current cal t now e \<Longrightarrow> roll cal now e = e"
  by (auto simp: current_def roll_def Let_def split: option.splits)

lemma current_sync: "current cal t now (sync_terms cal (Some t) now e)"
  by (auto simp: current_def sync_terms_def roll_def Let_def split: option.splits)

text \<open>The calls of \<open>meter\<close> a stream makes for one spender, one per chunk.\<close>

fun meter_stream :: "calendar \<Rightarrow> cap_id \<Rightarrow> cap_terms \<Rightarrow> (u64 \<times> u64) list \<Rightarrow> node_budgets
    \<Rightarrow> meter_outcome list \<times> node_budgets" where
  "meter_stream cal i t [] s = ([], s)"
| "meter_stream cal i t ((tokens, now) # cs) s =
     (let (outcome, as, s1) = meter cal i (Some t) tokens now s;
          (outcomes, s2) = meter_stream cal i t cs s1
      in (outcome # outcomes, s2))"

text \<open>The chunks all arrive in the window with identifier \<open>w\<close> (any times for a lifetime
  cap).\<close>

definition same_window :: "calendar \<Rightarrow> cap_terms \<Rightarrow> u64 \<Rightarrow> u64 \<Rightarrow> bool" where
  "same_window cal t wid now \<longleftrightarrow>
     (case ct_window t of None \<Rightarrow> wid = 0 | Some w \<Rightarrow> id_at cal w now = wid)"

definition settled_in :: "cap_terms \<Rightarrow> u64 \<Rightarrow> nb_entry \<Rightarrow> bool" where
  "settled_in t wid e \<longleftrightarrow> ne_window e = ct_window t \<and> (ct_window t \<noteq> None \<longrightarrow> ne_window_id e = wid)"

lemma settled_current: "settled_in t wid e \<Longrightarrow> same_window cal t wid now \<Longrightarrow> current cal t now e"
  by (auto simp: settled_in_def same_window_def current_def split: option.splits)

lemma meter_settled:
  assumes "nb_wf s" "bt_get (nb_inner s) i = Some e" "settled_in t wid e" "same_window cal t wid now"
    "meter cal i (Some t) tokens now s = (outcome, as, s')"
  shows "outcome = (if lb_spent (commit tokens (ne_budget e)) >
             meter_bound (nb_partitioned s) (ct_cap t) (ne_budget e) then Cut i (ct_cap t) else Continue)"
    and "nb_wf s' \<and> nb_partitioned s' = nb_partitioned s \<and>
      (\<exists>e'. bt_get (nb_inner s') i = Some e' \<and> settled_in t wid e' \<and> ne_budget e' = commit tokens (ne_budget e))"
proof -
  have en: "ensure i (Some (ct_cap t)) s = e" using assms(2) by (simp add: ensure_def bt_entry_def)
  have sy: "sync_terms cal (Some t) now e = e\<lparr>ne_alert_fraction := ct_alert_fraction t\<rparr>"
    using assms(3,4) by (intro sync_current settled_current)
  have o: "outcome = fst (meter cal i (Some t) tokens now s)"
    and st: "s' = snd (snd (meter cal i (Some t) tokens now s))" using assms(5) by simp_all
  show "outcome = (if lb_spent (commit tokens (ne_budget e)) >
             meter_bound (nb_partitioned s) (ct_cap t) (ne_budget e) then Cut i (ct_cap t) else Continue)"
    by (simp add: o fst_meter en sy Let_def meter_bound_def frame_simps)
  show "nb_wf s' \<and> nb_partitioned s' = nb_partitioned s \<and>
      (\<exists>e'. bt_get (nb_inner s') i = Some e' \<and> settled_in t wid e' \<and> ne_budget e' = commit tokens (ne_budget e))"
    using assms(1,3) unfolding st meter_state
    by (auto simp: en sy meter_alerts_frame settled_in_def intro: wf_intros)
qed

lemma meter_stream_settled:
  assumes "nb_wf s" "bt_get (nb_inner s) i = Some e" "settled_in t wid e"
    "\<forall>(tokens, now) \<in> set cs. same_window cal t wid now"
    "unat (lb_spent (ne_budget e)) + sum_list (map (unat \<circ> fst) cs) < 2 ^ 64"
    "meter_stream cal i t cs s = (outcomes, s')"
  shows "outcomes = map (\<lambda>k. if unat (lb_spent (ne_budget e)) + sum_list (map (unat \<circ> fst) (take (Suc k) cs)) >
        unat (meter_bound (nb_partitioned s) (ct_cap t) (ne_budget e)) then Cut i (ct_cap t) else Continue)
        [0..<length cs] \<and> nb_wf s' \<and>
      (\<exists>e'. bt_get (nb_inner s') i = Some e' \<and> settled_in t wid e' \<and>
         unat (lb_spent (ne_budget e')) = unat (lb_spent (ne_budget e)) + sum_list (map (unat \<circ> fst) cs) \<and>
         lb_cap (ne_budget e') = lb_cap (ne_budget e) \<and> lb_share (ne_budget e') = lb_share (ne_budget e))"
  using assms
proof (induction cs arbitrary: s e outcomes s')
  case Nil
  then show ?case by auto
next
  case (Cons c cs)
  obtain tokens now where c: "c = (tokens, now)" by (cases c)
  obtain o1 as s1 where m: "meter cal i (Some t) tokens now s = (o1, as, s1)" by (metis prod_cases3)
  obtain os s2 where r: "meter_stream cal i t cs s1 = (os, s2)" by force
  have same: "same_window cal t wid now" using Cons.prems(4) c by auto
  note ms = meter_settled [OF Cons.prems(1-3) same m]
  obtain e1 where e1: "bt_get (nb_inner s1) i = Some e1" "settled_in t wid e1"
      "ne_budget e1 = commit tokens (ne_budget e)" and wf1: "nb_wf s1"
    and part: "nb_partitioned s1 = nb_partitioned s"
    using ms(2) by blast
  have sp: "unat (lb_spent (ne_budget e1)) = unat (lb_spent (ne_budget e)) + unat tokens"
    using Cons.prems(5) by (simp add: e1(3) spent_commit c)
  have b1: "meter_bound (nb_partitioned s1) (ct_cap t) (ne_budget e1) =
      meter_bound (nb_partitioned s) (ct_cap t) (ne_budget e)"
    by (simp add: part e1(3) meter_bound_def frame_simps)
  have h1: "\<forall>(tokens, now) \<in> set cs. same_window cal t wid now" using Cons.prems(4) by auto
  have h2: "unat (lb_spent (ne_budget e1)) + sum_list (map (unat \<circ> fst) cs) < 2 ^ 64"
    using Cons.prems(5) sp c by (simp add: comp_def add.assoc)
  have IH: "os = map (\<lambda>k. if unat (lb_spent (ne_budget e1)) + sum_list (map (unat \<circ> fst) (take (Suc k) cs)) >
        unat (meter_bound (nb_partitioned s1) (ct_cap t) (ne_budget e1)) then Cut i (ct_cap t) else Continue)
        [0..<length cs] \<and> nb_wf s2 \<and>
      (\<exists>e'. bt_get (nb_inner s2) i = Some e' \<and> settled_in t wid e' \<and>
         unat (lb_spent (ne_budget e')) = unat (lb_spent (ne_budget e1)) + sum_list (map (unat \<circ> fst) cs) \<and>
         lb_cap (ne_budget e') = lb_cap (ne_budget e1) \<and> lb_share (ne_budget e') = lb_share (ne_budget e1))"
    by (rule Cons.IH [OF wf1 e1(1,2) h1 h2 r])
  have res: "outcomes = o1 # os" "s' = s2" using Cons.prems(6) by (simp_all add: c m r)
  have o1: "o1 = (if unat (lb_spent (ne_budget e)) + unat tokens >
      unat (meter_bound (nb_partitioned s) (ct_cap t) (ne_budget e)) then Cut i (ct_cap t) else Continue)"
    using ms(1) sp by (simp add: e1(3) word_less_nat_alt)
  have up: "[0..<length (c # cs)] = 0 # map Suc [0..<length cs]"
    by (simp add: map_Suc_upt upt_conv_Cons del: upt_Suc)
  have keep: "lb_cap (ne_budget e1) = lb_cap (ne_budget e)" "lb_share (ne_budget e1) = lb_share (ne_budget e)"
    by (simp_all add: e1(3) frame_simps)
  note IH [unfolded sp b1 keep]
  then show ?case unfolding res up
    using o1 by (auto simp: c comp_def add.assoc)
qed

section \<open>Properties\<close>

text \<open>Metering a stream within one billing window: the counter ends at the old
  spend plus the sum of the chunks, and the \<open>k\<close>-th chunk is answered with a cut exactly
  when the running total has crossed the bound (the cap when connected, the held share when
  partitioned).\<close>

theorem meter_stream_cuts_at_bound:
  assumes "nb_wf s" "bt_get (nb_inner s) i = Some e" "settled_in t wid e"
    "\<forall>(tokens, now) \<in> set cs. same_window cal t wid now"
    "unat (lb_spent (ne_budget e)) + sum_list (map (unat \<circ> fst) cs) < 2 ^ 64"
    "k < length cs"
  shows "fst (meter_stream cal i t cs s) ! k =
      (if unat (lb_spent (ne_budget e)) + sum_list (map (unat \<circ> fst) (take (Suc k) cs)) >
          unat (meter_bound (nb_partitioned s) (ct_cap t) (ne_budget e))
       then Cut i (ct_cap t) else Continue) \<and>
    nb_snapshot i (snd (meter_stream cal i t cs s)) =
      Some (lb_cap (ne_budget e), lb_share (ne_budget e),
            lb_spent (ne_budget e) + of_nat (sum_list (map (unat \<circ> fst) cs)))"
proof -
  obtain os s' where r: "meter_stream cal i t cs s = (os, s')" by force
  from meter_stream_settled [OF assms(1-5) r] assms(6) show ?thesis
    by (auto simp: r nb_snapshot_def intro: u64_addI)
qed

theorem meter_stream_cuts_at_bound_witness:
  "\<exists>s. fst (meter_stream (\<lambda>_. None) (CapId ''team'' ''ml'')
      \<lparr>ct_cap = 100, ct_window = None, ct_alert_fraction = FFin (1 / 2)\<rparr> [(60, 0), (50, 0)] s) ! 1 =
      Cut (CapId ''team'' ''ml'') 100"
proof -
  define t where "t = \<lparr>ct_cap = 100, ct_window = None, ct_alert_fraction = FFin (1 / 2)\<rparr>"
  define i where "i = CapId ''team'' ''ml''"
  define s where "s = put_entry i (fresh_entry i (Some 100)) (nb_new ''n1'')"
  have "fst (meter_stream (\<lambda>_. None) i t [(60, 0), (50, 0)] s) ! 1 = Cut i 100"
    by (subst meter_stream_cuts_at_bound [where wid = 0 and e = "fresh_entry i (Some 100)", THEN conjunct1])
      (simp_all add: s_def t_def nb_wf_put_entry nb_wf_new settled_in_def fresh_entry_def
        same_window_def lb_new_def meter_bound_def)
  then show ?thesis unfolding i_def t_def by blast
qed

text \<open>Settling after a stream: within one window the counter ends at the old
  spend plus the provider's authoritative count, whatever the live estimate summed to.\<close>

theorem stream_settles_to_authoritative:
  assumes "nb_wf s" "bt_get (nb_inner s) i = Some e" "settled_in t wid e"
    "\<forall>(tokens, now) \<in> set cs. same_window cal t wid now" "same_window cal t wid now'"
    "estimated = sum_list (map (unat \<circ> fst) cs)"
    "unat (lb_spent (ne_budget e)) + max estimated (unat authoritative) < 2 ^ 64"
  shows "nb_snapshot i (settle cal i (of_nat estimated) authoritative now' (snd (meter_stream cal i t cs s))) =
    Some (lb_cap (ne_budget e), lb_share (ne_budget e), lb_spent (ne_budget e) + authoritative)"
proof -
  obtain os s' where r: "meter_stream cal i t cs s = (os, s')" by force
  have fits: "unat (lb_spent (ne_budget e)) + sum_list (map (unat \<circ> fst) cs) < 2 ^ 64"
    using assms(6,7) by simp
  obtain e' where wf: "nb_wf s'" and e': "bt_get (nb_inner s') i = Some e'" "settled_in t wid e'"
    and sp: "unat (lb_spent (ne_budget e')) = unat (lb_spent (ne_budget e)) + estimated"
    and keep: "lb_cap (ne_budget e') = lb_cap (ne_budget e)" "lb_share (ne_budget e') = lb_share (ne_budget e)"
    using meter_stream_settled [OF assms(1-4) fits r] assms(6) by auto
  have ro: "roll cal now' e' = e'" using e'(2) assms(5) by (intro roll_current settled_current)
  define b where "b = (ne_budget e')\<lparr>lb_spent := lb_spent (ne_budget e)\<rparr>"
  have eu: "unat (of_nat estimated :: u64) = estimated" using assms(7) by (simp add: unat_of_nat)
  have b: "ne_budget e' = commit (of_nat estimated) b"
  proof -
    have "unat (lb_spent (commit (of_nat estimated) b)) = unat (lb_spent (ne_budget e'))"
      using assms(7) by (simp add: spent_commit eu sp b_def)
    then have "lb_spent (commit (of_nat estimated) b) = lb_spent (ne_budget e')"
      by (metis u64_of_nat_unat)
    then show ?thesis by (simp add: commit_def b_def)
  qed
  have "lb_reconcile (of_nat estimated) authoritative (ne_budget e') = commit authoritative b"
    unfolding b by (rule reconcile_spent) (use assms(7) in \<open>simp add: eu b_def\<close>)
  moreover have "lb_spent (commit authoritative b) = lb_spent (ne_budget e) + authoritative"
  proof -
    have "unat (lb_spent (ne_budget e)) + unat authoritative < 2 ^ 64" using assms(7) by linarith
    then show ?thesis by (simp add: commit_def b_def sat_add_def)
  qed
  moreover have "lb_cap (commit authoritative b) = lb_cap (ne_budget e)"
    "lb_share (commit authoritative b) = lb_share (ne_budget e)"
    by (simp_all add: frame_simps) (simp_all add: b_def keep)
  ultimately show ?thesis using wf by (simp add: r settle_def e'(1) ro nb_snapshot_def Let_def)
qed

theorem stream_settles_to_authoritative_witness:
  "\<exists>s. nb_snapshot (CapId ''team'' ''ml'') (settle (\<lambda>_. None) (CapId ''team'' ''ml'') (of_nat 110) 70 0
      (snd (meter_stream (\<lambda>_. None) (CapId ''team'' ''ml'')
        \<lparr>ct_cap = 100, ct_window = None, ct_alert_fraction = FFin (1 / 2)\<rparr> [(60, 0), (50, 0)] s))) =
      Some (Some 100, 100, 70)"
proof -
  define t where "t = \<lparr>ct_cap = 100, ct_window = None, ct_alert_fraction = FFin (1 / 2)\<rparr>"
  define i where "i = CapId ''team'' ''ml''"
  define s where "s = put_entry i (fresh_entry i (Some 100)) (nb_new ''n1'')"
  have "nb_snapshot i (settle (\<lambda>_. None) i (of_nat 110) 70 0
      (snd (meter_stream (\<lambda>_. None) i t [(60, 0), (50, 0)] s))) = Some (Some 100, 100, 70)"
    by (subst stream_settles_to_authoritative [where wid = 0 and e = "fresh_entry i (Some 100)"])
      (simp_all add: s_def t_def nb_wf_put_entry nb_wf_new settled_in_def fresh_entry_def
        same_window_def lb_new_def)
  then show ?thesis unfolding i_def t_def by blast
qed

text \<open>The lazy rollover: touching a spender in a later window starts its
  counter and its alert latch afresh before anything is decided, keeps its cap and its
  share, and leaves the entry in the window of the clock.\<close>

theorem new_window_starts_over:
  assumes "bt_get (nb_inner s) i = Some e" "nb_wf s" "ct_window t = Some w"
    "ne_window e = Some w" "ne_window_id e \<noteq> id_at cal w now"
  shows "\<exists>e'. bt_get (nb_inner (snd (admit cal i (Some t) now s))) i = Some e' \<and>
      ne_budget e' = reset_window_spend (ne_budget e) \<and> ne_latch e' = latch_new \<and>
      current cal t now e' \<and>
      fst (admit cal i (Some t) now s) =
        (if nb_partitioned s then check_partitioned (reset_window_spend (ne_budget e)) 1
         else check (reset_window_spend (ne_budget e)) 1)"
  using assms
  by (auto simp: admit_def Let_def ensure_def bt_entry_def sync_terms_def roll_def current_def)

theorem new_window_starts_over_witness:
  "\<exists>e'. bt_get (nb_inner (snd (admit (\<lambda>_. None) (CapId ''team'' ''ml'')
        (Some \<lparr>ct_cap = 100, ct_window = Some Minute, ct_alert_fraction = FFin (1 / 2)\<rparr>) 120
        (put_entry (CapId ''team'' ''ml'')
          ((fresh_entry (CapId ''team'' ''ml'') (Some 100))\<lparr>ne_window := Some Minute, ne_window_id := 1\<rparr>)
          (nb_new ''n1''))))) (CapId ''team'' ''ml'') = Some e' \<and> ne_latch e' = latch_new"
  using new_window_starts_over [where i = "CapId ''team'' ''ml''" and now = 120 and w = Minute and cal = "\<lambda>_. None"
      and t = "\<lparr>ct_cap = 100, ct_window = Some Minute, ct_alert_fraction = FFin (1 / 2)\<rparr>"
      and s = "put_entry (CapId ''team'' ''ml'')
          ((fresh_entry (CapId ''team'' ''ml'') (Some 100))\<lparr>ne_window := Some Minute, ne_window_id := 1\<rparr>)
          (nb_new ''n1'')"]
  by (simp add: nb_wf_put_entry nb_wf_new id_at_def) blast

text \<open>A hot-swapped cap is not adopted at admission: once a spender has an
  entry, \<open>admit\<close> decides against the cap the entry was created with, so a spender that has
  used up the old cap stays refused although the terms of the request carry a higher cap
  (\<open>meter\<close> does use the new one).\<close>

theorem admit_keeps_first_cap:
  assumes "bt_get (nb_inner s) i = Some e" "current cal t now e" "\<not> nb_partitioned s"
    "lb_cap (ne_budget e) = Some old" "old \<le> lb_spent (ne_budget e)" "old \<noteq> - 1"
  shows "fst (admit cal i (Some (t\<lparr>ct_cap := raised\<rparr>)) now s) = Deny old"
proof -
  have cur: "current cal (t\<lparr>ct_cap := raised\<rparr>) now e" using assms(2) by (simp add: current_def)
  have "unat old < 2 ^ 64 - 1"
    using assms(6) by (rule u64_less_max)
  then have "old < sat_add (lb_spent (ne_budget e)) 1"
    using assms(5) by (simp add: word_less_nat_alt word_le_nat_alt unat_sat_add)
  then show ?thesis using assms(1,3,4)
    by (simp add: admit_def Let_def ensure_def bt_entry_def sync_current [OF cur] check_def)
qed

theorem admit_keeps_first_cap_witness:
  "\<exists>s. fst (admit (\<lambda>_. None) (CapId ''team'' ''ml'')
      (Some (\<lparr>ct_cap = 100, ct_window = None, ct_alert_fraction = FFin (1 / 2)\<rparr>\<lparr>ct_cap := 1000000\<rparr>)) 0 s) = Deny 100"
proof -
  define i where "i = CapId ''team'' ''ml''"
  define e where "e = (fresh_entry i (Some 100))\<lparr>ne_budget := commit 100 (lb_new i (Some 100) 100)\<rparr>"
  have "fst (admit (\<lambda>_. None) i
      (Some (\<lparr>ct_cap = 100, ct_window = None, ct_alert_fraction = FFin (1 / 2)\<rparr>\<lparr>ct_cap := 1000000\<rparr>)) 0
      (put_entry i e (nb_new ''n1''))) = Deny 100"
    by (rule admit_keeps_first_cap [where e = e])
      (simp_all add: nb_wf_new e_def current_def fresh_entry_def lb_new_def commit_def sat_add_def nb_new_def put_entry_def)
  then show ?thesis unfolding i_def by blast
qed

text \<open>Spenders do not interfere: the operations addressed to other spenders
  (admission, metering, settling, share grants) leave a spender's cap, share and spend as
  they are.\<close>

theorem spenders_are_isolated:
  assumes "nb_wf s" "j \<noteq> i"
  shows "nb_snapshot j (snd (admit cal i terms now s)) = nb_snapshot j s \<and>
    nb_snapshot j (snd (snd (meter cal i terms tokens now s))) = nb_snapshot j s \<and>
    nb_snapshot j (settle cal i estimated authoritative now s) = nb_snapshot j s \<and>
    nb_snapshot j (apply_shares [(i, cap, share)] s) = nb_snapshot j s"
  unfolding nb_snapshot_def
  using admit_op.step_other [OF assms, of cal terms now] meter_op.step_other [OF assms, of cal terms tokens now]
    settle_op.step_other [OF assms] grant_op.step_other [OF assms, of cap share]
  by (simp add: grant_one_def)

theorem spenders_are_isolated_witness:
  "nb_snapshot (CapId ''team'' ''a'') (snd (snd (meter (\<lambda>_. None) (CapId ''team'' ''b'') None 5 0 (nb_new ''n1'')))) =
   nb_snapshot (CapId ''team'' ''a'') (nb_new ''n1'')"
  using spenders_are_isolated [OF nb_wf_new, where j = "CapId ''team'' ''a''" and i = "CapId ''team'' ''b''"]
  by simp

end
