(* ===== verification/Client.thy ===== *)
theory Client
  imports ControlPlane Rollout Reloader NodeBudget
begin

text \<open>
  \<open>gatewayd/src/client.rs\<close>: the node's half of the stream.  The transport is a parameter: what
  arrives is a list of inbound messages, what is sent is collected in order, and a dial that
  fails is an error text.  A panic of the client task is a value too: the thread it runs on ends, the
  data plane serves on.  A node in control-plane mode has no swap hook, so its reloader state is
  the reloader alone.  The last section composes the node with the control plane's wave: what a
  committed wave says about the nodes in it.
\<close>

section \<open>What arrives\<close>

datatype inbound =
    IPush rendered_snapshot
  | IShareGrant "budget_share list"
  | IAckOfStatus
  | IEmpty
  | IError string

definition PUSH_SOURCE :: string where
  "PUSH_SOURCE = ''<control-plane>''"

definition STATUS_INTERVAL_MS :: nat where
  "STATUS_INTERVAL_MS = 10000"

definition USAGE_INTERVAL_MS :: nat where
  "USAGE_INTERVAL_MS = 2000"

definition RECONNECT_BACKOFF_MIN_MS :: nat where
  "RECONNECT_BACKOFF_MIN_MS = 500"

definition RECONNECT_BACKOFF_MAX_MS :: nat where
  "RECONNECT_BACKOFF_MAX_MS = 30000"

record 'c node_client =
  nc_reloader :: "'c reloader"
  nc_last_version :: u64
  nc_budgets :: node_budgets
  nc_out :: "client_message list"

definition hello_message :: "string \<Rightarrow> string \<Rightarrow> u64 \<Rightarrow> client_message" where
  "hello_message node token last_version = CHello node token [] last_version"

section \<open>Hashes in the log\<close>

text \<open>\<open>short\<close> is the helper of \<open>server.rs\<close>; \<open>client.rs\<close> has the same one.  \<open>None\<close>: it panicked.\<close>

definition hash_mismatch_note :: "string \<Rightarrow> string \<Rightarrow> string option" where
  "hash_mismatch_note advertised bound =
     (if advertised = bound then Some []
      else (case (short advertised, short bound) of
              (Some a, Some b) \<Rightarrow> Some ('' [!] advertised_render_hash='' @ a @ '' != bound_hash='' @ b)
            | _ \<Rightarrow> None))"

text \<open>The hash of a text is a hex digest, so it can be cut anywhere.\<close>

lemma short_content_hash: "short (content_hash E t) = Some (take 12 (content_hash E t))"
proof -
  have digit: "\<not> cont_byte (hex_digit n)" if "n < 16" for n
    using that by (simp add: hex_digit_def cont_byte_def between_def of_char_of)
  have "(of_char b :: nat) div 16 < 16" for b
  proof -
    have "(of_char b :: nat) < 256" by simp
    then show ?thesis by (simp add: less_mult_imp_div_less)
  qed
  then have "\<not> cont_byte c" if "c \<in> set (content_hash E t)" for c
    using that by (auto simp: content_hash_def digit)
  then show ?thesis using nth_mem by (auto simp: short_def Let_def min_def)
qed

section \<open>The first push\<close>

datatype bootstrap_failure = BootFailed string | BootPanicked

text \<open>\<open>wait_first_push\<close>: the answers sent, and the bootstrapped reloader or how it failed.\<close>

fun wait_first_push ::
  "render_env \<Rightarrow> (string \<Rightarrow> 'e + 'c) \<Rightarrow> ('e \<Rightarrow> string) \<Rightarrow> inbound list \<Rightarrow>
   client_message list \<times> (bootstrap_failure + 'c reloader \<times> u64 \<times> inbound list)"
where
  "wait_first_push E from_yaml show_e [] = ([], Inl (BootFailed ''stream closed before first snapshot''))"
| "wait_first_push E from_yaml show_e (msg # rest) =
     (case msg of
        IError e \<Rightarrow> ([], Inl (BootFailed (''stream error before first snapshot: '' @ e)))
      | IPush snap \<Rightarrow>
          if \<not> is_utf8 (rs_config snap)
          then (let reason = ''pushed config is not utf-8''
                in ([CNack (rs_fleet_version snap) (rs_render_hash snap) reason], Inl (BootFailed reason)))
          else (case bootstrap_from_text E from_yaml (rs_config snap) PUSH_SOURCE of
              Inr rl \<Rightarrow>
                (let bound_hash = sn_content_hash (rl_shared rl) in
                 case hash_mismatch_note (rs_render_hash snap) bound_hash of
                   None \<Rightarrow> ([], Inl BootPanicked)
                 | Some note \<Rightarrow>
                     ([CAck (rs_fleet_version snap) bound_hash], Inr (rl, rs_fleet_version snap, rest)))
            | Inl e \<Rightarrow>
                ([CNack (rs_fleet_version snap) (rs_render_hash snap) (show_e e)],
                 Inl (BootFailed (''first snapshot rejected: '' @ show_e e))))
      | _ \<Rightarrow> wait_first_push E from_yaml show_e rest)"

section \<open>Later pushes and grants\<close>

text \<open>The answer, whether it is an ACK, and the reloader.  No answer: the note on the hashes, which is
  made once the text is bound and before the outcome is looked at, panicked.\<close>

definition bind_push ::
  "render_env \<Rightarrow> (string \<Rightarrow> 'e + 'c) \<Rightarrow> (u64 \<Rightarrow> string) \<Rightarrow> rendered_snapshot \<Rightarrow> 'c reloader \<Rightarrow>
   client_message option \<times> bool \<times> 'c reloader"
where
  "bind_push E from_yaml show_v snap rl =
     (if \<not> is_utf8 (rs_config snap)
      then (Some (CNack (rs_fleet_version snap) (rs_render_hash snap) ''pushed config is not utf-8''), False, rl)
      else
        let (outcome, rl', _) = reload_from_text E from_yaml None (rs_config snap) PUSH_SOURCE (rl, ());
            bound_hash = sn_content_hash (rl_shared rl')
        in case hash_mismatch_note (rs_render_hash snap) bound_hash of
             None \<Rightarrow> (None, False, rl')
           | Some note \<Rightarrow>
               (case outcome of
                  Swapped old new \<Rightarrow> (Some (CAck (rs_fleet_version snap) bound_hash), True, rl')
                | NoOp active \<Rightarrow> (Some (CAck (rs_fleet_version snap) bound_hash), True, rl')
                | Rejected active \<Rightarrow>
                    (Some (CNack (rs_fleet_version snap) (rs_render_hash snap)
                       (''pushed config failed local validation; still serving local cfg=v'' @ show_v active)),
                     False, rl')))"

definition apply_share_grant :: "budget_share list \<Rightarrow> node_budgets \<Rightarrow> node_budgets" where
  "apply_share_grant shares b =
     (if shares = [] then b
      else apply_shares (map (\<lambda>s. (CapId (bs_key s) (bs_value s), bs_cap_tokens s, bs_tokens s)) shares) b)"

text \<open>One message of the steady state: the stream ends, goes on, or the task panics on it.\<close>

datatype 'c stream_step = Ends | Goes "'c node_client" | Panics "'c node_client"

definition on_inbound ::
  "render_env \<Rightarrow> (string \<Rightarrow> 'e + 'c) \<Rightarrow> (u64 \<Rightarrow> string) \<Rightarrow> inbound \<Rightarrow> 'c node_client \<Rightarrow> 'c stream_step"
where
  "on_inbound E from_yaml show_v msg c =
     (case msg of
        IError e \<Rightarrow> Ends
      | IPush snap \<Rightarrow>
          (let (reply, acked, rl) = bind_push E from_yaml show_v snap (nc_reloader c)
           in case reply of
                None \<Rightarrow> Panics (c\<lparr>nc_reloader := rl\<rparr>)
              | Some answer \<Rightarrow> Goes (c\<lparr>nc_reloader := rl, nc_out := nc_out c @ [answer],
                  nc_last_version := (if acked then rs_fleet_version snap else nc_last_version c)\<rparr>))
      | IShareGrant shares \<Rightarrow> Goes (c\<lparr>nc_budgets := apply_share_grant shares (nc_budgets c)\<rparr>)
      | IAckOfStatus \<Rightarrow> Goes c
      | IEmpty \<Rightarrow> Goes c)"

text \<open>The loop over the stream, with whether it panicked.\<close>

fun run_stream ::
  "render_env \<Rightarrow> (string \<Rightarrow> 'e + 'c) \<Rightarrow> (u64 \<Rightarrow> string) \<Rightarrow> inbound list \<Rightarrow> 'c node_client \<Rightarrow>
   bool \<times> 'c node_client"
where
  "run_stream E from_yaml show_v [] c = (False, c)"
| "run_stream E from_yaml show_v (msg # rest) c =
     (case on_inbound E from_yaml show_v msg c of
        Ends \<Rightarrow> (False, c)
      | Panics c' \<Rightarrow> (True, c')
      | Goes c' \<Rightarrow> run_stream E from_yaml show_v rest c')"

text \<open>\<open>connect_once\<close> of a node that has bootstrapped: a dial that failed changes nothing; a stream that
  ran gives whether it panicked.\<close>

definition reconnect ::
  "render_env \<Rightarrow> (string \<Rightarrow> 'e + 'c) \<Rightarrow> (u64 \<Rightarrow> string) \<Rightarrow> string \<Rightarrow> string \<Rightarrow> string + inbound list \<Rightarrow>
   'c node_client \<Rightarrow> (string + bool) \<times> 'c node_client"
where
  "reconnect E from_yaml show_v node token dialled c =
     (case dialled of
        Inl e \<Rightarrow> (Inl e, c)
      | Inr messages \<Rightarrow>
          (let (panicked, c') = run_stream E from_yaml show_v messages
             (c\<lparr>nc_out := nc_out c @ [hello_message node token (nc_last_version c)],
                nc_budgets := set_partitioned False (nc_budgets c)\<rparr>)
           in (Inr panicked, c')))"

text \<open>\<open>connect_once\<close> of the first connection: what was sent, and the failure or whether the stream
  panicked later with the node it left.\<close>

definition connect_first ::
  "render_env \<Rightarrow> (string \<Rightarrow> 'e + 'c) \<Rightarrow> ('e \<Rightarrow> string) \<Rightarrow> (u64 \<Rightarrow> string) \<Rightarrow> string \<Rightarrow> string \<Rightarrow>
   string + inbound list \<Rightarrow> node_budgets \<Rightarrow>
   client_message list \<times> (bootstrap_failure + bool \<times> 'c node_client)"
where
  "connect_first E from_yaml show_e show_v node token dialled b =
     (case dialled of
        Inl e \<Rightarrow> ([], Inl (BootFailed e))
      | Inr messages \<Rightarrow>
          (case wait_first_push E from_yaml show_e messages of
             (answers, Inl e) \<Rightarrow> (hello_message node token 0 # answers, Inl e)
           | (answers, Inr (rl, version, rest)) \<Rightarrow>
               (let c = \<lparr>nc_reloader = rl, nc_last_version = version, nc_budgets = set_partitioned False b,
                         nc_out = hello_message node token 0 # answers\<rparr>;
                    (panicked, c') = run_stream E from_yaml show_v rest c
                in (nc_out c', Inr (panicked, c')))))"

text \<open>One round of the supervisor: partition, sleep the backoff, dial again.  A panic ends the thread:
  there is no backoff any more and nothing is dialled.\<close>

definition supervise_round ::
  "render_env \<Rightarrow> (string \<Rightarrow> 'e + 'c) \<Rightarrow> (u64 \<Rightarrow> string) \<Rightarrow> string \<Rightarrow> string \<Rightarrow> string + inbound list \<Rightarrow>
   nat option \<times> 'c node_client \<Rightarrow> nat option \<times> 'c node_client"
where
  "supervise_round E from_yaml show_v node token dialled = (\<lambda>(alive, c).
     (case alive of
        None \<Rightarrow> (None, c)
      | Some backoff \<Rightarrow>
          (case reconnect E from_yaml show_v node token dialled
             (c\<lparr>nc_budgets := set_partitioned True (nc_budgets c)\<rparr>) of
             (Inr panicked, c') \<Rightarrow> (if panicked then None else Some RECONNECT_BACKOFF_MIN_MS, c')
           | (Inl _, c') \<Rightarrow> (Some (min (backoff * 2) RECONNECT_BACKOFF_MAX_MS), c'))))"

section \<open>The periodic tasks\<close>

definition to_shares :: "(cap_id \<times> u64 \<times> u64) list \<Rightarrow> budget_share list" where
  "to_shares spenders = map (\<lambda>(i, cap, tokens).
     \<lparr>bs_key = ci_key i, bs_value = ci_value i, bs_cap_tokens = cap, bs_tokens = tokens\<rparr>) spenders"

definition usage_tick :: "calendar \<Rightarrow> u64 \<Rightarrow> node_budgets \<Rightarrow> client_message option \<times> node_budgets" where
  "usage_tick cal now b =
     (let (hot, b1) = escalating cal now b in
      if hot \<noteq> [] then (Some (CSyncCheck (to_shares hot)), b1)
      else (let (report, b2) = spend_report cal now b1
            in (if report = [] then None else Some (CUsage (to_shares report)), b2)))"

definition heartbeat :: "'c node_client \<Rightarrow> client_message" where
  "heartbeat c = CStatus (sn_content_hash (rl_shared (nc_reloader c))) ''ok'' 0"

section \<open>What an answer says\<close>

definition ack_of :: "client_message \<Rightarrow> ack_result" where
  "ack_of msg = (case msg of CAck _ h \<Rightarrow> Acked h | CNack _ _ reason \<Rightarrow> Nacked reason | _ \<Rightarrow> Silent)"

definition answer_of :: "client_message option \<Rightarrow> ack_result" where
  "answer_of reply = (case reply of Some msg \<Rightarrow> ack_of msg | None \<Rightarrow> Silent)"

text \<open>The node's part of the protocol: whatever it answers, what it serves is a text it has read,
  under that text's hash, and an acknowledgement carries that hash and not the advertised one.\<close>

lemma bind_push_serves:
  assumes "serves E from_yaml rl start" "bind_push E from_yaml show_v snap rl = (reply, acked, rl')"
  shows "\<exists>t. serves E from_yaml rl' t \<and> (acked \<longrightarrow> content_hash E t = content_hash E (rs_config snap)) \<and>
     (\<not> acked \<and> reply \<noteq> None \<longrightarrow> rl_shared rl' = rl_shared rl) \<and>
     (acked \<longleftrightarrow> reply = Some (CAck (rs_fleet_version snap) (content_hash E (rs_config snap)))) \<and>
     (\<not> acked \<longrightarrow> reply = None \<or> (\<exists>reason. reply = Some (CNack (rs_fleet_version snap) (rs_render_hash snap) reason))) \<and>
     (reply = None \<longrightarrow> short (rs_render_hash snap) = None) \<and>
     (\<forall>h. answer_of reply = Acked h \<longrightarrow> acked \<and> h = content_hash E t)"
proof (cases "is_utf8 (rs_config snap)")
  case False
  then show ?thesis using assms by (auto simp: bind_push_def ack_of_def answer_of_def)
next
  case True
  obtain outcome rl1 where r: "reload_from_text E from_yaml None (rs_config snap) PUSH_SOURCE (rl, ()) = (outcome, rl1, ())"
    by (metis old.unit.exhaust prod_cases3)
  note step = reload_step [OF r]
  obtain t where t: "serves E from_yaml rl1 t"
    using step assms(1) by (auto simp: serves_def split: if_splits)
  then have hash: "sn_content_hash (rl_shared rl1) = content_hash E t" by (simp add: serves_def)
  have panics: "short (rs_render_hash snap) = None"
    if "hash_mismatch_note (rs_render_hash snap) (content_hash E t) = None"
    using that short_content_hash [of E t] by (auto simp: hash_mismatch_note_def split: if_splits option.splits)
  have same: "content_hash E t = content_hash E (rs_config snap)" if "\<forall>v. outcome \<noteq> Rejected v"
    using that step hash reload_swapped_versions [OF r] by (cases outcome) (auto simp: swapped_def serves_def)
  have kept: "rl_shared rl1 = rl_shared rl" if "outcome = Rejected v" for v
    using that step by (simp add: swapped_def)
  let ?note = "hash_mismatch_note (rs_render_hash snap) (content_hash E t)"
  have result: "(reply, acked, rl') = (case ?note of
      None \<Rightarrow> (None, False, rl1)
    | Some note \<Rightarrow> (case outcome of
        Rejected active \<Rightarrow> (Some (CNack (rs_fleet_version snap) (rs_render_hash snap)
          (''pushed config failed local validation; still serving local cfg=v'' @ show_v active)), False, rl1)
      | _ \<Rightarrow> (Some (CAck (rs_fleet_version snap) (content_hash E t)), True, rl1)))"
    using assms(2) True by (auto simp: bind_push_def r Let_def hash split: option.split reload_outcome.split)
  show ?thesis
    by (rule exI [of _ t], cases ?note; cases outcome)
      (use result t same kept panics in \<open>simp_all add: ack_of_def answer_of_def\<close>)
qed

section \<open>The supervisor\<close>

definition client_ok :: "render_env \<Rightarrow> (string \<Rightarrow> 'e + 'c) \<Rightarrow> 'c node_client \<Rightarrow> bool" where
  "client_ok E from_yaml c \<longleftrightarrow> (\<exists>t. serves E from_yaml (nc_reloader c) t)"

text \<open>The version a node's own messages say it bound last, \<open>v0\<close> before the first of them.\<close>

definition last_acked :: "client_message list \<Rightarrow> u64 \<Rightarrow> u64" where
  "last_acked out v0 = fold (\<lambda>m v. case m of CAck v' _ \<Rightarrow> v' | _ \<Rightarrow> v) out v0"

text \<open>Every \<open>Hello\<close> of the log advertises the version acknowledged last before it, and every
  acknowledgement is one of a push in \<open>P\<close>, under the hash of the pushed text.\<close>

definition hellos_honest :: "u64 \<Rightarrow> client_message list \<Rightarrow> bool" where
  "hellos_honest v0 out \<longleftrightarrow>
     (\<forall>pre node token ls v post. out = pre @ CHello node token ls v # post \<longrightarrow> v = last_acked pre v0)"

definition acks_pushed :: "render_env \<Rightarrow> rendered_snapshot set \<Rightarrow> client_message list \<Rightarrow> bool" where
  "acks_pushed E P out \<longleftrightarrow> (\<forall>v h. CAck v h \<in> set out \<longrightarrow>
     (\<exists>snap \<in> P. v = rs_fleet_version snap \<and> h = content_hash E (rs_config snap)))"

definition client_log ::
  "render_env \<Rightarrow> (string \<Rightarrow> 'e + 'c) \<Rightarrow> u64 \<Rightarrow> rendered_snapshot set \<Rightarrow> 'c node_client \<Rightarrow> bool"
where
  "client_log E from_yaml v0 P c \<longleftrightarrow> client_ok E from_yaml c \<and> nc_last_version c = last_acked (nc_out c) v0 \<and>
     hellos_honest v0 (nc_out c) \<and> acks_pushed E P (nc_out c)"

lemma last_acked_snoc [simp]:
  "last_acked [] v0 = v0" "last_acked (out @ [m]) v0 = (case m of CAck v _ \<Rightarrow> v | _ \<Rightarrow> last_acked out v0)"
  by (simp_all add: last_acked_def split: client_message.split)

lemma honest_snoc:
  "hellos_honest v0 (out @ [m]) \<longleftrightarrow>
     hellos_honest v0 out \<and> (\<forall>node token ls v. m = CHello node token ls v \<longrightarrow> v = last_acked out v0)"
proof -
  have "out @ [m] = pre @ x # post \<longleftrightarrow>
      (\<exists>post'. post = post' @ [m] \<and> out = pre @ x # post') \<or> (post = [] \<and> pre = out \<and> x = m)" for pre x post
    by (cases post rule: rev_cases) auto
  then show ?thesis unfolding hellos_honest_def by (auto; blast)
qed

lemma acks_snoc: "acks_pushed E P (out @ [m]) \<longleftrightarrow> acks_pushed E P out \<and>
    (\<forall>v h. m = CAck v h \<longrightarrow> (\<exists>snap \<in> P. v = rs_fleet_version snap \<and> h = content_hash E (rs_config snap)))"
  by (auto simp: acks_pushed_def)

lemma client_log_mono: "client_log E from_yaml v0 P c \<Longrightarrow> P \<subseteq> Q \<Longrightarrow> client_log E from_yaml v0 Q c"
  by (fastforce simp: client_log_def acks_pushed_def)

lemma apply_shares_partitioned: "nb_partitioned (apply_shares grants b) = nb_partitioned b"
  by (induction grants b rule: apply_shares.induct) (simp_all add: Let_def)

lemma on_inbound_log:
  assumes "client_log E from_yaml v0 P c" "\<And>snap. msg = IPush snap \<Longrightarrow> snap \<in> P"
  shows "case on_inbound E from_yaml show_v msg c of
      Ends \<Rightarrow> True
    | Goes c' \<Rightarrow> client_log E from_yaml v0 P c' \<and> (\<exists>answers. nc_out c' = nc_out c @ answers) \<and>
        nb_partitioned (nc_budgets c') = nb_partitioned (nc_budgets c)
    | Panics c' \<Rightarrow> client_log E from_yaml v0 P c' \<and> (\<exists>answers. nc_out c' = nc_out c @ answers) \<and>
        nb_partitioned (nc_budgets c') = nb_partitioned (nc_budgets c) \<and>
        (\<exists>snap. msg = IPush snap \<and> short (rs_render_hash snap) = None)"
proof (cases msg)
  case (IPush snap)
  obtain t where t: "serves E from_yaml (nc_reloader c) t" using assms(1) by (auto simp: client_log_def client_ok_def)
  obtain reply acked rl where b: "bind_push E from_yaml show_v snap (nc_reloader c) = (reply, acked, rl)"
    by (metis prod_cases3)
  note p = bind_push_serves [OF t b]
  have P: "snap \<in> P" by (rule assms(2) [OF IPush])
  show ?thesis
  proof (cases reply)
    case None
    then show ?thesis using p assms(1) by (auto simp: IPush on_inbound_def b client_log_def client_ok_def)
  next
    case (Some answer)
    then show ?thesis using p assms(1) P
      by (cases acked) (auto simp: IPush on_inbound_def b client_log_def client_ok_def honest_snoc acks_snoc)
  qed
next
  case (IShareGrant shares)
  then show ?thesis using assms(1)
    by (simp add: on_inbound_def client_log_def client_ok_def apply_share_grant_def apply_shares_partitioned)
qed (use assms in \<open>auto simp: on_inbound_def client_log_def client_ok_def\<close>)

lemma run_stream_log:
  assumes "client_log E from_yaml v0 P c" "\<And>snap. IPush snap \<in> set msgs \<Longrightarrow> snap \<in> P"
    and "run_stream E from_yaml show_v msgs c = (panicked, c')"
  shows "client_log E from_yaml v0 P c' \<and> (\<exists>answers. nc_out c' = nc_out c @ answers) \<and>
     nb_partitioned (nc_budgets c') = nb_partitioned (nc_budgets c) \<and>
     (panicked \<longrightarrow> (\<exists>snap. IPush snap \<in> set msgs \<and> short (rs_render_hash snap) = None))"
  using assms
proof (induction msgs arbitrary: c)
  case (Cons msg msgs)
  note step = on_inbound_log [OF Cons.prems(1), of msg show_v]
  show ?case
  proof (cases "on_inbound E from_yaml show_v msg c")
    case (Goes c1)
    have "client_log E from_yaml v0 P c1 \<and> (\<exists>answers. nc_out c1 = nc_out c @ answers) \<and>
        nb_partitioned (nc_budgets c1) = nb_partitioned (nc_budgets c)"
      using step Goes Cons.prems(2) by simp
    with Cons.IH [of c1] Cons.prems(2,3) Goes show ?thesis by fastforce
  qed (use step Cons.prems in auto)
qed simp

lemma supervise_round_log:
  assumes "supervise_round E from_yaml show_v node token dialled (Some backoff, c) = (alive, c')"
    and "client_log E from_yaml v0 P c" "\<forall>ms snap. dialled = Inr ms \<longrightarrow> IPush snap \<in> set ms \<longrightarrow> snap \<in> P"
  shows "client_log E from_yaml v0 P c' \<and>
     (case dialled of
        Inl _ \<Rightarrow> alive = Some (min (2 * backoff) 30000) \<and> nc_reloader c' = nc_reloader c \<and>
          nc_last_version c' = nc_last_version c \<and> nc_out c' = nc_out c \<and> nb_partitioned (nc_budgets c')
      | Inr ms \<Rightarrow> (\<exists>answers. nc_out c' = nc_out c @ CHello node token [] (nc_last_version c) # answers) \<and>
          \<not> nb_partitioned (nc_budgets c') \<and>
          (alive = Some 500 \<or> alive = None \<and>
             (\<exists>snap. IPush snap \<in> set ms \<and> short (rs_render_hash snap) = None)))"
proof (cases dialled)
  case (Inl e)
  then show ?thesis
    using assms(1,2)
    by (auto simp: supervise_round_def reconnect_def client_log_def client_ok_def RECONNECT_BACKOFF_MAX_MS_def
      set_partitioned_def mult.commute)
next
  case (Inr msgs)
  let ?c = "c\<lparr>nc_out := nc_out c @ [hello_message node token (nc_last_version c)],
    nc_budgets := set_partitioned False (set_partitioned True (nc_budgets c))\<rparr>"
  obtain panicked c1 where run: "run_stream E from_yaml show_v msgs ?c = (panicked, c1)" by fastforce
  have c': "c' = c1" "alive = (if panicked then None else Some 500)"
    using assms(1) Inr run by (auto simp: supervise_round_def reconnect_def RECONNECT_BACKOFF_MIN_MS_def)
  have log: "client_log E from_yaml v0 P ?c"
    using assms(2) by (simp add: client_log_def client_ok_def hello_message_def honest_snoc acks_snoc)
  have "snap \<in> P" if "IPush snap \<in> set msgs" for snap using assms(3) Inr that by blast
  from run_stream_log [OF log this run] show ?thesis
    unfolding c' Inr by (auto simp: hello_message_def set_partitioned_def)
qed

definition pushes_of :: "(string + inbound list) list \<Rightarrow> rendered_snapshot set" where
  "pushes_of rounds = {snap. \<exists>ms. Inr ms \<in> set rounds \<and> IPush snap \<in> set ms}"

lemma supervise_log:
  "fold (supervise_round E from_yaml show_v node token) rounds (Some b, c) = (alive, c') \<Longrightarrow>
   client_log E from_yaml v0 P c \<Longrightarrow> pushes_of rounds \<subseteq> P \<Longrightarrow> b \<in> {500..30000} \<Longrightarrow>
   client_log E from_yaml v0 P c' \<and>
   (case alive of
      Some b' \<Rightarrow> b' \<in> {500..30000}
    | None \<Rightarrow> \<not> nb_partitioned (nc_budgets c') \<and>
        (\<exists>snap \<in> pushes_of rounds. short (rs_render_hash snap) = None))"
proof (induction rounds arbitrary: b c)
  case (Cons r rounds)
  have dead: "fold (supervise_round E from_yaml show_v node token) rs (None, d) = (None, d)" for rs d
    by (induction rs) (simp_all add: supervise_round_def)
  obtain alive1 c1 where r: "supervise_round E from_yaml show_v node token r (Some b, c) = (alive1, c1)" by fastforce
  have P: "pushes_of rounds \<subseteq> P" "\<forall>ms snap. r = Inr ms \<longrightarrow> IPush snap \<in> set ms \<longrightarrow> snap \<in> P"
    "pushes_of rounds \<subseteq> pushes_of (r # rounds)"
    "\<And>ms snap. r = Inr ms \<Longrightarrow> IPush snap \<in> set ms \<Longrightarrow> snap \<in> pushes_of (r # rounds)"
    using Cons.prems(3) by (auto simp: pushes_of_def)
  note one = supervise_round_log [OF r Cons.prems(2) P(2)]
  show ?case
  proof (cases alive1)
    case None
    then have "alive = None" "c' = c1" using Cons.prems(1) r dead [of rounds] by auto
    then obtain ms snap where "r = Inr ms" "IPush snap \<in> set ms" "short (rs_render_hash snap) = None"
      using one None by (auto split: sum.splits)
    then show ?thesis using one P(4) \<open>alive = None\<close> \<open>c' = c1\<close> by auto
  next
    case (Some b1)
    have "b1 \<in> {500..30000}" using one Some Cons.prems(4) by (cases r) auto
    moreover have "fold (supervise_round E from_yaml show_v node token) rounds (Some b1, c1) = (alive, c')"
      using Cons.prems(1) r Some by simp
    ultimately have "client_log E from_yaml v0 P c' \<and>
       (case alive of
          Some b' \<Rightarrow> b' \<in> {500..30000}
        | None \<Rightarrow> \<not> nb_partitioned (nc_budgets c') \<and>
            (\<exists>snap \<in> pushes_of rounds. short (rs_render_hash snap) = None))"
      using Cons.IH [of b1 c1] one P(1) by blast
    then show ?thesis using P(3) by (cases alive) auto
  qed
qed auto

text \<open>Property C30. A node that has bootstrapped keeps serving a configuration it has read over any
  number of supervisor rounds, whatever the control plane and the network do, and its log is honest:
  every \<open>Hello\<close> advertises the version of the push acknowledged last before it, every
  acknowledgement is one of a push that arrived, under the hash of the pushed text, and the version
  kept is the one acknowledged last.  As long as the supervisor runs, the backoff stays between half a
  second and thirty seconds, a failed dial doubles it up to the bound, leaves what is served and
  advertised untouched and leaves the budgets in partition mode, and a dial that succeeds sends the
  \<open>Hello\<close> and resets the backoff.  The supervisor stops in one way only: the client panics on a push
  whose advertised hash cannot be cut at its twelfth byte; it then never dials again,
  and the budgets are left out of partition mode.\<close>

theorem supervised_node_keeps_serving:
  assumes "client_ok E from_yaml c" "nc_out c = []"
    and "fold (supervise_round E from_yaml show_v node token) rounds (Some 500, c) = (alive, c1)"
    and "supervise_round E from_yaml show_v node token dialled (alive, c1) = (alive', c2)"
  shows "client_ok E from_yaml c2 \<and> nc_last_version c2 = last_acked (nc_out c2) (nc_last_version c) \<and>
     hellos_honest (nc_last_version c) (nc_out c2) \<and> acks_pushed E (pushes_of (rounds @ [dialled])) (nc_out c2) \<and>
     (\<forall>b'. alive' = Some b' \<longrightarrow> 500 \<le> b' \<and> b' \<le> 30000) \<and>
     (alive' = None \<longrightarrow> \<not> nb_partitioned (nc_budgets c2) \<and> (\<exists>snap \<in> pushes_of (rounds @ [dialled]).
        short (rs_render_hash snap) = None)) \<and>
     (\<forall>b. alive = Some b \<longrightarrow> (case dialled of
        Inl _ \<Rightarrow> alive' = Some (min (2 * b) 30000) \<and> nc_reloader c2 = nc_reloader c1 \<and>
          nc_last_version c2 = nc_last_version c1 \<and> nb_partitioned (nc_budgets c2)
      | Inr _ \<Rightarrow> alive' \<in> {Some 500, None} \<and>
          (\<exists>answers. nc_out c2 = nc_out c1 @ CHello node token [] (nc_last_version c1) # answers)))"
proof -
  let ?P = "pushes_of (rounds @ [dialled])"
  have start: "client_log E from_yaml (nc_last_version c) ?P c"
    using assms(1,2) by (simp add: client_log_def hellos_honest_def acks_pushed_def)
  have run: "fold (supervise_round E from_yaml show_v node token) (rounds @ [dialled]) (Some 500, c) = (alive', c2)"
    using assms(3,4) by simp
  have sub: "pushes_of rounds \<subseteq> ?P" "\<forall>ms snap. dialled = Inr ms \<longrightarrow> IPush snap \<in> set ms \<longrightarrow> snap \<in> ?P"
    by (auto simp: pushes_of_def)
  note all = supervise_log [OF run start subset_refl]
  note before = supervise_log [OF assms(3) start sub(1)]
  have last: "case dialled of
        Inl _ \<Rightarrow> alive' = Some (min (2 * b) 30000) \<and> nc_reloader c2 = nc_reloader c1 \<and>
          nc_last_version c2 = nc_last_version c1 \<and> nb_partitioned (nc_budgets c2)
      | Inr _ \<Rightarrow> alive' \<in> {Some 500, None} \<and>
          (\<exists>answers. nc_out c2 = nc_out c1 @ CHello node token [] (nc_last_version c1) # answers)"
    if "alive = Some b" for b
    using supervise_round_log [OF assms(4) [unfolded that] _ sub(2), of "nc_last_version c"] before
    by (auto split: sum.splits)
  show ?thesis using all last unfolding client_log_def by (auto split: option.splits)
qed

definition echo_client :: "string node_client" where
  "echo_client = \<lparr>nc_reloader = echo_start, nc_last_version = 1, nc_budgets = nb_new ''n1'', nc_out = []\<rparr>"

text \<open>A push of version 9 whose advertised hash has a two-byte character across byte 12.\<close>

definition cut_push :: rendered_snapshot where
  "cut_push = \<lparr>rs_node_id = ''n1'', rs_source_commit = ''x'', rs_render_hash = replicate 11 CHR ''a'' @ [CHR 0xC3, CHR 0xA9],
     rs_fleet_version = 9, rs_config = ''c'', rs_compiled_at = 0\<rparr>"

theorem supervised_node_keeps_serving_witness:
  "fst (supervise_round echo_env echo_reader (\<lambda>_. []) ''n1'' ''t'' (Inl ''refused'')
     (supervise_round echo_env echo_reader (\<lambda>_. []) ''n1'' ''t'' (Inl ''refused'') (Some 500, echo_client))) = Some 2000 \<and>
   (\<exists>alive c. supervise_round echo_env echo_reader (\<lambda>_. []) ''n1'' ''t'' (Inr [IPush cut_push]) (Some 500, echo_client) =
      (alive, c) \<and> client_ok echo_env echo_reader c \<and> nc_last_version c = last_acked (nc_out c) 1)"
proof -
  have ok: "client_ok echo_env echo_reader echo_client" "nc_out echo_client = []"
    by (auto simp: client_ok_def serves_def echo_client_def echo_start_def echo_reader_def intro!: exI [of _ "''a''"])
  obtain b1 c1 b2 c2 where
    1: "supervise_round echo_env echo_reader (\<lambda>_. []) ''n1'' ''t'' (Inl ''refused'') (Some 500, echo_client) = (b1, c1)"
    and 2: "supervise_round echo_env echo_reader (\<lambda>_. []) ''n1'' ''t'' (Inl ''refused'') (b1, c1) = (b2, c2)"
    by (metis surj_pair)
  have "b1 = Some 1000" using supervised_node_keeps_serving [OF ok _ 1, of "[]"] by simp
  moreover have "b2 = Some 2000"
    using supervised_node_keeps_serving [OF ok _ 2, of "[Inl ''refused'']"] 1 \<open>b1 = Some 1000\<close> by simp
  moreover obtain alive c where 3: "supervise_round echo_env echo_reader (\<lambda>_. []) ''n1'' ''t'' (Inr [IPush cut_push])
      (Some 500, echo_client) = (alive, c)" by fastforce
  moreover have "client_ok echo_env echo_reader c \<and> nc_last_version c = last_acked (nc_out c) 1"
    using supervised_node_keeps_serving [OF ok _ 3, of "[]"] by (simp add: echo_client_def)
  ultimately show ?thesis using 1 2 by simp
qed

text \<open>The push with the split character ends the supervisor.\<close>

lemma split_hash_stops_supervisor:
  "fst (supervise_round echo_env echo_reader (\<lambda>_. []) ''n1'' ''t'' (Inr [IPush cut_push]) (Some 500, echo_client)) = None"
proof -
  have "fst (bind_push echo_env echo_reader (\<lambda>_. []) cut_push echo_start) = None" by code_simp
  then obtain acked rl where "bind_push echo_env echo_reader (\<lambda>_. []) cut_push echo_start = (None, acked, rl)"
    by (metis prod.collapse)
  then show ?thesis by (simp add: supervise_round_def reconnect_def on_inbound_def echo_client_def)
qed

section \<open>What a committed wave says about its nodes\<close>

text \<open>Property C29. A committed wave is a served wave: when the answers a wave collected are those its
  nodes gave to the pushes they got and the wave is committed, then every node of the wave serves a
  text it has read whose hash is exactly the hash of the render pushed for it, whatever hash the push
  itself advertised.\<close>

theorem committed_wave_is_served:
  assumes "push_wave E lookup ids (fl_committed_version f) f = (expected, wv, f1)"
    and "run_wave_nodes E lookup answer ids f = (WCommitted h k, f')"
    and "\<forall>n \<in> set ids. serves E from_yaml (node n) (start n) \<and>
      answer n = answer_of (fst (bind_push E from_yaml show_v (pushed n) (node n)))"
  shows "k = length ids \<and> fl_committed_version f' = wv \<and>
     (\<forall>n \<in> set ids. \<exists>t hash. (n, hash) \<in> set expected \<and> content_hash E t = hash \<and>
        serves E from_yaml (snd (snd (bind_push E from_yaml show_v (pushed n) (node n)))) t)"
proof -
  let ?results = "map (\<lambda>n. (n, answer n)) ids"
  let ?h = "case expected of e # _ \<Rightarrow> snd e | [] \<Rightarrow> []"
  have run: "conclude_wave_multi ?h expected wv ?results f1 = (WCommitted h k, f')"
    using assms(2) by (simp add: run_wave_nodes_def assms(1) Let_def)
  have ids: "map fst expected = ids" using push_wave_result [OF assms(1)] by blast
  have "ids \<noteq> []" and all: "\<forall>r \<in> set ?results. divergence_of wv (expected_of ?h expected (fst r)) r = None"
    and h: "k = length ids" "f' = f1\<lparr>fl_committed_version := wv\<rparr>"
    using run by (auto simp: conclude_wave_multi_def Let_def map_filter_empty split: if_splits)
  have "\<exists>t hash. (n, hash) \<in> set expected \<and> content_hash E t = hash \<and>
      serves E from_yaml (snd (snd (bind_push E from_yaml show_v (pushed n) (node n)))) t"
    if n: "n \<in> set ids" for n
  proof -
    have "answer n = Acked (expected_of ?h expected n)"
      using all n by (auto simp: divergence_None)
    obtain reply acked rl where b: "bind_push E from_yaml show_v (pushed n) (node n) = (reply, acked, rl)"
      by (metis prod_cases3)
    have "serves E from_yaml (node n) (start n)" "answer_of reply = Acked (expected_of ?h expected n)"
      using assms(3) n b \<open>answer n = _\<close> by auto
    with bind_push_serves [OF _ b] obtain t where
      t: "serves E from_yaml rl t" "expected_of ?h expected n = content_hash E t" by blast
    have "n \<in> fst ` set expected" using n ids by (metis image_set)
    then obtain e where e: "find (\<lambda>e. fst e = n) expected = Some e"
      by (metis (mono_tags, lifting) find_None_iff image_iff not_Some_eq)
    then have "(n, snd e) \<in> set expected" by (auto simp: find_Some_iff)
    moreover have "content_hash E t = snd e" using t(2) e by (simp add: expected_of_def)
    moreover have "serves E from_yaml (snd (snd (bind_push E from_yaml show_v (pushed n) (node n)))) t"
      using t(1) b by simp
    ultimately show ?thesis by blast
  qed
  with h show ?thesis by auto
qed

definition echo_push :: rendered_snapshot where
  "echo_push = \<lparr>rs_node_id = ''n1'', rs_source_commit = ''x'', rs_render_hash = ''advertised'',
     rs_fleet_version = 1, rs_config = ''c'', rs_compiled_at = 0\<rparr>"

definition echo_fleet :: fleet where
  "echo_fleet = fleet_new \<lparr>rn_config_bytes = ''c'', rn_render_hash = content_hash echo_env ''c'', rn_source_commit = ''x''\<rparr>"

definition echo_bound :: "client_message option \<times> bool \<times> string reloader" where
  "echo_bound = bind_push echo_env echo_reader (\<lambda>_. []) echo_push echo_start"

theorem committed_wave_is_served_witness:
  "\<exists>f'. run_wave_nodes echo_env (\<lambda>_. None) (\<lambda>_. answer_of (fst echo_bound)) [''n1''] echo_fleet =
      (WCommitted (content_hash echo_env ''c'') 1, f') \<and>
    sn_content_hash (rl_shared (snd (snd echo_bound))) = content_hash echo_env ''c''"
proof -
  have hashes: "content_hash echo_env ''c'' \<noteq> content_hash echo_env ''a''" by code_simp
  have utf8: "is_utf8 ''c''" by code_simp
  have "hash_mismatch_note ''advertised'' (content_hash echo_env ''c'') \<noteq> None" by code_simp
  then obtain msg where noted: "hash_mismatch_note ''advertised'' (content_hash echo_env ''c'') = Some msg" by blast
  have ack: "answer_of (fst echo_bound) = Acked (content_hash echo_env ''c'')"
    using hashes
    by (simp add: echo_bound_def bind_push_def echo_push_def utf8 reload_from_text_def render_text_def
      echo_reader_def echo_start_def ack_of_def answer_of_def noted Let_def)
  have serves: "serves echo_env echo_reader echo_start ''a''"
    by (auto simp: serves_def echo_start_def echo_reader_def)
  obtain wv f1 where pushed:
      "push_wave echo_env (\<lambda>_. None) [''n1''] (fl_committed_version echo_fleet) echo_fleet =
        ([(''n1'', content_hash echo_env ''c'')], wv, f1)"
    by (cases "next_version_for ''n1'' (content_hash echo_env ''c'') echo_fleet")
      (simp add: desired_for_node_def echo_fleet_def fleet_new_def)
  then obtain f' where run: "run_wave_nodes echo_env (\<lambda>_. None) (\<lambda>_. answer_of (fst echo_bound)) [''n1''] echo_fleet =
      (WCommitted (content_hash echo_env ''c'') 1, f')"
    using ack
    by (simp add: run_wave_nodes_def conclude_wave_multi_def expected_of_def divergence_of_def
      List.map_filter_simps)
  from committed_wave_is_served [OF pushed run, of echo_reader "\<lambda>_. echo_start" "\<lambda>_. ''a''"
      "\<lambda>_. []" "\<lambda>_. echo_push"] serves
  have "\<exists>t. content_hash echo_env t = content_hash echo_env ''c'' \<and>
      serves echo_env echo_reader (snd (snd echo_bound)) t"
    by (auto simp: echo_bound_def)
  with run show ?thesis by (auto simp: serves_def)
qed

end
