(* ===== verification/Scan.thy ===== *)
theory Scan
  imports RustStr
begin

text \<open>
  Searching, splitting and joining of strings as Rust's \<open>str\<close> does it: \<open>find\<close> with a
  string pattern, \<open>split\<close> on a character, \<open>replace\<close> with a non-empty pattern and
  \<open>join\<close>.  All patterns the code uses are ASCII, so positions in bytes are positions
  between characters.
\<close>

section \<open>Finding a substring\<close>

fun find_sub :: "string \<Rightarrow> string \<Rightarrow> nat option" where
  "find_sub p [] = (if p = [] then Some 0 else None)"
| "find_sub p (x # s) =
     (if starts_with (x # s) p then Some 0 else map_option Suc (find_sub p s))"

lemma starts_with_iff: "starts_with s p \<longleftrightarrow> (\<exists>r. s = p @ r)"
  by (auto simp: starts_with_def) (metis append_take_drop_id)

lemma find_sub_Some:
  "find_sub p s = Some n \<Longrightarrow>
     n + length p \<le> length s \<and> s = take n s @ p @ drop (n + length p) s"
proof (induction p s arbitrary: n rule: find_sub.induct)
  case (1 p)
  then show ?case by (auto split: if_splits)
next
  case (2 p x s)
  show ?case
  proof (cases "starts_with (x # s) p")
    case True
    then obtain r where r: "x # s = p @ r" by (auto simp: starts_with_iff)
    moreover from True 2 have "n = 0" by simp
    ultimately show ?thesis by simp
  next
    case False
    with 2 obtain m where "n = Suc m" "find_sub p s = Some m" by auto
    with 2 False show ?thesis by auto
  qed
qed

lemma find_sub_None: "p \<noteq> [] \<Longrightarrow> find_sub p s = None \<longleftrightarrow> (\<forall>a b. s \<noteq> a @ p @ b)"
proof (induction p s rule: find_sub.induct)
  case (1 p)
  then show ?case by auto
next
  case (2 p x s)
  have "(\<forall>a b. x # s \<noteq> a @ p @ b) \<longleftrightarrow> \<not> starts_with (x # s) p \<and> (\<forall>a b. s \<noteq> a @ p @ b)"
    unfolding starts_with_iff by (auto simp: Cons_eq_append_conv)
  then show ?case using 2 by auto
qed

definition contains_sub :: "string \<Rightarrow> string \<Rightarrow> bool" where
  "contains_sub s p \<longleftrightarrow> find_sub p s \<noteq> None"

text \<open>\<open>s.contains(c)\<close>, \<open>s.find(pred)\<close> on bytes.\<close>

definition contains_char :: "string \<Rightarrow> char \<Rightarrow> bool" where
  "contains_char s c \<longleftrightarrow> c \<in> set s"

definition find_char :: "(char \<Rightarrow> bool) \<Rightarrow> string \<Rightarrow> nat option" where
  "find_char p s = position p s"

section \<open>Splitting and joining\<close>

fun split_char :: "char \<Rightarrow> string \<Rightarrow> string list" where
  "split_char c [] = [[]]"
| "split_char c (x # s) =
     (if x = c then [] # split_char c s
      else (case split_char c s of [] \<Rightarrow> [[x]] | w # ws \<Rightarrow> (x # w) # ws))"

fun join_with :: "string \<Rightarrow> string list \<Rightarrow> string" where
  "join_with sep [] = []"
| "join_with sep [w] = w"
| "join_with sep (w # v # ws) = w @ sep @ join_with sep (v # ws)"

lemma split_char_nonempty [simp]: "split_char c s \<noteq> []"
  by (induction s) (auto split: list.splits)

lemma split_char_no_sep: "w \<in> set (split_char c s) \<Longrightarrow> c \<notin> set w"
  by (induction s arbitrary: w) (auto split: list.splits if_splits)

lemma split_char_id: "c \<notin> set s \<Longrightarrow> split_char c s = [s]"
  by (induction s) auto

lemma split_char_append: "c \<notin> set w \<Longrightarrow> split_char c (w @ c # s) = w # split_char c s"
  by (induction w) auto

lemma split_char_glue: "split_char c (a @ c # b) = split_char c a @ split_char c b"
  by (induction a) (auto split: list.splits)

lemma join_split: "join_with [c] (split_char c s) = s"
proof (induction s)
  case Nil
  then show ?case by simp
next
  case (Cons x s)
  obtain w ws where ws: "split_char c s = w # ws"
    using split_char_nonempty by (metis list.exhaust)
  then show ?case using Cons by (cases ws) auto
qed

lemma split_join:
  "ws \<noteq> [] \<Longrightarrow> \<forall>w \<in> set ws. c \<notin> set w \<Longrightarrow> split_char c (join_with [c] ws) = ws"
proof (induction "[c]" ws rule: join_with.induct)
  case (3 w v ws)
  then show ?case using split_char_append [of c w "join_with [c] (v # ws)"] by simp
qed (simp_all add: split_char_id)

section \<open>Replacing\<close>

text \<open>\<open>s.replace(p, r)\<close> for a non-empty \<open>p\<close>: every occurrence from the left, none of
  them overlapping.\<close>

function replace_all :: "string \<Rightarrow> string \<Rightarrow> string \<Rightarrow> string" where
  "replace_all p r s =
     (case s of
        [] \<Rightarrow> []
      | x # t \<Rightarrow>
          if p \<noteq> [] \<and> starts_with s p then r @ replace_all p r (drop (length p) s)
          else x # replace_all p r t)"
  by pat_completeness auto

termination
  by (relation "measure (\<lambda>(p, r, s). length s)") auto

declare replace_all.simps [simp del]

lemma replace_all_Nil [simp]: "replace_all p r [] = []"
  by (simp add: replace_all.simps)

lemma replace_all_Cons:
  "\<not> starts_with (x # t) p \<Longrightarrow> replace_all p r (x # t) = x # replace_all p r t"
  by (subst replace_all.simps) simp

lemma replace_all_match: "p \<noteq> [] \<Longrightarrow> replace_all p r (p @ t) = r @ replace_all p r t"
proof (cases "p @ t")
  case (Cons x u)
  assume "p \<noteq> []"
  then show ?thesis
    using starts_with_append [of p t]
    by (subst replace_all.simps) (simp add: Cons, simp add: Cons [symmetric])
qed simp

lemma replace_all_absent: "find_sub p s = None \<Longrightarrow> replace_all p r s = s"
  by (induction p s rule: find_sub.induct) (auto simp: replace_all_Cons split: if_splits)

end
