(* ===== verification/Json.thy ===== *)
theory Json
  imports OrdMap F64 Scan
begin

text \<open>
  \<open>serde_json::Value\<close> as the code uses it.  Its \<open>Map\<close> is a \<open>BTreeMap\<close> (the workspace's
  lock file builds \<open>serde_json\<close> without \<open>preserve_order\<close>), so an object is the sorted list
  of its entries.  The reader and the printer (\<open>from_slice\<close>, \<open>to_vec\<close>, the shortest
  decimal of a double) are the parameters \<open>json_lib\<close>; what is defined here is the access
  API: indexing, which yields \<open>Null\<close> for what is not there, and the \<open>as_\<close> conversions.
\<close>

datatype number = PosInt u64 | NegInt int | Float f64

datatype json =
    JNull
  | JBool bool
  | JNumber number
  | JString string
  | JArray "json list"
  | JObject "(string \<times> json) list"

record json_lib =
  jl_parse :: "string \<Rightarrow> string + json"
  jl_print :: "json \<Rightarrow> string"
  jl_show_f64 :: "f64 \<Rightarrow> string"

section \<open>Access\<close>

definition j_field :: "json \<Rightarrow> string \<Rightarrow> json" where
  "j_field v k = (case v of
     JObject m \<Rightarrow> (case bt_get m k of Some x \<Rightarrow> x | None \<Rightarrow> JNull)
   | _ \<Rightarrow> JNull)"

definition j_nth :: "json \<Rightarrow> nat \<Rightarrow> json" where
  "j_nth v n = (case v of
     JArray xs \<Rightarrow> if n < length xs then xs ! n else JNull
   | _ \<Rightarrow> JNull)"

definition j_get :: "json \<Rightarrow> string \<Rightarrow> json option" where
  "j_get v k = (case v of JObject m \<Rightarrow> bt_get m k | _ \<Rightarrow> None)"

definition as_str :: "json \<Rightarrow> string option" where
  "as_str v = (case v of JString s \<Rightarrow> Some s | _ \<Rightarrow> None)"

definition as_u64 :: "json \<Rightarrow> u64 option" where
  "as_u64 v = (case v of JNumber (PosInt n) \<Rightarrow> Some n | _ \<Rightarrow> None)"

definition as_array :: "json \<Rightarrow> json list option" where
  "as_array v = (case v of JArray xs \<Rightarrow> Some xs | _ \<Rightarrow> None)"

definition as_object :: "json \<Rightarrow> (string, json) btree option" where
  "as_object v = (case v of JObject m \<Rightarrow> Some m | _ \<Rightarrow> None)"

definition is_object :: "json \<Rightarrow> bool" where
  "is_object v \<longleftrightarrow> as_object v \<noteq> None"

text \<open>\<open>as_array().into_iter().flatten()\<close>: the elements, none for what is no array.\<close>

definition elements :: "json \<Rightarrow> json list" where
  "elements v = unwrap_or (as_array v) []"

lemma as_str_simps [simp]:
  "as_str (JString s) = Some s" "as_str JNull = None"
  by (simp_all add: as_str_def)

lemma as_object_simps [simp]: "as_object (JObject m) = Some m" "is_object (JObject m)"
  by (simp_all add: as_object_def is_object_def)

lemma is_objectE: "is_object v \<Longrightarrow> \<exists>m. v = JObject m"
  by (cases v) (auto simp: is_object_def as_object_def)

lemma j_field_JNull [simp]: "j_field JNull k = JNull"
  by (simp add: j_field_def)

section \<open>Decimal notation\<close>

text \<open>\<open>to_string()\<close> of an integer.\<close>

function dec_of_nat :: "nat \<Rightarrow> string" where
  "dec_of_nat n = (if n < 10 then [char_of (48 + n)]
     else dec_of_nat (n div 10) @ [char_of (48 + n mod 10)])"
  by pat_completeness auto

termination
  by (relation "measure id") auto

declare dec_of_nat.simps [simp del]

definition dec_of_int :: "int \<Rightarrow> string" where
  "dec_of_int i = (if i < 0 then ''-'' @ dec_of_nat (nat (- i)) else dec_of_nat (nat i))"

definition show_u64 :: "u64 \<Rightarrow> string" where
  "show_u64 n = dec_of_nat (unat n)"

definition number_to_string :: "json_lib \<Rightarrow> number \<Rightarrow> string" where
  "number_to_string L n = (case n of
     PosInt w \<Rightarrow> show_u64 w
   | NegInt i \<Rightarrow> dec_of_int i
   | Float f \<Rightarrow> jl_show_f64 L f)"

lemma dec_of_nat_nonempty [simp]: "dec_of_nat n \<noteq> []"
  by (subst dec_of_nat.simps) simp

lemma dec_of_nat_digits: "list_all is_ascii_digit (dec_of_nat n)"
proof (induction n rule: dec_of_nat.induct)
  case (1 n)
  show ?case
  proof (cases "n < 10")
    case True
    then show ?thesis by (subst dec_of_nat.simps) (simp add: is_ascii_digit_def of_char_of)
  next
    case False
    have "n mod 10 \<le> 9" using mod_less_divisor [of 10 n] by linarith
    then have "is_ascii_digit (char_of (48 + n mod 10))" by (simp add: is_ascii_digit_def of_char_of)
    with 1 False show ?thesis by (subst dec_of_nat.simps) simp
  qed
qed

end
