(* ===== verification/Jwt.thy ===== *)
theory Jwt
  imports Json
begin

text \<open>
  \<open>gateway-core/src/jwt.rs\<close>: HS256 and RS256 verification and the JWKS document.  The
  crates it calls are the parameters \<open>jwt_lib\<close>: base64url without padding, HMAC-SHA256,
  the construction of an RSA key, the well-formedness of an RSA signature and its
  verification.  The error \<open>Malformed\<close> carries the string of the code.  Lemmas: a verified
  token carries the MAC of the secret over its own header and payload, and what
  \<open>sign_hs256\<close> mints verifies.
\<close>

record 'k jwt_lib =
  jw_json :: json_lib
  jw_b64_decode :: "string \<Rightarrow> string option"
  jw_b64_encode :: "string \<Rightarrow> string"
  jw_hmac :: "string \<Rightarrow> string \<Rightarrow> string"
  jw_rsa_key :: "string \<Rightarrow> string \<Rightarrow> string + 'k"
  jw_rsa_sig :: "string \<Rightarrow> bool"
  jw_rsa_verify :: "'k \<Rightarrow> string \<Rightarrow> string \<Rightarrow> bool"

datatype jwt_error =
    Malformed string
  | WrongAlg string
  | BadSignature
  | Expired

type_synonym claims = "(string, json) btree"

abbreviation dot :: char where "dot \<equiv> CHR ''.''"

definition decode_json :: "'k jwt_lib \<Rightarrow> string \<Rightarrow> string \<Rightarrow> jwt_error + json" where
  "decode_json L b64 what = (case jw_b64_decode L b64 of
     None \<Rightarrow> Inl (Malformed what)
   | Some bytes \<Rightarrow> (case jl_parse (jw_json L) bytes of
       Inl _ \<Rightarrow> Inl (Malformed what)
     | Inr v \<Rightarrow> Inr v))"

text \<open>The end both verifiers share: the payload's object and its \<open>exp\<close>.\<close>

definition read_claims :: "'k jwt_lib \<Rightarrow> string \<Rightarrow> u64 \<Rightarrow> jwt_error + claims" where
  "read_claims L payload_b64 now = (case decode_json L payload_b64 ''payload'' of
     Inl e \<Rightarrow> Inl e
   | Inr payload \<Rightarrow>
       (case as_object payload of
          None \<Rightarrow> Inl (Malformed ''payload is not a JSON object'')
        | Some claims \<Rightarrow>
            (case Option.bind (bt_get claims ''exp'') as_u64 of
               Some expiry \<Rightarrow> if expiry < now then Inl Expired else Inr claims
             | None \<Rightarrow> Inr claims)))"

definition check_alg :: "string \<Rightarrow> json \<Rightarrow> jwt_error option" where
  "check_alg want header = (case as_str (j_field header ''alg'') of
     Some alg \<Rightarrow> if alg = want then None else Some (WrongAlg alg)
   | None \<Rightarrow> Some (Malformed ''header has no alg''))"

definition verify_hs256 :: "'k jwt_lib \<Rightarrow> string \<Rightarrow> string \<Rightarrow> u64 \<Rightarrow> jwt_error + claims" where
  "verify_hs256 L token secret now = (case split_char dot token of
     [header_b64, payload_b64, sig_b64] \<Rightarrow>
       (case decode_json L header_b64 ''header'' of
          Inl e \<Rightarrow> Inl e
        | Inr header \<Rightarrow>
            (case check_alg ''HS256'' header of
               Some e \<Rightarrow> Inl e
             | None \<Rightarrow>
                 (case jw_b64_decode L sig_b64 of
                    None \<Rightarrow> Inl (Malformed ''signature is not base64url'')
                  | Some sig \<Rightarrow>
                      if jw_hmac L secret (header_b64 @ [dot] @ payload_b64) \<noteq> sig
                      then Inl BadSignature
                      else read_claims L payload_b64 now)))
   | _ \<Rightarrow> Inl (Malformed ''expected three dot-separated parts''))"

definition jwt_header :: string where
  "jwt_header = ''{\"alg\":\"HS256\",\"typ\":\"JWT\"}''"

definition sign_hs256 :: "'k jwt_lib \<Rightarrow> claims \<Rightarrow> string \<Rightarrow> string" where
  "sign_hs256 L claims secret =
     (let header = jw_b64_encode L jwt_header;
          payload = jw_b64_encode L (jl_print (jw_json L) (JObject claims));
          sig = jw_b64_encode L (jw_hmac L secret (header @ [dot] @ payload))
      in header @ [dot] @ payload @ [dot] @ sig)"

section \<open>RS256 and JWKS\<close>

record 'k jwks =
  jk_keys :: "(string option \<times> 'k) list"

datatype jwks_error =
    JwksNotJson string
  | JwksNoKeysArray
  | JwksNoN nat
  | JwksNoE nat
  | JwksNNotBase64 nat
  | JwksENotBase64 nat
  | JwksBadKey nat string
  | JwksEmpty

definition jwks_key :: "'k jwt_lib \<Rightarrow> nat \<Rightarrow> json \<Rightarrow> jwks_error + (string option \<times> 'k)" where
  "jwks_key L i k = (case as_str (j_field k ''n'') of
     None \<Rightarrow> Inl (JwksNoN i)
   | Some n64 \<Rightarrow> (case as_str (j_field k ''e'') of
       None \<Rightarrow> Inl (JwksNoE i)
     | Some e64 \<Rightarrow> (case jw_b64_decode L n64 of
         None \<Rightarrow> Inl (JwksNNotBase64 i)
       | Some n \<Rightarrow> (case jw_b64_decode L e64 of
           None \<Rightarrow> Inl (JwksENotBase64 i)
         | Some e \<Rightarrow> (case jw_rsa_key L n e of
             Inl err \<Rightarrow> Inl (JwksBadKey i err)
           | Inr key \<Rightarrow> Inr (as_str (j_field k ''kid''), key))))))"

fun jwks_keys :: "'k jwt_lib \<Rightarrow> nat \<Rightarrow> json list \<Rightarrow> jwks_error + (string option \<times> 'k) list" where
  "jwks_keys L i [] = Inr []"
| "jwks_keys L i (k # ks) =
     (if as_str (j_field k ''kty'') \<noteq> Some ''RSA'' then jwks_keys L (i + 1) ks
      else (case jwks_key L i k of
              Inl e \<Rightarrow> Inl e
            | Inr key \<Rightarrow> (case jwks_keys L (i + 1) ks of
                Inl e \<Rightarrow> Inl e
              | Inr keys \<Rightarrow> Inr (key # keys))))"

definition jwks_parse :: "'k jwt_lib \<Rightarrow> string \<Rightarrow> jwks_error + 'k jwks" where
  "jwks_parse L doc = (case jl_parse (jw_json L) doc of
     Inl e \<Rightarrow> Inl (JwksNotJson e)
   | Inr v \<Rightarrow> (case as_array (j_field v ''keys'') of
       None \<Rightarrow> Inl JwksNoKeysArray
     | Some ks \<Rightarrow> (case jwks_keys L 0 ks of
         Inl e \<Rightarrow> Inl e
       | Inr keys \<Rightarrow> if keys = [] then Inl JwksEmpty else Inr \<lparr>jk_keys = keys\<rparr>)))"

definition candidates :: "'k jwks \<Rightarrow> string option \<Rightarrow> 'k list" where
  "candidates J kid =
     (let matched = (case kid of
            Some k \<Rightarrow> map snd (filter (\<lambda>(k', _). k' = Some k) (jk_keys J))
          | None \<Rightarrow> [])
      in if matched \<noteq> [] then matched else map snd (jk_keys J))"

definition verify_rs256 :: "'k jwt_lib \<Rightarrow> string \<Rightarrow> 'k jwks \<Rightarrow> u64 \<Rightarrow> jwt_error + claims" where
  "verify_rs256 L token J now = (case split_char dot token of
     [header_b64, payload_b64, sig_b64] \<Rightarrow>
       (case decode_json L header_b64 ''header'' of
          Inl e \<Rightarrow> Inl e
        | Inr header \<Rightarrow>
            (case check_alg ''RS256'' header of
               Some e \<Rightarrow> Inl e
             | None \<Rightarrow>
                 (case jw_b64_decode L sig_b64 of
                    None \<Rightarrow> Inl (Malformed ''signature is not base64url'')
                  | Some sig \<Rightarrow>
                      if \<not> jw_rsa_sig L sig then Inl (Malformed ''signature is not an RSA signature'')
                      else if \<not> list_ex
                          (\<lambda>key. jw_rsa_verify L key (header_b64 @ [dot] @ payload_b64) sig)
                          (candidates J (as_str (j_field header ''kid'')))
                        then Inl BadSignature
                      else read_claims L payload_b64 now)))
   | _ \<Rightarrow> Inl (Malformed ''expected three dot-separated parts''))"

section \<open>What verification proves\<close>

lemma split_three: "split_char c t = [a, b, d] \<Longrightarrow> t = a @ [c] @ b @ [c] @ d"
  using join_split [of c t] by simp

text \<open>Whoever holds a token that verifies holds the MAC of its header and payload, under
  the algorithm the gateway pinned.\<close>

lemma verified_hs256:
  assumes "verify_hs256 L token secret now = Inr claims"
  obtains h p s header where "token = h @ [dot] @ p @ [dot] @ s"
    "jw_b64_decode L s = Some (jw_hmac L secret (h @ [dot] @ p))"
    "decode_json L h ''header'' = Inr header" "as_str (j_field header ''alg'') = Some ''HS256''"
    "read_claims L p now = Inr claims"
proof -
  from assms obtain h p s where parts: "split_char dot token = [h, p, s]"
    by (auto simp: verify_hs256_def split: list.splits)
  with assms obtain header where header: "decode_json L h ''header'' = Inr header"
    by (auto simp: verify_hs256_def split: sum.splits)
  from assms parts header have alg: "check_alg ''HS256'' header = None"
    by (auto simp: verify_hs256_def split: option.splits)
  with assms parts header have sig: "jw_b64_decode L s = Some (jw_hmac L secret (h @ [dot] @ p))"
    and claims: "read_claims L p now = Inr claims"
    by (auto simp: verify_hs256_def split: option.splits if_splits)
  from alg have "as_str (j_field header ''alg'') = Some ''HS256''"
    by (auto simp: check_alg_def split: option.splits if_splits)
  with that [OF split_three [OF parts] sig header] claims show thesis by blast
qed

lemma verified_rs256:
  assumes "verify_rs256 L token J now = Inr claims"
  obtains h p s sig header key where "token = h @ [dot] @ p @ [dot] @ s" "jw_b64_decode L s = Some sig"
    "decode_json L h ''header'' = Inr header" "as_str (j_field header ''alg'') = Some ''RS256''"
    "key \<in> set (candidates J (as_str (j_field header ''kid'')))" "jw_rsa_sig L sig"
    "jw_rsa_verify L key (h @ [dot] @ p) sig" "read_claims L p now = Inr claims"
proof -
  from assms obtain h p s where parts: "split_char dot token = [h, p, s]"
    by (auto simp: verify_rs256_def split: list.splits)
  with assms obtain header where header: "decode_json L h ''header'' = Inr header"
    by (auto simp: verify_rs256_def split: sum.splits)
  from assms parts header have alg: "check_alg ''RS256'' header = None"
    by (auto simp: verify_rs256_def split: option.splits)
  with assms parts header obtain sig where sig: "jw_b64_decode L s = Some sig" "jw_rsa_sig L sig"
    "list_ex (\<lambda>key. jw_rsa_verify L key (h @ [dot] @ p) sig) (candidates J (as_str (j_field header ''kid'')))"
    and claims: "read_claims L p now = Inr claims"
    by (auto simp: verify_rs256_def split: option.splits if_splits)
  from alg have "as_str (j_field header ''alg'') = Some ''RS256''"
    by (auto simp: check_alg_def split: option.splits if_splits)
  with that [OF split_three [OF parts] sig(1) header _ _ sig(2) _ claims] sig(3) show thesis
    by (auto simp: list_ex_iff)
qed

text \<open>A key that is tried is one of the document's, and one of the header's \<open>kid\<close> when the document
  has any of that name.\<close>

lemma candidates_of_kid:
  "key \<in> set (candidates J kid) \<Longrightarrow> key \<in> snd ` set (jk_keys J) \<and>
     (\<forall>k k'. kid = Some k \<and> (Some k, k') \<in> set (jk_keys J) \<longrightarrow> (Some k, key) \<in> set (jk_keys J))"
  by (force simp: candidates_def Let_def filter_empty_conv split: option.splits if_splits)

text \<open>The claims are the payload's object, and a numeric \<open>exp\<close> has not passed.\<close>

lemma read_claims_payload:
  "read_claims L p now = Inr claims \<Longrightarrow> decode_json L p ''payload'' = Inr (JObject claims) \<and>
     (\<forall>expiry. Option.bind (bt_get claims ''exp'') as_u64 = Some expiry \<longrightarrow> now \<le> expiry)"
  by (auto simp: read_claims_def as_object_def split: sum.splits option.splits if_splits json.splits)

lemma read_claims_live:
  "read_claims L p now = Inr claims \<Longrightarrow> bt_get claims ''exp'' = Some (JNumber (PosInt expiry)) \<Longrightarrow> now \<le> expiry"
  by (auto simp: read_claims_def as_u64_def split: sum.splits option.splits if_splits)

text \<open>What is relied on of the base64 crate: \<open>decode\<close> inverts \<open>encode\<close>, whose alphabet
  holds no dot.\<close>

definition b64_ok :: "'k jwt_lib \<Rightarrow> bool" where
  "b64_ok L \<longleftrightarrow> (\<forall>s. jw_b64_decode L (jw_b64_encode L s) = Some s \<and> dot \<notin> set (jw_b64_encode L s))"

definition jwt_header_json :: json where
  "jwt_header_json = JObject [(''alg'', JString ''HS256''), (''typ'', JString ''JWT'')]"

lemma sign_parts: "b64_ok L \<Longrightarrow> split_char dot (sign_hs256 L claims secret) =
    (let h = jw_b64_encode L jwt_header; p = jw_b64_encode L (jl_print (jw_json L) (JObject claims))
     in [h, p, jw_b64_encode L (jw_hmac L secret (h @ [dot] @ p))])"
  by (simp add: sign_hs256_def Let_def split_char_append split_char_id b64_ok_def)

lemma verify_sign:
  assumes "b64_ok L" and "jl_parse (jw_json L) jwt_header = Inr jwt_header_json"
    and "jl_parse (jw_json L) (jl_print (jw_json L) (JObject claims)) = Inr (JObject claims)"
  shows "verify_hs256 L (sign_hs256 L claims secret) secret now =
     (case Option.bind (bt_get claims ''exp'') as_u64 of
        Some expiry \<Rightarrow> if expiry < now then Inl Expired else Inr claims
      | None \<Rightarrow> Inr claims)"
  using assms(1)
  by (simp add: verify_hs256_def sign_parts Let_def decode_json_def check_alg_def
      j_field_def read_claims_def assms(2,3) jwt_header_json_def b64_ok_def)

end
