(* ===== verification/Expr.thy ===== *)
theory Expr
  imports Json
begin

text \<open>
  \<open>gateway-core/src/expr.rs\<close>: the limits put on a CEL expression at load and its
  evaluation context.  The \<open>cel\<close> crate is the parameter \<open>cel_lib\<close>: its parser, the syntax
  tree and the variables of a program, the conversion of JSON into its values and the
  interpreter (with the helper \<open>split\<close> registered).  The syntax tree has the variants the
  code's exhaustive match names.  Lemmas: what an accepted expression guarantees.
\<close>

section \<open>The interpreter\<close>

datatype cel_expr =
    Comprehension
  | Call "cel_expr option" "cel_expr list"
  | CList "cel_expr list"
  | CMap "cel_entry list"
  | Struct "cel_entry list"
  | Select cel_expr
  | Ident
  | Literal
  | Unspecified
and cel_entry =
    StructField cel_expr
  | MapEntry cel_expr cel_expr

datatype cel_value =
    CString string
  | CInt int
  | CUInt u64
  | CFloat f64
  | CBool bool
  | COther string

record ('p, 'v) cel_lib =
  cl_compile :: "string \<Rightarrow> string + 'p"
  cl_expression :: "'p \<Rightarrow> cel_expr"
  cl_variables :: "'p \<Rightarrow> string list"
  cl_to_value :: "json \<Rightarrow> string + 'v"
  cl_execute :: "'p \<Rightarrow> (string \<times> 'v) list \<Rightarrow> string + cel_value"
  cl_show_f64 :: "f64 \<Rightarrow> string"

section \<open>Limits at load\<close>

definition MAX_SOURCE_LEN :: nat where
  "MAX_SOURCE_LEN = 512"

definition MAX_NESTING :: nat where
  "MAX_NESTING = 16"

datatype expr_kind = Condition | Derived | Label

definition allowed_variables :: "expr_kind \<Rightarrow> string list" where
  "allowed_variables k = (case k of
     Label \<Rightarrow> [''request'', ''jwt'', ''attribution'']
   | _ \<Rightarrow> [''request'', ''jwt''])"

record 'p compiled_expr =
  ce_source :: string
  ce_kind :: expr_kind
  ce_program :: 'p

text \<open>The scan of \<open>max_nesting\<close>: depth, deepest so far, open quote, escape.  Every
  character it compares is ASCII, so it may go byte by byte.\<close>

record nesting =
  nx_depth :: nat
  nx_max :: nat
  nx_in_string :: "char option"
  nx_escaped :: bool

definition nesting_step :: "char \<Rightarrow> nesting \<Rightarrow> nesting" where
  "nesting_step c n = (case nx_in_string n of
     Some quote \<Rightarrow>
       if nx_escaped n then n\<lparr>nx_escaped := False\<rparr>
       else if c = CHR 0x5C then n\<lparr>nx_escaped := True\<rparr>
       else if c = quote then n\<lparr>nx_in_string := None\<rparr>
       else n
   | None \<Rightarrow>
       if c = CHR 0x22 \<or> c = CHR 0x27 then n\<lparr>nx_in_string := Some c\<rparr>
       else if c \<in> set ''([{'' then
         n\<lparr>nx_depth := nx_depth n + 1, nx_max := max (nx_max n) (nx_depth n + 1)\<rparr>
       else if c \<in> set '')]}'' then n\<lparr>nx_depth := nx_depth n - 1\<rparr>
       else n)"

definition max_nesting :: "string \<Rightarrow> nat" where
  "max_nesting source =
     nx_max (fold nesting_step source
       \<lparr>nx_depth = 0, nx_max = 0, nx_in_string = None, nx_escaped = False\<rparr>)"

fun contains_comprehension :: "cel_expr \<Rightarrow> bool"
  and entry_contains_comprehension :: "cel_entry \<Rightarrow> bool"
where
  "contains_comprehension Comprehension = True"
| "contains_comprehension (Call target args) =
     ((case target of Some t \<Rightarrow> contains_comprehension t | None \<Rightarrow> False) \<or>
      list_ex contains_comprehension args)"
| "contains_comprehension (CList es) = list_ex contains_comprehension es"
| "contains_comprehension (CMap es) = list_ex entry_contains_comprehension es"
| "contains_comprehension (Struct es) = list_ex entry_contains_comprehension es"
| "contains_comprehension (Select e) = contains_comprehension e"
| "contains_comprehension Ident = False"
| "contains_comprehension Literal = False"
| "contains_comprehension Unspecified = False"
| "entry_contains_comprehension (StructField e) = contains_comprehension e"
| "entry_contains_comprehension (MapEntry k v) =
     (contains_comprehension k \<or> contains_comprehension v)"

datatype expr_error =
    EmptyExpression
  | SourceTooLong nat
  | TooDeep nat
  | ParseError string string
  | UsesComprehension string
  | UnknownVariables string "string list"

definition compile_expr ::
  "('p, 'v) cel_lib \<Rightarrow> string \<Rightarrow> expr_kind \<Rightarrow> expr_error + 'p compiled_expr"
where
  "compile_expr L source kind =
     (if is_blank source then Inl EmptyExpression
      else if length source > MAX_SOURCE_LEN then Inl (SourceTooLong (length source))
      else if max_nesting source > MAX_NESTING then Inl (TooDeep (max_nesting source))
      else
        (case cl_compile L source of
           Inl e \<Rightarrow> Inl (ParseError source e)
         | Inr program \<Rightarrow>
             if contains_comprehension (cl_expression L program) then Inl (UsesComprehension source)
             else
               (let unknown = filter (\<lambda>v. v \<notin> set (allowed_variables kind)) (cl_variables L program)
                in if unknown \<noteq> [] then Inl (UnknownVariables source (sort unknown))
                   else Inr \<lparr>ce_source = source, ce_kind = kind, ce_program = program\<rparr>)))"

section \<open>Evaluation\<close>

record eval_ctx =
  ec_method :: string
  ec_path :: string
  ec_headers :: "(string, string) btree"
  ec_claims :: "json option"
  ec_attribution :: "(string, string) btree"

definition json_of_strings :: "(string, string) btree \<Rightarrow> json" where
  "json_of_strings m = JObject (map (\<lambda>(k, v). (k, JString v)) m)"

text \<open>The variables an expression is run with: a label sees \<open>attribution\<close>, nothing else
  does.\<close>

definition cel_variables :: "expr_kind \<Rightarrow> eval_ctx \<Rightarrow> (string \<times> json) list" where
  "cel_variables kind ctx =
     [(''request'', JObject
         [(''headers'', json_of_strings (ec_headers ctx)),
          (''method'', JString (ec_method ctx)),
          (''path'', JString (ec_path ctx))]),
      (''jwt'', JObject [(''claims'', unwrap_or (ec_claims ctx) (JObject []))])] @
     (if kind = Label then [(''attribution'', json_of_strings (ec_attribution ctx))] else [])"

datatype eval_error =
    ContextBuild string
  | EvalFailed string string
  | NotABool string
  | NotAScalar string

fun bind_variables ::
  "('p, 'v) cel_lib \<Rightarrow> (string \<times> json) list \<Rightarrow> eval_error + (string \<times> 'v) list"
where
  "bind_variables L [] = Inr []"
| "bind_variables L ((x, j) # rest) = (case cl_to_value L j of
     Inl e \<Rightarrow> Inl (ContextBuild e)
   | Inr v \<Rightarrow> (case bind_variables L rest of
       Inl e \<Rightarrow> Inl e
     | Inr vs \<Rightarrow> Inr ((x, v) # vs)))"

definition eval_expr ::
  "('p, 'v) cel_lib \<Rightarrow> 'p compiled_expr \<Rightarrow> eval_ctx \<Rightarrow> eval_error + cel_value"
where
  "eval_expr L e ctx = (case bind_variables L (cel_variables (ce_kind e) ctx) of
     Inl err \<Rightarrow> Inl err
   | Inr vs \<Rightarrow> (case cl_execute L (ce_program e) vs of
       Inl err \<Rightarrow> Inl (EvalFailed (ce_source e) err)
     | Inr v \<Rightarrow> Inr v))"

definition eval_bool ::
  "('p, 'v) cel_lib \<Rightarrow> 'p compiled_expr \<Rightarrow> eval_ctx \<Rightarrow> eval_error + bool"
where
  "eval_bool L e ctx = (case eval_expr L e ctx of
     Inl err \<Rightarrow> Inl err
   | Inr (CBool b) \<Rightarrow> Inr b
   | Inr _ \<Rightarrow> Inl (NotABool (ce_source e)))"

definition eval_string ::
  "('p, 'v) cel_lib \<Rightarrow> 'p compiled_expr \<Rightarrow> eval_ctx \<Rightarrow> eval_error + string"
where
  "eval_string L e ctx = (case eval_expr L e ctx of
     Inl err \<Rightarrow> Inl err
   | Inr (CString s) \<Rightarrow> Inr s
   | Inr (CInt i) \<Rightarrow> Inr (dec_of_int i)
   | Inr (CUInt u) \<Rightarrow> Inr (show_u64 u)
   | Inr (CFloat f) \<Rightarrow> Inr (cl_show_f64 L f)
   | Inr (CBool b) \<Rightarrow> Inr (if b then ''true'' else ''false'')
   | Inr (COther _) \<Rightarrow> Inl (NotAScalar (ce_source e)))"

section \<open>What an accepted expression guarantees\<close>

lemma compile_expr_ok:
  assumes "compile_expr L source kind = Inr e"
  shows "ce_source e = source" "ce_kind e = kind"
    "length source \<le> MAX_SOURCE_LEN" "max_nesting source \<le> MAX_NESTING"
    "\<not> contains_comprehension (cl_expression L (ce_program e))"
    "set (cl_variables L (ce_program e)) \<subseteq> set (allowed_variables kind)"
  using assms
  by (auto simp: compile_expr_def Let_def filter_empty_conv split: if_splits sum.splits)

text \<open>A condition or a derivation cannot read the attribution: the variables it runs with
  do not depend on it.\<close>

lemma cel_variables_blind:
  "kind \<noteq> Label \<Longrightarrow> cel_variables kind (ctx\<lparr>ec_attribution := a\<rparr>) = cel_variables kind ctx"
  by (simp add: cel_variables_def)

lemma eval_expr_blind:
  "ce_kind e \<noteq> Label \<Longrightarrow> eval_expr L e (ctx\<lparr>ec_attribution := a\<rparr>) = eval_expr L e ctx"
  by (simp add: eval_expr_def cel_variables_blind)

text \<open>Brackets in a string literal do not count: the scan is back where it was once the
  quote closes.\<close>

lemma nesting_literal:
  assumes "q = CHR 0x22 \<or> q = CHR 0x27" "q \<notin> set s" "CHR 0x5C \<notin> set s"
    and "nx_in_string n = None" "\<not> nx_escaped n"
  shows "fold nesting_step (q # s @ [q]) n = n"
proof -
  let ?m = "n\<lparr>nx_in_string := Some q\<rparr>"
  have "fold nesting_step s ?m = ?m" using assms(2,3,5)
    by (induction s) (auto simp: nesting_step_def)
  then show ?thesis using assms(1,4,5) by (auto simp: nesting_step_def)
qed

end
