(* ===== verification/Template.thy ===== *)
theory Template
  imports Scan
begin

text \<open>
  \<open>gateway-core/src/template.rs\<close>: \<open>{{name}}\<close> placeholders of operator templates, their
  extraction and their substitution.  The error of \<open>placeholders\<close> carries the snippet its
  message quotes.  Lemmas: what \<open>placeholders\<close> finds in a template built from literals and
  names, and that \<open>render\<close> substitutes such a template when no value and no literal holds a
  brace.
\<close>

abbreviation open_braces :: string where "open_braces \<equiv> ''{{''"
abbreviation close_braces :: string where "close_braces \<equiv> ''}}''"

text \<open>\<open>chars().take(n)\<close>: the bytes of the first \<open>n\<close> characters.\<close>

fun take_chars :: "nat \<Rightarrow> string \<Rightarrow> string" where
  "take_chars n [] = []"
| "take_chars n (x # s) =
     (if is_continuation x then x # take_chars n s
      else if n = 0 then [] else x # take_chars (n - 1) s)"

function placeholders :: "string \<Rightarrow> string + string list" where
  "placeholders rest =
     (case find_sub open_braces rest of
        None \<Rightarrow> Inr []
      | Some start \<Rightarrow>
          (let after = drop (start + 2) rest
           in case find_sub close_braces after of
                None \<Rightarrow> Inl (take_chars 20 (drop start rest))
              | Some e \<Rightarrow>
                  (case placeholders (drop (e + 2) after) of
                     Inl err \<Rightarrow> Inl err
                   | Inr names \<Rightarrow> Inr (take e after # names))))"
  by pat_completeness auto

termination
  by (relation "measure length") (auto dest!: find_sub_Some)

declare placeholders.simps [simp del]

definition placeholder :: "string \<Rightarrow> string" where
  "placeholder name = open_braces @ name @ close_braces"

definition render :: "string \<Rightarrow> (string \<times> string) list \<Rightarrow> string" where
  "render template vars = foldl (\<lambda>out (n, v). replace_all (placeholder n) v out) template vars"

section \<open>Templates as literals and names\<close>

text \<open>What an operator writes: literal text without braces and named placeholders.\<close>

datatype piece = Lit string | Var string

definition braceless :: "string \<Rightarrow> bool" where
  "braceless s \<longleftrightarrow> CHR ''{'' \<notin> set s \<and> CHR ''}'' \<notin> set s"

fun piece_ok :: "piece \<Rightarrow> bool" where
  "piece_ok (Lit s) = braceless s"
| "piece_ok (Var n) = braceless n"

fun unpiece :: "piece \<Rightarrow> string" where
  "unpiece (Lit s) = s"
| "unpiece (Var n) = placeholder n"

definition write_template :: "piece list \<Rightarrow> string" where
  "write_template ps = concat (map unpiece ps)"

fun var_names :: "piece list \<Rightarrow> string list" where
  "var_names [] = []"
| "var_names (Lit s # ps) = var_names ps"
| "var_names (Var n # ps) = n # var_names ps"

lemma find_sub_skip:
  "hd p \<notin> set l \<Longrightarrow> p \<noteq> [] \<Longrightarrow> find_sub p (l @ s) = map_option (\<lambda>k. length l + k) (find_sub p s)"
proof (induction l)
  case Nil
  then show ?case by (simp add: option.map_ident)
next
  case (Cons x l)
  then have "\<not> starts_with (x # l @ s) p" by (cases p) (auto simp: starts_with_def)
  with Cons show ?case by (simp add: option.map_comp comp_def)
qed

lemma find_sub_here [simp]: "find_sub p (p @ s) = Some 0"
  by (cases "p @ s") (auto simp: starts_with_append [of p s, simplified] split: if_splits
      dest: arg_cong [where f = "\<lambda>u. starts_with u p"])

lemma find_sub_lit:
  "braceless l \<Longrightarrow> p = open_braces \<or> p = close_braces \<Longrightarrow>
     find_sub p (l @ s) = map_option (\<lambda>k. length l + k) (find_sub p s)"
  by (rule find_sub_skip) (auto simp: braceless_def)

lemma placeholders_lit: "braceless l \<Longrightarrow> placeholders (l @ s) = placeholders s"
proof -
  assume l: "braceless l"
  then have "find_sub open_braces (l @ s) = map_option (\<lambda>k. length l + k) (find_sub open_braces s)"
    by (intro find_sub_lit) auto
  moreover have "drop (length l + k) (l @ s) = drop k s" for k
    using drop_drop [of k "length l" "l @ s"] by (simp add: add.commute)
  ultimately show ?thesis
    by (subst (1 2) placeholders.simps)
      (simp add: Let_def add.assoc del: drop_append add_2_eq_Suc add_2_eq_Suc' split: option.split sum.split)
qed

lemma placeholders_var:
  assumes "braceless n"
  shows "placeholders (placeholder n @ s) =
    (case placeholders s of Inl e \<Rightarrow> Inl e | Inr ns \<Rightarrow> Inr (n # ns))"
proof -
  have 1: "find_sub open_braces (placeholder n @ s) = Some 0"
    unfolding placeholder_def append_assoc by (rule find_sub_here)
  have 2: "drop (0 + 2) (placeholder n @ s) = n @ close_braces @ s"
    by (simp add: placeholder_def)
  have 3: "find_sub close_braces (n @ close_braces @ s) = Some (length n)"
    by (subst find_sub_lit [OF assms]) (simp_all only: find_sub_here option.map, simp_all)
  show ?thesis
    by (subst placeholders.simps) (simp only: 1 2 3 option.case Let_def, simp split: sum.split)
qed

lemma placeholders_Nil [simp]: "placeholders [] = Inr []"
  by (subst placeholders.simps) simp

lemma placeholders_write:
  "list_all piece_ok ps \<Longrightarrow> placeholders (write_template ps) = Inr (var_names ps)"
proof (induction ps rule: var_names.induct)
  case 1
  then show ?case by (simp add: write_template_def)
next
  case (2 s ps)
  then show ?case by (simp add: write_template_def placeholders_lit)
next
  case (3 n ps)
  then show ?case by (simp add: write_template_def placeholders_var)
qed

section \<open>Substitution\<close>

definition subst_piece :: "string \<Rightarrow> string \<Rightarrow> piece \<Rightarrow> piece" where
  "subst_piece n v p = (case p of Var m \<Rightarrow> if m = n then Lit v else p | Lit s \<Rightarrow> p)"

lemma replace_all_skip:
  "hd p \<notin> set l \<Longrightarrow> p \<noteq> [] \<Longrightarrow> replace_all p r (l @ s) = l @ replace_all p r s"
proof (induction l)
  case Nil
  then show ?case by simp
next
  case (Cons x l)
  then have "\<not> starts_with (x # l @ s) p" by (cases p) (auto simp: starts_with_def)
  with Cons show ?case by (simp add: replace_all_Cons)
qed

lemma placeholder_prefix:
  assumes "braceless m" "braceless n" "placeholder m @ s = placeholder n @ t"
  shows "m = n"
proof -
  have eq: "m @ close_braces @ s = n @ close_braces @ t"
    using assms(3) by (simp add: placeholder_def)
  have *: "takeWhile (\<lambda>c. c \<noteq> CHR ''}'') (k @ close_braces @ u) = k" if "braceless k" for k u
    using that by (subst takeWhile_append2) (auto simp: braceless_def)
  show ?thesis using * [OF assms(1), of s] * [OF assms(2), of t] eq by metis
qed

lemma replace_placeholder:
  assumes "braceless m" "braceless n"
  shows "replace_all (placeholder n) v (placeholder m @ s) =
    (if m = n then v else placeholder m) @ replace_all (placeholder n) v s"
proof (cases "m = n")
  case True
  then show ?thesis using replace_all_match [of "placeholder n" v s] by (simp add: placeholder_def)
next
  case False
  let ?p = "placeholder n"
  have "\<not> starts_with (placeholder m @ s) ?p"
    using placeholder_prefix [OF assms] False by (auto simp: starts_with_iff)
  then have 1: "replace_all ?p v (placeholder m @ s) =
      CHR ''{'' # replace_all ?p v (CHR ''{'' # m @ close_braces @ s)"
    by (simp add: placeholder_def replace_all_Cons)
  have ne: "hd (m @ close_braces @ s) \<noteq> CHR ''{''"
    using assms(1) by (cases m) (auto simp: braceless_def)
  have "\<not> starts_with (CHR ''{'' # m @ close_braces @ s) ?p"
  proof
    assume "starts_with (CHR ''{'' # m @ close_braces @ s) ?p"
    then obtain u where "m @ close_braces @ s = CHR ''{'' # u"
      by (auto simp: starts_with_iff placeholder_def)
    then show False using ne by simp
  qed
  then have 2: "replace_all ?p v (CHR ''{'' # m @ close_braces @ s) =
      CHR ''{'' # replace_all ?p v (m @ close_braces @ s)"
    by (rule replace_all_Cons)
  have "hd ?p \<notin> set (m @ close_braces)" "?p \<noteq> []"
    using assms(1) by (auto simp: braceless_def placeholder_def)
  from replace_all_skip [OF this, of v s]
  have 3: "replace_all ?p v (m @ close_braces @ s) = m @ close_braces @ replace_all ?p v s" by simp
  show ?thesis using False 1 2 3 by (simp add: placeholder_def)
qed

lemma replace_write:
  "list_all piece_ok ps \<Longrightarrow> braceless n \<Longrightarrow>
     replace_all (placeholder n) v (write_template ps) = write_template (map (subst_piece n v) ps)"
proof (induction ps rule: var_names.induct)
  case 1
  then show ?case by (simp add: write_template_def)
next
  case (2 s ps)
  then have "hd (placeholder n) \<notin> set s" "placeholder n \<noteq> []"
    by (auto simp: braceless_def placeholder_def)
  with 2 show ?case by (simp add: write_template_def subst_piece_def replace_all_skip)
next
  case (3 m ps)
  then show ?case by (simp add: write_template_def subst_piece_def replace_placeholder)
qed

text \<open>The reference: every name that \<open>vars\<close> binds is replaced by its first value.\<close>

definition fill :: "(string \<times> string) list \<Rightarrow> piece \<Rightarrow> piece" where
  "fill vars p = (case p of
     Var n \<Rightarrow> (case map_of vars n of Some v \<Rightarrow> Lit v | None \<Rightarrow> p)
   | Lit s \<Rightarrow> p)"

lemma render_fill:
  "list_all piece_ok ps \<Longrightarrow> list_all (\<lambda>(n, v). braceless n \<and> braceless v) vars \<Longrightarrow>
     render (write_template ps) vars = write_template (map (fill vars) ps)"
proof (induction vars arbitrary: ps)
  case Nil
  have "fill [] p = p" for p by (cases p) (simp_all add: fill_def)
  then show ?case by (simp add: render_def)
next
  case (Cons nv vars)
  obtain n v where nv: "nv = (n, v)" by (cases nv)
  have ok: "list_all piece_ok (map (subst_piece n v) ps)"
    using Cons.prems by (auto simp: list_all_iff nv subst_piece_def split: piece.splits)
  have comp: "fill vars (subst_piece n v p) = fill (nv # vars) p" for p
    by (cases p) (auto simp: fill_def subst_piece_def nv)
  have "render (write_template ps) (nv # vars) = render (write_template (map (subst_piece n v) ps)) vars"
    using Cons.prems by (simp add: render_def nv replace_write)
  also have "\<dots> = write_template (map (fill vars) (map (subst_piece n v) ps))"
    using Cons.prems by (intro Cons.IH ok) simp
  finally show ?case by (simp add: comp_def comp)
qed

end
