(* ===== verification/Config.thy ===== *)
theory Config
  imports Budget Jwt Expr Template
begin

text \<open>
  \<open>gateway-core/src/config.rs\<close>, \<open>wasm_config.rs\<close> and the policy types of \<open>scope.rs\<close>: the
  configuration as it is read, the composed policy a request consults, the defaults and
  the accessors.  \<open>'p\<close> is the type of compiled CEL programs and \<open>'k\<close> that of RSA keys, both
  of external crates.  A \<open>BTreeMap\<close> is a sorted list of entries.
\<close>

section \<open>Providers\<close>

datatype provider_kind = OpenAi | Anthropic | Bedrock | Vertex

definition provider_kind_name :: "provider_kind \<Rightarrow> string" where
  "provider_kind_name k = (case k of
     OpenAi \<Rightarrow> ''openai'' | Anthropic \<Rightarrow> ''anthropic'' | Bedrock \<Rightarrow> ''bedrock'' | Vertex \<Rightarrow> ''vertex'')"

record upstream =
  up_host :: string
  up_port :: "16 word"
  up_tls :: bool
  up_sni :: "string option"

definition upstream_sni :: "upstream \<Rightarrow> string" where
  "upstream_sni u = unwrap_or (up_sni u) (up_host u)"

record operator_value_fields =
  ov_value :: "string option"
  ov_from_attribution :: "string option"

datatype operator_value_spec = Bare string | Spec operator_value_fields

definition as_template :: "operator_value_spec \<Rightarrow> string option" where
  "as_template s = (case s of
     Bare t \<Rightarrow> Some t
   | Spec f \<Rightarrow> (case (ov_value f, ov_from_attribution f) of
       (Some v, None) \<Rightarrow> Some v
     | (None, Some k) \<Rightarrow> Some (placeholder k)
     | _ \<Rightarrow> None))"

record forced_header =
  fh_name :: string
  fh_value :: operator_value_spec

record forced_body_field =
  bf_path :: string
  bf_value :: operator_value_spec
  bf_if_absent :: bool

record injection =
  ij_headers :: "forced_header list"
  ij_body :: "forced_body_field list"

record allow_list =
  al_key :: string
  al_values :: "string list"

record token_source_spec =
  tk_file :: "string option"
  tk_env :: "string option"

record base_hop =
  bh_web_identity_token :: token_source_spec
  bh_role_arn :: string
  bh_session_name :: string
  bh_sts_region :: string

record session_tag =
  sg_key :: string
  sg_value :: "string option"
  sg_from_attribution :: "string option"

record sts_config =
  sc_endpoint :: upstream
  sc_role_arn :: operator_value_spec
  sc_session_name :: operator_value_spec
  sc_region :: string
  sc_duration_secs :: u32
  sc_tags :: "session_tag list"
  sc_allow :: "allow_list option"
  sc_base :: "base_hop option"

record wif_audience =
  wa_project_number :: string
  wa_pool_id :: string
  wa_provider_id :: string

definition audience :: "wif_audience \<Rightarrow> string" where
  "audience w =
     ''//iam.googleapis.com/projects/'' @ wa_project_number w @
     ''/locations/global/workloadIdentityPools/'' @ wa_pool_id w @
     ''/providers/'' @ wa_provider_id w"

record vertex_auth =
  va_web_identity_token :: token_source_spec
  va_wif :: wif_audience
  va_service_account_email :: string
  va_sts_endpoint :: upstream
  va_iam_endpoint :: upstream
  va_scopes :: "string list"
  va_lifetime_secs :: u32

record provider =
  pv_kind :: provider_kind
  pv_upstream :: upstream
  pv_inject :: "injection option"
  pv_auth :: "vertex_auth option"
  pv_locations :: "string list option"
  pv_sts :: "sts_config option"

section \<open>Scopes\<close>

definition BASE_MARKER :: string where
  "BASE_MARKER = ''<base>''"

record spend_cap_spec =
  sp_default :: "u64 option"
  sp_overrides :: "(string, u64 option) btree"
  sp_window :: "window option"
  sp_alert_at :: "8 word option"

definition to_key_cap :: "spend_cap_spec \<Rightarrow> key_cap" where
  "to_key_cap s =
     \<lparr>kc_default = sp_default s, kc_overrides = sp_overrides s, kc_window = sp_window s,
      kc_alert_fraction =
        map_option (\<lambda>p. f_div (FFin (of_nat (unat p))) (FFin 100)) (sp_alert_at s)\<rparr>"

record attribution =
  at_required_keys :: "string list"
  at_headers :: "(string, string) btree"
  at_pinned :: "(string, string) btree"
  at_from_claims :: "(string, string) btree"
  at_derived :: "(string, string) btree"
  at_spend_caps :: "(string, spend_cap_spec) btree"
  at_models :: "string list option"

record label_spec =
  ls_key :: string
  ls_value :: "string option"
  ls_from_attribution :: "string option"
  ls_expression :: "string option"

datatype label_entry = LBase string | LSpec label_spec

record streaming_rejection =
  sj_event :: "string option"
  sj_data :: string

record rejection_template =
  rt_status :: "16 word"
  rt_content_type :: string
  rt_body :: string
  rt_streaming :: "streaming_rejection option"

record rejections =
  rj_default_response :: rejection_template
  rj_unknown_route :: rejection_template
  rj_model_not_allowed :: "rejection_template option"
  rj_value_not_allowed :: "rejection_template option"
  rj_cap_exceeded :: "rejection_template option"

record rejection_overrides =
  ro_default_response :: "rejection_template option"
  ro_unknown_route :: "rejection_template option"
  ro_model_not_allowed :: "rejection_template option"
  ro_value_not_allowed :: "rejection_template option"
  ro_cap_exceeded :: "rejection_template option"

definition default_model_not_allowed :: rejection_template where
  "default_model_not_allowed =
     \<lparr>rt_status = 403, rt_content_type = ''application/json'',
      rt_body = ''{\"error\":\"model_not_allowed\",\"model\":\"{{model}}\",\"route\":\"{{route}}\"}'',
      rt_streaming = None\<rparr>"

record scope =
  so_attribution :: attribution
  so_labels :: "label_entry list"
  so_rejections :: "rejection_overrides option"

record apps =
  ap_key :: string
  ap_overrides :: "(string, scope) btree"

section \<open>The composed policy\<close>

datatype 'p label_value =
    Static string
  | FromAttribution string
  | LExpr "'p compiled_expr"

record 'p effective_label =
  el_key :: string
  el_value :: "'p label_value"

record 'p effective_policy =
  ep_required_keys :: "string list"
  ep_pinned :: "(string, string) btree"
  ep_from_claims :: "(string, string) btree"
  ep_derived :: "(string, 'p compiled_expr) btree"
  ep_labels :: "'p effective_label list"
  ep_spend_caps :: "(string, key_cap) btree"
  ep_models :: "string list option"
  ep_headers :: "(string, string) btree"
  ep_default_response :: rejection_template
  ep_unknown_route :: rejection_template
  ep_model_not_allowed :: rejection_template
  ep_value_not_allowed :: "rejection_template option"
  ep_cap_exceeded :: "rejection_template option"

definition policy_cap_for :: "'p effective_policy \<Rightarrow> string \<Rightarrow> string \<Rightarrow> u64 option" where
  "policy_cap_for p key v = Option.bind (bt_get (ep_spend_caps p) key) (\<lambda>c. cap_for c v)"

definition policy_terms_for :: "'p effective_policy \<Rightarrow> string \<Rightarrow> string \<Rightarrow> cap_terms option" where
  "policy_terms_for p key v = Option.bind (bt_get (ep_spend_caps p) key) (\<lambda>c. terms_for c v)"

definition key_universe :: "'p effective_policy \<Rightarrow> string set" where
  "key_universe p = set (ep_required_keys p) \<union> set (bt_keys (ep_pinned p)) \<union>
     set (bt_keys (ep_from_claims p)) \<union> set (bt_keys (ep_derived p))"

record 'p compiled_route =
  cr_condition :: "'p compiled_expr option"
  cr_effective :: "'p effective_policy"
  cr_apps :: "(string, 'p effective_policy) btree"

record 'p route =
  ru_prefix :: string
  ru_provider :: string
  ru_project :: "string option"
  ru_condition :: "string option"
  ru_attribution :: attribution
  ru_labels :: "label_entry list"
  ru_rejections :: "rejection_overrides option"
  ru_compiled :: "'p compiled_route option"

text \<open>\<open>policy()\<close> and \<open>app_policy()\<close> panic on a route that was not finalized: \<open>None\<close> here.\<close>

definition route_policy :: "'p route \<Rightarrow> 'p effective_policy option" where
  "route_policy r = map_option cr_effective (ru_compiled r)"

definition route_app_policy :: "'p route \<Rightarrow> string \<Rightarrow> 'p effective_policy option option" where
  "route_app_policy r v = map_option (\<lambda>c. bt_get (cr_apps c) v) (ru_compiled r)"

section \<open>The file\<close>

record otlp_config =
  ot_endpoint :: upstream
  ot_service_name :: string
  ot_flush_interval_secs :: u64

record webhook_target =
  wt_endpoint :: upstream
  wt_path :: string

record 'k jwt_auth =
  ja_hs256_secret :: "string option"
  ja_jwks :: "string option"
  ja_header :: string
  ja_compiled_jwks :: "'k jwks option"

datatype wasm_hook = OnRequest | OnResponseEvent | OnResponseEnd

definition wasm_hook_name :: "wasm_hook \<Rightarrow> string" where
  "wasm_hook_name h = (case h of
     OnRequest \<Rightarrow> ''on_request''
   | OnResponseEvent \<Rightarrow> ''on_response_event''
   | OnResponseEnd \<Rightarrow> ''on_response_end'')"

record wasm_module =
  wm_name :: string
  wm_source :: string
  wm_signature :: "string option"
  wm_hooks :: "wasm_hook list"
  wm_schema :: u32
  wm_reset_window_secs :: "u64 option"

record wasm_config =
  wc_modules :: "wasm_module list"
  wc_per_event_hooks :: bool

record ('p, 'k) config =
  cf_providers :: "(string, provider) btree"
  cf_fleet :: "scope option"
  cf_projects :: "(string, scope) btree"
  cf_routes :: "'p route list"
  cf_apps :: "apps option"
  cf_rejections :: rejections
  cf_auth :: "'k jwt_auth option"
  cf_telemetry :: "otlp_config option"
  cf_alerts :: "webhook_target option"
  cf_wasm :: wasm_config

section \<open>Facts the components share\<close>

lemma key_universe_iff: "k \<in> key_universe p \<longleftrightarrow>
    k \<in> set (ep_required_keys p) \<or> bt_contains (ep_pinned p) k \<or>
    bt_contains (ep_from_claims p) k \<or> bt_contains (ep_derived p) k"
proof -
  have *: "k \<in> set (bt_keys m) \<longleftrightarrow> bt_contains m k" for m :: "(string, 'v) btree"
    by (simp add: bt_keys_def bt_contains_def bt_get_def map_of_eq_None_iff)
  show ?thesis by (auto simp: key_universe_def *)
qed

text \<open>A key whose value the gateway establishes: pinned, claim-mapped or derived.\<close>

definition established :: "'p effective_policy \<Rightarrow> string \<Rightarrow> bool" where
  "established p k \<longleftrightarrow>
     bt_contains (ep_pinned p) k \<or> bt_contains (ep_from_claims p) k \<or> bt_contains (ep_derived p) k"

lemma established_universe: "established p k \<Longrightarrow> k \<in> key_universe p"
  by (auto simp: established_def key_universe_iff)

end
