(* ===== verification/Validate.thy ===== *)
theory Validate
  imports Config
begin

text \<open>
  \<open>gateway-core/src/validate.rs\<close>: the checks of single fields and scopes.  The code pushes
  one message per problem onto a vector; here a message is the context it starts with, as
  the list of its parts, and the problem with the values it quotes, and a validator is the
  list of the messages it pushes.  A \<open>Result<(), String>\<close> is an optional problem.  Lemmas:
  what the accepted values look like, which the request path relies on.
\<close>

type_synonym ctx = "string list"

datatype problem =
    Msg string "string list"
  | ExprMsg expr_error
  | JwksMsg jwks_error

definition show_word :: "'a::len word \<Rightarrow> string" where
  "show_word w = dec_of_nat (unat w)"

type_synonym cfg_error = "ctx \<times> problem"

definition report :: "ctx \<Rightarrow> bool \<Rightarrow> problem \<Rightarrow> cfg_error list" where
  "report c b p = (if b then [(c, p)] else [])"

definition report_opt :: "ctx \<Rightarrow> problem option \<Rightarrow> cfg_error list" where
  "report_opt c p = (case p of Some e \<Rightarrow> [(c, e)] | None \<Rightarrow> [])"

lemma report_Nil [simp]: "report c b p = [] \<longleftrightarrow> \<not> b"
  by (simp add: report_def)

lemma report_opt_Nil [simp]: "report_opt c p = [] \<longleftrightarrow> p = None"
  by (simp add: report_opt_def split: option.split)

section \<open>Limits and character sets\<close>

definition MAX_LABELS :: nat where
  "MAX_LABELS = 64"

definition MAX_LABEL_KEY_LEN :: nat where
  "MAX_LABEL_KEY_LEN = 63"

definition MAX_LABEL_VALUE_LEN :: nat where
  "MAX_LABEL_VALUE_LEN = 63"

definition MAX_SESSION_TAG_KEY_LEN :: nat where
  "MAX_SESSION_TAG_KEY_LEN = 128"

definition MAX_SESSION_TAG_VALUE_LEN :: nat where
  "MAX_SESSION_TAG_VALUE_LEN = 256"

definition key_char :: "char \<Rightarrow> bool" where
  "key_char c \<longleftrightarrow> is_ascii_lower c \<or> is_ascii_digit c \<or> c = CHR ''-'' \<or> c = CHR ''_''"

definition check_key :: "string \<Rightarrow> ctx \<Rightarrow> cfg_error list" where
  "check_key key c =
     (if key = [] then [(c, (Msg ''empty attribution key'' []))] else report c (\<not> list_all key_char key)
       (Msg ''attribution key {} must be lowercase [a-z0-9_-]'' [key]))"

lemma check_key_ok: "check_key key c = [] \<longleftrightarrow> key \<noteq> [] \<and> list_all key_char key"
  by (simp add: check_key_def)

definition validate_label_key :: "string \<Rightarrow> problem option" where
  "validate_label_key key =
     (let len = char_count key
      in if \<not> (1 \<le> len \<and> len \<le> MAX_LABEL_KEY_LEN) then Some
        (Msg ''label key must be 1-63 characters, got {}'' [dec_of_nat len])
         else if \<not> is_ascii_lower (hd key) then Some
           (Msg ''label key {} must start with a lowercase letter'' [key])
         else if \<not> list_all key_char (tl key) then Some
           (Msg ''label key {} contains characters Google Cloud does not accept'' [key])
         else None)"

definition validate_label_value :: "string \<Rightarrow> problem option" where
  "validate_label_value val =
     (let len = char_count val
      in if len > MAX_LABEL_VALUE_LEN then Some
        (Msg ''label value must be at most 63 characters, got {}'' [dec_of_nat len])
         else if \<not> list_all key_char val then Some
           (Msg ''label value {} contains characters Google Cloud does not accept'' [val])
         else None)"

definition aws_tag_char :: "char \<Rightarrow> bool" where
  "aws_tag_char c \<longleftrightarrow> is_ascii_alphanumeric c \<or> c \<in> set ''_.:/=+-@ ''"

definition validate_session_tag_key :: "string \<Rightarrow> problem option" where
  "validate_session_tag_key key =
     (let len = char_count key
      in if \<not> (1 \<le> len \<and> len \<le> MAX_SESSION_TAG_KEY_LEN) then Some
        (Msg ''session tag key must be 1-128 characters, got {}'' [dec_of_nat len])
         else if \<not> list_all aws_tag_char key then Some
           (Msg ''session tag key {} contains characters AWS does not accept'' [key])
         else None)"

definition validate_session_tag_value :: "string \<Rightarrow> problem option" where
  "validate_session_tag_value val =
     (let len = char_count val
      in if len > MAX_SESSION_TAG_VALUE_LEN then Some
        (Msg ''session tag value must be at most 256 characters, got {}'' [dec_of_nat len])
         else if \<not> list_all aws_tag_char val then Some
           (Msg ''session tag value {} contains characters AWS does not accept'' [val])
         else None)"

definition session_name_char :: "char \<Rightarrow> bool" where
  "session_name_char c \<longleftrightarrow> is_ascii_alphanumeric c \<or> c \<in> set ''_+=,.@-''"

definition validate_session_name :: "string \<Rightarrow> problem option" where
  "validate_session_name name =
     (let len = char_count name
      in if \<not> (2 \<le> len \<and> len \<le> 64) then Some
        (Msg ''RoleSessionName must be 2-64 characters, got {}'' [dec_of_nat len])
         else if \<not> list_all session_name_char name then Some
           (Msg ''RoleSessionName {} contains characters AWS does not accept'' [name])
         else None)"

section \<open>Operator values and templates\<close>

definition validate_operator_value ::
  "operator_value_spec \<Rightarrow> ctx \<Rightarrow> (string \<Rightarrow> problem option) \<Rightarrow> cfg_error list"
where
  "validate_operator_value spec c check_template = (case as_template spec of
     None \<Rightarrow> [(c, (Msg ''exactly one of the fields must be set'' []))]
   | Some template \<Rightarrow>
       (case placeholders template of
          Inl e \<Rightarrow> [(c, (Msg ''unterminated placeholder at {}'' [e]))]
        | Inr keys \<Rightarrow> concat (map (\<lambda>key. check_key key (c @ [''placeholder''])) keys)) @
       report_opt c (check_template template))"

definition check_placeholders :: "string \<Rightarrow> ctx \<Rightarrow> string list \<Rightarrow> cfg_error list" where
  "check_placeholders txt c allowed = (case placeholders txt of
     Inr names \<Rightarrow> concat (map (\<lambda>n. report c (n \<notin> set allowed)
       (Msg ''unknown placeholder {} (allowed: {})'' [n, join_with '', '' allowed])) names)
   | Inl e \<Rightarrow> [(c, (Msg ''unterminated placeholder at {}'' [e]))])"

definition validate_template :: "rejection_template \<Rightarrow> ctx \<Rightarrow> string list \<Rightarrow> cfg_error list" where
  "validate_template t reason allowed =
     report reason (\<not> (100 \<le> rt_status t \<and> rt_status t \<le> 599))
       (Msg ''status {} is not a valid HTTP status'' [show_word (rt_status t)]) @
     report reason (is_blank (rt_content_type t)) (Msg ''content_type must not be empty'' []) @
     check_placeholders (rt_body t) (reason @ [''body'']) allowed @
     (case rt_streaming t of
        Some s \<Rightarrow> check_placeholders (sj_data s) (reason @ [''streaming'', ''data'']) allowed
      | None \<Rightarrow> [])"

definition opt_template :: "rejection_template option \<Rightarrow> ctx \<Rightarrow> string list \<Rightarrow> cfg_error list" where
  "opt_template t reason allowed =
     (case t of Some t \<Rightarrow> validate_template t reason allowed | None \<Rightarrow> [])"

definition validate_rejections :: "rejections \<Rightarrow> ctx \<Rightarrow> cfg_error list" where
  "validate_rejections r c =
     validate_template (rj_default_response r) (c @ [''default_response''])
       [''key'', ''route'', ''cap'', ''spend''] @
     validate_template (rj_unknown_route r) (c @ [''unknown_route'']) [''route''] @
     opt_template (rj_model_not_allowed r) (c @ [''model_not_allowed'']) [''model'', ''route''] @
     opt_template (rj_value_not_allowed r) (c @ [''value_not_allowed'']) [''key'', ''value'', ''route''] @
     opt_template (rj_cap_exceeded r) (c @ [''cap_exceeded'']) [''key'', ''route'', ''cap'', ''spend'']"

definition validate_rejection_overrides :: "rejection_overrides \<Rightarrow> ctx \<Rightarrow> cfg_error list" where
  "validate_rejection_overrides r c =
     opt_template (ro_default_response r) (c @ [''default_response''])
       [''key'', ''route'', ''cap'', ''spend''] @
     opt_template (ro_unknown_route r) (c @ [''unknown_route'']) [''route''] @
     opt_template (ro_model_not_allowed r) (c @ [''model_not_allowed'']) [''model'', ''route''] @
     opt_template (ro_value_not_allowed r) (c @ [''value_not_allowed'']) [''key'', ''value'', ''route''] @
     opt_template (ro_cap_exceeded r) (c @ [''cap_exceeded'']) [''key'', ''route'', ''cap'', ''spend'']"

section \<open>Providers\<close>

definition role_arn_shape :: "string \<Rightarrow> bool" where
  "role_arn_shape t \<longleftrightarrow> starts_with t ''arn:'' \<and> contains_sub t '':role/''"

definition check_role_arn :: "string \<Rightarrow> problem option" where
  "check_role_arn t =
     (if is_blank t then Some (Msg ''must not be empty'' [])
      else if \<not> role_arn_shape t then Some (Msg ''{} is not an IAM role ARN'' [t]) else None)"

definition check_session_name :: "string \<Rightarrow> problem option" where
  "check_session_name t =
     (if (case placeholders t of Inr p \<Rightarrow> p = [] | Inl _ \<Rightarrow> True) then validate_session_name t
      else None)"

definition token_source_ok :: "token_source_spec \<Rightarrow> bool" where
  "token_source_ok t = (case (tk_file t, tk_env t) of
     (Some f, None) \<Rightarrow> \<not> is_blank f
   | (None, Some v) \<Rightarrow> \<not> is_blank v
   | _ \<Rightarrow> False)"

definition validate_allow :: "allow_list \<Rightarrow> ctx \<Rightarrow> cfg_error list" where
  "validate_allow a c =
     check_key (al_key a) (c @ [''allow'', ''key'']) @
     report (c @ [''allow'']) (al_values a = []) (Msg ''values must not be empty'' []) @
     concat (map (\<lambda>v. report (c @ [''allow'']) (is_blank v)
       (Msg ''values must not contain empty entries'' [])) (al_values a))"

definition validate_base :: "sts_config \<Rightarrow> base_hop \<Rightarrow> ctx \<Rightarrow> cfg_error list" where
  "validate_base sts base c =
     report (c @ [''base'', ''web_identity_token''])
       (\<not> token_source_ok (bh_web_identity_token base))
         (Msg ''exactly one of file or env must be set, non-empty'' []) @
     report (c @ [''base'', ''role_arn'']) (\<not> role_arn_shape (bh_role_arn base))
       (Msg ''{} is not an IAM role ARN'' [bh_role_arn base]) @
     report_opt (c @ [''base'', ''session_name'']) (validate_session_name (bh_session_name base)) @
     report c (sc_duration_secs sts > 3600)
       (Msg ''duration_secs must be <= 3600 with a base hop, got {}'' [show_word (sc_duration_secs sts)])"

definition live_aws :: "string \<Rightarrow> bool" where
  "live_aws h =
     (let host = to_ascii_lowercase h
      in host = ''amazonaws.com'' \<or> ends_with host ''.amazonaws.com'' \<or>
         ends_with host ''.amazonaws.com.cn'')"

fun validate_tags :: "string set \<Rightarrow> session_tag list \<Rightarrow> ctx \<Rightarrow> cfg_error list" where
  "validate_tags seen [] c = []"
| "validate_tags seen (tag # tags) c =
     (let t = c @ [''tag'', sg_key tag]
      in report_opt t (validate_session_tag_key (sg_key tag)) @
         report t (sg_key tag \<in> seen) (Msg ''duplicate tag key'' []) @
         (case (sg_value tag, sg_from_attribution tag) of
            (Some v, None) \<Rightarrow> report_opt t (validate_session_tag_value v)
          | (None, Some k) \<Rightarrow> check_key k (t @ [''from_attribution''])
          | _ \<Rightarrow> [(t, (Msg ''exactly one of the fields must be set'' []))]) @
         validate_tags (insert (sg_key tag) seen) tags c)"

definition validate_sts :: "string \<Rightarrow> provider_kind \<Rightarrow> sts_config \<Rightarrow> cfg_error list" where
  "validate_sts name kind sts =
     (let c = [''provider'', name, ''sts'']
      in report c (kind \<noteq> Bedrock)
        (Msg ''applies to another kind of provider only ({} is {})'' [name, (provider_kind_name kind)]) @
         validate_operator_value (sc_role_arn sts) (c @ [''role_arn'']) check_role_arn @
         validate_operator_value (sc_session_name sts) (c @ [''session_name'']) check_session_name @
         (case sc_allow sts of Some a \<Rightarrow> validate_allow a c | None \<Rightarrow> []) @
         (case sc_base sts of Some b \<Rightarrow> validate_base sts b c | None \<Rightarrow> []) @
         report c (sc_base sts = None \<and> live_aws (up_host (sc_endpoint sts)))
          
             (Msg ''endpoint {} is live AWS STS but no base hop is configured'' [up_host (sc_endpoint sts)]) @
         report (c @ [''endpoint'', ''host'']) (is_blank (up_host (sc_endpoint sts)))
           (Msg ''must not be empty'' []) @
         report (c @ [''endpoint'', ''port'']) (up_port (sc_endpoint sts) = 0)
           (Msg ''must be 1-65535'' []) @
         report c (\<not> (900 \<le> sc_duration_secs sts \<and> sc_duration_secs sts \<le> 43200))
           (Msg ''duration_secs must be 900-43200, got {}'' [show_word (sc_duration_secs sts)]) @
         report c (sc_tags sts = []) (Msg ''at least one session tag is required'' []) @
         validate_tags {} (sc_tags sts) c)"

definition validate_vertex_auth :: "string \<Rightarrow> provider_kind \<Rightarrow> vertex_auth \<Rightarrow> cfg_error list" where
  "validate_vertex_auth name kind auth =
     (let c = [''provider'', name, ''auth'']
      in report c (kind \<noteq> Vertex)
        (Msg ''applies to another kind of provider only ({} is {})'' [name, (provider_kind_name kind)]) @
         report (c @ [''web_identity_token'']) (\<not> token_source_ok (va_web_identity_token auth))
           (Msg ''exactly one of file or env must be set, non-empty'' []) @
         report (c @ [''service_account_email''])
           (\<not> contains_char (va_service_account_email auth) CHR ''@'')
           (Msg ''{} is not an email'' [va_service_account_email auth]) @
         concat (map (\<lambda>(field, v). report (c @ [field]) (is_blank v)
           (Msg ''must not be empty'' []))
           [(''wif.project_number'', wa_project_number (va_wif auth)),
            (''wif.pool_id'', wa_pool_id (va_wif auth)),
            (''wif.provider_id'', wa_provider_id (va_wif auth))]) @
         report (c @ [''scopes'']) (va_scopes auth = []) (Msg ''must not be empty'' []) @
         report c (\<not> (300 \<le> va_lifetime_secs auth \<and> va_lifetime_secs auth \<le> 3600))
           (Msg ''lifetime_secs must be 300-3600, got {}'' [show_word (va_lifetime_secs auth)]) @
         concat (map (\<lambda>(field, up).
             report (c @ [field, ''host'']) (is_blank (up_host up)) (Msg ''must not be empty'' []) @
             report (c @ [field, ''port'']) (up_port up = 0) (Msg ''must be 1-65535'' []))
           [(''sts_endpoint'', va_sts_endpoint auth), (''iam_endpoint'', va_iam_endpoint auth)]))"

definition validate_locations :: "string \<Rightarrow> provider_kind \<Rightarrow> string list \<Rightarrow> cfg_error list" where
  "validate_locations name kind locations =
     (let c = [''provider'', name, ''locations'']
      in report c (kind \<noteq> Vertex)
        (Msg ''applies to another kind of provider only ({} is {})'' [name, (provider_kind_name kind)]) @
         report c (locations = []) (Msg ''must not be empty when present'' []) @
         concat (map (\<lambda>l. report c (is_blank l \<or> contains_char l CHR ''/'')
           (Msg ''{} is not a location name'' [l])) locations))"

definition RESERVED_INJECT_HEADERS :: "string list" where
  "RESERVED_INJECT_HEADERS =
     [''host'', ''authorization'', ''content-length'', ''transfer-encoding'', ''x-amz-date'',
      ''x-amz-security-token'', ''x-amz-content-sha256'']"

definition contains_whitespace :: "string \<Rightarrow> bool" where
  "contains_whitespace s \<longleftrightarrow> list_ex (contains_sub s) whitespace_seqs"

definition validate_inject ::
  "string \<Rightarrow> provider_kind \<Rightarrow> bool \<Rightarrow> injection \<Rightarrow> cfg_error list"
where
  "validate_inject name kind has_sts inject =
     (let c = [''provider'', name, ''inject'']
      in report c (kind = Bedrock \<and> \<not> has_sts)
        (Msg ''forced injection on a bedrock provider requires sts'' []) @
         concat (map (\<lambda>h.
             let hc = c @ [''header'', fh_name h]
             in report hc (is_blank (fh_name h) \<or> contains_whitespace (fh_name h))
               (Msg ''header name must be a non-empty token'' []) @
                report hc (to_ascii_lowercase (fh_name h) \<in> set RESERVED_INJECT_HEADERS)
                  (Msg ''this header is owned by signing/transport'' []) @
                validate_operator_value (fh_value h) hc
                  (\<lambda>t. if t = [] then Some (Msg ''must not be empty'' []) else None))
           (ij_headers inject)) @
         concat (map (\<lambda>f.
             let fc = c @ [''body'', bf_path f]
             in report fc (is_blank (bf_path f) \<or> list_ex is_blank (split_char CHR ''.'' (bf_path f)))
                  (Msg ''path must be non-empty dotted segments'' []) @
                validate_operator_value (bf_value f) fc (\<lambda>_. None))
           (ij_body inject)))"

definition validate_provider :: "string \<Rightarrow> provider \<Rightarrow> cfg_error list" where
  "validate_provider name p =
     report [''providers''] (is_blank name) (Msg ''provider name must not be empty'' []) @
     report [''provider'', name, ''upstream'', ''host''] (is_blank (up_host (pv_upstream p)))
       (Msg ''must not be empty'' []) @
     report [''provider'', name, ''upstream'', ''port''] (up_port (pv_upstream p) = 0)
       (Msg ''must be 1-65535'' []) @
     (case pv_sts p of Some sts \<Rightarrow> validate_sts name (pv_kind p) sts | None \<Rightarrow> []) @
     (case pv_auth p of Some a \<Rightarrow> validate_vertex_auth name (pv_kind p) a | None \<Rightarrow> []) @
     (case pv_locations p of Some l \<Rightarrow> validate_locations name (pv_kind p) l | None \<Rightarrow> []) @
     (case pv_inject p of
        Some i \<Rightarrow> validate_inject name (pv_kind p) (pv_sts p \<noteq> None) i | None \<Rightarrow> [])"

definition validate_providers :: "(string, provider) btree \<Rightarrow> cfg_error list" where
  "validate_providers ps =
     report [''providers''] (ps = []) (Msg ''at least one provider is required'' []) @
     concat (map (\<lambda>(name, p). validate_provider name p) ps)"

section \<open>The other blocks\<close>

definition validate_telemetry :: "otlp_config option \<Rightarrow> cfg_error list" where
  "validate_telemetry t = (case t of None \<Rightarrow> [] | Some o' \<Rightarrow>
     report [''telemetry'', ''otlp'', ''endpoint'', ''host''] (is_blank (up_host (ot_endpoint o')))
       (Msg ''must not be empty'' []) @
     report [''telemetry'', ''otlp'', ''endpoint'', ''port''] (up_port (ot_endpoint o') = 0)
       (Msg ''must be 1-65535'' []) @
     report [''telemetry'', ''otlp'', ''service_name''] (is_blank (ot_service_name o'))
       (Msg ''must not be empty'' []) @
     report [''telemetry'', ''otlp'', ''flush_interval_secs'']
       (ot_flush_interval_secs o' = 0 \<or> ot_flush_interval_secs o' > 300)
       (Msg ''must be 1-300, got {}'' [show_word (ot_flush_interval_secs o')]))"

definition validate_alerts :: "webhook_target option \<Rightarrow> cfg_error list" where
  "validate_alerts a = (case a of None \<Rightarrow> [] | Some w \<Rightarrow>
     report [''alerts'', ''webhook'', ''endpoint'', ''host''] (is_blank (up_host (wt_endpoint w)))
       (Msg ''must not be empty'' []) @
     report [''alerts'', ''webhook'', ''endpoint'', ''port''] (up_port (wt_endpoint w) = 0)
       (Msg ''must be 1-65535'' []) @
     report [''alerts'', ''webhook'', ''path''] (\<not> starts_with (wt_path w) ''/'')
       (Msg ''must start with a slash, got {}'' [wt_path w]))"

definition validate_auth :: "'k jwt_lib \<Rightarrow> 'k jwt_auth option \<Rightarrow> cfg_error list" where
  "validate_auth J a = (case a of None \<Rightarrow> [] | Some auth \<Rightarrow>
     (case (ja_hs256_secret auth, ja_jwks auth) of
        (Some s, None) \<Rightarrow> report [''auth'', ''jwt'', ''hs256_secret''] (s = [])
          (Msg ''must not be empty'' [])
      | (None, Some doc) \<Rightarrow>
          (case jwks_parse J doc of
             Inl e \<Rightarrow> [([''auth'', ''jwt'', ''jwks''], JwksMsg e)]
           | Inr _ \<Rightarrow> [])
      | _ \<Rightarrow> [([''auth'', ''jwt''],
        (Msg ''exactly one of the fields must be set'' []))]) @
     report [''auth'', ''jwt'', ''header''] (is_blank (ja_header auth))
       (Msg ''must not be empty'' []))"

fun validate_wasm_modules :: "string set \<Rightarrow> wasm_module list \<Rightarrow> cfg_error list" where
  "validate_wasm_modules seen [] = []"
| "validate_wasm_modules seen (m # ms) =
     (let c = [''wasm module'', wm_name m]
      in (if is_blank (wm_name m) then [([], (Msg ''wasm module has an empty name'' []))]
          else report c (wm_name m \<in> seen) (Msg ''duplicate module name'' [])) @
         report c (is_blank (wm_source m)) (Msg ''empty source path'' []) @
         report c (wm_hooks m = []) (Msg ''declares no hooks'' []) @
         report c (wm_schema m = 0) (Msg ''schema version must be >= 1'' []) @
         validate_wasm_modules
           (if is_blank (wm_name m) then seen else insert (wm_name m) seen) ms)"

definition validate_wasm :: "wasm_config \<Rightarrow> cfg_error list" where
  "validate_wasm w = validate_wasm_modules {} (wc_modules w)"

section \<open>What accepted fields look like\<close>

lemma key_char_ascii: "key_char c \<Longrightarrow> is_ascii_graphic c"
  by (auto simp: key_char_def is_ascii_lower_def is_ascii_digit_def is_ascii_graphic_def)

text \<open>An attribution key holds no brace, so it is a placeholder name that \<open>render\<close> can
  substitute.\<close>

lemma key_char_braceless: "list_all key_char s \<Longrightarrow> braceless s"
proof -
  have "\<not> key_char CHR ''{''" "\<not> key_char CHR ''}''"
    by (simp_all add: key_char_def is_ascii_lower_def is_ascii_digit_def)
  moreover assume "list_all key_char s"
  ultimately show ?thesis unfolding braceless_def list_all_iff by blast
qed

lemma validate_label_value_ok:
  "validate_label_value v = None \<Longrightarrow> char_count v \<le> 63 \<and> list_all key_char v"
  by (auto simp: validate_label_value_def Let_def MAX_LABEL_VALUE_LEN_def split: if_splits)

lemma validate_session_name_ok:
  "validate_session_name n = None \<longleftrightarrow>
     2 \<le> char_count n \<and> char_count n \<le> 64 \<and> list_all session_name_char n"
  by (auto simp: validate_session_name_def Let_def)

text \<open>The distinct non-blank module names.\<close>

lemma validate_wasm_modules_ok:
  "validate_wasm_modules seen ms = [] \<Longrightarrow>
     distinct (map wm_name ms) \<and> set (map wm_name ms) \<inter> seen = {} \<and>
     (\<forall>m \<in> set ms. \<not> is_blank (wm_name m) \<and> wm_hooks m \<noteq> [] \<and> wm_schema m \<noteq> 0)"
proof (induction seen ms rule: validate_wasm_modules.induct)
  case (1 seen)
  then show ?case by simp
next
  case (2 seen m ms)
  from "2.prems" have ok: "\<not> is_blank (wm_name m)" "wm_name m \<notin> seen" "wm_hooks m \<noteq> []" "wm_schema m \<noteq> 0"
    and rest: "validate_wasm_modules (insert (wm_name m) seen) ms = []"
    by (simp_all add: Let_def split: if_splits)
  have "distinct (map wm_name ms) \<and> set (map wm_name ms) \<inter> insert (wm_name m) seen = {} \<and>
      (\<forall>m \<in> set ms. \<not> is_blank (wm_name m) \<and> wm_hooks m \<noteq> [] \<and> wm_schema m \<noteq> 0)"
    using "2.IH" [OF refl] ok(1) rest by simp
  then show ?case using ok by auto
qed

lemma validate_tags_distinct:
  "validate_tags seen tags c = [] \<Longrightarrow>
     distinct (map sg_key tags) \<and> set (map sg_key tags) \<inter> seen = {} \<and>
     (\<forall>t \<in> set tags. (sg_value t = None) \<noteq> (sg_from_attribution t = None))"
proof (induction seen tags c rule: validate_tags.induct)
  case (1 seen c)
  then show ?case by simp
next
  case (2 seen tag tags c)
  from "2.prems" have ok: "sg_key tag \<notin> seen" "(sg_value tag = None) \<noteq> (sg_from_attribution tag = None)"
    and rest: "validate_tags (insert (sg_key tag) seen) tags c = []"
    by (simp_all add: Let_def split: option.splits)
  then show ?case using "2.IH" [OF refl rest] by auto
qed

text \<open>A template that was accepted is one \<open>placeholders\<close> reads, over valid keys.\<close>

lemma validate_operator_value_ok:
  assumes "validate_operator_value spec c chk = []"
  obtains t keys where "as_template spec = Some t" "placeholders t = Inr keys"
    "\<forall>k \<in> set keys. k \<noteq> [] \<and> list_all key_char k" "chk t = None"
  using assms
  by (auto simp: validate_operator_value_def check_key_ok split: option.splits sum.splits)

lemma check_placeholders_ok:
  "check_placeholders txt c allowed = [] \<Longrightarrow>
     \<exists>names. placeholders txt = Inr names \<and> set names \<subseteq> set allowed"
  by (auto simp: check_placeholders_def split: sum.splits)

end
