(* ===== verification/Scope.thy ===== *)
theory Scope
  imports Validate
begin

text \<open>
  \<open>gateway-core/src/scope.rs\<close>: the policy chain fleet, project, route, app.  A scope is
  compiled into a layer (\<open>compile_layer\<close>), a chain of layers is composed into the policy a
  request consults (\<open>compose\<close>), and \<open>finalize\<close> validates the file, composes every chain and
  stamps the results onto the routes.  Each operation that pushes errors returns them after
  its result; the name of a scope is the list of the parts the code formats it from.
  Lemmas: which layer's entry a composed policy holds, that an accepted chain gives every
  key one origin, and what \<open>finalize\<close> guarantees of the keys that templates reference.
\<close>

section \<open>Layers\<close>

datatype 'p label_item = LIBase | LILabel string "'p label_value"

record 'p layer =
  ly_name :: ctx
  ly_required_keys :: "string list"
  ly_headers :: "(string, string) btree"
  ly_pinned :: "(string, string) btree"
  ly_from_claims :: "(string, string) btree"
  ly_derived :: "(string, 'p compiled_expr) btree"
  ly_labels :: "'p label_item list"
  ly_spend_caps :: "(string, key_cap) btree"
  ly_models :: "string list option"
  ly_default_response :: "rejection_template option"
  ly_unknown_route :: "rejection_template option"
  ly_model_not_allowed :: "rejection_template option"
  ly_value_not_allowed :: "rejection_template option"
  ly_cap_exceeded :: "rejection_template option"

datatype origin_kind = OPinned | OClaim | ODerived

definition origin_label :: "origin_kind \<Rightarrow> string" where
  "origin_label k = (case k of
     OPinned \<Rightarrow> ''pinned'' | OClaim \<Rightarrow> ''claim-mapped'' | ODerived \<Rightarrow> ''derived'')"

fun required_errs :: "ctx \<Rightarrow> nat \<Rightarrow> string set \<Rightarrow> string list \<Rightarrow> cfg_error list" where
  "required_errs c markers seen [] = []"
| "required_errs c markers seen (key # keys) =
     (if key = BASE_MARKER then
        report (c @ [''required_keys'']) (markers + 1 > 1) (Msg ''more than one <base> marker'' []) @
        required_errs c (markers + 1) seen keys
      else
        check_key key (c @ [''required_keys'']) @
        report (c @ [''required_keys'']) (key \<in> seen) (Msg ''duplicate key {}'' [key]) @
        required_errs c markers (insert key seen) keys)"

fun compile_derived ::
  "('p, 'v) cel_lib \<Rightarrow> ctx \<Rightarrow> (string \<times> string) list \<Rightarrow>
   (string, 'p compiled_expr) btree \<times> cfg_error list"
where
  "compile_derived L c [] = ([], [])"
| "compile_derived L c ((key, src) # rest) =
     (let (m, es) = compile_derived L c rest
      in (case compile_expr L src Derived of
            Inr e \<Rightarrow> (bt_insert key e m, check_key key (c @ [''derived'']) @ es)
          | Inl e \<Rightarrow> (m, check_key key (c @ [''derived'']) @ [(c @ [''derived'', key], ExprMsg e)] @ es)))"

text \<open>One key, one origin within a scope.\<close>

definition same_scope_errs :: "ctx \<Rightarrow> attribution \<Rightarrow> cfg_error list" where
  "same_scope_errs c attr =
     concat (map (\<lambda>key. report c (bt_contains (at_pinned attr) key)
         (Msg ''key {} is both pinned and claim-mapped'' [key]))
       (bt_keys (at_from_claims attr))) @
     concat (map (\<lambda>key.
         report c (bt_contains (at_pinned attr) key) (Msg ''key {} is both pinned and derived'' [key]) @
         report c (bt_contains (at_from_claims attr) key)
           (Msg ''key {} is both claim-mapped and derived'' [key]))
       (bt_keys (at_derived attr)))"

definition label_value_of ::
  "('p, 'v) cel_lib \<Rightarrow> ctx \<Rightarrow> label_spec \<Rightarrow> 'p label_value option \<times> cfg_error list"
where
  "label_value_of L c spec =
     (case (ls_value spec, ls_from_attribution spec, ls_expression spec) of
        (Some v, None, None) \<Rightarrow> (Some (Static v), report_opt c (validate_label_value v))
      | (None, Some k, None) \<Rightarrow> (Some (FromAttribution k), check_key k (c @ [''from_attribution'']))
      | (None, None, Some src) \<Rightarrow>
          (case compile_expr L src Label of
             Inr e \<Rightarrow> (Some (LExpr e), [])
           | Inl e \<Rightarrow> (None, [(c, ExprMsg e)]))
      | _ \<Rightarrow> (None, [(c, Msg ''exactly one of value, from_attribution or expression must be set'' [])]))"

fun compile_labels ::
  "('p, 'v) cel_lib \<Rightarrow> ctx \<Rightarrow> nat \<Rightarrow> string set \<Rightarrow> label_entry list \<Rightarrow>
   'p label_item list \<times> cfg_error list"
where
  "compile_labels L c markers seen [] = ([], [])"
| "compile_labels L c markers seen (LBase s # rest) =
     (if s = BASE_MARKER then
        (let (items, es) = compile_labels L c (markers + 1) seen rest
         in (LIBase # items,
             report (c @ [''labels'']) (markers + 1 > 1) (Msg ''more than one <base> marker'' []) @ es))
      else
        (let (items, es) = compile_labels L c markers seen rest
         in (items, (c @ [''labels''], Msg ''unexpected entry {}'' [s]) # es)))"
| "compile_labels L c markers seen (LSpec spec # rest) =
     (let lc = c @ [''label'', ls_key spec];
          (val, ves) = label_value_of L lc spec;
          (items, es) = compile_labels L c markers (insert (ls_key spec) seen) rest
      in ((case val of Some v \<Rightarrow> LILabel (ls_key spec) v # items | None \<Rightarrow> items),
          report_opt lc (validate_label_key (ls_key spec)) @
          report lc (ls_key spec \<in> seen) (Msg ''duplicate label key in one scope'' []) @
          ves @ es))"

definition spend_cap_errs :: "ctx \<Rightarrow> (string, spend_cap_spec) btree \<Rightarrow> cfg_error list" where
  "spend_cap_errs c caps = concat (map (\<lambda>(key, spec).
     check_key key (c @ [''spend_caps'']) @
     (case sp_alert_at spec of
        Some pct \<Rightarrow> report (c @ [''spend_caps'', key]) (\<not> (1 \<le> pct \<and> pct \<le> 100))
          (Msg ''alert_at must be 1-100 (percent), got {}'' [show_word pct])
      | None \<Rightarrow> [])) caps)"

definition bad_model_pattern :: "string \<Rightarrow> bool" where
  "bad_model_pattern m \<longleftrightarrow> is_blank m \<or> contains_char (trim_end_char CHR ''*'' m) CHR ''*''"

definition model_errs :: "ctx \<Rightarrow> string list option \<Rightarrow> cfg_error list" where
  "model_errs c models = (case models of
     Some ms \<Rightarrow>
       report c (ms = []) (Msg ''models must not be an empty list'' []) @
       concat (map (\<lambda>m. report c (bad_model_pattern m)
         (Msg ''models entry {} must be a name or a trailing-* family pattern'' [m])) ms)
   | None \<Rightarrow> [])"

definition compile_layer ::
  "('p, 'v) cel_lib \<Rightarrow> ctx \<Rightarrow> attribution \<Rightarrow> label_entry list \<Rightarrow> rejection_overrides option \<Rightarrow>
   'p layer \<times> cfg_error list"
where
  "compile_layer L c attr labels rejections =
     (let (derived, derrs) = compile_derived L c (at_derived attr);
          (items, lerrs) = compile_labels L c 0 {} labels
      in (\<lparr>ly_name = c, ly_required_keys = at_required_keys attr, ly_headers = at_headers attr,
           ly_pinned = at_pinned attr, ly_from_claims = at_from_claims attr, ly_derived = derived,
           ly_labels = items,
           ly_spend_caps = map (\<lambda>(k, s). (k, to_key_cap s)) (at_spend_caps attr),
           ly_models = at_models attr,
           ly_default_response = Option.bind rejections ro_default_response,
           ly_unknown_route = Option.bind rejections ro_unknown_route,
           ly_model_not_allowed = Option.bind rejections ro_model_not_allowed,
           ly_value_not_allowed = Option.bind rejections ro_value_not_allowed,
           ly_cap_exceeded = Option.bind rejections ro_cap_exceeded\<rparr>,
          required_errs c 0 {} (at_required_keys attr) @
          concat (map (\<lambda>(key, v). check_key key (c @ [''pinned'']) @
            report (c @ [''pinned'', key]) (v = []) (Msg ''value must not be empty'' [])) (at_pinned attr)) @
          concat (map (\<lambda>(key, claim). check_key key (c @ [''from_claims'']) @
            report (c @ [''from_claims'', key]) (is_blank claim)
              (Msg ''claim name must not be empty'' [])) (at_from_claims attr)) @
          derrs @ same_scope_errs c attr @ lerrs @
          (case rejections of Some ov \<Rightarrow> validate_rejection_overrides ov c | None \<Rightarrow> []) @
          spend_cap_errs c (at_spend_caps attr) @ model_errs c (at_models attr)))"

definition compile_scope :: "('p, 'v) cel_lib \<Rightarrow> ctx \<Rightarrow> scope \<Rightarrow> 'p layer \<times> cfg_error list" where
  "compile_scope L c s = compile_layer L c (so_attribution s) (so_labels s) (so_rejections s)"

definition compile_route_layer :: "('p, 'v) cel_lib \<Rightarrow> ctx \<Rightarrow> 'p route \<Rightarrow> 'p layer \<times> cfg_error list" where
  "compile_route_layer L c r =
     compile_layer L c (ru_attribution r) (ru_labels r) (ru_rejections r)"

section \<open>Composition\<close>

fun splice_from :: "string list \<Rightarrow> bool \<Rightarrow> string list \<Rightarrow> string list" where
  "splice_from parent spliced [] = []"
| "splice_from parent spliced (entry # child) =
     (if entry = BASE_MARKER then
        (if spliced then [] else parent) @ splice_from parent True child
      else entry # splice_from parent spliced child)"

definition splice_required :: "string list \<Rightarrow> string list \<Rightarrow> string list" where
  "splice_required parent child = (if child = [] then parent else splice_from parent False child)"

definition dedup_keep_first :: "string list \<Rightarrow> string list" where
  "dedup_keep_first xs = dedup_from {} xs"

type_synonym origins = "(string, origin_kind \<times> ctx) btree"

definition origin_step ::
  "ctx \<Rightarrow> ctx \<Rightarrow> origin_kind \<Rightarrow> string \<Rightarrow> origins \<times> cfg_error list \<Rightarrow> origins \<times> cfg_error list"
where
  "origin_step c name kind key = (\<lambda>(origin, errs). (case bt_get origin key of
     Some (prev, owner) \<Rightarrow>
       if prev \<noteq> kind then
         (origin, errs @ [(c, Msg ''contradictory pin: key {} is {} at {} but {} at {}''
            [key, origin_label prev, join_with '' '' owner, origin_label kind, join_with '' '' name])])
       else (bt_insert key (kind, name) origin, errs)
   | None \<Rightarrow> (bt_insert key (kind, name) origin, errs)))"

definition layer_origins ::
  "ctx \<Rightarrow> 'p layer \<Rightarrow> origins \<times> cfg_error list \<Rightarrow> origins \<times> cfg_error list"
where
  "layer_origins c ly st =
     fold (origin_step c (ly_name ly) ODerived) (bt_keys (ly_derived ly))
       (fold (origin_step c (ly_name ly) OClaim) (bt_keys (ly_from_claims ly))
         (fold (origin_step c (ly_name ly) OPinned) (bt_keys (ly_pinned ly)) st))"

text \<open>The merge of one map of every layer: the lower scope's entry is inserted last.\<close>

definition merge_maps :: "('p layer \<Rightarrow> (string, 'v) btree) \<Rightarrow> 'p layer list \<Rightarrow> (string, 'v) btree" where
  "merge_maps f chain = fold (\<lambda>ly. fold (\<lambda>(k, v). bt_insert k v) (f ly)) chain []"

definition lower_headers :: "'p layer \<Rightarrow> (string, string) btree" where
  "lower_headers ly = map (\<lambda>(k, v). (k, to_ascii_lowercase v)) (ly_headers ly)"

fun splice_items ::
  "nat \<Rightarrow> (nat \<times> string \<times> 'p label_value) list \<Rightarrow> bool \<Rightarrow> 'p label_item list \<Rightarrow>
   (nat \<times> string \<times> 'p label_value) list"
where
  "splice_items depth parent spliced [] = []"
| "splice_items depth parent spliced (LIBase # items) =
     (if spliced then [] else parent) @ splice_items depth parent True items"
| "splice_items depth parent spliced (LILabel k v # items) =
     (depth, k, v) # splice_items depth parent spliced items"

definition label_step ::
  "nat \<times> 'p layer \<Rightarrow> (nat \<times> string \<times> 'p label_value) list \<Rightarrow> (nat \<times> string \<times> 'p label_value) list"
where
  "label_step = (\<lambda>(depth, ly) labels.
     if ly_labels ly = [] then labels else splice_items depth labels False (ly_labels ly))"

definition best_depths :: "(nat \<times> string \<times> 'v) list \<Rightarrow> (string, nat) btree" where
  "best_depths labels =
     fold (\<lambda>(depth, key, _) m. bt_insert key (max depth (bt_entry m key depth)) m) labels []"

fun emit_labels ::
  "(string, nat) btree \<Rightarrow> string set \<Rightarrow> (nat \<times> string \<times> 'p label_value) list \<Rightarrow> 'p effective_label list"
where
  "emit_labels best emitted [] = []"
| "emit_labels best emitted ((depth, key, v) # rest) =
     (if bt_get best key = Some depth \<and> key \<notin> emitted
      then \<lparr>el_key = key, el_value = v\<rparr> # emit_labels best (insert key emitted) rest
      else emit_labels best emitted rest)"

definition final_labels :: "'p layer list \<Rightarrow> 'p effective_label list" where
  "final_labels chain =
     (let labels = fold label_step (enumerate 0 chain) []
      in emit_labels (best_depths labels) {} labels)"

definition cap_step ::
  "string \<times> key_cap \<Rightarrow> (string, key_cap) btree \<Rightarrow> (string, key_cap) btree"
where
  "cap_step = (\<lambda>(key, cap) m. bt_insert key
     (case bt_get m key of Some parent \<Rightarrow> compose_child parent cap | None \<Rightarrow> cap) m)"

definition last_some :: "('p layer \<Rightarrow> 'v option) \<Rightarrow> 'p layer list \<Rightarrow> 'v option \<Rightarrow> 'v option" where
  "last_some f chain start = fold (\<lambda>ly acc. opt_or (f ly) acc) chain start"

definition last_or :: "('p layer \<Rightarrow> 'v option) \<Rightarrow> 'p layer list \<Rightarrow> 'v \<Rightarrow> 'v" where
  "last_or f chain start = fold (\<lambda>ly acc. unwrap_or (f ly) acc) chain start"

definition compose ::
  "rejections \<Rightarrow> 'p layer list \<Rightarrow> ctx \<Rightarrow> 'p effective_policy \<times> cfg_error list"
where
  "compose base chain c =
     (let labels = final_labels chain
      in (\<lparr>ep_required_keys =
             dedup_keep_first (fold (\<lambda>ly req. splice_required req (ly_required_keys ly)) chain []),
           ep_pinned = merge_maps ly_pinned chain,
           ep_from_claims = merge_maps ly_from_claims chain,
           ep_derived = merge_maps ly_derived chain,
           ep_labels = labels,
           ep_spend_caps = fold (\<lambda>ly. fold cap_step (ly_spend_caps ly)) chain [],
           ep_models = last_some ly_models chain None,
           ep_headers = merge_maps lower_headers chain,
           ep_default_response = last_or ly_default_response chain (rj_default_response base),
           ep_unknown_route = last_or ly_unknown_route chain (rj_unknown_route base),
           ep_model_not_allowed = last_or ly_model_not_allowed chain
             (unwrap_or (rj_model_not_allowed base) default_model_not_allowed),
           ep_value_not_allowed = last_some ly_value_not_allowed chain (rj_value_not_allowed base),
           ep_cap_exceeded = last_some ly_cap_exceeded chain (rj_cap_exceeded base)\<rparr>,
          snd (fold (layer_origins c) chain ([], [])) @
          report c (length labels > MAX_LABELS)
            (Msg ''{} labels after composition exceed the Google Cloud limit of 64''
               [dec_of_nat (length labels)])))"

section \<open>What a composed policy holds\<close>

definition layer_wf :: "'p layer \<Rightarrow> bool" where
  "layer_wf ly \<longleftrightarrow> bt_wf (ly_pinned ly) \<and> bt_wf (ly_from_claims ly) \<and> bt_wf (ly_derived ly) \<and>
     bt_wf (ly_headers ly) \<and> bt_wf (ly_spend_caps ly)"

lemma fst_set_subset: "set (bt_keys m) = {k. bt_contains m k}"
  by (auto simp: bt_keys_def bt_contains_def bt_get_def map_of_eq_None_iff)

lemma bt_wf_merge: "bt_wf m \<Longrightarrow> bt_wf (fold (\<lambda>(k, v). bt_insert k v) n m)"
  by (rule bt.invar_fold_insert)

lemma merge_maps_snoc:
  "merge_maps f (chain @ [ly]) = fold (\<lambda>(k, v). bt_insert k v) (f ly) (merge_maps f chain)"
  by (simp add: merge_maps_def)

lemma bt_wf_merge_maps [wf_intros]: "bt_wf (merge_maps f chain)"
  by (induction chain rule: rev_induct)
    (simp_all add: merge_maps_snoc bt_wf_merge, simp add: merge_maps_def)

text \<open>The entry of a key is the entry of the lowest scope that has one.\<close>

lemma get_merge_maps:
  "\<forall>ly \<in> set chain. bt_wf (f ly) \<Longrightarrow>
     bt_get (merge_maps f chain) k = fold (\<lambda>ly acc. opt_or (bt_get (f ly) k) acc) chain None"
proof (induction chain rule: rev_induct)
  case Nil
  then show ?case by (simp add: merge_maps_def)
next
  case (snoc ly chain)
  then show ?case
    by (simp add: merge_maps_snoc bt_get_merge bt_wf_merge_maps opt_or_def split: option.split)
qed

lemma fold_opt_or_Some:
  "fold (\<lambda>x acc. opt_or (g x) acc) xs acc \<noteq> None \<longleftrightarrow> acc \<noteq> None \<or> (\<exists>x \<in> set xs. g x \<noteq> None)"
  by (induction xs arbitrary: acc) (auto simp: opt_or_def split: option.splits)

lemma contains_merge_maps:
  "\<forall>ly \<in> set chain. bt_wf (f ly) \<Longrightarrow>
     bt_contains (merge_maps f chain) k \<longleftrightarrow> (\<exists>ly \<in> set chain. bt_contains (f ly) k)"
  using fold_opt_or_Some [of "\<lambda>ly. bt_get (f ly) k" chain None]
  by (auto simp: bt_contains_def get_merge_maps)

text \<open>The three ways a list composes.\<close>

lemma splice_from_plain: "BASE_MARKER \<notin> set child \<Longrightarrow> splice_from parent b child = child"
  by (induction child) auto

lemma splice_from_append:
  "BASE_MARKER \<notin> set a \<Longrightarrow> splice_from parent b (a @ c) = a @ splice_from parent b c"
  by (induction a) auto

lemma splice_required_cases:
  "splice_required parent [] = parent"
  "child \<noteq> [] \<Longrightarrow> BASE_MARKER \<notin> set child \<Longrightarrow> splice_required parent child = child"
  "BASE_MARKER \<notin> set a \<Longrightarrow> BASE_MARKER \<notin> set b \<Longrightarrow>
     splice_required parent (a @ [BASE_MARKER] @ b) = a @ parent @ b"
  by (auto simp: splice_required_def splice_from_plain splice_from_append)

subsection \<open>One key, one origin\<close>

definition keeps :: "origins \<Rightarrow> origins \<Rightarrow> bool" where
  "keeps o1 o2 \<longleftrightarrow> bt_wf o2 \<and>
     (\<forall>k kind n. bt_get o1 k = Some (kind, n) \<longrightarrow> (\<exists>n'. bt_get o2 k = Some (kind, n')))"

lemma keeps_refl: "bt_wf o1 \<Longrightarrow> keeps o1 o1"
  by (simp add: keeps_def)

lemma keeps_trans: "keeps o1 o2 \<Longrightarrow> keeps o2 o3 \<Longrightarrow> keeps o1 o3"
  unfolding keeps_def by blast

lemma origin_step_wf: "bt_wf (fst st) \<Longrightarrow> bt_wf (fst (origin_step c name kind key st))"
  by (cases st) (auto simp: origin_step_def bt_wf_insert split: option.splits)

lemma origin_fold_wf: "bt_wf (fst st) \<Longrightarrow> bt_wf (fst (fold (origin_step c name kind) keys st))"
  by (induction keys arbitrary: st) (simp_all add: origin_step_wf)

lemma layer_origins_wf: "bt_wf (fst st) \<Longrightarrow> bt_wf (fst (layer_origins c ly st))"
  by (simp add: layer_origins_def origin_fold_wf)

lemma origin_step_ok:
  assumes "bt_wf (fst st)" "snd (origin_step c name kind key st) = []"
  shows "snd st = [] \<and> keeps (fst st) (fst (origin_step c name kind key st)) \<and>
    (\<exists>n. bt_get (fst (origin_step c name kind key st)) key = Some (kind, n))"
  using assms
  by (cases st)
    (auto simp: origin_step_def keeps_def bt.get_insert bt_wf_insert split: option.splits if_splits)

lemma origin_fold_ok:
  "bt_wf (fst st) \<Longrightarrow> snd (fold (origin_step c name kind) keys st) = [] \<Longrightarrow>
     snd st = [] \<and> keeps (fst st) (fst (fold (origin_step c name kind) keys st)) \<and>
     (\<forall>k \<in> set keys. \<exists>n. bt_get (fst (fold (origin_step c name kind) keys st)) k = Some (kind, n))"
proof (induction keys arbitrary: st)
  case Nil
  then show ?case by (simp add: keeps_refl)
next
  case (Cons key keys)
  let ?st = "origin_step c name kind key st"
  let ?fin = "fst (fold (origin_step c name kind) keys ?st)"
  have wf: "bt_wf (fst ?st)" using Cons.prems(1) by (rule origin_step_wf)
  have IH: "snd ?st = []" "keeps (fst ?st) ?fin"
    "\<forall>k \<in> set keys. \<exists>n. bt_get ?fin k = Some (kind, n)"
    using Cons.IH [OF wf] Cons.prems(2) by simp_all
  from origin_step_ok [OF Cons.prems(1) IH(1)] have st: "snd st = []" "keeps (fst st) (fst ?st)"
    and key: "\<exists>n. bt_get (fst ?st) key = Some (kind, n)" by simp_all
  have "\<exists>n. bt_get ?fin key = Some (kind, n)" using key IH(2) unfolding keeps_def by blast
  then show ?case using st IH keeps_trans by auto
qed

lemma layer_origins_ok:
  assumes "bt_wf (fst st)" "snd (layer_origins c ly st) = []"
  shows "snd st = []" "keeps (fst st) (fst (layer_origins c ly st))"
    "bt_contains (ly_pinned ly) k \<Longrightarrow> \<exists>n. bt_get (fst (layer_origins c ly st)) k = Some (OPinned, n)"
    "bt_contains (ly_from_claims ly) k \<Longrightarrow> \<exists>n. bt_get (fst (layer_origins c ly st)) k = Some (OClaim, n)"
    "bt_contains (ly_derived ly) k \<Longrightarrow> \<exists>n. bt_get (fst (layer_origins c ly st)) k = Some (ODerived, n)"
proof -
  let ?f = "\<lambda>kind keys. fold (origin_step c (ly_name ly) kind) keys"
  let ?s1 = "?f OPinned (bt_keys (ly_pinned ly)) st"
  let ?s2 = "?f OClaim (bt_keys (ly_from_claims ly)) ?s1"
  let ?s3 = "?f ODerived (bt_keys (ly_derived ly)) ?s2"
  have e3: "layer_origins c ly st = ?s3" by (simp add: layer_origins_def)
  have wf1: "bt_wf (fst ?s1)" by (rule origin_fold_wf) (rule assms(1))
  have wf2: "bt_wf (fst ?s2)" by (rule origin_fold_wf) (rule wf1)
  from origin_fold_ok [OF wf2, of c "ly_name ly" ODerived "bt_keys (ly_derived ly)"] assms(2) e3
  have 3: "snd ?s2 = []" "keeps (fst ?s2) (fst ?s3)"
    "\<forall>k \<in> set (bt_keys (ly_derived ly)). \<exists>n. bt_get (fst ?s3) k = Some (ODerived, n)" by simp_all
  from origin_fold_ok [OF wf1 3(1)]
  have 2: "snd ?s1 = []" "keeps (fst ?s1) (fst ?s2)"
    "\<forall>k \<in> set (bt_keys (ly_from_claims ly)). \<exists>n. bt_get (fst ?s2) k = Some (OClaim, n)" by simp_all
  from origin_fold_ok [OF assms(1) 2(1)]
  have 1: "snd st = []" "keeps (fst st) (fst ?s1)"
    "\<forall>k \<in> set (bt_keys (ly_pinned ly)). \<exists>n. bt_get (fst ?s1) k = Some (OPinned, n)" by simp_all
  have k13: "keeps (fst ?s1) (fst ?s3)" using 2(2) 3(2) by (rule keeps_trans)
  show "snd st = []" by (rule 1(1))
  show "keeps (fst st) (fst (layer_origins c ly st))"
    unfolding e3 using 1(2) k13 by (rule keeps_trans)
  show "\<exists>n. bt_get (fst (layer_origins c ly st)) k = Some (OPinned, n)"
    if "bt_contains (ly_pinned ly) k"
    using that 1(3) k13 unfolding e3 keeps_def fst_set_subset by blast
  show "\<exists>n. bt_get (fst (layer_origins c ly st)) k = Some (OClaim, n)"
    if "bt_contains (ly_from_claims ly) k"
    using that 2(3) 3(2) unfolding e3 keeps_def fst_set_subset by blast
  show "\<exists>n. bt_get (fst (layer_origins c ly st)) k = Some (ODerived, n)"
    if "bt_contains (ly_derived ly) k"
    using that 3(3) unfolding e3 fst_set_subset by blast
qed

text \<open>The origins a layer claims for a key.\<close>

definition claims_origin :: "'p layer \<Rightarrow> origin_kind \<Rightarrow> string \<Rightarrow> bool" where
  "claims_origin ly kind k = (case kind of
     OPinned \<Rightarrow> bt_contains (ly_pinned ly) k
   | OClaim \<Rightarrow> bt_contains (ly_from_claims ly) k
   | ODerived \<Rightarrow> bt_contains (ly_derived ly) k)"

lemma chain_origins_ok:
  "bt_wf (fst st) \<Longrightarrow> snd (fold (layer_origins c) chain st) = [] \<Longrightarrow>
     snd st = [] \<and> keeps (fst st) (fst (fold (layer_origins c) chain st)) \<and>
     (\<forall>ly \<in> set chain. \<forall>kind k. claims_origin ly kind k \<longrightarrow>
        (\<exists>n. bt_get (fst (fold (layer_origins c) chain st)) k = Some (kind, n)))"
proof (induction chain arbitrary: st)
  case Nil
  then show ?case by (simp add: keeps_refl)
next
  case (Cons ly chain)
  let ?st = "layer_origins c ly st"
  let ?fin = "fst (fold (layer_origins c) chain ?st)"
  have wf: "bt_wf (fst ?st)" using Cons.prems(1) by (rule layer_origins_wf)
  from Cons.IH [OF wf] Cons.prems(2) have IH: "snd ?st = []" "keeps (fst ?st) ?fin"
    "\<forall>ly \<in> set chain. \<forall>kind k. claims_origin ly kind k \<longrightarrow> (\<exists>n. bt_get ?fin k = Some (kind, n))"
    by simp_all
  note ly = layer_origins_ok [OF Cons.prems(1) IH(1)]
  have "\<exists>n. bt_get ?fin k = Some (kind, n)" if "claims_origin ly kind k" for kind k
  proof -
    have "\<exists>n. bt_get (fst ?st) k = Some (kind, n)"
      using that ly(3-5) by (cases kind) (simp_all add: claims_origin_def)
    then show ?thesis using IH(2) unfolding keeps_def by blast
  qed
  then show ?case using ly(1,2) IH keeps_trans by auto
qed

text \<open>A chain whose composition reports nothing gives every key at most one origin, over
  all its scopes.\<close>

lemma accepted_chain_origins:
  assumes "snd (compose base chain c) = []"
    and "ly1 \<in> set chain" "ly2 \<in> set chain" "claims_origin ly1 kind1 k" "claims_origin ly2 kind2 k"
  shows "kind1 = kind2"
proof -
  have "snd (fold (layer_origins c) chain ([], [])) = []"
    using assms(1) by (simp add: compose_def Let_def)
  then have *: "\<forall>ly \<in> set chain. \<forall>kind k. claims_origin ly kind k \<longrightarrow>
      (\<exists>n. bt_get (fst (fold (layer_origins c) chain ([], []))) k = Some (kind, n))"
    using chain_origins_ok [of "([], [])" c chain] by simp
  obtain n1 n2 where
    "bt_get (fst (fold (layer_origins c) chain ([], []))) k = Some (kind1, n1)"
    "bt_get (fst (fold (layer_origins c) chain ([], []))) k = Some (kind2, n2)"
    using * assms(2-) by metis
  then show ?thesis by simp
qed

definition origin_of :: "'p effective_policy \<Rightarrow> origin_kind \<Rightarrow> string \<Rightarrow> bool" where
  "origin_of p kind k = (case kind of
     OPinned \<Rightarrow> bt_contains (ep_pinned p) k
   | OClaim \<Rightarrow> bt_contains (ep_from_claims p) k
   | ODerived \<Rightarrow> bt_contains (ep_derived p) k)"

lemma compose_origin_of:
  assumes "\<forall>ly \<in> set chain. layer_wf ly"
  shows "origin_of (fst (compose base chain c)) kind k \<longleftrightarrow> (\<exists>ly \<in> set chain. claims_origin ly kind k)"
  using assms
  by (cases kind)
    (simp_all add: origin_of_def claims_origin_def compose_def Let_def contains_merge_maps layer_wf_def)

lemma accepted_policy_origins:
  assumes "\<forall>ly \<in> set chain. layer_wf ly" "snd (compose base chain c) = []"
    and "origin_of (fst (compose base chain c)) kind1 k" "origin_of (fst (compose base chain c)) kind2 k"
  shows "kind1 = kind2"
  using assms accepted_chain_origins by (metis compose_origin_of)

subsection \<open>Spend caps and labels\<close>

lemma cap_step_get:
  "bt_wf m \<Longrightarrow> bt_get (cap_step (key, cap) m) k =
     (if k = key then Some (case bt_get m k of Some parent \<Rightarrow> compose_child parent cap | None \<Rightarrow> cap)
      else bt_get m k)"
  by (auto simp: cap_step_def bt.get_insert)

lemma cap_step_wf: "bt_wf m \<Longrightarrow> bt_wf (cap_step kc m)"
  by (cases kc) (simp add: cap_step_def bt_wf_insert)

lemma cap_fold_get:
  "bt_wf m \<Longrightarrow> bt_wf caps \<Longrightarrow>
     bt_get (fold cap_step caps m) k = (case bt_get caps k of
        Some cap \<Rightarrow> Some (case bt_get m k of Some parent \<Rightarrow> compose_child parent cap | None \<Rightarrow> cap)
      | None \<Rightarrow> bt_get m k) \<and> bt_wf (fold cap_step caps m)"
proof (induction caps arbitrary: m)
  case Nil
  then show ?case by simp
next
  case (Cons kc caps)
  obtain key cap where kc: "kc = (key, cap)" by (cases kc)
  have gt: "bt_get caps key = None" and wf: "bt_wf caps"
    using Cons.prems(2) by (force simp: kc bt_wf_Cons bt_get_def map_of_eq_None_iff)+
  from Cons.IH [OF cap_step_wf [OF Cons.prems(1)] wf, of kc] gt show ?case
    by (auto simp: kc cap_step_get [OF Cons.prems(1)] split: option.splits)
qed

text \<open>The cap of a key is the caps of the scopes that set one, composed from the top.\<close>

lemma composed_caps:
  fixes chain :: "'p layer list"
  assumes "\<forall>ly \<in> set chain. bt_wf (ly_spend_caps ly)"
  shows "bt_get (fold (\<lambda>ly. fold cap_step (ly_spend_caps ly)) chain []) k =
      fold (\<lambda>cap acc. Some (case acc of Some parent \<Rightarrow> compose_child parent cap | None \<Rightarrow> cap))
        (List.map_filter (\<lambda>ly. bt_get (ly_spend_caps ly) k) chain) None \<and>
    bt_wf (fold (\<lambda>ly. fold cap_step (ly_spend_caps ly)) chain [])"
  using assms
proof (induction chain rule: rev_induct)
  case Nil
  then show ?case by (simp add: map_filter_simps)
next
  case (snoc ly chain)
  then have IH: "bt_get (fold (\<lambda>ly. fold cap_step (ly_spend_caps ly)) chain []) k =
      fold (\<lambda>cap acc. Some (case acc of Some parent \<Rightarrow> compose_child parent cap | None \<Rightarrow> cap))
        (List.map_filter (\<lambda>ly. bt_get (ly_spend_caps ly) k) chain) None"
    and wf: "bt_wf (fold (\<lambda>ly. fold cap_step (ly_spend_caps ly)) chain [])"
    and wl: "bt_wf (ly_spend_caps ly)" by simp_all
  have mf: "List.map_filter g (xs @ [x]) = List.map_filter g xs @ (case g x of Some y \<Rightarrow> [y] | None \<Rightarrow> [])"
    for g :: "'p layer \<Rightarrow> key_cap option" and xs x
    by (simp add: List.map_filter_def split: option.splits)
  show ?case using cap_fold_get [OF wf wl, of k] IH by (simp add: mf split: option.splits)
qed

text \<open>A composed policy labels every key once, with the value its deepest scope gives it.\<close>

lemma emit_labels_keys:
  "distinct (map el_key (emit_labels best em ls)) \<and>
   set (map el_key (emit_labels best em ls)) \<inter> em = {}"
  by (induction best em ls rule: emit_labels.induct) auto

lemma emit_labels_from:
  "l \<in> set (emit_labels best em ls) \<Longrightarrow>
     \<exists>d. (d, el_key l, el_value l) \<in> set ls \<and> bt_get best (el_key l) = Some d"
  by (induction best em ls rule: emit_labels.induct) (auto split: if_splits)

lemma emit_labels_complete:
  "(d, k, v) \<in> set ls \<Longrightarrow> bt_get best k = Some d \<Longrightarrow> k \<notin> em \<Longrightarrow>
     k \<in> set (map el_key (emit_labels best em ls))"
  by (induction best em ls rule: emit_labels.induct) auto

definition depth_step :: "nat \<times> string \<times> 'v \<Rightarrow> (string, nat) btree \<Rightarrow> (string, nat) btree" where
  "depth_step = (\<lambda>(depth, key, _) m. bt_insert key (max depth (bt_entry m key depth)) m)"

lemma depth_step_get:
  assumes "bt_wf m"
  shows "bt_wf (depth_step (d, key, v) m)"
    and "\<exists>d' \<ge> d. bt_get (depth_step (d, key, v) m) key = Some d'"
    and "bt_get m k = Some x \<Longrightarrow> \<exists>x' \<ge> x. bt_get (depth_step (d, key, v) m) k = Some x'"
    and "bt_get (depth_step (d, key, v) m) k = Some x \<Longrightarrow> bt_get m k = Some x \<or> (k = key \<and> x = d)"
  using assms
  by (auto simp: depth_step_def bt_wf_insert bt.get_insert bt_entry_def max_def
      split: option.splits if_splits)

lemma depth_fold_get:
  "bt_wf m \<Longrightarrow>
     (\<forall>d k v. (d, k, v) \<in> set ls \<longrightarrow> (\<exists>d' \<ge> d. bt_get (fold depth_step ls m) k = Some d')) \<and>
     (\<forall>k x. bt_get m k = Some x \<longrightarrow> (\<exists>x' \<ge> x. bt_get (fold depth_step ls m) k = Some x')) \<and>
     (\<forall>k x. bt_get (fold depth_step ls m) k = Some x \<longrightarrow>
        bt_get m k = Some x \<or> (\<exists>v. (x, k, v) \<in> set ls))"
proof (induction ls arbitrary: m)
  case Nil
  then show ?case by auto
next
  case (Cons l ls)
  obtain d key v where l: "l = (d, key, v)" by (cases l)
  let ?m = "depth_step l m" let ?r = "fold depth_step ls ?m"
  note step = depth_step_get [OF Cons.prems, where d = d and key = key and v = v, folded l]
  from Cons.IH [OF step(1)] have
    in_ls: "\<And>d k v. (d, k, v) \<in> set ls \<Longrightarrow> \<exists>d' \<ge> d. bt_get ?r k = Some d'" and
    kept: "\<And>k x. bt_get ?m k = Some x \<Longrightarrow> \<exists>x' \<ge> x. bt_get ?r k = Some x'" and
    origin: "\<And>k x. bt_get ?r k = Some x \<Longrightarrow> bt_get ?m k = Some x \<or> (\<exists>v. (x, k, v) \<in> set ls)"
    by blast+
  have "\<exists>d' \<ge> d. bt_get ?r key = Some d'"
    using step(2) kept by (meson order_trans)
  moreover have "\<exists>x' \<ge> x. bt_get ?r k = Some x'" if "bt_get m k = Some x" for k x
    using step(3) [OF that] kept by (meson order_trans)
  moreover have "bt_get m k = Some x \<or> (\<exists>v. (x, k, v) \<in> set (l # ls))" if "bt_get ?r k = Some x" for k x
    using origin [OF that] step(4) l by auto
  ultimately show ?case using in_ls l by auto
qed

lemma best_depths_max:
  assumes "(d, k, v) \<in> set ls"
  shows "\<exists>m w. bt_get (best_depths ls) k = Some m \<and> d \<le> m \<and> (m, k, w) \<in> set ls"
proof -
  have "best_depths ls = fold depth_step ls []" by (simp add: best_depths_def depth_step_def)
  then show ?thesis using depth_fold_get [of "[]" ls] assms by fastforce
qed

lemma composed_labels:
  assumes "labels = fold label_step (enumerate 0 chain) []"
  shows "distinct (map el_key (final_labels chain))"
    and "set (map el_key (final_labels chain)) = (\<lambda>(d, k, v). k) ` set labels"
    and "l \<in> set (final_labels chain) \<Longrightarrow> \<exists>d. (d, el_key l, el_value l) \<in> set labels \<and>
      (\<forall>(d', k', v') \<in> set labels. k' = el_key l \<longrightarrow> d' \<le> d)"
proof -
  have fl: "final_labels chain = emit_labels (best_depths labels) {} labels"
    by (simp add: final_labels_def assms Let_def)
  show "distinct (map el_key (final_labels chain))" using emit_labels_keys unfolding fl by blast
  have "k \<in> set (map el_key (final_labels chain))" if in_ls: "(d, k, v) \<in> set labels" for d k v
  proof -
    from best_depths_max [OF in_ls] obtain m w where
      "bt_get (best_depths labels) k = Some m" "(m, k, w) \<in> set labels" by blast
    then show ?thesis unfolding fl by (intro emit_labels_complete) auto
  qed
  moreover have "\<exists>d v. (d, k, v) \<in> set labels" if "k \<in> set (map el_key (final_labels chain))" for k
    using that emit_labels_from unfolding fl by fastforce
  ultimately show "set (map el_key (final_labels chain)) = (\<lambda>(d, k, v). k) ` set labels"
    by force
  show "\<exists>d. (d, el_key l, el_value l) \<in> set labels \<and>
      (\<forall>(d', k', v') \<in> set labels. k' = el_key l \<longrightarrow> d' \<le> d)" if "l \<in> set (final_labels chain)"
  proof -
    from emit_labels_from [OF that [unfolded fl]] obtain d where
      d: "(d, el_key l, el_value l) \<in> set labels" "bt_get (best_depths labels) (el_key l) = Some d" by blast
    then show ?thesis using best_depths_max by fastforce
  qed
qed

end
