(* ===== verification/Finalize.thy ===== *)
theory Finalize
  imports Scope
begin

text \<open>
  The rest of \<open>gateway-core/src/scope.rs\<close>: the checks over a composed policy and its
  provider, and \<open>finalize\<close>, which \<open>Config::from_yaml\<close> runs on the parsed file.  The reader
  \<open>serde_yaml::from_str\<close> is a parameter.  Lemmas: in an accepted configuration every route
  and app policy gives each key one origin, has a source for every required key, and lets
  session tags, role material and forced injection reference only keys the gateway
  establishes, or the key a closed allow-list gates.
\<close>

section \<open>Checks over a composed policy\<close>

definition RESERVED_ATTR_HEADERS :: "string list" where
  "RESERVED_ATTR_HEADERS =
     [''host'', ''authorization'', ''content-length'', ''transfer-encoding'', ''content-type'',
      ''api-key'', ''x-amz-date'', ''x-amz-security-token'', ''x-amz-content-sha256'']"

definition header_char :: "char \<Rightarrow> bool" where
  "header_char c \<longleftrightarrow> is_ascii_lower c \<or> is_ascii_digit c \<or> c = CHR ''-''"

fun attr_header_errs :: "ctx \<Rightarrow> (string, string) btree \<Rightarrow> (string \<times> string) list \<Rightarrow> cfg_error list" where
  "attr_header_errs c seen [] = []"
| "attr_header_errs c seen ((key, name) # rest) =
     report c (\<not> (name \<noteq> [] \<and> list_all header_char name))
       (Msg ''header {} for key {} must be non-empty [a-z0-9-]'' [name, key]) @
     report c (name \<in> set RESERVED_ATTR_HEADERS)
       (Msg ''header {} for key {} is owned by transport/signing/credentials'' [name, key]) @
     (case bt_get seen name of
        Some prev \<Rightarrow> [(c, Msg ''header {} is named for both {} and {}'' [name, prev, key])]
      | None \<Rightarrow> []) @
     attr_header_errs c (bt_insert name key seen) rest"

definition has_source :: "'p effective_policy \<Rightarrow> string \<Rightarrow> bool" where
  "has_source p key \<longleftrightarrow> established p key \<or> bt_contains (ep_headers p) key"

definition validate_attr_headers ::
  "ctx \<Rightarrow> 'p effective_policy \<Rightarrow> sts_config option \<Rightarrow> cfg_error list"
where
  "validate_attr_headers c policy sts =
     attr_header_errs c [] (ep_headers policy) @
     concat (map (\<lambda>key. report c (\<not> has_source policy key)
       (Msg ''required key {} has no source'' [key])) (ep_required_keys policy)) @
     (case Option.bind sts sc_allow of
        Some allow \<Rightarrow> report c (\<not> has_source policy (al_key allow))
          (Msg ''sts allow key {} has no source'' [al_key allow])
      | None \<Rightarrow> [])"

text \<open>The keys a template references; none when it is mis-specified or unreadable, which
  the provider's own validation reports.\<close>

definition template_keys :: "operator_value_spec \<Rightarrow> string list" where
  "template_keys spec = (case as_template spec of
     None \<Rightarrow> []
   | Some t \<Rightarrow> (case placeholders t of Inl _ \<Rightarrow> [] | Inr keys \<Rightarrow> keys))"

definition key_ref_errs ::
  "ctx \<Rightarrow> 'p effective_policy \<Rightarrow> string \<Rightarrow> string option \<Rightarrow> operator_value_spec \<Rightarrow> cfg_error list"
where
  "key_ref_errs c policy what allow_gated spec =
     concat (map (\<lambda>key.
       if key \<notin> key_universe policy then
         [(c, Msg ''{} references attribution key {}, which could never resolve'' [what, key])]
       else report c (\<not> established policy key \<and> allow_gated \<noteq> Some key)
         (Msg ''{} references attribution key {}, which is caller-asserted'' [what, key]))
     (template_keys spec))"

definition inject_ref_errs :: "ctx \<Rightarrow> 'p effective_policy \<Rightarrow> injection \<Rightarrow> cfg_error list" where
  "inject_ref_errs c policy inject =
     concat (map (\<lambda>h. key_ref_errs c policy (''inject header '' @ fh_name h) None (fh_value h))
       (ij_headers inject)) @
     concat (map (\<lambda>f. key_ref_errs c policy (''inject body '' @ bf_path f) None (bf_value f))
       (ij_body inject))"

definition label_ref_errs :: "ctx \<Rightarrow> 'p effective_policy \<Rightarrow> cfg_error list" where
  "label_ref_errs c policy = concat (map (\<lambda>l. case el_value l of
     FromAttribution key \<Rightarrow> report c (key \<notin> key_universe policy)
       (Msg ''label {} references attribution key {}, which could never resolve'' [el_key l, key])
   | _ \<Rightarrow> []) (ep_labels policy))"

definition sts_ref_errs :: "ctx \<Rightarrow> 'p effective_policy \<Rightarrow> sts_config \<Rightarrow> cfg_error list" where
  "sts_ref_errs c policy sts =
     concat (map (\<lambda>tag. case sg_from_attribution tag of
         Some key \<Rightarrow> report c (\<not> established policy key)
           (Msg ''sts tag {} references attribution key {}, which is not established''
              [sg_key tag, key])
       | None \<Rightarrow> []) (sc_tags sts)) @
     (case sc_allow sts of
        Some allow \<Rightarrow> report c (al_key allow \<notin> key_universe policy)
          (Msg ''sts allow.key {} could never resolve'' [al_key allow])
      | None \<Rightarrow> []) @
     key_ref_errs c policy ''sts role_arn'' (map_option al_key (sc_allow sts)) (sc_role_arn sts) @
     key_ref_errs c policy ''sts session_name'' (map_option al_key (sc_allow sts)) (sc_session_name sts)"

definition validate_effective_for_provider ::
  "ctx \<Rightarrow> 'p effective_policy \<Rightarrow> provider_kind \<Rightarrow> sts_config option \<Rightarrow> injection option \<Rightarrow>
   cfg_error list"
where
  "validate_effective_for_provider c policy kind sts inject =
     (case inject of Some i \<Rightarrow> inject_ref_errs c policy i | None \<Rightarrow> []) @
     (if kind = Vertex then label_ref_errs c policy else []) @
     (case sts of Some s \<Rightarrow> sts_ref_errs c policy s | None \<Rightarrow> [])"

section \<open>finalize\<close>

definition fleet_layers :: "('p, 'v) cel_lib \<Rightarrow> ('p, 'k) config \<Rightarrow> 'p layer list \<times> cfg_error list" where
  "fleet_layers L cfg = (case cf_fleet cfg of
     None \<Rightarrow> ([], [])
   | Some s \<Rightarrow> (let (ly, es) = compile_scope L [''fleet''] s in ([ly], es)))"

fun project_layers ::
  "('p, 'v) cel_lib \<Rightarrow> (string \<times> scope) list \<Rightarrow> (string, 'p layer) btree \<times> cfg_error list"
where
  "project_layers L [] = ([], [])"
| "project_layers L ((name, s) # rest) =
     (let (ly, es) = compile_scope L [''project'', name] s;
          (m, es') = project_layers L rest
      in (bt_insert name ly m, es @ es'))"

definition app_errs :: "string \<Rightarrow> string \<Rightarrow> scope \<Rightarrow> 'p layer \<Rightarrow> cfg_error list \<Rightarrow> cfg_error list" where
  "app_errs selector app_value s ly compile_errs =
     report [''apps.overrides''] (is_blank app_value) (Msg ''empty app value'' []) @
     compile_errs @
     report [''app'', app_value] (ly_headers ly \<noteq> []) (Msg ''attribution.headers is route-scope and above'' []) @
     concat (map (\<lambda>(map_name, has). report [''app'', app_value] has
         (Msg ''{} redefines the app selector key {}'' [map_name, selector]))
       [(''pinned'', bt_contains (at_pinned (so_attribution s)) selector),
        (''from_claims'', bt_contains (at_from_claims (so_attribution s)) selector),
        (''derived'', bt_contains (at_derived (so_attribution s)) selector)])"

fun app_layers ::
  "('p, 'v) cel_lib \<Rightarrow> string \<Rightarrow> (string \<times> scope) list \<Rightarrow> (string, 'p layer) btree \<times> cfg_error list"
where
  "app_layers L selector [] = ([], [])"
| "app_layers L selector ((app_value, s) # rest) =
     (let (ly, es) = compile_scope L [''app'', app_value] s;
          (m, es') = app_layers L selector rest
      in (bt_insert app_value ly m, app_errs selector app_value s ly es @ es'))"

definition apps_of :: "('p, 'v) cel_lib \<Rightarrow> ('p, 'k) config \<Rightarrow> (string, 'p layer) btree \<times> cfg_error list" where
  "apps_of L cfg = (case cf_apps cfg of
     None \<Rightarrow> ([], [])
   | Some a \<Rightarrow>
       (let (m, es) = app_layers L (ap_key a) (ap_overrides a)
        in (m, check_key (ap_key a) [''apps.key''] @ es)))"

fun compose_apps ::
  "rejections \<Rightarrow> 'p layer list \<Rightarrow> ctx \<Rightarrow> (string \<times> 'p layer) list \<Rightarrow>
   (string, 'p effective_policy) btree \<times> cfg_error list"
where
  "compose_apps base chain c [] = ([], [])"
| "compose_apps base chain c ((app_value, ly) # rest) =
     (let (p, es) = compose base (chain @ [ly]) (c @ [''app'', app_value]);
          (m, es') = compose_apps base chain c rest
      in (bt_insert app_value p m, es @ es'))"

definition policy_errs :: "('p, 'k) config \<Rightarrow> provider option \<Rightarrow> ctx \<Rightarrow> 'p effective_policy \<Rightarrow> cfg_error list" where
  "policy_errs cfg provider c policy =
     report c (ep_from_claims policy \<noteq> [] \<and> cf_auth cfg = None)
       (Msg ''from_claims requires auth.jwt to be configured'' []) @
     validate_attr_headers c policy (Option.bind provider pv_sts) @
     (case provider of
        Some p \<Rightarrow> validate_effective_for_provider c policy (pv_kind p) (pv_sts p) (pv_inject p)
      | None \<Rightarrow> [])"

definition project_of ::
  "('p, 'k) config \<Rightarrow> (string, 'p layer) btree \<Rightarrow> 'p route \<Rightarrow> ctx \<Rightarrow> 'p layer list \<times> cfg_error list"
where
  "project_of cfg projects route c = (case ru_project route of
     None \<Rightarrow> ([], [])
   | Some p \<Rightarrow> (case bt_get projects p of
       Some ly \<Rightarrow> ([ly], [])
     | None \<Rightarrow> ([], [(c, Msg ''unknown project {} (defined projects: {})''
         [p, join_with '', '' (bt_keys (cf_projects cfg))])])))"

definition condition_of ::
  "('p, 'v) cel_lib \<Rightarrow> 'p route \<Rightarrow> ctx \<Rightarrow> 'p compiled_expr option \<times> cfg_error list"
where
  "condition_of L route c = (case ru_condition route of
     None \<Rightarrow> (None, [])
   | Some src \<Rightarrow> (case compile_expr L src Condition of
       Inr e \<Rightarrow> (Some e, [])
     | Inl e \<Rightarrow> (None, [(c @ [''match''], ExprMsg e)])))"

definition finalize_route ::
  "('p, 'v) cel_lib \<Rightarrow> ('p, 'k) config \<Rightarrow> 'p layer list \<Rightarrow> (string, 'p layer) btree \<Rightarrow>
   (string, 'p layer) btree \<Rightarrow> string set \<Rightarrow> 'p route \<Rightarrow> 'p compiled_route \<times> cfg_error list"
where
  "finalize_route L cfg fleet projects apps seen route =
     (let c = [''route'', ru_prefix route];
          provider = bt_get (cf_providers cfg) (ru_provider route);
          (condition, ces) = condition_of L route c;
          (project, pes) = project_of cfg projects route c;
          (route_layer, res) = compile_route_layer L c route;
          chain = fleet @ project @ [route_layer];
          (effective, ees) = compose (cf_rejections cfg) chain c;
          (app_policies, aes) = compose_apps (cf_rejections cfg) chain c apps
      in (\<lparr>cr_condition = condition, cr_effective = effective, cr_apps = app_policies\<rparr>,
          report c (\<not> starts_with (ru_prefix route) ''/'') (Msg ''prefix must start with /'' []) @
          report c (ru_condition route = None \<and> trim_end_char CHR ''/'' (ru_prefix route) \<in> seen)
            (Msg ''duplicate prefix without a match condition'' []) @
          report c (provider = None) (Msg ''unknown provider {} (defined providers: {})''
            [ru_provider route, join_with '', '' (bt_keys (cf_providers cfg))]) @
          ces @ pes @ res @ ees @ aes @
          policy_errs cfg provider c effective @
          concat (map (\<lambda>(v, p). policy_errs cfg provider (c @ [''app'', v]) p) app_policies) @
          report c (ru_labels route \<noteq> [] \<and> (case provider of Some p \<Rightarrow> pv_kind p \<noteq> Vertex | None \<Rightarrow> False))
            (Msg ''labels require a vertex-kind provider ({} is {})''
              [ru_provider route, (case provider of Some p \<Rightarrow> provider_kind_name (pv_kind p) | None \<Rightarrow> ''?'')]) @
          (case cf_apps cfg of
             Some a \<Rightarrow> report c (apps \<noteq> [] \<and> ap_key a \<notin> key_universe effective)
               (Msg ''apps are keyed by {} but the chain never requires, pins, maps or derives it'' [ap_key a])
           | None \<Rightarrow> [])))"

fun finalize_routes ::
  "('p, 'v) cel_lib \<Rightarrow> ('p, 'k) config \<Rightarrow> 'p layer list \<Rightarrow> (string, 'p layer) btree \<Rightarrow>
   (string, 'p layer) btree \<Rightarrow> string set \<Rightarrow> 'p route list \<Rightarrow> 'p compiled_route list \<times> cfg_error list"
where
  "finalize_routes L cfg fleet projects apps seen [] = ([], [])"
| "finalize_routes L cfg fleet projects apps seen (route # routes) =
     (let (cr, es) = finalize_route L cfg fleet projects apps seen route;
          seen' = (if ru_condition route = None
                   then insert (trim_end_char CHR ''/'' (ru_prefix route)) seen else seen);
          (crs, es') = finalize_routes L cfg fleet projects apps seen' routes
      in (cr # crs, es @ es'))"

text \<open>The compiled key set; the \<open>expect\<close> on a document that was just validated is the
  \<open>None\<close> that cannot arise.\<close>

definition with_jwks :: "'k jwt_lib \<Rightarrow> 'k jwt_auth \<Rightarrow> 'k jwt_auth" where
  "with_jwks J auth = (case ja_jwks auth of
     None \<Rightarrow> auth
   | Some doc \<Rightarrow> auth\<lparr>ja_compiled_jwks := (case jwks_parse J doc of Inr k \<Rightarrow> Some k | Inl _ \<Rightarrow> None)\<rparr>)"

definition finalize_config ::
  "('p, 'v) cel_lib \<Rightarrow> 'k jwt_lib \<Rightarrow> ('p, 'k) config \<Rightarrow> cfg_error list + ('p, 'k) config"
where
  "finalize_config L J cfg =
     (let (fleet, fes) = fleet_layers L cfg;
          (projects, pes) = project_layers L (cf_projects cfg);
          (apps, aes) = apps_of L cfg;
          (compiled, res) = finalize_routes L cfg fleet projects apps {} (cf_routes cfg);
          errs = validate_providers (cf_providers cfg) @ validate_auth J (cf_auth cfg) @
            validate_telemetry (cf_telemetry cfg) @ validate_alerts (cf_alerts cfg) @
            validate_wasm (cf_wasm cfg) @ validate_rejections (cf_rejections cfg) [''rejections''] @
            fes @ pes @ aes @ res @
            report [''routes''] (cf_routes cfg = []) (Msg ''at least one route is required'' [])
      in if errs = [] then
           Inr (cfg\<lparr>cf_routes := map2 (\<lambda>r c. r\<lparr>ru_compiled := Some c\<rparr>) (cf_routes cfg) compiled,
                    cf_auth := map_option (with_jwks J) (cf_auth cfg)\<rparr>)
         else Inl errs)"

datatype config_error = ConfigParse string | ConfigInvalid "cfg_error list"

definition from_yaml ::
  "('p, 'v) cel_lib \<Rightarrow> 'k jwt_lib \<Rightarrow> (string \<Rightarrow> string + ('p, 'k) config) \<Rightarrow> string \<Rightarrow>
   config_error + ('p, 'k) config"
where
  "from_yaml L J from_str txt = (case from_str txt of
     Inl e \<Rightarrow> Inl (ConfigParse e)
   | Inr cfg \<Rightarrow> (case finalize_config L J cfg of
       Inl errs \<Rightarrow> Inl (ConfigInvalid errs)
     | Inr cfg' \<Rightarrow> Inr cfg'))"

section \<open>What an accepted configuration guarantees\<close>

definition attribution_wf :: "attribution \<Rightarrow> bool" where
  "attribution_wf a \<longleftrightarrow> bt_wf (at_pinned a) \<and> bt_wf (at_from_claims a) \<and> bt_wf (at_headers a) \<and>
     bt_wf (at_spend_caps a)"

text \<open>The maps of the file are maps.\<close>

definition config_wf :: "('p, 'k) config \<Rightarrow> bool" where
  "config_wf cfg \<longleftrightarrow>
     (\<forall>s \<in> set_option (cf_fleet cfg). attribution_wf (so_attribution s)) \<and>
     (\<forall>(n, s) \<in> set (cf_projects cfg). attribution_wf (so_attribution s)) \<and>
     (\<forall>a \<in> set_option (cf_apps cfg). \<forall>(v, s) \<in> set (ap_overrides a). attribution_wf (so_attribution s)) \<and>
     (\<forall>r \<in> set (cf_routes cfg). attribution_wf (ru_attribution r))"

lemma compile_derived_wf: "bt_wf (fst (compile_derived L c xs))"
  by (induction L c xs rule: compile_derived.induct)
    (auto simp: Let_def bt_wf_insert split: prod.splits sum.splits)

lemma compile_layer_wf: "attribution_wf attr \<Longrightarrow> layer_wf (fst (compile_layer L c attr labels rej))"
  using compile_derived_wf [of L c "at_derived attr"] bt_wf_map_values [of "\<lambda>k s. to_key_cap s"]
  by (auto simp: compile_layer_def layer_wf_def attribution_wf_def Let_def split: prod.splits)

lemma project_layers_wf:
  "\<forall>(n, s) \<in> set xs. attribution_wf (so_attribution s) \<Longrightarrow>
     \<forall>(n, ly) \<in> set (fst (project_layers L xs)). layer_wf ly"
proof (induction L xs rule: project_layers.induct)
  case (1 L)
  then show ?case by simp
next
  case (2 L name s rest)
  obtain ly es where ly: "compile_scope L [''project'', name] s = (ly, es)"
    by (cases "compile_scope L [''project'', name] s")
  have "layer_wf ly" using ly compile_layer_wf "2.prems" by (metis (no_types, lifting) compile_scope_def fst_conv list.set_intros(1) case_prod_conv)
  moreover have "\<forall>(n, ly) \<in> set (fst (project_layers L rest)). layer_wf ly"
    using "2.IH" [OF ly [symmetric] refl] "2.prems" by simp
  ultimately show ?case using set_bt_insert by (fastforce simp: ly Let_def split: prod.splits)
qed

lemma app_layers_wf:
  "\<forall>(n, s) \<in> set xs. attribution_wf (so_attribution s) \<Longrightarrow>
     \<forall>(n, ly) \<in> set (fst (app_layers L selector xs)). layer_wf ly"
proof (induction L selector xs rule: app_layers.induct)
  case (1 L selector)
  then show ?case by simp
next
  case (2 L selector app_value s rest)
  obtain ly es where ly: "compile_scope L [''app'', app_value] s = (ly, es)"
    by (cases "compile_scope L [''app'', app_value] s")
  have "layer_wf ly" using ly compile_layer_wf "2.prems" by (metis (no_types, lifting) compile_scope_def fst_conv list.set_intros(1) case_prod_conv)
  moreover have "\<forall>(n, ly) \<in> set (fst (app_layers L selector rest)). layer_wf ly"
    using "2.IH" [OF ly [symmetric] refl] "2.prems" by simp
  ultimately show ?case using set_bt_insert by (fastforce simp: ly Let_def split: prod.splits)
qed

text \<open>A policy the configuration was accepted with: composed without an error from a chain
  of layers, and found valid with the provider of its route.\<close>

definition accepted_policy :: "('p, 'k) config \<Rightarrow> provider option \<Rightarrow> 'p effective_policy \<Rightarrow> bool" where
  "accepted_policy cfg provider p \<longleftrightarrow>
     (\<exists>chain base c. (\<forall>ly \<in> set chain. layer_wf ly) \<and> compose base chain c = (p, [])) \<and>
     (\<exists>c. policy_errs cfg provider c p = [])"

lemma compose_apps_ok:
  "snd (compose_apps base chain c apps) = [] \<Longrightarrow> (v, p) \<in> set (fst (compose_apps base chain c apps)) \<Longrightarrow>
     \<exists>ly. (v, ly) \<in> set apps \<and> compose base (chain @ [ly]) (c @ [''app'', v]) = (p, [])"
proof (induction base chain c apps rule: compose_apps.induct)
  case (1 base chain c)
  then show ?case by simp
next
  case (2 base chain c w ly rest)
  obtain q es where q: "compose base (chain @ [ly]) (c @ [''app'', w]) = (q, es)"
    by (cases "compose base (chain @ [ly]) (c @ [''app'', w])")
  obtain m es' where m: "compose_apps base chain c rest = (m, es')"
    by (cases "compose_apps base chain c rest")
  from "2.prems"(1) have es: "es = []" "es' = []" by (simp_all add: q m)
  from "2.prems"(2) have "(v, p) \<in> set (bt_insert w q m)" by (simp add: q m)
  then have "(v, p) = (w, q) \<or> (v, p) \<in> set m" using subsetD [OF set_bt_insert] by fastforce
  then show ?case
  proof
    assume "(v, p) = (w, q)"
    then show ?thesis using q es by auto
  next
    assume "(v, p) \<in> set m"
    then show ?thesis using "2.IH" [OF q [symmetric] refl] by (auto simp: m es)
  qed
qed

lemma finalize_route_ok:
  assumes ok: "finalize_route L cfg fleet projects apps seen route = (cr, [])"
    and wf: "\<forall>ly \<in> set fleet. layer_wf ly" "\<forall>(n, ly) \<in> set projects. layer_wf ly"
      "\<forall>(v, ly) \<in> set apps. layer_wf ly" "attribution_wf (ru_attribution route)"
    and p: "p = cr_effective cr \<or> p \<in> snd ` set (cr_apps cr)"
  shows "accepted_policy cfg (bt_get (cf_providers cfg) (ru_provider route)) p"
proof -
  let ?c = "[''route'', ru_prefix route]"
  let ?prov = "bt_get (cf_providers cfg) (ru_provider route)"
  obtain condition ces where 1: "condition_of L route ?c = (condition, ces)"
    by (cases "condition_of L route ?c")
  obtain project pes where 2: "project_of cfg projects route ?c = (project, pes)"
    by (cases "project_of cfg projects route ?c")
  obtain route_layer res where 3: "compile_route_layer L ?c route = (route_layer, res)"
    by (cases "compile_route_layer L ?c route")
  let ?chain = "fleet @ project @ [route_layer]"
  obtain effective ees where 4: "compose (cf_rejections cfg) ?chain ?c = (effective, ees)"
    by (cases "compose (cf_rejections cfg) ?chain ?c")
  obtain app_policies aes where 5: "compose_apps (cf_rejections cfg) ?chain ?c apps = (app_policies, aes)"
    by (cases "compose_apps (cf_rejections cfg) ?chain ?c apps")
  have cr: "cr_effective cr = effective" "cr_apps cr = app_policies"
    using ok by (auto simp: finalize_route_def Let_def 1 2 3 4 5)
  have errs: "ees = []" "aes = []" "policy_errs cfg ?prov ?c effective = []"
    "concat (map (\<lambda>(v, p). policy_errs cfg ?prov (?c @ [''app'', v]) p) app_policies) = []"
    using ok by (auto simp: finalize_route_def Let_def 1 2 3 4 5)
  have "layer_wf route_layer" using 3 compile_layer_wf [OF wf(4)] by (metis compile_route_layer_def fst_conv)
  moreover have "\<forall>ly \<in> set project. layer_wf ly"
    using 2 wf(2) by (auto simp: project_of_def split: option.splits dest!: bt_get_in_set)
  ultimately have chain: "\<forall>ly \<in> set ?chain. layer_wf ly" using wf(1) by auto
  from p show ?thesis
  proof
    assume "p = cr_effective cr"
    then show ?thesis using chain 4 errs unfolding accepted_policy_def cr by blast
  next
    assume "p \<in> snd ` set (cr_apps cr)"
    then obtain v where v: "(v, p) \<in> set app_policies" unfolding cr by auto
    from compose_apps_ok [of "cf_rejections cfg" ?chain ?c apps v p] v obtain ly where
      ly: "(v, ly) \<in> set apps" "compose (cf_rejections cfg) (?chain @ [ly]) (?c @ [''app'', v]) = (p, [])"
      by (auto simp: 5 errs)
    have "\<forall>ly \<in> set (?chain @ [ly]). layer_wf ly" using chain ly(1) wf(3) by auto
    moreover have "policy_errs cfg ?prov (?c @ [''app'', v]) p = []" using errs(4) v by auto
    ultimately show ?thesis using ly(2) unfolding accepted_policy_def by blast
  qed
qed

lemma finalize_routes_ok:
  "finalize_routes L cfg fleet projects apps seen routes = (crs, []) \<Longrightarrow>
     length crs = length routes \<and>
     (\<forall>i < length routes. \<exists>seen'. finalize_route L cfg fleet projects apps seen' (routes ! i) = (crs ! i, []))"
proof (induction routes arbitrary: seen crs)
  case Nil
  then show ?case by simp
next
  case (Cons r routes)
  obtain cr es where cr: "finalize_route L cfg fleet projects apps seen r = (cr, es)"
    by (cases "finalize_route L cfg fleet projects apps seen r")
  let ?seen = "if ru_condition r = None then insert (trim_end_char CHR ''/'' (ru_prefix r)) seen else seen"
  obtain crs' es' where crs': "finalize_routes L cfg fleet projects apps ?seen routes = (crs', es')"
    by (cases "finalize_routes L cfg fleet projects apps ?seen routes")
  from Cons.prems have es: "es = []" "es' = []" "crs = cr # crs'" by (auto simp: cr crs' Let_def)
  from Cons.IH [of ?seen crs'] crs' es show ?case
    using cr by (auto simp: nth_Cons less_Suc_eq_0_disj split: nat.splits)
qed

lemma finalize_accepts:
  assumes fin: "finalize_config L J cfg = Inr cfg'" and wf: "config_wf cfg"
    and r: "r \<in> set (cf_routes cfg')"
  obtains cr where "ru_compiled r = Some cr"
    "\<forall>p \<in> insert (cr_effective cr) (snd ` set (cr_apps cr)).
       accepted_policy cfg (bt_get (cf_providers cfg') (ru_provider r)) p"
proof -
  obtain fleet fes where 1: "fleet_layers L cfg = (fleet, fes)" by (cases "fleet_layers L cfg")
  obtain projects pes where 2: "project_layers L (cf_projects cfg) = (projects, pes)"
    by (cases "project_layers L (cf_projects cfg)")
  obtain apps aes where 3: "apps_of L cfg = (apps, aes)" by (cases "apps_of L cfg")
  obtain crs res where 4: "finalize_routes L cfg fleet projects apps {} (cf_routes cfg) = (crs, res)"
    by (cases "finalize_routes L cfg fleet projects apps {} (cf_routes cfg)")
  have res: "res = []" and cfg': "cf_providers cfg' = cf_providers cfg"
    "cf_routes cfg' = map2 (\<lambda>r c. r\<lparr>ru_compiled := Some c\<rparr>) (cf_routes cfg) crs"
    using fin by (auto simp: finalize_config_def Let_def 1 2 3 4 split: if_splits)
  from finalize_routes_ok 4 res have len: "length crs = length (cf_routes cfg)"
    and each: "\<forall>i < length crs. \<exists>seen. finalize_route L cfg fleet projects apps seen (cf_routes cfg ! i) = (crs ! i, [])"
    by fastforce+
  from r obtain i where i: "i < length crs"
    "r = (cf_routes cfg ! i)\<lparr>ru_compiled := Some (crs ! i)\<rparr>"
    unfolding cfg' using len by (auto simp: in_set_conv_nth)
  from each i obtain seen where
    route: "finalize_route L cfg fleet projects apps seen (cf_routes cfg ! i) = (crs ! i, [])" by blast
  have wf_fleet: "\<forall>ly \<in> set fleet. layer_wf ly"
  proof (cases "cf_fleet cfg")
    case None
    then show ?thesis using 1 by (simp add: fleet_layers_def)
  next
    case (Some s)
    then have "fleet = [fst (compile_scope L [''fleet''] s)]"
      using 1 by (auto simp: fleet_layers_def Let_def split: prod.splits)
    then show ?thesis using wf Some by (simp add: config_wf_def compile_scope_def compile_layer_wf)
  qed
  have wf_projects: "\<forall>(n, ly) \<in> set projects. layer_wf ly"
    using project_layers_wf [of "cf_projects cfg" L] wf 2 by (simp add: config_wf_def)
  have wf_apps: "\<forall>(v, ly) \<in> set apps. layer_wf ly"
  proof (cases "cf_apps cfg")
    case None
    then show ?thesis using 3 by (simp add: apps_of_def)
  next
    case (Some a)
    then show ?thesis using 3 wf app_layers_wf [of "ap_overrides a" L "ap_key a"]
      by (auto simp: apps_of_def config_wf_def split: prod.splits)
  qed
  have wf_route: "attribution_wf (ru_attribution (cf_routes cfg ! i))"
    using wf i(1) len by (simp add: config_wf_def)
  show thesis
  proof (rule that [of "crs ! i"])
    show "ru_compiled r = Some (crs ! i)" by (simp add: i(2))
    show "\<forall>p \<in> insert (cr_effective (crs ! i)) (snd ` set (cr_apps (crs ! i))).
        accepted_policy cfg (bt_get (cf_providers cfg') (ru_provider r)) p"
      using finalize_route_ok [OF route wf_fleet wf_projects wf_apps wf_route] by (auto simp: i(2) cfg')
  qed
qed

subsection \<open>One origin, a source, and no caller-asserted key where it matters\<close>

lemma accepted_origins:
  "accepted_policy cfg prov p \<Longrightarrow> origin_of p kind1 k \<Longrightarrow> origin_of p kind2 k \<Longrightarrow> kind1 = kind2"
  unfolding accepted_policy_def using accepted_policy_origins by (metis fst_conv snd_conv)

lemma accepted_required:
  "accepted_policy cfg prov p \<Longrightarrow> k \<in> set (ep_required_keys p) \<Longrightarrow> has_source p k"
  by (auto simp: accepted_policy_def policy_errs_def validate_attr_headers_def)

lemma key_ref_errs_ok:
  "key_ref_errs c p what gate spec = [] \<Longrightarrow> k \<in> set (template_keys spec) \<Longrightarrow>
     established p k \<or> gate = Some k"
proof -
  assume none: "key_ref_errs c p what gate spec = []" and k: "k \<in> set (template_keys spec)"
  have "(if k \<notin> key_universe p then
         [(c, Msg ''{} references attribution key {}, which could never resolve'' [what, k])]
       else report c (\<not> established p k \<and> gate \<noteq> Some k)
         (Msg ''{} references attribution key {}, which is caller-asserted'' [what, k])) = []"
    using none k unfolding key_ref_errs_def concat_eq_Nil_conv by simp
  then show ?thesis by (cases "k \<in> key_universe p") simp_all
qed

lemma accepted_sts:
  assumes "accepted_policy cfg (Some pv) p" "pv_sts pv = Some sts"
  shows "tag \<in> set (sc_tags sts) \<Longrightarrow> sg_from_attribution tag = Some k \<Longrightarrow> established p k"
    and "k \<in> set (template_keys (sc_role_arn sts)) \<union> set (template_keys (sc_session_name sts)) \<Longrightarrow>
      established p k \<or> map_option al_key (sc_allow sts) = Some k"
proof -
  from assms obtain c where errs: "sts_ref_errs c p sts = []"
    by (auto simp: accepted_policy_def policy_errs_def validate_effective_for_provider_def)
  show "established p k" if "tag \<in> set (sc_tags sts)" "sg_from_attribution tag = Some k"
  proof -
    have "(case sg_from_attribution tag of
         Some key \<Rightarrow> report c (\<not> established p key)
           (Msg ''sts tag {} references attribution key {}, which is not established''
              [sg_key tag, key])
       | None \<Rightarrow> []) = []"
      using errs that(1) unfolding sts_ref_errs_def append_is_Nil_conv concat_eq_Nil_conv by auto
    then show ?thesis using that(2) by simp
  qed
  show "established p k \<or> map_option al_key (sc_allow sts) = Some k"
    if "k \<in> set (template_keys (sc_role_arn sts)) \<union> set (template_keys (sc_session_name sts))"
  proof -
    have "key_ref_errs c p ''sts role_arn'' (map_option al_key (sc_allow sts)) (sc_role_arn sts) = []"
      "key_ref_errs c p ''sts session_name'' (map_option al_key (sc_allow sts)) (sc_session_name sts) = []"
      using errs unfolding sts_ref_errs_def append_is_Nil_conv by blast+
    then show ?thesis using that key_ref_errs_ok by blast
  qed
qed

lemma accepted_inject:
  assumes "accepted_policy cfg (Some pv) p" "pv_inject pv = Some ij"
    and "spec \<in> fh_value ` set (ij_headers ij) \<union> bf_value ` set (ij_body ij)"
    and "k \<in> set (template_keys spec)"
  shows "established p k"
proof -
  from assms obtain c where errs: "inject_ref_errs c p ij = []"
    by (auto simp: accepted_policy_def policy_errs_def validate_effective_for_provider_def)
  then have "\<exists>what. key_ref_errs c p what None spec = []"
    using assms(3) by (auto simp: inject_ref_errs_def)
  then show ?thesis using key_ref_errs_ok assms(4) by fastforce
qed

end
