(* ===== verification/Attribution.thy ===== *)
theory Attribution
  imports Config
begin

text \<open>
  \<open>gateway-core/src/attribution.rs\<close>: the resolution of attribution tags under a composed
  policy.  Every tag carries its origin.  The caller's values and the results of the derived
  expressions are functions, as in the code.  Lemmas: what is resolved for a key on every
  branch, and that a key the gateway establishes takes nothing from the caller.
\<close>

datatype origin = Assigned | Proven | Derived | Caller

definition tag_origin_label :: "origin \<Rightarrow> string" where
  "tag_origin_label o' = (case o' of
     Assigned \<Rightarrow> ''assigned'' | Proven \<Rightarrow> ''proven'' | Derived \<Rightarrow> ''derived'' | Caller \<Rightarrow> ''caller'')"

record tag =
  tg_key :: string
  tg_value :: string
  tg_origin :: origin

record resolution =
  rs_tags :: "tag list"
  rs_missing :: "string list"

definition rs_ok :: "resolution \<Rightarrow> bool" where
  "rs_ok r \<longleftrightarrow> rs_missing r = []"

definition find_tag :: "tag list \<Rightarrow> string \<Rightarrow> tag option" where
  "find_tag tags key = find (\<lambda>t. tg_key t = key) tags"

definition rs_value :: "resolution \<Rightarrow> string \<Rightarrow> string option" where
  "rs_value r key = map_option tg_value (find_tag (rs_tags r) key)"

definition claim_string :: "json_lib \<Rightarrow> json \<Rightarrow> string option" where
  "claim_string J v = (case v of
     JString s \<Rightarrow> Some s
   | JNumber n \<Rightarrow> Some (number_to_string J n)
   | JBool b \<Rightarrow> Some (if b then ''true'' else ''false'')
   | _ \<Rightarrow> None)"

definition non_empty :: "string option \<Rightarrow> string option" where
  "non_empty v = (case v of Some s \<Rightarrow> if s = [] then None else Some s | None \<Rightarrow> None)"

text \<open>The value and origin of one key, if it resolves.\<close>

definition resolve_key ::
  "json_lib \<Rightarrow> 'p effective_policy \<Rightarrow> (string \<Rightarrow> string option) \<Rightarrow> claims option \<Rightarrow>
   (string \<Rightarrow> string option) \<Rightarrow> string \<Rightarrow> (string \<times> origin) option"
where
  "resolve_key J policy caller_value claims derived_value key =
     (case bt_get (ep_pinned policy) key of
        Some v \<Rightarrow> Some (v, Assigned)
      | None \<Rightarrow>
          (case bt_get (ep_from_claims policy) key of
             Some claim \<Rightarrow>
               map_option (\<lambda>v. (v, Proven))
                 (Option.bind (Option.bind claims (\<lambda>c. bt_get c claim)) (claim_string J))
           | None \<Rightarrow>
               if bt_contains (ep_derived policy) key
               then map_option (\<lambda>v. (v, Derived)) (non_empty (derived_value key))
               else map_option (\<lambda>v. (v, Caller)) (non_empty (caller_value key))))"

definition policy_keys :: "'p effective_policy \<Rightarrow> string list" where
  "policy_keys policy = remdups_adj (sort
     (ep_required_keys policy @ bt_keys (ep_pinned policy) @ bt_keys (ep_from_claims policy) @
      bt_keys (ep_derived policy)))"

definition resolve ::
  "json_lib \<Rightarrow> 'p effective_policy \<Rightarrow> (string \<Rightarrow> string option) \<Rightarrow> claims option \<Rightarrow>
   (string \<Rightarrow> string option) \<Rightarrow> resolution"
where
  "resolve J policy caller_value claims derived_value =
     (let res = resolve_key J policy caller_value claims derived_value;
          keys = policy_keys policy
      in \<lparr>rs_tags = List.map_filter
            (\<lambda>key. map_option (\<lambda>(v, o'). \<lparr>tg_key = key, tg_value = v, tg_origin = o'\<rparr>) (res key)) keys,
          rs_missing = filter (\<lambda>key. res key = None \<and> key \<in> set (ep_required_keys policy)) keys\<rparr>)"

section \<open>What resolution guarantees\<close>

lemma set_policy_keys: "set (policy_keys p) = key_universe p"
  by (auto simp: policy_keys_def key_universe_def)

lemma distinct_remdups_adj: "sorted (xs :: string list) \<Longrightarrow> distinct (remdups_adj xs)"
proof (induction xs rule: remdups_adj.induct)
  case (3 x y xs)
  then show ?case
    by (cases "x = y") (auto simp del: remdups_adj_Cons)
qed simp_all

lemma distinct_policy_keys: "distinct (policy_keys p)" and sorted_policy_keys: "sorted (policy_keys p)"
  by (simp_all add: policy_keys_def sorted_remdups_adj distinct_remdups_adj)

lemma in_map_filter: "y \<in> set (List.map_filter f xs) \<longleftrightarrow> (\<exists>x \<in> set xs. f x = Some y)"
  by (force simp: List.map_filter_def)

lemma in_tags: "t \<in> set (rs_tags (resolve J p caller claims derived)) \<longleftrightarrow>
    tg_key t \<in> key_universe p \<and>
    resolve_key J p caller claims derived (tg_key t) = Some (tg_value t, tg_origin t)"
  by (cases t) (auto simp: resolve_def Let_def in_map_filter set_policy_keys)

lemma in_missing: "k \<in> set (rs_missing (resolve J p caller claims derived)) \<longleftrightarrow>
    k \<in> set (ep_required_keys p) \<and> resolve_key J p caller claims derived k = None"
  by (auto simp: resolve_def Let_def set_policy_keys key_universe_def)

lemma tag_keys: "map tg_key (rs_tags (resolve J p caller claims derived)) =
    filter (\<lambda>k. resolve_key J p caller claims derived k \<noteq> None) (policy_keys p)"
proof -
  have "map tg_key (List.map_filter (\<lambda>key. map_option
      (\<lambda>(v, o'). \<lparr>tg_key = key, tg_value = v, tg_origin = o'\<rparr>) (f key)) ks) =
    filter (\<lambda>k. f k \<noteq> None) ks" for f :: "string \<Rightarrow> (string \<times> origin) option" and ks
    by (induction ks) (auto simp: map_filter_simps split: option.split)
  then show ?thesis by (simp only: resolve_def Let_def resolution.simps)
qed

lemma distinct_tag_keys: "distinct (map tg_key (rs_tags (resolve J p caller claims derived)))"
  by (simp add: tag_keys distinct_policy_keys)

lemma find_tag_Some: "find_tag tags k = Some t \<Longrightarrow> t \<in> set tags \<and> tg_key t = k"
  by (auto simp: find_tag_def find_Some_iff)

text \<open>The gateway's own value: never the caller's.\<close>

lemma resolve_key_established:
  "established p k \<Longrightarrow> resolve_key J p caller claims derived k = Some (v, o') \<Longrightarrow> o' \<noteq> Caller"
  by (auto simp: established_def resolve_key_def bt_contains_def split: option.splits if_splits)

lemma resolve_key_ignores_caller:
  "established p k \<Longrightarrow> resolve_key J p caller claims derived k = resolve_key J p caller' claims derived k"
  by (auto simp: established_def resolve_key_def bt_contains_def split: option.splits)

lemma resolve_key_caller:
  "resolve_key J p caller claims derived k = Some (v, Caller) \<longleftrightarrow>
     \<not> established p k \<and> caller k = Some v \<and> v \<noteq> []"
  by (auto simp: established_def resolve_key_def bt_contains_def non_empty_def split: option.splits)

lemma established_tag_origin:
  "find_tag (rs_tags (resolve J p caller claims derived)) k = Some t \<Longrightarrow> established p k \<Longrightarrow>
     tg_origin t \<noteq> Caller"
  by (drule find_tag_Some) (auto simp: in_tags dest: resolve_key_established)

end
