(* ===== verification/Labels.thy ===== *)
theory Labels
  imports Validate
begin

text \<open>
  \<open>gateway-core/src/labels.rs\<close>: the billing labels of a request, their merge into the body
  and the operator's forced body fields.  The body is read and printed by the JSON library,
  a parameter; what the code does in between is \<open>merge_labels\<close> and \<open>inject_fields\<close> on JSON
  values.  Lemmas: the operator's labels and fields are in the body that is sent, and
  everything they do not name is as the client sent it.
\<close>

record label_error =
  le_key :: string
  le_reason :: "problem + eval_error"

text \<open>The reason of an unresolved attribution key.\<close>

definition unresolved_key :: "string \<Rightarrow> problem" where
  "unresolved_key key = Msg ''attribution key {} did not resolve on this request'' [key]"

definition label_raw ::
  "('p, 'v) cel_lib \<Rightarrow> 'p effective_label \<Rightarrow> (string, string) btree \<Rightarrow> eval_ctx \<Rightarrow> label_error + string"
where
  "label_raw L label attribution ctx = (case el_value label of
     Static v \<Rightarrow> Inr v
   | FromAttribution key \<Rightarrow> (case bt_get attribution key of
       Some v \<Rightarrow> Inr v
     | None \<Rightarrow> Inl \<lparr>le_key = el_key label, le_reason = Inl (unresolved_key key)\<rparr>)
   | LExpr e \<Rightarrow> (case eval_string L e ctx of
       Inr v \<Rightarrow> Inr v
     | Inl err \<Rightarrow> Inl \<lparr>le_key = el_key label, le_reason = Inr err\<rparr>))"

fun resolve_labels ::
  "('p, 'v) cel_lib \<Rightarrow> 'p effective_label list \<Rightarrow> (string, string) btree \<Rightarrow> eval_ctx \<Rightarrow>
   label_error + (string \<times> string) list"
where
  "resolve_labels L [] attribution ctx = Inr []"
| "resolve_labels L (label # labels) attribution ctx = (case label_raw L label attribution ctx of
     Inl e \<Rightarrow> Inl e
   | Inr v \<Rightarrow> (case validate_label_value v of
       Some e \<Rightarrow> Inl \<lparr>le_key = el_key label, le_reason = Inl e\<rparr>
     | None \<Rightarrow> (case resolve_labels L labels attribution ctx of
         Inl e \<Rightarrow> Inl e
       | Inr out \<Rightarrow> Inr ((el_key label, v) # out))))"

datatype body_error = NotJson string | NotAnObject

definition merge_labels :: "(string \<times> string) list \<Rightarrow> (string, json) btree \<Rightarrow> json" where
  "merge_labels operator obj =
     (let current = (case bt_get obj ''labels'' of Some v \<Rightarrow> v | None \<Rightarrow> JObject []);
          merged = (case as_object current of
            Some m \<Rightarrow> fold (\<lambda>(k, v). bt_insert k (JString v)) operator m
          | None \<Rightarrow> bt_of_list (map (\<lambda>(k, v). (k, JString v)) operator))
      in JObject (bt_insert ''labels'' (JObject merged) obj))"

definition merge_into_body :: "json_lib \<Rightarrow> string \<Rightarrow> (string \<times> string) list \<Rightarrow> body_error + string" where
  "merge_into_body J body operator =
     (if operator = [] then Inr body
      else (case jl_parse J body of
              Inl e \<Rightarrow> Inl (NotJson e)
            | Inr doc \<Rightarrow> (case as_object doc of
                None \<Rightarrow> Inl NotAnObject
              | Some obj \<Rightarrow> Inr (jl_print J (merge_labels operator obj)))))"

record resolved_body_field =
  rb_path :: string
  rb_value :: string
  rb_if_absent :: bool

definition object_or_new :: "json option \<Rightarrow> (string, json) btree" where
  "object_or_new v = (case Option.bind v as_object of Some m \<Rightarrow> m | None \<Rightarrow> [])"

text \<open>The walk down the parents of the last segment and the insertion; \<open>split\<close> yields at
  least one segment, the empty list does not arise.\<close>

fun inject_path :: "string list \<Rightarrow> string \<Rightarrow> bool \<Rightarrow> (string, json) btree \<Rightarrow> (string, json) btree" where
  "inject_path [] v if_absent obj = obj"
| "inject_path [seg] v if_absent obj =
     (if if_absent \<and> bt_contains obj seg then obj else bt_insert seg (JString v) obj)"
| "inject_path (seg # s # segs) v if_absent obj =
     bt_insert seg (JObject (inject_path (s # segs) v if_absent (object_or_new (bt_get obj seg)))) obj"

definition inject_field :: "resolved_body_field \<Rightarrow> (string, json) btree \<Rightarrow> (string, json) btree" where
  "inject_field f obj = inject_path (split_char CHR ''.'' (rb_path f)) (rb_value f) (rb_if_absent f) obj"

definition inject_fields :: "resolved_body_field list \<Rightarrow> (string, json) btree \<Rightarrow> json" where
  "inject_fields forced obj = JObject (fold inject_field forced obj)"

definition inject_into_body :: "json_lib \<Rightarrow> string \<Rightarrow> resolved_body_field list \<Rightarrow> body_error + string" where
  "inject_into_body J body forced =
     (if forced = [] then Inr body
      else (case jl_parse J body of
              Inl e \<Rightarrow> Inl (NotJson e)
            | Inr doc \<Rightarrow> (case as_object doc of
                None \<Rightarrow> Inl NotAnObject
              | Some obj \<Rightarrow> Inr (jl_print J (inject_fields forced obj)))))"

section \<open>What is sent\<close>

text \<open>Resolved labels keep the composed order and meet Google's rules.\<close>

lemma resolve_labels_ok:
  "resolve_labels L labels attribution ctx = Inr out \<Longrightarrow>
     map fst out = map el_key labels \<and>
     (\<forall>(k, v) \<in> set out. char_count v \<le> 63 \<and> list_all key_char v)"
proof (induction L labels attribution ctx arbitrary: out rule: resolve_labels.induct)
  case (1 L attribution ctx)
  then show ?case by simp
next
  case (2 L label labels attribution ctx)
  from "2.prems" obtain v rest where v: "label_raw L label attribution ctx = Inr v"
    "validate_label_value v = None" "resolve_labels L labels attribution ctx = Inr rest"
    "out = (el_key label, v) # rest"
    by (auto split: sum.splits option.splits)
  then show ?case using "2.IH" [OF v(1) v(2) v(3)] validate_label_value_ok [OF v(2)] by simp
qed

text \<open>The labels of the merged body: the operator's last value for a key, else the
  client's.\<close>

definition client_labels :: "(string, json) btree \<Rightarrow> (string, json) btree" where
  "client_labels obj = object_or_new (bt_get obj ''labels'')"

lemma merge_labels_alt: "merge_labels operator obj =
    JObject (bt_insert ''labels'' (JObject (fold (\<lambda>(k, v). bt_insert k (JString v)) operator (client_labels obj))) obj)"
proof -
  have *: "bt_of_list (map (\<lambda>(k, v). (k, JString v)) operator) =
      fold (\<lambda>(k, v). bt_insert k (JString v)) operator []"
    by (simp add: bt_of_list_def fold_map comp_def case_prod_unfold)
  show ?thesis
    by (auto simp: merge_labels_def client_labels_def object_or_new_def * as_object_def
        split: option.splits json.splits)
qed

lemma get_merged:
  assumes "bt_wf m"
  shows "bt_get (fold (\<lambda>(k, v). bt_insert k (JString v)) operator m) k =
    (case map_of (rev operator) k of Some v \<Rightarrow> Some (JString v) | None \<Rightarrow> bt_get m k)"
proof -
  have 1: "fold (\<lambda>(k, v). bt_insert k (JString v)) operator m =
      fold (\<lambda>(k, v). bt_insert k v) (map (\<lambda>(k, v). (k, JString v)) operator) m"
    by (simp add: fold_map comp_def case_prod_unfold)
  have 2: "map_of (rev (map (\<lambda>(k, v). (k, JString v)) operator)) k = map_option JString (map_of (rev operator) k)"
    unfolding rev_map map_of_map by simp
  show ?thesis unfolding 1 bt.get_fold_insert [OF assms] 2 by (simp split: option.split)
qed

lemma merge_labels_spec:
  assumes "bt_wf obj" "bt_wf (client_labels obj)"
  shows "j_field (j_field (merge_labels operator obj) ''labels'') k =
      (case map_of (rev operator) k of
         Some v \<Rightarrow> JString v
       | None \<Rightarrow> (case bt_get (client_labels obj) k of Some v \<Rightarrow> v | None \<Rightarrow> JNull))"
    and "f \<noteq> ''labels'' \<Longrightarrow> j_field (merge_labels operator obj) f = j_field (JObject obj) f"
  by (simp_all add: merge_labels_alt j_field_def bt.get_insert [OF assms(1)] get_merged [OF assms(2)]
      split: option.split)

text \<open>Reading a dotted path.\<close>

fun path_get :: "string list \<Rightarrow> json \<Rightarrow> json option" where
  "path_get [] v = Some v"
| "path_get (seg # segs) v = (case as_object v of
     Some m \<Rightarrow> Option.bind (bt_get m seg) (path_get segs)
   | None \<Rightarrow> None)"

fun json_wf :: "json \<Rightarrow> bool" where
  "json_wf (JObject m) = (bt_wf m \<and> list_all (\<lambda>(k, v). json_wf v) m)"
| "json_wf (JArray xs) = list_all json_wf xs"
| "json_wf _ = True"

lemma json_wf_string: "json_wf (JString s)"
  by simp

lemma json_wf_get: "json_wf (JObject m) \<Longrightarrow> bt_get m k = Some v \<Longrightarrow> json_wf v"
  by (auto simp: list_all_iff dest: bt_get_in_set)

lemma json_wf_insert: "json_wf (JObject m) \<Longrightarrow> json_wf v \<Longrightarrow> json_wf (JObject (bt_insert k v m))"
proof -
  assume m: "json_wf (JObject m)" and v: "json_wf v"
  have "list_all (\<lambda>(k, v). json_wf v) (bt_insert k v m)"
    using m v by (induction k v m rule: bt_insert.induct) (auto simp: bt_wf_Cons)
  then show ?thesis using m by (simp add: bt_wf_insert)
qed

lemma json_wf_object_or_new:
  "json_wf (JObject m) \<Longrightarrow> json_wf (JObject (object_or_new (bt_get m k)))"
proof (cases "bt_get m k")
  case (Some v)
  assume "json_wf (JObject m)"
  then have "json_wf v" using Some by (rule json_wf_get)
  then show ?thesis using Some
    by (cases v) (simp_all add: object_or_new_def as_object_def)
qed (simp add: object_or_new_def)

lemma inject_path_wf: "json_wf (JObject obj) \<Longrightarrow> json_wf (JObject (inject_path segs v ia obj))"
proof (induction segs v ia obj rule: inject_path.induct)
  case (3 seg s segs v ia obj)
  then show ?case by (auto simp del: json_wf.simps intro!: json_wf_insert json_wf_object_or_new)
qed (auto simp del: json_wf.simps intro!: json_wf_insert simp: json_wf_string)

lemma inject_path_get:
  "json_wf (JObject obj) \<Longrightarrow> segs \<noteq> [] \<Longrightarrow>
     path_get segs (JObject (inject_path segs v False obj)) = Some (JString v)"
proof (induction segs v False obj rule: inject_path.induct)
  case (2 seg v obj)
  then show ?case by (simp add: bt.get_insert)
next
  case (3 seg s segs v obj)
  then show ?case
    using json_wf_object_or_new [OF "3.prems"(1), of seg] by (simp add: bt.get_insert del: path_get.simps(2))
      (simp add: path_get.simps(2) [of seg] bt.get_insert)
qed simp

text \<open>Another top-level field is untouched.\<close>

lemma inject_path_other:
  "bt_wf obj \<Longrightarrow> k \<noteq> hd segs \<Longrightarrow> segs \<noteq> [] \<Longrightarrow> bt_get (inject_path segs v ia obj) k = bt_get obj k"
  by (cases "(segs, v, ia, obj)" rule: inject_path.cases) (auto simp: bt.get_insert)

text \<open>In the body that is forwarded every label the operator resolved has the
  operator's value, whatever the client sent under that name; the client's other labels and
  every other field of the body are as the client sent them.\<close>

theorem operator_labels_win:
  assumes "json_wf (JObject obj)" "distinct (map fst operator)"
  shows "(\<forall>(k, v) \<in> set operator. j_field (j_field (merge_labels operator obj) ''labels'') k = JString v) \<and>
     (\<forall>k. k \<notin> fst ` set operator \<longrightarrow>
        j_field (j_field (merge_labels operator obj) ''labels'') k = j_field (JObject (client_labels obj)) k) \<and>
     (\<forall>f. f \<noteq> ''labels'' \<longrightarrow> j_field (merge_labels operator obj) f = j_field (JObject obj) f)"
proof -
  have wf: "bt_wf obj" "bt_wf (client_labels obj)"
    using assms(1) json_wf_object_or_new [OF assms(1), of "''labels''"] by (simp_all add: client_labels_def)
  note spec = merge_labels_spec [OF wf]
  have rev: "map_of (rev operator) = map_of operator" by (rule map_of_rev_distinct) (rule assms(2))
  have "j_field (j_field (merge_labels operator obj) ''labels'') k = JString v" if "(k, v) \<in> set operator" for k v
    using spec(1) [of operator k] map_of_is_SomeI [OF assms(2) that] by (simp add: rev)
  moreover have "j_field (j_field (merge_labels operator obj) ''labels'') k = j_field (JObject (client_labels obj)) k"
    if "k \<notin> fst ` set operator" for k
    using spec(1) [of operator k] that map_of_eq_None_iff [of operator k] by (simp add: rev j_field_def)
  ultimately show ?thesis using spec(2) by blast
qed

theorem operator_labels_win_witness:
  "j_field (j_field (merge_labels [(''team'', ''ml'')]
     [(''labels'', JObject [(''team'', JString ''spoofed'')]), (''model'', JString ''m'')]) ''labels'') ''team'' = JString ''ml''"
  using operator_labels_win [of "[(''labels'', JObject [(''team'', JString ''spoofed'')]), (''model'', JString ''m'')]"
      "[(''team'', ''ml'')]"] by (simp add: bt_wf_def)

end
