(* ===== verification/Routing.thy ===== *)
theory Routing
  imports Config
begin

text \<open>
  The request-time half of \<open>gateway-core/src/config.rs\<close>: path normalisation, route
  selection, the Vertex host and location of a request and the model gate.  Lemmas: a
  normalised path holds no dot segment in any spelling, prefix matching is matching of
  whole segments, and the selected route is the best of those that apply.
\<close>

abbreviation slash :: char where "slash \<equiv> CHR ''/''"

section \<open>Vertex locations\<close>

definition VERTEX_MULTI_REGIONS :: "string list" where
  "VERTEX_MULTI_REGIONS = [''eu'', ''us'', ''global'']"

definition derive_vertex_host :: "string \<Rightarrow> string \<Rightarrow> string" where
  "derive_vertex_host location base_host =
     (if location \<in> set VERTEX_MULTI_REGIONS then base_host
      else location @ ''-'' @ base_host)"

definition up_to :: "char list \<Rightarrow> string \<Rightarrow> string" where
  "up_to terminators s = (case find_char (\<lambda>c. c \<in> set terminators) s of
     Some e \<Rightarrow> take e s | None \<Rightarrow> s)"

definition vertex_path_location :: "string \<Rightarrow> string option" where
  "vertex_path_location path = (case find_sub ''/locations/'' path of
     None \<Rightarrow> None
   | Some i \<Rightarrow>
       (let loc = up_to [slash] (drop (i + length ''/locations/'') path)
        in if loc = [] then None else Some loc))"

section \<open>The model gate\<close>

definition model_from_path :: "provider_kind \<Rightarrow> string \<Rightarrow> string option" where
  "model_from_path kind path =
     (case (case kind of
              Bedrock \<Rightarrow> Some (''/model/'', [slash])
            | Vertex \<Rightarrow> Some (''/models/'', [CHR '':'', slash])
            | _ \<Rightarrow> None) of
        None \<Rightarrow> None
      | Some (marker, terminators) \<Rightarrow>
          (case find_sub marker path of
             None \<Rightarrow> None
           | Some i \<Rightarrow>
               (let model = up_to terminators (drop (i + length marker) path)
                in if model = [] then None else Some model)))"

definition model_from_body :: "json_lib \<Rightarrow> string \<Rightarrow> string option" where
  "model_from_body L body = (case jl_parse L body of
     Inl _ \<Rightarrow> None
   | Inr v \<Rightarrow> Option.bind (j_get v ''model'') as_str)"

text \<open>\<open>strip_suffix('*')\<close> and the family pattern.\<close>

definition strip_suffix_char :: "char \<Rightarrow> string \<Rightarrow> string option" where
  "strip_suffix_char c s = (if s \<noteq> [] \<and> last s = c then Some (butlast s) else None)"

definition model_allowed :: "string list \<Rightarrow> string \<Rightarrow> bool" where
  "model_allowed allow model =
     list_ex (\<lambda>pat. case strip_suffix_char CHR ''*'' pat of
        Some p \<Rightarrow> starts_with model p
      | None \<Rightarrow> pat = model) allow"

lemma model_allowed_iff: "model_allowed allow model \<longleftrightarrow>
    (\<exists>pat \<in> set allow. (last pat \<noteq> CHR ''*'' \<or> pat = []) \<and> model = pat \<or>
       (\<exists>p r. pat = p @ ''*'' \<and> model = p @ r))"
proof -
  have "(case strip_suffix_char CHR ''*'' pat of Some p \<Rightarrow> starts_with model p | None \<Rightarrow> pat = model) \<longleftrightarrow>
      ((last pat \<noteq> CHR ''*'' \<or> pat = []) \<and> model = pat \<or> (\<exists>p r. pat = p @ ''*'' \<and> model = p @ r))"
    for pat
  proof (cases "pat \<noteq> [] \<and> last pat = CHR ''*''")
    case True
    then obtain p where p: "pat = p @ ''*''" by (metis append_butlast_last_id)
    then show ?thesis by (auto simp: strip_suffix_char_def starts_with_iff)
  next
    case False
    then show ?thesis by (auto simp: strip_suffix_char_def)
  qed
  then show ?thesis by (auto simp: model_allowed_def list_ex_iff)
qed

section \<open>Path normalisation\<close>

datatype dot_seg = Current | Parent

definition strip_dot :: "string \<Rightarrow> string option" where
  "strip_dot s = opt_or (strip_prefix s ''.'') (opt_or (strip_prefix s ''%2e'') (strip_prefix s ''%2E''))"

lemma strip_dot_shorter: "strip_dot s = Some r \<Longrightarrow> length r < length s"
  by (auto simp: strip_dot_def opt_or_def strip_prefix_Some split: option.splits)

function count_dots :: "nat \<Rightarrow> string \<Rightarrow> nat option" where
  "count_dots dots rest =
     (if rest = [] then Some dots
      else (case strip_dot rest of
              None \<Rightarrow> None
            | Some r \<Rightarrow> if dots + 1 > 2 then None else count_dots (dots + 1) r))"
  by pat_completeness auto

termination
  by (relation "measure (\<lambda>(d, s). length s)") (auto dest: strip_dot_shorter)

declare count_dots.simps [simp del]

definition dot_segment :: "string \<Rightarrow> dot_seg option" where
  "dot_segment seg = (case count_dots 0 seg of
     Some dots \<Rightarrow> if dots = 1 then Some Current else if dots = 2 then Some Parent else None
   | None \<Rightarrow> None)"

definition norm_step :: "string \<Rightarrow> string list \<times> bool \<Rightarrow> string list \<times> bool" where
  "norm_step seg = (\<lambda>(segments, trailing).
     if seg = [] then (segments, trailing)
     else (case dot_segment seg of
             Some Current \<Rightarrow> (segments, True)
           | Some Parent \<Rightarrow> (butlast segments, True)
           | None \<Rightarrow> (segments @ [seg], False)))"

definition write_path :: "string list \<Rightarrow> string" where
  "write_path segs = concat (map (\<lambda>s. slash # s) segs)"

definition normalize_path :: "string \<Rightarrow> string" where
  "normalize_path path =
     (if \<not> starts_with path ''/'' then path
      else
        (let (segments, trailing) = fold norm_step (split_char slash path) ([], False)
         in if segments = [] then ''/''
            else write_path segments @ (if trailing \<or> ends_with path ''/'' then ''/'' else [])))"

text \<open>The spellings of a dot segment.\<close>

definition dots :: "string set" where
  "dots = {''.'', ''%2e'', ''%2E''}"

lemma strip_dot_Some: "strip_dot s = Some r \<longleftrightarrow> (\<exists>d \<in> dots. s = d @ r)"
  by (auto simp: strip_dot_def opt_or_def dots_def strip_prefix_Some split: option.splits)
    (auto simp: strip_prefix_def starts_with_def)

lemma count_dots_more: "2 \<le> n \<Longrightarrow> count_dots n s = (if s = [] then Some n else None)"
  by (subst count_dots.simps) (auto split: option.splits)

lemma count_dots_one: "count_dots 1 s = Some n \<longleftrightarrow> (s = [] \<and> n = 1) \<or> (s \<in> dots \<and> n = 2)"
  by (subst count_dots.simps)
    (auto simp: count_dots_more numeral_2_eq_2 [symmetric] strip_dot_Some dots_def split: option.splits;
      auto simp: strip_dot_def strip_prefix_def starts_with_def opt_or_def split: if_splits)

lemma dot_segment_Current: "dot_segment s = Some Current \<longleftrightarrow> s \<in> dots"
  and dot_segment_Parent: "dot_segment s = Some Parent \<longleftrightarrow> (\<exists>a \<in> dots. \<exists>b \<in> dots. s = a @ b)"
proof -
  have count: "count_dots 0 s = Some n \<longleftrightarrow>
      (s = [] \<and> n = 0) \<or> (s \<in> dots \<and> n = 1) \<or> (\<exists>a \<in> dots. \<exists>b \<in> dots. s = a @ b \<and> n = 2)" for n
  proof (cases "strip_dot s")
    case None
    then have "\<forall>r. strip_dot s \<noteq> Some r" by simp
    then have *: "\<forall>r. \<forall>d \<in> dots. s \<noteq> d @ r" by (simp add: strip_dot_Some)
    then have "s \<notin> dots" using spec [OF *, of "[]"] by auto
    then show ?thesis using None * by (subst count_dots.simps) auto
  next
    case (Some r)
    have ne: "s \<noteq> []" using Some by (auto simp: strip_dot_def strip_prefix_def starts_with_def opt_or_def)
    from Some obtain d where d: "d \<in> dots" "s = d @ r" using strip_dot_Some by blast
    have uniq: "a = d \<and> t = r" if "a \<in> dots" "s = a @ t" for a t
      using that d by (auto simp: dots_def)
    have "count_dots 0 s = count_dots 1 r" using ne Some by (subst count_dots.simps) simp
    then have "count_dots 0 s = Some n \<longleftrightarrow> (r = [] \<and> n = 1) \<or> (r \<in> dots \<and> n = 2)"
      by (simp only: count_dots_one)
    moreover have "s \<in> dots \<longleftrightarrow> r = []" using d uniq by (metis append_Nil2)
    moreover have "(\<exists>a \<in> dots. \<exists>b \<in> dots. s = a @ b) \<longleftrightarrow> r \<in> dots" using d uniq by blast
    ultimately show ?thesis using ne by blast
  qed
  then show "dot_segment s = Some Current \<longleftrightarrow> s \<in> dots"
    and "dot_segment s = Some Parent \<longleftrightarrow> (\<exists>a \<in> dots. \<exists>b \<in> dots. s = a @ b)"
  proof -
    have "dot_segment s = Some Current \<longleftrightarrow> count_dots 0 s = Some 1"
      by (simp add: dot_segment_def split: option.split)
    then show "dot_segment s = Some Current \<longleftrightarrow> s \<in> dots" by (simp only: count) simp
    have "dot_segment s = Some Parent \<longleftrightarrow> count_dots 0 s = Some 2"
      by (simp add: dot_segment_def split: option.split)
    then show "dot_segment s = Some Parent \<longleftrightarrow> (\<exists>a \<in> dots. \<exists>b \<in> dots. s = a @ b)"
      by (simp only: count) simp
  qed
qed

definition clean :: "string \<Rightarrow> bool" where
  "clean s \<longleftrightarrow> s \<noteq> [] \<and> slash \<notin> set s \<and> dot_segment s = None"

lemma norm_fold_clean:
  "\<forall>s \<in> set segs. slash \<notin> set s \<Longrightarrow> \<forall>s \<in> set acc. clean s \<Longrightarrow>
     \<forall>s \<in> set (fst (fold norm_step segs (acc, t))). clean s"
proof (induction segs arbitrary: acc t)
  case Nil
  then show ?case by simp
next
  case (Cons x segs)
  obtain acc' t' where step: "norm_step x (acc, t) = (acc', t')" by (cases "norm_step x (acc, t)")
  have "\<forall>s \<in> set acc'. clean s" using step Cons.prems
    by (auto simp: norm_step_def clean_def split: if_splits option.splits dot_seg.splits
        dest: in_set_butlastD)
  then have "\<forall>s \<in> set (fst (fold norm_step segs (acc', t'))). clean s"
    by (intro Cons.IH) (use Cons.prems in auto)
  then show ?case by (simp add: step)
qed

lemma norm_fold_id:
  "\<forall>s \<in> set segs. clean s \<Longrightarrow> segs \<noteq> [] \<Longrightarrow> fold norm_step segs (acc, t) = (acc @ segs, False)"
proof (induction segs arbitrary: acc t)
  case Nil
  then show ?case by simp
next
  case (Cons x segs)
  then have "norm_step x (acc, t) = (acc @ [x], False)" by (simp add: norm_step_def clean_def)
  with Cons show ?case by (cases "segs = []") simp_all
qed

lemma split_write_path:
  "\<forall>s \<in> set segs. clean s \<Longrightarrow> split_char slash (write_path segs) = [] # segs"
proof (induction segs)
  case Nil
  then show ?case by (simp add: write_path_def)
next
  case (Cons x segs)
  have "split_char slash (x @ write_path segs) = x # segs"
  proof (cases segs)
    case Nil
    then show ?thesis using Cons.prems by (simp add: write_path_def clean_def split_char_id)
  next
    case (Cons y ys)
    then have "write_path segs = slash # y @ write_path ys" by (simp add: write_path_def)
    moreover have "split_char slash (write_path segs) = [] # segs"
      using Cons.IH Cons.prems by simp
    ultimately show ?thesis using Cons.prems split_char_append [of slash x "y @ write_path ys"]
      by (simp add: clean_def)
  qed
  then show ?case by (simp add: write_path_def)
qed

lemma split_char_snoc: "split_char c (s @ [c]) = split_char c s @ [[]]"
  by (induction s) (auto split: list.splits)

lemma last_write_path:
  assumes "\<forall>s \<in> set segs. clean s" "segs \<noteq> []"
  shows "write_path segs \<noteq> []" "last (write_path segs) \<noteq> slash"
proof -
  from assms(2) obtain ys y where y: "segs = ys @ [y]" by (metis append_butlast_last_id)
  then have "clean y" using assms(1) by simp
  then have "last y \<noteq> slash" "y \<noteq> []" by (auto simp: clean_def) (metis last_in_set)
  then show "write_path segs \<noteq> []" "last (write_path segs) \<noteq> slash" by (auto simp: y write_path_def)
qed

text \<open>The shape of a normalised path.\<close>

lemma normalize_path_shape:
  assumes "starts_with path ''/''"
  obtains segs tail where "\<forall>s \<in> set segs. clean s" "tail = [] \<or> tail = ''/''"
    "normalize_path path = (if segs = [] then ''/'' else write_path segs @ tail)"
proof -
  let ?r = "fold norm_step (split_char slash path) ([], False)"
  have "\<forall>s \<in> set (fst ?r). clean s"
    by (rule norm_fold_clean) (auto dest: split_char_no_sep)
  then show thesis
    by (rule that [of "fst ?r" "if snd ?r \<or> ends_with path ''/'' then ''/'' else []"])
      (use assms in \<open>auto simp: normalize_path_def Let_def split: prod.splits\<close>)
qed

lemma normalize_path_fixed:
  assumes "\<forall>s \<in> set segs. clean s" "segs \<noteq> []" "tail = [] \<or> tail = ''/''"
  shows "normalize_path (write_path segs @ tail) = write_path segs @ tail"
proof -
  have st: "starts_with (write_path segs @ tail) ''/''"
    using assms(2) by (cases segs) (auto simp: write_path_def starts_with_def)
  have split: "split_char slash (write_path segs @ tail) = [] # segs @ (if tail = [] then [] else [[]])"
    using assms(3) split_write_path [OF assms(1)] split_char_snoc [of slash "write_path segs"] by auto
  have "fold norm_step (split_char slash (write_path segs @ tail)) ([], False) = (segs, False)"
    using norm_fold_id [OF assms(1,2)] by (simp add: split norm_step_def)
  moreover have "ends_with (write_path segs @ tail) ''/'' \<longleftrightarrow> tail = ''/''"
  proof -
    have "drop (length (write_path segs) - Suc 0) (write_path segs) = [last (write_path segs)]"
      by (metis One_nat_def append_butlast_last_id append_eq_conv_conj last_write_path(1)
          [OF assms(1,2)] length_butlast)
    then show ?thesis
      using assms(3) last_write_path [OF assms(1,2)] by (auto simp: ends_with_def Suc_le_eq)
  qed
  ultimately show ?thesis using st assms(2,3) by (auto simp: normalize_path_def)
qed

lemma normalize_idem: "normalize_path (normalize_path path) = normalize_path path"
proof (cases "starts_with path ''/''")
  case False
  then show ?thesis by (simp add: normalize_path_def)
next
  case True
  from normalize_path_shape [OF True] obtain segs tail where
    s: "\<forall>s \<in> set segs. clean s" "tail = [] \<or> tail = ''/''"
      "normalize_path path = (if segs = [] then ''/'' else write_path segs @ tail)" by blast
  show ?thesis
  proof (cases "segs = []")
    case True
    then show ?thesis using s(3) by (simp add: normalize_path_def starts_with_def norm_step_def)
  next
    case False
    then show ?thesis using s normalize_path_fixed [OF s(1) False s(2)] by simp
  qed
qed

lemma normalize_segments:
  assumes "starts_with path ''/''" "seg \<in> set (split_char slash (normalize_path path))" "seg \<noteq> []"
  shows "dot_segment seg = None"
proof -
  from normalize_path_shape [OF assms(1)] obtain segs tail where
    s: "\<forall>s \<in> set segs. clean s" "tail = [] \<or> tail = ''/''"
      "normalize_path path = (if segs = [] then ''/'' else write_path segs @ tail)" by blast
  have "set (split_char slash (normalize_path path)) \<subseteq> insert [] (set segs)"
    using s(2,3) split_write_path [OF s(1)] split_char_snoc [of slash "write_path segs"] by auto
  then show ?thesis using assms(2,3) s(1) by (auto simp: clean_def)
qed

section \<open>Prefixes\<close>

definition prefix_matches :: "string \<Rightarrow> string \<Rightarrow> bool" where
  "prefix_matches prefix path =
     (let p = trim_end_char slash prefix
      in if p = [] then True
         else path = p \<or> (case strip_prefix path p of
           Some rest \<Rightarrow> starts_with rest ''/'' | None \<Rightarrow> False))"

lemma join_append: "ws \<noteq> [] \<Longrightarrow> vs \<noteq> [] \<Longrightarrow> join_with sep (ws @ vs) = join_with sep ws @ sep @ join_with sep vs"
proof (induction sep ws rule: join_with.induct)
  case (2 sep w)
  then show ?case by (cases vs) simp_all
qed simp_all

lemma prefix_matches_iff: "prefix_matches prefix path \<longleftrightarrow>
    (let p = trim_end_char slash prefix
     in p = [] \<or> (\<exists>rest. split_char slash path = split_char slash p @ rest))"
proof -
  let ?p = "trim_end_char slash prefix"
  have "(path = ?p \<or> (\<exists>r. path = ?p @ slash # r)) \<longleftrightarrow>
      (\<exists>rest. split_char slash path = split_char slash ?p @ rest)"
  proof
    assume "path = ?p \<or> (\<exists>r. path = ?p @ slash # r)"
    then show "\<exists>rest. split_char slash path = split_char slash ?p @ rest"
      by (auto simp: split_char_glue)
  next
    assume "\<exists>rest. split_char slash path = split_char slash ?p @ rest"
    then obtain rest where r: "split_char slash path = split_char slash ?p @ rest" by blast
    then have path: "path = join_with [slash] (split_char slash ?p @ rest)"
      using join_split [of slash path] by simp
    show "path = ?p \<or> (\<exists>r. path = ?p @ slash # r)"
    proof (cases "rest = []")
      case True
      then show ?thesis using path join_split [of slash ?p] by simp
    next
      case False
      then show ?thesis using path join_append [of "split_char slash ?p" rest "[slash]"]
        by (simp add: join_split)
    qed
  qed
  then show ?thesis
    by (auto simp: prefix_matches_def Let_def strip_prefix_def starts_with_iff split: option.splits)
qed

section \<open>Route selection\<close>

text \<open>A condition that errors does not match.\<close>

definition condition_holds :: "('p, 'v) cel_lib \<Rightarrow> 'p compiled_expr option \<Rightarrow> eval_ctx \<Rightarrow> bool" where
  "condition_holds L c ctx = (case c of
     None \<Rightarrow> True
   | Some cond \<Rightarrow> (case eval_bool L cond ctx of Inr b \<Rightarrow> b | Inl _ \<Rightarrow> False))"

definition route_applies :: "('p, 'v) cel_lib \<Rightarrow> string \<Rightarrow> eval_ctx \<Rightarrow> 'p route \<Rightarrow> bool" where
  "route_applies L path ctx r \<longleftrightarrow> prefix_matches (ru_prefix r) path \<and>
     (case ru_compiled r of Some c \<Rightarrow> condition_holds L (cr_condition c) ctx | None \<Rightarrow> False)"

definition route_key :: "nat \<times> 'p route \<Rightarrow> nat \<times> bool \<times> nat" where
  "route_key = (\<lambda>(i, r). (length (trim_end_char slash (ru_prefix r)), ru_condition r \<noteq> None, i))"

text \<open>The order of the tuple with \<open>Reverse\<close> on the index.\<close>

definition key_less :: "nat \<times> bool \<times> nat \<Rightarrow> nat \<times> bool \<times> nat \<Rightarrow> bool" where
  "key_less = (\<lambda>(n, c, i) (n', c', i'). n < n' \<or> (n = n' \<and> (c < c' \<or> (c = c' \<and> i' < i))))"

definition max_step :: "nat \<times> 'p route \<Rightarrow> (nat \<times> 'p route) option \<Rightarrow> (nat \<times> 'p route) option" where
  "max_step x best = (case best of
     None \<Rightarrow> Some x
   | Some b \<Rightarrow> if key_less (route_key x) (route_key b) then Some b else Some x)"

text \<open>\<open>match_route\<close>; the outer \<open>None\<close> is the panic on a candidate that was never finalized.\<close>

definition match_route ::
  "('p, 'v) cel_lib \<Rightarrow> 'p route list \<Rightarrow> string \<Rightarrow> eval_ctx \<Rightarrow> 'p route option option"
where
  "match_route L routes path ctx =
     (if list_ex (\<lambda>r. prefix_matches (ru_prefix r) path \<and> ru_compiled r = None) routes then None
      else Some (map_option snd
        (fold max_step (filter (\<lambda>(_, r). route_applies L path ctx r) (enumerate 0 routes)) None)))"

lemma key_less_linear: "snd (snd k) \<noteq> snd (snd k') \<Longrightarrow> \<not> key_less k k' \<Longrightarrow> key_less k' k"
  by (cases k; cases k') (auto simp: key_less_def)

lemma key_less_trans: "key_less a b \<Longrightarrow> key_less b c \<Longrightarrow> key_less a c"
  by (cases a; cases b; cases c) (auto simp: key_less_def)

lemma fold_max_step:
  assumes "distinct (map fst xs)" "\<forall>b. acc = Some b \<longrightarrow> fst b \<notin> set (map fst xs)"
  shows "case fold max_step xs acc of
      None \<Rightarrow> xs = [] \<and> acc = None
    | Some b \<Rightarrow> (b \<in> set xs \<or> acc = Some b) \<and>
        (\<forall>x \<in> set xs \<union> set_option acc. x \<noteq> b \<longrightarrow> key_less (route_key x) (route_key b))"
  using assms
proof (induction xs arbitrary: acc)
  case Nil
  then show ?case by (cases acc) auto
next
  case (Cons x xs)
  obtain b where b: "max_step x acc = Some b"
    by (cases "max_step x acc") (auto simp: max_step_def split: option.splits if_splits)
  have b_in: "b = x \<or> acc = Some b" and
    less: "\<forall>y \<in> insert x (set_option acc). y \<noteq> b \<longrightarrow> key_less (route_key y) (route_key b)"
  proof -
    show "b = x \<or> acc = Some b" using b by (auto simp: max_step_def split: option.splits if_splits)
    show "\<forall>y \<in> insert x (set_option acc). y \<noteq> b \<longrightarrow> key_less (route_key y) (route_key b)"
    proof (cases acc)
      case None
      then show ?thesis using b by (auto simp: max_step_def)
    next
      case (Some a)
      then have "fst a \<noteq> fst x" using Cons.prems by auto
      then have "snd (snd (route_key x)) \<noteq> snd (snd (route_key a))"
        by (cases a; cases x) (auto simp: route_key_def)
      then show ?thesis using b Some key_less_linear by (auto simp: max_step_def split: if_splits)
    qed
  qed
  have IH: "case fold max_step xs (Some b) of
      None \<Rightarrow> xs = [] \<and> Some b = None
    | Some c \<Rightarrow> (c \<in> set xs \<or> Some b = Some c) \<and>
        (\<forall>y \<in> set xs \<union> set_option (Some b). y \<noteq> c \<longrightarrow> key_less (route_key y) (route_key c))"
  proof (rule Cons.IH)
    show "distinct (map fst xs)" using Cons.prems(1) by simp
    have "fst b \<notin> set (map fst xs)"
      using b_in Cons.prems(1) Cons.prems(2) [rule_format, of b] by (elim disjE) simp_all
    then show "\<forall>b'. Some b = Some b' \<longrightarrow> fst b' \<notin> set (map fst xs)" by simp
  qed
  obtain c where c: "fold max_step xs (Some b) = Some c"
    using IH by (cases "fold max_step xs (Some b)") auto
  have "key_less (route_key y) (route_key c)"
    if "y \<in> insert x (set_option acc)" "y \<noteq> c" for y
  proof (cases "y = b")
    case True
    then show ?thesis using IH that by (simp add: c)
  next
    case False
    then have yb: "key_less (route_key y) (route_key b)" using less that(1) by blast
    show ?thesis
    proof (cases "b = c")
      case True
      then show ?thesis using yb by simp
    next
      case False
      then have "key_less (route_key b) (route_key c)" using IH by (simp add: c)
      with yb show ?thesis by (rule key_less_trans)
    qed
  qed
  then show ?case using IH b_in by (auto simp: b c)
qed

lemma enumerate_candidates:
  "(i, r) \<in> set (enumerate 0 routes) \<longleftrightarrow> i < length routes \<and> routes ! i = r"
  by (auto simp: in_set_enumerate_eq)

lemma match_route_spec:
  assumes "match_route L routes path ctx = Some res"
  shows "case res of
      None \<Rightarrow> \<forall>r \<in> set routes. \<not> route_applies L path ctx r
    | Some r \<Rightarrow> \<exists>i < length routes. routes ! i = r \<and> route_applies L path ctx r \<and>
        (\<forall>j < length routes. j \<noteq> i \<longrightarrow> route_applies L path ctx (routes ! j) \<longrightarrow>
           key_less (route_key (j, routes ! j)) (route_key (i, r)))"
proof -
  let ?cs = "filter (\<lambda>(_, r). route_applies L path ctx r) (enumerate 0 routes)"
  have mem: "(i, r) \<in> set ?cs \<longleftrightarrow> i < length routes \<and> routes ! i = r \<and> route_applies L path ctx r" for i r
    by (auto simp: enumerate_candidates)
  have "distinct (map fst ?cs)"
    using distinct_map_filter [of fst "enumerate 0 routes"] by simp
  from fold_max_step [OF this, of None] have *: "case fold max_step ?cs None of
      None \<Rightarrow> ?cs = []
    | Some b \<Rightarrow> b \<in> set ?cs \<and> (\<forall>x \<in> set ?cs. x \<noteq> b \<longrightarrow> key_less (route_key x) (route_key b))"
    by (auto split: option.splits)
  have res: "res = map_option snd (fold max_step ?cs None)"
    using assms by (simp add: match_route_def split: if_splits)
  show ?thesis
  proof (cases "fold max_step ?cs None")
    case None
    then have "?cs = []" using * by simp
    then have "\<nexists>i r. (i, r) \<in> set ?cs" by simp
    then have "\<forall>r \<in> set routes. \<not> route_applies L path ctx r"
      unfolding mem by (auto simp: in_set_conv_nth)
    then show ?thesis by (simp add: res None)
  next
    case (Some b)
    obtain i r where b: "b = (i, r)" by (cases b)
    have "i < length routes" "routes ! i = r" "route_applies L path ctx r"
      using * mem [of i r] by (simp_all add: Some b)
    moreover have "key_less (route_key (j, routes ! j)) (route_key (i, r))"
      if "j < length routes" "j \<noteq> i" "route_applies L path ctx (routes ! j)" for j
    proof -
      have "(j, routes ! j) \<in> set ?cs" using that mem by blast
      then show ?thesis using * that(2) unfolding Some b option.case by blast
    qed
    ultimately show ?thesis by (auto simp: res Some b)
  qed
qed

section \<open>The path the gateway and the provider agree on\<close>

text \<open>Property C20. The path requests are matched and forwarded on is a fixed point of
  normalisation that keeps the leading slash, and none of its segments is a dot segment in
  any spelling, plain or percent-encoded: no traversal survives into route selection.\<close>

theorem normalized_path_has_no_traversal:
  assumes "starts_with path ''/''"
  shows "starts_with (normalize_path path) ''/'' \<and> normalize_path (normalize_path path) = normalize_path path \<and>
     (\<forall>seg \<in> set (split_char slash (normalize_path path)).
        seg \<notin> dots \<and> (\<forall>a \<in> dots. \<forall>b \<in> dots. seg \<noteq> a @ b))"
proof (intro conjI)
  show "normalize_path (normalize_path path) = normalize_path path" by (rule normalize_idem)
  show "starts_with (normalize_path path) ''/''"
    by (rule normalize_path_shape [OF assms]) (auto simp: starts_with_def write_path_def neq_Nil_conv)
  have "[] \<notin> dots" "\<forall>a \<in> dots. \<forall>b \<in> dots. a @ b \<noteq> []" by (auto simp: dots_def)
  then show "\<forall>seg \<in> set (split_char slash (normalize_path path)).
      seg \<notin> dots \<and> (\<forall>a \<in> dots. \<forall>b \<in> dots. seg \<noteq> a @ b)"
    using normalize_segments [OF assms] dot_segment_Current dot_segment_Parent
    by (metis option.distinct(1))
qed

theorem normalized_path_has_no_traversal_witness:
  "starts_with (normalize_path ''/public/%2E%2e/admin//x'') ''/'' \<and>
   normalize_path ''/public/%2E%2e/admin//x'' = ''/admin/x''"
  using normalized_path_has_no_traversal [of "''/public/%2E%2e/admin//x''"]
  by (simp add: starts_with_def) code_simp

text \<open>A small route table: \<open>/a\<close> and the longer \<open>/a/b\<close>.\<close>

definition example_reply :: rejection_template where
  "example_reply = \<lparr>rt_status = 403, rt_content_type = ''text/plain'', rt_body = [], rt_streaming = None\<rparr>"

definition example_route :: "string \<Rightarrow> unit route" where
  "example_route prefix = \<lparr>ru_prefix = prefix, ru_provider = ''aws'', ru_project = None, ru_condition = None,
     ru_attribution = \<lparr>at_required_keys = [], at_headers = [], at_pinned = [], at_from_claims = [],
       at_derived = [], at_spend_caps = [], at_models = None\<rparr>,
     ru_labels = [], ru_rejections = None,
     ru_compiled = Some \<lparr>cr_condition = None,
       cr_effective = \<lparr>ep_required_keys = [], ep_pinned = [], ep_from_claims = [], ep_derived = [],
         ep_labels = [], ep_spend_caps = [], ep_models = None, ep_headers = [],
         ep_default_response = example_reply, ep_unknown_route = example_reply,
         ep_model_not_allowed = example_reply, ep_value_not_allowed = None, ep_cap_exceeded = None\<rparr>,
       cr_apps = []\<rparr>\<rparr>"

definition example_ctx :: eval_ctx where
  "example_ctx = \<lparr>ec_method = ''POST'', ec_path = ''/a/b/c'', ec_headers = [], ec_claims = None,
     ec_attribution = []\<rparr>"

definition example_cel :: "(unit, unit) cel_lib" where
  "example_cel = \<lparr>cl_compile = (\<lambda>_. Inl []), cl_expression = (\<lambda>_. Literal), cl_variables = (\<lambda>_. []),
     cl_to_value = (\<lambda>_. Inl []), cl_execute = (\<lambda>_ _. Inl []), cl_show_f64 = (\<lambda>_. [])\<rparr>"

text \<open>Which route a request should get, said over the segments of paths and without the matcher's
  own key: a prefix is the list of its segments, empty ones at its end left out.\<close>

definition prefix_segments :: "string \<Rightarrow> string list" where
  "prefix_segments prefix = rev (dropWhile (\<lambda>seg. seg = []) (rev (split_char slash prefix)))"

definition claims_path :: "('p, 'v) cel_lib \<Rightarrow> string \<Rightarrow> eval_ctx \<Rightarrow> 'p route \<Rightarrow> bool" where
  "claims_path L path ctx r \<longleftrightarrow>
     (\<exists>rest. split_char slash path = prefix_segments (ru_prefix r) @ rest) \<and>
     (\<exists>c. ru_compiled r = Some c \<and> (\<forall>e. cr_condition c = Some e \<longrightarrow> eval_bool L e ctx = Inr True))"

lemma prefix_segments_trim: "prefix_segments prefix =
    (if trim_end_char slash prefix = [] then [] else split_char slash (trim_end_char slash prefix))"
proof (induction prefix rule: rev_induct)
  case Nil
  then show ?case by (simp add: prefix_segments_def trim_end_char_def)
next
  case (snoc c s)
  show ?case
  proof (cases "c = slash")
    case True
    then show ?thesis using snoc by (simp add: prefix_segments_def trim_end_char_def split_char_snoc)
  next
    case False
    have last: "split_char slash (s @ [c]) \<noteq> [] \<and> last (split_char slash (s @ [c])) \<noteq> []"
      using False by (induction s) (auto split: list.splits)
    then have "prefix_segments (s @ [c]) = split_char slash (s @ [c])"
      by (cases "split_char slash (s @ [c])" rule: rev_cases) (simp_all add: prefix_segments_def)
    moreover have "trim_end_char slash (s @ [c]) = s @ [c]" using False by (simp add: trim_end_char_def)
    ultimately show ?thesis by simp
  qed
qed

lemma claims_path_iff: "route_applies L path ctx r \<longleftrightarrow> claims_path L path ctx r"
  by (auto simp: route_applies_def claims_path_def prefix_matches_iff prefix_segments_trim Let_def
      condition_holds_def split: option.splits sum.splits)

lemma trim_of_segments: "trim_end_char slash prefix = join_with [slash] (prefix_segments prefix)"
  by (simp add: prefix_segments_trim join_split)

text \<open>Of two prefixes of one path the longer text is the one with more segments.\<close>

lemma longer_prefix:
  assumes "split_char slash path = prefix_segments p @ rest" "split_char slash path = prefix_segments q @ rest'"
  shows "length (prefix_segments q) < length (prefix_segments p) \<Longrightarrow>
      length (trim_end_char slash q) < length (trim_end_char slash p)"
    and "length (prefix_segments q) = length (prefix_segments p) \<Longrightarrow> prefix_segments q = prefix_segments p"
proof -
  show "length (prefix_segments q) = length (prefix_segments p) \<Longrightarrow> prefix_segments q = prefix_segments p"
    using assms by (metis append_eq_append_conv)
  assume lt: "length (prefix_segments q) < length (prefix_segments p)"
  then obtain more where more: "prefix_segments p = prefix_segments q @ more" "more \<noteq> []"
    using assms by (metis append_eq_append_conv_if append_take_drop_id drop_eq_Nil less_imp_le_nat not_less)
  show "length (trim_end_char slash q) < length (trim_end_char slash p)"
  proof (cases "prefix_segments q = []")
    case True
    then have "trim_end_char slash q = []" by (simp add: trim_of_segments)
    moreover have "trim_end_char slash p \<noteq> []" using lt by (auto simp: prefix_segments_trim split: if_splits)
    ultimately show ?thesis by simp
  next
    case False
    then show ?thesis using join_append [OF False more(2), of "[slash]"] by (simp add: trim_of_segments more(1))
  qed
qed

text \<open>Property C19. The route a request is given claims its path, whole segments at a time and with
  its condition evaluating to true, and is the best such route of the table: every other route that
  claims the path has a prefix of fewer segments, or the same prefix (slashes at the end aside) and
  no condition where the given one has one, or also agrees on that and stands later in the table.
  No route is given only when none claims the path.\<close>

theorem matched_route_is_most_specific:
  assumes "match_route L routes path ctx = Some res"
  shows "case res of
      None \<Rightarrow> \<forall>r \<in> set routes. \<not> claims_path L path ctx r
    | Some r \<Rightarrow> \<exists>i < length routes. routes ! i = r \<and> claims_path L path ctx r \<and>
        (\<forall>j < length routes. j \<noteq> i \<longrightarrow> claims_path L path ctx (routes ! j) \<longrightarrow>
           (let better = prefix_segments (ru_prefix r); other = prefix_segments (ru_prefix (routes ! j))
            in length other < length better \<or>
               other = better \<and>
                 (ru_condition r \<noteq> None \<and> ru_condition (routes ! j) = None \<or>
                  (ru_condition r = None \<longleftrightarrow> ru_condition (routes ! j) = None) \<and> i < j)))"
proof -
  have beats: "let better = prefix_segments (ru_prefix r); other = prefix_segments (ru_prefix q)
      in length other < length better \<or>
         other = better \<and> (ru_condition r \<noteq> None \<and> ru_condition q = None \<or>
            (ru_condition r = None \<longleftrightarrow> ru_condition q = None) \<and> i < j)"
    if k: "key_less (route_key (j, q)) (route_key (i, r))" and "claims_path L path ctx r" "claims_path L path ctx q"
    for i j and q r :: "'a route"
  proof -
    from that(2,3) obtain rest rest' where pre: "split_char slash path = prefix_segments (ru_prefix r) @ rest"
      "split_char slash path = prefix_segments (ru_prefix q) @ rest'" by (auto simp: claims_path_def)
    note le = longer_prefix [OF pre] and ge = longer_prefix [OF pre(2,1)]
    consider "length (prefix_segments (ru_prefix q)) < length (prefix_segments (ru_prefix r))"
      | "prefix_segments (ru_prefix q) = prefix_segments (ru_prefix r)"
      | "length (trim_end_char slash (ru_prefix r)) < length (trim_end_char slash (ru_prefix q))"
      using le(2) ge(1) by (metis linorder_neqE_nat)
    then show ?thesis
    proof cases
      case 2
      then have "trim_end_char slash (ru_prefix q) = trim_end_char slash (ru_prefix r)" by (simp add: trim_of_segments)
      then show ?thesis using k 2 by (auto simp: key_less_def route_key_def Let_def)
    qed (use k in \<open>auto simp: key_less_def route_key_def Let_def\<close>)
  qed
  show ?thesis
    using match_route_spec [OF assms] beats unfolding claims_path_iff by (cases res) (simp, simp, blast)
qed

lemma example_match:
  "match_route example_cel [example_route ''/a'', example_route ''/a/b''] ''/a/b/c'' example_ctx =
     Some (Some (example_route ''/a/b''))"
  by code_simp

theorem matched_route_is_most_specific_witness:
  "claims_path example_cel ''/a/b/c'' example_ctx (example_route ''/a/b'') \<and>
   prefix_segments ''/a/b/'' = prefix_segments ''/a/b''"
proof
  show "claims_path example_cel ''/a/b/c'' example_ctx (example_route ''/a/b'')"
    using matched_route_is_most_specific [OF example_match] unfolding option.case by blast
  show "prefix_segments ''/a/b/'' = prefix_segments ''/a/b''" by code_simp
qed

end
