(* ===== verification/Aws.thy ===== *)
theory Aws
  imports Validate
begin

text \<open>
  \<open>gateway-core/src/aws.rs\<close>: the AssumeRole request and response, SigV4 signing, the
  credential cache and the sanitised session name.  SHA-256, HMAC and chrono are the
  parameters \<open>aws_lib\<close>; chrono's date of a timestamp, if it has one, is the function that
  formats it.  The mutex makes each cache operation a step.  Lemmas: a cache key determines
  the identity it was built from, a sanitised name is one AWS accepts, and form values
  decode to what was encoded.
\<close>

record aws_lib =
  aw_sha256 :: "string \<Rightarrow> string"
  aw_hmac :: "string \<Rightarrow> string \<Rightarrow> string"
  aw_datetime :: "int \<Rightarrow> (string \<Rightarrow> string) option"
  aw_parse_rfc3339 :: "string \<Rightarrow> string + int"

definition UNSIGNED_PAYLOAD :: string where
  "UNSIGNED_PAYLOAD = ''UNSIGNED-PAYLOAD''"

definition REFRESH_MARGIN_SECS :: u64 where
  "REFRESH_MARGIN_SECS = 30"

record credentials =
  cd_access_key_id :: string
  cd_secret_access_key :: string
  cd_session_token :: string
  cd_expiration_unix :: u64

section \<open>Form encoding\<close>

definition hex_upper :: "nat \<Rightarrow> char" where
  "hex_upper n = (if n < 10 then char_of (48 + n) else char_of (55 + n))"

definition hex_lower :: "nat \<Rightarrow> char" where
  "hex_lower n = (if n < 10 then char_of (48 + n) else char_of (87 + n))"

definition hex_bytes :: "string \<Rightarrow> string" where
  "hex_bytes bs = concat (map (\<lambda>b. [hex_lower (of_char b div 16), hex_lower (of_char b mod 16)]) bs)"

definition unreserved :: "char \<Rightarrow> bool" where
  "unreserved c \<longleftrightarrow> is_ascii_alphanumeric c \<or> c \<in> set ''-_.~''"

definition form_encode :: "string \<Rightarrow> string" where
  "form_encode s = concat (map (\<lambda>b.
     if unreserved b then [b]
     else [CHR ''%'', hex_upper (of_char b div 16), hex_upper (of_char b mod 16)]) s)"

definition hex_val :: "char \<Rightarrow> nat option" where
  "hex_val c = (if is_ascii_digit c then Some (of_char c - 48)
     else if 65 \<le> (of_char c :: nat) \<and> (of_char c :: nat) \<le> 70 then Some (of_char c - 55)
     else if 97 \<le> (of_char c :: nat) \<and> (of_char c :: nat) \<le> 102 then Some (of_char c - 87)
     else None)"

text \<open>\<open>u8::from_str_radix\<close> of two bytes, which also accepts a plus sign.\<close>

definition parse_hex_pair :: "char \<Rightarrow> char \<Rightarrow> char" where
  "parse_hex_pair a b = (case (if a = CHR ''+'' then Some 0 else hex_val a, hex_val b) of
     (Some x, Some y) \<Rightarrow> char_of (16 * x + y)
   | _ \<Rightarrow> CHR ''?'')"

text \<open>The bytes \<open>form_decode\<close> collects; \<open>None\<close> is the panic on a slice that ends inside a
  character.\<close>

fun form_decode_bytes :: "string \<Rightarrow> string option" where
  "form_decode_bytes [] = Some []"
| "form_decode_bytes (c # s) =
     (if c = CHR ''%'' \<and> 2 \<le> length s then
        (case s of
           a # b # t \<Rightarrow>
             if t \<noteq> [] \<and> is_continuation (hd t) then None
             else map_option (\<lambda>out. parse_hex_pair a b # out) (form_decode_bytes t)
         | _ \<Rightarrow> None)
      else if c = CHR ''+'' then map_option (\<lambda>out. CHR '' '' # out) (form_decode_bytes s)
      else map_option (\<lambda>out. c # out) (form_decode_bytes s))"

section \<open>AssumeRole\<close>

fun tag_params :: "nat \<Rightarrow> (string \<times> string) list \<Rightarrow> string" where
  "tag_params n [] = []"
| "tag_params n ((k, v) # tags) =
     ''&Tags.member.'' @ dec_of_nat n @ ''.Key='' @ form_encode k @
     ''&Tags.member.'' @ dec_of_nat n @ ''.Value='' @ form_encode v @ tag_params (n + 1) tags"

definition assume_role_body :: "string \<Rightarrow> string \<Rightarrow> u32 \<Rightarrow> (string \<times> string) list \<Rightarrow> string" where
  "assume_role_body role_arn session_name duration_secs tags =
     ''Action=AssumeRole&Version=2011-06-15&RoleArn='' @ form_encode role_arn @
     ''&RoleSessionName='' @ form_encode session_name @
     ''&DurationSeconds='' @ show_word duration_secs @ tag_params 1 tags"

definition assume_role_with_web_identity_body ::
  "string \<Rightarrow> string \<Rightarrow> string \<Rightarrow> u32 \<Rightarrow> string"
where
  "assume_role_with_web_identity_body role_arn session_name token duration_secs =
     ''Action=AssumeRoleWithWebIdentity&Version=2011-06-15&RoleArn='' @ form_encode role_arn @
     ''&RoleSessionName='' @ form_encode session_name @
     ''&WebIdentityToken='' @ form_encode token @
     ''&DurationSeconds='' @ show_word duration_secs"

datatype sts_error = NoField string | UnterminatedField string | BadExpiration string string

definition xml_field :: "string \<Rightarrow> string \<Rightarrow> sts_error + string" where
  "xml_field xml name =
     (let opening = ''<'' @ name @ ''>''; closing = ''</'' @ name @ ''>''
      in (case find_sub opening xml of
            None \<Rightarrow> Inl (NoField name)
          | Some i \<Rightarrow>
              (let rest = drop (i + length opening) xml
               in (case find_sub closing rest of
                     None \<Rightarrow> Inl (UnterminatedField name)
                   | Some e \<Rightarrow> Inr (take e rest)))))"

definition parse_assume_role_response :: "aws_lib \<Rightarrow> string \<Rightarrow> sts_error + credentials" where
  "parse_assume_role_response L xml = (case xml_field xml ''AccessKeyId'' of
     Inl e \<Rightarrow> Inl e
   | Inr ak \<Rightarrow> (case xml_field xml ''SecretAccessKey'' of
       Inl e \<Rightarrow> Inl e
     | Inr sk \<Rightarrow> (case xml_field xml ''SessionToken'' of
         Inl e \<Rightarrow> Inl e
       | Inr st \<Rightarrow> (case xml_field xml ''Expiration'' of
           Inl e \<Rightarrow> Inl e
         | Inr expiry \<Rightarrow> (case aw_parse_rfc3339 L expiry of
             Inl e \<Rightarrow> Inl (BadExpiration expiry e)
           | Inr t \<Rightarrow> Inr \<lparr>cd_access_key_id = ak, cd_secret_access_key = sk,
               cd_session_token = st, cd_expiration_unix = of_int (max t 0)\<rparr>)))))"

section \<open>SigV4\<close>

definition format_time :: "aws_lib \<Rightarrow> u64 \<Rightarrow> string \<Rightarrow> string" where
  "format_time L now fmt = (case aw_datetime L (sint now) of
     Some f \<Rightarrow> f fmt
   | None \<Rightarrow> (case aw_datetime L 0 of Some f \<Rightarrow> f fmt | None \<Rightarrow> []))"

definition amz_date :: "aws_lib \<Rightarrow> u64 \<Rightarrow> string \<times> string" where
  "amz_date L now = (format_time L now ''%Y%m%dT%H%M%SZ'', format_time L now ''%Y%m%d'')"

record sign_params =
  sp_method :: string
  sp_path :: string
  sp_query :: string
  sp_region :: string
  sp_service :: string
  sp_headers :: "(string \<times> string) list"
  sp_payload_hash :: string
  sp_timestamp :: string

definition sp_scope :: "sign_params \<Rightarrow> string" where
  "sp_scope p = take 8 (sp_timestamp p) @ ''/'' @ sp_region p @ ''/'' @ sp_service p @ ''/aws4_request''"

text \<open>\<open>sort()\<close> of pairs: by the first component, then by the second.\<close>

definition sort_pairs :: "(string \<times> string) list \<Rightarrow> (string \<times> string) list" where
  "sort_pairs xs = sort_key fst (sort_key snd xs)"

definition sorted_headers :: "sign_params \<Rightarrow> (string \<times> string) list" where
  "sorted_headers p = sort_pairs (map (\<lambda>(k, v). (to_ascii_lowercase k, trim v)) (sp_headers p))"

definition signed_headers :: "sign_params \<Rightarrow> string" where
  "signed_headers p = join_with '';'' (map fst (sorted_headers p))"

definition canonical_query :: "string \<Rightarrow> string" where
  "canonical_query q =
     (if q = [] then []
      else join_with ''&'' (map (\<lambda>(k, v). k @ ''='' @ v)
        (sort_pairs (map (\<lambda>p. unwrap_or (split_once CHR ''='' p) (p, []))
          (filter (\<lambda>p. p \<noteq> []) (split_char CHR ''&'' q))))))"

abbreviation newline :: string where "newline \<equiv> [CHR 0x0A]"

definition canonical_request :: "sign_params \<Rightarrow> string" where
  "canonical_request p =
     sp_method p @ newline @ sp_path p @ newline @ canonical_query (sp_query p) @ newline @
     concat (map (\<lambda>(k, v). k @ '':'' @ v @ newline) (sorted_headers p)) @ newline @
     signed_headers p @ newline @ sp_payload_hash p"

definition string_to_sign :: "aws_lib \<Rightarrow> sign_params \<Rightarrow> string" where
  "string_to_sign L p =
     ''AWS4-HMAC-SHA256'' @ newline @ sp_timestamp p @ newline @ sp_scope p @ newline @
     hex_bytes (aw_sha256 L (canonical_request p))"

definition signature :: "aws_lib \<Rightarrow> sign_params \<Rightarrow> string \<Rightarrow> string" where
  "signature L p secret =
     (let k_date = aw_hmac L (''AWS4'' @ secret) (take 8 (sp_timestamp p));
          k_region = aw_hmac L k_date (sp_region p);
          k_service = aw_hmac L k_region (sp_service p);
          k_signing = aw_hmac L k_service ''aws4_request''
      in hex_bytes (aw_hmac L k_signing (string_to_sign L p)))"

definition authorization :: "aws_lib \<Rightarrow> sign_params \<Rightarrow> string \<Rightarrow> string \<Rightarrow> string" where
  "authorization L p access_key secret =
     ''AWS4-HMAC-SHA256 Credential='' @ access_key @ ''/'' @ sp_scope p @
     '', SignedHeaders='' @ signed_headers p @ '', Signature='' @ signature L p secret"

record parsed_authorization =
  pa_access_key_id :: string
  pa_date :: string
  pa_region :: string
  pa_service :: string
  pa_signed_headers :: "string list"
  pa_signature :: string

datatype auth_error =
    NotSigV4 | NoCredential | MalformedScope string | ScopeTail string | NoSignedHeaders | NoSignature

definition auth_part ::
  "string \<Rightarrow> string option \<times> string option \<times> string option \<Rightarrow>
   string option \<times> string option \<times> string option"
where
  "auth_part raw = (\<lambda>(c, h, s).
     let part = trim raw
     in (case strip_prefix part ''Credential='' of
           Some v \<Rightarrow> (Some v, h, s)
         | None \<Rightarrow> (case strip_prefix part ''SignedHeaders='' of
             Some v \<Rightarrow> (c, Some v, s)
           | None \<Rightarrow> (case strip_prefix part ''Signature='' of
               Some v \<Rightarrow> (c, h, Some v)
             | None \<Rightarrow> (c, h, s)))))"

definition parse_authorization :: "string \<Rightarrow> auth_error + parsed_authorization" where
  "parse_authorization header = (case strip_prefix header ''AWS4-HMAC-SHA256 '' of
     None \<Rightarrow> Inl NotSigV4
   | Some rest \<Rightarrow>
       (case fold auth_part (split_char CHR '','' rest) (None, None, None) of
          (None, h, s) \<Rightarrow> Inl NoCredential
        | (Some credential, h, s) \<Rightarrow>
            (case split_char CHR ''/'' credential of
               [ak, date, region, service, tail] \<Rightarrow>
                 if tail \<noteq> ''aws4_request'' then Inl (ScopeTail tail)
                 else (case h of
                         None \<Rightarrow> Inl NoSignedHeaders
                       | Some h \<Rightarrow> (case s of
                           None \<Rightarrow> Inl NoSignature
                         | Some s \<Rightarrow> Inr \<lparr>pa_access_key_id = ak, pa_date = date, pa_region = region,
                             pa_service = service, pa_signed_headers = split_char CHR '';'' h,
                             pa_signature = s\<rparr>))
             | _ \<Rightarrow> Inl (MalformedScope credential))))"

section \<open>The credential cache\<close>

definition cache_key :: "string \<Rightarrow> string \<Rightarrow> u32 \<Rightarrow> string \<Rightarrow> (string \<times> string) list \<Rightarrow> string" where
  "cache_key role_arn session_name duration_secs endpoint tags =
     role_arn @ ''|'' @ session_name @ ''|'' @ show_word duration_secs @ ''|'' @ endpoint @ ''|'' @
     join_with '','' (map (\<lambda>(k, v). k @ ''='' @ v) (sort_pairs tags))"

type_synonym credential_cache = "(string, credentials) btree"

definition cache_get :: "credential_cache \<Rightarrow> string \<Rightarrow> u64 \<Rightarrow> credentials option" where
  "cache_get cache key now = (case bt_get cache key of
     Some c \<Rightarrow> if cd_expiration_unix c > now + REFRESH_MARGIN_SECS then Some c else None
   | None \<Rightarrow> None)"

definition cache_put :: "string \<Rightarrow> credentials \<Rightarrow> credential_cache \<Rightarrow> credential_cache" where
  "cache_put key creds cache = bt_insert key creds cache"

definition sanitize_session_name :: "string \<Rightarrow> string" where
  "sanitize_session_name raw =
     (let chars = map (\<lambda>c. if session_name_char c then c else CHR ''-'')
            (filter (\<lambda>c. \<not> is_continuation c) raw);
          out = rev (dropWhile (\<lambda>c. c \<in> set ''-_'') (rev (take 64 chars)))
      in if char_count out < 2 then ''gatewayd'' else out)"

section \<open>A sanitised name is valid\<close>

lemma session_name_char_no_cont: "session_name_char c \<Longrightarrow> \<not> is_continuation c"
  by (auto simp: session_name_char_def is_ascii_alphanumeric_def is_ascii_digit_def is_ascii_lower_def
      is_ascii_upper_def is_continuation_def)

lemma char_count_session_name: "list_all session_name_char s \<Longrightarrow> char_count s = length s"
  by (simp add: char_count_def list_all_iff session_name_char_no_cont)

lemma sanitize_chars:
  "list_all session_name_char (rev (dropWhile P (rev (take 64
     (map (\<lambda>c. if session_name_char c then c else CHR ''-'') cs)))))"
proof -
  let ?ys = "map (\<lambda>c. if session_name_char c then c else CHR ''-'') cs"
  have "session_name_char CHR ''-''" by (simp add: session_name_char_def)
  then have "list_all session_name_char (map (\<lambda>c. if session_name_char c then c else CHR ''-'') cs)"
    by (auto simp: list_all_iff)
  then have all: "\<forall>c \<in> set ?ys. session_name_char c" by (simp only: list_all_iff)
  have "session_name_char x" if "x \<in> set (rev (dropWhile P (rev (take 64 ?ys))))" for x
  proof -
    have "x \<in> set (dropWhile P (rev (take 64 ?ys)))" using that by (simp only: set_rev)
    then have "x \<in> set (rev (take 64 ?ys))" by (rule set_dropWhileD)
    then have "x \<in> set ?ys" unfolding set_rev by (rule in_set_takeD)
    then show ?thesis using all by blast
  qed
  then show ?thesis unfolding list_all_iff by blast
qed

lemma sanitize_valid: "validate_session_name (sanitize_session_name raw) = None"
proof -
  let ?cs = "filter (\<lambda>c. \<not> is_continuation c) raw"
  let ?out = "rev (dropWhile (\<lambda>c. c \<in> set ''-_'') (rev (take 64
    (map (\<lambda>c. if session_name_char c then c else CHR ''-'') ?cs))))"
  note ok = sanitize_chars [of "\<lambda>c. c \<in> set ''-_''" ?cs]
  show ?thesis
  proof (cases "char_count ?out < 2")
    case True
    then have "sanitize_session_name raw = ''gatewayd''" by (simp add: sanitize_session_name_def Let_def)
    moreover have "validate_session_name ''gatewayd'' = None" by code_simp
    ultimately show ?thesis by simp
  next
    case False
    then have eq: "sanitize_session_name raw = ?out" by (simp only: sanitize_session_name_def Let_def if_False)
    have "length ?out \<le> 64"
      using length_dropWhile_le [of "\<lambda>c. c \<in> set ''-_''"
          "rev (take 64 (map (\<lambda>c. if session_name_char c then c else CHR ''-'') ?cs))"]
      unfolding length_rev length_take by linarith
    then show ?thesis unfolding eq validate_session_name_ok
      using False ok char_count_session_name [OF ok] by simp
  qed
qed

section \<open>A cache key determines the identity\<close>

definition dec_val :: "string \<Rightarrow> nat" where
  "dec_val s = foldl (\<lambda>n c. n * 10 + (of_char c - 48)) 0 s"

lemma dec_val_dec: "dec_val (dec_of_nat n) = n"
proof (induction n rule: dec_of_nat.induct)
  case (1 n)
  show ?case
  proof (cases "n < 10")
    case True
    then show ?thesis by (subst dec_of_nat.simps) (simp add: dec_val_def of_char_of)
  next
    case False
    have "n mod 10 \<le> 9" using mod_less_divisor [of 10 n] by linarith
    then have "dec_val (dec_of_nat (n div 10) @ [char_of (48 + n mod 10)]) = n div 10 * 10 + n mod 10"
      using 1 [OF False] by (simp add: dec_val_def of_char_of)
    then show ?thesis using False by (subst dec_of_nat.simps) simp
  qed
qed

lemma show_word_inj: "show_word v = show_word w \<longleftrightarrow> v = w"
  using dec_val_dec by (metis show_word_def unsigned_word_eqI)

lemma digits_avoid: "\<not> is_ascii_digit c \<Longrightarrow> c \<notin> set (dec_of_nat n)"
  using dec_of_nat_digits [of n] by (auto simp: list_all_iff)

text \<open>What a session name, an endpoint and a tag do not hold.\<close>

definition key_safe :: "string \<Rightarrow> bool" where
  "key_safe s \<longleftrightarrow> CHR ''|'' \<notin> set s"

definition tag_safe :: "(string \<times> string) list \<Rightarrow> bool" where
  "tag_safe tags \<longleftrightarrow> tags \<noteq> [] \<and> distinct (map fst tags) \<and>
     (\<forall>(k, v) \<in> set tags. list_all aws_tag_char k \<and> list_all aws_tag_char v)"

lemma session_name_key_safe: "list_all session_name_char s \<Longrightarrow> key_safe s"
proof -
  have "\<not> session_name_char CHR ''|''" by code_simp
  then show "list_all session_name_char s \<Longrightarrow> key_safe s" by (auto simp: key_safe_def list_all_iff)
qed

lemma aws_tag_char_safe: "\<not> aws_tag_char CHR ''|''" "\<not> aws_tag_char CHR '',''"
  by code_simp+

lemma set_sort_pairs [simp]: "set (sort_pairs xs) = set xs"
  by (simp add: sort_pairs_def)

lemma sort_pairs_Nil [simp]: "sort_pairs xs = [] \<longleftrightarrow> xs = []"
  by (metis set_empty set_sort_pairs)

lemma sort_pairs_keys:
  assumes "distinct (map fst xs)" "map fst xs = map fst ys"
  shows "map fst (sort_pairs xs) = map fst (sort_pairs ys)"
proof (rule sorted_distinct_set_unique)
  have dist: "distinct (map fst (sort_pairs zs))" if "distinct (map fst zs)" for zs
  proof (rule card_distinct)
    have "card (set (map fst (sort_pairs zs))) = card (set (map fst zs))" by simp
    also have "\<dots> = length zs" using that by (metis distinct_card length_map)
    finally show "card (set (map fst (sort_pairs zs))) = length (map fst (sort_pairs zs))"
      by (simp add: sort_pairs_def)
  qed
  show "distinct (map fst (sort_pairs xs))" by (rule dist) (rule assms(1))
  show "distinct (map fst (sort_pairs ys))" by (rule dist) (use assms in simp)
  show "sorted (map fst (sort_pairs xs))" "sorted (map fst (sort_pairs ys))"
    by (simp_all add: sort_pairs_def)
  have "set (map fst (sort_pairs xs)) = set (map fst xs)"
    "set (map fst (sort_pairs ys)) = set (map fst ys)" by simp_all
  then show "set (map fst (sort_pairs xs)) = set (map fst (sort_pairs ys))" using assms(2) by simp
qed

definition tag_entry :: "string \<times> string \<Rightarrow> string" where
  "tag_entry = (\<lambda>(k, v). k @ ''='' @ v)"

lemma tag_entry_avoid:
  assumes "tag_safe t" "kv \<in> set t" "\<not> aws_tag_char c" "c \<noteq> CHR ''=''"
  shows "c \<notin> set (tag_entry kv)"
proof -
  obtain k v where kv: "kv = (k, v)" by (cases kv)
  then have "list_all aws_tag_char k" "list_all aws_tag_char v"
    using assms(1,2) by (auto simp: tag_safe_def)
  then show ?thesis using assms(3,4) by (auto simp: kv tag_entry_def list_all_iff)
qed

lemma tag_entries_inj:
  "map fst xs = map fst ys \<Longrightarrow> map tag_entry xs = map tag_entry ys \<Longrightarrow> xs = ys"
  by (induction xs ys rule: list_induct2') (auto simp: tag_entry_def)

lemma map_of_eq_lists:
  "distinct (map fst xs) \<Longrightarrow> map fst xs = map fst ys \<Longrightarrow> map_of xs = map_of ys \<Longrightarrow> xs = ys"
proof (induction xs ys rule: list_induct2')
  case (4 x xs y ys)
  obtain k v w where kv: "x = (k, v)" "y = (k, w)" using "4.prems"(2) by (cases x; cases y) auto
  have "v = w" using fun_cong [OF "4.prems"(3), of k] by (simp add: kv)
  moreover have "map_of xs = map_of ys"
  proof
    fix j
    have keys: "fst ` set xs = fst ` set ys" using "4.prems"(2) by (simp add: kv) (metis list.set_map)
    have "k \<notin> fst ` set xs" using "4.prems"(1) by (simp add: kv)
    then have "map_of xs k = None" "map_of ys k = None" using keys by (simp_all add: map_of_eq_None_iff)
    then show "map_of xs j = map_of ys j"
      using fun_cong [OF "4.prems"(3), of j] by (cases "j = k") (simp_all add: kv)
  qed
  ultimately show ?case using "4.IH" "4.prems" by (simp add: kv)
qed simp_all

lemma tag_part_inj:
  assumes "tag_safe tags" "tag_safe tags'" "map fst tags = map fst tags'"
    and "join_with '','' (map tag_entry (sort_pairs tags)) = join_with '','' (map tag_entry (sort_pairs tags'))"
  shows "tags = tags'"
proof -
  have safe: "CHR '','' \<notin> set (tag_entry kv)" if "kv \<in> set t" "tag_safe t" for kv t
    by (rule tag_entry_avoid [OF that(2,1) aws_tag_char_safe(2)]) simp
  have split: "split_char CHR '','' (join_with '','' (map tag_entry (sort_pairs t))) = map tag_entry (sort_pairs t)"
    if "tag_safe t" for t
  proof (rule split_join)
    have "sort_pairs t \<noteq> []" using that by (simp add: tag_safe_def)
    then show "map tag_entry (sort_pairs t) \<noteq> []" by simp
    show "\<forall>w \<in> set (map tag_entry (sort_pairs t)). CHR '','' \<notin> set w" using safe that by auto
  qed
  have "map tag_entry (sort_pairs tags) = map tag_entry (sort_pairs tags')"
    using split [OF assms(1)] split [OF assms(2)] assms(4) by metis
  moreover have "map fst (sort_pairs tags) = map fst (sort_pairs tags')"
    using assms(1,3) by (intro sort_pairs_keys) (simp_all add: tag_safe_def)
  ultimately have "sort_pairs tags = sort_pairs tags'" by (intro tag_entries_inj)
  then have "set tags = set tags'" using set_sort_pairs by metis
  then have "map_of tags = map_of tags'" using assms(1,2) by (simp add: tag_safe_def map_of_inject_set)
  then show ?thesis using assms(1-3) by (intro map_of_eq_lists) (simp_all add: tag_safe_def)
qed

lemma cache_key_parts:
  assumes "key_safe session" "key_safe endpoint" "tag_safe tags"
  shows "split_char CHR ''|'' (cache_key role session dur endpoint tags) =
    split_char CHR ''|'' role @
      [session, show_word dur, endpoint, join_with '','' (map tag_entry (sort_pairs tags))]"
proof -
  let ?t = "join_with '','' (map tag_entry (sort_pairs tags))"
  have dur: "CHR ''|'' \<notin> set (show_word dur)"
    unfolding show_word_def by (rule digits_avoid) code_simp
  have "CHR ''|'' \<notin> set (tag_entry kv)" if "kv \<in> set tags" for kv
    by (rule tag_entry_avoid [OF assms(3) that aws_tag_char_safe(1)]) simp
  moreover have "set (join_with sep ws) \<subseteq> set sep \<union> \<Union> (set ` set ws)" for sep :: string and ws
    by (induction sep ws rule: join_with.induct) auto
  then have "set ?t \<subseteq> set '','' \<union> \<Union> (set ` set (map tag_entry (sort_pairs tags)))" .
  ultimately have t: "CHR ''|'' \<notin> set ?t" by auto
  have "cache_key role session dur endpoint tags =
      role @ CHR ''|'' # (session @ CHR ''|'' # (show_word dur @ CHR ''|'' # (endpoint @ CHR ''|'' # ?t)))"
    by (simp add: cache_key_def tag_entry_def)
  then show ?thesis
    using assms(1,2) dur t
    by (simp add: split_char_glue split_char_append split_char_id key_safe_def)
qed

lemma cache_key_identity:
  assumes "key_safe s1" "key_safe e1" "tag_safe t1" "key_safe s2" "key_safe e2" "tag_safe t2"
    and "map fst t1 = map fst t2" "cache_key r1 s1 d1 e1 t1 = cache_key r2 s2 d2 e2 t2"
  shows "r1 = r2 \<and> s1 = s2 \<and> d1 = d2 \<and> e1 = e2 \<and> t1 = t2"
proof -
  have "split_char CHR ''|'' r1 @ [s1, show_word d1, e1, join_with '','' (map tag_entry (sort_pairs t1))] =
      split_char CHR ''|'' r2 @ [s2, show_word d2, e2, join_with '','' (map tag_entry (sort_pairs t2))]"
    using assms(8) cache_key_parts [OF assms(1-3)] cache_key_parts [OF assms(4-6)] by metis
  then have eq: "split_char CHR ''|'' r1 = split_char CHR ''|'' r2" "s1 = s2" "show_word d1 = show_word d2"
    "e1 = e2" "join_with '','' (map tag_entry (sort_pairs t1)) = join_with '','' (map tag_entry (sort_pairs t2))"
    by simp_all
  from eq(1) have "r1 = r2" using join_split by metis
  then show ?thesis
    using eq(2-4) show_word_inj tag_part_inj [OF assms(3,6,7) eq(5)] by blast
qed

text \<open>Credentials put into the cache for one identity (role, session name, duration,
  endpoint and session tags) are never served to another: what any other identity gets
  from the cache is unchanged, for tags AWS accepts and names without a bar.\<close>

theorem cached_credentials_keep_identity:
  assumes "key_safe s1" "key_safe e1" "tag_safe t1" "key_safe s2" "key_safe e2" "tag_safe t2"
    and "map fst t1 = map fst t2" "bt_wf cache"
    and "(r1, s1, d1, e1, t1) \<noteq> (r2, s2, d2, e2, t2)"
  shows "cache_get (cache_put (cache_key r1 s1 d1 e1 t1) creds cache) (cache_key r2 s2 d2 e2 t2) now =
     cache_get cache (cache_key r2 s2 d2 e2 t2) now"
proof -
  have "cache_key r1 s1 d1 e1 t1 \<noteq> cache_key r2 s2 d2 e2 t2"
    using cache_key_identity [OF assms(1-7), of r1 d1 r2 d2] assms(9) by blast
  then show ?thesis using bt.get_insert [OF assms(8)] by (auto simp: cache_get_def cache_put_def)
qed

theorem cached_credentials_keep_identity_witness:
  "cache_get (cache_put (cache_key ''arn:a'' ''alice'' 900 ''h:1'' [(''cc'', ''x'')])
       \<lparr>cd_access_key_id = ''AK'', cd_secret_access_key = ''SK'', cd_session_token = ''T'', cd_expiration_unix = 100\<rparr> [])
     (cache_key ''arn:a'' ''bob'' 900 ''h:1'' [(''cc'', ''x'')]) 0 = None"
proof -
  have "key_safe ''alice''" "key_safe ''bob''" "key_safe ''h:1''" "tag_safe [(''cc'', ''x'')]"
    by (simp_all add: key_safe_def tag_safe_def aws_tag_char_def is_ascii_alphanumeric_def is_ascii_lower_def)
  then show ?thesis
    using cached_credentials_keep_identity [of "''alice''" "''h:1''" "[(''cc'', ''x'')]" "''bob''" "''h:1''"
        "[(''cc'', ''x'')]" "[]" "''arn:a''" 900 "''arn:a''" 900 _ 0]
    by (simp add: cache_get_def)
qed

end
