(* ===== verification/Adjudicate.thy ===== *)
theory Adjudicate
  imports Finalize Attribution Labels Routing Aws
begin

text \<open>
  \<open>gatewayd/src/proxy_support.rs\<close>: what the request hook does with the headers of a request
  before anything is sent: the caller's attribution values, the verified claims, the
  two-phase resolution, the session tags, the role identity, the forced injection, the
  billing labels, and the decision how to read the response.  A \<open>HeaderMap\<close> is the list of
  its entries in iteration order, names in lower case; the clock and the libraries are
  parameters.  Lemmas: in an accepted configuration what a caller sends reaches the session
  tags, the injected values and the role through the operator's derived expressions and the
  key of a closed allow-list, and through nothing else.
\<close>

section \<open>The request\<close>

record request_head =
  rh_method :: string
  rh_headers :: "(string \<times> string) list"

definition visible_ascii :: "char \<Rightarrow> bool" where
  "visible_ascii c \<longleftrightarrow> between 32 126 c \<or> c = CHR 0x09"

definition value_str :: "string \<Rightarrow> string option" where
  "value_str v = (if list_all visible_ascii v then Some v else None)"

definition header_get :: "request_head \<Rightarrow> string \<Rightarrow> string option" where
  "header_get head name = map_of (rh_headers head) (to_ascii_lowercase name)"

definition header_str :: "request_head \<Rightarrow> string \<Rightarrow> string option" where
  "header_str head name = Option.bind (header_get head name) value_str"

definition caller_attrs :: "request_head \<Rightarrow> (string, string) btree \<Rightarrow> (string, string) btree" where
  "caller_attrs head names = fold (\<lambda>(key, header) out.
     case header_str head header of Some v \<Rightarrow> bt_insert key v out | None \<Rightarrow> out) names []"

definition request_ctx :: "request_head \<Rightarrow> string \<Rightarrow> claims option \<Rightarrow> eval_ctx" where
  "request_ctx head path claims =
     \<lparr>ec_method = rh_method head, ec_path = path,
      ec_headers = fold (\<lambda>(name, v) out. case value_str v of
          Some s \<Rightarrow>
            if bt_contains out (to_ascii_lowercase name) then out
            else bt_insert (to_ascii_lowercase name) s out
        | None \<Rightarrow> out) (rh_headers head) [],
      ec_claims = map_option JObject claims, ec_attribution = []\<rparr>"

definition bearer_token :: "string \<Rightarrow> string option" where
  "bearer_token raw = map_option trim
     (case strip_prefix raw ''Bearer '' of
        Some t \<Rightarrow> Some t
      | None \<Rightarrow> strip_prefix raw ''bearer '')"

definition verified_claims ::
  "'k jwt_lib \<Rightarrow> ('p, 'k) config \<Rightarrow> request_head \<Rightarrow> u64 \<Rightarrow> claims option"
where
  "verified_claims J cfg head now = (case cf_auth cfg of
     None \<Rightarrow> None
   | Some auth \<Rightarrow> (case Option.bind (header_str head (ja_header auth)) bearer_token of
       None \<Rightarrow> None
     | Some token \<Rightarrow>
         (case (ja_hs256_secret auth, ja_compiled_jwks auth) of
            (Some secret, _) \<Rightarrow>
              (case verify_hs256 J token secret now of Inr c \<Rightarrow> Some c | Inl _ \<Rightarrow> None)
          | (None, Some jwks) \<Rightarrow>
              (case verify_rs256 J token jwks now of Inr c \<Rightarrow> Some c | Inl _ \<Rightarrow> None)
          | (None, None) \<Rightarrow> None)))"

section \<open>Resolution\<close>

definition derived_value ::
  "('p, 'v) cel_lib \<Rightarrow> 'p effective_policy \<Rightarrow> eval_ctx \<Rightarrow> string \<Rightarrow> string option"
where
  "derived_value L policy ctx key = (case bt_get (ep_derived policy) key of
     None \<Rightarrow> None
   | Some e \<Rightarrow> (case eval_string L e ctx of Inr v \<Rightarrow> Some v | Inl _ \<Rightarrow> None))"

definition resolve_policy ::
  "('p, 'v) cel_lib \<Rightarrow> json_lib \<Rightarrow> 'p effective_policy \<Rightarrow> (string, string) btree \<Rightarrow> claims option \<Rightarrow>
   eval_ctx \<Rightarrow> resolution"
where
  "resolve_policy L J policy caller claims ctx =
     resolve J policy (bt_get caller) claims (derived_value L policy ctx)"

text \<open>\<open>None\<close>: the panic of \<open>policy()\<close> on a route that was not finalized.\<close>

definition resolve_with_app_scope ::
  "('p, 'v) cel_lib \<Rightarrow> json_lib \<Rightarrow> 'p route \<Rightarrow> apps option \<Rightarrow> (string, string) btree \<Rightarrow> claims option \<Rightarrow>
   eval_ctx \<Rightarrow> ('p effective_policy \<times> resolution) option"
where
  "resolve_with_app_scope L J route apps caller claims ctx =
     Option.bind (route_policy route) (\<lambda>policy.
       let res = resolve_policy L J policy caller claims ctx
       in case apps of
            None \<Rightarrow> Some (policy, res)
          | Some a \<Rightarrow>
              (case rs_value res (ap_key a) of
                 None \<Rightarrow> Some (policy, res)
               | Some v \<Rightarrow> Option.bind (route_app_policy route v) (\<lambda>app. case app of
                   None \<Rightarrow> Some (policy, res)
                 | Some p \<Rightarrow> Some (p, resolve_policy L J p caller claims ctx))))"

definition did_not_resolve :: "string \<Rightarrow> problem" where
  "did_not_resolve key = Msg ''attribution key {} did not resolve'' [key]"

definition is_caller_origin :: "string \<Rightarrow> problem" where
  "is_caller_origin key = Msg ''attribution key {} is caller-origin'' [key]"

text \<open>The value of one session tag; \<open>None\<close> is the \<open>unreachable!\<close> of a mis-specified tag.\<close>

definition session_tag_value ::
  "session_tag \<Rightarrow> tag list \<Rightarrow> (string \<times> problem + string) option"
where
  "session_tag_value spec tags = (case (sg_value spec, sg_from_attribution spec) of
     (Some v, _) \<Rightarrow> Some (Inr v)
   | (None, Some key) \<Rightarrow> Some (case find_tag tags key of
       None \<Rightarrow> Inl (key, did_not_resolve key)
     | Some t \<Rightarrow>
         if tg_origin t = Caller then Inl (key, is_caller_origin key)
         else (case validate_session_tag_value (tg_value t) of
                 Some e \<Rightarrow> Inl (key, e)
               | None \<Rightarrow> Inr (tg_value t)))
   | (None, None) \<Rightarrow> None)"

fun session_tags_of ::
  "session_tag list \<Rightarrow> tag list \<Rightarrow> (string \<times> problem + (string \<times> string) list) option"
where
  "session_tags_of [] tags = Some (Inr [])"
| "session_tags_of (spec # specs) tags = (case session_tag_value spec tags of
     None \<Rightarrow> None
   | Some (Inl e) \<Rightarrow> Some (Inl e)
   | Some (Inr v) \<Rightarrow> map_option (map_sum id (\<lambda>out. (sg_key spec, v) # out)) (session_tags_of specs tags))"

definition resolve_session_tags ::
  "sts_config \<Rightarrow> tag list \<Rightarrow> (string \<times> problem + (string \<times> string) list) option"
where
  "resolve_session_tags sts tags = session_tags_of (sc_tags sts) tags"

definition resolve_vertex_labels ::
  "('p, 'v) cel_lib \<Rightarrow> 'p effective_label list \<Rightarrow> tag list \<Rightarrow> eval_ctx \<Rightarrow>
   label_error + (string \<times> string) list"
where
  "resolve_vertex_labels L labels tags ctx =
     (let attribution = bt_of_list (map (\<lambda>t. (tg_key t, tg_value t)) tags)
      in resolve_labels L labels attribution (ctx\<lparr>ec_attribution := attribution\<rparr>))"

text \<open>The path that is forwarded and the new target when it changed; \<open>parse_uri\<close> is the
  \<open>http\<close> crate's.\<close>

definition normalize_and_rewrite ::
  "(string \<Rightarrow> bool) \<Rightarrow> string \<Rightarrow> string option \<Rightarrow> (string \<times> string option) option"
where
  "normalize_and_rewrite parse_uri raw_path query =
     (let path = normalize_path raw_path;
          target = (case query of Some q \<Rightarrow> path @ ''?'' @ q | None \<Rightarrow> path)
      in if path = raw_path then Some (path, None)
         else if parse_uri target then Some (path, Some target) else None)"

section \<open>Operator templates\<close>

fun template_vars ::
  "string list \<Rightarrow> tag list \<Rightarrow> string option \<Rightarrow> string \<times> problem + (string \<times> string) list"
where
  "template_vars [] tags gated = Inr []"
| "template_vars (key # keys) tags gated = (case find_tag tags key of
     None \<Rightarrow> Inl (key, did_not_resolve key)
   | Some t \<Rightarrow>
       if tg_origin t = Caller \<and> gated \<noteq> Some key
       then Inl (key, Msg ''attribution key {} is caller-origin and not allow-gated'' [key])
       else map_sum id (\<lambda>vars. (key, tg_value t) # vars) (template_vars keys tags gated))"

definition render_operator_template ::
  "operator_value_spec \<Rightarrow> string \<Rightarrow> tag list \<Rightarrow> string option \<Rightarrow> string \<times> problem + string"
where
  "render_operator_template spec what tags gated = (case as_template spec of
     None \<Rightarrow> Inl (what, Msg ''mis-specified operator value'' [])
   | Some txt \<Rightarrow> (case placeholders txt of
       Inl e \<Rightarrow> Inl (what, Msg ''unterminated placeholder at {}'' [e])
     | Inr keys \<Rightarrow> (case template_vars keys tags gated of
         Inl e \<Rightarrow> Inl e
       | Inr vars \<Rightarrow>
           if contains_sub (render txt vars) open_braces
           then Inl (what, Msg ''template left unresolved placeholders'' [])
           else Inr (render txt vars))))"

definition render_role_material ::
  "operator_value_spec \<Rightarrow> string \<Rightarrow> sts_config \<Rightarrow> tag list \<Rightarrow> string \<times> problem + string"
where
  "render_role_material spec what sts tags =
     render_operator_template spec what tags (map_option al_key (sc_allow sts))"

definition check_allow :: "allow_list option \<Rightarrow> tag list \<Rightarrow> (string \<times> string option \<times> problem) option" where
  "check_allow allow tags = (case allow of
     None \<Rightarrow> None
   | Some a \<Rightarrow> (case find_tag tags (al_key a) of
       None \<Rightarrow> Some (al_key a, None, did_not_resolve (al_key a))
     | Some t \<Rightarrow>
         if tg_value t \<in> set (al_values a) then None
         else Some (al_key a, Some (tg_value t),
           Msg ''value {} is not in the allow-list for {}'' [tg_value t, al_key a])))"

definition resolve_role_identity ::
  "sts_config \<Rightarrow> tag list \<Rightarrow> (string \<times> string option \<times> problem) + string \<times> string"
where
  "resolve_role_identity sts tags = (case check_allow (sc_allow sts) tags of
     Some e \<Rightarrow> Inl e
   | None \<Rightarrow> (case render_role_material (sc_role_arn sts) ''role_arn'' sts tags of
       Inl (k, r) \<Rightarrow> Inl (k, None, r)
     | Inr role_arn \<Rightarrow>
         if \<not> starts_with role_arn ''arn:'' \<or> \<not> contains_sub role_arn '':role/''
         then Inl (''role_arn'', None, Msg ''rendered role ARN {} is not an IAM role ARN'' [role_arn])
         else (case render_role_material (sc_session_name sts) ''session_name'' sts tags of
             Inl (k, r) \<Rightarrow> Inl (k, None, r)
           | Inr name \<Rightarrow> Inr (role_arn, sanitize_session_name name))))"

record resolved_injection =
  ri_headers :: "(string \<times> string) list"
  ri_body :: "resolved_body_field list"

fun inject_header_values ::
  "forced_header list \<Rightarrow> tag list \<Rightarrow> string \<times> problem + (string \<times> string) list"
where
  "inject_header_values [] tags = Inr []"
| "inject_header_values (h # hs) tags =
     (case render_operator_template (fh_value h) (fh_name h) tags None of
        Inl e \<Rightarrow> Inl e
      | Inr v \<Rightarrow> map_sum id (\<lambda>out. (to_ascii_lowercase (fh_name h), v) # out) (inject_header_values hs tags))"

fun inject_body_values ::
  "forced_body_field list \<Rightarrow> tag list \<Rightarrow> string \<times> problem + resolved_body_field list"
where
  "inject_body_values [] tags = Inr []"
| "inject_body_values (f # fs) tags =
     (case render_operator_template (bf_value f) (bf_path f) tags None of
        Inl e \<Rightarrow> Inl e
      | Inr v \<Rightarrow> map_sum id
          (\<lambda>out. \<lparr>rb_path = bf_path f, rb_value = v, rb_if_absent = bf_if_absent f\<rparr> # out)
          (inject_body_values fs tags))"

definition resolve_injection :: "injection \<Rightarrow> tag list \<Rightarrow> string \<times> problem + resolved_injection" where
  "resolve_injection inject tags = (case inject_header_values (ij_headers inject) tags of
     Inl e \<Rightarrow> Inl e
   | Inr hs \<Rightarrow> map_sum id (\<lambda>fs. \<lparr>ri_headers = hs, ri_body = fs\<rparr>) (inject_body_values (ij_body inject) tags))"

section \<open>Refusals and the response\<close>

text \<open>\<open>respond_rejection\<close>: the variables every body is rendered with, and the response.\<close>

definition rejection_vars :: "(string \<times> string) list \<Rightarrow> (string \<times> string) list" where
  "rejection_vars vars =
     (let a = (if ''cap'' \<in> set (map fst vars) then vars else vars @ [(''cap'', ''-'')])
      in if ''spend'' \<in> set (map fst a) then a else a @ [(''spend'', ''-'')])"

definition respond_rejection ::
  "rejection_template \<Rightarrow> (string \<times> string) list \<Rightarrow> 16 word \<times> (string \<times> string) list \<times> string"
where
  "respond_rejection t vars =
     (let body = render (rt_body t) (rejection_vars vars)
      in (rt_status t,
          [(''content-type'', rt_content_type t), (''content-length'', dec_of_nat (length body))],
          body))"

datatype tap_plan = Stream | JsonTerminal | Degraded string | NotApplicable string

definition decide_tap ::
  "16 word \<Rightarrow> string option \<Rightarrow> string option \<Rightarrow> provider_kind \<Rightarrow> tap_plan"
where
  "decide_tap status content_type content_encoding kind =
     (let coding = to_ascii_lowercase (trim (unwrap_or content_encoding ''identity''));
          ct = to_ascii_lowercase (trim (hd (split_char CHR '';'' (unwrap_or content_type []))));
          dialect_ct = (if kind = Bedrock then ''application/vnd.amazon.eventstream''
            else ''text/event-stream'')
      in if coding \<noteq> [] \<and> coding \<noteq> ''identity'' then
           Degraded ''content-coded body; metering degraded (docs/11 D2)''
         else if \<not> (200 \<le> status \<and> status < 300) then
           NotApplicable ''non-2xx response; unmetered error path''
         else if ct = dialect_ct then Stream
         else if ct = ''application/json'' then JsonTerminal
         else if ct = ''text/event-stream'' \<or> ct = ''application/vnd.amazon.eventstream'' then
           Degraded ''stream content-type does not match the dialect of the route''
         else NotApplicable ''content-type carries no in-band usage; metering absent'')"

section \<open>What the resolved values depend on\<close>

lemma find_tag_iff:
  "distinct (map tg_key tags) \<Longrightarrow> find_tag tags k = Some t \<longleftrightarrow> t \<in> set tags \<and> tg_key t = k"
proof (induction tags)
  case (Cons x xs)
  then show ?case by (auto simp: find_tag_def image_iff)
qed (simp add: find_tag_def)

lemma find_tag_resolve:
  "find_tag (rs_tags (resolve J p caller claims derived)) k =
     (if k \<in> key_universe p then
        map_option (\<lambda>(v, o'). \<lparr>tg_key = k, tg_value = v, tg_origin = o'\<rparr>) (resolve_key J p caller claims derived k)
      else None)"
proof -
  have "find_tag (rs_tags (resolve J p caller claims derived)) k = Some t \<longleftrightarrow>
    (if k \<in> key_universe p then
        map_option (\<lambda>(v, o'). \<lparr>tg_key = k, tg_value = v, tg_origin = o'\<rparr>) (resolve_key J p caller claims derived k)
      else None) = Some t" for t
    unfolding find_tag_iff [OF distinct_tag_keys] in_tags by (cases t) auto
  then show ?thesis by (metis not_None_eq)
qed

definition agree :: "tag list \<Rightarrow> tag list \<Rightarrow> string set \<Rightarrow> bool" where
  "agree tags tags' ks \<longleftrightarrow> (\<forall>k \<in> ks. find_tag tags k = find_tag tags' k)"

lemma agree_subset: "agree t t' ks \<Longrightarrow> ls \<subseteq> ks \<Longrightarrow> agree t t' ls"
  by (auto simp: agree_def)

lemma template_vars_cong: "agree t t' (set keys) \<Longrightarrow> template_vars keys t g = template_vars keys t' g"
  by (induction keys) (auto simp: agree_def split: option.split)

lemma render_operator_cong:
  "agree t t' (set (template_keys spec)) \<Longrightarrow>
     render_operator_template spec what t g = render_operator_template spec what t' g"
proof -
  assume a: "agree t t' (set (template_keys spec))"
  have "template_vars keys t g = template_vars keys t' g"
    if "as_template spec = Some src" "placeholders src = Inr keys" for src keys
    using a that by (intro template_vars_cong) (simp add: template_keys_def)
  then show ?thesis unfolding render_operator_template_def by (simp split: option.split sum.split)
qed

lemma session_tags_cong:
  "agree t t' (\<Union> (set_option ` sg_from_attribution ` set specs)) \<Longrightarrow>
     session_tags_of specs t = session_tags_of specs t'"
proof (induction specs)
  case (Cons spec specs)
  have "session_tag_value spec t = session_tag_value spec t'"
    using Cons.prems by (auto simp: session_tag_value_def agree_def split: option.splits)
  moreover have "session_tags_of specs t = session_tags_of specs t'"
    by (rule Cons.IH) (use Cons.prems in \<open>auto simp: agree_def\<close>)
  ultimately show ?case by (simp split: option.split sum.split)
qed simp

lemma inject_headers_cong:
  "agree t t' (\<Union> ((set \<circ> template_keys \<circ> fh_value) ` set hs)) \<Longrightarrow>
     inject_header_values hs t = inject_header_values hs t'"
proof (induction hs)
  case (Cons h hs)
  have "render_operator_template (fh_value h) w t None = render_operator_template (fh_value h) w t' None" for w
    by (rule render_operator_cong, rule agree_subset, rule Cons.prems) auto
  moreover have "inject_header_values hs t = inject_header_values hs t'"
    by (rule Cons.IH, rule agree_subset, rule Cons.prems) auto
  ultimately show ?case by (simp split: option.split sum.split)
qed simp

lemma inject_body_cong:
  "agree t t' (\<Union> ((set \<circ> template_keys \<circ> bf_value) ` set fs)) \<Longrightarrow>
     inject_body_values fs t = inject_body_values fs t'"
proof (induction fs)
  case (Cons f fs)
  have "render_operator_template (bf_value f) w t None = render_operator_template (bf_value f) w t' None" for w
    by (rule render_operator_cong, rule agree_subset, rule Cons.prems) auto
  moreover have "inject_body_values fs t = inject_body_values fs t'"
    by (rule Cons.IH, rule agree_subset, rule Cons.prems) auto
  ultimately show ?case by (simp split: option.split sum.split)
qed simp

lemma role_identity_cong:
  assumes "agree t t' (set (template_keys (sc_role_arn sts)) \<union> set (template_keys (sc_session_name sts)) \<union>
    al_key ` set_option (sc_allow sts))"
  shows "resolve_role_identity sts t = resolve_role_identity sts t'"
proof -
  have "render_role_material (sc_role_arn sts) w sts t = render_role_material (sc_role_arn sts) w sts t'"
    "render_role_material (sc_session_name sts) w sts t = render_role_material (sc_session_name sts) w sts t'" for w
    unfolding render_role_material_def by (rule render_operator_cong, rule agree_subset, rule assms, auto)+
  moreover have "check_allow (sc_allow sts) t = check_allow (sc_allow sts) t'"
    using assms by (auto simp: check_allow_def agree_def split: option.split)
  ultimately show ?thesis by (simp add: resolve_role_identity_def split: option.split sum.split)
qed

section \<open>The caller does not steer\<close>

lemma agree_established:
  "\<forall>k \<in> ks. established p k \<or> bt_get caller k = bt_get caller' k \<Longrightarrow>
     derived_value L p ctx = derived_value L p ctx' \<Longrightarrow>
     agree (rs_tags (resolve_policy L J p caller claims ctx)) (rs_tags (resolve_policy L J p caller' claims ctx')) ks"
proof -
  assume ks: "\<forall>k \<in> ks. established p k \<or> bt_get caller k = bt_get caller' k"
    and derived: "derived_value L p ctx = derived_value L p ctx'"
  have "resolve_key J p (bt_get caller) claims d k = resolve_key J p (bt_get caller') claims d k"
    if k: "k \<in> ks" for k d
  proof (cases "established p k")
    case True
    then show ?thesis by (rule resolve_key_ignores_caller)
  next
    case False
    then have "bt_get caller k = bt_get caller' k" using ks k by blast
    then show ?thesis by (simp add: resolve_key_def split: option.split)
  qed
  then show ?thesis unfolding agree_def resolve_policy_def find_tag_resolve derived by auto
qed

text \<open>An identity that resolves is one of the operator's: an IAM role, a name AWS takes, and
  a value of the closed set.\<close>

lemma role_identity_ok:
  assumes "resolve_role_identity sts tags = Inr (role, name)"
  shows "starts_with role ''arn:''" "contains_sub role '':role/''" "validate_session_name name = None"
    and "sc_allow sts = Some a \<Longrightarrow> \<exists>t. find_tag tags (al_key a) = Some t \<and> tg_value t \<in> set (al_values a)"
  using assms sanitize_valid
  by (auto simp: resolve_role_identity_def check_allow_def split: option.splits sum.splits if_splits)

text \<open>With what finalization checked, no refusal is left that blames the caller's origin.\<close>

lemma template_vars_gate:
  "template_vars keys tags g = Inr vars \<Longrightarrow> k \<in> set keys \<Longrightarrow>
     \<exists>t. find_tag tags k = Some t \<and> (tg_origin t = Caller \<longrightarrow> g = Some k) \<and> (k, tg_value t) \<in> set vars"
proof (induction keys arbitrary: vars)
  case (Cons x keys)
  from Cons.prems(1) obtain t where t: "find_tag tags x = Some t" "tg_origin t = Caller \<longrightarrow> g = Some x"
    by (auto split: option.splits if_splits)
  with Cons.prems(1) obtain vs where vs: "template_vars keys tags g = Inr vs" "vars = (x, tg_value t) # vs"
    by (cases "template_vars keys tags g") auto
  show ?case using Cons.IH [OF vs(1)] Cons.prems(2) t vs(2) by auto
qed simp

section \<open>End to end\<close>

lemma app_scope_policy:
  assumes "resolve_with_app_scope L K r apps caller claims ctx = Some (p, res)"
  obtains cr where "ru_compiled r = Some cr" "p \<in> insert (cr_effective cr) (snd ` set (cr_apps cr))"
    "res = resolve_policy L K p caller claims ctx"
proof -
  from assms obtain cr where cr: "ru_compiled r = Some cr"
    by (cases "ru_compiled r") (simp_all add: resolve_with_app_scope_def route_policy_def)
  have "p \<in> insert (cr_effective cr) (snd ` set (cr_apps cr)) \<and> res = resolve_policy L K p caller claims ctx"
    using assms cr by (force simp: resolve_with_app_scope_def route_policy_def route_app_policy_def Let_def
        dest: bt_get_in_set split: option.splits)
  then show thesis using that cr by blast
qed

lemma app_scope_accepted:
  assumes "finalize_config L J cfg = Inr cfg'" "config_wf cfg" "r \<in> set (cf_routes cfg')"
    and "resolve_with_app_scope L K r apps caller claims ctx = Some (p, res)"
  shows "accepted_policy cfg (bt_get (cf_providers cfg') (ru_provider r)) p"
    and "res = resolve_policy L K p caller claims ctx"
  using app_scope_policy [OF assms(4)] finalize_accepts [OF assms(1-3)] by (metis option.inject)+

lemma not_steered:
  assumes p: "accepted_policy cfg (Some pv) p"
    and res: "res = resolve_policy L K p caller claims ctx" "res' = resolve_policy L K p caller' claims ctx'"
    and derived: "derived_value L p ctx = derived_value L p ctx'"
  shows "pv_sts pv = Some sts \<Longrightarrow> resolve_session_tags sts (rs_tags res) = resolve_session_tags sts (rs_tags res')"
    and "pv_inject pv = Some ij \<Longrightarrow> resolve_injection ij (rs_tags res) = resolve_injection ij (rs_tags res')"
    and "pv_sts pv = Some sts \<Longrightarrow> \<forall>a \<in> set_option (sc_allow sts). bt_get caller (al_key a) = bt_get caller' (al_key a) \<Longrightarrow>
      resolve_role_identity sts (rs_tags res) = resolve_role_identity sts (rs_tags res')"
proof -
  note agreeI = agree_established [where caller = caller and caller' = caller' and p = p and L = L
      and J = K and claims = claims and ctx = ctx and ctx' = ctx', OF _ derived]
  show "resolve_session_tags sts (rs_tags res) = resolve_session_tags sts (rs_tags res')"
    if "pv_sts pv = Some sts"
    unfolding resolve_session_tags_def res
    by (rule session_tags_cong, rule agreeI) (use accepted_sts(1) [OF p that] in auto)
  show "resolve_injection ij (rs_tags res) = resolve_injection ij (rs_tags res')" if "pv_inject pv = Some ij"
  proof -
    have "inject_header_values (ij_headers ij) (rs_tags res) = inject_header_values (ij_headers ij) (rs_tags res')"
      unfolding res by (rule inject_headers_cong, rule agreeI) (use accepted_inject [OF p that] in auto)
    moreover have "inject_body_values (ij_body ij) (rs_tags res) = inject_body_values (ij_body ij) (rs_tags res')"
      unfolding res by (rule inject_body_cong, rule agreeI) (use accepted_inject [OF p that] in auto)
    ultimately show ?thesis by (simp add: resolve_injection_def split: sum.split)
  qed
  show "resolve_role_identity sts (rs_tags res) = resolve_role_identity sts (rs_tags res')"
    if sts: "pv_sts pv = Some sts"
      and same: "\<forall>a \<in> set_option (sc_allow sts). bt_get caller (al_key a) = bt_get caller' (al_key a)"
    unfolding res
  proof (rule role_identity_cong, rule agreeI, rule ballI)
    fix k assume "k \<in> set (template_keys (sc_role_arn sts)) \<union> set (template_keys (sc_session_name sts)) \<union>
      al_key ` set_option (sc_allow sts)"
    then have "established p k \<or> (\<exists>a \<in> set_option (sc_allow sts). al_key a = k)"
      using accepted_sts(2) [OF p sts, of k] by (auto simp: map_option_case split: option.splits)
    then show "established p k \<or> bt_get caller k = bt_get caller' k" using same by blast
  qed
qed

lemma render_operator_gate:
  assumes "render_operator_template spec what tags g = Inr out" "k \<in> set (template_keys spec)"
  shows "\<exists>t. find_tag tags k = Some t \<and> (tg_origin t = Caller \<longrightarrow> g = Some k)"
proof -
  from assms obtain src keys where "as_template spec = Some src" "placeholders src = Inr keys"
    by (auto simp: render_operator_template_def split: option.splits sum.splits)
  moreover from this assms obtain vars where "template_vars keys tags g = Inr vars"
    by (auto simp: render_operator_template_def split: sum.splits)
  ultimately show ?thesis using template_vars_gate assms(2) by (fastforce simp: template_keys_def)
qed

lemma role_identity_gate:
  assumes "resolve_role_identity sts tags = Inr (role, name)"
    and "k \<in> set (template_keys (sc_role_arn sts)) \<union> set (template_keys (sc_session_name sts))"
  shows "\<exists>t. find_tag tags k = Some t \<and>
    (tg_origin t = Caller \<longrightarrow> (\<exists>a. sc_allow sts = Some a \<and> al_key a = k \<and> tg_value t \<in> set (al_values a)))"
proof -
  let ?g = "map_option al_key (sc_allow sts)"
  from assms(1) obtain raw where
    "render_operator_template (sc_role_arn sts) ''role_arn'' tags ?g = Inr role"
    "render_operator_template (sc_session_name sts) ''session_name'' tags ?g = Inr raw"
    by (auto simp: resolve_role_identity_def render_role_material_def split: option.splits sum.splits if_splits)
  then obtain t where t: "find_tag tags k = Some t" "tg_origin t = Caller \<longrightarrow> ?g = Some k"
    using render_operator_gate assms(2) by (metis UnE)
  have "tg_value t \<in> set (al_values a)" if "sc_allow sts = Some a" "al_key a = k" for a
    using role_identity_ok(4) [OF assms(1) that(1)] t(1) that(2) by auto
  then show ?thesis using t by (auto simp: map_option_case split: option.splits)
qed

end
