(* ===== verification/Deployment.thy ===== *)
theory Deployment
  imports Adjudicate
begin

text \<open>
  A concrete deployment that \<open>finalize\<close> accepts, and the properties of the request path that
  rest on acceptance: what of a request can steer what the gateway signs or forces, and which
  token stands behind proven attribution.
\<close>

section \<open>A concrete deployment\<close>

text \<open>One Bedrock provider whose role is picked by the caller's team out of a closed set, and
  whose session tag and guardrail header come from a pinned cost center.\<close>

definition no_json :: json_lib where
  "no_json = \<lparr>jl_parse = (\<lambda>_. Inl []), jl_print = (\<lambda>_. []), jl_show_f64 = (\<lambda>_. [])\<rparr>"

definition sample_cel :: "(unit, unit) cel_lib" where
  "sample_cel = \<lparr>cl_compile = (\<lambda>_. Inl []), cl_expression = (\<lambda>_. Literal), cl_variables = (\<lambda>_. []),
     cl_to_value = (\<lambda>_. Inl []), cl_execute = (\<lambda>_ _. Inl []), cl_show_f64 = (\<lambda>_. [])\<rparr>"

definition sample_jwt :: "unit jwt_lib" where
  "sample_jwt = \<lparr>jw_json = no_json, jw_b64_decode = (\<lambda>_. None), jw_b64_encode = id,
     jw_hmac = (\<lambda>_ _. []), jw_rsa_key = (\<lambda>_ _. Inl []), jw_rsa_sig = (\<lambda>_. False),
     jw_rsa_verify = (\<lambda>_ _ _. False)\<rparr>"

definition sample_upstream :: upstream where
  "sample_upstream = \<lparr>up_host = ''127.0.0.1'', up_port = 6199, up_tls = False, up_sni = None\<rparr>"

definition sample_sts :: sts_config where
  "sample_sts = \<lparr>sc_endpoint = sample_upstream, sc_role_arn = Bare ''arn:aws:iam::1:role/gw-{{team}}'',
     sc_session_name = Bare ''gatewayd'', sc_region = ''us-east-1'', sc_duration_secs = 900,
     sc_tags = [\<lparr>sg_key = ''cc'', sg_value = None, sg_from_attribution = Some ''cost_center''\<rparr>],
     sc_allow = Some \<lparr>al_key = ''team'', al_values = [''ml'', ''web'']\<rparr>, sc_base = None\<rparr>"

definition sample_injection :: injection where
  "sample_injection = \<lparr>ij_headers = [\<lparr>fh_name = ''X-Guardrail'', fh_value = Bare ''g-{{cost_center}}''\<rparr>],
     ij_body = []\<rparr>"

definition sample_provider :: provider where
  "sample_provider = \<lparr>pv_kind = Bedrock, pv_upstream = sample_upstream, pv_inject = Some sample_injection,
     pv_auth = None, pv_locations = None, pv_sts = Some sample_sts\<rparr>"

definition sample_attribution :: attribution where
  "sample_attribution = \<lparr>at_required_keys = [''cost_center'', ''team''], at_headers = [(''team'', ''x-team'')],
     at_pinned = [(''cost_center'', ''research'')], at_from_claims = [], at_derived = [],
     at_spend_caps = [], at_models = None\<rparr>"

definition sample_rejection :: rejection_template where
  "sample_rejection = \<lparr>rt_status = 403, rt_content_type = ''text/plain'', rt_body = ''no {{route}}'',
     rt_streaming = None\<rparr>"

definition sample_route :: "unit route" where
  "sample_route = \<lparr>ru_prefix = ''/bedrock'', ru_provider = ''aws'', ru_project = None, ru_condition = None,
     ru_attribution = sample_attribution, ru_labels = [], ru_rejections = None, ru_compiled = None\<rparr>"

definition sample_config :: "(unit, unit) config" where
  "sample_config = \<lparr>cf_providers = [(''aws'', sample_provider)], cf_fleet = None, cf_projects = [],
     cf_routes = [sample_route], cf_apps = None,
     cf_rejections = \<lparr>rj_default_response = sample_rejection, rj_unknown_route = sample_rejection,
       rj_model_not_allowed = None, rj_value_not_allowed = None, rj_cap_exceeded = None\<rparr>,
     cf_auth = None, cf_telemetry = None, cf_alerts = None,
     cf_wasm = \<lparr>wc_modules = [], wc_per_event_hooks = False\<rparr>\<rparr>"

text \<open>Evaluation of the checks.\<close>

lemma sample_placeholders:
  "placeholders ''no {{route}}'' = Inr [''route'']"
  "placeholders ''arn:aws:iam::1:role/gw-{{team}}'' = Inr [''team'']"
  "placeholders ''gatewayd'' = Inr []"
  "placeholders ''g-{{cost_center}}'' = Inr [''cost_center'']"
  by code_simp+

lemma sample_keys:
  "check_key ''team'' c = []" "check_key ''cost_center'' c = []"
  by (simp_all add: check_key_def key_char_def is_ascii_lower_def is_ascii_digit_def)

lemma sample_names:
  "validate_session_name ''gatewayd'' = None" "validate_session_tag_key ''cc'' = None"
  "role_arn_shape ''arn:aws:iam::1:role/gw-{{team}}''"
  "\<not> live_aws ''127.0.0.1''" "\<not> contains_whitespace ''X-Guardrail''"
  "to_ascii_lowercase ''X-Guardrail'' = ''x-guardrail''"
  "to_ascii_lowercase ''x-team'' = ''x-team''" "list_all header_char ''x-team''"
  "''x-guardrail'' \<notin> set RESERVED_INJECT_HEADERS" "''x-team'' \<notin> set RESERVED_ATTR_HEADERS"
  by code_simp+

lemma sample_blank:
  "\<not> is_blank ''text/plain''" "\<not> is_blank ''127.0.0.1''" "\<not> is_blank ''aws''"
  "\<not> is_blank ''X-Guardrail''" "\<not> is_blank ''arn:aws:iam::1:role/gw-{{team}}''"
  "\<not> is_blank ''ml''" "\<not> is_blank ''web''"
  by (simp_all add: not_blank_ascii is_ascii_graphic_def)

lemmas sample_simps = sample_placeholders sample_keys sample_names sample_blank

lemma sample_rejections_ok: "validate_rejections (cf_rejections sample_config) c = []"
  by (simp add: sample_config_def sample_rejection_def validate_rejections_def opt_template_def
      validate_template_def check_placeholders_def sample_simps)

lemma sample_providers_ok: "validate_providers (cf_providers sample_config) = []"
  by (simp add: sample_config_def validate_providers_def validate_provider_def sample_provider_def
      sample_upstream_def validate_sts_def sample_sts_def Let_def validate_operator_value_def as_template_def
      check_role_arn_def check_session_name_def validate_allow_def validate_inject_def sample_injection_def
      sample_simps)

definition sample_policy :: "unit effective_policy" where
  "sample_policy = \<lparr>ep_required_keys = [''cost_center'', ''team''],
     ep_pinned = [(''cost_center'', ''research'')], ep_from_claims = [], ep_derived = [], ep_labels = [],
     ep_spend_caps = [], ep_models = None, ep_headers = [(''team'', ''x-team'')],
     ep_default_response = sample_rejection, ep_unknown_route = sample_rejection,
     ep_model_not_allowed = default_model_not_allowed, ep_value_not_allowed = None,
     ep_cap_exceeded = None\<rparr>"

definition sample_compiled :: "unit compiled_route" where
  "sample_compiled = \<lparr>cr_condition = None, cr_effective = sample_policy, cr_apps = []\<rparr>"

lemma sample_route_ok:
  "finalize_route sample_cel sample_config [] [] [] {} sample_route = (sample_compiled, [])"
  by (simp add: finalize_route_def sample_route_def Let_def condition_of_def project_of_def
      compile_route_layer_def compile_layer_def sample_attribution_def same_scope_errs_def
      spend_cap_errs_def model_errs_def BASE_MARKER_def sample_simps bt_keys_def
      compose_def final_labels_def best_depths_def label_step_def splice_required_def dedup_keep_first_def
      merge_maps_def lower_headers_def last_some_def last_or_def opt_or_def layer_origins_def origin_step_def
      sample_config_def starts_with_def policy_errs_def validate_attr_headers_def has_source_def established_def
      bt_contains_def sample_provider_def validate_effective_for_provider_def inject_ref_errs_def
      sample_injection_def key_ref_errs_def template_keys_def as_template_def key_universe_def sts_ref_errs_def
      sample_sts_def sample_compiled_def sample_policy_def unwrap_or_def
      enumerate_eq_zip header_char_def is_ascii_lower_def)

definition sample_final :: "(unit, unit) config" where
  "sample_final = sample_config\<lparr>cf_routes := [sample_route\<lparr>ru_compiled := Some sample_compiled\<rparr>]\<rparr>"

lemma sample_accepted: "finalize_config sample_cel sample_jwt sample_config = Inr sample_final"
proof -
  have "fleet_layers sample_cel sample_config = ([], [])" "project_layers sample_cel (cf_projects sample_config) = ([], [])"
    "apps_of sample_cel sample_config = ([], [])" "validate_auth sample_jwt (cf_auth sample_config) = []"
    "validate_telemetry (cf_telemetry sample_config) = []" "validate_alerts (cf_alerts sample_config) = []"
    "validate_wasm (cf_wasm sample_config) = []" "cf_routes sample_config = [sample_route]"
    "cf_auth sample_config = None"
    by (simp_all add: sample_config_def fleet_layers_def apps_of_def validate_auth_def validate_telemetry_def
        validate_alerts_def validate_wasm_def)
  then show ?thesis
    by (simp add: finalize_config_def sample_rejections_ok sample_providers_ok sample_route_ok Let_def
        sample_final_def)
qed

lemma sample_wf: "config_wf sample_config"
  by (simp add: config_wf_def sample_config_def sample_route_def attribution_wf_def sample_attribution_def bt_wf_def)

section \<open>The caller does not steer\<close>

text \<open>Property C13. In a configuration that \<open>finalize\<close> accepted, once the route, the policy and the
  verified claims of a request are settled its headers reach what the gateway signs and forces in
  two ways only: through the expressions the operator derives attribution from, and through the key
  a closed allow-list gates.  Two requests on a route and a path with the same verified claims,
  whatever their heads, that end up under the same policy and on which its derived expressions
  evaluate alike, carry the same session tags and the same forced headers and body fields; and they
  assume the same role under the same session name when they also agree on the allow-listed key.\<close>

theorem caller_does_not_steer:
  assumes "finalize_config L J cfg = Inr cfg'" "config_wf cfg" "r \<in> set (cf_routes cfg')"
    and "bt_get (cf_providers cfg') (ru_provider r) = Some pv"
    and "resolve_with_app_scope L K r (cf_apps cfg') (caller_attrs head names) claims
        (request_ctx head path claims) = Some (p, res)"
    and "resolve_with_app_scope L K r (cf_apps cfg') (caller_attrs head' names) claims
        (request_ctx head' path claims) = Some (p, res')"
    and "\<forall>(k, e) \<in> set (ep_derived p).
        eval_string L e (request_ctx head path claims) = eval_string L e (request_ctx head' path claims)"
  shows "(\<forall>ij. pv_inject pv = Some ij \<longrightarrow>
        resolve_injection ij (rs_tags res) = resolve_injection ij (rs_tags res')) \<and>
     (\<forall>sts. pv_sts pv = Some sts \<longrightarrow>
        resolve_session_tags sts (rs_tags res) = resolve_session_tags sts (rs_tags res') \<and>
        ((\<forall>a. sc_allow sts = Some a \<longrightarrow>
            bt_get (caller_attrs head names) (al_key a) = bt_get (caller_attrs head' names) (al_key a)) \<longrightarrow>
           resolve_role_identity sts (rs_tags res) = resolve_role_identity sts (rs_tags res')))"
proof -
  have p: "accepted_policy cfg (Some pv) p" using app_scope_accepted(1) [OF assms(1-3,5)] assms(4) by simp
  have "derived_value L p (request_ctx head path claims) = derived_value L p (request_ctx head' path claims)"
    using assms(7) by (auto simp: derived_value_def fun_eq_iff dest!: bt_get_in_set split: option.splits)
  note n = not_steered [OF p app_scope_accepted(2) [OF assms(1-3,5)] app_scope_accepted(2) [OF assms(1-3,6)] this]
  show ?thesis using n by auto
qed

definition sample_tags :: "string \<Rightarrow> tag list" where
  "sample_tags team =
     [\<lparr>tg_key = ''cost_center'', tg_value = ''research'', tg_origin = Assigned\<rparr>,
      \<lparr>tg_key = ''team'', tg_value = team, tg_origin = Caller\<rparr>]"

lemma sample_resolution:
  "team \<noteq> [] \<Longrightarrow> resolve_with_app_scope sample_cel no_json (sample_route\<lparr>ru_compiled := Some sample_compiled\<rparr>) None
     [(''team'', team)] None ctx = Some (sample_policy, \<lparr>rs_tags = sample_tags team, rs_missing = []\<rparr>)"
proof -
  have "policy_keys sample_policy = [''cost_center'', ''team'']"
    by code_simp
  then show "team \<noteq> [] \<Longrightarrow> ?thesis"
    by (simp add: resolve_with_app_scope_def route_policy_def sample_compiled_def resolve_policy_def resolve_def Let_def
      map_filter_simps resolve_key_def sample_policy_def bt_contains_def non_empty_def sample_tags_def)
qed

definition team_head :: "string \<Rightarrow> request_head" where
  "team_head team = \<lparr>rh_method = ''POST'', rh_headers = [(''x-team'', team)]\<rparr>"

lemma team_attrs: "caller_attrs (team_head ''ml'') [(''team'', ''x-team'')] = [(''team'', ''ml'')]"
  "caller_attrs (team_head ''web'') [(''team'', ''x-team'')] = [(''team'', ''web'')]"
  by code_simp+

theorem caller_does_not_steer_witness:
  "resolve_session_tags sample_sts (sample_tags ''ml'') = resolve_session_tags sample_sts (sample_tags ''web'') \<and>
   resolve_session_tags sample_sts (sample_tags ''ml'') = Some (Inr [(''cc'', ''research'')]) \<and>
   request_ctx (team_head ''ml'') ''/bedrock'' None \<noteq> request_ctx (team_head ''web'') ''/bedrock'' None"
proof -
  have eq: "ru_provider (sample_route\<lparr>ru_compiled := Some sample_compiled\<rparr>) = ''aws''"
    "cf_apps sample_final = None" "cf_providers sample_final = [(''aws'', sample_provider)]"
    "sample_route\<lparr>ru_compiled := Some sample_compiled\<rparr> \<in> set (cf_routes sample_final)"
    by (simp_all add: sample_route_def sample_final_def sample_config_def)
  have sts: "pv_sts sample_provider = Some sample_sts" by (simp add: sample_provider_def)
  note resolved = sample_resolution [of "''ml''", folded team_attrs] sample_resolution [of "''web''", folded team_attrs]
  have "resolve_session_tags sample_sts (sample_tags ''ml'') = resolve_session_tags sample_sts (sample_tags ''web'')"
    using caller_does_not_steer [OF sample_accepted sample_wf eq(4), unfolded eq(1-3), OF _ resolved,
        where pv = sample_provider and path = "''/bedrock''"] sts by (simp add: sample_policy_def)
  moreover have "resolve_session_tags sample_sts (sample_tags ''ml'') = Some (Inr [(''cc'', ''research'')])"
    by code_simp
  moreover have "ec_headers (request_ctx (team_head ''ml'') ''/bedrock'' None) \<noteq>
      ec_headers (request_ctx (team_head ''web'') ''/bedrock'' None)" by code_simp
  ultimately show ?thesis by auto
qed

text \<open>Property C10. A role the gateway assumes for a request is the operator's: an IAM role ARN under
  a session name AWS accepts, rendered only from keys the gateway established, or from the
  caller's choice of a value inside the closed set of the allow-list; a caller-asserted value
  outside the set never yields credentials.\<close>

theorem assumed_role_is_the_operators:
  assumes "resolve_role_identity sts tags = Inr (role, name)"
  shows "starts_with role ''arn:'' \<and> contains_sub role '':role/'' \<and> validate_session_name name = None \<and>
     (\<forall>a. sc_allow sts = Some a \<longrightarrow> (\<exists>v \<in> set (al_values a). map_option tg_value (find_tag tags (al_key a)) = Some v)) \<and>
     (\<forall>k \<in> set (template_keys (sc_role_arn sts)) \<union> set (template_keys (sc_session_name sts)).
        \<exists>t. find_tag tags k = Some t \<and>
          (tg_origin t = Caller \<longrightarrow>
             (\<exists>a. sc_allow sts = Some a \<and> al_key a = k \<and> tg_value t \<in> set (al_values a))))"
  using role_identity_ok [OF assms] role_identity_gate [OF assms] by fastforce

lemma sample_role: "resolve_role_identity sample_sts (sample_tags ''ml'') = Inr (''arn:aws:iam::1:role/gw-ml'', ''gatewayd'')"
  by code_simp

theorem assumed_role_is_the_operators_witness:
  "validate_session_name ''gatewayd'' = None \<and>
   map_option tg_value (find_tag (sample_tags ''ml'') ''team'') \<in> Some ` {''ml'', ''web''} \<and>
   resolve_role_identity sample_sts (sample_tags ''intruder'') =
     Inl (''team'', Some ''intruder'', Msg ''value {} is not in the allow-list for {}'' [''intruder'', ''team''])"
proof -
  note r = assumed_role_is_the_operators [OF sample_role]
  have "sc_allow sample_sts = Some \<lparr>al_key = ''team'', al_values = [''ml'', ''web'']\<rparr>"
    by (simp add: sample_sts_def)
  then show ?thesis using r by (auto simp: resolve_role_identity_def check_allow_def find_tag_def sample_tags_def)
qed

section \<open>Proven attribution\<close>

text \<open>The configured issuer vouches for the claims through the token: the token is a header, a
  payload and a signature; the payload is the object of the claims and has not expired; and the
  signature over header and payload is made under the algorithm the operator configured, with the
  shared secret or with a key of the operator's key set, the one the header names when the set
  has it.\<close>

definition vouched :: "'k jwt_lib \<Rightarrow> 'k jwt_auth \<Rightarrow> string \<Rightarrow> u64 \<Rightarrow> claims \<Rightarrow> bool" where
  "vouched J auth token now claims \<longleftrightarrow> (\<exists>h p s sig header.
     token = h @ [dot] @ p @ [dot] @ s \<and> jw_b64_decode J s = Some sig \<and>
     decode_json J h ''header'' = Inr header \<and> decode_json J p ''payload'' = Inr (JObject claims) \<and>
     (\<forall>expiry. Option.bind (bt_get claims ''exp'') as_u64 = Some expiry \<longrightarrow> now \<le> expiry) \<and>
     (case ja_hs256_secret auth of
        Some secret \<Rightarrow> as_str (j_field header ''alg'') = Some ''HS256'' \<and> sig = jw_hmac J secret (h @ [dot] @ p)
      | None \<Rightarrow> as_str (j_field header ''alg'') = Some ''RS256'' \<and> jw_rsa_sig J sig \<and>
          (\<exists>jwks key. ja_compiled_jwks auth = Some jwks \<and> key \<in> snd ` set (jk_keys jwks) \<and>
             jw_rsa_verify J key (h @ [dot] @ p) sig \<and>
             (\<forall>kid k. as_str (j_field header ''kid'') = Some kid \<and> (Some kid, k) \<in> set (jk_keys jwks) \<longrightarrow>
                (Some kid, key) \<in> set (jk_keys jwks)))))"

lemma verified_claims_vouched:
  assumes "verified_claims J cfg head now = Some claims"
  obtains auth raw token where "cf_auth cfg = Some auth" "header_str head (ja_header auth) = Some raw"
    "bearer_token raw = Some token" "vouched J auth token now claims"
proof -
  from assms obtain auth raw token where a: "cf_auth cfg = Some auth" "header_str head (ja_header auth) = Some raw"
    "bearer_token raw = Some token"
    by (auto simp: verified_claims_def bind_eq_Some_conv split: option.splits)
  have "vouched J auth token now claims"
  proof (cases "ja_hs256_secret auth")
    case (Some secret)
    then have "verify_hs256 J token secret now = Inr claims"
      using assms a by (auto simp: verified_claims_def split: sum.splits)
    then show ?thesis using Some read_claims_payload
      by (elim verified_hs256) (fastforce simp: vouched_def)
  next
    case None
    then obtain jwks where jwks: "ja_compiled_jwks auth = Some jwks" "verify_rs256 J token jwks now = Inr claims"
      using assms a by (auto simp: verified_claims_def split: sum.splits option.splits)
    from jwks(2) show ?thesis
    proof (elim verified_rs256)
      fix h p s sig header key
      assume t: "token = h @ [dot] @ p @ [dot] @ s" "jw_b64_decode J s = Some sig"
        "decode_json J h ''header'' = Inr header" "as_str (j_field header ''alg'') = Some ''RS256''"
        "key \<in> set (candidates jwks (as_str (j_field header ''kid'')))" "jw_rsa_sig J sig"
        "jw_rsa_verify J key (h @ [dot] @ p) sig" "read_claims J p now = Inr claims"
      note k = candidates_of_kid [OF t(5)] and c = read_claims_payload [OF t(8)]
      show ?thesis
        unfolding vouched_def None option.case
        using t(1-4,6,7) k c jwks(1) by blast
    qed
  qed
  with a that show thesis by blast
qed

text \<open>Property C18. A tag whose origin the gateway reports as proven carries a claim of a token the
  operator's issuer vouches for: there is a bearer token in the configured header, it is signed
  under the configured algorithm and key, an expiry it states as an unsigned integer has not
  passed, and the tag's value is the string of
  the claim that the request's policy maps to the tag's key.  Without such a token no tag is
  proven.\<close>

theorem proven_tags_are_vouched:
  assumes "resolve_with_app_scope L K r apps caller (verified_claims J cfg head now) ctx = Some (policy, res)"
    and "t \<in> set (rs_tags res)" "tg_origin t = Proven"
  shows "\<exists>auth raw token claims claim v.
     cf_auth cfg = Some auth \<and> header_str head (ja_header auth) = Some raw \<and> bearer_token raw = Some token \<and>
     vouched J auth token now claims \<and> bt_get (ep_from_claims policy) (tg_key t) = Some claim \<and>
     bt_get claims claim = Some v \<and> claim_string K v = Some (tg_value t)"
proof -
  have "res = resolve_policy L K policy caller (verified_claims J cfg head now) ctx"
    using app_scope_policy [OF assms(1)] by blast
  then have "resolve_key K policy (bt_get caller) (verified_claims J cfg head now) (derived_value L policy ctx) (tg_key t) =
      Some (tg_value t, Proven)"
    using assms(2,3) by (simp add: resolve_policy_def in_tags)
  then obtain claims claim v where c: "verified_claims J cfg head now = Some claims"
    "bt_get (ep_from_claims policy) (tg_key t) = Some claim" "bt_get claims claim = Some v"
    "claim_string K v = Some (tg_value t)"
    by (auto simp: resolve_key_def bind_eq_Some_conv split: option.splits if_splits)
  from verified_claims_vouched [OF c(1)] c(2-4) show ?thesis by metis
qed

text \<open>A route that takes the team from a token, and a token of three letters.\<close>

definition token_jwt :: "unit jwt_lib" where
  "token_jwt = sample_jwt\<lparr>jw_json := \<lparr>jl_parse = (\<lambda>s.
         if s = ''h'' then Inr (JObject [(''alg'', JString ''HS256'')])
         else if s = ''c'' then Inr (JObject [(''exp'', JNumber (PosInt 10)), (''team'', JString ''ml'')])
         else Inl []), jl_print = (\<lambda>_. []), jl_show_f64 = (\<lambda>_. [])\<rparr>,
     jw_b64_decode := Some, jw_hmac := (\<lambda>k m. k @ [last m])\<rparr>"

definition token_config :: "(unit, unit) config" where
  "token_config = sample_config\<lparr>cf_auth := Some \<lparr>ja_hs256_secret = Some ''k'', ja_jwks = None,
     ja_header = ''authorization'', ja_compiled_jwks = None\<rparr>\<rparr>"

definition token_head :: "string \<Rightarrow> request_head" where
  "token_head sig = \<lparr>rh_method = ''POST'', rh_headers = [(''authorization'', ''Bearer h.c.'' @ sig)]\<rparr>"

definition token_route :: "unit route" where
  "token_route = sample_route\<lparr>ru_compiled := Some \<lparr>cr_condition = None,
     cr_effective = sample_policy\<lparr>ep_from_claims := [(''team'', ''team'')]\<rparr>, cr_apps = []\<rparr>\<rparr>"

definition token_tag :: tag where
  "token_tag = \<lparr>tg_key = ''team'', tg_value = ''ml'', tg_origin = Proven\<rparr>"

lemma token_resolves:
  "case resolve_with_app_scope sample_cel no_json token_route None [] (verified_claims token_jwt token_config (token_head ''kc'') 5)
      (request_ctx (token_head ''kc'') ''/bedrock'' None) of
     Some (policy, res) \<Rightarrow> token_tag \<in> set (rs_tags res) | None \<Rightarrow> False"
  "verified_claims token_jwt token_config (token_head ''kx'') 5 = None"
  "verified_claims token_jwt token_config (token_head ''kc'') 11 = None"
  by code_simp+

theorem proven_tags_are_vouched_witness:
  "(\<exists>auth claims. cf_auth token_config = Some auth \<and> vouched token_jwt auth ''h.c.kc'' 5 claims) \<and>
   verified_claims token_jwt token_config (token_head ''kx'') 5 = None"
proof -
  obtain policy res where "resolve_with_app_scope sample_cel no_json token_route None []
      (verified_claims token_jwt token_config (token_head ''kc'') 5) (request_ctx (token_head ''kc'') ''/bedrock'' None) =
      Some (policy, res)" "token_tag \<in> set (rs_tags res)"
    using token_resolves(1) by (auto split: option.splits)
  from proven_tags_are_vouched [OF this] obtain auth raw token claims where
    t: "cf_auth token_config = Some auth" "header_str (token_head ''kc'') (ja_header auth) = Some raw"
    "bearer_token raw = Some token" "vouched token_jwt auth token 5 claims"
    by (auto simp: token_tag_def)
  have "Option.bind (header_str (token_head ''kc'') ''authorization'') bearer_token = Some ''h.c.kc''" by code_simp
  moreover have "ja_header auth = ''authorization''" using t(1) by (auto simp: token_config_def)
  ultimately have "token = ''h.c.kc''" using t(2,3) by simp
  with t(1,4) token_resolves(2) show ?thesis by blast
qed

text \<open>Property C14. Every policy of a configuration that \<open>finalize\<close> accepted, route or app, gives
  each key at most one origin (pinned, claim-mapped or derived) across the whole chain of
  scopes, and has a source for every key it requires.\<close>

theorem accepted_policies_are_sound:
  assumes "finalize_config L J cfg = Inr cfg'" "config_wf cfg" "r \<in> set (cf_routes cfg')"
  shows "\<exists>cr. ru_compiled r = Some cr \<and>
     (\<forall>p \<in> insert (cr_effective cr) (snd ` set (cr_apps cr)).
        (\<forall>k kind1 kind2. origin_of p kind1 k \<and> origin_of p kind2 k \<longrightarrow> kind1 = kind2) \<and>
        (\<forall>k \<in> set (ep_required_keys p). has_source p k))"
proof -
  from finalize_accepts [OF assms] obtain cr where cr: "ru_compiled r = Some cr"
    "\<forall>p \<in> insert (cr_effective cr) (snd ` set (cr_apps cr)).
       accepted_policy cfg (bt_get (cf_providers cfg') (ru_provider r)) p" by blast
  then show ?thesis using accepted_origins accepted_required by blast
qed

theorem accepted_policies_are_sound_witness:
  "has_source sample_policy ''team'' \<and> has_source sample_policy ''cost_center''"
proof -
  have "sample_route\<lparr>ru_compiled := Some sample_compiled\<rparr> \<in> set (cf_routes sample_final)"
    by (simp add: sample_final_def)
  from accepted_policies_are_sound [OF sample_accepted sample_wf this] show ?thesis
    by (simp add: sample_compiled_def) (simp add: sample_policy_def)
qed

end
