(* ===== verification/Admission.thy ===== *)
theory Admission
  imports Render Deployment Telemetry
begin

text \<open>
  \<open>gatewayctl/src/admission.rs\<close>: the rules a candidate configuration passes before it can be rolled
  out.  The renderer's environment, the reader of the configuration, the reading of a document as
  JSON and the CEL interpreter of the operator's rules are the parameter \<open>admission_env\<close>.  A rule
  failure names its rule; its detail keeps what the text is made of.  Lemmas: which directives the
  scan for templating lets through, and what every configuration of an admitted repository keeps.
\<close>

section \<open>Verdicts\<close>

definition DEFAULT_OVERRIDE_FACTOR :: f64 where
  "DEFAULT_OVERRIDE_FACTOR = FFin 4"

definition OVERRIDE_JUSTIFICATION_LABEL :: string where
  "OVERRIDE_JUSTIFICATION_LABEL = ''override-approved''"

datatype failure_detail =
    NoAttributionKeys string
  | EmptyBody string
  | TemplatingDirective string
  | OverFactor string string f64 f64 f64
  | UnsignedModule string
  | RuleSaysNo string
  | RuleNotBool string cel_value
  | RuleEvalError string string
  | RuleDoesNotCompile string string
  | RuleContextError string
  | CanaryInvalid canary_policy_error
  | CanaryNotUtf8
  | ViaSet string failure_detail

record rule_failure =
  rf_rule :: string
  rf_detail :: failure_detail

datatype admission_verdict = Admit | Block "rule_failure list"

definition is_admitted :: "admission_verdict \<Rightarrow> bool" where
  "is_admitted v \<longleftrightarrow> (case v of Admit \<Rightarrow> True | Block _ \<Rightarrow> False)"

definition verdict_failures :: "admission_verdict \<Rightarrow> rule_failure list" where
  "verdict_failures v = (case v of Admit \<Rightarrow> [] | Block fs \<Rightarrow> fs)"

definition verdict_of :: "rule_failure list \<Rightarrow> admission_verdict" where
  "verdict_of fs = (if fs = [] then Admit else Block fs)"

record cel_rule =
  cu_id :: string
  cu_expr :: string
  cu_message :: string

record admission_policy =
  ay_cel_rules :: "cel_rule list"
  ay_override_factor :: "f64 option"

definition with_cel_rule :: "string \<Rightarrow> string \<Rightarrow> string \<Rightarrow> admission_policy \<Rightarrow> admission_policy" where
  "with_cel_rule i expr message p =
     p\<lparr>ay_cel_rules := ay_cel_rules p @ [\<lparr>cu_id = i, cu_expr = expr, cu_message = message\<rparr>]\<rparr>"

definition override_factor :: "admission_policy \<Rightarrow> f64" where
  "override_factor p = unwrap_or (ay_override_factor p) DEFAULT_OVERRIDE_FACTOR"

section \<open>The built-in rules\<close>

text \<open>\<open>route.policy()\<close> panics on a route that was never finalized: the outer \<open>None\<close>.\<close>

fun attribution_keys_present :: "'p route list \<Rightarrow> rule_failure list option" where
  "attribution_keys_present [] = Some []"
| "attribution_keys_present (r # rs) = (case route_policy r of
     None \<Rightarrow> None
   | Some p \<Rightarrow> map_option (\<lambda>fs.
       if ep_required_keys p = [] then \<lparr>rf_rule = ''GB-1'', rf_detail = NoAttributionKeys (ru_prefix r)\<rparr> # fs else fs)
       (attribution_keys_present rs))"

definition empty_body :: "string \<Rightarrow> rejection_template \<Rightarrow> rule_failure list" where
  "empty_body which t =
     (if is_blank (rt_body t) then [\<lparr>rf_rule = ''GB-4'', rf_detail = EmptyBody which\<rparr>] else [])"

definition rejection_templates_present :: "('p, 'k) config \<Rightarrow> rule_failure list" where
  "rejection_templates_present cfg =
     empty_body ''default_response'' (rj_default_response (cf_rejections cfg)) @
     empty_body ''unknown_route'' (rj_unknown_route (cf_rejections cfg))"

function trim_start_braces :: "string \<Rightarrow> string" where
  "trim_start_braces s = (if starts_with s open_braces then trim_start_braces (drop (length open_braces) s) else s)"
  by pat_completeness auto

termination
  by (relation "measure length") (auto simp: starts_with_iff)

declare trim_start_braces.simps [simp del]

function trim_end_braces :: "string \<Rightarrow> string" where
  "trim_end_braces s = (if ends_with s close_braces then trim_end_braces (take (length s - length close_braces) s) else s)"
  by pat_completeness auto

termination
  by (relation "measure length") (auto simp: ends_with_def)

declare trim_end_braces.simps [simp del]

definition ALLOWED :: "string list" where
  "ALLOWED = [''{{key}}'', ''{{route}}'']"

text \<open>What a directive that starts the text is, and where it ends.\<close>

definition directive_end :: "string \<Rightarrow> nat" where
  "directive_end s = (case find_sub close_braces s of Some e \<Rightarrow> e + 2 | None \<Rightarrow> length s)"

definition normalized_directive :: "string \<Rightarrow> string" where
  "normalized_directive d = open_braces @ trim (trim_end_braces (trim_start_braces d)) @ close_braces"

function no_forbidden_construct :: "string \<Rightarrow> rule_failure list" where
  "no_forbidden_construct rest = (case find_sub open_braces rest of
     None \<Rightarrow> []
   | Some pos \<Rightarrow>
       (let after = drop pos rest; e = directive_end after; directive = take e after in
        if normalized_directive directive \<notin> set ALLOWED
        then [\<lparr>rf_rule = ''no-forbidden-construct'', rf_detail = TemplatingDirective directive\<rparr>]
        else no_forbidden_construct (drop e after)))"
  by pat_completeness auto

termination
  by (relation "measure length")
    (auto simp: directive_end_def split: option.splits dest!: find_sub_Some)

declare no_forbidden_construct.simps [simp del]

definition fleet_numeric_pins :: "('p, 'k) config \<Rightarrow> (string, f64) btree" where
  "fleet_numeric_pins cfg = (case cf_fleet cfg of
     None \<Rightarrow> []
   | Some fleet \<Rightarrow> fold (\<lambda>(k, v) out. case parse_f64 v of Some n \<Rightarrow> bt_insert k n out | None \<Rightarrow> out)
       (at_pinned (so_attribution fleet)) [])"

definition scope_has_label :: "scope \<Rightarrow> string \<Rightarrow> bool" where
  "scope_has_label s key = list_ex (\<lambda>l. case l of LSpec spec \<Rightarrow> ls_key spec = key | LBase _ \<Rightarrow> False) (so_labels s)"

definition pin_over_factor ::
  "(string, f64) btree \<Rightarrow> f64 \<Rightarrow> bool \<Rightarrow> string \<Rightarrow> string \<times> string \<Rightarrow> rule_failure list"
where
  "pin_over_factor baseline factor has_label app = (\<lambda>(key, raw).
     case (parse_f64 raw, bt_get baseline key) of
       (Some new_val, Some base) \<Rightarrow>
         if f_lt (FFin 0) base \<and> f_lt (f_mul base factor) new_val \<and> \<not> has_label
         then [\<lparr>rf_rule = ''override-factor'', rf_detail = OverFactor app key new_val factor base\<rparr>] else []
     | _ \<Rightarrow> [])"

definition override_governance :: "('p, 'k) config \<Rightarrow> f64 \<Rightarrow> rule_failure list" where
  "override_governance cfg factor = (case cf_apps cfg of
     None \<Rightarrow> []
   | Some apps \<Rightarrow> concat (map (\<lambda>(app, s).
       concat (map (pin_over_factor (fleet_numeric_pins cfg) factor
         (scope_has_label s OVERRIDE_JUSTIFICATION_LABEL) app) (at_pinned (so_attribution s))))
       (ap_overrides apps)))"

definition module_signed :: "wasm_module \<Rightarrow> bool" where
  "module_signed m \<longleftrightarrow> (case wm_signature m of Some s \<Rightarrow> \<not> is_blank s | None \<Rightarrow> False)"

definition no_unsigned_wasm_module :: "('p, 'k) config \<Rightarrow> rule_failure list" where
  "no_unsigned_wasm_module cfg = map (\<lambda>m. \<lparr>rf_rule = ''no-unsigned-wasm-module'', rf_detail = UnsignedModule (wm_name m)\<rparr>)
     (filter (\<lambda>m. \<not> module_signed m) (wc_modules (cf_wasm cfg)))"

section \<open>The candidate and the rules of the operator\<close>

record ('p, 'v, 'k) admission_env =
  ad_render :: render_env
  ad_cel :: "('p, 'v) cel_lib"
  ad_jwt :: "'k jwt_lib"
  ad_reader :: "string \<Rightarrow> string + ('p, 'k) config"
  ad_show :: "config_error \<Rightarrow> string"
  ad_json :: "string \<Rightarrow> string + json"
  ad_rules :: "('p, 'v) cel_lib"

definition candidate_of :: "('p, 'v, 'k) admission_env \<Rightarrow> string \<Rightarrow> config_error + ('p, 'k) config" where
  "candidate_of A flat = from_yaml (ad_cel A) (ad_jwt A) (ad_reader A) flat"

text \<open>The renderer validates a flat document with the same reader.\<close>

definition renderer_of :: "('p, 'v, 'k) admission_env \<Rightarrow> render_env" where
  "renderer_of A = (ad_render A)\<lparr>re_from_yaml := (\<lambda>flat. case candidate_of A flat of
     Inl e \<Rightarrow> Some (ad_show A e) | Inr _ \<Rightarrow> None)\<rparr>"

definition parse_rendered :: "('p, 'v, 'k) admission_env \<Rightarrow> string \<Rightarrow> render_error + ('p, 'k) config" where
  "parse_rendered A bytes =
     (if \<not> is_utf8 bytes then Inl (NotUtf8 ''rendered config'')
      else (case candidate_of A bytes of Inl e \<Rightarrow> Inl (InvalidConfig (ad_show A e)) | Inr cfg \<Rightarrow> Inr cfg))"

definition candidate_to_json :: "('p, 'v, 'k) admission_env \<Rightarrow> string \<Rightarrow> json" where
  "candidate_to_json A flat = (case ad_json A flat of Inr v \<Rightarrow> v | Inl _ \<Rightarrow> JObject [])"

definition eval_cel_rule :: "('p, 'v) cel_lib \<Rightarrow> cel_rule \<Rightarrow> json \<Rightarrow> rule_failure option" where
  "eval_cel_rule R rule doc =
     (let fail = (\<lambda>d. Some \<lparr>rf_rule = cu_id rule, rf_detail = d\<rparr>) in
      case cl_compile R (cu_expr rule) of
        Inl e \<Rightarrow> fail (RuleDoesNotCompile e (cu_expr rule))
      | Inr program \<Rightarrow>
          (case cl_to_value R doc of
             Inl e \<Rightarrow> fail (RuleContextError e)
           | Inr v \<Rightarrow>
               (case cl_execute R program [(''config'', v)] of
                  Inr (CBool b) \<Rightarrow> if b then None else fail (RuleSaysNo (cu_message rule))
                | Inr other \<Rightarrow> fail (RuleNotBool (cu_message rule) other)
                | Inl e \<Rightarrow> fail (RuleEvalError (cu_message rule) e))))"

text \<open>\<open>admit_yaml\<close>: the outer \<open>None\<close> is a panic.\<close>

definition admit_yaml ::
  "('p, 'v, 'k) admission_env \<Rightarrow> admission_policy \<Rightarrow> string \<Rightarrow> (render_error + admission_verdict) option"
where
  "admit_yaml A policy flat = (case parse_rendered A flat of
     Inl e \<Rightarrow> Some (Inl e)
   | Inr cfg \<Rightarrow> map_option (\<lambda>fs. Inr (verdict_of (fs @
       rejection_templates_present cfg @ no_forbidden_construct flat @
       override_governance cfg (override_factor policy) @ no_unsigned_wasm_module cfg @
       List.map_filter (\<lambda>rule. eval_cel_rule (ad_rules A) rule (candidate_to_json A flat)) (ay_cel_rules policy))))
       (attribution_keys_present (cf_routes cfg)))"

section \<open>A repository\<close>

definition representative_labels :: "selector \<Rightarrow> labels" where
  "representative_labels sel = fold (\<lambda>t ls. case st_in_values t of
     [] \<Rightarrow> ls | v # _ \<Rightarrow> bt_insert (st_label t) v ls) (sel_terms sel) []"

definition admit_rendered ::
  "('p, 'v, 'k) admission_env \<Rightarrow> admission_policy \<Rightarrow> render_error + rendered \<Rightarrow>
   (render_error + rule_failure list) option"
where
  "admit_rendered A policy r = (case r of
     Inl e \<Rightarrow> Some (Inl e)
   | Inr rendered \<Rightarrow>
       if \<not> is_utf8 (rn_config_bytes rendered) then Some (Inl (NotUtf8 ''rendered config''))
       else map_option (map_sum id verdict_failures) (admit_yaml A policy (rn_config_bytes rendered)))"

text \<open>The stamped variant of every GatewaySet, each under its own representative labels.\<close>

fun admit_sets ::
  "('p, 'v, 'k) admission_env \<Rightarrow> admission_policy \<Rightarrow> resolved_repo \<Rightarrow> gateway_sets \<Rightarrow> gateway_set list \<Rightarrow>
   (render_error + rule_failure list) option"
where
  "admit_sets A policy repo sets [] = Some (Inr [])"
| "admit_sets A policy repo sets (g # gs) =
     (case admit_rendered A policy (render_resolved_for_node (renderer_of A) repo sets
         (representative_labels (gs_selector g))) of
        None \<Rightarrow> None
      | Some (Inl e) \<Rightarrow> Some (Inl e)
      | Some (Inr fs) \<Rightarrow> map_option
          (map_sum id (append (map (\<lambda>f. f\<lparr>rf_detail := ViaSet (gs_name g) (rf_detail f)\<rparr>) fs)))
          (admit_sets A policy repo sets gs))"

definition canary_failures :: "render_env \<Rightarrow> resolved_repo \<Rightarrow> rule_failure list" where
  "canary_failures E repo = (case rr_get repo ''canary.yaml'' of
     None \<Rightarrow> []
   | Some bytes \<Rightarrow>
       if \<not> is_utf8 bytes then [\<lparr>rf_rule = ''canary-policy'', rf_detail = CanaryNotUtf8\<rparr>]
       else (case parse_canary_policy (re_canary_reader E) bytes of
               Inl e \<Rightarrow> [\<lparr>rf_rule = ''canary-policy'', rf_detail = CanaryInvalid e\<rparr>]
             | Inr _ \<Rightarrow> []))"

definition admit_resolved ::
  "('p, 'v, 'k) admission_env \<Rightarrow> admission_policy \<Rightarrow> resolved_repo \<Rightarrow>
   (render_error + admission_verdict) option"
where
  "admit_resolved A policy repo =
     (case admit_rendered A policy (render_resolved (renderer_of A) repo) of
        None \<Rightarrow> None
      | Some (Inl e) \<Rightarrow> Some (Inl e)
      | Some (Inr fs) \<Rightarrow> (case read_gatewaysets (renderer_of A) repo of
          Inl e \<Rightarrow> Some (Inl e)
        | Inr sets \<Rightarrow> map_option
            (map_sum id (\<lambda>fs'. verdict_of (fs @ fs' @ canary_failures (renderer_of A) repo)))
            (admit_sets A policy repo sets sets)))"

text \<open>\<open>admit_source\<close>: a directory or a commit is resolved first.\<close>

definition admit_source ::
  "('p, 'v, 'k) admission_env \<Rightarrow> admission_policy \<Rightarrow> string + resolved_repo \<Rightarrow>
   (string + render_error + admission_verdict) option"
where
  "admit_source A policy source = (case source of
     Inl e \<Rightarrow> Some (Inl e)
   | Inr repo \<Rightarrow> map_option Inr (admit_resolved A policy repo))"
section \<open>What the scan for templating lets through\<close>

lemma find_sub_least: "find_sub p s = Some n \<Longrightarrow> s = a @ p @ b \<Longrightarrow> n \<le> length a"
proof (induction a arbitrary: s n)
  case Nil
  then show ?case by (simp only: append_Nil find_sub_here option.inject)
next
  case (Cons x a)
  then show ?case by (auto split: if_splits)
qed

lemma find_sub_exists: "find_sub p (a @ p @ b) \<noteq> None"
  using find_sub_None [of p "a @ p @ b"] find_sub_here [of "[]" "a @ b"] by (cases "p = []") auto

lemma strip_one_keeps: "c \<notin> set (concat ps) \<Longrightarrow> c \<in> set s \<Longrightarrow> c \<in> set (strip_one ps s)"
proof (induction ps s rule: strip_one.induct)
  case (2 p ps s)
  show ?case
  proof (cases "take (length p) s = p")
    case True
    then have "s = p @ drop (length p) s" by (metis append_take_drop_id)
    then have "c \<in> set p \<or> c \<in> set (drop (length p) s)" using 2 by (metis Un_iff set_append)
    then show ?thesis using 2 True by auto
  qed (use 2 in auto)
qed simp

lemma strip_all_keeps: "c \<notin> set (concat ps) \<Longrightarrow> c \<in> set s \<Longrightarrow> c \<in> set (strip_all ps s)"
proof (induction ps s rule: strip_all.induct)
  case (1 ps s)
  then show ?case
    by (subst strip_all.simps) (auto simp: Let_def strip_one_keeps)
qed

lemma brace_not_white: "CHR ''{'' \<notin> set (concat whitespace_seqs)"
  by code_simp

lemma trim_keeps_brace: "CHR ''{'' \<in> set s \<Longrightarrow> CHR ''{'' \<in> set (trim s)"
  using brace_not_white by (simp add: trim_def trim_start_def trim_end_def strip_all_keeps)

text \<open>The trims of a directive stop at a name without braces.\<close>

lemma trim_start_at_name:
  assumes "CHR ''{'' \<notin> set n" "z = [] \<or> last z = CHR ''{''"
  shows "\<exists>y. trim_start_braces (z @ n @ close_braces) = y @ n @ close_braces \<and> (y = [] \<or> last y = CHR ''{'')"
  using assms(2)
proof (induction z rule: length_induct)
  case (1 z)
  show ?case
  proof (cases "\<exists>z'. z = open_braces @ z'")
    case True
    then obtain z' where z: "z = open_braces @ z'" by blast
    then have "trim_start_braces (z @ n @ close_braces) = trim_start_braces (z' @ n @ close_braces)"
      by (subst trim_start_braces.simps) (simp add: starts_with_def)
    moreover have "length z' < length z" "z' = [] \<or> last z' = CHR ''{''" using z 1(2) by (auto split: if_splits)
    ultimately show ?thesis using 1(1) by metis
  next
    case False
    have "\<not> starts_with (z @ n @ close_braces) open_braces"
    proof (cases z)
      case Nil
      then show ?thesis using assms(1) by (cases n) (auto simp: starts_with_def)
    next
      case (Cons x w)
      then show ?thesis using assms(1) False 1(2)
        by (cases w; cases n) (auto simp: starts_with_def)
    qed
    then have "trim_start_braces (z @ n @ close_braces) = z @ n @ close_braces" by (subst trim_start_braces.simps) simp
    then show ?thesis using 1(2) by blast
  qed
qed

lemma trim_end_at_name:
  assumes "CHR ''}'' \<notin> set n" "y = [] \<or> last y = CHR ''{''"
  shows "trim_end_braces (y @ n @ close_braces) = y @ n"
proof -
  have "\<not> ends_with (y @ n) close_braces"
  proof
    assume "ends_with (y @ n) close_braces"
    then obtain u where "y @ n = u @ close_braces"
      unfolding ends_with_def by (metis append_take_drop_id)
    then have e: "y @ n \<noteq> []" "last (y @ n) = CHR ''}''" by simp_all
    show False
    proof (cases "n = []")
      case True
      then show False using e assms(2) by auto
    next
      case False
      then have "last n \<in> set n" by simp
      then show False using e False assms(1) by (metis last_appendR)
    qed
  qed
  then have "trim_end_braces (y @ n) = y @ n" by (subst trim_end_braces.simps) simp
  then show ?thesis by (subst trim_end_braces.simps) (simp add: ends_with_def)
qed

lemma directive_name:
  assumes "braceless n" "normalized_directive (x @ placeholder n) \<in> set ALLOWED"
  shows "trim n \<in> {''key'', ''route''}"
proof -
  have n: "CHR ''{'' \<notin> set n" "CHR ''}'' \<notin> set n" using assms(1) by (simp_all add: braceless_def)
  obtain y where y: "trim_start_braces ((x @ open_braces) @ n @ close_braces) = y @ n @ close_braces"
      "y = [] \<or> last y = CHR ''{''"
    using trim_start_at_name [OF n(1), of "x @ open_braces"] by auto
  have t: "trim (y @ n) \<in> {''key'', ''route''}"
    using assms(2) y(1) trim_end_at_name [OF n(2) y(2)]
    by (auto simp: normalized_directive_def placeholder_def ALLOWED_def)
  have "CHR ''{'' \<notin> set (trim (y @ n))" using t by auto
  then have "CHR ''{'' \<notin> set y" using trim_keeps_brace [of "y @ n"] by auto
  then have "y = []" using y(2) by (metis last_in_set)
  then show ?thesis using t by simp
qed

text \<open>Every placeholder of a text the scan accepts is \<open>key\<close> or \<open>route\<close>.\<close>

lemma directive_passed:
  "no_forbidden_construct s = [] \<Longrightarrow> braceless n \<Longrightarrow> s = a @ placeholder n @ b \<Longrightarrow> trim n \<in> {''key'', ''route''}"
proof (induction s arbitrary: a rule: no_forbidden_construct.induct)
  case (1 rest)
  note IH = "1.IH" and n = "1.prems"(2) and rest = "1.prems"(3)
  have n': "CHR ''{'' \<notin> set n" "CHR ''}'' \<notin> set n" using n by (simp_all add: braceless_def)
  obtain pos where pos: "find_sub open_braces rest = Some pos"
    using find_sub_exists [of open_braces a "n @ close_braces @ b"] rest
    by (auto simp: placeholder_def simp del: find_sub.simps)
  have le: "pos \<le> length a"
    using find_sub_least [OF pos, of a "n @ close_braces @ b"] rest by (simp add: placeholder_def)
  define a' where "a' = drop pos a"
  have after: "drop pos rest = a' @ placeholder n @ b" using le by (simp add: rest a'_def)
  let ?pre = "a' @ open_braces @ n"
  obtain q where q: "find_sub close_braces (drop pos rest) = Some q"
    using find_sub_exists [of close_braces ?pre b] after
    by (auto simp: placeholder_def simp del: find_sub.simps)
  have q_le: "q \<le> length ?pre"
    using find_sub_least [OF q, of ?pre b] after by (simp add: placeholder_def)
  have e: "directive_end (drop pos rest) = q + 2" by (simp add: directive_end_def q)
  have ok: "normalized_directive (take (q + 2) (drop pos rest)) \<in> set ALLOWED"
    using "1.prems"(1) by (subst (asm) no_forbidden_construct.simps) (simp add: pos Let_def e split: if_splits)
  have nf: "no_forbidden_construct (drop (q + 2) (drop pos rest)) = []"
    using "1.prems"(1) ok by (subst (asm) no_forbidden_construct.simps) (simp add: pos Let_def e)
  show ?case
  proof (cases "q + 2 \<le> length a'")
    case True
    then have "drop (q + 2) (drop pos rest) = drop (q + 2) a' @ placeholder n @ b" by (simp only: after) simp
    then show ?thesis
      using IH [OF pos refl e [symmetric] refl] ok nf n e by simp
  next
    case False
    have at: "drop pos rest ! q = CHR ''}''" "drop pos rest ! Suc q = CHR ''}''"
    proof -
      have "drop pos rest = take q (drop pos rest) @ close_braces @ drop (q + 2) (drop pos rest)"
        using find_sub_Some [OF q] by simp
      moreover have "length (take q (drop pos rest)) = q" using find_sub_Some [OF q] by simp
      ultimately show "drop pos rest ! q = CHR ''}''" "drop pos rest ! Suc q = CHR ''}''"
        by (metis nth_append_length append_Cons, metis append_Cons nth_append_length_plus nth_Cons_Suc nth_Cons_0 One_nat_def add.right_neutral add_Suc_right)
    qed
    have "q = length ?pre"
    proof (rule ccontr)
      assume "q \<noteq> length ?pre"
      then have lt: "q < length a' + 2 + length n" using q_le by simp
      show False
      proof (cases "q < length a'")
        case True
        then have "Suc q = length a'" using False by simp
        then show False using at(2) by (simp add: after placeholder_def nth_append)
      next
        case ge: False
        then obtain i where q: "q = length a' + i" by (metis le_add_diff_inverse not_less)
        then have "i < 2 + length n" using lt by simp
        moreover have "(CHR ''{'' # CHR ''{'' # n @ close_braces @ b) ! i = CHR ''}''"
          using at(1) by (simp add: after placeholder_def q nth_append)
        ultimately show False using n'(2)
          by (auto simp: nth_Cons nth_append dest: nth_mem split: nat.splits if_splits)
      qed
    qed
    then have "q + 2 = length (a' @ placeholder n)" by (simp add: placeholder_def)
    moreover have "drop pos rest = (a' @ placeholder n) @ b" by (simp add: after)
    ultimately have "take (q + 2) (drop pos rest) = a' @ placeholder n"
      by (metis append_eq_conv_conj)
    then show ?thesis using directive_name [OF n] ok by simp
  qed
qed

section \<open>What an admitted repository keeps\<close>

lemma map_sum_Inr [simp]: "map_sum f g z = Inr y \<longleftrightarrow> (\<exists>x. z = Inr x \<and> g x = y)"
  by (cases z) auto

lemma verdict_Admit [simp]: "verdict_of fs = Admit \<longleftrightarrow> fs = []"
  by (simp add: verdict_of_def)

lemma failures_verdict [simp]: "verdict_failures (verdict_of fs) = fs"
  by (simp add: verdict_failures_def verdict_of_def)

lemma attribution_all: "attribution_keys_present rs = Some [] \<longleftrightarrow>
    (\<forall>r \<in> set rs. \<exists>p. route_policy r = Some p \<and> ep_required_keys p \<noteq> [])"
  by (induction rs) (auto split: option.splits if_splits)

lemma empty_body_Nil [simp]: "empty_body which t = [] \<longleftrightarrow> \<not> is_blank (rt_body t)"
  by (simp add: empty_body_def)

lemma overrides_governed:
  assumes "override_governance cfg factor = []" "cf_apps cfg = Some apps" "(app, s) \<in> set (ap_overrides apps)"
    and "(key, raw) \<in> set (at_pinned (so_attribution s))" "parse_f64 raw = Some x"
    and "bt_get (fleet_numeric_pins cfg) key = Some base" "f_lt (FFin 0) base" "f_lt (f_mul base factor) x"
  shows "scope_has_label s OVERRIDE_JUSTIFICATION_LABEL"
proof -
  have "pin_over_factor (fleet_numeric_pins cfg) factor (scope_has_label s OVERRIDE_JUSTIFICATION_LABEL) app (key, raw) = []"
    using assms(1-4) by (auto simp: override_governance_def)
  then show ?thesis using assms(5-8) by (simp add: pin_over_factor_def split: if_splits)
qed

lemma rule_admits: "eval_cel_rule R rule doc = None \<longleftrightarrow>
    (\<exists>program v. cl_compile R (cu_expr rule) = Inr program \<and> cl_to_value R doc = Inr v \<and>
       cl_execute R program [(''config'', v)] = Inr (CBool True))"
  by (auto simp: eval_cel_rule_def Let_def split: sum.splits cel_value.splits)

text \<open>A flat text that no rule objects to.\<close>

lemma admitted_text:
  assumes "admit_rendered A policy r = Some (Inr [])"
  obtains rendered cfg where "r = Inr rendered" "candidate_of A (rn_config_bytes rendered) = Inr cfg"
    "attribution_keys_present (cf_routes cfg) = Some []" "rejection_templates_present cfg = []"
    "no_forbidden_construct (rn_config_bytes rendered) = []"
    "override_governance cfg (override_factor policy) = []" "no_unsigned_wasm_module cfg = []"
    "\<forall>rule \<in> set (ay_cel_rules policy). eval_cel_rule (ad_rules A) rule (candidate_to_json A (rn_config_bytes rendered)) = None"
proof -
  obtain rendered where r: "r = Inr rendered" using assms by (auto simp: admit_rendered_def split: sum.splits)
  let ?flat = "rn_config_bytes rendered"
  have y: "admit_yaml A policy ?flat = Some (Inr v) \<Longrightarrow> verdict_failures v = [] \<Longrightarrow> thesis" for v
  proof -
    assume v: "admit_yaml A policy ?flat = Some (Inr v)" "verdict_failures v = []"
    obtain cfg where cfg: "candidate_of A ?flat = Inr cfg" "is_utf8 ?flat"
      using v(1) by (auto simp: admit_yaml_def parse_rendered_def split: sum.splits if_splits)
    have p: "parse_rendered A ?flat = Inr cfg" using cfg by (simp add: parse_rendered_def)
    obtain fs where fs: "attribution_keys_present (cf_routes cfg) = Some fs"
      using v(1) by (auto simp: admit_yaml_def p)
    have "fs = []" "rejection_templates_present cfg = []" "no_forbidden_construct ?flat = []"
        "override_governance cfg (override_factor policy) = []" "no_unsigned_wasm_module cfg = []"
        "List.map_filter (\<lambda>rule. eval_cel_rule (ad_rules A) rule (candidate_to_json A ?flat)) (ay_cel_rules policy) = []"
      using v(2) v(1) by (auto simp: admit_yaml_def p fs)
    then show thesis
      using that [OF r cfg(1)] fs by (auto simp: map_filter_def filter_empty_conv)
  qed
  show thesis using assms y by (auto simp: admit_rendered_def r split: sum.splits if_splits)
qed

lemma admit_sets_each:
  "admit_sets A policy repo sets gs = Some (Inr []) \<Longrightarrow> g \<in> set gs \<Longrightarrow>
   admit_rendered A policy (render_resolved_for_node (renderer_of A) repo sets
     (representative_labels (gs_selector g))) = Some (Inr [])"
  by (induction gs) (auto split: option.splits sum.splits)

lemma admit_resolved_parts:
  assumes "admit_resolved A policy repo = Some (Inr Admit)" "read_gatewaysets (renderer_of A) repo = Inr sets"
  shows "admit_rendered A policy (render_resolved (renderer_of A) repo) = Some (Inr [])"
    and "admit_sets A policy repo sets sets = Some (Inr [])" "canary_failures (renderer_of A) repo = []"
  using assms by (auto simp: admit_resolved_def split: option.splits sum.splits)

lemma same_sets_same_render: "matching sets labels = matching sets labels' \<Longrightarrow>
    render_resolved_for_node E repo sets labels = render_resolved_for_node E repo sets labels'"
  by (simp add: render_resolved_for_node_def GatewaySet.stamp_def split: sum.split)

lemma canary_accepted: "canary_failures E repo = [] \<Longrightarrow> \<exists>p. read_canary_policy E repo = Inr p"
  by (auto simp: canary_failures_def read_canary_policy_def split: option.splits if_splits sum.splits)

text \<open>The other placeholders the rejection templates document are refused as templating.\<close>

lemma other_placeholders_are_blocked:
  assumes "admit_yaml A policy (a @ placeholder n @ b) = Some (Inr v)" "braceless n" "trim n \<notin> {''key'', ''route''}"
  shows "v \<noteq> Admit"
proof
  assume v: "v = Admit"
  then have "no_forbidden_construct (a @ placeholder n @ b) = []"
    using assms(1) by (auto simp: admit_yaml_def split: sum.splits)
  then show False using directive_passed [OF _ assms(2) refl] assms(3) by blast
qed

text \<open>Property C11. A node of an admitted repository that is selected by no GatewaySet, or by the sets of one
  set's representative, is served a configuration that renders and parses and keeps the baseline:
  every route requires an attribution key, both mandatory rejections have a body, every module is
  signed, a pin raised over the factor is labelled, every placeholder of the text is \<open>key\<close> or
  \<open>route\<close>, and every rule of the operator evaluates to true; and the canary policy is valid.\<close>

theorem admitted_repository_keeps_baseline:
  assumes "admit_resolved A policy repo = Some (Inr Admit)" "read_gatewaysets (renderer_of A) repo = Inr sets"
    and "matching sets labels \<in> insert [] ((\<lambda>g. matching sets (representative_labels (gs_selector g))) ` set sets)"
  shows "\<exists>r cfg. render_resolved_for_node (renderer_of A) repo sets labels = Inr r \<and>
     candidate_of A (rn_config_bytes r) = Inr cfg \<and>
     (\<forall>route \<in> set (cf_routes cfg). \<exists>p. route_policy route = Some p \<and> ep_required_keys p \<noteq> []) \<and>
     \<not> is_blank (rt_body (rj_default_response (cf_rejections cfg))) \<and>
     \<not> is_blank (rt_body (rj_unknown_route (cf_rejections cfg))) \<and>
     (\<forall>m \<in> set (wc_modules (cf_wasm cfg)). module_signed m) \<and>
     (\<forall>apps app s key raw x base. cf_apps cfg = Some apps \<longrightarrow> (app, s) \<in> set (ap_overrides apps) \<longrightarrow>
        (key, raw) \<in> set (at_pinned (so_attribution s)) \<longrightarrow> parse_f64 raw = Some x \<longrightarrow>
        bt_get (fleet_numeric_pins cfg) key = Some base \<longrightarrow> f_lt (FFin 0) base \<longrightarrow>
        f_lt (f_mul base (override_factor policy)) x \<longrightarrow> scope_has_label s OVERRIDE_JUSTIFICATION_LABEL) \<and>
     (\<forall>a n b. rn_config_bytes r = a @ placeholder n @ b \<longrightarrow> braceless n \<longrightarrow> trim n \<in> {''key'', ''route''}) \<and>
     (\<forall>rule \<in> set (ay_cel_rules policy). \<exists>program v. cl_compile (ad_rules A) (cu_expr rule) = Inr program \<and>
        cl_to_value (ad_rules A) (candidate_to_json A (rn_config_bytes r)) = Inr v \<and>
        cl_execute (ad_rules A) program [(''config'', v)] = Inr (CBool True)) \<and>
     (\<exists>p. read_canary_policy (renderer_of A) repo = Inr p)"
proof -
  note parts = admit_resolved_parts [OF assms(1,2)]
  have "admit_rendered A policy (render_resolved_for_node (renderer_of A) repo sets labels) = Some (Inr [])"
  proof (cases "matching sets labels = []")
    case True
    then show ?thesis using parts(1) by (simp add: render_for_unmatched_node)
  next
    case False
    then obtain g where "g \<in> set sets" "matching sets labels = matching sets (representative_labels (gs_selector g))"
      using assms(3) by auto
    then show ?thesis using admit_sets_each [OF parts(2)] same_sets_same_render by metis
  qed
  then obtain r cfg where r: "render_resolved_for_node (renderer_of A) repo sets labels = Inr r"
      "candidate_of A (rn_config_bytes r) = Inr cfg"
    and gb: "attribution_keys_present (cf_routes cfg) = Some []" "rejection_templates_present cfg = []"
      "no_unsigned_wasm_module cfg = []"
    and nf: "no_forbidden_construct (rn_config_bytes r) = []"
    and og: "override_governance cfg (override_factor policy) = []"
    and cel: "\<forall>rule \<in> set (ay_cel_rules policy).
      eval_cel_rule (ad_rules A) rule (candidate_to_json A (rn_config_bytes r)) = None"
    by (rule admitted_text)
  show ?thesis
    by (rule exI [of _ r], rule exI [of _ cfg], intro conjI)
      (use r gb cel canary_accepted [OF parts(3)] in \<open>simp_all add: attribution_all rejection_templates_present_def
        no_unsigned_wasm_module_def filter_empty_conv rule_admits\<close>,
       use overrides_governed [OF og] directive_passed [OF nf] in blast)+
qed

definition admitted_env :: "(unit, unit, unit) admission_env" where
  "admitted_env = \<lparr>ad_render = example_env\<lparr>re_from_str := \<lambda>_. Inr (YMapping []),
       re_sets_reader := \<lambda>_. Inr [\<lparr>ge_name = ''eu'', ge_selector = [(''region'', One ''eu'')], ge_overlay = []\<rparr>],
       re_waves_reader := \<lambda>_. Inl ''not a plan''\<rparr>,
     ad_cel = sample_cel, ad_jwt = sample_jwt, ad_reader = \<lambda>_. Inr sample_config, ad_show = \<lambda>_. [],
     ad_json = \<lambda>_. Inr JNull, ad_rules = sample_cel\<rparr>"

definition admitted_repo :: resolved_repo where
  "admitted_repo = \<lparr>rr_files = [(''gatewaysets.yaml'', ''sets''), (''providers.yaml'', ''p''),
     (''rejections.yaml'', ''r''), (''routes/a.route.yaml'', ''a''), (''waves.yaml'', ''w'')], rr_source_commit = ''c''\<rparr>"

definition admitted_set :: gateway_set where
  "admitted_set = \<lparr>gs_name = ''eu'', gs_selector = sel_of [\<lparr>st_label = ''region'', st_in_values = [''eu'']\<rparr>],
     gs_overlay = []\<rparr>"

lemma admitted_candidate: "candidate_of admitted_env flat = Inr sample_final"
  by (simp add: candidate_of_def admitted_env_def from_yaml_def sample_accepted)

lemma admitted_sets: "read_gatewaysets (renderer_of admitted_env) admitted_repo = Inr [admitted_set]"
proof -
  have "rr_get admitted_repo ''gatewaysets.yaml'' = Some ''sets''" by (simp add: rr_get_def admitted_repo_def)
  moreover have "is_utf8 ''sets''" by code_simp
  moreover have "\<not> is_blank ''sets''" "\<not> is_blank ''eu''" by (simp_all add: not_blank_ascii is_ascii_graphic_def)
  ultimately show ?thesis
    by (simp add: read_gatewaysets_def renderer_of_def admitted_env_def parse_gatewaysets_def sel_of_def
        admitted_set_def Let_def)
qed

lemma admitted_assembly: "\<exists>doc. assemble_flat_doc (renderer_of admitted_env) admitted_repo = Inr doc"
proof -
  have f: "rr_get admitted_repo ''providers.yaml'' = Some ''p''" "rr_get admitted_repo ''fleet/base.chain.yaml'' = None"
    "rr_get admitted_repo ''apps.yaml'' = None" "rr_get admitted_repo ''rejections.yaml'' = Some ''r''"
    "rr_get admitted_repo ''auth.yaml'' = None" "project_names admitted_repo = []"
    "filter (\<lambda>(name, _). ends_with name ''.route.yaml'') (entries_under admitted_repo ''routes'') =
       [(''a.route.yaml'', ''a'')]" "is_utf8 ''p''" "is_utf8 ''r''" "is_utf8 ''a''"
    by code_simp+
  show ?thesis
    by (simp add: assemble_flat_doc_def read_yaml_mapping_def parse_yaml_value_def read_projects_def
        read_routes_def f renderer_of_def admitted_env_def Let_def)
qed

lemma admitted_render: "\<exists>r. render_resolved_for_node (renderer_of admitted_env) admitted_repo sets labels = Inr r \<and>
    rn_config_bytes r = ''flat''"
  using admitted_assembly
  by (auto simp: render_resolved_for_node_def finalize_def renderer_of_def admitted_candidate)
     (simp_all add: admitted_env_def example_env_def)

lemma admitted_flat: "admit_rendered admitted_env \<lparr>ay_cel_rules = [], ay_override_factor = None\<rparr>
    (render_resolved_for_node (renderer_of admitted_env) admitted_repo sets labels) = Some (Inr [])"
proof -
  obtain r where r: "render_resolved_for_node (renderer_of admitted_env) admitted_repo sets labels = Inr r"
    "rn_config_bytes r = ''flat''" using admitted_render by blast
  have "is_utf8 ''flat''" by code_simp
  moreover have "no_forbidden_construct ''flat'' = []"
    by (subst no_forbidden_construct.simps) (simp add: starts_with_def)
  moreover have "\<not> is_blank ''no {{route}}''" by (simp add: not_blank_ascii is_ascii_graphic_def)
  ultimately show ?thesis
    by (simp add: admit_rendered_def r admit_yaml_def parse_rendered_def admitted_candidate sample_final_def
        sample_config_def route_policy_def sample_compiled_def sample_policy_def rejection_templates_present_def
        sample_rejection_def override_governance_def no_unsigned_wasm_module_def map_filter_def)
qed

lemma admitted_sample:
  "admit_resolved admitted_env \<lparr>ay_cel_rules = [], ay_override_factor = None\<rparr> admitted_repo = Some (Inr Admit)"
proof -
  have "render_resolved_for_node (renderer_of admitted_env) admitted_repo [] [] =
      render_resolved (renderer_of admitted_env) admitted_repo" by (rule render_for_unmatched_node) (simp add: GatewaySet.matching_def)
  then have fleet: "admit_rendered admitted_env \<lparr>ay_cel_rules = [], ay_override_factor = None\<rparr>
      (render_resolved (renderer_of admitted_env) admitted_repo) = Some (Inr [])"
    using admitted_flat [of "[]" "[]"] by simp
  have "rr_get admitted_repo ''canary.yaml'' = None" by (simp add: rr_get_def admitted_repo_def)
  then show ?thesis
    by (simp add: admit_resolved_def fleet admitted_sets admitted_flat canary_failures_def)
qed

theorem admitted_repository_keeps_baseline_witness:
  "\<exists>r cfg. render_resolved_for_node (renderer_of admitted_env) admitted_repo [admitted_set] [(''region'', ''eu'')] = Inr r \<and>
     candidate_of admitted_env (rn_config_bytes r) = Inr cfg \<and>
     \<not> is_blank (rt_body (rj_default_response (cf_rejections cfg)))"
proof -
  have "representative_labels (gs_selector admitted_set) = [(''region'', ''eu'')]"
    by (simp add: representative_labels_def admitted_set_def sel_of_def)
  then have 2: "matching [admitted_set] [(''region'', ''eu'')] \<in>
      insert [] ((\<lambda>g. matching [admitted_set] (representative_labels (gs_selector g))) ` set [admitted_set])" by simp
  show ?thesis using admitted_repository_keeps_baseline [OF admitted_sample admitted_sets 2] by blast
qed

end
