(* ===== verification/CtlMain.thy ===== *)
theory CtlMain
  imports Admission CanaryRollout Store JoinToken
begin

text \<open>
  \<open>gatewayctl/src/main.rs\<close> and \<open>status_http.rs\<close>: the command line, the join tokens minted at start, the
  reload that resolves, admits, renders and rolls out, its poll trigger, the break-glass file, and
  the status document.  A call of \<open>usage\<close>, which ends the process, is the left of a sum.  What the
  configuration source holds when it is resolved is an argument, one per resolution.  The quotes
  \<open>{:?}\<close> puts around an argument in an error are left out.  Lemmas: a
  reload rolls out only what was admitted as long as the source stands still, and what a malformed
  wave plan does.
\<close>

section \<open>The command line\<close>

definition DEFAULT_LISTEN :: string where "DEFAULT_LISTEN = ''127.0.0.1:6187''"
definition DEFAULT_STATUS_LISTEN :: string where "DEFAULT_STATUS_LISTEN = ''127.0.0.1:6186''"
definition DEFAULT_POLL_SECS :: u64 where "DEFAULT_POLL_SECS = 3"
definition DEFAULT_RECONCILE_SECS :: u64 where "DEFAULT_RECONCILE_SECS = 5"
definition DEFAULT_TOKEN_TTL_SECS :: u64 where "DEFAULT_TOKEN_TTL_SECS = 300"
definition DEFAULT_JOIN_TOKEN :: string where "DEFAULT_JOIN_TOKEN = ''dev-join-token''"
definition DEFAULT_GIT_REF :: string where "DEFAULT_GIT_REF = ''HEAD''"

record flags =
  fg_repo :: "string option"
  fg_git_repo :: "string option"
  fg_git_ref :: "string option"
  fg_listen :: "string option"
  fg_status_listen :: "string option"
  fg_join_token :: "string option"
  fg_token_ttl :: "u64 option"
  fg_poll_secs :: "u64 option"
  fg_reconcile_secs :: "u64 option"
  fg_push_raw :: "string option"
  fg_break_glass_file :: "string option"
  fg_label_tokens :: "(labels \<times> string) list"

definition flags_default :: flags where
  "flags_default = \<lparr>fg_repo = None, fg_git_repo = None, fg_git_ref = None, fg_listen = None,
     fg_status_listen = None, fg_join_token = None, fg_token_ttl = None, fg_poll_secs = None,
     fg_reconcile_secs = None, fg_push_raw = None, fg_break_glass_file = None, fg_label_tokens = []\<rparr>"

definition rsplit_once :: "char \<Rightarrow> string \<Rightarrow> (string \<times> string) option" where
  "rsplit_once c s = map_option (\<lambda>(a, b). (rev b, rev a)) (split_once c (rev s))"

fun label_pairs :: "string list \<Rightarrow> labels \<Rightarrow> string + labels" where
  "label_pairs [] ls = Inr ls"
| "label_pairs (p # ps) ls =
     (if is_blank p then label_pairs ps ls
      else case split_once CHR ''='' p of
        None \<Rightarrow> Inl ''--label-token label must be key=value''
      | Some (k, v) \<Rightarrow> label_pairs ps (bt_insert (trim k) (trim v) ls))"

definition parse_label_token :: "string \<Rightarrow> string + labels \<times> string" where
  "parse_label_token arg = (case rsplit_once CHR '':'' arg of
     None \<Rightarrow> Inl ''--label-token must be <k=v,...>:<secret>''
   | Some (labels_str, secret) \<Rightarrow>
       if is_blank secret then Inl ''--label-token has an empty token secret''
       else map_sum id (\<lambda>ls. (ls, secret)) (label_pairs (split_char CHR '','' labels_str) []))"

definition seconds :: "string \<Rightarrow> string \<Rightarrow> (u64 \<Rightarrow> flags) \<Rightarrow> string + flags" where
  "seconds problem v set_it = (case parse_u64 v of None \<Rightarrow> Inl problem | Some n \<Rightarrow> Inr (set_it n))"

definition parse_flag :: "string \<Rightarrow> string \<Rightarrow> flags \<Rightarrow> string + flags" where
  "parse_flag flag v f =
     (if flag = ''--repo'' then Inr (f\<lparr>fg_repo := Some v\<rparr>)
      else if flag = ''--git-repo'' then Inr (f\<lparr>fg_git_repo := Some v\<rparr>)
      else if flag = ''--git-ref'' then Inr (f\<lparr>fg_git_ref := Some v\<rparr>)
      else if flag = ''--listen'' then Inr (f\<lparr>fg_listen := Some v\<rparr>)
      else if flag = ''--status-listen'' then Inr (f\<lparr>fg_status_listen := Some v\<rparr>)
      else if flag = ''--join-token'' then Inr (f\<lparr>fg_join_token := Some v\<rparr>)
      else if flag = ''--push-raw'' then Inr (f\<lparr>fg_push_raw := Some v\<rparr>)
      else if flag = ''--break-glass-file'' then Inr (f\<lparr>fg_break_glass_file := Some v\<rparr>)
      else if flag = ''--label-token'' then
        map_sum id (\<lambda>t. f\<lparr>fg_label_tokens := fg_label_tokens f @ [t]\<rparr>) (parse_label_token v)
      else if flag = ''--token-ttl'' then
        seconds ''--token-ttl takes whole seconds'' v (\<lambda>n. f\<lparr>fg_token_ttl := Some n\<rparr>)
      else if flag = ''--poll-interval'' then
        seconds ''--poll-interval takes whole seconds (0 disables)'' v (\<lambda>n. f\<lparr>fg_poll_secs := Some n\<rparr>)
      else if flag = ''--reconcile-interval'' then
        seconds ''--reconcile-interval takes whole seconds (0 disables)'' v (\<lambda>n. f\<lparr>fg_reconcile_secs := Some n\<rparr>)
      else Inl (''unknown flag '' @ flag))"

fun parse_flags :: "string list \<Rightarrow> flags \<Rightarrow> string + flags" where
  "parse_flags (flag # v # args) f = (case parse_flag flag v f of Inl e \<Rightarrow> Inl e | Inr f' \<Rightarrow> parse_flags args f')"
| "parse_flags [x] f = Inl (''dangling argument '' @ x)"
| "parse_flags [] f = Inr f"

datatype source_spec = DirectorySource string | GitSource string string

definition source_of :: "flags \<Rightarrow> string + source_spec" where
  "source_of f = (case (fg_repo f, fg_git_repo f) of
     (Some _, Some _) \<Rightarrow> Inl ''--repo and --git-repo are mutually exclusive''
   | (Some dir, None) \<Rightarrow> Inr (DirectorySource dir)
   | (None, Some repo) \<Rightarrow> Inr (GitSource repo (unwrap_or (fg_git_ref f) DEFAULT_GIT_REF))
   | (None, None) \<Rightarrow> Inl ''a config source is required: --repo <dir> OR --git-repo <path> [--git-ref <ref>]'')"

record ctl_cli =
  cz_listen :: string
  cz_status_listen :: string
  cz_join_token :: "string option"
  cz_token_ttl :: u64
  cz_poll_interval :: u64
  cz_reconcile_interval :: u64
  cz_source :: source_spec
  cz_push_raw :: "string option"
  cz_break_glass_file :: "string option"
  cz_label_tokens :: "(labels \<times> string) list"

definition or_env :: "(string \<Rightarrow> string option) \<Rightarrow> string option \<Rightarrow> string \<Rightarrow> string option" where
  "or_env env flag var = (case flag of Some v \<Rightarrow> Some v | None \<Rightarrow> env var)"

definition parse_serve :: "(string \<Rightarrow> string option) \<Rightarrow> string list \<Rightarrow> string + ctl_cli" where
  "parse_serve env args = (case parse_flags args flags_default of
     Inl e \<Rightarrow> Inl e
   | Inr f \<Rightarrow> map_sum id (\<lambda>source.
       \<lparr>cz_listen = unwrap_or (or_env env (fg_listen f) ''GATEWAYCTL_LISTEN'') DEFAULT_LISTEN,
        cz_status_listen = unwrap_or (or_env env (fg_status_listen f) ''GATEWAYCTL_STATUS_LISTEN'') DEFAULT_STATUS_LISTEN,
        cz_join_token = or_env env (fg_join_token f) ''GATEWAYCTL_JOIN_TOKEN'',
        cz_token_ttl = unwrap_or (fg_token_ttl f) DEFAULT_TOKEN_TTL_SECS,
        cz_poll_interval = unwrap_or (fg_poll_secs f) DEFAULT_POLL_SECS,
        cz_reconcile_interval = unwrap_or (fg_reconcile_secs f) DEFAULT_RECONCILE_SECS,
        cz_source = source, cz_push_raw = fg_push_raw f, cz_break_glass_file = fg_break_glass_file f,
        cz_label_tokens = fg_label_tokens f\<rparr>) (source_of f))"

section \<open>The tokens minted at start\<close>

definition mint_three :: "string \<Rightarrow> u64 \<Rightarrow> join_tokens \<Rightarrow> join_tokens" where
  "mint_three base now t =
     mint_token (base @ ''-3'') [] now (mint_token (base @ ''-2'') [] now (mint_token base [] now t))"

definition mint_start_tokens :: "ctl_cli \<Rightarrow> u64 \<Rightarrow> join_tokens \<Rightarrow> join_tokens" where
  "mint_start_tokens cli now t =
     fold (\<lambda>(labels, secret). mint_token secret labels now) (cz_label_tokens cli)
       (case cz_join_token cli of
          Some base \<Rightarrow> mint_three base now t
        | None \<Rightarrow> if cz_label_tokens cli = [] then mint_three DEFAULT_JOIN_TOKEN now t else t)"

section \<open>Reload\<close>

definition ctl_admission_policy :: admission_policy where
  "ctl_admission_policy = with_cel_rule ''route-list-non-empty'' ''size(config.routes) > 0''
     ''the config must define at least one route'' \<lparr>ay_cel_rules = [], ay_override_factor = None\<rparr>"

datatype exit_code = Exit nat

text \<open>The \<open>admit\<close> subcommand; \<open>None\<close> is a panic.\<close>

definition run_admit :: "('p, 'v, 'k) admission_env \<Rightarrow> string + resolved_repo \<Rightarrow> exit_code option" where
  "run_admit A source = map_option (\<lambda>r. case r of
     Inr (Inr v) \<Rightarrow> Exit (if is_admitted v then 0 else 1) | _ \<Rightarrow> Exit 1)
     (admit_source A ctl_admission_policy source)"

definition resolve_and_render ::
  "('p, 'v, 'k) admission_env \<Rightarrow> string + resolved_repo \<Rightarrow> string + render_error + rendered \<times> resolved_repo"
where
  "resolve_and_render A source = (case source of
     Inl e \<Rightarrow> Inl e
   | Inr repo \<Rightarrow> Inr (map_sum id (\<lambda>r. (r, repo)) (render_resolved (renderer_of A) repo)))"

definition right_or :: "'a \<Rightarrow> 'e + 'a \<Rightarrow> 'a" where
  "right_or d r = (case r of Inr x \<Rightarrow> x | Inl _ \<Rightarrow> d)"

text \<open>The inputs of a rollout read from one resolution.\<close>

definition desired_of ::
  "('p, 'v, 'k) admission_env \<Rightarrow> rendered \<Rightarrow> resolved_repo \<Rightarrow> fleet \<Rightarrow> bool \<times> fleet"
where
  "desired_of A next repo f =
     set_applied_from_source next repo (right_or [] (read_gatewaysets (renderer_of A) repo))
       (right_or wp_single (read_wave_plan (renderer_of A) repo))
       (set_canary_policy (right_or default_policy (read_canary_policy (renderer_of A) repo)) f)"

datatype reload_result =
    BlockedByAdmission "rule_failure list"
  | NotResolved string
  | NotRendered render_error
  | Unchanged
  | RolledOut canary_outcome

text \<open>The source is resolved twice, for the admission (\<open>first\<close>) and for the render (\<open>second\<close>); \<open>None\<close> is a
  panic or a rollout that does not return.\<close>

definition reload_and_roll ::
  "('p, 'v, 'k) admission_env \<Rightarrow> admission_policy \<Rightarrow> string + resolved_repo \<Rightarrow> string + resolved_repo \<Rightarrow>
   canary_env \<Rightarrow> (string \<times> labels) list \<Rightarrow> cp_state \<Rightarrow> (reload_result \<times> cp_state) option"
where
  "reload_and_roll A policy first second X nodes st =
     (case admit_source A policy first of
        None \<Rightarrow> None
      | Some (Inl e) \<Rightarrow> Some (NotResolved e, st)
      | Some (Inr (Inl e)) \<Rightarrow> Some (NotRendered e, st)
      | Some (Inr (Inr v)) \<Rightarrow>
          if \<not> is_admitted v then Some (BlockedByAdmission (verdict_failures v), st)
          else (case resolve_and_render A second of
            Inl e \<Rightarrow> Some (NotResolved e, st)
          | Inr (Inl e) \<Rightarrow> Some (NotRendered e, st)
          | Inr (Inr (next, repo)) \<Rightarrow>
              (let (changed, f) = desired_of A next repo (fst st) in
               if \<not> changed then Some (Unchanged, f, snd st)
               else map_option (apfst RolledOut)
                 (roll_out_plan_canary (X\<lparr>ce_prior_render := Some (fl_applied (fst st)), ce_window_override := None\<rparr>)
                    nodes (f, snd st)))))"

definition source_fingerprint :: "('p, 'v, 'k) admission_env \<Rightarrow> string + resolved_repo \<Rightarrow> string" where
  "source_fingerprint A source = (case resolve_and_render A source of
     Inr (Inr (r, _)) \<Rightarrow> rn_source_commit r @ '':'' @ rn_render_hash r
   | _ \<Rightarrow> ''<<unrenderable>>'')"

text \<open>One tick of the poll: the fingerprint seen last, and whether to reload.\<close>

definition ctl_poll_tick ::
  "('p, 'v, 'k) admission_env \<Rightarrow> string + resolved_repo \<Rightarrow> string \<Rightarrow> bool \<times> string"
where
  "ctl_poll_tick A source seen = (let now = source_fingerprint A source in (now \<noteq> seen, now))"

section \<open>Break glass\<close>

text \<open>\<open>lines\<close> up to white space at the end of a line and an empty last line, which the caller skips.\<close>

definition lines_of :: "string \<Rightarrow> string list" where
  "lines_of s = split_char (char_of (10::nat)) s"

definition break_glass_line :: "u64 \<Rightarrow> u64 \<Rightarrow> string \<Rightarrow> runtime_store \<Rightarrow> runtime_store" where
  "break_glass_line default_ttl now line s =
     (let l = trim line in
      if l = [] \<or> starts_with l ''#'' then s
      else case split_ws [] l of
        [] \<Rightarrow> s
      | node # rest \<Rightarrow> snd (set_break_glass node
          (case rest of t # _ \<Rightarrow> unwrap_or (parse_u64 t) default_ttl | [] \<Rightarrow> default_ttl) now s))"

definition break_glass_file :: "u64 \<Rightarrow> u64 \<Rightarrow> string + string \<Rightarrow> runtime_store \<Rightarrow> runtime_store" where
  "break_glass_file default_ttl now contents s = (case contents of
     Inl _ \<Rightarrow> s
   | Inr t \<Rightarrow> fold (break_glass_line default_ttl now) (lines_of t) s)"

section \<open>The status document\<close>

definition num :: "u64 \<Rightarrow> json" where
  "num n = JNumber (PosInt n)"

definition opt_json :: "('a \<Rightarrow> json) \<Rightarrow> 'a option \<Rightarrow> json" where
  "opt_json f x = (case x of Some v \<Rightarrow> f v | None \<Rightarrow> JNull)"

definition node_json :: "node_state \<Rightarrow> json" where
  "node_json n = JObject (bt_of_list
     [(''node_id'', JString (ns_node_id n)),
      (''labels'', JObject (map (\<lambda>(k, v). (k, JString v)) (ns_labels n))),
      (''connected'', JBool (ns_connected n)), (''acked_version'', opt_json num (ns_last_acked_version n)),
      (''acked_hash'', opt_json JString (ns_last_acked_hash n)),
      (''observed_hash'', opt_json JString (ns_observed_hash n)), (''health'', opt_json JString (ns_health n)),
      (''last_seen'', num (ns_last_seen n)), (''consecutive_nacks'', num (ucast (ns_consecutive_nacks n))),
      (''last_nack'', opt_json (\<lambda>(v, reason).
         JObject (bt_of_list [(''version'', num v), (''reason'', JString reason)])) (ns_last_nack n))])"

definition status_json :: "string \<Rightarrow> string \<Rightarrow> u64 \<Rightarrow> runtime_store \<Rightarrow> json" where
  "status_json render_hash source_commit committed s = JObject (bt_of_list
     [(''applied'', JObject (bt_of_list
         [(''render_hash'', JString render_hash), (''source_commit'', JString source_commit)])),
      (''committed_version'', num committed), (''nodes'', JArray (map node_json (st_all s)))])"

definition status_response :: "16 word \<Rightarrow> string \<Rightarrow> string" where
  "status_response status body =
     (let nl = [char_of (13::nat), char_of (10::nat)] in
      ''HTTP/1.1 '' @ show_word status @ '' '' @ (if status = 200 then ''OK'' else ''Not Found'') @ nl @
      ''Content-Type: application/json'' @ nl @ ''Content-Length: '' @ dec_of_nat (length body) @ nl @
      ''Connection: close'' @ nl @ nl @ body)"

definition handle_status :: "json_lib \<Rightarrow> string \<Rightarrow> fleet \<Rightarrow> runtime_store \<Rightarrow> string" where
  "handle_status J line f s =
     (let parts = split_ws [] line;
          meth = (case parts of m # _ \<Rightarrow> m | [] \<Rightarrow> []);
          target = (case parts of _ # t # _ \<Rightarrow> t | _ \<Rightarrow> [])
      in if meth \<noteq> ''GET'' \<or> target \<noteq> ''/status''
         then status_response 404 ''{\"error\":\"GET /status is the only route\"}''
         else status_response 200 (jl_print J (status_json (rn_render_hash (fl_applied f))
                (rn_source_commit (fl_applied f)) (fl_committed_version f) s)))"

section \<open>What a reload rolls out\<close>

lemma assign_all: "fold (assign_step [\<lparr>wv_name = ''all'', wv_selector = sel_everything\<rparr>]) nodes ([ids], []) =
    ([ids @ map fst nodes], [])"
proof (induction nodes arbitrary: ids)
  case (Cons n nodes)
  have "assign_step [\<lparr>wv_name = ''all'', wv_selector = sel_everything\<rparr>] n ([ids], []) = ([ids @ [fst n]], [])"
    by (simp add: assign_step_def wave_position_def sel_everything_def sel_matches_def)
  then show ?case by (simp add: Cons.IH)
qed simp

lemma assign_single: "assign wp_single nodes = [\<lparr>aw_name = ''all'', aw_node_ids = map fst (sort_key fst nodes)\<rparr>]"
  using assign_all [of "sort_key fst nodes" "[]"] by (simp add: assign_def wp_single_def Let_def)

lemma desired_fleet:
  assumes "desired_of A next repo f = (changed, f')"
  shows "changed \<longleftrightarrow> rn_source_commit (fl_applied f) \<noteq> rn_source_commit next" "fl_applied f' = next"
    "fl_desired f' = Some \<lparr>di_resolved = repo, di_gatewaysets = right_or [] (read_gatewaysets (renderer_of A) repo),
       di_plan = right_or wp_single (read_wave_plan (renderer_of A) repo)\<rparr>"
  using assms by (auto simp: desired_of_def set_applied_from_source_def set_canary_policy_def)

lemma admitted_parts:
  assumes "admit_resolved A policy repo = Some (Inr Admit)"
  obtains r sets where "render_resolved (renderer_of A) repo = Inr r" "read_gatewaysets (renderer_of A) repo = Inr sets"
proof -
  obtain sets where s: "read_gatewaysets (renderer_of A) repo = Inr sets"
    using assms by (auto simp: admit_resolved_def split: option.splits sum.splits)
  from admitted_text [OF admit_resolved_parts(1) [OF assms s]] s that show thesis by metis
qed

text \<open>An admitted first resolution is all a reload asks of the second one.\<close>

lemma reload_takes_second:
  assumes "admit_resolved A policy repo = Some (Inr Admit)" "render_resolved (renderer_of A) repo' = Inr r"
    and "rn_source_commit (fl_applied f) \<noteq> rn_source_commit r"
  shows "reload_and_roll A policy (Inr repo) (Inr repo') X nodes (f, tb) = map_option (apfst RolledOut)
     (roll_out_plan_canary (X\<lparr>ce_prior_render := Some (fl_applied f), ce_window_override := None\<rparr>)
        nodes (snd (desired_of A r repo' f), tb))"
proof -
  obtain changed f' where d: "desired_of A r repo' f = (changed, f')" by (cases "desired_of A r repo' f")
  then have "changed" using desired_fleet(1) [OF d] assms(3) by simp
  then show ?thesis using assms(1,2)
    by (simp add: reload_and_roll_def admit_source_def is_admitted_def resolve_and_render_def d)
qed

text \<open>Property C12. As long as the source stands still, a reload distributes nothing that was not admitted:
  what it rolls out is the render of the repository the rules admitted, with that repository's
  GatewaySets, from a fleet whose applied render it is; an unchanged commit is not rolled out; and
  a candidate that is blocked, or does not resolve or render, leaves the fleet as it was.\<close>

theorem reload_distributes_what_was_admitted:
  assumes "reload_and_roll A policy source source X nodes (f, tb) = Some (out, st)"
  shows "case out of
      RolledOut c \<Rightarrow> \<exists>repo r sets plan f'. source = Inr repo \<and> admit_resolved A policy repo = Some (Inr Admit) \<and>
        render_resolved (renderer_of A) repo = Inr r \<and> read_gatewaysets (renderer_of A) repo = Inr sets \<and>
        rn_source_commit r \<noteq> rn_source_commit (fl_applied f) \<and> fl_applied f' = r \<and>
        fl_desired f' = Some \<lparr>di_resolved = repo, di_gatewaysets = sets, di_plan = plan\<rparr> \<and>
        roll_out_plan_canary (X\<lparr>ce_prior_render := Some (fl_applied f), ce_window_override := None\<rparr>)
          nodes (f', tb) = Some (c, st)
    | Unchanged \<Rightarrow> snd st = tb \<and> rn_source_commit (fl_applied (fst st)) = rn_source_commit (fl_applied f) \<and>
        fl_committed_version (fst st) = fl_committed_version f \<and> fl_wave_commit (fst st) = fl_wave_commit f
    | _ \<Rightarrow> st = (f, tb) \<and> (case source of
          Inl _ \<Rightarrow> True | Inr repo \<Rightarrow> admit_resolved A policy repo \<noteq> Some (Inr Admit))"
proof (cases source)
  case (Inl e)
  then show ?thesis using assms by (auto simp: reload_and_roll_def admit_source_def)
next
  case (Inr repo)
  show ?thesis
  proof (cases "admit_resolved A policy repo = Some (Inr Admit)")
    case False
    then show ?thesis using assms Inr
      by (auto simp: reload_and_roll_def admit_source_def is_admitted_def
          split: option.splits sum.splits admission_verdict.splits)
  next
    case True
    obtain r sets where r: "render_resolved (renderer_of A) repo = Inr r" "read_gatewaysets (renderer_of A) repo = Inr sets"
      by (rule admitted_parts [OF True])
    obtain changed f' where d: "desired_of A r repo f = (changed, f')" by (cases "desired_of A r repo f")
    note f' = desired_fleet [OF d]
    show ?thesis
    proof (cases changed)
      case True
      then have ne: "rn_source_commit (fl_applied f) \<noteq> rn_source_commit r" using f'(1) by simp
      obtain c where c: "out = RolledOut c"
          "roll_out_plan_canary (X\<lparr>ce_prior_render := Some (fl_applied f), ce_window_override := None\<rparr>) nodes (f', tb) = Some (c, st)"
        using assms reload_takes_second [OF \<open>admit_resolved A policy repo = Some (Inr Admit)\<close> r(1) ne, of X nodes tb]
        by (auto simp: Inr d)
      then show ?thesis using Inr \<open>admit_resolved A policy repo = Some (Inr Admit)\<close> r f'(2,3) ne
        by (auto simp: right_or_def)
    next
      case False
      then have "out = Unchanged" "st = (f', tb)"
        using assms True Inr r by (simp_all add: reload_and_roll_def admit_source_def is_admitted_def resolve_and_render_def d)
      moreover have "fl_committed_version f' = fl_committed_version f" "fl_wave_commit f' = fl_wave_commit f"
        using d by (auto simp: desired_of_def set_applied_from_source_def set_canary_policy_def)
      ultimately show ?thesis using f'(1,2) False by simp
    qed
  qed
qed

text \<open>Property C40. A wave plan that does not parse is not refused: no rule of the admission reads
  \<open>waves.yaml\<close>, the reload falls back to the plan of a single wave, and the new configuration is
  rolled out to all nodes at once instead of in the stages the repository asks for.\<close>

theorem malformed_plan_rolls_out_at_once:
  assumes "admit_resolved A policy repo = Some (Inr Admit)" "read_wave_plan (renderer_of A) repo = Inl e"
    and "render_resolved (renderer_of A) repo = Inr r" "rn_source_commit (fl_applied f) \<noteq> rn_source_commit r"
  shows "\<exists>f'. reload_and_roll A policy (Inr repo) (Inr repo) X nodes (f, tb) = map_option (apfst RolledOut)
       (roll_out_plan_canary (X\<lparr>ce_prior_render := Some (fl_applied f), ce_window_override := None\<rparr>) nodes (f', tb)) \<and>
     fl_applied f' = r \<and>
     assign (fleet_wave_plan f') nodes = [\<lparr>aw_name = ''all'', aw_node_ids = map fst (sort_key fst nodes)\<rparr>]"
proof -
  obtain changed f' where d: "desired_of A r repo f = (changed, f')" by (cases "desired_of A r repo f")
  have "fleet_wave_plan f' = wp_single"
    using desired_fleet(3) [OF d] assms(2) by (simp add: fleet_wave_plan_def right_or_def)
  then show ?thesis
    using reload_takes_second [OF assms(1,3,4), of X nodes tb] desired_fleet(2) [OF d] d by (auto simp: assign_single)
qed

text \<open>The sample repository, whose plan does not parse.\<close>

lemma sample_rendered: "\<exists>r. render_resolved (renderer_of admitted_env) admitted_repo = Inr r \<and> rn_source_commit r = ''c''"
  using admitted_render [of "[]" "[]"] render_for_unmatched_node [of "[]" "[]" "renderer_of admitted_env" admitted_repo]
  by (auto simp: GatewaySet.matching_def render_resolved_def finalize_def admitted_repo_def split: sum.splits option.splits)

definition before_reload :: fleet where
  "before_reload = fleet_new \<lparr>rn_config_bytes = ''old'', rn_render_hash = ''h'', rn_source_commit = ''b''\<rparr>"

lemma sample_canary: "cp_enabled (fl_canary (snd (desired_of admitted_env r admitted_repo f))) = False"
  by (simp add: desired_of_def set_applied_from_source_def set_canary_policy_def read_canary_policy_def rr_get_def
    admitted_repo_def right_or_def default_policy_def)

theorem malformed_plan_rolls_out_at_once_witness:
  "\<exists>f'. reload_and_roll admitted_env \<lparr>ay_cel_rules = [], ay_override_factor = None\<rparr> (Inr admitted_repo) (Inr admitted_repo)
       example_canary_env [(''n1'', []), (''n2'', [(''region'', ''eu'')])] (before_reload, [], fb_new) =
     map_option (apfst RolledOut) (roll_out_plan_canary (example_canary_env\<lparr>ce_prior_render := Some (fl_applied before_reload),
       ce_window_override := None\<rparr>) [(''n1'', []), (''n2'', [(''region'', ''eu'')])] (f', [], fb_new)) \<and>
     map aw_node_ids (assign (fleet_wave_plan f') [(''n1'', []), (''n2'', [(''region'', ''eu'')])]) = [[''n1'', ''n2'']]"
proof -
  obtain r where r: "render_resolved (renderer_of admitted_env) admitted_repo = Inr r" "rn_source_commit r = ''c''"
    using sample_rendered by blast
  have plan: "read_wave_plan (renderer_of admitted_env) admitted_repo = Inl (InvalidWaves (YamlError ''not a plan''))"
  proof -
    have "is_utf8 ''w''" by code_simp
    moreover have "\<not> is_blank ''w''" by (simp add: not_blank_ascii is_ascii_graphic_def)
    ultimately show ?thesis
      by (simp add: read_wave_plan_def rr_get_def admitted_repo_def renderer_of_def admitted_env_def parse_wave_plan_def)
  qed
  have "rn_source_commit (fl_applied before_reload) \<noteq> rn_source_commit r" by (simp add: before_reload_def fleet_new_def r)
  from malformed_plan_rolls_out_at_once [OF admitted_sample plan r(1) this,
      of example_canary_env "[(''n1'', []), (''n2'', [(''region'', ''eu'')])]" "([], fb_new)"]
  show ?thesis by (auto simp: sort_key_def)
qed

theorem reload_distributes_what_was_admitted_witness:
  "\<exists>c st r f'. reload_and_roll admitted_env \<lparr>ay_cel_rules = [], ay_override_factor = None\<rparr> (Inr admitted_repo)
       (Inr admitted_repo) example_canary_env [] (before_reload, [], fb_new) = Some (RolledOut c, st) \<and>
     render_resolved (renderer_of admitted_env) admitted_repo = Inr r \<and> fl_applied f' = r \<and>
     roll_out_plan_canary (example_canary_env\<lparr>ce_prior_render := Some (fl_applied before_reload),
       ce_window_override := None\<rparr>) [] (f', [], fb_new) = Some (c, st)"
proof -
  obtain r where r: "render_resolved (renderer_of admitted_env) admitted_repo = Inr r" "rn_source_commit r = ''c''"
    using sample_rendered by blast
  have ne: "rn_source_commit (fl_applied before_reload) \<noteq> rn_source_commit r" by (simp add: before_reload_def fleet_new_def r)
  obtain c st where "reload_and_roll admitted_env \<lparr>ay_cel_rules = [], ay_override_factor = None\<rparr> (Inr admitted_repo)
       (Inr admitted_repo) example_canary_env [] (before_reload, [], fb_new) = Some (RolledOut c, st)"
    unfolding reload_takes_second [OF admitted_sample r(1) ne]
    by (auto simp: roll_out_plan_canary_def Let_def sample_canary split_beta)
  from this reload_distributes_what_was_admitted [OF this] r show ?thesis by fastforce
qed

end
