(* ===== verification/Sse.thy ===== *)
theory Sse
  imports Scan
begin

text \<open>
  \<open>gateway-core/src/sse.rs\<close>: the incremental parser of server-sent events, and the two
  contracts every incremental decoder of the gateway is held to.  \<open>chunked\<close> is a decoder
  that cannot fail: feeding a concatenation is feeding the parts.  \<open>fallible_chunked\<close> is
  one that can: the same holds of what is decoded without an error.  Both yield that the
  chunk boundaries the network picks do not change what is decoded.
\<close>

abbreviation nl :: char where "nl \<equiv> CHR 0x0A"
abbreviation cr :: char where "cr \<equiv> CHR 0x0D"

section \<open>Decoders fed in chunks\<close>

text \<open>The caller's loop over the chunks that arrive.\<close>

fun feed_all ::
  "('s \<Rightarrow> string \<Rightarrow> ('e + 'o list) \<times> 's) \<Rightarrow> 's \<Rightarrow> string list \<Rightarrow> ('e + 'o list) \<times> 's"
where
  "feed_all feed s [] = (Inr [], s)"
| "feed_all feed s (c # cs) = (case feed s c of
     (Inl e, s1) \<Rightarrow> (Inl e, s1)
   | (Inr ys, s1) \<Rightarrow> (case feed_all feed s1 cs of
       (Inl e, s2) \<Rightarrow> (Inl e, s2)
     | (Inr zs, s2) \<Rightarrow> (Inr (ys @ zs), s2)))"

fun step_all :: "('s \<Rightarrow> string \<Rightarrow> 'o list \<times> 's) \<Rightarrow> 's \<Rightarrow> string list \<Rightarrow> 'o list \<times> 's" where
  "step_all step s [] = ([], s)"
| "step_all step s (c # cs) =
     (let (ys, s1) = step s c; (zs, s2) = step_all step s1 cs in (ys @ zs, s2))"

locale fallible_chunked =
  fixes feed :: "'s \<Rightarrow> string \<Rightarrow> ('e + 'o list) \<times> 's"
  assumes feed_split: "feed s (a @ b) = (Inr xs, s') \<Longrightarrow>
      \<exists>s1 ys zs. feed s a = (Inr ys, s1) \<and> feed s1 b = (Inr zs, s') \<and> xs = ys @ zs"
    and feed_join: "feed s a = (Inr ys, s1) \<Longrightarrow> feed s1 b = (Inr zs, s') \<Longrightarrow>
      feed s (a @ b) = (Inr (ys @ zs), s')"
begin

lemma feed_all_concat: "cs \<noteq> [] \<Longrightarrow> feed_all feed s cs = (Inr xs, s') \<longleftrightarrow> feed s (concat cs) = (Inr xs, s')"
proof (induction cs arbitrary: s xs)
  case Nil
  then show ?case by simp
next
  case (Cons c cs)
  show ?case
  proof (cases "cs = []")
    case True
    then show ?thesis by (auto split: prod.splits sum.splits)
  next
    case False
    have "feed_all feed s (c # cs) = (Inr xs, s') \<longleftrightarrow>
        (\<exists>ys s1 zs. feed s c = (Inr ys, s1) \<and> feed_all feed s1 cs = (Inr zs, s') \<and> xs = ys @ zs)"
      by (auto split: prod.splits sum.splits)
    also have "\<dots> \<longleftrightarrow>
        (\<exists>ys s1 zs. feed s c = (Inr ys, s1) \<and> feed s1 (concat cs) = (Inr zs, s') \<and> xs = ys @ zs)"
      using Cons.IH [OF False] by blast
    also have "\<dots> \<longleftrightarrow> feed s (c @ concat cs) = (Inr xs, s')"
      using feed_split feed_join by blast
    finally show ?thesis by simp
  qed
qed

end

locale chunked =
  fixes step :: "'s \<Rightarrow> string \<Rightarrow> 'o list \<times> 's"
  assumes step_append: "step s (a @ b) =
    (let (ys, s1) = step s a; (zs, s2) = step s1 b in (ys @ zs, s2))"
begin

lemma step_all_concat: "cs \<noteq> [] \<Longrightarrow> step_all step s cs = step s (concat cs)"
proof (induction cs arbitrary: s)
  case Nil
  then show ?case by simp
next
  case (Cons c cs)
  then show ?case
    by (cases "cs = []") (auto simp: step_append split: prod.splits)
qed

lemma step_all_same:
  "cs \<noteq> [] \<Longrightarrow> ds \<noteq> [] \<Longrightarrow> concat cs = concat ds \<Longrightarrow> step_all step s cs = step_all step s ds"
  by (simp add: step_all_concat)

end

text \<open>A decoder that cannot fail meets the contract of one that can.\<close>

definition never_fails :: "('s \<Rightarrow> string \<Rightarrow> 'o list \<times> 's) \<Rightarrow> 's \<Rightarrow> string \<Rightarrow> ('e + 'o list) \<times> 's" where
  "never_fails step s b = (case step s b of (ys, s1) \<Rightarrow> (Inr ys, s1))"

sublocale chunked \<subseteq> total: fallible_chunked "never_fails step"
  by unfold_locales (auto simp: never_fails_def step_append split: prod.splits)

section \<open>UTF-8 with replacement\<close>

text \<open>\<open>String::from_utf8_lossy\<close>: every maximal ill-formed part becomes \<open>U+FFFD\<close>.\<close>

definition bad_len :: "string \<Rightarrow> nat" where
  "bad_len s = (case s of
     a # b # t \<Rightarrow>
       if (between 0xE0 0xE0 a \<and> between 0xA0 0xBF b) \<or>
          (between 0xE1 0xEC a \<and> cont_byte b) \<or>
          (between 0xED 0xED a \<and> between 0x80 0x9F b) \<or>
          (between 0xEE 0xEF a \<and> cont_byte b) then 2
       else if (between 0xF0 0xF0 a \<and> between 0x90 0xBF b) \<or>
          (between 0xF1 0xF3 a \<and> cont_byte b) \<or>
          (between 0xF4 0xF4 a \<and> between 0x80 0x8F b)
         then (case t of c # _ \<Rightarrow> if cont_byte c then 3 else 2 | [] \<Rightarrow> 2)
       else 1
   | _ \<Rightarrow> 1)"

definition replacement :: string where
  "replacement = utf8_bytes [0xEF, 0xBF, 0xBD]"

lemma bad_len_pos [simp]: "0 < bad_len s"
  by (auto simp: bad_len_def split: list.splits)

function from_utf8_lossy :: "string \<Rightarrow> string" where
  "from_utf8_lossy s =
     (if s = [] then []
      else (case utf8_char_len s of
              Some n \<Rightarrow> take n s @ from_utf8_lossy (drop n s)
            | None \<Rightarrow> replacement @ from_utf8_lossy (drop (bad_len s) s)))"
  by pat_completeness auto

termination
  by (relation "measure length") (auto dest: utf8_char_len_pos)

declare from_utf8_lossy.simps [simp del]

lemma from_utf8_lossy_id: "is_utf8 s \<Longrightarrow> from_utf8_lossy s = s"
proof (induction s rule: from_utf8_lossy.induct)
  case (1 s)
  then show ?case
    by (subst from_utf8_lossy.simps) (auto simp: is_utf8.simps [of s] split: option.splits)
qed

section \<open>The parser\<close>

record sse_event =
  se_event :: "string option"
  se_data :: string

definition sse_line ::
  "string \<Rightarrow> string option \<times> string list \<Rightarrow> string option \<times> string list"
where
  "sse_line line = (\<lambda>(event, data).
     (case strip_prefix line ''data:'' of
        Some rest \<Rightarrow> (event, data @ [unwrap_or (strip_prefix rest '' '') rest])
      | None \<Rightarrow>
          (case strip_prefix line ''event:'' of
             Some rest \<Rightarrow> (Some (trim rest), data)
           | None \<Rightarrow> (event, data))))"

definition parse_block :: "string \<Rightarrow> sse_event option" where
  "parse_block block =
     (let (event, data) = fold sse_line (split_char nl (from_utf8_lossy block)) (None, [])
      in if data = [] \<and> event = None then None
         else Some \<lparr>se_event = event, se_data = join_with [nl] data\<rparr>)"

function sse_drain :: "string \<Rightarrow> sse_event list \<times> string" where
  "sse_drain buf =
     (case find_sub [nl, nl] buf of
        None \<Rightarrow> ([], buf)
      | Some pos \<Rightarrow>
          (let (evs, rest) = sse_drain (drop (pos + 2) buf)
           in ((case parse_block (take pos buf) of Some ev \<Rightarrow> ev # evs | None \<Rightarrow> evs), rest)))"
  by pat_completeness auto

termination
  by (relation "measure length") (auto dest!: find_sub_Some)

declare sse_drain.simps [simp del]

text \<open>The parser's state is its buffer, initially empty.\<close>

definition sse_feed :: "string \<Rightarrow> string \<Rightarrow> sse_event list \<times> string" where
  "sse_feed buf bytes = sse_drain (buf @ filter (\<lambda>b. b \<noteq> cr) bytes)"

definition sse_pending_bytes :: "string \<Rightarrow> nat" where
  "sse_pending_bytes buf = length buf"

lemma find_sub_append: "find_sub p s = Some n \<Longrightarrow> find_sub p (s @ t) = Some n"
proof (induction p s arbitrary: n rule: find_sub.induct)
  case (1 p)
  then show ?case by (cases t) (auto simp: starts_with_def split: if_splits)
next
  case (2 p x s)
  have "length p \<le> length (x # s)" using find_sub_Some [OF "2.prems"] by simp
  then have "starts_with ((x # s) @ t) p = starts_with (x # s) p"
    by (simp add: starts_with_def del: append_Cons)
  with 2 show ?case by (auto split: if_splits)
qed

lemma sse_drain_append: "sse_drain (a @ b) =
    (let (ys, r) = sse_drain a; (zs, r') = sse_drain (r @ b) in (ys @ zs, r'))"
proof (induction a rule: sse_drain.induct)
  case (1 a)
  show ?case
  proof (cases "find_sub [nl, nl] a")
    case None
    then have "sse_drain a = ([], a)" by (subst sse_drain.simps) simp
    then show ?thesis by (simp split: prod.splits)
  next
    case (Some pos)
    then have le: "pos + 2 \<le> length a" by (auto dest: find_sub_Some)
    then have t: "take pos (a @ b) = take pos a" "drop (pos + 2) (a @ b) = drop (pos + 2) a @ b"
      by simp_all
    show ?thesis
      unfolding sse_drain.simps [of "a @ b"] sse_drain.simps [of a] find_sub_append [OF Some] Some
        option.case t
      using 1 [OF Some] by (auto simp: Let_def split: prod.splits option.splits)
  qed
qed

interpretation sse: chunked sse_feed
proof
  fix s a b
  show "sse_feed s (a @ b) = (let (ys, s1) = sse_feed s a; (zs, s2) = sse_feed s1 b in (ys @ zs, s2))"
    using sse_drain_append [of "s @ filter (\<lambda>b. b \<noteq> cr) a"]
    by (simp add: sse_feed_def split: prod.splits)
qed

text \<open>What stays buffered never holds a complete block: the parser's state is bounded by
  the block in flight.\<close>

lemma sse_drain_rest: "snd (sse_drain buf) = r \<Longrightarrow> find_sub [nl, nl] r = None"
proof (induction buf arbitrary: r rule: sse_drain.induct)
  case (1 buf)
  then show ?case
    by (subst (asm) (2) sse_drain.simps) (auto simp: Let_def split: option.splits prod.splits)
qed

end
