(* ===== verification/Sources.thy ===== *)
theory Sources
  imports Render Sse
begin

text \<open>
  \<open>gatewayctl/src/source.rs\<close>: how a configuration repository is read, from a directory tree or from a
  commit.  A directory is a value (\<open>fs_entry\<close>) in which a read may have failed; the object database
  is the parameter \<open>git_lib\<close>.  Lemmas: a directory resolves to the same repository in whatever order
  it lists its entries.
\<close>

section \<open>A directory\<close>

datatype fs_entry =
    File "string + string"
  | Dir "string + (string \<times> fs_entry) list"
  | Special

text \<open>The results of a list of reads, up to the first that failed.\<close>

fun first_failure :: "('e + 'a list) list \<Rightarrow> 'e + 'a list" where
  "first_failure [] = Inr []"
| "first_failure (Inl e # rs) = Inl e"
| "first_failure (Inr xs # rs) = map_sum id ((@) xs) (first_failure rs)"

definition repo_path :: "string \<Rightarrow> string" where
  "repo_path p = replace_char backslash CHR ''/'' (from_utf8_lossy p)"

definition is_directory :: "fs_entry \<Rightarrow> bool" where
  "is_directory e = (case e of Dir _ \<Rightarrow> True | _ \<Rightarrow> False)"

lemma listed_smaller: "(n, e) \<in> set es \<Longrightarrow> size (e :: fs_entry) < Suc (Suc (size_list (size_prod (\<lambda>x. 0) size) es))"
  by (induction es) (auto simp: less_Suc_eq_le)

function collect_entry :: "string \<Rightarrow> fs_entry \<Rightarrow> string + (string \<times> string) list" where
  "collect_entry path (File (Inl e)) = Inl (path @ '': '' @ e)"
| "collect_entry path (File (Inr bytes)) = Inr [(repo_path path, bytes)]"
| "collect_entry path (Dir (Inl e)) = Inl (path @ '': '' @ e)"
| "collect_entry path (Dir (Inr es)) = first_failure (map (\<lambda>(n, e).
     if n = ''.git'' \<and> is_directory e then Inr []
     else collect_entry (if path = [] then n else path @ ''/'' @ n) e) (sort_key fst es))"
| "collect_entry path Special = Inr []"
  by pat_completeness auto

termination
  by (relation "measure (\<lambda>(p, e). size e)") (auto dest: listed_smaller)

definition DirectorySource_resolve :: "render_env \<Rightarrow> fs_entry \<Rightarrow> string + resolved_repo" where
  "DirectorySource_resolve E tree = (case tree of
     Dir _ \<Rightarrow> map_sum id (\<lambda>files. rr_new files (''dir-'' @ take 16 (content_id E from_utf8_lossy files)))
       (collect_entry [] tree)
   | _ \<Rightarrow> Inl ''not a directory'')"

section \<open>A commit\<close>

record ('r, 'o, 'c, 't, 'i) git_lib =
  gl_open :: "string \<Rightarrow> string + 'r"
  gl_rev_parse :: "'r \<Rightarrow> string \<Rightarrow> string + 'o"
  gl_commit :: "'o \<Rightarrow> string + 'c"
  gl_id :: "'c \<Rightarrow> string"
  gl_tree :: "'c \<Rightarrow> string + 't"
  gl_walk :: "'t \<Rightarrow> string + (bool \<times> string \<times> 'i) list"
  gl_find :: "'r \<Rightarrow> 'i \<Rightarrow> string + string"

definition read_blob ::
  "('r, 'o, 'c, 't, 'i) git_lib \<Rightarrow> 'r \<Rightarrow> bool \<times> string \<times> 'i \<Rightarrow> string + (string \<times> string) list"
where
  "read_blob G repo = (\<lambda>(is_blob, path, oid).
     if \<not> is_blob then Inr []
     else map_sum id (\<lambda>bytes. [(replace_char backslash CHR ''/'' path, bytes)]) (gl_find G repo oid))"

definition bind_result :: "'e + 'a \<Rightarrow> ('a \<Rightarrow> 'e + 'b) \<Rightarrow> 'e + 'b" where
  "bind_result r f = (case r of Inl e \<Rightarrow> Inl e | Inr x \<Rightarrow> f x)"

definition GitSource_resolve ::
  "('r, 'o, 'c, 't, 'i) git_lib \<Rightarrow> string \<Rightarrow> string \<Rightarrow> string + resolved_repo"
where
  "GitSource_resolve G path reference =
     bind_result (gl_open G path) (\<lambda>repo.
     bind_result (gl_rev_parse G repo reference) (\<lambda>obj.
     bind_result (gl_commit G obj) (\<lambda>commit.
     bind_result (gl_tree G commit) (\<lambda>tree.
     bind_result (gl_walk G tree) (\<lambda>entries.
       map_sum id (\<lambda>files. rr_new files (gl_id G commit)) (first_failure (map (read_blob G repo) entries)))))))"

section \<open>Order does not matter\<close>

lemma collect_listing_order:
  assumes "mset es = mset es'" "distinct (map fst es)"
  shows "collect_entry path (Dir (Inr es)) = collect_entry path (Dir (Inr es'))"
proof -
  have "sort_key fst es = sort_key fst es'" using assms by (rule sort_key_distinct_mset)
  then show ?thesis by (simp only: collect_entry.simps)
qed

lemma resolve_listing_order:
  "mset es = mset es' \<Longrightarrow> distinct (map fst es) \<Longrightarrow>
   DirectorySource_resolve E (Dir (Inr es)) = DirectorySource_resolve E (Dir (Inr es'))"
  by (simp add: DirectorySource_resolve_def collect_listing_order del: collect_entry.simps)

end
