(* ===== verification/Exchange.thy ===== *)
theory Exchange
  imports Aws Telemetry Sse Config
begin

text \<open>
  \<open>gatewayd/src/aws_auth.rs\<close> and \<open>gcp_auth.rs\<close>: the exchanges that mint the gateway's own
  credentials, behind their caches.  The network and the platform's token sources are the
  parameter \<open>net_lib\<close> (a request that times out is an error); what is written to the socket, how
  the response is read, what is signed and what is cached is defined here.  Lemmas: a minted
  credential is served again without another exchange until it is about to expire, and the key of
  the Google token cache leaves out the project of the identity pool.
\<close>

section \<open>HTTP\<close>

record net_lib =
  nl_send :: "string \<Rightarrow> string \<Rightarrow> string + string"
  nl_file :: "string \<Rightarrow> string + string"
  nl_env :: "string \<Rightarrow> string + string"

datatype exchange_error =
    Transport string
  | BadStatus "16 word" string string
  | BadResponse sts_error
  | MissingField string
  | TokenSource string string
  | NoTokenSource

definition crlf :: string where
  "crlf = [char_of (13::nat), char_of (10::nat)]"

definition address :: "upstream \<Rightarrow> string" where
  "address u = up_host u @ '':'' @ show_word (up_port u)"

definition http_request :: "string \<Rightarrow> string \<Rightarrow> string \<Rightarrow> (string \<times> string) list \<Rightarrow> string \<Rightarrow> string" where
  "http_request addr path content_type extra body =
     ''POST '' @ path @ '' HTTP/1.1'' @ crlf @ ''Host: '' @ addr @ crlf @
     ''Content-Type: '' @ content_type @ crlf @
     concat (map (\<lambda>(k, v). k @ '': '' @ v @ crlf) extra) @
     ''Content-Length: '' @ dec_of_nat (length body) @ crlf @ ''Connection: close'' @ crlf @ crlf @ body"

definition parse_u16 :: "string \<Rightarrow> 16 word option" where
  "parse_u16 s = (case parse_u64 s of
     Some n \<Rightarrow> if n < 2 ^ 16 then Some (ucast n) else None
   | None \<Rightarrow> None)"

definition after_sub :: "string \<Rightarrow> string \<Rightarrow> string" where
  "after_sub sep s = (case find_sub sep s of Some i \<Rightarrow> drop (i + length sep) s | None \<Rightarrow> [])"

definition http_post ::
  "net_lib \<Rightarrow> upstream \<Rightarrow> string \<Rightarrow> string \<Rightarrow> string \<Rightarrow> (string \<times> string) list \<Rightarrow>
   exchange_error + 16 word \<times> string"
where
  "http_post N endpoint path content_type body extra =
     (case nl_send N (address endpoint) (http_request (address endpoint) path content_type extra body) of
        Inl e \<Rightarrow> Inl (Transport e)
      | Inr response \<Rightarrow>
          (let txt = from_utf8_lossy response;
               tokens = split_ws [] txt
           in case (if 1 < length tokens then parse_u16 (tokens ! 1) else None) of
                None \<Rightarrow> Inl (Transport (''malformed STS response: '' @ take_chars 80 txt))
              | Some status \<Rightarrow> Inr (status, after_sub (crlf @ crlf) txt)))"

definition http_post_form ::
  "net_lib \<Rightarrow> upstream \<Rightarrow> string \<Rightarrow> string \<Rightarrow> (string \<times> string) list \<Rightarrow> exchange_error + 16 word \<times> string"
where
  "http_post_form N endpoint path body extra =
     http_post N endpoint path ''application/x-www-form-urlencoded'' body extra"

section \<open>AWS\<close>

definition BASE_HOP_DURATION_SECS :: u32 where
  "BASE_HOP_DURATION_SECS = 3600"

definition sts_error_code :: "string \<Rightarrow> string option" where
  "sts_error_code body = (case find_sub ''<Code>'' body of
     None \<Rightarrow> None
   | Some i \<Rightarrow>
       (let rest = drop (i + length ''<Code>'') body in
        case find_sub ''</Code>'' rest of
          None \<Rightarrow> None
        | Some e \<Rightarrow>
            (let code = trim (take e rest)
             in if code \<noteq> [] \<and> length code \<le> 64 then Some code else None)))"

definition read_web_identity_token :: "net_lib \<Rightarrow> token_source_spec \<Rightarrow> exchange_error + string" where
  "read_web_identity_token N src = (case (tk_file src, tk_env src) of
     (Some path, _) \<Rightarrow> (case nl_file N path of Inl e \<Rightarrow> Inl (TokenSource path e) | Inr t \<Rightarrow> Inr (trim t))
   | (None, Some var) \<Rightarrow> (case nl_env N var of Inl e \<Rightarrow> Inl (TokenSource var e) | Inr t \<Rightarrow> Inr (trim t))
   | (None, None) \<Rightarrow> Inl NoTokenSource)"

definition sha256_hex :: "aws_lib \<Rightarrow> string \<Rightarrow> string" where
  "sha256_hex A bs = hex_bytes (aw_sha256 A bs)"

definition sts_sign_params :: "aws_lib \<Rightarrow> upstream \<Rightarrow> string \<Rightarrow> credentials \<Rightarrow> string \<Rightarrow> u64 \<Rightarrow> sign_params" where
  "sts_sign_params A endpoint region creds body now =
     (let timestamp = fst (amz_date A now);
          payload_hash = sha256_hex A body
      in \<lparr>sp_method = ''POST'', sp_path = ''/'', sp_query = [], sp_region = region, sp_service = ''sts'',
          sp_headers = [(''content-type'', ''application/x-www-form-urlencoded''), (''host'', address endpoint),
            (''x-amz-content-sha256'', payload_hash), (''x-amz-date'', timestamp),
            (''x-amz-security-token'', cd_session_token creds)],
          sp_payload_hash = payload_hash, sp_timestamp = timestamp\<rparr>)"

definition sign_sts_call ::
  "aws_lib \<Rightarrow> upstream \<Rightarrow> string \<Rightarrow> credentials \<Rightarrow> string \<Rightarrow> u64 \<Rightarrow> (string \<times> string) list"
where
  "sign_sts_call A endpoint region creds body now =
     (let p = sts_sign_params A endpoint region creds body now
      in [(''x-amz-content-sha256'', sp_payload_hash p), (''x-amz-date'', sp_timestamp p),
          (''x-amz-security-token'', cd_session_token creds),
          (''authorization'', authorization A p (cd_access_key_id creds) (cd_secret_access_key creds))])"

definition sts_answer :: "aws_lib \<Rightarrow> exchange_error + 16 word \<times> string \<Rightarrow> exchange_error + credentials" where
  "sts_answer A answer = (case answer of
     Inl e \<Rightarrow> Inl e
   | Inr (status, response) \<Rightarrow>
       if status \<noteq> 200
       then Inl (BadStatus status (unwrap_or (sts_error_code response) ''unknown'') (take_chars 200 response))
       else (case parse_assume_role_response A response of Inl e \<Rightarrow> Inl (BadResponse e) | Inr c \<Rightarrow> Inr c))"

definition base_credentials_for ::
  "net_lib \<Rightarrow> aws_lib \<Rightarrow> sts_config \<Rightarrow> base_hop \<Rightarrow> u64 \<Rightarrow> credential_cache \<Rightarrow>
   (exchange_error + credentials \<times> bool) \<times> credential_cache"
where
  "base_credentials_for N A sts hop now cache =
     (let key = cache_key (bh_role_arn hop) (bh_session_name hop) BASE_HOP_DURATION_SECS
            (address (sc_endpoint sts)) [] in
      case cache_get cache key now of
        Some creds \<Rightarrow> (Inr (creds, True), cache)
      | None \<Rightarrow> (case read_web_identity_token N (bh_web_identity_token hop) of
          Inl e \<Rightarrow> (Inl e, cache)
        | Inr token \<Rightarrow>
            (case sts_answer A (http_post_form N (sc_endpoint sts) ''/''
               (assume_role_with_web_identity_body (bh_role_arn hop) (bh_session_name hop) token
                  BASE_HOP_DURATION_SECS) []) of
               Inl e \<Rightarrow> (Inl e, cache)
             | Inr creds \<Rightarrow> (Inr (creds, False), cache_put key creds cache))))"

definition assume_role ::
  "net_lib \<Rightarrow> aws_lib \<Rightarrow> sts_config \<Rightarrow> string \<Rightarrow> string \<Rightarrow> (string \<times> string) list \<Rightarrow> u64 \<Rightarrow> credential_cache \<Rightarrow>
   (exchange_error + credentials) \<times> credential_cache"
where
  "assume_role N A sts role_arn session_name tags now cache =
     (let body = assume_role_body role_arn session_name (sc_duration_secs sts) tags in
      case (case sc_base sts of
              None \<Rightarrow> (Inr [], cache)
            | Some hop \<Rightarrow> (case base_credentials_for N A sts hop now cache of
                (Inl e, c) \<Rightarrow> (Inl e, c)
              | (Inr (creds, _), c) \<Rightarrow>
                  (Inr (sign_sts_call A (sc_endpoint sts) (bh_sts_region hop) creds body now), c))) of
        (Inl e, c) \<Rightarrow> (Inl e, c)
      | (Inr extra, c) \<Rightarrow> (sts_answer A (http_post_form N (sc_endpoint sts) ''/'' body extra), c))"

definition credentials_for ::
  "net_lib \<Rightarrow> aws_lib \<Rightarrow> sts_config \<Rightarrow> string \<Rightarrow> string \<Rightarrow> (string \<times> string) list \<Rightarrow> u64 \<Rightarrow> credential_cache \<Rightarrow>
   (exchange_error + credentials \<times> bool) \<times> credential_cache"
where
  "credentials_for N A sts role_arn session_name tags now cache =
     (let key = cache_key role_arn session_name (sc_duration_secs sts) (address (sc_endpoint sts)) tags in
      case cache_get cache key now of
        Some creds \<Rightarrow> (Inr (creds, True), cache)
      | None \<Rightarrow> (case assume_role N A sts role_arn session_name tags now cache of
          (Inl e, c) \<Rightarrow> (Inl e, c)
        | (Inr creds, c) \<Rightarrow> (Inr (creds, False), cache_put key creds c)))"

section \<open>Google\<close>

record gcp_token =
  gt_bearer :: string
  gt_expiration_unix :: u64

type_synonym gcp_token_cache = "(string, gcp_token) btree"

definition gcp_cache_key :: "vertex_auth \<Rightarrow> string" where
  "gcp_cache_key auth =
     va_service_account_email auth @ ''|'' @ join_with '' '' (va_scopes auth) @ ''|'' @
     wa_pool_id (va_wif auth) @ ''|'' @ wa_provider_id (va_wif auth) @ ''|'' @
     address (va_sts_endpoint auth) @ ''|'' @ address (va_iam_endpoint auth)"

definition url_encode :: "string \<Rightarrow> string" where
  "url_encode s = concat (map (\<lambda>b.
     if is_ascii_alphanumeric b \<or> b \<in> set ''-_.~'' then [b]
     else [CHR ''%'', hex_upper (of_char b div 16), hex_upper (of_char b mod 16)]) s)"

definition json_str_field :: "json_lib \<Rightarrow> string \<Rightarrow> string \<Rightarrow> string option" where
  "json_str_field J body field = (case jl_parse J body of
     Inl _ \<Rightarrow> None
   | Inr v \<Rightarrow> Option.bind (j_get v field) as_str)"

definition gcp_sts_body :: "vertex_auth \<Rightarrow> string \<Rightarrow> string" where
  "gcp_sts_body auth oidc =
     ''grant_type='' @ url_encode ''urn:ietf:params:oauth:grant-type:token-exchange'' @
     ''&audience='' @ url_encode (audience (va_wif auth)) @
     ''&requested_token_type='' @ url_encode ''urn:ietf:params:oauth:token-type:access_token'' @
     ''&subject_token_type='' @ url_encode ''urn:ietf:params:oauth:token-type:jwt'' @
     ''&subject_token='' @ url_encode oidc @
     ''&scope='' @ url_encode (join_with '' '' (va_scopes auth))"

definition gcp_iam_body :: "vertex_auth \<Rightarrow> string" where
  "gcp_iam_body auth =
     ''{\"scope\":['' @ join_with '','' (map (\<lambda>s. ''\"'' @ s @ ''\"'') (va_scopes auth)) @
     ''],\"lifetime\":\"'' @ show_word (va_lifetime_secs auth) @ ''s\"}''"

text \<open>What a hop's answer must be: status 200 and the named string field.\<close>

definition gcp_answer ::
  "json_lib \<Rightarrow> string \<Rightarrow> exchange_error + 16 word \<times> string \<Rightarrow> exchange_error + string \<times> string"
where
  "gcp_answer J field answer = (case answer of
     Inl e \<Rightarrow> Inl e
   | Inr (status, body) \<Rightarrow>
       if status \<noteq> 200 then Inl (BadStatus status [] (take_chars 200 body))
       else (case json_str_field J body field of
               None \<Rightarrow> Inl (MissingField field)
             | Some v \<Rightarrow> Inr (v, body)))"

definition gcp_expiration :: "aws_lib \<Rightarrow> json_lib \<Rightarrow> vertex_auth \<Rightarrow> string \<Rightarrow> u64 \<Rightarrow> u64" where
  "gcp_expiration A J auth body now =
     (case Option.bind (json_str_field J body ''expireTime'')
        (\<lambda>t. case aw_parse_rfc3339 A t of Inl _ \<Rightarrow> None | Inr s \<Rightarrow> Some s) of
        Some s \<Rightarrow> of_int (max s 0)
      | None \<Rightarrow> now + ucast (va_lifetime_secs auth))"

definition gcp_mint ::
  "net_lib \<Rightarrow> aws_lib \<Rightarrow> json_lib \<Rightarrow> vertex_auth \<Rightarrow> u64 \<Rightarrow> exchange_error + gcp_token"
where
  "gcp_mint N A J auth now =
     (case read_web_identity_token N (va_web_identity_token auth) of
        Inl e \<Rightarrow> Inl e
      | Inr oidc \<Rightarrow>
          (case gcp_answer J ''access_token'' (http_post N (va_sts_endpoint auth) ''/v1/token''
             ''application/x-www-form-urlencoded'' (gcp_sts_body auth oidc) []) of
             Inl e \<Rightarrow> Inl e
           | Inr (federated, _) \<Rightarrow>
               (case gcp_answer J ''accessToken'' (http_post N (va_iam_endpoint auth)
                  (''/v1/projects/-/serviceAccounts/'' @ va_service_account_email auth @ '':generateAccessToken'')
                  ''application/json'' (gcp_iam_body auth)
                  [(''authorization'', ''Bearer '' @ federated)]) of
                  Inl e \<Rightarrow> Inl e
                | Inr (bearer, body) \<Rightarrow>
                    Inr \<lparr>gt_bearer = bearer, gt_expiration_unix = gcp_expiration A J auth body now\<rparr>)))"

definition gcp_find :: "gcp_token_cache \<Rightarrow> string \<Rightarrow> u64 \<Rightarrow> gcp_token option" where
  "gcp_find cache key now = (case bt_get cache key of
     Some t \<Rightarrow> if gt_expiration_unix t > now + REFRESH_MARGIN_SECS then Some t else None
   | None \<Rightarrow> None)"

definition bearer_for ::
  "net_lib \<Rightarrow> aws_lib \<Rightarrow> json_lib \<Rightarrow> vertex_auth \<Rightarrow> u64 \<Rightarrow> gcp_token_cache \<Rightarrow>
   (exchange_error + string \<times> bool) \<times> gcp_token_cache"
where
  "bearer_for N A J auth now cache =
     (let key = gcp_cache_key auth in
      case gcp_find cache key now of
        Some t \<Rightarrow> (Inr (gt_bearer t, True), cache)
      | None \<Rightarrow> (case gcp_mint N A J auth now of
          Inl e \<Rightarrow> (Inl e, cache)
        | Inr t \<Rightarrow> (Inr (gt_bearer t, False), bt_insert key t cache)))"

section \<open>Minting through a cache\<close>

text \<open>The discipline of both caches: look up, else mint and remember.\<close>

definition mint_through ::
  "('c \<Rightarrow> 'k \<Rightarrow> u64 \<Rightarrow> 'v option) \<Rightarrow> ('k \<Rightarrow> 'v \<Rightarrow> 'c \<Rightarrow> 'c) \<Rightarrow> ('c \<Rightarrow> ('e + 'v) \<times> 'c) \<Rightarrow> 'k \<Rightarrow> u64 \<Rightarrow> 'c \<Rightarrow>
   ('e + 'v \<times> bool) \<times> 'c"
where
  "mint_through find_fresh remember mint k now c = (case find_fresh c k now of
     Some v \<Rightarrow> (Inr (v, True), c)
   | None \<Rightarrow> (case mint c of
       (Inl e, c') \<Rightarrow> (Inl e, c')
     | (Inr v, c') \<Rightarrow> (Inr (v, False), remember k v c')))"

locale minting_cache =
  fixes find_fresh :: "'c \<Rightarrow> 'k \<Rightarrow> u64 \<Rightarrow> 'v option"
    and remember :: "'k \<Rightarrow> 'v \<Rightarrow> 'c \<Rightarrow> 'c"
    and fresh :: "'v \<Rightarrow> u64 \<Rightarrow> bool"
    and ok :: "'c \<Rightarrow> bool"
  assumes found: "ok c \<Longrightarrow> fresh v now \<Longrightarrow> find_fresh (remember k v c) k now = Some v"
    and stable: "find_fresh c k now = Some v \<Longrightarrow> fresh v later \<Longrightarrow> find_fresh c k later = Some v"
    and kept: "ok c \<Longrightarrow> ok (remember k v c)"
begin

lemma again:
  assumes "mint_through find_fresh remember mint k now c = (Inr (v, hit), c')" "fresh v later"
    and "\<And>r d. mint c = (r, d) \<Longrightarrow> ok d"
  shows "mint_through find_fresh remember mint' k later c' = (Inr (v, True), c')"
  using assms
  by (auto simp: mint_through_def found dest: stable split: option.splits prod.splits sum.splits)

lemma minted: "mint_through find_fresh remember mint k now c = (Inr (v, False), c') \<Longrightarrow>
    find_fresh c k now = None \<and> (\<exists>d. mint c = (Inr v, d) \<and> c' = remember k v d)"
  by (auto simp: mint_through_def split: option.splits prod.splits sum.splits)

lemma stays_ok:
  assumes "mint_through find_fresh remember mint k now c = (r, c')" "ok c" "\<And>r d. mint c = (r, d) \<Longrightarrow> ok d"
  shows "ok c'"
  using assms by (auto simp: mint_through_def kept split: option.splits prod.splits sum.splits)

end

interpretation sts: minting_cache cache_get cache_put
    "\<lambda>c now. cd_expiration_unix c > now + REFRESH_MARGIN_SECS" bt_wf
  by unfold_locales
    (auto simp: cache_get_def cache_put_def bt.get_insert bt_wf_insert split: option.splits if_splits)

interpretation sa: minting_cache gcp_find bt_insert
    "\<lambda>t now. gt_expiration_unix t > now + REFRESH_MARGIN_SECS" bt_wf
  by unfold_locales (auto simp: gcp_find_def bt.get_insert bt_wf_insert split: option.splits if_splits)

lemma credentials_through:
  "credentials_for N A sts role name tags now = mint_through cache_get cache_put
     (assume_role N A sts role name tags now)
     (cache_key role name (sc_duration_secs sts) (address (sc_endpoint sts)) tags) now"
  by (rule ext) (simp add: credentials_for_def mint_through_def Let_def split: option.split prod.split sum.split)

lemma base_through:
  "base_credentials_for N A sts hop now = mint_through cache_get cache_put
     (\<lambda>c. (case read_web_identity_token N (bh_web_identity_token hop) of
        Inl e \<Rightarrow> Inl e
      | Inr token \<Rightarrow> sts_answer A (http_post_form N (sc_endpoint sts) ''/''
          (assume_role_with_web_identity_body (bh_role_arn hop) (bh_session_name hop) token
             BASE_HOP_DURATION_SECS) []), c))
     (cache_key (bh_role_arn hop) (bh_session_name hop) BASE_HOP_DURATION_SECS (address (sc_endpoint sts)) []) now"
  by (rule ext) (simp add: base_credentials_for_def mint_through_def Let_def split: option.split prod.split sum.split)

lemma bearer_through:
  "bearer_for N A J auth now c = map_prod (map_sum id (map_prod gt_bearer id)) id
     (mint_through gcp_find bt_insert (\<lambda>c. (gcp_mint N A J auth now, c)) (gcp_cache_key auth) now c)"
  by (simp add: bearer_for_def mint_through_def Let_def split: option.split sum.split)

lemma assume_role_wf: "assume_role N A sts role name tags now c = (r, c') \<Longrightarrow> bt_wf c \<Longrightarrow> bt_wf c'"
  by (auto simp: assume_role_def base_through Let_def split: option.splits prod.splits sum.splits
    dest: sts.stays_ok)

text \<open>Property C38. The gateway asks STS once per identity and lifetime: credentials that were not
  cached come from a 200 answer to exactly the \<open>AssumeRole\<close> request for this role, session name,
  duration and tags; and until thirty seconds before they expire every later request of the same
  identity is served the same credentials without an exchange, whatever the network does.\<close>

theorem credentials_are_minted_once:
  assumes "credentials_for N A sts role name tags now cache = (Inr (creds, hit), cache')" "bt_wf cache"
    and "later + REFRESH_MARGIN_SECS < cd_expiration_unix creds"
  shows "credentials_for N' A' sts role name tags later cache' = (Inr (creds, True), cache') \<and>
     (\<not> hit \<longrightarrow> (\<exists>extra response.
        http_post_form N (sc_endpoint sts) ''/'' (assume_role_body role name (sc_duration_secs sts) tags) extra =
          Inr (200, response) \<and>
        parse_assume_role_response A response = Inr creds))"
proof (intro conjI impI)
  show "credentials_for N' A' sts role name tags later cache' = (Inr (creds, True), cache')"
    unfolding credentials_through
    by (rule sts.again [OF assms(1) [unfolded credentials_through] assms(3)])
      (use assume_role_wf assms(2) in blast)
next
  assume "\<not> hit"
  with assms(1) have "mint_through cache_get cache_put (assume_role N A sts role name tags now)
      (cache_key role name (sc_duration_secs sts) (address (sc_endpoint sts)) tags) now cache =
      (Inr (creds, False), cache')"
    by (simp add: credentials_through)
  from sts.minted [OF this] obtain d where "assume_role N A sts role name tags now cache = (Inr creds, d)"
    by blast
  then obtain extra where "sts_answer A (http_post_form N (sc_endpoint sts) ''/''
      (assume_role_body role name (sc_duration_secs sts) tags) extra) = Inr creds"
    by (auto simp: assume_role_def Let_def split: option.splits prod.splits sum.splits)
  then show "\<exists>extra response.
      http_post_form N (sc_endpoint sts) ''/'' (assume_role_body role name (sc_duration_secs sts) tags) extra =
        Inr (200, response) \<and> parse_assume_role_response A response = Inr creds"
    by (auto simp: sts_answer_def split: sum.splits if_splits intro!: exI [of _ extra])
qed

text \<open>Property C39. The Google token cache forgets the project: two providers that differ only in the
  project number of their identity pool ask for different audiences but share a cache key, so once
  one of them has minted a token the other is handed that token, without any exchange of its own,
  as long as it is fresh.\<close>

theorem gcp_cache_forgets_project:
  assumes "auth' = auth\<lparr>va_wif := (va_wif auth)\<lparr>wa_project_number := other\<rparr>\<rparr>"
    and "bearer_for N A J auth now cache = (Inr (bearer, False), cache')" "bt_wf cache"
    and "gcp_mint N A J auth now = Inr t" "later + REFRESH_MARGIN_SECS < gt_expiration_unix t"
  shows "bearer_for N' A' J' auth' later cache' = (Inr (bearer, True), cache') \<and>
     (other \<noteq> wa_project_number (va_wif auth) \<longrightarrow> audience (va_wif auth') \<noteq> audience (va_wif auth))"
proof (intro conjI impI)
  have key: "gcp_cache_key auth' = gcp_cache_key auth" by (simp add: gcp_cache_key_def assms(1))
  obtain v where m: "mint_through gcp_find bt_insert (\<lambda>c. (gcp_mint N A J auth now, c)) (gcp_cache_key auth) now cache =
      (Inr (v, False), cache')" and v: "gt_bearer v = bearer"
    using assms(2) unfolding bearer_through by (auto simp: map_prod_def map_sum_def split: prod.splits sum.splits)
  from sa.minted [OF m] have "v = t" using assms(4) by auto
  then have "mint_through gcp_find bt_insert (\<lambda>c. (gcp_mint N' A' J' auth' later, c)) (gcp_cache_key auth)
      later cache' = (Inr (v, True), cache')"
    using sa.again [OF m] assms(3,5) by simp
  then show "bearer_for N' A' J' auth' later cache' = (Inr (bearer, True), cache')"
    by (simp add: bearer_through key v)
next
  assume "other \<noteq> wa_project_number (va_wif auth)"
  then show "audience (va_wif auth') \<noteq> audience (va_wif auth)" by (simp add: audience_def assms(1))
qed

text \<open>A network that answers every request alike.\<close>

definition sts_page :: string where
  "sts_page = ''HTTP/1.1 200 OK'' @ crlf @ crlf @ ''<AccessKeyId>AK</AccessKeyId><SecretAccessKey>SK'' @
     ''</SecretAccessKey><SessionToken>T</SessionToken><Expiration>later</Expiration>''"

definition page_net :: "string \<Rightarrow> net_lib" where
  "page_net page = \<lparr>nl_send = (\<lambda>_ _. Inr page), nl_file = (\<lambda>_. Inr ''token''), nl_env = (\<lambda>_. Inl ''unset'')\<rparr>"

definition page_aws :: aws_lib where
  "page_aws = \<lparr>aw_sha256 = id, aw_hmac = (\<lambda>_. id), aw_datetime = (\<lambda>_. None), aw_parse_rfc3339 = (\<lambda>_. Inr 1000)\<rparr>"

definition page_upstream :: upstream where
  "page_upstream = \<lparr>up_host = ''sts'', up_port = 443, up_tls = True, up_sni = None\<rparr>"

definition page_sts :: sts_config where
  "page_sts = \<lparr>sc_endpoint = page_upstream, sc_role_arn = Bare ''arn'', sc_session_name = Bare ''s'',
     sc_region = ''r'', sc_duration_secs = 900, sc_tags = [], sc_allow = None, sc_base = None\<rparr>"

definition page_creds :: credentials where
  "page_creds = \<lparr>cd_access_key_id = ''AK'', cd_secret_access_key = ''SK'', cd_session_token = ''T'',
     cd_expiration_unix = 1000\<rparr>"

lemma split_ws_graphic: "is_ascii_graphic c \<Longrightarrow> split_ws cur (c # t) = split_ws (c # cur) t"
proof -
  assume "is_ascii_graphic c"
  then have "strip_one whitespace_seqs (c # t) = c # t"
    using graphic_no_space(1) whitespace_seqs_nonempty by (intro strip_one_id) (auto simp: ws_first_def)
  then show ?thesis by (subst split_ws.simps) simp
qed

lemma strip_one_byte:
  "[c] \<in> set ps \<Longrightarrow> \<forall>p \<in> set ps. p \<noteq> [] \<and> (hd p = c \<longrightarrow> p = [c]) \<Longrightarrow> strip_one ps (c # s) = s"
  by (induction ps) (auto simp: neq_Nil_conv)

lemma split_ws_space: "cur \<noteq> [] \<Longrightarrow> split_ws cur (CHR '' '' # t) = rev cur # split_ws [] t"
proof -
  assume cur: "cur \<noteq> []"
  have "strip_one whitespace_seqs (CHR '' '' # t) = t"
  proof (rule strip_one_byte)
    have "list_ex (\<lambda>p. p = [CHR '' '']) whitespace_seqs" by code_simp
    then show "[CHR '' ''] \<in> set whitespace_seqs" unfolding list_ex_iff by blast
    have "list_all (\<lambda>p. p \<noteq> [] \<and> (hd p \<noteq> CHR '' '' \<or> p = [CHR '' ''])) whitespace_seqs" by code_simp
    then show "\<forall>p \<in> set whitespace_seqs. p \<noteq> [] \<and> (hd p = CHR '' '' \<longrightarrow> p = [CHR '' ''])"
      unfolding list_all_iff by blast
  qed
  with cur show ?thesis by (subst split_ws.simps) simp
qed

lemma split_ws_word:
  "list_all is_ascii_graphic w \<Longrightarrow> split_ws cur (w @ t) = split_ws (rev w @ cur) t"
  by (induction w arbitrary: cur) (simp_all add: split_ws_graphic)

lemma split_ws_token:
  assumes "w \<noteq> []" "list_all is_ascii_graphic w"
  shows "split_ws [] (w @ CHR '' '' # t) = w # split_ws [] t"
  using assms split_ws_word [OF assms(2), of "[]" "CHR '' '' # t"] by (simp add: split_ws_space)

lemma sts_page_answer: "http_post (page_net sts_page) u path content_type body extra =
    Inr (200, ''<AccessKeyId>AK</AccessKeyId><SecretAccessKey>SK</SecretAccessKey><SessionToken>T</SessionToken><Expiration>later</Expiration>'')"
proof -
  have "from_utf8_lossy sts_page = sts_page" by (rule from_utf8_lossy_id) code_simp
  moreover obtain rest where "sts_page = ''HTTP/1.1'' @ CHR '' '' # ''200'' @ CHR '' '' # rest"
    by (simp add: sts_page_def)
  moreover have "list_all is_ascii_graphic ''HTTP/1.1''" "list_all is_ascii_graphic ''200''" by code_simp+
  ultimately have "from_utf8_lossy sts_page = sts_page \<and>
      split_ws [] sts_page = ''HTTP/1.1'' # ''200'' # split_ws [] rest"
    by (metis list.distinct(1) split_ws_token)
  moreover have "parse_u16 ''200'' = Some 200"
    by (simp add: parse_u16_def parse_u64_def digits_val_def digit_val_def is_ascii_digit_def)
  moreover have "after_sub (crlf @ crlf) sts_page =
        ''<AccessKeyId>AK</AccessKeyId><SecretAccessKey>SK</SecretAccessKey><SessionToken>T</SessionToken><Expiration>later</Expiration>''"
    by code_simp
  ultimately show ?thesis by (simp add: http_post_def page_net_def Let_def)
qed

lemma sts_page_creds: "parse_assume_role_response page_aws
    ''<AccessKeyId>AK</AccessKeyId><SecretAccessKey>SK</SecretAccessKey><SessionToken>T</SessionToken><Expiration>later</Expiration>'' =
    Inr page_creds"
  by code_simp

theorem credentials_are_minted_once_witness:
  "\<exists>cache'. credentials_for (page_net sts_page) page_aws page_sts ''arn'' ''s'' [] 0 [] = (Inr (page_creds, False), cache') \<and>
     credentials_for (page_net []) page_aws page_sts ''arn'' ''s'' [] 900 cache' = (Inr (page_creds, True), cache')"
proof -
  obtain cache' where c: "credentials_for (page_net sts_page) page_aws page_sts ''arn'' ''s'' [] 0 [] =
      (Inr (page_creds, False), cache')"
    by (simp add: credentials_for_def assume_role_def page_sts_def sts_answer_def http_post_form_def sts_page_answer sts_page_creds
      cache_get_def)
  have "(900 :: u64) + REFRESH_MARGIN_SECS < cd_expiration_unix page_creds"
    by (simp add: page_creds_def REFRESH_MARGIN_SECS_def)
  from credentials_are_minted_once [OF c _ this] c show ?thesis by fastforce
qed

definition page_json :: json_lib where
  "page_json = \<lparr>jl_parse = (\<lambda>_. Inr (JObject [(''accessToken'', JString ''B''), (''access_token'', JString ''F'')])),
     jl_print = (\<lambda>_. []), jl_show_f64 = (\<lambda>_. [])\<rparr>"

definition page_auth :: "string \<Rightarrow> vertex_auth" where
  "page_auth project = \<lparr>va_web_identity_token = \<lparr>tk_file = Some ''f'', tk_env = None\<rparr>,
     va_wif = \<lparr>wa_project_number = project, wa_pool_id = ''pool'', wa_provider_id = ''oidc''\<rparr>,
     va_service_account_email = ''sa@p'', va_sts_endpoint = page_upstream, va_iam_endpoint = page_upstream,
     va_scopes = [''s''], va_lifetime_secs = 3600\<rparr>"

lemma page_fields:
  "json_str_field page_json body ''accessToken'' = Some ''B''"
  "json_str_field page_json body ''access_token'' = Some ''F''"
  "json_str_field page_json body ''expireTime'' = None"
  by (simp_all add: json_str_field_def page_json_def j_get_def bt_get_def as_str_def)

lemma page_token [simp]:
  "read_web_identity_token (page_net page) (va_web_identity_token (page_auth n)) = Inr (trim ''token'')"
  "va_lifetime_secs (page_auth n) = 3600"
  by (simp_all add: read_web_identity_token_def page_net_def page_auth_def)

theorem gcp_cache_forgets_project_witness:
  "\<exists>cache'. bearer_for (page_net sts_page) page_aws page_json (page_auth ''1'') 0 [] = (Inr (''B'', False), cache') \<and>
     bearer_for (page_net []) page_aws page_json (page_auth ''2'') 900 cache' = (Inr (''B'', True), cache') \<and>
     audience (va_wif (page_auth ''2'')) \<noteq> audience (va_wif (page_auth ''1''))"
proof -
  have two: "page_auth ''2'' = (page_auth ''1'')\<lparr>va_wif := (va_wif (page_auth ''1''))\<lparr>wa_project_number := ''2''\<rparr>\<rparr>"
    by (simp add: page_auth_def)
  have mint: "gcp_mint (page_net sts_page) page_aws page_json (page_auth ''1'') 0 =
      Inr \<lparr>gt_bearer = ''B'', gt_expiration_unix = 3600\<rparr>"
    by (simp add: gcp_mint_def page_token sts_page_answer gcp_answer_def page_fields gcp_expiration_def)
  then obtain cache' where b: "bearer_for (page_net sts_page) page_aws page_json (page_auth ''1'') 0 [] =
      (Inr (''B'', False), cache')"
    by (simp add: bearer_for_def gcp_find_def bt_get_def)
  have fresh: "(900 :: u64) + REFRESH_MARGIN_SECS < gt_expiration_unix \<lparr>gt_bearer = ''B'', gt_expiration_unix = 3600\<rparr>"
    by (simp add: REFRESH_MARGIN_SECS_def)
  from gcp_cache_forgets_project [OF two b _ mint fresh, of "page_net []" page_aws page_json]
  have "bearer_for (page_net []) page_aws page_json (page_auth ''2'') 900 cache' = (Inr (''B'', True), cache')"
    and "audience (va_wif (page_auth ''2'')) \<noteq> audience (va_wif (page_auth ''1''))"
    by (simp_all add: page_auth_def)
  with b show ?thesis by blast
qed

end
