(* ===== verification/ModuleState.thy ===== *)
theory ModuleState
  imports OrdMap
begin

text \<open>
  \<open>gateway-wasm/src/state.rs\<close>: the counters a policy module owns and what becomes of them when a
  config swap binds a new version of the module.  The bodies of the declared migrations are
  functions the caller supplies.  The \<open>while\<close> loop of \<open>try_migrate\<close> follows \<open>from == current\<close> with
  nothing that bounds it, so it is a partial function whose \<open>None\<close> is the loop that does not end;
  \<open>migrate_returns\<close> says when it does end and \<open>migration_cycle_hangs\<close> that it need not.
\<close>

type_synonym schema_version = u32
type_synonym counter_map = "(string, 64 word) btree"

record counters =
  ct_schema :: schema_version
  ct_values :: counter_map

definition counters_new :: "schema_version \<Rightarrow> counters" where
  "counters_new schema = \<lparr>ct_schema = schema, ct_values = []\<rparr>"

record migration =
  mg_from :: schema_version
  mg_to :: schema_version
  mg_map :: "counter_map \<Rightarrow> counter_map"

datatype migration_outcome =
    Inherited schema_version nat
  | Migrated schema_version schema_version nat
  | Reset schema_version schema_version u64
  | Initialized schema_version

section \<open>Following the declared migrations\<close>

text \<open>The loop: \<open>Some None\<close> is the \<open>?\<close> on a gap, \<open>Some (Some (current, acc))\<close> its normal end.\<close>

partial_function (option) migrate_loop ::
  "migration list \<Rightarrow> schema_version \<Rightarrow> schema_version \<Rightarrow> counter_map \<Rightarrow>
   (schema_version \<times> counter_map) option option"
where
  "migrate_loop ms current to_v acc =
     (if current < to_v then
        (case find (\<lambda>m. mg_from m = current) ms of
           None \<Rightarrow> Some None
         | Some m \<Rightarrow> migrate_loop ms (mg_to m) to_v (mg_map m acc))
      else Some (Some (current, acc)))"

definition try_migrate ::
  "counter_map \<Rightarrow> schema_version \<Rightarrow> schema_version \<Rightarrow> migration list \<Rightarrow> counter_map option option"
where
  "try_migrate values from_v to_v ms =
     (if to_v < from_v then Some None
      else map_option
        (\<lambda>r. case r of Some (current, acc) \<Rightarrow> (if current = to_v then Some acc else None) | None \<Rightarrow> None)
        (migrate_loop ms from_v to_v values))"

definition plan ::
  "counters option \<Rightarrow> schema_version \<Rightarrow> migration list \<Rightarrow> u64 \<Rightarrow> (counters \<times> migration_outcome) option"
where
  "plan old new_schema ms window =
     (case old of
        None \<Rightarrow> Some (counters_new new_schema, Initialized new_schema)
      | Some c \<Rightarrow>
          if ct_schema c = new_schema
          then Some (c, Inherited new_schema (length (ct_values c)))
          else map_option
            (\<lambda>r. case r of
                Some values \<Rightarrow>
                  (\<lparr>ct_schema = new_schema, ct_values = values\<rparr>,
                   Migrated (ct_schema c) new_schema (length values))
              | None \<Rightarrow> (counters_new new_schema, Reset (ct_schema c) new_schema window))
            (try_migrate (ct_values c) (ct_schema c) new_schema ms))"

section \<open>The store\<close>

type_synonym module_state = "(string, counters) btree"

definition module_state_new :: module_state where
  "module_state_new = []"

definition rebind ::
  "string \<Rightarrow> schema_version \<Rightarrow> migration list \<Rightarrow> u64 \<Rightarrow> module_state \<Rightarrow>
   (migration_outcome \<times> module_state) option"
where
  "rebind name new_schema ms window st =
     map_option (\<lambda>(next_c, outcome). (outcome, bt_insert name next_c st))
       (plan (bt_get st name) new_schema ms window)"

definition counters_of :: "string \<Rightarrow> module_state \<Rightarrow> counters option" where
  "counters_of name st = bt_get st name"

definition bump :: "string \<Rightarrow> string \<Rightarrow> 64 word \<Rightarrow> module_state \<Rightarrow> 64 word \<times> module_state" where
  "bump name key delta st =
     (case bt_get st name of
        None \<Rightarrow> (0, st)
      | Some c \<Rightarrow>
          let v = bt_entry (ct_values c) key 0 + delta
          in (v, bt_insert name (c\<lparr>ct_values := bt_insert key v (ct_values c)\<rparr>) st))"

section \<open>The specification: a path of migrations\<close>

text \<open>\<open>path ms a b vs ws\<close>: the first declared migration out of every schema below \<open>b\<close> leads
  from \<open>a\<close> to exactly \<open>b\<close>, and applying them in order turns \<open>vs\<close> into \<open>ws\<close>.\<close>

inductive migration_path ::
  "migration list \<Rightarrow> schema_version \<Rightarrow> schema_version \<Rightarrow> counter_map \<Rightarrow> counter_map \<Rightarrow> bool"
for ms :: "migration list" and to_v :: schema_version
where
  here: "migration_path ms to_v to_v vs vs"
| hop: "a < to_v \<Longrightarrow> find (\<lambda>m. mg_from m = a) ms = Some m \<Longrightarrow>
    migration_path ms to_v (mg_to m) (mg_map m vs) ws \<Longrightarrow> migration_path ms to_v a vs ws"

inductive_simps migration_path_iff: "migration_path ms to_v a vs ws"

lemma migrate_loop_path:
  "migrate_loop ms a to_v vs = Some r \<Longrightarrow> r = Some (b, ws) \<longrightarrow>
   \<not> b < to_v \<and> (b = to_v \<longrightarrow> migration_path ms to_v a vs ws)"
proof (induction rule: migrate_loop.raw_induct [rotated, consumes 1])
  case (1 loop ms current to_v acc r)
  then show ?case
    by (auto split: if_splits option.splits simp: migration_path.here intro: migration_path.hop)
qed

lemma path_migrate_loop: "migration_path ms to_v a vs ws \<Longrightarrow> migrate_loop ms a to_v vs = Some (Some (to_v, ws))"
  by (induction rule: migration_path.induct) (simp_all add: migrate_loop.simps)

lemma path_le: "migration_path ms to_v a vs ws \<Longrightarrow> a \<le> to_v"
  by (cases rule: migration_path.cases) (auto simp: less_imp_le)

lemma try_migrate_path:
  "try_migrate vs from_v to_v ms = Some (Some ws) \<longleftrightarrow> migration_path ms to_v from_v vs ws"
proof
  assume "try_migrate vs from_v to_v ms = Some (Some ws)"
  then show "migration_path ms to_v from_v vs ws"
    by (auto simp: try_migrate_def dest: migrate_loop_path split: if_splits option.splits prod.splits)
next
  assume p: "migration_path ms to_v from_v vs ws"
  then show "try_migrate vs from_v to_v ms = Some (Some ws)"
    using path_migrate_loop [OF p] path_le [OF p] by (simp add: try_migrate_def)
qed

lemma path_unique: "migration_path ms to_v a vs ws \<Longrightarrow> migration_path ms to_v a vs ws' \<Longrightarrow> ws = ws'"
  by (drule path_migrate_loop)+ simp

section \<open>When the loop ends\<close>

text \<open>Migrations that go up end the loop; the distance to the target is the measure.\<close>

lemma migrate_loop_returns:
  assumes "\<forall>m \<in> set ms. mg_from m < mg_to m"
  shows "\<exists>r. migrate_loop ms a to_v vs = Some r"
proof (induction "unat to_v - unat a" arbitrary: a vs rule: less_induct)
  case less
  show ?case
  proof (cases "a < to_v")
    case False
    then show ?thesis by (simp add: migrate_loop.simps)
  next
    case True
    show ?thesis
    proof (cases "find (\<lambda>m. mg_from m = a) ms")
      case None
      then show ?thesis using True by (simp add: migrate_loop.simps)
    next
      case (Some m)
      then have "m \<in> set ms" "mg_from m = a" by (auto simp: find_Some_iff)
      with assms have "a < mg_to m" by auto
      with True have "unat to_v - unat (mg_to m) < unat to_v - unat a" by (auto simp: word_less_nat_alt)
      from less.hyps [OF this] show ?thesis using True Some by (simp add: migrate_loop.simps)
    qed
  qed
qed

text \<open>Property C35. What a swap does to a module's counters: with migrations that go up the decision
  is always reached; the counters are inherited untouched when the schema is unchanged, mapped
  along the declared path when there is one, and otherwise start over, with the window stated in
  the outcome.\<close>

theorem plan_follows_declared_path:
  assumes "\<forall>m \<in> set ms. mg_from m < mg_to m"
  shows "(ct_schema c = new_schema \<longrightarrow>
       plan (Some c) new_schema ms window = Some (c, Inherited new_schema (length (ct_values c)))) \<and>
     (ct_schema c \<noteq> new_schema \<longrightarrow>
       (\<forall>ws. migration_path ms new_schema (ct_schema c) (ct_values c) ws \<longrightarrow>
          plan (Some c) new_schema ms window =
            Some (\<lparr>ct_schema = new_schema, ct_values = ws\<rparr>, Migrated (ct_schema c) new_schema (length ws))) \<and>
       ((\<nexists>ws. migration_path ms new_schema (ct_schema c) (ct_values c) ws) \<longrightarrow>
          plan (Some c) new_schema ms window =
            Some (counters_new new_schema, Reset (ct_schema c) new_schema window)))"
proof -
  obtain r where "try_migrate (ct_values c) (ct_schema c) new_schema ms = Some r"
    using migrate_loop_returns [OF assms] by (fastforce simp: try_migrate_def)
  then show ?thesis
    by (cases r) (auto simp: plan_def simp flip: try_migrate_path)
qed

definition doubling :: migration where
  "doubling = \<lparr>mg_from = 1, mg_to = 2, mg_map = map (\<lambda>(k, v). (k, 2 * v))\<rparr>"

theorem plan_follows_declared_path_witness:
  "plan (Some \<lparr>ct_schema = 1, ct_values = [(''t'', 10)]\<rparr>) 2 [doubling] 30 =
     Some (\<lparr>ct_schema = 2, ct_values = [(''t'', 20)]\<rparr>, Migrated 1 2 1)"
proof -
  have p: "migration_path [doubling] 2 1 [(''t'', 10)] [(''t'', 20)]"
    by (rule migration_path.hop [where m = doubling]) (simp_all add: doubling_def migration_path.here)
  have up: "\<forall>m \<in> set [doubling]. mg_from m < mg_to m" by (simp add: doubling_def)
  show ?thesis
    using plan_follows_declared_path [OF up, of "\<lparr>ct_schema = 1, ct_values = [(''t'', 10)]\<rparr>" 2 30] p by simp
qed

text \<open>A migration that does not go up and starts below the target is followed forever.\<close>

lemma cycle_never_ends:
  "migrate_loop ms a to_v vs = Some r \<Longrightarrow>
   ms = [m] \<and> mg_from m = a \<and> mg_to m = a \<longrightarrow> \<not> a < to_v"
proof (induction rule: migrate_loop.raw_induct [rotated, consumes 1])
  case (1 loop ms current to_v acc r)
  then show ?case by (auto split: if_splits)
qed

lemma migration_cycle_hangs:
  assumes "mg_from m = ct_schema c" "mg_to m = ct_schema c" "ct_schema c < new_schema"
  shows "plan (Some c) new_schema [m] window = None"
proof -
  have "migrate_loop [m] (ct_schema c) new_schema vs = None" for vs
    using cycle_never_ends [of "[m]" "ct_schema c" new_schema vs _ m] assms
    by (cases "migrate_loop [m] (ct_schema c) new_schema vs") auto
  then show ?thesis using assms(3) by (auto simp: plan_def try_migrate_def)
qed

end
