(* ===== verification/EventStream.thy ===== *)
theory EventStream
  imports OrdMap Sse
begin

text \<open>
  \<open>gateway-core/src/eventstream.rs\<close>: AWS event-stream frames, the incremental decoder and
  the encoder.  The checksum \<open>crc32fast::hash\<close> is the parameter \<open>crc\<close>; nothing is assumed
  of it.  A \<open>HashMap<String, String>\<close> is the sorted list of its entries.  \<open>usize\<close> is 64
  bits wide and every sum below is far from that, so positions are natural numbers.
  Lemmas: the decoder meets the contract \<open>fallible_chunked\<close>, and decoding an encoded frame
  gives back its headers and payload.
\<close>

type_synonym crc32 = "string \<Rightarrow> u32"

section \<open>Big-endian integers\<close>

fun be_bytes :: "nat \<Rightarrow> nat \<Rightarrow> string" where
  "be_bytes 0 n = []"
| "be_bytes (Suc k) n = char_of (n div 256 ^ k) # be_bytes k (n mod 256 ^ k)"

definition be_nat :: "string \<Rightarrow> nat" where
  "be_nat bs = foldl (\<lambda>n b. n * 256 + of_char b) 0 bs"

definition u32_be :: "u32 \<Rightarrow> string" where
  "u32_be w = be_bytes 4 (unat w)"

lemma length_be_bytes [simp]: "length (be_bytes k n) = k"
  by (induction k n rule: be_bytes.induct) auto

lemma length_u32_be [simp]: "length (u32_be w) = 4"
  by (simp add: u32_be_def)

lemma be_nat_foldl: "foldl (\<lambda>n b. n * 256 + of_char b) a bs = a * 256 ^ length bs + be_nat bs"
proof (induction bs arbitrary: a)
  case Nil
  then show ?case by (simp add: be_nat_def)
next
  case (Cons b bs)
  show ?case
    unfolding be_nat_def foldl_Cons Cons [of "a * 256 + of_char b"] Cons [of "0 * 256 + of_char b"]
    by (simp add: algebra_simps)
qed

lemma be_nat_Cons: "be_nat (b # bs) = of_char b * 256 ^ length bs + be_nat bs"
  unfolding be_nat_def foldl_Cons by (subst be_nat_foldl) (simp add: be_nat_def)

lemma be_nat_bytes: "n < 256 ^ k \<Longrightarrow> be_nat (be_bytes k n) = n"
proof (induction k arbitrary: n)
  case 0
  then show ?case by (simp add: be_nat_def)
next
  case (Suc k)
  have "n div 256 ^ k < 256" using Suc.prems by (simp add: div_less_iff_less_mult mult.commute)
  then have "of_char (char_of (n div 256 ^ k) :: char) = n div 256 ^ k" by (simp add: of_char_of)
  moreover have "be_nat (be_bytes k (n mod 256 ^ k)) = n mod 256 ^ k" by (rule Suc.IH) simp
  ultimately show ?case by (simp add: be_nat_Cons div_mult_mod_eq)
qed

lemma be_nat_u32 [simp]: "be_nat (u32_be w) = unat w"
  using unsigned_less [of w, where 'a = nat] by (simp add: u32_be_def be_nat_bytes)

section \<open>Frames\<close>

record frame =
  fr_headers :: "(string, string) btree"
  fr_payload :: string

datatype frame_error =
    FrameTooShort nat
  | PreludeCrcMismatch
  | MessageCrcMismatch
  | HeadersOverrun
  | TruncatedHeader
  | UnsupportedHeaderType nat
  | TruncatedHeaderValue

definition slice :: "nat \<Rightarrow> nat \<Rightarrow> string \<Rightarrow> string" where
  "slice a b s = drop a (take b s)"

function decode_headers ::
  "string \<Rightarrow> nat \<Rightarrow> nat \<Rightarrow> (string, string) btree \<Rightarrow> frame_error + (string, string) btree"
where
  "decode_headers fr headers_end pos headers =
     (if pos \<ge> headers_end then Inr headers
      else
        (let name_len = of_char (fr ! pos); p1 = pos + 1
         in if p1 + name_len + 3 > headers_end then Inl TruncatedHeader
            else
              (let name = from_utf8_lossy (slice p1 (p1 + name_len) fr);
                   p2 = p1 + name_len;
                   value_type = of_char (fr ! p2);
                   p3 = p2 + 1
               in if value_type \<noteq> 7 then Inl (UnsupportedHeaderType value_type)
                  else
                    (let value_len = be_nat (slice p3 (p3 + 2) fr); p4 = p3 + 2
                     in if p4 + value_len > headers_end then Inl TruncatedHeaderValue
                        else decode_headers fr headers_end (p4 + value_len)
                          (bt_insert name (from_utf8_lossy (slice p4 (p4 + value_len) fr)) headers)))))"
  by pat_completeness auto

termination
  by (relation "measure (\<lambda>(fr, e, pos, h). e - pos)") auto

declare decode_headers.simps [simp del]

definition decode_frame :: "crc32 \<Rightarrow> string \<Rightarrow> frame_error + frame" where
  "decode_frame crc fr =
     (let headers_len = be_nat (slice 4 8 fr);
          prelude_crc = be_nat (slice 8 12 fr);
          msg_crc_offset = length fr - 4;
          headers_end = 12 + headers_len
      in if unat (crc (take 8 fr)) \<noteq> prelude_crc then Inl PreludeCrcMismatch
         else if unat (crc (take msg_crc_offset fr)) \<noteq> be_nat (drop msg_crc_offset fr)
           then Inl MessageCrcMismatch
         else if headers_end > msg_crc_offset then Inl HeadersOverrun
         else (case decode_headers fr headers_end 12 [] of
                 Inl e \<Rightarrow> Inl e
               | Inr headers \<Rightarrow>
                   Inr \<lparr>fr_headers = headers, fr_payload = slice headers_end msg_crc_offset fr\<rparr>))"

section \<open>The incremental decoder\<close>

text \<open>The state is the buffer.  An error returns at once: the frames already decoded by
  the call are dropped, the offending frame is consumed unless its length itself is
  impossible.\<close>

function fd_loop :: "crc32 \<Rightarrow> string \<Rightarrow> (frame_error + frame list) \<times> string" where
  "fd_loop crc buf =
     (if length buf < 12 then (Inr [], buf)
      else
        (let total = be_nat (take 4 buf)
         in if total < 16 then (Inl (FrameTooShort total), buf)
            else if length buf < total then (Inr [], buf)
            else (case decode_frame crc (take total buf) of
                    Inl e \<Rightarrow> (Inl e, drop total buf)
                  | Inr f \<Rightarrow>
                      (case fd_loop crc (drop total buf) of
                         (Inl e, rest) \<Rightarrow> (Inl e, rest)
                       | (Inr fs, rest) \<Rightarrow> (Inr (f # fs), rest)))))"
  by pat_completeness auto

termination
  by (relation "measure (\<lambda>(c, buf). length buf)") auto

declare fd_loop.simps [simp del]

definition fd_feed :: "crc32 \<Rightarrow> string \<Rightarrow> string \<Rightarrow> (frame_error + frame list) \<times> string" where
  "fd_feed crc buf bytes = fd_loop crc (buf @ bytes)"

definition fd_pending_bytes :: "string \<Rightarrow> nat" where
  "fd_pending_bytes buf = length buf"

definition encode_header :: "string \<times> string \<Rightarrow> string" where
  "encode_header = (\<lambda>(name, val).
     be_bytes 1 (length name mod 256) @ name @ [char_of (7 :: nat)] @
     be_bytes 2 (length val mod 2 ^ 16) @ val)"

definition encode_frame :: "crc32 \<Rightarrow> (string \<times> string) list \<Rightarrow> string \<Rightarrow> string" where
  "encode_frame crc headers payload =
     (let header_bytes = concat (map encode_header headers);
          total = 12 + length header_bytes + length payload + 4;
          f0 = u32_be (of_nat total) @ u32_be (of_nat (length header_bytes));
          f1 = f0 @ u32_be (crc f0) @ header_bytes @ payload
      in f1 @ u32_be (crc f1))"

section \<open>The decoder's contract\<close>

lemma fd_loop_split:
  "fd_loop crc (a @ b) = (Inr xs, r) \<Longrightarrow>
     \<exists>r1 ys zs. fd_loop crc a = (Inr ys, r1) \<and> fd_loop crc (r1 @ b) = (Inr zs, r) \<and> xs = ys @ zs"
proof (induction crc a arbitrary: xs rule: fd_loop.induct)
  case (1 crc a)
  let ?t = "be_nat (take 4 a)"
  show ?case
  proof (cases "length a < 12 \<or> (\<not> ?t < 16 \<and> length a < ?t)")
    case True
    then have "fd_loop crc a = (Inr [], a)" by (subst fd_loop.simps) (auto simp: Let_def)
    then show ?thesis using "1.prems" by auto
  next
    case False
    have t: "take 4 (a @ b) = take 4 a" using False by simp
    have nt: "\<not> ?t < 16" "\<not> length a < ?t" "\<not> length a < 12"
    proof -
      show ge: "\<not> ?t < 16"
      proof
        assume "?t < 16"
        then have "fst (fd_loop crc (a @ b)) = Inl (FrameTooShort ?t)"
          using False t by (subst fd_loop.simps) (simp add: Let_def)
        then show False using "1.prems" by simp
      qed
      show "\<not> length a < ?t" using False ge by simp
      show "\<not> length a < 12" using False by simp
    qed
    then have tk: "take ?t (a @ b) = take ?t a" "drop ?t (a @ b) = drop ?t a @ b" by simp_all
    from "1.prems" nt obtain f xs' where f: "decode_frame crc (take ?t a) = Inr f"
      and rest: "fd_loop crc (drop ?t a @ b) = (Inr xs', r)" and xs: "xs = f # xs'"
      by (subst (asm) fd_loop.simps) (auto simp: t tk Let_def split: sum.splits prod.splits)
    from "1.IH" [OF nt(3) refl nt(1,2) f rest] obtain r1 ys zs where
      IH: "fd_loop crc (drop ?t a) = (Inr ys, r1)" "fd_loop crc (r1 @ b) = (Inr zs, r)"
        "xs' = ys @ zs" by blast
    then have "fd_loop crc a = (Inr (f # ys), r1)"
      using nt f by (subst fd_loop.simps) (simp add: Let_def)
    then show ?thesis using IH xs by auto
  qed
qed

lemma fd_loop_join:
  "fd_loop crc a = (Inr ys, r1) \<Longrightarrow> fd_loop crc (r1 @ b) = (Inr zs, r) \<Longrightarrow>
     fd_loop crc (a @ b) = (Inr (ys @ zs), r)"
proof (induction crc a arbitrary: ys rule: fd_loop.induct)
  case (1 crc a)
  let ?t = "be_nat (take 4 a)"
  show ?case
  proof (cases "length a < 12 \<or> (\<not> ?t < 16 \<and> length a < ?t)")
    case True
    then have "fd_loop crc a = (Inr [], a)" by (subst fd_loop.simps) (auto simp: Let_def)
    then show ?thesis using "1.prems" by auto
  next
    case False
    have nt: "\<not> ?t < 16" "\<not> length a < ?t" "\<not> length a < 12"
      using False "1.prems"(1) by (auto simp: fd_loop.simps [of crc a] Let_def split: if_splits)
    have tk: "take 4 (a @ b) = take 4 a" "take ?t (a @ b) = take ?t a"
      "drop ?t (a @ b) = drop ?t a @ b" using nt by simp_all
    from "1.prems"(1) nt obtain f ys' where f: "decode_frame crc (take ?t a) = Inr f"
      and rest: "fd_loop crc (drop ?t a) = (Inr ys', r1)" and ys: "ys = f # ys'"
      by (subst (asm) fd_loop.simps) (auto simp: Let_def split: sum.splits prod.splits)
    from "1.IH" [OF nt(3) refl nt(1,2) f rest "1.prems"(2)]
    have "fd_loop crc (drop ?t a @ b) = (Inr (ys' @ zs), r)" .
    then show ?thesis using nt f ys by (subst fd_loop.simps) (simp add: tk Let_def)
  qed
qed

interpretation frames: fallible_chunked "fd_feed crc" for crc
proof
  fix s a b xs s'
  assume "fd_feed crc s (a @ b) = (Inr xs, s')"
  then show "\<exists>s1 ys zs. fd_feed crc s a = (Inr ys, s1) \<and> fd_feed crc s1 b = (Inr zs, s') \<and> xs = ys @ zs"
    using fd_loop_split [of crc "s @ a" b] by (simp add: fd_feed_def)
next
  fix s a ys s1 b zs s'
  assume "fd_feed crc s a = (Inr ys, s1)" "fd_feed crc s1 b = (Inr zs, s')"
  then show "fd_feed crc s (a @ b) = (Inr (ys @ zs), s')"
    using fd_loop_join [of crc "s @ a" ys s1 b] by (simp add: fd_feed_def)
qed

section \<open>Encoding and decoding\<close>

lemma slice_mid: "length a = i \<Longrightarrow> length b = j - i \<Longrightarrow> i \<le> j \<Longrightarrow> slice i j (a @ b @ c) = b"
  by (simp add: slice_def)

definition header_ok :: "string \<times> string \<Rightarrow> bool" where
  "header_ok = (\<lambda>(name, val).
     length name < 256 \<and> length val < 2 ^ 16 \<and> is_utf8 name \<and> is_utf8 val)"

lemma decode_headers_encoded:
  assumes "list_all header_ok hs"
    and "pos = length pre" and "e = pos + length (concat (map encode_header hs))"
  shows "decode_headers (pre @ concat (map encode_header hs) @ post) e pos h =
    Inr (fold (\<lambda>(k, v). bt_insert k v) hs h)"
  using assms
proof (induction hs arbitrary: pre pos h)
  case Nil
  then show ?case by (subst decode_headers.simps) simp
next
  case (Cons kv hs)
  obtain name val where kv: "kv = (name, val)" by (cases kv)
  have ok: "length name < 256" "length val < 2 ^ 16" "is_utf8 name" "is_utf8 val"
    using Cons.prems(1) by (simp_all add: header_ok_def kv)
  let ?tail = "concat (map encode_header hs)"
  let ?lv = "be_bytes 2 (length val)"
  let ?hdr = "[char_of (length name)] @ name @ [char_of (7 :: nat)] @ ?lv @ val"
  let ?fr = "pre @ ?hdr @ ?tail @ post"
  have enc: "encode_header kv = ?hdr" using ok by (simp add: encode_header_def kv)
  have fr: "pre @ concat (map encode_header (kv # hs)) @ post = ?fr" by (simp add: enc)
  let ?p1 = "pos + 1" let ?p2 = "?p1 + length name" let ?p3 = "?p2 + 1" let ?p4 = "?p3 + 2"
  have e: "e = ?p4 + length val + length ?tail" using Cons.prems(3) by (simp add: enc)
  have b1: "of_char (?fr ! pos) = length name"
    using ok(1) by (simp add: Cons.prems(2) nth_append of_char_of)
  have b2: "of_char (?fr ! ?p2) = (7 :: nat)"
    by (simp add: Cons.prems(2) nth_append of_char_of)
  have s1: "slice ?p1 (?p1 + length name) ?fr = name"
    using slice_mid [of "pre @ [char_of (length name)]" ?p1 name "?p1 + length name"
        "[char_of (7 :: nat)] @ ?lv @ val @ ?tail @ post"] Cons.prems(2) by simp
  have s2: "slice ?p3 (?p3 + 2) ?fr = ?lv"
    using slice_mid [of "pre @ [char_of (length name)] @ name @ [char_of (7 :: nat)]" ?p3
        ?lv "?p3 + 2" "val @ ?tail @ post"] Cons.prems(2) by simp
  have s3: "slice ?p4 (?p4 + length val) ?fr = val"
    using slice_mid [of "pre @ [char_of (length name)] @ name @ [char_of (7 :: nat)] @ ?lv" ?p4
        val "?p4 + length val" "?tail @ post"] Cons.prems(2) by simp
  have vl: "be_nat ?lv = length val" using ok(2) by (intro be_nat_bytes) simp
  have IH: "decode_headers ((pre @ ?hdr) @ ?tail @ post) e (?p4 + length val) (bt_insert name val h) =
      Inr (fold (\<lambda>(k, v). bt_insert k v) hs (bt_insert name val h))"
    by (rule Cons.IH) (use Cons.prems in \<open>simp_all add: e\<close>)
  have "decode_headers ?fr e pos h =
      decode_headers ?fr e (?p4 + length val) (bt_insert name val h)"
    by (subst decode_headers.simps)
      (simp only: Let_def b1 b2 s1 s2 s3 vl from_utf8_lossy_id [OF ok(3)] from_utf8_lossy_id [OF ok(4)],
        simp add: e)
  then show ?case using IH unfolding fr by (simp add: kv)
qed

definition frame_ok :: "(string \<times> string) list \<times> string \<Rightarrow> bool" where
  "frame_ok = (\<lambda>(hs, payload). list_all header_ok hs \<and>
     16 + length (concat (map encode_header hs)) + length payload < 2 ^ 32)"

lemma unat_of_nat_u32: "n < 2 ^ 32 \<Longrightarrow> unat (of_nat n :: u32) = n"
  by (simp add: unat_of_nat)

lemma encode_frame_shape:
  assumes "frame_ok (hs, payload)"
  obtains f1 where
    "encode_frame crc hs payload = f1 @ u32_be (crc f1)"
    "f1 = u32_be (of_nat (length f1 + 4)) @
      u32_be (of_nat (length (concat (map encode_header hs)))) @
      u32_be (crc (take 8 f1)) @ concat (map encode_header hs) @ payload"
proof
  let ?hb = "concat (map encode_header hs)"
  let ?f0 = "u32_be (of_nat (12 + length ?hb + length payload + 4)) @ u32_be (of_nat (length ?hb))"
  let ?f1 = "?f0 @ u32_be (crc ?f0) @ ?hb @ payload"
  show "encode_frame crc hs payload = ?f1 @ u32_be (crc ?f1)"
    unfolding encode_frame_def Let_def by simp
  have "length ?f1 + 4 = 12 + length ?hb + length payload + 4" "take 8 ?f1 = ?f0" by simp_all
  then show "?f1 = u32_be (of_nat (length ?f1 + 4)) @ u32_be (of_nat (length ?hb)) @
      u32_be (crc (take 8 ?f1)) @ ?hb @ payload" by simp
qed

lemma decode_encode_frame:
  assumes "frame_ok (hs, payload)"
  shows "decode_frame crc (encode_frame crc hs payload) =
    Inr \<lparr>fr_headers = bt_of_list hs, fr_payload = payload\<rparr>"
proof -
  let ?hb = "concat (map encode_header hs)"
  from assms have ok: "list_all header_ok hs" and len: "16 + length ?hb + length payload < 2 ^ 32"
    by (simp_all add: frame_ok_def)
  from encode_frame_shape [OF assms, of crc] obtain f1 where
    enc: "encode_frame crc hs payload = f1 @ u32_be (crc f1)" and
    f1: "f1 = u32_be (of_nat (length f1 + 4)) @ u32_be (of_nat (length ?hb)) @
      u32_be (crc (take 8 f1)) @ ?hb @ payload" by blast
  let ?fr = "f1 @ u32_be (crc f1)"
  let ?pre = "u32_be (of_nat (length f1 + 4)) @ u32_be (of_nat (length ?hb)) @ u32_be (crc (take 8 f1))"
  have fr: "?fr = ?pre @ ?hb @ payload @ u32_be (crc f1)" by (subst (1) f1) simp
  have lf: "length f1 = 12 + length ?hb + length payload" by (subst f1) simp
  have s1: "be_nat (slice 4 8 ?fr) = length ?hb"
    using slice_mid [of "u32_be (of_nat (length f1 + 4))" 4 "u32_be (of_nat (length ?hb))" 8] len
    by (subst fr) (simp add: unat_of_nat_u32)
  have s2: "be_nat (slice 8 12 ?fr) = unat (crc (take 8 f1))"
    using slice_mid [of "u32_be (of_nat (length f1 + 4)) @ u32_be (of_nat (length ?hb))" 8
        "u32_be (crc (take 8 f1))" 12]
    by (subst fr) simp
  have t: "take 8 ?fr = take 8 f1" "take (length f1) ?fr = f1" "drop (length f1) ?fr = u32_be (crc f1)"
    "length ?fr - 4 = length f1" using lf by simp_all
  have h: "decode_headers ?fr (12 + length ?hb) 12 [] = Inr (bt_of_list hs)"
    unfolding fr bt_of_list_def by (rule decode_headers_encoded) (simp_all add: ok)
  have pl: "slice (12 + length ?hb) (length f1) ?fr = payload"
  proof -
    have "slice (12 + length ?hb) (length f1) ((?pre @ ?hb) @ payload @ u32_be (crc f1)) = payload"
      by (rule slice_mid) (simp_all add: lf)
    then show ?thesis by (simp only: fr append_assoc)
  qed
  show ?thesis
    unfolding enc decode_frame_def Let_def s1 s2 t be_nat_u32 h pl using lf by simp
qed

lemma fd_loop_encoded:
  assumes "frame_ok (hs, payload)"
  shows "fd_loop crc (encode_frame crc hs payload @ rest) =
    (case fd_loop crc rest of
       (Inl e, r) \<Rightarrow> (Inl e, r)
     | (Inr fs, r) \<Rightarrow> (Inr (\<lparr>fr_headers = bt_of_list hs, fr_payload = payload\<rparr> # fs), r))"
proof -
  let ?hb = "concat (map encode_header hs)"
  let ?f = "encode_frame crc hs payload"
  from assms have len: "16 + length ?hb + length payload < 2 ^ 32" by (simp add: frame_ok_def)
  from encode_frame_shape [OF assms, of crc] obtain f1 where
    enc: "?f = f1 @ u32_be (crc f1)" and
    f1: "f1 = u32_be (of_nat (length f1 + 4)) @ u32_be (of_nat (length ?hb)) @
      u32_be (crc (take 8 f1)) @ ?hb @ payload" by blast
  have lf: "length ?f = 16 + length ?hb + length payload" "length f1 + 4 = length ?f"
    unfolding enc by (subst f1, simp) simp
  have "take 4 (?f @ rest) = u32_be (of_nat (length ?f))"
    unfolding enc lf(2) [unfolded enc, symmetric] by (subst f1) simp
  moreover have "unat (of_nat (length ?f) :: u32) = length ?f"
    by (rule unat_of_nat_u32) (use len lf(1) in simp)
  ultimately have t: "be_nat (take 4 (?f @ rest)) = length ?f" by (simp only: be_nat_u32)
  show ?thesis
    unfolding fd_loop.simps [of crc "?f @ rest"] t Let_def
    using decode_encode_frame [OF assms, of crc] lf(1) by simp
qed

lemma fd_loop_encoded_all:
  "list_all frame_ok fs \<Longrightarrow>
     fd_loop crc (concat (map (\<lambda>(hs, payload). encode_frame crc hs payload) fs)) =
       (Inr (map (\<lambda>(hs, payload). \<lparr>fr_headers = bt_of_list hs, fr_payload = payload\<rparr>) fs), [])"
proof (induction fs)
  case Nil
  then show ?case by (subst fd_loop.simps) simp
next
  case (Cons f fs)
  then show ?case by (cases f) (simp add: fd_loop_encoded)
qed

text \<open>Property C16. Frames that are encoded one after the other decode to their headers and
  payloads in the same order with nothing left over, however the bytes are cut into chunks.\<close>

theorem frames_survive_chunking:
  assumes "list_all frame_ok fs" "cs \<noteq> []"
    and "concat cs = concat (map (\<lambda>(hs, payload). encode_frame crc hs payload) fs)"
  shows "feed_all (fd_feed crc) [] cs =
     (Inr (map (\<lambda>(hs, payload). \<lparr>fr_headers = bt_of_list hs, fr_payload = payload\<rparr>) fs), [])"
  unfolding frames.feed_all_concat [OF assms(2)] assms(3) fd_feed_def
  using fd_loop_encoded_all [OF assms(1), of crc] by simp

theorem frames_survive_chunking_witness:
  "feed_all (fd_feed (\<lambda>_. 7)) []
     [take 5 (encode_frame (\<lambda>_. 7) [(''a'', ''b'')] ''{}''), drop 5 (encode_frame (\<lambda>_. 7) [(''a'', ''b'')] ''{}'')] =
   (Inr [\<lparr>fr_headers = [(''a'', ''b'')], fr_payload = ''{}''\<rparr>], [])"
proof -
  have "is_utf8 ''a''" "is_utf8 ''b''" by code_simp+
  then have "frame_ok ([(''a'', ''b'')], ''{}'')"
    by (simp add: frame_ok_def header_ok_def encode_header_def)
  then show ?thesis
    using frames_survive_chunking [of "[([(''a'', ''b'')], ''{}'')]"
        "[take 5 (encode_frame (\<lambda>_. 7) [(''a'', ''b'')] ''{}''), drop 5 (encode_frame (\<lambda>_. 7) [(''a'', ''b'')] ''{}'')]"
        "\<lambda>_. 7"] by (simp add: bt_of_list_def)
qed

text \<open>A corrupt frame takes the frames decoded before it in the same call along, so what is
  read of a damaged stream does depend on the chunks.\<close>

lemma corrupt_frame_drops_decoded:
  assumes "frame_ok (hs, payload)" "fd_loop crc bad = (Inl e, rest)"
  shows "feed_all (fd_feed crc) [] [encode_frame crc hs payload @ bad] = (Inl e, rest) \<and>
    fd_feed crc [] (encode_frame crc hs payload) =
      (Inr [\<lparr>fr_headers = bt_of_list hs, fr_payload = payload\<rparr>], [])"
proof -
  have "fd_loop crc [] = (Inr [], [])" by (subst fd_loop.simps) simp
  then show ?thesis
    using fd_loop_encoded [OF assms(1), of crc bad] fd_loop_encoded [OF assms(1), of crc "[]"] assms(2)
    by (simp add: fd_feed_def)
qed

end
