(* ===== verification/Adapters.thy ===== *)
theory Adapters
  imports Config EventStream
begin

text \<open>
  \<open>gateway-core/src/event.rs\<close> and \<open>adapters/\<close>: the canonical events and the adapters that
  normalize each provider's stream into them.  An adapter is a parser and a machine that
  handles one parsed frame; its state is the parser's buffer and the machine's fields.
  Lemmas: every adapter over server-sent events meets the contract \<open>chunked\<close>, because its
  parser does; and what each machine emits.
\<close>

datatype event =
    MessageStart "string option" "string option"
  | ContentDelta u32 string
  | ToolCallDelta u32 "string option" "string option" string
  | UsageDelta "u64 option" "u64 option"
  | MessageEnd "string option"
  | EError string string

section \<open>A machine over a parser\<close>

fun run :: "('s \<Rightarrow> 'e \<Rightarrow> 'o list \<times> 's) \<Rightarrow> 's \<Rightarrow> 'e list \<Rightarrow> 'o list \<times> 's" where
  "run handle s [] = ([], s)"
| "run handle s (e # es) =
     (let (out, s1) = handle s e; (outs, s2) = run handle s1 es in (out @ outs, s2))"

definition adapt ::
  "('b \<Rightarrow> string \<Rightarrow> 'e list \<times> 'b) \<Rightarrow> ('s \<Rightarrow> 'e \<Rightarrow> 'o list \<times> 's) \<Rightarrow> 'b \<times> 's \<Rightarrow> string \<Rightarrow>
   'o list \<times> 'b \<times> 's"
where
  "adapt parse handle = (\<lambda>(b, s) bytes.
     let (es, b1) = parse b bytes; (out, s1) = run handle s es in (out, b1, s1))"

lemma run_append: "run handle s (xs @ ys) =
    (let (out, s1) = run handle s xs; (outs, s2) = run handle s1 ys in (out @ outs, s2))"
  by (induction xs arbitrary: s) (auto split: prod.splits)

locale normalizer = chunked parse
  for parse :: "'b \<Rightarrow> string \<Rightarrow> 'e list \<times> 'b" +
  fixes handle :: "'s \<Rightarrow> 'e \<Rightarrow> 'o list \<times> 's"

sublocale normalizer \<subseteq> adapted: chunked "adapt parse handle"
proof
  fix s :: "'b \<times> 's" and a b
  show "adapt parse handle s (a @ b) =
      (let (ys, s1) = adapt parse handle s a; (zs, s2) = adapt parse handle s1 b in (ys @ zs, s2))"
    by (cases s) (simp add: adapt_def step_append run_append split: prod.splits)
qed

definition bad_chunk :: "string \<Rightarrow> event" where
  "bad_chunk e = EError ''bad_chunk'' e"

definition index_of :: "json \<Rightarrow> string \<Rightarrow> u32" where
  "index_of v k = ucast (unwrap_or (as_u64 (j_field v k)) 0)"

definition str_of :: "json \<Rightarrow> string \<Rightarrow> string option" where
  "str_of v k = as_str (j_field v k)"

section \<open>Anthropic\<close>

record anthropic_state =
  an_input_tokens :: "u64 option"
  an_stop_reason :: "string option"

definition anthropic_new :: "string \<times> anthropic_state" where
  "anthropic_new = ([], \<lparr>an_input_tokens = None, an_stop_reason = None\<rparr>)"

definition an_block_start :: "json \<Rightarrow> event list" where
  "an_block_start data =
     (let index = index_of data ''index'';
          block = j_field data ''content_block''
      in if str_of block ''type'' = Some ''text'' then
           (case str_of block ''text'' of
              Some t \<Rightarrow> if t = [] then [] else [ContentDelta index t]
            | None \<Rightarrow> [])
         else if str_of block ''type'' = Some ''tool_use'' then
           [ToolCallDelta index (str_of block ''id'') (str_of block ''name'') []]
         else [])"

definition an_block_delta :: "json \<Rightarrow> event list" where
  "an_block_delta data =
     (let index = index_of data ''index'';
          delta = j_field data ''delta''
      in if str_of delta ''type'' = Some ''text_delta'' then
           (case str_of delta ''text'' of Some t \<Rightarrow> [ContentDelta index t] | None \<Rightarrow> [])
         else if str_of delta ''type'' = Some ''input_json_delta'' then
           [ToolCallDelta index None None (unwrap_or (str_of delta ''partial_json'') [])]
         else [])"

definition anthropic_data :: "anthropic_state \<Rightarrow> json \<Rightarrow> event list \<times> anthropic_state" where
  "anthropic_data s data =
     (let ty = unwrap_or (str_of data ''type'') []
      in if ty = ''message_start'' then
           (let msg = j_field data ''message'';
                input = as_u64 (j_field (j_field msg ''usage'') ''input_tokens'')
            in (MessageStart (str_of msg ''id'') (str_of msg ''model'') #
                  (if input \<noteq> None
                   then [UsageDelta input (as_u64 (j_field (j_field msg ''usage'') ''output_tokens''))]
                   else []),
                s\<lparr>an_input_tokens := input\<rparr>))
         else if ty = ''content_block_start'' then (an_block_start data, s)
         else if ty = ''content_block_delta'' then (an_block_delta data, s)
         else if ty = ''message_delta'' then
           ((if is_object (j_field data ''usage'')
             then [UsageDelta (an_input_tokens s) (as_u64 (j_field (j_field data ''usage'') ''output_tokens''))]
             else []),
            (case str_of (j_field data ''delta'') ''stop_reason'' of
               Some r \<Rightarrow> s\<lparr>an_stop_reason := Some r\<rparr>
             | None \<Rightarrow> s))
         else if ty = ''message_stop'' then
           ([MessageEnd (an_stop_reason s)], s\<lparr>an_stop_reason := None\<rparr>)
         else if ty = ''error'' then
           ([EError (unwrap_or (str_of (j_field data ''error'') ''type'') ''error'')
               (unwrap_or (str_of (j_field data ''error'') ''message'') [])], s)
         else ([], s))"

definition anthropic_event :: "json_lib \<Rightarrow> anthropic_state \<Rightarrow> sse_event \<Rightarrow> event list \<times> anthropic_state" where
  "anthropic_event J s ev =
     (if se_data ev = [] then ([], s)
      else (case jl_parse J (se_data ev) of
              Inl e \<Rightarrow> ([bad_chunk e], s)
            | Inr data \<Rightarrow> anthropic_data s data))"

definition anthropic_feed ::
  "json_lib \<Rightarrow> string \<times> anthropic_state \<Rightarrow> string \<Rightarrow> event list \<times> string \<times> anthropic_state"
where
  "anthropic_feed J = adapt sse_feed (anthropic_event J)"

section \<open>OpenAI\<close>

record openai_state =
  oa_started :: bool
  oa_done :: bool
  oa_stop_reason :: "string option"

definition openai_new :: "string \<times> openai_state" where
  "openai_new = ([], \<lparr>oa_started = False, oa_done = False, oa_stop_reason = None\<rparr>)"

definition oa_tool_call :: "json \<Rightarrow> event" where
  "oa_tool_call tc = ToolCallDelta (index_of tc ''index'') (str_of tc ''id'')
     (str_of (j_field tc ''function'') ''name'')
     (unwrap_or (str_of (j_field tc ''function'') ''arguments'') [])"

definition oa_choice :: "json \<Rightarrow> event list" where
  "oa_choice choice =
     (let delta = j_field choice ''delta''
      in (case str_of delta ''content'' of
            Some t \<Rightarrow> if t = [] then [] else [ContentDelta (index_of choice ''index'') t]
          | None \<Rightarrow> []) @
         map oa_tool_call (elements (j_field delta ''tool_calls'')))"

definition oa_reason :: "json \<Rightarrow> string option \<Rightarrow> string option" where
  "oa_reason choice reason = (case str_of choice ''finish_reason'' of Some r \<Rightarrow> Some r | None \<Rightarrow> reason)"

definition openai_chunk :: "openai_state \<Rightarrow> json \<Rightarrow> event list \<times> openai_state" where
  "openai_chunk s chunk =
     (let choices = elements (j_field chunk ''choices'');
          usage = j_field chunk ''usage''
      in ((if oa_started s then [] else [MessageStart (str_of chunk ''id'') (str_of chunk ''model'')]) @
          concat (map oa_choice choices) @
          (if is_object usage
           then [UsageDelta (as_u64 (j_field usage ''prompt_tokens'')) (as_u64 (j_field usage ''completion_tokens''))]
           else []),
          s\<lparr>oa_started := True, oa_stop_reason := fold oa_reason choices (oa_stop_reason s)\<rparr>))"

definition openai_event :: "json_lib \<Rightarrow> openai_state \<Rightarrow> sse_event \<Rightarrow> event list \<times> openai_state" where
  "openai_event J s ev =
     (if se_data ev = ''[DONE]'' then
        (if oa_done s then ([], s)
         else ([MessageEnd (oa_stop_reason s)], s\<lparr>oa_done := True, oa_stop_reason := None\<rparr>))
      else (case jl_parse J (se_data ev) of
              Inl e \<Rightarrow> ([bad_chunk e], s)
            | Inr chunk \<Rightarrow> openai_chunk s chunk))"

definition openai_feed ::
  "json_lib \<Rightarrow> string \<times> openai_state \<Rightarrow> string \<Rightarrow> event list \<times> string \<times> openai_state"
where
  "openai_feed J = adapt sse_feed (openai_event J)"

section \<open>Vertex\<close>

record vertex_state =
  vx_started :: bool
  vx_ended :: bool

definition vertex_new :: "string \<times> vertex_state" where
  "vertex_new = ([], \<lparr>vx_started = False, vx_ended = False\<rparr>)"

definition vx_part :: "json_lib \<Rightarrow> u32 \<Rightarrow> json \<Rightarrow> event list" where
  "vx_part J index part =
     (case str_of part ''text'' of
        Some t \<Rightarrow> if t = [] then [] else [ContentDelta index t]
      | None \<Rightarrow> []) @
     (let call = j_field part ''functionCall''
      in if is_object call
         then [ToolCallDelta index None (str_of call ''name'') (jl_print J (j_field call ''args''))]
         else [])"

definition vx_candidate :: "json_lib \<Rightarrow> nat \<times> json \<Rightarrow> event list" where
  "vx_candidate J = (\<lambda>(index, candidate).
     concat (map (vx_part J (of_nat index)) (elements (j_field (j_field candidate ''content'') ''parts''))))"

definition vx_finish :: "json list \<Rightarrow> string option" where
  "vx_finish cands = fold (\<lambda>c finish.
     case str_of c ''finishReason'' of Some r \<Rightarrow> Some r | None \<Rightarrow> finish) cands None"

definition vertex_chunk :: "json_lib \<Rightarrow> vertex_state \<Rightarrow> json \<Rightarrow> event list \<times> vertex_state" where
  "vertex_chunk J s chunk =
     (let cands = elements (j_field chunk ''candidates'');
          finish = vx_finish cands;
          usage = j_field chunk ''usageMetadata'';
          output = as_u64 (j_field usage ''candidatesTokenCount'');
          input = as_u64 (j_field usage ''promptTokenCount'')
      in ((if vx_started s then [] else [MessageStart (str_of chunk ''responseId'') (str_of chunk ''modelVersion'')]) @
          concat (map (vx_candidate J) (enumerate 0 cands)) @
          (if output \<noteq> None \<or> input \<noteq> None then [UsageDelta input output] else []) @
          (if finish \<noteq> None \<and> \<not> vx_ended s then [MessageEnd finish] else []),
          s\<lparr>vx_started := True, vx_ended := vx_ended s \<or> finish \<noteq> None\<rparr>))"

definition vertex_event :: "json_lib \<Rightarrow> vertex_state \<Rightarrow> sse_event \<Rightarrow> event list \<times> vertex_state" where
  "vertex_event J s ev = (case jl_parse J (se_data ev) of
     Inl e \<Rightarrow> ([bad_chunk e], s)
   | Inr chunk \<Rightarrow> vertex_chunk J s chunk)"

definition vertex_feed ::
  "json_lib \<Rightarrow> string \<times> vertex_state \<Rightarrow> string \<Rightarrow> event list \<times> string \<times> vertex_state"
where
  "vertex_feed J = adapt sse_feed (vertex_event J)"

section \<open>Bedrock\<close>

record bedrock_state =
  bk_started :: bool
  bk_ended :: bool
  bk_stop_reason :: "string option"

definition bedrock_new :: "string \<times> bedrock_state" where
  "bedrock_new = ([], \<lparr>bk_started = False, bk_ended = False, bk_stop_reason = None\<rparr>)"

definition bk_block_delta :: "json \<Rightarrow> event list" where
  "bk_block_delta payload =
     (let index = index_of payload ''contentBlockIndex'';
          delta = j_field payload ''delta''
      in (case str_of delta ''text'' of Some t \<Rightarrow> [ContentDelta index t] | None \<Rightarrow> []) @
         (case str_of (j_field delta ''toolUse'') ''input'' of
            Some a \<Rightarrow> [ToolCallDelta index None None a] | None \<Rightarrow> []) @
         (case str_of (j_field delta ''reasoningContent'') ''text'' of
            Some t \<Rightarrow> [ContentDelta index t] | None \<Rightarrow> []))"

definition bedrock_payload :: "bedrock_state \<Rightarrow> string \<Rightarrow> json \<Rightarrow> event list \<times> bedrock_state" where
  "bedrock_payload s event_type payload =
     (if event_type = ''messageStart'' then
        (if bk_started s then ([], s) else ([MessageStart None None], s\<lparr>bk_started := True\<rparr>))
      else if event_type = ''contentBlockStart'' then
        (let tool = j_field (j_field payload ''start'') ''toolUse''
         in (if is_object tool
             then [ToolCallDelta (index_of payload ''contentBlockIndex'') (str_of tool ''toolUseId'')
                     (str_of tool ''name'') []]
             else [], s))
      else if event_type = ''contentBlockDelta'' then (bk_block_delta payload, s)
      else if event_type = ''messageStop'' then ([], s\<lparr>bk_stop_reason := str_of payload ''stopReason''\<rparr>)
      else if event_type = ''metadata'' then
        (let usage = j_field payload ''usage''
         in ((if is_object usage
              then [UsageDelta (as_u64 (j_field usage ''inputTokens'')) (as_u64 (j_field usage ''outputTokens''))]
              else []) @
             (if bk_ended s then [] else [MessageEnd (bk_stop_reason s)]),
             if bk_ended s then s else s\<lparr>bk_ended := True, bk_stop_reason := None\<rparr>))
      else ([], s))"

definition bedrock_event :: "json_lib \<Rightarrow> bedrock_state \<Rightarrow> frame \<Rightarrow> event list \<times> bedrock_state" where
  "bedrock_event J s f = (case jl_parse J (fr_payload f) of
     Inl e \<Rightarrow> ([EError ''bad_payload'' e], s)
   | Inr payload \<Rightarrow> bedrock_payload s (unwrap_or (bt_get (fr_headers f) '':event-type'') []) payload)"

definition frame_error_text :: "frame_error \<Rightarrow> string" where
  "frame_error_text e = (case e of
     FrameTooShort n \<Rightarrow> ''frame too short: '' @ dec_of_nat n @ '' bytes''
   | PreludeCrcMismatch \<Rightarrow> ''prelude CRC mismatch''
   | MessageCrcMismatch \<Rightarrow> ''message CRC mismatch''
   | HeadersOverrun \<Rightarrow> ''headers overrun payload''
   | TruncatedHeader \<Rightarrow> ''truncated header''
   | UnsupportedHeaderType n \<Rightarrow> ''unsupported header value type '' @ dec_of_nat n
   | TruncatedHeaderValue \<Rightarrow> ''truncated header value'')"

definition bedrock_feed ::
  "crc32 \<Rightarrow> json_lib \<Rightarrow> string \<times> bedrock_state \<Rightarrow> string \<Rightarrow> event list \<times> string \<times> bedrock_state"
where
  "bedrock_feed crc J = (\<lambda>(b, s) bytes. case fd_feed crc b bytes of
     (Inl e, b1) \<Rightarrow> ([EError ''bad_frame'' (frame_error_text e)], b1, s)
   | (Inr frames, b1) \<Rightarrow> (let (out, s1) = run (bedrock_event J) s frames in (out, b1, s1)))"

section \<open>What the adapters emit\<close>

interpretation anthropic: normalizer sse_feed "anthropic_event J" for J
  by unfold_locales

interpretation openai: normalizer sse_feed "openai_event J" for J
  by unfold_locales

interpretation vertex: normalizer sse_feed "vertex_event J" for J
  by unfold_locales

fun is_start :: "event \<Rightarrow> bool" where
  "is_start (MessageStart _ _) = True"
| "is_start _ = False"

fun is_end :: "event \<Rightarrow> bool" where
  "is_end (MessageEnd _) = True"
| "is_end _ = False"

definition marks :: "event list \<Rightarrow> event list" where
  "marks es = filter (\<lambda>e. is_start e \<or> is_end e) es"

lemma marks_simps [simp]:
  "marks [] = []" "marks (xs @ ys) = marks xs @ marks ys"
  "marks (e # es) = (if is_start e \<or> is_end e then e # marks es else marks es)"
  by (simp_all add: marks_def)

lemma marks_concat: "\<forall>x \<in> set xs. marks (f x) = [] \<Longrightarrow> marks (concat (map f xs)) = []"
  by (induction xs) simp_all

lemma oa_choice_marks [simp]: "marks (concat (map oa_choice cs)) = []"
proof (rule marks_concat, rule ballI)
  fix c
  have "marks (map oa_tool_call ts) = []" for ts
    by (induction ts) (simp_all add: oa_tool_call_def)
  then show "marks (oa_choice c) = []"
    by (auto simp: oa_choice_def Let_def split: option.split)
qed

lemma vx_candidate_marks [simp]: "marks (concat (map (vx_candidate J) cs)) = []"
proof (rule marks_concat, rule ballI)
  fix c
  have "marks (vx_part J i p) = []" for i p
    by (auto simp: vx_part_def Let_def split: option.split)
  then show "marks (vx_candidate J c) = []"
    by (cases c) (simp add: vx_candidate_def marks_concat)
qed

text \<open>An OpenAI stream opens once and ends once, whatever arrives.\<close>

definition count_of :: "(event \<Rightarrow> bool) \<Rightarrow> event list \<Rightarrow> nat" where
  "count_of p es = length (filter p es)"

lemma count_of_simps [simp]:
  "count_of p [] = 0" "count_of p (xs @ ys) = count_of p xs + count_of p ys"
  "count_of p (e # es) = (if p e then Suc (count_of p es) else count_of p es)"
  by (simp_all add: count_of_def)

lemma count_of_marks: "count_of is_start es = count_of is_start (marks es)" "count_of is_end es = count_of is_end (marks es)"
  by (induction es) auto

lemma no_marks: "marks es = [] \<Longrightarrow> count_of is_start es = 0" "marks es = [] \<Longrightarrow> count_of is_end es = 0"
  by (metis count_of_marks count_of_simps(1))+

lemma openai_event_counts:
  "openai_event J s ev = (out, s') \<Longrightarrow>
     count_of is_start out + of_bool (oa_started s) = of_bool (oa_started s') \<and>
     count_of is_end out + of_bool (oa_done s) = of_bool (oa_done s')"
  by (auto simp: openai_event_def openai_chunk_def Let_def bad_chunk_def no_marks split: if_splits sum.splits)

lemma vertex_event_counts:
  "vertex_event J s ev = (out, s') \<Longrightarrow>
     count_of is_start out + of_bool (vx_started s) = of_bool (vx_started s') \<and>
     count_of is_end out + of_bool (vx_ended s) = of_bool (vx_ended s')"
  by (auto simp: vertex_event_def vertex_chunk_def Let_def bad_chunk_def no_marks split: if_splits sum.splits)

lemma bk_block_delta_marks [simp]: "marks (bk_block_delta p) = []"
  by (auto simp: bk_block_delta_def Let_def split: option.split)

lemma bedrock_event_counts:
  "bedrock_event J s f = (out, s') \<Longrightarrow>
     count_of is_start out + of_bool (bk_started s) = of_bool (bk_started s') \<and>
     count_of is_end out + of_bool (bk_ended s) = of_bool (bk_ended s')"
  by (auto simp: bedrock_event_def bedrock_payload_def Let_def no_marks split: if_splits sum.splits)

text \<open>A bounded count of one frame is a bounded count of a run.\<close>

lemma run_counts:
  assumes "\<And>s e out s'. handle s e = (out, s') \<Longrightarrow> count_of p out + flag s = (flag s' :: nat)"
  shows "run handle s es = (out, s') \<Longrightarrow> count_of p out + flag s = flag s'"
proof (induction es arbitrary: s out)
  case (Cons e es)
  from Cons.prems obtain o1 s1 o2 where
    1: "handle s e = (o1, s1)" "run handle s1 es = (o2, s')" "out = o1 @ o2"
    by (auto split: prod.splits)
  then show ?case using assms [OF 1(1)] Cons.IH [OF 1(2)] by simp
qed simp

text \<open>A complete OpenAI stream: chunks that parse, then the sentinel.\<close>

lemma run_openai_chunks:
  "\<forall>ev \<in> set evs. se_data ev \<noteq> ''[DONE]'' \<and> (\<exists>v. jl_parse J (se_data ev) = Inr v) \<Longrightarrow>
     oa_started s \<Longrightarrow> run (openai_event J) s evs = (out, s') \<Longrightarrow>
     marks out = [] \<and> oa_done s' = oa_done s"
proof (induction evs arbitrary: s out)
  case (Cons ev evs)
  from Cons.prems obtain v where v: "se_data ev \<noteq> ''[DONE]''" "jl_parse J (se_data ev) = Inr v" by auto
  obtain o1 s1 where 1: "openai_event J s ev = (o1, s1)" by (cases "openai_event J s ev")
  then have s1: "marks o1 = []" "oa_started s1" "oa_done s1 = oa_done s"
    using v Cons.prems(2) by (auto simp: openai_event_def openai_chunk_def Let_def split: if_splits)
  obtain o2 where 2: "run (openai_event J) s1 evs = (o2, s')" "out = o1 @ o2"
    using Cons.prems(3) 1 by (auto split: prod.splits)
  show ?case using Cons.IH [OF _ s1(2) 2(1)] Cons.prems(1) s1 2(2) by simp
qed simp

text \<open>Property C15. The chunks in which the network delivers a response do not change what is
  read from it: two deliveries of the same bytes leave an OpenAI, an Anthropic or a Vertex
  adapter with the same events emitted and in the same state.\<close>

theorem adapters_ignore_chunking:
  assumes "cs \<noteq> []" "ds \<noteq> []" "concat cs = concat ds"
  shows "step_all (openai_feed J) s cs = step_all (openai_feed J) s ds \<and>
     step_all (anthropic_feed J) t cs = step_all (anthropic_feed J) t ds \<and>
     step_all (vertex_feed J) u cs = step_all (vertex_feed J) u ds"
  unfolding openai_feed_def anthropic_feed_def vertex_feed_def
  by (intro conjI openai.adapted.step_all_same anthropic.adapted.step_all_same
      vertex.adapted.step_all_same assms)

definition sample_reader :: json_lib where
  "sample_reader = \<lparr>jl_parse = (\<lambda>s. if s = ''{}'' then Inr (JObject []) else Inl ''no''),
     jl_print = (\<lambda>_. []), jl_show_f64 = (\<lambda>_. [])\<rparr>"

theorem adapters_ignore_chunking_witness:
  "step_all (openai_feed sample_reader) openai_new [''data: {}'' @ [nl], [nl] @ ''data: [DO'', ''NE]'' @ [nl, nl]] =
     step_all (openai_feed sample_reader) openai_new [''data: {}'' @ [nl, nl] @ ''data: [DONE]'' @ [nl, nl]]"
  by (rule conjunct1 [OF adapters_ignore_chunking
        [of _ _ sample_reader _ anthropic_new vertex_new]]) simp_all

text \<open>A complete OpenAI stream, chunks that parse and then the sentinel, is
  normalized in the order the event model documents: one \<open>MessageStart\<close> first, one
  \<open>MessageEnd\<close> last, everything else in between.\<close>

theorem openai_stream_is_ordered:
  assumes "evs \<noteq> []"
    and "\<forall>ev \<in> set evs. se_data ev \<noteq> ''[DONE]'' \<and> (\<exists>v. jl_parse J (se_data ev) = Inr v)"
    and "se_data last_ev = ''[DONE]''"
  shows "\<exists>msg_id model mid reason s.
     run (openai_event J) (snd openai_new) (evs @ [last_ev]) =
       (MessageStart msg_id model # mid @ [MessageEnd reason], s) \<and> marks mid = []"
proof -
  from assms(1) obtain ev rest where evs: "evs = ev # rest" by (cases evs) auto
  with assms(2) obtain v where v: "se_data ev \<noteq> ''[DONE]''" "jl_parse J (se_data ev) = Inr v" by auto
  obtain o1 s1 where 1: "openai_event J (snd openai_new) ev = (o1, s1)"
    by (cases "openai_event J (snd openai_new) ev")
  then obtain m1 where o1: "o1 = MessageStart (str_of v ''id'') (str_of v ''model'') # m1" "marks m1 = []"
    "oa_started s1" "\<not> oa_done s1"
    using v by (auto simp: openai_event_def openai_chunk_def openai_new_def Let_def split: if_splits)
  obtain o2 s2 where 2: "run (openai_event J) s1 rest = (o2, s2)" by (cases "run (openai_event J) s1 rest")
  have "marks o2 = [] \<and> oa_done s2 = oa_done s1"
    by (rule run_openai_chunks [OF _ o1(3) 2]) (use assms(2) evs in auto)
  moreover from this o1(4) assms(3) have "openai_event J s2 last_ev =
      ([MessageEnd (oa_stop_reason s2)], s2\<lparr>oa_done := True, oa_stop_reason := None\<rparr>)"
    by (simp add: openai_event_def)
  ultimately show ?thesis using 1 2 o1 by (simp add: evs run_append)
qed

theorem openai_stream_is_ordered_witness:
  "\<exists>msg_id model mid reason s.
     run (openai_event sample_reader) (snd openai_new)
         [\<lparr>se_event = None, se_data = ''{}''\<rparr>, \<lparr>se_event = None, se_data = ''[DONE]''\<rparr>] =
       (MessageStart msg_id model # mid @ [MessageEnd reason], s) \<and> marks mid = []"
  using openai_stream_is_ordered [of "[\<lparr>se_event = None, se_data = ''{}''\<rparr>]" sample_reader
      "\<lparr>se_event = None, se_data = ''[DONE]''\<rparr>"] by (simp add: sample_reader_def)

text \<open>Out of that shape the documented order is not kept: an early sentinel ends the message
  before it starts.\<close>

lemma openai_end_before_start:
  "fst (run (openai_event sample_reader) (snd openai_new)
       [\<lparr>se_event = None, se_data = ''[DONE]''\<rparr>, \<lparr>se_event = None, se_data = ''{}''\<rparr>]) =
     [MessageEnd None, MessageStart None None]"
  by code_simp

end
