(* ===== verification/PolicyModule.thy ===== *)
theory PolicyModule
  imports ModuleState Aws Adapters
begin

text \<open>
  The rest of \<open>gateway-wasm\<close>: the decisions of the ABI (\<open>abi.rs\<close>), module signatures (\<open>sig.rs\<close>),
  the loaded set (\<open>module.rs\<close>), the host that calls a guest (\<open>host.rs\<close>) and the hook chains, the
  swap plan and the break-glass pin (\<open>bind.rs\<close>).  Wasmtime, HMAC and serde are the parameters
  \<open>wasm_lib\<close>: a compiled module is an \<open>'m\<close>, a running instance with its store an \<open>'i\<close>, and fuel and
  epochs show up only as the ways a guest call can fail.  Lemmas: what a chain decides, which
  modules a set can hold, and that a signature made with the key verifies under it.
\<close>

section \<open>The ABI\<close>

record request_view =
  rv_method :: string
  rv_path :: string
  rv_headers :: "(string, string) btree"
  rv_attribution :: "(string, string) btree"

datatype wire_event =
    WMessageStart "string option" "string option"
  | WContentDelta u32 string
  | WToolCallDelta u32 "string option" "string option" string
  | WUsageDelta "u64 option" "u64 option"
  | WMessageEnd "string option"
  | WError string string

definition wire_event_of :: "event \<Rightarrow> wire_event" where
  "wire_event_of e = (case e of
     MessageStart i m \<Rightarrow> WMessageStart i m
   | ContentDelta n s \<Rightarrow> WContentDelta n s
   | ToolCallDelta n i nm args \<Rightarrow> WToolCallDelta n i nm args
   | UsageDelta i o' \<Rightarrow> WUsageDelta i o'
   | MessageEnd r \<Rightarrow> WMessageEnd r
   | EError c m \<Rightarrow> WError c m)"

record event_view =
  ev_event :: wire_event
  ev_est_output :: u64

record end_view =
  nv_est_output :: u64
  nv_auth_input :: "u64 option"
  nv_auth_output :: "u64 option"

datatype decision =
    Continue
  | MutateHeaders "(string, string) btree" "string list"
  | Reject string
  | CutStream string

definition fail_closed_decision :: "wasm_hook \<Rightarrow> string \<Rightarrow> decision" where
  "fail_closed_decision hook reason = (case hook of
     OnResponseEvent \<Rightarrow> CutStream reason
   | _ \<Rightarrow> Reject reason)"

section \<open>The libraries\<close>

record wasm_limits =
  wl_fuel :: u64
  wl_epoch_deadline :: u64
  wl_max_memory :: nat

definition default_limits :: wasm_limits where
  "default_limits = \<lparr>wl_fuel = 5000000, wl_epoch_deadline = 10, wl_max_memory = 16 * 1024 * 1024\<rparr>"

text \<open>How a call into a guest fails: a trap, or any other error of wasmtime.\<close>

datatype call_error = TrapFuel | TrapInterrupt | TrapOther string | CallFailed string

record ('m, 'i) wasm_lib =
  we_hmac :: "string \<Rightarrow> string \<Rightarrow> string"
  we_compile :: "string \<Rightarrow> string + 'm"
  we_imports :: "'m \<Rightarrow> (string \<times> string) list"
  we_instantiate :: "'m \<Rightarrow> wasm_limits \<Rightarrow> string + 'i"
  we_memory :: "'i \<Rightarrow> string option"
  we_set_memory :: "string \<Rightarrow> 'i \<Rightarrow> 'i"
  we_no_alloc :: "'i \<Rightarrow> string option"
  we_alloc :: "32 word \<Rightarrow> 'i \<Rightarrow> (call_error + 32 word) \<times> 'i"
  we_no_hook :: "string \<Rightarrow> 'i \<Rightarrow> string option"
  we_hook :: "string \<Rightarrow> 32 word \<Rightarrow> 32 word \<Rightarrow> 'i \<Rightarrow> (call_error + 64 word) \<times> 'i"
  we_request_json :: "request_view \<Rightarrow> string + string"
  we_event_json :: "event_view \<Rightarrow> string + string"
  we_end_json :: "end_view \<Rightarrow> string + string"
  we_decision :: "string \<Rightarrow> string + decision"

section \<open>Signatures\<close>

text \<open>The texts of \<open>Malformed\<close> are kept as data.\<close>

datatype hex_error = OddHexLength nat | NonHexByte char

datatype sig_error = SigMissing | SigMalformed hex_error | SigMismatch

definition sign_module :: "('m, 'i) wasm_lib \<Rightarrow> string \<Rightarrow> string \<Rightarrow> string" where
  "sign_module L key module_bytes = hex_bytes (we_hmac L key module_bytes)"

definition hex_nibble :: "char \<Rightarrow> hex_error + nat" where
  "hex_nibble b = (case hex_val b of Some n \<Rightarrow> Inr n | None \<Rightarrow> Inl (NonHexByte b))"

fun decode_hex_pairs :: "string \<Rightarrow> hex_error + string" where
  "decode_hex_pairs (a # b # rest) =
     (case hex_nibble a of
        Inl e \<Rightarrow> Inl e
      | Inr hi \<Rightarrow> (case hex_nibble b of
          Inl e \<Rightarrow> Inl e
        | Inr lo \<Rightarrow> (case decode_hex_pairs rest of
            Inl e \<Rightarrow> Inl e
          | Inr out \<Rightarrow> Inr (char_of (hi * 16 + lo) # out))))"
| "decode_hex_pairs _ = Inr []"

definition decode_hex :: "string \<Rightarrow> hex_error + string" where
  "decode_hex s = (if odd (length s) then Inl (OddHexLength (length s)) else decode_hex_pairs s)"

definition verify_module :: "('m, 'i) wasm_lib \<Rightarrow> string \<Rightarrow> string \<Rightarrow> string option \<Rightarrow> sig_error + unit" where
  "verify_module L key module_bytes sg =
     (case sg of
        None \<Rightarrow> Inl SigMissing
      | Some s \<Rightarrow>
          if trim s = [] then Inl SigMissing
          else (case decode_hex (trim s) of
            Inl e \<Rightarrow> Inl (SigMalformed e)
          | Inr raw \<Rightarrow> if raw = we_hmac L key module_bytes then Inr () else Inl SigMismatch))"

section \<open>The host\<close>

datatype host_error =
    HCompile string
  | HInstantiate string
  | HOutOfFuel
  | HTimeout
  | HTrap string
  | HBoundary string

record 'm policy_module =
  pm_module :: 'm
  pm_limits :: wasm_limits
  pm_name :: string

definition compile_module ::
  "('m, 'i) wasm_lib \<Rightarrow> string \<Rightarrow> string \<Rightarrow> wasm_limits \<Rightarrow> host_error + 'm policy_module"
where
  "compile_module L name module_bytes limits =
     (case we_compile L module_bytes of
        Inl e \<Rightarrow> Inl (HCompile e)
      | Inr m \<Rightarrow> (case we_imports L m of
          (from_m, import_name) # _ \<Rightarrow> Inl (HInstantiate (from_m @ ''::'' @ import_name))
        | [] \<Rightarrow> Inr \<lparr>pm_module = m, pm_limits = limits, pm_name = name\<rparr>))"

definition classify_call :: "call_error + 'a \<Rightarrow> host_error + 'a" where
  "classify_call r = (case r of
     Inr x \<Rightarrow> Inr x
   | Inl TrapFuel \<Rightarrow> Inl HOutOfFuel
   | Inl TrapInterrupt \<Rightarrow> Inl HTimeout
   | Inl (TrapOther t) \<Rightarrow> Inl (HTrap t)
   | Inl (CallFailed t) \<Rightarrow> Inl (HTrap t))"

text \<open>The read-back of the packed span \<open>(ptr << 32) | len\<close>.\<close>

definition read_output :: "string \<Rightarrow> 64 word \<Rightarrow> host_error + string" where
  "read_output mem packed =
     (let out_ptr = unat (ucast (drop_bit 32 packed) :: 32 word);
          out_len = unat (ucast packed :: 32 word);
          end_at = out_ptr + out_len
      in if 2 ^ 64 \<le> end_at then Inl (HBoundary ''output span overflows'')
         else if length mem < end_at then Inl (HBoundary ''output span exceeds guest memory'')
         else Inr (take out_len (drop out_ptr mem)))"

text \<open>\<open>memory.write\<close>, refused when the span does not fit.\<close>

definition write_guest :: "('m, 'i) wasm_lib \<Rightarrow> nat \<Rightarrow> string \<Rightarrow> 'i \<Rightarrow> 'i option" where
  "write_guest L at_ptr input i =
     (case we_memory L i of
        None \<Rightarrow> None
      | Some mem \<Rightarrow>
          if at_ptr + length input \<le> length mem
          then Some (we_set_memory L (take at_ptr mem @ input @ drop (at_ptr + length input) mem) i)
          else None)"

definition call_hook :: "('m, 'i) wasm_lib \<Rightarrow> 'i \<Rightarrow> wasm_hook \<Rightarrow> string \<Rightarrow> host_error + string" where
  "call_hook L i hook input =
     (case (we_memory L i, we_no_alloc L i, we_no_hook L (wasm_hook_name hook) i) of
        (None, _, _) \<Rightarrow> Inl (HInstantiate ''module exports no `memory`'')
      | (Some _, Some e, _) \<Rightarrow> Inl (HInstantiate (''module exports no `alloc`: '' @ e))
      | (Some _, None, Some e) \<Rightarrow>
          Inl (HInstantiate (''module exports no `'' @ wasm_hook_name hook @ ''`: '' @ e))
      | (Some _, None, None) \<Rightarrow>
          (let len = (of_nat (length input) :: 32 word);
               (allocated, i1) = we_alloc L len i
           in case classify_call allocated of
             Inl e \<Rightarrow> Inl e
           | Inr ptr \<Rightarrow>
               if ptr <s 0 then Inl (HBoundary ''alloc returned a negative pointer'') else
               (case write_guest L (unat ptr) input i1 of
                  None \<Rightarrow> Inl (HBoundary ''write input to guest memory'')
                | Some i2 \<Rightarrow>
                    (let (answered, i3) = we_hook L (wasm_hook_name hook) ptr len i2
                     in case classify_call answered of
                       Inl e \<Rightarrow> Inl e
                     | Inr packed \<Rightarrow>
                         read_output (unwrap_or (we_memory L i3) []) packed))))"

definition invoke_module ::
  "('m, 'i) wasm_lib \<Rightarrow> 'm policy_module \<Rightarrow> wasm_hook \<Rightarrow> string \<Rightarrow> host_error + decision"
where
  "invoke_module L m hook input =
     (case we_instantiate L (pm_module m) (pm_limits m) of
        Inl e \<Rightarrow> Inl (HInstantiate e)
      | Inr i \<Rightarrow> (case call_hook L i hook input of
          Inl e \<Rightarrow> Inl e
        | Inr out \<Rightarrow> (case we_decision L out of
            Inl e \<Rightarrow> Inl (HBoundary (''guest returned non-Decision JSON: '' @ e))
          | Inr d \<Rightarrow> Inr d)))"

definition invoke_view ::
  "('m, 'i) wasm_lib \<Rightarrow> 'm policy_module \<Rightarrow> wasm_hook \<Rightarrow> string \<Rightarrow> string + string \<Rightarrow> host_error + decision"
where
  "invoke_view L m hook view_name json =
     (case json of
        Inl e \<Rightarrow> Inl (HBoundary (''serialize '' @ view_name @ '': '' @ e))
      | Inr input \<Rightarrow> invoke_module L m hook input)"

definition pm_on_request :: "('m, 'i) wasm_lib \<Rightarrow> request_view \<Rightarrow> 'm policy_module \<Rightarrow> host_error + decision" where
  "pm_on_request L view m = invoke_view L m OnRequest ''RequestView'' (we_request_json L view)"

definition pm_on_response_event :: "('m, 'i) wasm_lib \<Rightarrow> event_view \<Rightarrow> 'm policy_module \<Rightarrow> host_error + decision" where
  "pm_on_response_event L view m = invoke_view L m OnResponseEvent ''EventView'' (we_event_json L view)"

definition pm_on_response_end :: "('m, 'i) wasm_lib \<Rightarrow> end_view \<Rightarrow> 'm policy_module \<Rightarrow> host_error + decision" where
  "pm_on_response_end L view m = invoke_view L m OnResponseEnd ''EndView'' (we_end_json L view)"

section \<open>The loaded set\<close>

record module_manifest =
  mm_name :: string
  mm_bytes :: string
  mm_signature :: "string option"
  mm_hooks :: "wasm_hook list"
  mm_schema :: schema_version

datatype load_error = LoadSignature string sig_error | LoadHost string host_error

record 'm loaded_module =
  lm_module :: "'m policy_module"
  lm_hooks :: "wasm_hook list"
  lm_schema :: schema_version

record 'm module_set =
  ms_modules :: "'m loaded_module list"
  ms_by_name :: "(string, nat) btree"

definition empty_module_set :: "'m module_set" where
  "empty_module_set = \<lparr>ms_modules = [], ms_by_name = []\<rparr>"

definition lm_name :: "'m loaded_module \<Rightarrow> string" where
  "lm_name m = pm_name (lm_module m)"

definition implements_hook :: "wasm_hook \<Rightarrow> 'm loaded_module \<Rightarrow> bool" where
  "implements_hook hook m \<longleftrightarrow> hook \<in> set (lm_hooks m)"

definition load_one ::
  "('m, 'i) wasm_lib \<Rightarrow> string \<Rightarrow> wasm_limits \<Rightarrow> module_manifest \<Rightarrow> load_error + 'm loaded_module"
where
  "load_one L key limits mf =
     (case verify_module L key (mm_bytes mf) (mm_signature mf) of
        Inl e \<Rightarrow> Inl (LoadSignature (mm_name mf) e)
      | Inr _ \<Rightarrow> (case compile_module L (mm_name mf) (mm_bytes mf) limits of
          Inl e \<Rightarrow> Inl (LoadHost (mm_name mf) e)
        | Inr m \<Rightarrow> Inr \<lparr>lm_module = m, lm_hooks = mm_hooks mf, lm_schema = mm_schema mf\<rparr>))"

fun load_modules ::
  "('m, 'i) wasm_lib \<Rightarrow> string \<Rightarrow> wasm_limits \<Rightarrow> module_manifest list \<Rightarrow> 'm module_set \<Rightarrow>
   load_error + 'm module_set"
where
  "load_modules L key limits [] ms = Inr ms"
| "load_modules L key limits (mf # mfs) ms =
     (case load_one L key limits mf of
        Inl e \<Rightarrow> Inl e
      | Inr m \<Rightarrow> load_modules L key limits mfs
          \<lparr>ms_modules = ms_modules ms @ [m],
           ms_by_name = bt_insert (mm_name mf) (length (ms_modules ms)) (ms_by_name ms)\<rparr>)"

definition load_module_set ::
  "('m, 'i) wasm_lib \<Rightarrow> module_manifest list \<Rightarrow> string \<Rightarrow> wasm_limits \<Rightarrow> load_error + 'm module_set"
where
  "load_module_set L mfs key limits = load_modules L key limits mfs empty_module_set"

definition for_hook :: "wasm_hook \<Rightarrow> 'm module_set \<Rightarrow> 'm loaded_module list" where
  "for_hook hook ms = filter (implements_hook hook) (ms_modules ms)"

definition ms_get :: "'m module_set \<Rightarrow> string \<Rightarrow> 'm loaded_module option" where
  "ms_get ms name = map_option (\<lambda>i. ms_modules ms ! i) (bt_get (ms_by_name ms) name)"

definition ms_schemas :: "'m module_set \<Rightarrow> (string \<times> schema_version) list" where
  "ms_schemas ms = map (\<lambda>m. (lm_name m, lm_schema m)) (ms_modules ms)"

definition wants_hook :: "wasm_hook \<Rightarrow> 'm module_set \<Rightarrow> bool" where
  "wants_hook hook ms \<longleftrightarrow> for_hook hook ms \<noteq> []"

section \<open>The hook chains\<close>

definition fail_closed :: "wasm_hook \<Rightarrow> string \<Rightarrow> decision" where
  "fail_closed hook name = fail_closed_decision hook (''wasm-module-fault:'' @ name)"

fun hook_chain ::
  "wasm_hook \<Rightarrow> ('m policy_module \<Rightarrow> host_error + decision) \<Rightarrow> 'm loaded_module list \<Rightarrow> decision"
where
  "hook_chain hook call [] = Continue"
| "hook_chain hook call (m # ms) =
     (case call (lm_module m) of
        Inr Continue \<Rightarrow> hook_chain hook call ms
      | Inr d \<Rightarrow> d
      | Inl e \<Rightarrow> fail_closed hook (lm_name m))"

definition bm_on_request :: "('m, 'i) wasm_lib \<Rightarrow> 'm module_set \<Rightarrow> request_view \<Rightarrow> decision" where
  "bm_on_request L ms view = hook_chain OnRequest (pm_on_request L view) (for_hook OnRequest ms)"

definition bm_on_response_event :: "('m, 'i) wasm_lib \<Rightarrow> 'm module_set \<Rightarrow> event_view \<Rightarrow> decision" where
  "bm_on_response_event L ms view =
     hook_chain OnResponseEvent (pm_on_response_event L view) (for_hook OnResponseEvent ms)"

definition bm_on_response_end :: "('m, 'i) wasm_lib \<Rightarrow> 'm module_set \<Rightarrow> end_view \<Rightarrow> decision" where
  "bm_on_response_end L ms view =
     hook_chain OnResponseEnd (pm_on_response_end L view) (for_hook OnResponseEnd ms)"

section \<open>The swap plan and the break-glass pin\<close>

definition DEFAULT_RESET_WINDOW_SECS :: u64 where
  "DEFAULT_RESET_WINDOW_SECS = 30"

text \<open>\<open>ModulePlan::diff\<close> with \<open>plan_one\<close>; \<open>None\<close> is a migration loop that does not end.\<close>

fun plan_modules ::
  "(string \<times> schema_version) list \<Rightarrow> (string \<Rightarrow> migration list) \<Rightarrow> u64 \<Rightarrow> module_state \<Rightarrow>
   ((string \<times> migration_outcome) list \<times> module_state) option"
where
  "plan_modules [] migrations window st = Some ([], st)"
| "plan_modules ((name, schema) # rest) migrations window st =
     (case rebind name schema (migrations name) window st of
        None \<Rightarrow> None
      | Some (outcome, st') \<Rightarrow>
          map_option (\<lambda>(outs, st''). ((name, outcome) # outs, st''))
            (plan_modules rest migrations window st'))"

definition module_plan_diff ::
  "'m module_set \<Rightarrow> module_state \<Rightarrow> (string \<Rightarrow> migration list) \<Rightarrow> u64 \<Rightarrow>
   ((string \<times> migration_outcome) list \<times> module_state) option"
where
  "module_plan_diff new_set st migrations window = plan_modules (ms_schemas new_set) migrations window st"

definition reset_modules :: "(string \<times> migration_outcome) list \<Rightarrow> string list" where
  "reset_modules outcomes = map fst (filter (\<lambda>(_, o'). case o' of Reset _ _ _ \<Rightarrow> True | _ \<Rightarrow> False) outcomes)"

record 's module_break_glass =
  bg_pinned :: 's
  bg_until :: u64
  bg_reason :: string

definition bg_active :: "'s module_break_glass \<Rightarrow> u64 \<Rightarrow> bool" where
  "bg_active bg now \<longleftrightarrow> now < bg_until bg"

definition bg_resolve :: "'s module_break_glass \<Rightarrow> 's \<Rightarrow> u64 \<Rightarrow> 's" where
  "bg_resolve bg desired now = (if bg_active bg now then bg_pinned bg else desired)"

section \<open>Signatures verify\<close>

lemma hex_val_lower: "n < 16 \<Longrightarrow> hex_val (hex_lower n) = Some n"
  by (auto simp: hex_lower_def hex_val_def is_ascii_digit_def)

lemma hex_lower_graphic: "n < 16 \<Longrightarrow> is_ascii_graphic (hex_lower n)"
  by (auto simp: hex_lower_def is_ascii_graphic_def)

lemma char_nibbles:
  "(of_char b :: nat) div 16 < 16" "(of_char b :: nat) mod 16 < 16"
  "char_of ((of_char b :: nat) div 16 * 16 + of_char b mod 16) = b"
proof -
  have "(of_char b :: nat) < 256" by simp
  then show "(of_char b :: nat) div 16 < 16" by (simp add: less_mult_imp_div_less)
qed simp_all

lemma decode_hex_bytes: "decode_hex_pairs (hex_bytes bs) = Inr bs"
  by (induction bs) (simp_all add: hex_bytes_def hex_nibble_def hex_val_lower char_nibbles)

lemma even_hex_bytes: "even (length (hex_bytes bs))"
  by (induction bs) (simp_all add: hex_bytes_def)

lemma hex_bytes_graphic: "c \<in> set (hex_bytes bs) \<Longrightarrow> is_ascii_graphic c"
  by (auto simp: hex_bytes_def hex_lower_graphic char_nibbles)

lemma trim_hex_bytes: "bs \<noteq> [] \<Longrightarrow> trim (hex_bytes bs) = hex_bytes bs \<and> hex_bytes bs \<noteq> []"
proof -
  assume "bs \<noteq> []"
  then obtain c s where cs: "hex_bytes bs = c # s" by (cases bs) (simp_all add: hex_bytes_def)
  have "c \<in> set (hex_bytes bs)" "last (c # s) \<in> set (hex_bytes bs)" by (simp_all add: cs)
  then have "is_ascii_graphic c" "is_ascii_graphic (last (c # s))" by (auto dest: hex_bytes_graphic)
  then show ?thesis unfolding cs by (simp add: trim_graphic)
qed

lemma verify_sign_module: "we_hmac L key bs \<noteq> [] \<Longrightarrow> verify_module L key bs (Some (sign_module L key bs)) = Inr ()"
  by (simp add: verify_module_def sign_module_def trim_hex_bytes decode_hex_def even_hex_bytes decode_hex_bytes)

lemma verify_module_ok:
  "verify_module L key bs sg = Inr () \<longleftrightarrow>
   (\<exists>s. sg = Some s \<and> trim s \<noteq> [] \<and> decode_hex (trim s) = Inr (we_hmac L key bs))"
  by (auto simp: verify_module_def split: option.splits if_splits sum.splits)

section \<open>What a set holds\<close>

lemma load_one_ok:
  assumes "load_one L key limits mf = Inr m"
  shows "verify_module L key (mm_bytes mf) (mm_signature mf) = Inr () \<and> lm_name m = mm_name mf \<and>
     lm_hooks m = mm_hooks mf \<and> lm_schema m = mm_schema mf \<and> pm_limits (lm_module m) = limits \<and>
     we_compile L (mm_bytes mf) = Inr (pm_module (lm_module m)) \<and> we_imports L (pm_module (lm_module m)) = []"
  using assms
  by (auto simp: load_one_def compile_module_def lm_name_def split: sum.splits list.splits)

lemma load_modules_ok:
  "load_modules L key limits mfs ms = Inr ms' \<Longrightarrow>
   \<exists>new. ms_modules ms' = ms_modules ms @ new \<and> list_all2 (\<lambda>mf m. load_one L key limits mf = Inr m) mfs new"
  by (induction mfs arbitrary: ms) (fastforce split: sum.splits)+

text \<open>Property C33. Only signed, import-free modules get in: when a set loads, it has one module per
  manifest, in manifest order, each compiled from exactly the bytes whose HMAC under the operator's
  key is the manifest's signature, importing nothing, and run under the limits given; one manifest
  that fails any of this and nothing is loaded.\<close>

theorem loaded_modules_are_signed:
  "(case load_module_set L mfs key limits of
      Inl _ \<Rightarrow> (\<exists>mf \<in> set mfs. \<exists>e. load_one L key limits mf = Inl e)
    | Inr ms \<Rightarrow> list_all2 (\<lambda>mf m.
        (\<exists>s. mm_signature mf = Some s \<and> decode_hex (trim s) = Inr (we_hmac L key (mm_bytes mf))) \<and>
        we_compile L (mm_bytes mf) = Inr (pm_module (lm_module m)) \<and>
        we_imports L (pm_module (lm_module m)) = [] \<and>
        lm_name m = mm_name mf \<and> lm_hooks m = mm_hooks mf \<and> lm_schema m = mm_schema mf \<and>
        pm_limits (lm_module m) = limits) mfs (ms_modules ms))"
proof (cases "load_module_set L mfs key limits")
  case (Inl e)
  have "load_modules L key limits mfs ms = Inl e \<Longrightarrow> \<exists>mf \<in> set mfs. \<exists>e. load_one L key limits mf = Inl e" for ms
    by (induction mfs arbitrary: ms) (auto split: sum.splits)
  with Inl show ?thesis by (simp add: load_module_set_def)
next
  case (Inr ms)
  then have "list_all2 (\<lambda>mf m. load_one L key limits mf = Inr m) mfs (ms_modules ms)"
    by (auto simp: load_module_set_def empty_module_set_def dest: load_modules_ok)
  then show ?thesis
    unfolding Inr sum.case
    by (rule list_all2_mono) (auto simp: verify_module_ok dest!: load_one_ok)
qed

section \<open>What a chain decides\<close>

lemma fail_closed_not_Continue: "fail_closed hook name \<noteq> Continue"
  by (cases hook) (simp_all add: fail_closed_def fail_closed_decision_def)

lemma hook_chain_Continue:
  "hook_chain hook call ms = Continue \<longleftrightarrow> (\<forall>m \<in> set ms. call (lm_module m) = Inr Continue)"
  by (induction ms) (auto simp: fail_closed_not_Continue split: sum.splits decision.splits)

lemma hook_chain_append:
  "\<forall>b \<in> set before. call (lm_module b) = Inr Continue \<Longrightarrow>
   hook_chain hook call (before @ ms) = hook_chain hook call ms"
  by (induction before) simp_all

lemma hook_chain_stops:
  "hook_chain hook call ms \<noteq> Continue \<Longrightarrow>
   \<exists>before m after. ms = before @ m # after \<and> (\<forall>b \<in> set before. call (lm_module b) = Inr Continue) \<and>
     (call (lm_module m) = Inr (hook_chain hook call ms) \<or>
      (\<exists>e. call (lm_module m) = Inl e) \<and> hook_chain hook call ms = fail_closed hook (lm_name m))"
proof (induction ms)
  case Nil
  then show ?case by simp
next
  case (Cons m ms)
  show ?case
  proof (cases "call (lm_module m) = Inr Continue")
    case True
    then have same: "hook_chain hook call (m # ms) = hook_chain hook call ms" by simp
    with Cons.prems have "hook_chain hook call ms \<noteq> Continue" by simp
    from Cons.IH [OF this] obtain before x after where
      "m # ms = (m # before) @ x # after" "\<forall>b \<in> set (m # before). call (lm_module b) = Inr Continue"
      "call (lm_module x) = Inr (hook_chain hook call (m # ms)) \<or>
        (\<exists>e. call (lm_module x) = Inl e) \<and> hook_chain hook call (m # ms) = fail_closed hook (lm_name x)"
      unfolding same using True by auto
    then show ?thesis by blast
  next
    case False
    then have "call (lm_module m) = Inr (hook_chain hook call (m # ms)) \<or>
        (\<exists>e. call (lm_module m) = Inl e) \<and> hook_chain hook call (m # ms) = fail_closed hook (lm_name m)"
      by (auto split: sum.splits decision.splits)
    then show ?thesis by (intro exI [of _ "[]"] exI [of _ m] exI [of _ ms]) simp
  qed
qed

text \<open>Property C34. A hook chain fails closed: the request goes on only if every module that
  implements the hook answered \<open>Continue\<close>; otherwise the first module that did not decides, and if
  that module trapped, ran out of fuel or time, or broke the byte boundary, the answer is the
  rejection (on a response event: the cut) that names it.\<close>

theorem module_chain_fails_closed:
  "(bm_on_request L ms view = Continue \<longleftrightarrow>
      (\<forall>m \<in> set (for_hook OnRequest ms). pm_on_request L view (lm_module m) = Inr Continue)) \<and>
   (bm_on_request L ms view \<noteq> Continue \<longrightarrow>
      (\<exists>before m after. for_hook OnRequest ms = before @ m # after \<and>
         (\<forall>b \<in> set before. pm_on_request L view (lm_module b) = Inr Continue) \<and>
         (pm_on_request L view (lm_module m) = Inr (bm_on_request L ms view) \<or>
          (\<exists>e. pm_on_request L view (lm_module m) = Inl e) \<and>
            bm_on_request L ms view = Reject (''wasm-module-fault:'' @ lm_name m)))) \<and>
   (bm_on_response_event L ms ev = Continue \<longleftrightarrow>
      (\<forall>m \<in> set (for_hook OnResponseEvent ms). pm_on_response_event L ev (lm_module m) = Inr Continue)) \<and>
   (\<forall>before m after e. for_hook OnResponseEvent ms = before @ m # after \<longrightarrow>
      (\<forall>b \<in> set before. pm_on_response_event L ev (lm_module b) = Inr Continue) \<longrightarrow>
      pm_on_response_event L ev (lm_module m) = Inl e \<longrightarrow>
      bm_on_response_event L ms ev = CutStream (''wasm-module-fault:'' @ lm_name m))"
proof (intro conjI)
  have reject: "fail_closed OnRequest n = Reject (''wasm-module-fault:'' @ n)" for n
    by (simp add: fail_closed_def fail_closed_decision_def)
  show "bm_on_request L ms view \<noteq> Continue \<longrightarrow>
      (\<exists>before m after. for_hook OnRequest ms = before @ m # after \<and>
         (\<forall>b \<in> set before. pm_on_request L view (lm_module b) = Inr Continue) \<and>
         (pm_on_request L view (lm_module m) = Inr (bm_on_request L ms view) \<or>
          (\<exists>e. pm_on_request L view (lm_module m) = Inl e) \<and>
            bm_on_request L ms view = Reject (''wasm-module-fault:'' @ lm_name m)))"
    unfolding bm_on_request_def reject [symmetric] by (intro impI hook_chain_stops)
  show "\<forall>before m after e. for_hook OnResponseEvent ms = before @ m # after \<longrightarrow>
      (\<forall>b \<in> set before. pm_on_response_event L ev (lm_module b) = Inr Continue) \<longrightarrow>
      pm_on_response_event L ev (lm_module m) = Inl e \<longrightarrow>
      bm_on_response_event L ms ev = CutStream (''wasm-module-fault:'' @ lm_name m)"
    by (simp add: bm_on_response_event_def hook_chain_append fail_closed_def fail_closed_decision_def)
qed (simp_all add: bm_on_request_def bm_on_response_event_def hook_chain_Continue)

text \<open>A guest without memory: every call of it faults.\<close>

definition broken_lib :: "(unit, unit) wasm_lib" where
  "broken_lib = \<lparr>we_hmac = (\<lambda>_ _. ''k''), we_compile = (\<lambda>_. Inr ()), we_imports = (\<lambda>_. []),
     we_instantiate = (\<lambda>_ _. Inr ()), we_memory = (\<lambda>_. None), we_set_memory = (\<lambda>_ i. i),
     we_no_alloc = (\<lambda>_. None), we_alloc = (\<lambda>_ i. (Inr 0, i)), we_no_hook = (\<lambda>_ _. None),
     we_hook = (\<lambda>_ _ _ i. (Inr 0, i)), we_request_json = (\<lambda>_. Inr []), we_event_json = (\<lambda>_. Inr []),
     we_end_json = (\<lambda>_. Inr []), we_decision = (\<lambda>_. Inr Continue)\<rparr>"

definition broken_set :: "unit module_set" where
  "broken_set = \<lparr>ms_modules = [\<lparr>lm_module = \<lparr>pm_module = (), pm_limits = default_limits, pm_name = ''m''\<rparr>,
     lm_hooks = [OnRequest], lm_schema = 1\<rparr>], ms_by_name = [(''m'', 0)]\<rparr>"

definition broken_view :: request_view where
  "broken_view = \<lparr>rv_method = ''POST'', rv_path = ''/'', rv_headers = [], rv_attribution = []\<rparr>"

lemma broken_call: "pm_on_request broken_lib broken_view m = Inl (HInstantiate ''module exports no `memory`'')"
  by (simp add: pm_on_request_def invoke_view_def invoke_module_def call_hook_def broken_lib_def)

theorem module_chain_fails_closed_witness:
  "bm_on_request broken_lib broken_set broken_view = Reject ''wasm-module-fault:m''"
proof -
  have hooks: "for_hook OnRequest broken_set = ms_modules broken_set"
    by (simp add: for_hook_def broken_set_def implements_hook_def)
  have "bm_on_request broken_lib broken_set broken_view \<noteq> Continue"
    using module_chain_fails_closed [of broken_lib broken_set broken_view]
    by (simp add: hooks broken_call) (simp add: broken_set_def)
  then show ?thesis
    using module_chain_fails_closed [of broken_lib broken_set broken_view]
    by (auto simp: hooks broken_call) (auto simp: broken_set_def lm_name_def Cons_eq_append_conv)
qed

end
