(* ===== verification/WasmRuntime.thy ===== *)
theory WasmRuntime
  imports Reloader PolicyModule
begin

text \<open>
  \<open>gatewayd/src/wasm_runtime.rs\<close>: the module sets keyed by snapshot version, bound per request and
  replaced by the swap hook of the reloader.  Reading a module's file is a parameter; \<open>None\<close> of
  \<open>on_swap\<close> would be a migration loop that does not end, which the empty migration catalog rules
  out.  The locks make each operation a step, and \<open>serving\<close> is the system of requests, swaps and
  break-glass pins interleaved in any order: a request loads the snapshot and binds its modules in
  two steps, a swap runs its hook and stores the snapshot in two.
\<close>

section \<open>The runtime\<close>

datatype load_set_error = CannotRead string string | BadModuleSet load_error

type_synonym read_module = "string option \<Rightarrow> string \<Rightarrow> string + string"

definition to_manifest :: "read_module \<Rightarrow> string option \<Rightarrow> wasm_module \<Rightarrow> load_set_error + module_manifest" where
  "to_manifest read base m =
     (case read base (wm_source m) of
        Inl e \<Rightarrow> Inl (CannotRead (wm_name m) e)
      | Inr contents \<Rightarrow> Inr \<lparr>mm_name = wm_name m, mm_bytes = contents, mm_signature = wm_signature m,
          mm_hooks = wm_hooks m, mm_schema = wm_schema m\<rparr>)"

fun to_manifests ::
  "read_module \<Rightarrow> string option \<Rightarrow> wasm_module list \<Rightarrow> load_set_error + module_manifest list"
where
  "to_manifests read base [] = Inr []"
| "to_manifests read base (m # ms) =
     (case to_manifest read base m of
        Inl e \<Rightarrow> Inl e
      | Inr mf \<Rightarrow> (case to_manifests read base ms of Inl e \<Rightarrow> Inl e | Inr mfs \<Rightarrow> Inr (mf # mfs)))"

definition load_set ::
  "('m, 'i) wasm_lib \<Rightarrow> read_module \<Rightarrow> wasm_config \<Rightarrow> string option \<Rightarrow> string \<Rightarrow> wasm_limits \<Rightarrow>
   load_set_error + 'm module_set"
where
  "load_set L read cfg base key limits =
     (if wc_modules cfg = [] then Inr empty_module_set
      else case to_manifests read base (wc_modules cfg) of
        Inl e \<Rightarrow> Inl e
      | Inr mfs \<Rightarrow> (case load_module_set L mfs key limits of
          Inl e \<Rightarrow> Inl (BadModuleSet e) | Inr ms \<Rightarrow> Inr ms))"

definition migrations_for :: "string \<Rightarrow> migration list" where
  "migrations_for name = []"

record 'm wasm_runtime =
  wr_by_version :: "(u64, 'm module_set) btree"
  wr_per_event :: bool
  wr_state :: module_state
  wr_key :: string
  wr_limits :: wasm_limits
  wr_base_dir :: "string option"
  wr_break_glass :: "'m module_set module_break_glass option"

text \<open>\<open>signing_key\<close>: the environment variable, when set and not empty.\<close>

definition signing_key :: "string option \<Rightarrow> string" where
  "signing_key env = (case env of
     Some k \<Rightarrow> if k \<noteq> [] then k else ''gatewayd-dev-signing-key''
   | None \<Rightarrow> ''gatewayd-dev-signing-key'')"

definition wr_bootstrap ::
  "('m, 'i) wasm_lib \<Rightarrow> read_module \<Rightarrow> string option \<Rightarrow> string option \<Rightarrow> ('p, 'k) config snapshot \<Rightarrow>
   (load_set_error + 'm wasm_runtime) option"
where
  "wr_bootstrap L read env base snap =
     (case load_set L read (cf_wasm (sn_config snap)) base (signing_key env) default_limits of
        Inl e \<Rightarrow> Some (Inl e)
      | Inr ms \<Rightarrow>
          map_option
            (\<lambda>st. Inr \<lparr>wr_by_version = [(sn_version snap, ms)],
               wr_per_event = wc_per_event_hooks (cf_wasm (sn_config snap)), wr_state = st,
               wr_key = signing_key env, wr_limits = default_limits, wr_base_dir = base,
               wr_break_glass = None\<rparr>)
            (if ms_modules ms = [] then Some module_state_new
             else map_option snd
               (module_plan_diff ms module_state_new migrations_for DEFAULT_RESET_WINDOW_SECS)))"

definition bind_modules :: "u64 \<Rightarrow> u64 \<Rightarrow> 'm wasm_runtime \<Rightarrow> 'm module_set" where
  "bind_modules version now rt =
     (let desired = unwrap_or (bt_get (wr_by_version rt) version) empty_module_set in
      case wr_break_glass rt of
        Some bg \<Rightarrow> if bg_active bg now then bg_resolve bg desired now else desired
      | None \<Rightarrow> desired)"

text \<open>\<open>on_swap\<close>; \<open>held v\<close> says that somebody outside the runtime still holds the set of version
  \<open>v\<close>, and the local \<open>old_set\<close> holds the one of \<open>old_version\<close> while the map is pruned.\<close>

definition on_swap ::
  "('m, 'i) wasm_lib \<Rightarrow> read_module \<Rightarrow> (u64 \<Rightarrow> bool) \<Rightarrow> u64 \<Rightarrow> ('p, 'k) config snapshot \<Rightarrow> 'm wasm_runtime \<Rightarrow>
   ((load_set_error + string list) \<times> 'm wasm_runtime) option"
where
  "on_swap L read held old_version snap rt =
     (case load_set L read (cf_wasm (sn_config snap)) (wr_base_dir rt) (wr_key rt) (wr_limits rt) of
        Inl e \<Rightarrow> Some (Inl e, rt)
      | Inr new_set \<Rightarrow>
          (case module_plan_diff new_set (wr_state rt) migrations_for DEFAULT_RESET_WINDOW_SECS of
             None \<Rightarrow> None
           | Some (outcomes, st) \<Rightarrow>
               (let new_v = sn_version snap;
                    stored = bt_insert new_v new_set (wr_by_version rt)
                in Some (Inr (reset_modules outcomes),
                     rt\<lparr>wr_state := st,
                        wr_per_event := wc_per_event_hooks (cf_wasm (sn_config snap)),
                        wr_by_version := filter (\<lambda>(v, _). new_v \<le> v \<or> held v \<or> v = old_version) stored\<rparr>))))"

definition break_glass_pin :: "'m module_set \<Rightarrow> u64 \<Rightarrow> string \<Rightarrow> 'm wasm_runtime \<Rightarrow> 'm wasm_runtime" where
  "break_glass_pin ms until reason rt =
     rt\<lparr>wr_break_glass := Some \<lparr>bg_pinned = ms, bg_until = until, bg_reason = reason\<rparr>\<rparr>"

text \<open>SIGUSR1; the sum is the code's plain \<open>+\<close>.\<close>

definition sigusr1 :: "u64 \<Rightarrow> u64 \<Rightarrow> 'm wasm_runtime \<Rightarrow> 'm wasm_runtime" where
  "sigusr1 now ttl =
     break_glass_pin empty_module_set (now + ttl) ''SIGUSR1: emergency disable of all WASM modules''"

text \<open>The hook \<open>main\<close> installs.\<close>

definition wasm_swap_hook ::
  "('m, 'i) wasm_lib \<Rightarrow> read_module \<Rightarrow> (u64 \<Rightarrow> bool) \<Rightarrow> (('p, 'k) config, 'm wasm_runtime) swap_hook"
where
  "wasm_swap_hook L read held = Some (\<lambda>old next_sn rt.
     (case on_swap L read held old next_sn rt of
        Some (Inr _, rt') \<Rightarrow> (Inr (), rt')
      | Some (Inl e, rt') \<Rightarrow> (Inl ''module set'', rt')
      | None \<Rightarrow> (Inl ''unreachable'', rt)))"

section \<open>Every operation returns\<close>

lemma plan_no_migrations: "plan old schema [] window \<noteq> None"
  by (cases old) (auto simp: plan_def try_migrate_def migrate_loop.simps)

lemma plan_modules_returns: "plan_modules ss migrations_for window st \<noteq> None"
proof (induction ss arbitrary: st)
  case Nil
  then show ?case by simp
next
  case (Cons s ss)
  obtain name schema where s: "s = (name, schema)" by (cases s)
  obtain c o' where "plan (bt_get st name) schema [] window = Some (c, o')"
    using plan_no_migrations [of "bt_get st name" schema window] by auto
  then show ?case
    using Cons.IH [of "bt_insert name c st"] by (auto simp: s rebind_def migrations_for_def)
qed

lemma on_swap_returns: "on_swap L read held old snap rt \<noteq> None"
  by (simp add: on_swap_def module_plan_diff_def plan_modules_returns Let_def split: sum.split option.split prod.split)

section \<open>The serving system\<close>

datatype ('c, 'm) request_phase = Loaded "'c snapshot" | Bound "'c snapshot" "'m module_set" bool

record ('p, 'k, 'm) serving =
  sv_rl :: "('p, 'k) config reloader"
  sv_rt :: "'m wasm_runtime"
  sv_pending :: "('p, 'k) config snapshot option"
  sv_previous :: "('p, 'k) config snapshot"
  sv_requests :: "nat \<Rightarrow> (('p, 'k) config, 'm) request_phase option"

abbreviation sv_cell :: "('p, 'k, 'm) serving \<Rightarrow> ('p, 'k) config snapshot" where
  "sv_cell st \<equiv> rl_shared (sv_rl st)"

text \<open>A set is held by the requests bound to it (a pinned request holds the pinned set instead).\<close>

definition holds :: "('p, 'k, 'm) serving \<Rightarrow> u64 \<Rightarrow> bool" where
  "holds st v \<longleftrightarrow> (\<exists>i sn ms. sv_requests st i = Some (Bound sn ms False) \<and> sn_version sn = v)"

definition pinned :: "u64 \<Rightarrow> 'm wasm_runtime \<Rightarrow> bool" where
  "pinned now rt \<longleftrightarrow> (\<exists>bg. wr_break_glass rt = Some bg \<and> bg_active bg now)"

text \<open>A swap takes the reload lock at \<open>hook\<close> and gives it back at \<open>store\<close>, so there is one at a
  time; \<open>previous\<close> remembers the snapshot the last hook replaced.\<close>

inductive serving_step ::
  "('m, 'i) wasm_lib \<Rightarrow> render_env \<Rightarrow> (string \<Rightarrow> 'e + ('p, 'k) config) \<Rightarrow>
   ('p, 'k, 'm) serving \<Rightarrow> ('p, 'k, 'm) serving \<Rightarrow> bool"
for L :: "('m, 'i) wasm_lib" and E :: render_env and from_yaml :: "string \<Rightarrow> 'e + ('p, 'k) config"
where
  load: "sv_requests st i = None \<Longrightarrow>
    serving_step L E from_yaml st (st\<lparr>sv_requests := (sv_requests st)(i \<mapsto> Loaded (sv_cell st))\<rparr>)"
| bind: "sv_requests st i = Some (Loaded sn) \<Longrightarrow>
    serving_step L E from_yaml st (st\<lparr>sv_requests := (sv_requests st)
      (i \<mapsto> Bound sn (bind_modules (sn_version sn) now (sv_rt st)) (pinned now (sv_rt st)))\<rparr>)"
| finish: "serving_step L E from_yaml st (st\<lparr>sv_requests := (sv_requests st)(i := None)\<rparr>)"
| refuse: "sv_pending st = None \<Longrightarrow> unat (rd_next (rl_renderer (sv_rl st))) + 1 < 2 ^ 64 \<Longrightarrow>
    r \<in> {rl_renderer (sv_rl st), (rl_renderer (sv_rl st))\<lparr>rd_next := rd_next (rl_renderer (sv_rl st)) + 1\<rparr>} \<Longrightarrow>
    serving_step L E from_yaml st (st\<lparr>sv_rl := (sv_rl st)\<lparr>rl_renderer := r\<rparr>\<rparr>)"
| hook: "sv_pending st = None \<Longrightarrow> unat (rd_next (rl_renderer (sv_rl st))) + 1 < 2 ^ 64 \<Longrightarrow>
    content_hash E t \<noteq> sn_content_hash (sv_cell st) \<Longrightarrow>
    render_text E from_yaml t source (rl_renderer (sv_rl st)) = (Inr sn, r) \<Longrightarrow>
    on_swap L read (holds st) (sn_version (sv_cell st)) sn (sv_rt st) = Some (Inr resets, rt) \<Longrightarrow>
    serving_step L E from_yaml st (st\<lparr>sv_rl := (sv_rl st)\<lparr>rl_renderer := r\<rparr>, sv_rt := rt,
      sv_pending := Some sn, sv_previous := sv_cell st\<rparr>)"
| store: "sv_pending st = Some sn \<Longrightarrow>
    serving_step L E from_yaml st (st\<lparr>sv_rl := (sv_rl st)\<lparr>rl_shared := sn\<rparr>, sv_pending := None\<rparr>)"
| pin: "serving_step L E from_yaml st (st\<lparr>sv_rt := sigusr1 now ttl (sv_rt st)\<rparr>)"

inductive_cases serving_stepE: "serving_step L E from_yaml st st'"

inductive serving_reach for L E from_yaml st0 where
  start: "serving_reach L E from_yaml st0 st0"
| step: "serving_reach L E from_yaml st0 st \<Longrightarrow> serving_step L E from_yaml st st' \<Longrightarrow>
    serving_reach L E from_yaml st0 st'"

text \<open>The state \<open>main\<close> starts serving with.\<close>

definition serving_start ::
  "('p, 'k) config reloader \<Rightarrow> 'm wasm_runtime \<Rightarrow> ('p, 'k, 'm) serving"
where
  "serving_start rl rt = \<lparr>sv_rl = rl, sv_rt = rt, sv_pending = None, sv_previous = rl_shared rl,
     sv_requests = (\<lambda>_. None)\<rparr>"

section \<open>The pairing of configuration and modules\<close>

text \<open>The set stored for a snapshot is one its configuration loads to.\<close>

definition stored ::
  "('m, 'i) wasm_lib \<Rightarrow> 'm wasm_runtime \<Rightarrow> ('p, 'k) config snapshot \<Rightarrow> bool"
where
  "stored L rt sn \<longleftrightarrow> (\<exists>read ms. bt_get (wr_by_version rt) (sn_version sn) = Some ms \<and>
     load_set L read (cf_wasm (sn_config sn)) (wr_base_dir rt) (wr_key rt) (wr_limits rt) = Inr ms)"

definition paired :: "('m, 'i) wasm_lib \<Rightarrow> ('p, 'k, 'm) serving \<Rightarrow> bool" where
  "paired L st \<longleftrightarrow> bt_wf (wr_by_version (sv_rt st)) \<and>
     stored L (sv_rt st) (sv_cell st) \<and> stored L (sv_rt st) (sv_previous st) \<and>
     (\<forall>sn. sv_pending st = Some sn \<longrightarrow> stored L (sv_rt st) sn) \<and>
     (\<forall>sn \<in> {sv_cell st, sv_previous st} \<union> set_option (sv_pending st).
        sn_version sn \<le> rd_next (rl_renderer (sv_rl st)))"

lemma bt_get_filter:
  "bt_wf m \<Longrightarrow> P k \<Longrightarrow> bt_get (filter (\<lambda>(v, _). P v) m) k = bt_get m k"
  by (induction m) (auto simp: bt_wf_Cons)

lemma bt_wf_filter: "bt_wf m \<Longrightarrow> bt_wf (filter P m)"
  by (induction m) (auto simp: bt_wf_Cons)

lemma on_swap_stores:
  assumes "on_swap L read held old sn rt = Some (Inr resets, rt')" "bt_wf (wr_by_version rt)"
  shows "stored L rt' sn" and "bt_wf (wr_by_version rt')"
    and "sn_version sn' \<noteq> sn_version sn \<Longrightarrow> sn_version sn' = old \<Longrightarrow> stored L rt sn' \<Longrightarrow> stored L rt' sn'"
proof -
  obtain ms outcomes mst where ms: "load_set L read (cf_wasm (sn_config sn)) (wr_base_dir rt) (wr_key rt) (wr_limits rt) = Inr ms"
    and rt': "rt' = rt\<lparr>wr_state := mst, wr_per_event := wc_per_event_hooks (cf_wasm (sn_config sn)),
      wr_by_version := filter (\<lambda>(v, _). sn_version sn \<le> v \<or> held v \<or> v = old)
        (bt_insert (sn_version sn) ms (wr_by_version rt))\<rparr>"
    using assms(1) by (auto simp: on_swap_def Let_def split: sum.splits option.splits prod.splits)
  have wf: "bt_wf (bt_insert (sn_version sn) ms (wr_by_version rt))" using assms(2) by (rule bt_wf_insert)
  then show "bt_wf (wr_by_version rt')" by (simp add: rt' bt_wf_filter)
  have get: "bt_get (wr_by_version rt') v = bt_get (bt_insert (sn_version sn) ms (wr_by_version rt)) v"
    if "sn_version sn \<le> v \<or> v = old" for v
    using bt_get_filter [OF wf, of "\<lambda>v. sn_version sn \<le> v \<or> held v \<or> v = old" v] that by (auto simp: rt')
  show "stored L rt' sn"
    using ms assms(2) by (auto simp: stored_def get bt.get_insert) (auto simp: rt')
  show "stored L rt' sn'" if "sn_version sn' \<noteq> sn_version sn" "sn_version sn' = old" "stored L rt sn'"
    using that assms(2) by (auto simp: stored_def get bt.get_insert) (auto simp: rt')
qed

lemma paired_step:
  assumes "serving_step L E from_yaml st st'" "paired L st"
  shows "paired L st'"
  using assms
proof (cases rule: serving_step.cases)
  case (hook t source sn r read resets rt)
  have v: "sn_version sn = rd_next (rl_renderer (sv_rl st)) + 1" "r = (rl_renderer (sv_rl st))\<lparr>rd_next := rd_next (rl_renderer (sv_rl st)) + 1\<rparr>"
    using hook(5) by (auto simp: render_text_def split: sum.splits)
  have up: "unat (rd_next (rl_renderer (sv_rl st)) + 1) = unat (rd_next (rl_renderer (sv_rl st))) + 1"
    using hook(3) by (simp add: unat_word_ariths)
  have wf: "bt_wf (wr_by_version (sv_rt st))" using assms(2) by (simp add: paired_def)
  have le: "sn_version (sv_cell st) \<le> rd_next (rl_renderer (sv_rl st))" and "stored L (sv_rt st) (sv_cell st)"
    using assms(2) by (simp_all add: paired_def)
  moreover have "sn_version (sv_cell st) \<noteq> sn_version sn" using le up by (auto simp: v(1) word_le_nat_alt)
  ultimately have "stored L rt (sv_cell st)" using on_swap_stores(3) [OF hook(6) wf] by blast
  moreover have "rd_next (rl_renderer (sv_rl st)) \<le> rd_next (rl_renderer (sv_rl st)) + 1"
    using up by (simp add: word_le_nat_alt)
  ultimately show ?thesis
    using on_swap_stores(1,2) [OF hook(6) wf] le v by (auto simp: hook(1) paired_def)
next
  case (refuse r)
  then have "rd_next (rl_renderer (sv_rl st)) \<le> rd_next r"
    by (auto simp: word_le_nat_alt unat_word_ariths)
  then show ?thesis using refuse assms(2) by (auto simp: paired_def)
qed (use assms in \<open>auto simp: paired_def stored_def sigusr1_def break_glass_pin_def\<close>)

lemma paired_reach: "serving_reach L E from_yaml st0 st \<Longrightarrow> paired L st0 \<Longrightarrow> paired L st"
  by (induction rule: serving_reach.induct) (auto intro: paired_step)

lemma paired_start:
  assumes "bootstrap_file E from_yaml io_error contents path = Inr rl"
    and "wr_bootstrap L read env base (rl_shared rl) = Some (Inr rt)"
  shows "paired L (serving_start rl rt)"
proof -
  have "sn_version (rl_shared rl) \<le> rd_next (rl_renderer rl)"
    using assms(1) by (auto simp: bootstrap_file_def render_file_def render_text_def split: sum.splits prod.splits)
  moreover have "stored L rt (rl_shared rl)" "bt_wf (wr_by_version rt)"
    using assms(2)
    by (auto simp: wr_bootstrap_def stored_def bt_wf_Cons split: sum.splits)
  ultimately show ?thesis by (simp add: paired_def serving_start_def)
qed

text \<open>Property C32. Configuration and modules bind together: in every reachable interleaving of
  requests, swaps and break-glass pins, a request that binds its modules while the cell still holds
  the snapshot it loaded, or has moved on by one snapshot since the last hook ran, gets the module
  set loaded from exactly that snapshot's configuration; while a break-glass pin is active it gets
  the pinned set.\<close>

theorem modules_bind_with_config:
  assumes "bootstrap_file E from_yaml io_error contents path = Inr rl"
    and "wr_bootstrap L boot_read env base (rl_shared rl) = Some (Inr rt)"
    and "serving_reach L E from_yaml (serving_start rl rt) st"
    and "sv_requests st i = Some (Loaded sn)" "sn \<in> {sv_cell st, sv_previous st}"
  shows "(\<not> pinned now (sv_rt st) \<longrightarrow>
       (\<exists>read. load_set L read (cf_wasm (sn_config sn)) (wr_base_dir (sv_rt st)) (wr_key (sv_rt st)) (wr_limits (sv_rt st)) =
          Inr (bind_modules (sn_version sn) now (sv_rt st)))) \<and>
     (\<forall>bg. wr_break_glass (sv_rt st) = Some bg \<longrightarrow> now < bg_until bg \<longrightarrow>
       bind_modules (sn_version sn) now (sv_rt st) = bg_pinned bg)"
proof -
  have "paired L st" using paired_reach [OF assms(3)] paired_start [OF assms(1,2)] by blast
  then have "stored L (sv_rt st) sn" using assms(5) by (auto simp: paired_def)
  then show ?thesis
    by (auto simp: stored_def bind_modules_def pinned_def bg_active_def bg_resolve_def split: option.splits)
qed

section \<open>A request overtaken by two swaps\<close>

text \<open>One module on \<open>on_request\<close>, signed, in every version of the configuration.\<close>

definition demo_module :: wasm_module where
  "demo_module = \<lparr>wm_name = ''m'', wm_source = ''m.wasm'', wm_signature = Some ''6b'', wm_hooks = [OnRequest],
     wm_schema = 1, wm_reset_window_secs = None\<rparr>"

definition demo_reply :: rejection_template where
  "demo_reply = \<lparr>rt_status = 403, rt_content_type = ''text/plain'', rt_body = [], rt_streaming = None\<rparr>"

definition demo_config :: "(unit, unit) config" where
  "demo_config = \<lparr>cf_providers = [], cf_fleet = None, cf_projects = [], cf_routes = [], cf_apps = None,
     cf_rejections = \<lparr>rj_default_response = demo_reply, rj_unknown_route = demo_reply,
       rj_model_not_allowed = None, rj_value_not_allowed = None, rj_cap_exceeded = None\<rparr>,
     cf_auth = None, cf_telemetry = None, cf_alerts = None,
     cf_wasm = \<lparr>wc_modules = [demo_module], wc_per_event_hooks = False\<rparr>\<rparr>"

definition demo_yaml :: "string \<Rightarrow> unit + (unit, unit) config" where
  "demo_yaml t = Inr demo_config"

definition demo_files :: read_module where
  "demo_files base source = Inr ''guest''"

definition demo_snapshot :: "u64 \<Rightarrow> string \<Rightarrow> (unit, unit) config snapshot" where
  "demo_snapshot v t = \<lparr>sn_config = demo_config, sn_version = v, sn_source = ''gateway.yaml'',
     sn_content_hash = content_hash echo_env t\<rparr>"

lemma demo_snapshot_simps [simp]:
  "sn_config (demo_snapshot v t) = demo_config" "sn_version (demo_snapshot v t) = v"
  "sn_content_hash (demo_snapshot v t) = content_hash echo_env t"
  by (simp_all add: demo_snapshot_def)

definition demo_reloader :: "(unit, unit) config reloader" where
  "demo_reloader = \<lparr>rl_shared = demo_snapshot 1 ''a'', rl_renderer = \<lparr>rd_next = 1\<rparr>, rl_path = Some ''gateway.yaml''\<rparr>"

definition demo_loaded :: "unit module_set" where
  "demo_loaded = \<lparr>ms_modules = [\<lparr>lm_module = \<lparr>pm_module = (), pm_limits = default_limits, pm_name = ''m''\<rparr>,
     lm_hooks = [OnRequest], lm_schema = 1\<rparr>], ms_by_name = [(''m'', 0)]\<rparr>"

lemma demo_boot: "bootstrap_file echo_env demo_yaml (\<lambda>_. ()) (Inr ''a'') ''gateway.yaml'' = Inr demo_reloader"
  by (simp add: bootstrap_file_def render_file_def render_text_def demo_yaml_def renderer_new_def
    demo_reloader_def demo_snapshot_def)

lemma demo_load: "load_set broken_lib demo_files (cf_wasm demo_config) base key default_limits = Inr demo_loaded"
proof -
  have "trim ''6b'' = ''6b''" by (rule trim_graphic) (simp_all add: is_ascii_graphic_def)
  moreover have "char_of (107 :: nat) = CHR ''k''" by code_simp
  ultimately show ?thesis
    by (simp add: load_set_def demo_config_def to_manifest_def demo_module_def demo_files_def
      load_module_set_def load_one_def verify_module_def decode_hex_def hex_nibble_def hex_val_def
      is_ascii_digit_def broken_lib_def compile_module_def demo_loaded_def empty_module_set_def)
qed

lemma demo_runtime:
  "\<exists>rt. wr_bootstrap broken_lib demo_files None None (demo_snapshot 1 ''a'') = Some (Inr rt) \<and>
     wr_by_version rt = [(1, demo_loaded)] \<and> wr_break_glass rt = None \<and> wr_limits rt = default_limits"
proof -
  obtain outs st where "module_plan_diff demo_loaded module_state_new migrations_for DEFAULT_RESET_WINDOW_SECS = Some (outs, st)"
    using plan_modules_returns [of "ms_schemas demo_loaded" DEFAULT_RESET_WINDOW_SECS module_state_new]
    by (auto simp: module_plan_diff_def)
  then show ?thesis by (simp add: wr_bootstrap_def demo_snapshot_def demo_load)
qed

lemma on_swap_ok:
  assumes "load_set L read (cf_wasm (sn_config snap)) (wr_base_dir rt) (wr_key rt) (wr_limits rt) = Inr ms"
  shows "\<exists>resets rt'. on_swap L read held old snap rt = Some (Inr resets, rt') \<and>
     wr_by_version rt' = filter (\<lambda>(v, _). sn_version snap \<le> v \<or> held v \<or> v = old)
       (bt_insert (sn_version snap) ms (wr_by_version rt)) \<and>
     wr_break_glass rt' = wr_break_glass rt \<and> wr_limits rt' = wr_limits rt"
proof -
  obtain outs st where "module_plan_diff ms (wr_state rt) migrations_for DEFAULT_RESET_WINDOW_SECS = Some (outs, st)"
    using plan_modules_returns [of "ms_schemas ms" DEFAULT_RESET_WINDOW_SECS "wr_state rt"]
    by (auto simp: module_plan_diff_def)
  then show ?thesis using assms by (simp add: on_swap_def Let_def)
qed

text \<open>One whole swap of the demo system: its hook and its store.\<close>

lemma demo_swap:
  assumes "serving_reach broken_lib echo_env demo_yaml st0 st" "sv_pending st = None"
    and "rd_next (rl_renderer (sv_rl st)) = v" "sn_version (sv_cell st) = v" "unat v + 1 < 2 ^ 64"
    and "content_hash echo_env t \<noteq> sn_content_hash (sv_cell st)" "wr_limits (sv_rt st) = default_limits"
  shows "\<exists>st'. serving_reach broken_lib echo_env demo_yaml st0 st' \<and> sv_pending st' = None \<and>
     rd_next (rl_renderer (sv_rl st')) = v + 1 \<and> sv_cell st' = demo_snapshot (v + 1) t \<and>
     sv_requests st' = sv_requests st \<and> wr_limits (sv_rt st') = default_limits \<and>
     wr_break_glass (sv_rt st') = wr_break_glass (sv_rt st) \<and>
     wr_by_version (sv_rt st') = filter (\<lambda>(w, _). v + 1 \<le> w \<or> holds st w \<or> w = v)
       (bt_insert (v + 1) demo_loaded (wr_by_version (sv_rt st)))"
proof -
  have render: "render_text echo_env demo_yaml t ''gateway.yaml'' (rl_renderer (sv_rl st)) =
      (Inr (demo_snapshot (v + 1) t), (rl_renderer (sv_rl st))\<lparr>rd_next := v + 1\<rparr>)"
    using assms(3) by (simp add: render_text_def demo_yaml_def demo_snapshot_def)
  have "load_set broken_lib demo_files (cf_wasm (sn_config (demo_snapshot (v + 1) t)))
      (wr_base_dir (sv_rt st)) (wr_key (sv_rt st)) (wr_limits (sv_rt st)) = Inr demo_loaded"
    using assms(7) by (simp add: demo_snapshot_def demo_load)
  from on_swap_ok [OF this, of "holds st" v] obtain resets rt where
    swap: "on_swap broken_lib demo_files (holds st) (sn_version (sv_cell st)) (demo_snapshot (v + 1) t) (sv_rt st) = Some (Inr resets, rt)"
    and rt: "wr_by_version rt = filter (\<lambda>(w, _). v + 1 \<le> w \<or> holds st w \<or> w = v)
        (bt_insert (v + 1) demo_loaded (wr_by_version (sv_rt st)))"
      "wr_break_glass rt = wr_break_glass (sv_rt st)" "wr_limits rt = default_limits"
    using assms(4,7) by (auto simp: demo_snapshot_def)
  let ?mid = "st\<lparr>sv_rl := (sv_rl st)\<lparr>rl_renderer := (rl_renderer (sv_rl st))\<lparr>rd_next := v + 1\<rparr>\<rparr>,
    sv_rt := rt, sv_pending := Some (demo_snapshot (v + 1) t), sv_previous := sv_cell st\<rparr>"
  have "serving_step broken_lib echo_env demo_yaml st ?mid"
    by (rule serving_step.hook [OF assms(2) _ assms(6) render swap]) (use assms(3,5) in simp)
  with assms(1) have mid: "serving_reach broken_lib echo_env demo_yaml st0 ?mid" by (rule serving_reach.step)
  let ?fin = "?mid\<lparr>sv_rl := (sv_rl ?mid)\<lparr>rl_shared := demo_snapshot (v + 1) t\<rparr>, sv_pending := None\<rparr>"
  from mid have "serving_reach broken_lib echo_env demo_yaml st0 ?fin"
    by (rule serving_reach.step) (rule serving_step.store, simp)
  then show ?thesis by (intro exI [of _ ?fin]) (simp add: rt)
qed

text \<open>The pairing is lost when a request is overtaken by two swaps: there is a reachable
  interleaving in which a request has loaded a snapshot whose configuration declares a signed
  \<open>on_request\<close> module and is then bound to the empty module set, so the policy does not run for it.\<close>

theorem two_swaps_drop_the_modules:
  "\<exists>rt st. wr_bootstrap broken_lib demo_files None None (rl_shared demo_reloader) = Some (Inr rt) \<and>
     serving_reach broken_lib echo_env demo_yaml (serving_start demo_reloader rt) st \<and>
     sv_requests st 0 = Some (Bound (demo_snapshot 1 ''a'') empty_module_set False) \<and>
     wc_modules (cf_wasm (sn_config (demo_snapshot 1 ''a''))) = [demo_module]"
proof -
  have cell: "rl_shared demo_reloader = demo_snapshot 1 ''a''" by (simp add: demo_reloader_def)
  have hashes: "content_hash echo_env ''b'' \<noteq> content_hash echo_env ''a''"
    "content_hash echo_env ''c'' \<noteq> content_hash echo_env ''b''"
    by code_simp+
  obtain rt where boot: "wr_bootstrap broken_lib demo_files None None (demo_snapshot 1 ''a'') = Some (Inr rt)"
    and rt: "wr_by_version rt = [(1, demo_loaded)]" "wr_break_glass rt = None" "wr_limits rt = default_limits"
    using demo_runtime by blast
  let ?s0 = "serving_start demo_reloader rt"
  let ?s1 = "?s0\<lparr>sv_requests := (sv_requests ?s0)(0 \<mapsto> Loaded (demo_snapshot 1 ''a''))\<rparr>"
  have "serving_step broken_lib echo_env demo_yaml ?s0 ?s1"
    using serving_step.load [of ?s0 0 broken_lib echo_env demo_yaml] by (simp add: serving_start_def cell)
  then have reach1: "serving_reach broken_lib echo_env demo_yaml ?s0 ?s1"
    by (rule serving_reach.step [OF serving_reach.start])
  have free1: "\<not> holds ?s1 v" for v by (simp add: holds_def serving_start_def)
  obtain s2 where s2: "serving_reach broken_lib echo_env demo_yaml ?s0 s2" "sv_pending s2 = None"
      "rd_next (rl_renderer (sv_rl s2)) = 2" "sv_cell s2 = demo_snapshot 2 ''b''"
      "sv_requests s2 = sv_requests ?s1" "wr_limits (sv_rt s2) = default_limits"
      "wr_break_glass (sv_rt s2) = None" "wr_by_version (sv_rt s2) = [(1, demo_loaded), (2, demo_loaded)]"
    using demo_swap [OF reach1, of 1 "''b''"] hashes
    by (auto simp: serving_start_def demo_reloader_def rt)
  have free2: "\<not> holds s2 v" for v using free1 [of v] by (simp add: holds_def s2)
  obtain s3 where s3: "serving_reach broken_lib echo_env demo_yaml ?s0 s3"
      "sv_requests s3 = sv_requests ?s1"
      "wr_break_glass (sv_rt s3) = None" "wr_by_version (sv_rt s3) = [(2, demo_loaded), (3, demo_loaded)]"
    using demo_swap [OF s2(1,2,3), of "''c''"] hashes s2(4-) free2 by (auto simp: word_le_nat_alt)
  have "sv_requests s3 0 = Some (Loaded (demo_snapshot 1 ''a''))" by (simp add: s3)
  from serving_step.bind [OF this, of broken_lib echo_env demo_yaml 0]
  have "serving_step broken_lib echo_env demo_yaml s3
      (s3\<lparr>sv_requests := (sv_requests s3)(0 \<mapsto> Bound (demo_snapshot 1 ''a'') empty_module_set False)\<rparr>)"
    by (simp add: bind_modules_def pinned_def s3)
  with s3(1) have "serving_reach broken_lib echo_env demo_yaml ?s0
      (s3\<lparr>sv_requests := (sv_requests s3)(0 \<mapsto> Bound (demo_snapshot 1 ''a'') empty_module_set False)\<rparr>)"
    by (rule serving_reach.step)
  then show ?thesis
    using boot unfolding cell
    by (intro exI [of _ rt] exI) (auto simp: demo_config_def)
qed

text \<open>The same request, binding right after its load.\<close>

theorem modules_bind_with_config_witness:
  "\<exists>rt. wr_bootstrap broken_lib demo_files None None (rl_shared demo_reloader) = Some (Inr rt) \<and>
     (\<exists>read. load_set broken_lib read (cf_wasm demo_config) (wr_base_dir rt) (wr_key rt) (wr_limits rt) =
        Inr (bind_modules 1 0 rt))"
proof -
  have cell: "rl_shared demo_reloader = demo_snapshot 1 ''a''" by (simp add: demo_reloader_def)
  obtain rt where boot: "wr_bootstrap broken_lib demo_files None None (rl_shared demo_reloader) = Some (Inr rt)"
    and unpinned: "wr_break_glass rt = None"
    unfolding cell using demo_runtime by blast
  let ?s0 = "serving_start demo_reloader rt"
  let ?s1 = "?s0\<lparr>sv_requests := (sv_requests ?s0)(0 \<mapsto> Loaded (sv_cell ?s0))\<rparr>"
  have reach: "serving_reach broken_lib echo_env demo_yaml ?s0 ?s1"
    by (rule serving_reach.step [OF serving_reach.start serving_step.load]) (simp add: serving_start_def)
  show ?thesis
    using modules_bind_with_config [OF demo_boot boot reach, of 0 "sv_cell ?s0" 0] boot unpinned
    by (auto simp: serving_start_def pinned_def cell)
qed

end
