(* ===== verification/Metering.thy ===== *)
theory Metering
  imports Adapters F64
begin

text \<open>
  \<open>gateway-core/src/metering.rs\<close> and \<open>adapters/json_body.rs\<close>: the meter over the canonical
  events and the tap that reads a whole JSON body.  Counts are \<open>u64\<close> and wrap; the estimate
  is a double, exact up to \<open>2^53\<close> characters.  Lemmas: what the meter reports, and that the
  tap is a function of the bytes alone.
\<close>

section \<open>The meter\<close>

definition CHARS_PER_TOKEN :: f64 where
  "CHARS_PER_TOKEN = FFin 4"

record token_meter =
  mt_output_chars :: u64
  mt_input :: "u64 option"
  mt_output :: "u64 option"

definition meter_new :: token_meter where
  "meter_new = \<lparr>mt_output_chars = 0, mt_input = None, mt_output = None\<rparr>"

definition observe :: "event \<Rightarrow> token_meter \<Rightarrow> token_meter" where
  "observe e m = (case e of
     ContentDelta _ t \<Rightarrow> m\<lparr>mt_output_chars := mt_output_chars m + of_nat (char_count t)\<rparr>
   | ToolCallDelta _ _ _ a \<Rightarrow> m\<lparr>mt_output_chars := mt_output_chars m + of_nat (char_count a)\<rparr>
   | UsageDelta i out \<Rightarrow> m\<lparr>mt_input := (if i \<noteq> None then i else mt_input m),
       mt_output := (if out \<noteq> None then out else mt_output m)\<rparr>
   | _ \<Rightarrow> m)"

definition estimated_output_tokens :: "token_meter \<Rightarrow> u64" where
  "estimated_output_tokens m =
     f_to_u64 (f_ceil (f_div (u64_to_f64 (mt_output_chars m)) CHARS_PER_TOKEN))"

record meter_report =
  mr_estimated :: u64
  mr_input :: "u64 option"
  mr_output :: "u64 option"
  mr_error_pct :: "f64 option"

definition meter_report_of :: "token_meter \<Rightarrow> meter_report" where
  "meter_report_of m =
     \<lparr>mr_estimated = estimated_output_tokens m, mr_input = mt_input m, mr_output = mt_output m,
      mr_error_pct = map_option (\<lambda>auth.
        if auth = 0 then FFin 0
        else f_mul (f_div (f_sub (u64_to_f64 (estimated_output_tokens m)) (u64_to_f64 auth))
               (u64_to_f64 auth)) (FFin 100)) (mt_output m)\<rparr>"

section \<open>The JSON body tap\<close>

definition JSON_BODY_CAP :: nat where
  "JSON_BODY_CAP = 256 * 1024 * 1024"

record json_body_tap =
  jt_kind :: provider_kind
  jt_cap :: nat
  jt_buf :: string
  jt_overflowed :: bool

definition tap_with_cap :: "provider_kind \<Rightarrow> nat \<Rightarrow> json_body_tap" where
  "tap_with_cap kind cap = \<lparr>jt_kind = kind, jt_cap = cap, jt_buf = [], jt_overflowed = False\<rparr>"

definition tap_new :: "provider_kind \<Rightarrow> json_body_tap" where
  "tap_new kind = tap_with_cap kind JSON_BODY_CAP"

definition tap_feed :: "json_body_tap \<Rightarrow> string \<Rightarrow> event list \<times> json_body_tap" where
  "tap_feed t bytes =
     (if jt_overflowed t then ([], t)
      else if length (jt_buf t) + length bytes > jt_cap t then ([], t\<lparr>jt_overflowed := True, jt_buf := []\<rparr>)
      else ([], t\<lparr>jt_buf := jt_buf t @ bytes\<rparr>))"

definition body_usage :: "provider_kind \<Rightarrow> json \<Rightarrow> u64 option \<times> u64 option" where
  "body_usage kind body = (case kind of
     OpenAi \<Rightarrow> (as_u64 (j_field (j_field body ''usage'') ''prompt_tokens''),
                 as_u64 (j_field (j_field body ''usage'') ''completion_tokens''))
   | Anthropic \<Rightarrow> (as_u64 (j_field (j_field body ''usage'') ''input_tokens''),
                 as_u64 (j_field (j_field body ''usage'') ''output_tokens''))
   | Bedrock \<Rightarrow> (as_u64 (j_field (j_field body ''usage'') ''inputTokens''),
                 as_u64 (j_field (j_field body ''usage'') ''outputTokens''))
   | Vertex \<Rightarrow> (as_u64 (j_field (j_field body ''usageMetadata'') ''promptTokenCount''),
                 as_u64 (j_field (j_field body ''usageMetadata'') ''candidatesTokenCount'')))"

definition body_model :: "provider_kind \<Rightarrow> json \<Rightarrow> string option" where
  "body_model kind body = str_of body (if kind = Vertex then ''modelVersion'' else ''model'')"

definition body_stop_reason :: "provider_kind \<Rightarrow> json \<Rightarrow> string option" where
  "body_stop_reason kind body = as_str (case kind of
     OpenAi \<Rightarrow> j_field (j_nth (j_field body ''choices'') 0) ''finish_reason''
   | Anthropic \<Rightarrow> j_field body ''stop_reason''
   | Bedrock \<Rightarrow> j_field body ''stopReason''
   | Vertex \<Rightarrow> j_field (j_nth (j_field body ''candidates'') 0) ''finishReason'')"

definition body_events :: "provider_kind \<Rightarrow> json \<Rightarrow> event list" where
  "body_events kind body =
     (let err = j_field body ''error'';
          (input, output) = body_usage kind body
      in if is_object err then
           [EError (unwrap_or (opt_or (str_of err ''type'') (str_of err ''code'')) ''error'')
              (unwrap_or (str_of err ''message'') [])]
         else MessageStart (str_of body ''id'') (body_model kind body) #
           (if input \<noteq> None \<or> output \<noteq> None then [UsageDelta input output] else []) @
           [MessageEnd (body_stop_reason kind body)])"

definition tap_finish :: "json_lib \<Rightarrow> json_body_tap \<Rightarrow> event list" where
  "tap_finish J t =
     (if jt_overflowed t then
        [EError ''json_body_overflow'' (''response body exceeded the '' @ dec_of_nat (jt_cap t) @
           ''-byte terminal-parse bound; no authoritative usage was read'')]
      else (case jl_parse J (jt_buf t) of
              Inl e \<Rightarrow> [EError ''json_body_parse'' (''declared application/json did not parse: '' @ e)]
            | Inr (JArray chunks) \<Rightarrow>
                if jt_kind t = Vertex \<and> chunks \<noteq> [] then body_events (jt_kind t) (last chunks)
                else [EError ''json_body_shape'' (''application/json body was a top-level array on a '' @
                  provider_kind_name (jt_kind t) @ '' route; no authoritative usage could be read'')]
            | Inr body \<Rightarrow> body_events (jt_kind t) body))"

section \<open>What the meter reports\<close>

fun event_chars :: "event \<Rightarrow> nat" where
  "event_chars (ContentDelta _ t) = char_count t"
| "event_chars (ToolCallDelta _ _ _ a) = char_count a"
| "event_chars _ = 0"

fun event_output :: "event \<Rightarrow> u64 option" where
  "event_output (UsageDelta _ out) = out"
| "event_output _ = None"

lemma observe_chars: "mt_output_chars (fold observe es m) = mt_output_chars m + of_nat (sum_list (map event_chars es))"
proof (induction es arbitrary: m)
  case (Cons e es)
  then show ?case by (cases e) (simp_all add: observe_def)
qed simp

lemma observe_output: "mt_output (fold observe es m) = fold (\<lambda>e acc. opt_or (event_output e) acc) es (mt_output m)"
proof (induction es arbitrary: m)
  case (Cons e es)
  then show ?case by (cases e) (simp_all add: observe_def opt_or_def split: option.split)
qed simp

lemma of_nat_less_pow2: "n < 2 ^ k \<Longrightarrow> of_nat n < (2 ^ k :: rat)"
  by (metis of_nat_less_iff of_nat_numeral of_nat_power)

lemma rnd_quarter: "n < 2 ^ 53 \<Longrightarrow> rnd (of_nat n / 4) = of_nat n / 4"
proof (cases "n = 0")
  case False
  assume n: "n < 2 ^ 53"
  let ?x = "of_nat n / 4 :: rat"
  have pos: "0 < ?x" using False by simp
  have "?x < pow2 51" using of_nat_less_pow2 [OF n] by (simp add: pow2_def)
  then have "pow2 (ilog2 ?x) < pow2 51" using ilog2_bounds(1) [OF pos] by linarith
  then have "ulp_exp ?x \<le> - 2" using pos by (simp add: ulp_exp_def pow2_less_iff)
  then have "?x = of_int (int n * 2 ^ nat (- 2 - ulp_exp ?x)) * pow2 (ulp_exp ?x)"
    using pow2_grid [of "ulp_exp ?x" "- 2"] by (simp add: pow2_def)
  then show ?thesis by (rule rnd_grid_eq)
qed simp

lemma ceil_quarter: "\<lceil>of_nat n / 4 :: rat\<rceil> = int ((n + 3) div 4)"
proof (rule ceiling_unique)
  define q where "q = (n + 3) div 4"
  have "4 * q \<le> n + 3" "n \<le> 4 * q" unfolding q_def by linarith+
  then have "of_nat (4 * q) \<le> (of_nat (n + 3) :: rat)" "of_nat n \<le> (of_nat (4 * q) :: rat)"
    by (simp_all only: of_nat_le_iff)
  then show "of_int (int q) - 1 < (of_nat n / 4 :: rat)" "(of_nat n / 4 :: rat) \<le> of_int (int q)"
    by simp_all
qed

lemma estimate_exact:
  assumes "unat (mt_output_chars m) < 2 ^ 53"
  shows "unat (estimated_output_tokens m) = (unat (mt_output_chars m) + 3) div 4"
proof -
  let ?n = "unat (mt_output_chars m)"
  have "f_div (u64_to_f64 (mt_output_chars m)) CHARS_PER_TOKEN = f64_round (of_nat ?n / 4)"
    using rnd_of_nat [OF less_imp_le [OF assms]] by (simp add: u64_to_f64_def CHARS_PER_TOKEN_def)
  also have "\<dots> = FFin (of_nat ?n / 4)"
  proof -
    have "of_nat ?n / 4 < pow2 1023" using of_nat_less_pow2 [OF assms] by (simp add: pow2_def)
    then show ?thesis using f64_round_fin [of "of_nat ?n / 4"] rnd_quarter [OF assms] by simp
  qed
  finally have "estimated_output_tokens m = f_to_u64 (FFin (of_int (int ((?n + 3) div 4))))"
    by (simp add: estimated_output_tokens_def ceil_quarter)
  moreover have "of_int (int ((?n + 3) div 4)) < (2 ^ 64 :: rat)"
  proof -
    have "(?n + 3) div 4 \<le> ?n + 3" by simp
    also have "\<dots> < 2 ^ 64" using assms by simp
    finally show ?thesis using of_nat_less_pow2 by fastforce
  qed
  moreover from this have "unat (f_to_u64 (FFin (of_int (int ((?n + 3) div 4))))) =
      nat \<lfloor>of_int (int ((?n + 3) div 4)) :: rat\<rfloor>" by (intro unat_f_to_u64) simp_all
  ultimately show ?thesis by (simp only: floor_of_int nat_int)
qed

section \<open>The tap reads the bytes\<close>

lemma tap_overflowed: "jt_overflowed t \<Longrightarrow> step_all tap_feed t cs = ([], t)"
  by (induction cs) (simp_all add: tap_feed_def)

lemma tap_feed_all:
  "\<not> jt_overflowed t \<Longrightarrow> length (jt_buf t) \<le> jt_cap t \<Longrightarrow> step_all tap_feed t cs =
     ([], if length (jt_buf t) + length (concat cs) > jt_cap t
          then t\<lparr>jt_overflowed := True, jt_buf := []\<rparr>
          else t\<lparr>jt_buf := jt_buf t @ concat cs\<rparr>)"
proof (induction cs arbitrary: t)
  case Nil
  then show ?case by simp
next
  case (Cons c cs)
  show ?case
  proof (cases "length (jt_buf t) + length c > jt_cap t")
    case True
    then have "tap_feed t c = ([], t\<lparr>jt_overflowed := True, jt_buf := []\<rparr>)"
      using Cons.prems by (simp add: tap_feed_def)
    then show ?thesis using True by (simp add: tap_overflowed)
  next
    case False
    then have "tap_feed t c = ([], t\<lparr>jt_buf := jt_buf t @ c\<rparr>)"
      using Cons.prems by (simp add: tap_feed_def)
    then show ?thesis
      using False Cons.prems Cons.IH [of "t\<lparr>jt_buf := jt_buf t @ c\<rparr>"] by (simp add: add.assoc)
  qed
qed

text \<open>However a JSON response is cut into chunks, the tap holds it whole up to its cap
  and reports what parsing the whole body reports; past the cap it reports the overflow and
  never a usage figure.\<close>

theorem json_tap_reads_whole_body:
  "tap_finish J (snd (step_all tap_feed (tap_with_cap kind cap) cs)) =
     (if length (concat cs) \<le> cap then tap_finish J (tap_with_cap kind cap\<lparr>jt_buf := concat cs\<rparr>)
      else [EError ''json_body_overflow'' (''response body exceeded the '' @ dec_of_nat cap @
             ''-byte terminal-parse bound; no authoritative usage was read'')])"
proof -
  let ?t = "tap_with_cap kind cap"
  have t: "\<not> jt_overflowed ?t" "jt_buf ?t = []" "jt_cap ?t = cap" by (simp_all add: tap_with_cap_def)
  have all: "snd (step_all tap_feed ?t cs) = (if length (concat cs) > cap
      then ?t\<lparr>jt_overflowed := True, jt_buf := []\<rparr> else ?t\<lparr>jt_buf := concat cs\<rparr>)"
    using tap_feed_all [of ?t cs] by (simp add: t)
  show ?thesis unfolding all by (cases "length (concat cs) \<le> cap") (simp_all add: tap_finish_def t not_le)
qed

text \<open>After any sequence of events that holds fewer than \<open>2^53\<close> characters the meter's
  estimate is a quarter of the characters rounded up, although it is computed in doubles,
  and its authoritative output count is the last one a usage frame carried.\<close>

theorem meter_counts:
  assumes "sum_list (map event_chars es) < 2 ^ 53"
  shows "unat (mr_estimated (meter_report_of (fold observe es meter_new))) =
       (sum_list (map event_chars es) + 3) div 4 \<and>
     mr_output (meter_report_of (fold observe es meter_new)) =
       fold (\<lambda>e acc. opt_or (event_output e) acc) es None"
proof -
  let ?m = "fold observe es meter_new"
  have "mt_output_chars ?m = of_nat (sum_list (map event_chars es))"
    by (simp add: observe_chars meter_new_def)
  then have n: "unat (mt_output_chars ?m) = sum_list (map event_chars es)"
    using assms by (simp only:) (simp add: unat_of_nat)
  then show ?thesis
    using estimate_exact [of ?m] assms observe_output [of es meter_new]
    by (simp add: meter_report_of_def meter_new_def)
qed

theorem meter_counts_witness:
  "unat (mr_estimated (meter_report_of (fold observe
       [MessageStart None None, ContentDelta 0 ''hello'', UsageDelta (Some 3) (Some 2), MessageEnd None]
       meter_new))) = 2"
  using meter_counts [of "[MessageStart None None, ContentDelta 0 ''hello'', UsageDelta (Some 3) (Some 2), MessageEnd None]"]
  by (simp add: char_count_def is_continuation_def)

end
