(* ===== verification/Terminal.thy ===== *)
theory Terminal
  imports Config EventStream
begin

text \<open>
  The terminal events of \<open>gateway-core/src/template.rs\<close> and \<open>render_cut_event\<close> of
  \<open>gatewayd/src/proxy_support.rs\<close>: what the client of a stream is sent when the gateway cuts
  it.  Lemmas: the event is in the framing of its dialect, so the gateway's own parsers read
  back exactly the operator's event name and rendered data, when the block is one the framing
  can carry.
\<close>

definition render_terminal_event :: "streaming_rejection \<Rightarrow> (string \<times> string) list \<Rightarrow> string" where
  "render_terminal_event s vars =
     (case sj_event s of Some e \<Rightarrow> ''event: '' @ e @ [nl] | None \<Rightarrow> []) @
     concat (map (\<lambda>l. ''data: '' @ l @ [nl]) (split_char nl (render (sj_data s) vars))) @ [nl]"

definition cut_headers :: "streaming_rejection \<Rightarrow> (string \<times> string) list" where
  "cut_headers s =
     [('':message-type'', ''exception''),
      ('':exception-type'', unwrap_or (sj_event s) ''stream_cut''),
      ('':content-type'', ''application/json'')]"

definition render_terminal_frame_bedrock ::
  "crc32 \<Rightarrow> streaming_rejection \<Rightarrow> (string \<times> string) list \<Rightarrow> string"
where
  "render_terminal_frame_bedrock crc s vars = encode_frame crc (cut_headers s) (render (sj_data s) vars)"

definition show_cap_id :: "cap_id \<Rightarrow> string" where
  "show_cap_id i = ci_key i @ ''='' @ ci_value i"

definition default_cut :: "cap_id \<Rightarrow> u64 \<Rightarrow> u64 \<Rightarrow> streaming_rejection" where
  "default_cut i cap spent = \<lparr>sj_event = None,
     sj_data = ''{\"error\":\"budget exhausted for '' @ show_cap_id i @ ''\",\"cap\":'' @ show_u64 cap @
       '',\"spend\":'' @ show_u64 spent @ ''}''\<rparr>"

definition render_cut_event ::
  "crc32 \<Rightarrow> streaming_rejection option \<Rightarrow> provider_kind \<Rightarrow> cap_id \<Rightarrow> u64 \<Rightarrow> u64 \<Rightarrow> string \<Rightarrow> string"
where
  "render_cut_event crc streaming kind i cap spent route =
     (let vars = [(''key'', show_cap_id i), (''route'', route), (''cap'', show_u64 cap),
            (''spend'', show_u64 spent)];
          block = unwrap_or streaming (default_cut i cap spent)
      in if kind = Bedrock then render_terminal_frame_bedrock crc block vars
         else render_terminal_event block vars)"

section \<open>UTF-8 of the parts\<close>

lemma utf8_char_len_append: "utf8_char_len a = Some n \<Longrightarrow> utf8_char_len (a @ b) = Some n"
proof -
  assume n: "utf8_char_len a = Some n"
  then consider x where "a = [x]" | x y where "a = [x, y]" | x y z where "a = [x, y, z]"
    | x y z w t where "a = x # y # z # w # t"
    by (metis list.exhaust option.distinct(1) utf8_char_len.simps(1))
  then show ?thesis using n by cases (simp_all split: if_splits, blast+)
qed

lemma is_utf8_append: "is_utf8 a \<Longrightarrow> is_utf8 b \<Longrightarrow> is_utf8 (a @ b)"
proof (induction a rule: is_utf8.induct)
  case (1 a)
  show ?case
  proof (cases "utf8_char_len a")
    case None
    then show ?thesis using "1.prems" by (simp add: is_utf8.simps [of a])
  next
    case (Some n)
    then have "is_utf8 (drop n a @ b)" using 1 by (simp add: is_utf8.simps [of a])
    moreover have "drop n (a @ b) = drop n a @ b" using utf8_char_len_pos [OF Some] by simp
    ultimately show ?thesis
      using utf8_char_len_append [OF Some] by (simp add: is_utf8.simps [of "a @ b"])
  qed
qed

lemma is_utf8_Cons_ascii: "between 0 0x7F c \<Longrightarrow> is_utf8 (c # s) = is_utf8 s"
  by (simp add: is_utf8.simps [of "c # s"])

lemma nl_facts: "between 0 0x7F nl" "\<not> cont_byte nl" "\<not> between 0xA0 0xBF nl" "\<not> between 0x80 0x9F nl"
  "\<not> between 0x90 0xBF nl" "\<not> between 0x80 0x8F nl"
  by code_simp+

lemma utf8_char_len_before_nl:
  "a \<noteq> [] \<Longrightarrow> utf8_char_len (a @ nl # b) = Some n \<Longrightarrow> utf8_char_len a = Some n"
proof -
  assume ne: "a \<noteq> []" and n: "utf8_char_len (a @ nl # b) = Some n"
  consider x where "a = [x]" | x y where "a = [x, y]" | x y z where "a = [x, y, z]"
    | x y z w t where "a = x # y # z # w # t"
    using ne by (metis list.exhaust)
  then have "utf8_char_len (a @ nl # b) = utf8_char_len a"
    by cases (simp_all add: nl_facts split: list.split, blast+)
  then show ?thesis using n by simp
qed

lemma is_utf8_before_nl: "is_utf8 (a @ nl # b) \<Longrightarrow> is_utf8 a \<and> is_utf8 b"
proof (induction a rule: is_utf8.induct)
  case (1 a)
  show ?case
  proof (cases "a = []")
    case True
    then show ?thesis using "1.prems" is_utf8_Cons_ascii [OF nl_facts(1)] by simp
  next
    case False
    from "1.prems" obtain n where n: "utf8_char_len (a @ nl # b) = Some n"
      by (cases "utf8_char_len (a @ nl # b)") (auto simp: is_utf8.simps [of "a @ nl # b"])
    note an = utf8_char_len_before_nl [OF False n]
    have "is_utf8 (drop n a @ nl # b)"
      using "1.prems" n utf8_char_len_pos [OF an] by (simp add: is_utf8.simps [of "a @ nl # b"])
    then show ?thesis using "1.IH" [OF an] an by (simp add: is_utf8.simps [of a])
  qed
qed

lemma is_utf8_lines: "is_utf8 s \<Longrightarrow> l \<in> set (split_char nl s) \<Longrightarrow> is_utf8 l"
proof (induction "length s" arbitrary: s rule: less_induct)
  case less
  show ?case
  proof (cases "nl \<in> set s")
    case False
    then show ?thesis using less.prems by (simp add: split_char_id)
  next
    case True
    then obtain a b where s: "s = a @ nl # b" "nl \<notin> set a" by (metis split_list_first)
    from less.prems(1) have u: "is_utf8 a" "is_utf8 b" using is_utf8_before_nl unfolding s(1) by blast+
    from less.prems(2) have "l = a \<or> l \<in> set (split_char nl b)"
      unfolding s(1) split_char_append [OF s(2)] by simp
    then show ?thesis using u less.hyps [of b] s(1) by auto
  qed
qed

section \<open>Server-sent events round trip\<close>

definition event_lines :: "string option \<Rightarrow> string \<Rightarrow> string list" where
  "event_lines ev data =
     (case ev of Some e \<Rightarrow> [''event: '' @ e] | None \<Rightarrow> []) @ map (\<lambda>l. ''data: '' @ l) (split_char nl data)"

lemma join_lines: "ws \<noteq> [] \<Longrightarrow> concat (map (\<lambda>w. w @ [c]) ws) = join_with [c] ws @ [c]"
  by (induction "[c]" ws rule: join_with.induct) auto

lemma terminal_event_lines:
  "render_terminal_event s vars = join_with [nl] (event_lines (sj_event s) (render (sj_data s) vars)) @ [nl, nl]"
proof -
  have ne: "event_lines ev d \<noteq> []" for ev d by (simp add: event_lines_def)
  have "render_terminal_event s vars =
      concat (map (\<lambda>w. w @ [nl]) (event_lines (sj_event s) (render (sj_data s) vars))) @ [nl]"
    by (simp add: render_terminal_event_def event_lines_def comp_def split: option.split)
  then show ?thesis by (simp add: join_lines [OF ne])
qed

lemma find_blank_line:
  "ws \<noteq> [] \<Longrightarrow> \<forall>w \<in> set ws. w \<noteq> [] \<and> nl \<notin> set w \<Longrightarrow>
     find_sub [nl, nl] (join_with [nl] ws @ nl # nl # rest) = Some (length (join_with [nl] ws))"
proof (induction "[nl]" ws arbitrary: rest rule: join_with.induct)
  case (2 w)
  have "find_sub [nl, nl] (w @ nl # nl # rest) = Some (length w)" if "nl \<notin> set w" for w
    using that by (induction w) (auto simp: starts_with_def)
  then show ?case using "2.prems" by simp
next
  case (3 w v ws)
  let ?j = "join_with [nl] (v # ws)"
  have ne: "\<exists>c t. ?j = c # t \<and> c \<noteq> nl"
    using "3.prems"(2) by (cases v; cases ws) auto
  have skip: "find_sub [nl, nl] (u @ nl # ?j @ nl # nl # rest) =
      map_option (\<lambda>k. length u + 1 + k) (find_sub [nl, nl] (?j @ nl # nl # rest))" if "nl \<notin> set u" for u
    using that ne by (induction u) (auto simp: starts_with_def option.map_comp comp_def)
  have "find_sub [nl, nl] (?j @ nl # nl # rest) = Some (length ?j)"
    by (rule "3.hyps") (use "3.prems" in auto)
  then show ?case using skip [of w] "3.prems"(2) by simp
qed simp

lemma trim_space: "trim (CHR '' '' # s) = trim s"
proof -
  have one: "strip_one (ps @ '' '' # qs) (CHR '' '' # s) = s"
    if "list_all (\<lambda>p. p \<noteq> [] \<and> hd p \<noteq> CHR '' '') ps" for ps qs
    using that
  proof (induction ps)
    case (Cons p ps)
    then show ?case by (cases p) auto
  qed simp
  let ?ps = "map utf8_bytes [[9], [10], [11], [12], [13]]"
  have sp: "char_of (32 :: nat) = CHR '' ''" by code_simp
  obtain qs where ws: "whitespace_seqs = ?ps @ '' '' # qs"
    by (simp add: whitespace_seqs_def utf8_bytes_def byte_def sp)
  have "list_all (\<lambda>p. p \<noteq> [] \<and> hd p \<noteq> CHR '' '') ?ps"
    by code_simp
  then have "strip_one whitespace_seqs (CHR '' '' # s) = s" unfolding ws by (rule one)
  then have "strip_all whitespace_seqs (CHR '' '' # s) = strip_all whitespace_seqs s"
    by (subst strip_all.simps) (simp add: Let_def)
  then show ?thesis by (simp add: trim_def trim_start_def)
qed

lemma sse_line_data: "fold sse_line (map (\<lambda>l. ''data: '' @ l) ls) (ev, d) = (ev, d @ ls)"
  by (induction ls arbitrary: d) (simp_all add: sse_line_def strip_prefix_def starts_with_def)

lemma parse_event_lines:
  assumes "case ev of Some e \<Rightarrow> trim e = e \<and> nl \<notin> set e \<and> is_utf8 e | None \<Rightarrow> True" and "is_utf8 data"
  shows "parse_block (join_with [nl] (event_lines ev data)) = Some \<lparr>se_event = ev, se_data = data\<rparr>"
proof -
  let ?ws = "event_lines ev data"
  have nonl: "\<forall>w \<in> set ?ws. nl \<notin> set w"
    using assms(1) by (auto simp: event_lines_def dest: split_char_no_sep split: option.splits)
  have ascii: "is_utf8 ''data: ''" "is_utf8 ''event: ''" "is_utf8 [nl]" by code_simp+
  have "\<forall>w \<in> set ?ws. is_utf8 w"
    using assms is_utf8_lines [OF assms(2)] is_utf8_append [OF ascii(1)] is_utf8_append [OF ascii(2)]
    by (auto simp: event_lines_def split: option.splits)
  moreover have "\<forall>w \<in> set ws. is_utf8 w \<Longrightarrow> is_utf8 (join_with [nl] ws)" for ws
    by (induction "[nl]" ws rule: join_with.induct)
      (auto intro!: is_utf8_append simp: is_utf8_Cons_ascii [OF nl_facts(1)])
  ultimately have "is_utf8 (join_with [nl] ?ws)" by blast
  then have lossy: "from_utf8_lossy (join_with [nl] ?ws) = join_with [nl] ?ws" by (rule from_utf8_lossy_id)
  have split: "split_char nl (join_with [nl] ?ws) = ?ws"
    by (rule split_join) (use nonl in \<open>auto simp: event_lines_def\<close>)
  have "fold sse_line ?ws (None, []) = (ev, split_char nl data)"
  proof (cases ev)
    case None
    then show ?thesis by (simp only: event_lines_def option.case append_Nil sse_line_data)
  next
    case (Some e)
    then have line: "sse_line (''event: '' @ e) (None, []) = (Some e, [])"
      using assms(1) by (simp add: sse_line_def strip_prefix_def starts_with_def trim_space)
    show ?thesis
      unfolding Some event_lines_def option.case fold_append comp_apply fold_simps line sse_line_data by simp
  qed
  then show ?thesis
    by (simp add: parse_block_def lossy split Let_def join_split)
qed

lemma terminal_event_parses:
  assumes "case sj_event s of Some e \<Rightarrow> trim e = e \<and> nl \<notin> set e \<and> cr \<notin> set e \<and> is_utf8 e | None \<Rightarrow> True"
    and "is_utf8 (render (sj_data s) vars)" "cr \<notin> set (render (sj_data s) vars)"
  shows "sse_feed [] (render_terminal_event s vars) =
    ([\<lparr>se_event = sj_event s, se_data = render (sj_data s) vars\<rparr>], [])"
proof -
  let ?d = "render (sj_data s) vars"
  let ?ws = "event_lines (sj_event s) ?d"
  let ?j = "join_with [nl] ?ws"
  have lines_sub: "\<forall>l \<in> set (split_char c x). set l \<subseteq> set x" for c and x :: string
    by (induction x) (auto split: list.splits)
  have ws: "\<forall>w \<in> set ?ws. w \<noteq> [] \<and> nl \<notin> set w"
    using assms(1) by (auto simp: event_lines_def dest: split_char_no_sep split: option.splits)
  have nocr: "\<forall>w \<in> set ?ws. cr \<notin> set w"
    using assms(1,3) lines_sub by (fastforce simp: event_lines_def split: option.splits)
  have "\<forall>w \<in> set us. cr \<notin> set w \<Longrightarrow> cr \<notin> set (join_with [nl] us)" for us
    by (induction "[nl]" us rule: join_with.induct) auto
  then have "cr \<notin> set ?j" using nocr by blast
  then have filt: "filter (\<lambda>b. b \<noteq> cr) (?j @ [nl, nl]) = ?j @ [nl, nl]"
    by (auto simp: filter_id_conv)
  have pos: "find_sub [nl, nl] (?j @ [nl, nl]) = Some (length ?j)"
    by (rule find_blank_line [OF _ ws]) (simp add: event_lines_def)
  have "sse_drain [] = ([], [])" by (subst sse_drain.simps) simp
  moreover have "parse_block ?j = Some \<lparr>se_event = sj_event s, se_data = ?d\<rparr>"
    by (rule parse_event_lines) (use assms(1,2) in \<open>auto split: option.splits\<close>)
  ultimately have "sse_drain (?j @ [nl, nl]) = ([\<lparr>se_event = sj_event s, se_data = ?d\<rparr>], [])"
    by (subst sse_drain.simps) (simp only: pos option.case Let_def, simp)
  then show ?thesis unfolding sse_feed_def terminal_event_lines using filt by simp
qed

section \<open>Event-stream round trip\<close>

lemma terminal_frame_parses:
  assumes "frame_ok (cut_headers s, render (sj_data s) vars)"
  shows "fd_feed crc [] (render_terminal_frame_bedrock crc s vars) =
    (Inr [\<lparr>fr_headers = bt_of_list (cut_headers s), fr_payload = render (sj_data s) vars\<rparr>], [])"
  using fd_loop_encoded_all [of "[(cut_headers s, render (sj_data s) vars)]" crc] assms
  by (simp add: fd_feed_def render_terminal_frame_bedrock_def)

text \<open>What an operator's block must be for its event to survive the framing.  The validation of the
  configuration checks none of this: on server-sent events the name has no white space around it and
  neither the name nor the rendered data holds a carriage return, nor the name a line feed; on a
  Bedrock stream headers and payload fit the widths of the wire.  A Rust \<open>String\<close> is UTF-8.\<close>

definition sse_block_ok :: "streaming_rejection \<Rightarrow> string \<Rightarrow> bool" where
  "sse_block_ok s data \<longleftrightarrow> cr \<notin> set data \<and>
     (\<forall>e. sj_event s = Some e \<longrightarrow> trim e = e \<and> nl \<notin> set e \<and> cr \<notin> set e)"

definition block_utf8 :: "streaming_rejection \<Rightarrow> string \<Rightarrow> bool" where
  "block_utf8 s data \<longleftrightarrow> is_utf8 data \<and> (\<forall>e. sj_event s = Some e \<longrightarrow> is_utf8 e)"

text \<open>Property C17. When the gateway cuts a stream and the operator's block is one the framing of the
  route's dialect can carry, the client reads, with a conforming parser of that dialect, exactly one
  terminal event.  On server-sent events, when the event name is trimmed and free of line breaks and
  the rendered data free of carriage returns, that is the operator's event name and the rendered
  data; on a Bedrock stream, when the headers and the payload fit the wire, it is one exception
  frame with the same.  A configuration can be accepted without these conditions, and then the
  event can come out as another one (\<open>event_name_forges_data\<close>).\<close>

theorem cut_event_reads_back:
  assumes "vars = [(''key'', show_cap_id i), (''route'', route), (''cap'', show_u64 cap), (''spend'', show_u64 spent)]"
    and "block_utf8 s (render (sj_data s) vars)"
  shows "(kind \<noteq> Bedrock \<and> sse_block_ok s (render (sj_data s) vars) \<longrightarrow>
       sse_feed [] (render_cut_event crc (Some s) kind i cap spent route) =
         ([\<lparr>se_event = sj_event s, se_data = render (sj_data s) vars\<rparr>], [])) \<and>
     (kind = Bedrock \<and> frame_ok (cut_headers s, render (sj_data s) vars) \<longrightarrow>
       fd_feed crc [] (render_cut_event crc (Some s) kind i cap spent route) =
         (Inr [\<lparr>fr_headers = bt_of_list (cut_headers s), fr_payload = render (sj_data s) vars\<rparr>], []))"
proof (intro conjI impI)
  assume k: "kind \<noteq> Bedrock \<and> sse_block_ok s (render (sj_data s) vars)"
  have "case sj_event s of Some e \<Rightarrow> trim e = e \<and> nl \<notin> set e \<and> cr \<notin> set e \<and> is_utf8 e | None \<Rightarrow> True"
    using k assms(2) by (simp add: sse_block_ok_def block_utf8_def split: option.split)
  from terminal_event_parses [OF this] k assms(2)
  show "sse_feed [] (render_cut_event crc (Some s) kind i cap spent route) =
      ([\<lparr>se_event = sj_event s, se_data = render (sj_data s) vars\<rparr>], [])"
    by (simp add: render_cut_event_def Let_def assms(1) sse_block_ok_def block_utf8_def)
next
  assume "kind = Bedrock \<and> frame_ok (cut_headers s, render (sj_data s) vars)"
  then show "fd_feed crc [] (render_cut_event crc (Some s) kind i cap spent route) =
      (Inr [\<lparr>fr_headers = bt_of_list (cut_headers s), fr_payload = render (sj_data s) vars\<rparr>], [])"
    using terminal_frame_parses [of s vars crc] by (simp add: render_cut_event_def Let_def assms(1))
qed

definition sample_cut :: streaming_rejection where
  "sample_cut = \<lparr>sj_event = Some ''cut'', sj_data = ''over {{cap}}''\<rparr>"

theorem cut_event_reads_back_witness:
  "sse_feed [] (render_cut_event (\<lambda>_. 0) (Some sample_cut) OpenAi (CapId ''t'' ''x'') 10 12 ''/o'') =
     ([\<lparr>se_event = Some ''cut'', se_data = ''over 10''\<rparr>], []) \<and>
   fd_feed (\<lambda>_. 0) [] (render_cut_event (\<lambda>_. 0) (Some sample_cut) Bedrock (CapId ''t'' ''x'') 10 12 ''/o'') =
     (Inr [\<lparr>fr_headers = bt_of_list (cut_headers sample_cut), fr_payload = ''over 10''\<rparr>], [])"
proof -
  let ?vars = "[(''key'', show_cap_id (CapId ''t'' ''x'')), (''route'', ''/o''), (''cap'', show_u64 10), (''spend'', show_u64 12)]"
  have ten: "show_u64 10 = ''10''" "show_u64 12 = ''12''" by code_simp+
  have data: "render (sj_data sample_cut) ?vars = ''over 10''"
    unfolding ten by (simp add: sample_cut_def show_cap_id_def render_def) code_simp
  have ok: "is_utf8 ''over 10''" "is_utf8 ''cut''" "trim ''cut'' = ''cut''" by code_simp+
  have frame: "frame_ok (cut_headers sample_cut, ''over 10'')"
  proof -
    have "is_utf8 '':message-type''" "is_utf8 ''exception''" "is_utf8 '':exception-type''"
      "is_utf8 '':content-type''" "is_utf8 ''application/json''" by code_simp+
    then show ?thesis
      using ok by (simp add: cut_headers_def sample_cut_def frame_ok_def header_ok_def encode_header_def)
  qed
  have block: "block_utf8 sample_cut ''over 10''" "sse_block_ok sample_cut ''over 10''"
    using ok by (simp_all add: block_utf8_def sse_block_ok_def sample_cut_def)
  note both = cut_event_reads_back [of ?vars "CapId ''t'' ''x''" "''/o''" 10 12 sample_cut, unfolded data, OF refl block(1)]
  show ?thesis
    using both [of OpenAi "\<lambda>_. 0"] both [of Bedrock "\<lambda>_. 0"] block(2) frame by (simp add: sample_cut_def)
qed

text \<open>An event name with a line feed in it, which validation lets pass, writes lines of its own.\<close>

lemma event_name_forges_data:
  "sse_feed [] (render_terminal_event \<lparr>sj_event = Some (''cut'' @ [nl] @ ''data: forged''), sj_data = ''over''\<rparr> []) =
     ([\<lparr>se_event = Some ''cut'', se_data = ''forged'' @ [nl] @ ''over''\<rparr>], [])"
  by code_simp

end
