(* ===== verification/ProxyRequest.thy ===== *)
theory ProxyRequest
  imports Adjudicate NodeBudget Exchange WasmRuntime Metering Terminal
begin

text \<open>
  The request half of \<open>gatewayd/src/proxy.rs\<close> with \<open>proxy_stream.rs\<close> and \<open>proxy_wasm.rs\<close>: the
  per-request state, the gates a request passes in order, the headers and the body that go
  upstream.  \<open>pingora\<close> calls the filters; here each is a function of the request's context and the
  gateway's shared state, with one clock reading per call.  An outer \<open>None\<close> is a panic (a route that
  was never finalized, a provider that does not exist), which an accepted configuration excludes.
  Lemmas: what a request that is forwarded has passed, which attribution goes upstream, and that
  what is signed is what is sent.
\<close>

section \<open>The state of a request\<close>

record route_binding =
  rb_prefix :: string
  rb_provider :: string
  rb_kind :: provider_kind

datatype stream_adapter =
    AnthropicAd "string \<times> anthropic_state"
  | OpenAiAd "string \<times> openai_state"
  | VertexAd "string \<times> vertex_state"
  | BedrockAd "string \<times> bedrock_state"
  | JsonTap json_body_tap

definition new_adapter :: "provider_kind \<Rightarrow> stream_adapter" where
  "new_adapter kind = (case kind of
     OpenAi \<Rightarrow> OpenAiAd openai_new
   | Anthropic \<Rightarrow> AnthropicAd anthropic_new
   | Bedrock \<Rightarrow> BedrockAd bedrock_new
   | Vertex \<Rightarrow> VertexAd vertex_new)"

datatype tap_mode = StreamMode | JsonMode

datatype disposition = CompletedFrame | CompletedNoFrame | ClientAbort | UpstreamCut | GatewayCut

definition disposition_label :: "disposition \<Rightarrow> string" where
  "disposition_label d = (case d of
     CompletedFrame \<Rightarrow> ''completed+frame''
   | CompletedNoFrame \<Rightarrow> ''completed-no-frame''
   | ClientAbort \<Rightarrow> ''client-abort''
   | UpstreamCut \<Rightarrow> ''upstream-cut''
   | GatewayCut \<Rightarrow> ''gateway-cut'')"

record ('p, 'k, 'm) req_ctx =
  rc_snapshot :: "('p, 'k) config snapshot"
  rc_route :: "route_binding option"
  rc_adapter :: "stream_adapter option"
  rc_meter :: token_meter
  rc_tags :: "tag list"
  rc_vertex_labels :: "(string \<times> string) list option"
  rc_forced :: "resolved_injection option"
  rc_body_buf :: string
  rc_aws :: "(credentials \<times> string) option"
  rc_gcp_bearer :: "string option"
  rc_signed_body :: "string option"
  rc_authoritative_tokens :: "u64 option"
  rc_attr_headers :: "(string, string) btree"
  rc_error :: "string option"
  rc_vertex_host :: "string option"
  rc_body_bytes :: nat
  rc_body_chunks :: nat
  rc_event_counts :: "nat list"
  rc_caps :: "(cap_id \<times> cap_terms) list"
  rc_cut_streaming :: "streaming_rejection option"
  rc_cap_cut_streaming :: "streaming_rejection option"
  rc_last_metered_est :: u64
  rc_cut :: bool
  rc_modules :: "'m module_set option"
  rc_wasm_header_set :: "(string, string) btree"
  rc_wasm_header_remove :: "string list"
  rc_wasm_per_event :: bool
  rc_tap :: "tap_mode option"
  rc_proxying :: bool
  rc_settled :: bool
  rc_disposition :: "disposition option"

definition ctx_bound ::
  "('p, 'k) config snapshot \<Rightarrow> 'm module_set option \<Rightarrow> bool \<Rightarrow> ('p, 'k, 'm) req_ctx"
where
  "ctx_bound snap modules per_event =
     \<lparr>rc_snapshot = snap, rc_route = None, rc_adapter = None, rc_meter = meter_new, rc_tags = [],
      rc_vertex_labels = None, rc_forced = None, rc_body_buf = [], rc_aws = None, rc_gcp_bearer = None,
      rc_signed_body = None, rc_authoritative_tokens = None, rc_attr_headers = [], rc_error = None,
      rc_vertex_host = None, rc_body_bytes = 0, rc_body_chunks = 0, rc_event_counts = replicate 6 0,
      rc_caps = [], rc_cut_streaming = None, rc_cap_cut_streaming = None, rc_last_metered_est = 0,
      rc_cut = False, rc_modules = modules, rc_wasm_header_set = [], rc_wasm_header_remove = [],
      rc_wasm_per_event =
        (per_event \<and> (case modules of Some ms \<Rightarrow> wants_hook OnResponseEvent ms | None \<Rightarrow> False)),
      rc_tap = None, rc_proxying = False, rc_settled = False, rc_disposition = None\<rparr>"

definition new_ctx ::
  "('p, 'k) config snapshot \<Rightarrow> 'm wasm_runtime option \<Rightarrow> u64 \<Rightarrow> ('p, 'k, 'm) req_ctx"
where
  "new_ctx snap wasm now = (case wasm of
     Some rt \<Rightarrow> ctx_bound snap (Some (bind_modules (sn_version snap) now rt)) (wr_per_event rt)
   | None \<Rightarrow> ctx_bound snap None False)"

text \<open>The shared state of the gateway that a request changes, and the libraries it uses.\<close>

record gateway =
  gw_sts_cache :: credential_cache
  gw_gcp_tokens :: gcp_token_cache
  gw_budgets :: node_budgets

record ('p, 'v, 'k, 'm, 'i) proxy_env =
  px_cel :: "('p, 'v) cel_lib"
  px_json :: json_lib
  px_jwt :: "'k jwt_lib"
  px_wasm :: "('m, 'i) wasm_lib"
  px_net :: net_lib
  px_aws :: aws_lib
  px_cal :: calendar
  px_crc :: crc32
  px_uri :: "string \<Rightarrow> bool"
  px_header_ok :: "string \<Rightarrow> string \<Rightarrow> bool"
  px_show_exchange :: "exchange_error \<Rightarrow> string"

type_synonym response = "16 word \<times> (string \<times> string) list \<times> string"

datatype request_outcome =
    Responded response
  | Forwarded
  | Failed "16 word"
  | Broken

record incoming =
  in_head :: request_head
  in_path :: string
  in_query :: "string option"
  in_body :: "string option"

section \<open>Admission of the capped spenders\<close>

record cap_denial =
  dn_id :: cap_id
  dn_cap :: u64
  dn_spent :: u64

definition spent_of :: "cap_id \<Rightarrow> u64 \<Rightarrow> node_budgets \<Rightarrow> u64" where
  "spent_of i cap b = (case nb_snapshot i b of Some (_, _, s) \<Rightarrow> s | None \<Rightarrow> cap)"

fun admit_caps ::
  "calendar \<Rightarrow> 'p effective_policy \<Rightarrow> u64 \<Rightarrow> tag list \<Rightarrow> node_budgets \<Rightarrow>
   (cap_denial + (cap_id \<times> cap_terms) list) \<times> node_budgets"
where
  "admit_caps cal policy now [] b = (Inr [], b)"
| "admit_caps cal policy now (tag # tags) b =
     (case policy_terms_for policy (tg_key tag) (tg_value tag) of
        None \<Rightarrow> admit_caps cal policy now tags b
      | Some terms \<Rightarrow>
          (let i = CapId (tg_key tag) (tg_value tag) in
           case admit cal i (Some terms) now b of
             (Deny cap, b') \<Rightarrow> (Inl \<lparr>dn_id = i, dn_cap = cap, dn_spent = spent_of i cap b'\<rparr>, b')
           | (_, b') \<Rightarrow>
               (case admit_caps cal policy now tags b' of
                  (Inl d, b'') \<Rightarrow> (Inl d, b'')
                | (Inr caps, b'') \<Rightarrow> (Inr ((i, terms) # caps), b''))))"

section \<open>The module hook of a request\<close>

definition build_request_view ::
  "string \<Rightarrow> string \<Rightarrow> (string, string) btree \<Rightarrow> tag list \<Rightarrow> request_view"
where
  "build_request_view method path headers tags =
     \<lparr>rv_method = method, rv_path = path, rv_headers = headers,
      rv_attribution = bt_of_list (map (\<lambda>t. (tg_key t, tg_value t)) tags)\<rparr>"

datatype on_request_action =
    Proceed "(string, string) btree" "string list"
  | RejectRequest string

definition run_on_request :: "('m, 'i) wasm_lib \<Rightarrow> 'm module_set \<Rightarrow> request_view \<Rightarrow> on_request_action" where
  "run_on_request W ms view = (case bm_on_request W ms view of
     PolicyModule.Continue \<Rightarrow> Proceed [] []
   | MutateHeaders set_h remove \<Rightarrow> Proceed set_h remove
   | Reject reason \<Rightarrow> RejectRequest reason
   | CutStream reason \<Rightarrow> RejectRequest reason)"

definition apply_on_request ::
  "('m, 'i) wasm_lib \<Rightarrow> 'm module_set \<Rightarrow> string \<Rightarrow> string \<Rightarrow> (string, string) btree \<Rightarrow> tag list \<Rightarrow>
   on_request_action option"
where
  "apply_on_request W ms method path headers tags =
     (if \<not> wants_hook OnRequest ms then None
      else Some (run_on_request W ms (build_request_view method path headers tags)))"

section \<open>The gates\<close>

text \<open>What the gates read: the matched route, its effective policy, the resolved tags.\<close>

record 'p bound_request =
  br_route :: "'p route"
  br_policy :: "'p effective_policy"
  br_tags :: "tag list"
  br_caps :: "(cap_id \<times> cap_terms) list"
  br_provider :: provider
  br_method :: string
  br_path :: string
  br_cel :: eval_ctx
  br_body :: "string option"

type_synonym ('p, 'k, 'm) proxy_state = "('p, 'k, 'm) req_ctx \<times> gateway"

type_synonym ('p, 'v, 'k, 'm, 'i) gate =
  "('p, 'v, 'k, 'm, 'i) proxy_env \<Rightarrow> u64 \<Rightarrow> 'p bound_request \<Rightarrow> ('p, 'k, 'm) proxy_state \<Rightarrow>
   (request_outcome option \<times> ('p, 'k, 'm) proxy_state) option"

definition refuse ::
  "rejection_template \<Rightarrow> (string \<times> string) list \<Rightarrow> 's \<Rightarrow> (request_outcome option \<times> 's) option"
where
  "refuse t vars st = Some (Some (Responded (respond_rejection t vars)), st)"

definition pass :: "'s \<Rightarrow> (request_outcome option \<times> 's) option" where
  "pass st = Some (None, st)"

abbreviation br_prefix :: "'p bound_request \<Rightarrow> string" where
  "br_prefix br \<equiv> ru_prefix (br_route br)"

definition labels_gate :: "('p, 'v, 'k, 'm, 'i) gate" where
  "labels_gate X now br = (\<lambda>(ctx, gw).
     if pv_kind (br_provider br) = Vertex \<and> ep_labels (br_policy br) \<noteq> [] then
       (case resolve_vertex_labels (px_cel X) (ep_labels (br_policy br)) (br_tags br) (br_cel br) of
          Inr resolved \<Rightarrow> pass (ctx\<lparr>rc_vertex_labels := Some resolved\<rparr>, gw)
        | Inl e \<Rightarrow> refuse (ep_default_response (br_policy br))
            [(''key'', le_key e), (''route'', br_prefix br)] (ctx, gw))
     else pass (ctx, gw))"

datatype gb7_failure = Gb7Reject string "string option" problem | Gb7Exchange exchange_error

definition resolve_gb7_credentials ::
  "net_lib \<Rightarrow> aws_lib \<Rightarrow> sts_config \<Rightarrow> tag list \<Rightarrow> u64 \<Rightarrow> credential_cache \<Rightarrow>
   ((gb7_failure + credentials \<times> string) \<times> credential_cache) option"
where
  "resolve_gb7_credentials N A sts tags now cache =
     (case resolve_role_identity sts tags of
        Inl (key, v, reason) \<Rightarrow> Some (Inl (Gb7Reject key v reason), cache)
      | Inr (role_arn, session_name) \<Rightarrow>
          (case resolve_session_tags sts tags of
             None \<Rightarrow> None
           | Some (Inl (key, reason)) \<Rightarrow> Some (Inl (Gb7Reject key None reason), cache)
           | Some (Inr session_tags) \<Rightarrow>
               Some (case credentials_for N A sts role_arn session_name session_tags now cache of
                 (Inl e, c) \<Rightarrow> (Inl (Gb7Exchange e), c)
               | (Inr (creds, _), c) \<Rightarrow> (Inr (creds, sc_region sts), c))))"

definition sts_gate :: "('p, 'v, 'k, 'm, 'i) gate" where
  "sts_gate X now br = (\<lambda>(ctx, gw).
     case pv_sts (br_provider br) of
       None \<Rightarrow> pass (ctx, gw)
     | Some sts \<Rightarrow>
         (case resolve_gb7_credentials (px_net X) (px_aws X) sts (br_tags br) now (gw_sts_cache gw) of
            None \<Rightarrow> None
          | Some (Inr signing, c) \<Rightarrow> pass (ctx\<lparr>rc_aws := Some signing\<rparr>, gw\<lparr>gw_sts_cache := c\<rparr>)
          | Some (Inl (Gb7Reject key v reason), c) \<Rightarrow>
              refuse
                (if v \<noteq> None then unwrap_or (ep_value_not_allowed (br_policy br)) (ep_default_response (br_policy br))
                 else ep_default_response (br_policy br))
                [(''key'', key), (''value'', unwrap_or v []), (''route'', br_prefix br)]
                (ctx, gw\<lparr>gw_sts_cache := c\<rparr>)
          | Some (Inl (Gb7Exchange e), c) \<Rightarrow>
              Some (Some (Failed 502),
                ctx\<lparr>rc_error := Some (''sts: '' @ take_chars 160 (px_show_exchange X e))\<rparr>, gw\<lparr>gw_sts_cache := c\<rparr>)))"

definition location_gate :: "('p, 'v, 'k, 'm, 'i) gate" where
  "location_gate X now br = (\<lambda>(ctx, gw).
     case pv_locations (br_provider br) of
       None \<Rightarrow> pass (ctx, gw)
     | Some allowed \<Rightarrow>
         (case vertex_path_location (br_path br) of
            Some loc \<Rightarrow>
              if loc \<in> set allowed
              then pass (ctx\<lparr>rc_vertex_host := Some (derive_vertex_host loc (up_host (pv_upstream (br_provider br))))\<rparr>, gw)
              else refuse (ep_unknown_route (br_policy br)) [(''route'', br_path br)] (ctx, gw)
          | None \<Rightarrow> refuse (ep_unknown_route (br_policy br)) [(''route'', br_path br)] (ctx, gw)))"

definition bearer_gate :: "('p, 'v, 'k, 'm, 'i) gate" where
  "bearer_gate X now br = (\<lambda>(ctx, gw).
     case pv_auth (br_provider br) of
       None \<Rightarrow> pass (ctx, gw)
     | Some auth \<Rightarrow>
         (case bearer_for (px_net X) (px_aws X) (px_json X) auth now (gw_gcp_tokens gw) of
            (Inr (bearer, _), c) \<Rightarrow> pass (ctx\<lparr>rc_gcp_bearer := Some bearer\<rparr>, gw\<lparr>gw_gcp_tokens := c\<rparr>)
          | (Inl e, c) \<Rightarrow> Some (Some (Failed 502), ctx, gw\<lparr>gw_gcp_tokens := c\<rparr>)))"

definition injection_gate :: "('p, 'v, 'k, 'm, 'i) gate" where
  "injection_gate X now br = (\<lambda>(ctx, gw).
     case pv_inject (br_provider br) of
       None \<Rightarrow> pass (ctx, gw)
     | Some inject \<Rightarrow>
         (case resolve_injection inject (br_tags br) of
            Inr resolved \<Rightarrow> pass (ctx\<lparr>rc_forced := Some resolved\<rparr>, gw)
          | Inl (key, reason) \<Rightarrow> refuse (ep_default_response (br_policy br))
              [(''key'', key), (''route'', br_prefix br)] (ctx, gw)))"

definition refuse_model :: "'p bound_request \<Rightarrow> string option \<Rightarrow> 's \<Rightarrow> (request_outcome option \<times> 's) option" where
  "refuse_model br model st = refuse (ep_model_not_allowed (br_policy br))
     [(''model'', unwrap_or model ''-''), (''route'', br_prefix br)] st"

definition model_ok :: "string list \<Rightarrow> string option \<Rightarrow> bool" where
  "model_ok allow model \<longleftrightarrow> (case model of Some m \<Rightarrow> model_allowed allow m | None \<Rightarrow> False)"

definition path_model_gate :: "('p, 'v, 'k, 'm, 'i) gate" where
  "path_model_gate X now br = (\<lambda>st.
     case ep_models (br_policy br) of
       None \<Rightarrow> pass st
     | Some allow \<Rightarrow>
         (let kind = pv_kind (br_provider br); model = model_from_path kind (br_path br) in
          if (kind = Bedrock \<or> kind = Vertex) \<and> \<not> model_ok allow model then refuse_model br model st
          else pass st))"

definition signed_payload :: "'p bound_request \<Rightarrow> bool" where
  "signed_payload br \<longleftrightarrow> pv_kind (br_provider br) = Bedrock \<and> pv_sts (br_provider br) \<noteq> None"

definition body_model_gate :: "'p bound_request \<Rightarrow> bool" where
  "body_model_gate br \<longleftrightarrow> ep_models (br_policy br) \<noteq> None \<and>
     (pv_kind (br_provider br) = OpenAi \<or> pv_kind (br_provider br) = Anthropic)"

definition forced_body :: "('p, 'k, 'm) req_ctx \<Rightarrow> resolved_body_field list" where
  "forced_body ctx = (case rc_forced ctx of Some f \<Rightarrow> ri_body f | None \<Rightarrow> [])"

text \<open>The body read early: \<open>br_body\<close> is what the client sent, \<open>None\<close> when the read fails.\<close>

definition body_gate :: "('p, 'v, 'k, 'm, 'i) gate" where
  "body_gate X now br = (\<lambda>(ctx, gw).
     if \<not> (signed_payload br \<or> body_model_gate br) then pass (ctx, gw)
     else (case br_body br of
       None \<Rightarrow> Some (Some Broken, ctx, gw)
     | Some buf \<Rightarrow>
         if body_model_gate br \<and>
           \<not> model_ok (unwrap_or (ep_models (br_policy br)) []) (model_from_body (px_json X) buf)
         then refuse_model br (model_from_body (px_json X) buf) (ctx, gw)
         else
           (case (if \<not> signed_payload br \<or> forced_body ctx = [] \<or> buf = [] then Inr buf
                  else inject_into_body (px_json X) buf (forced_body ctx)) of
              Inr merged \<Rightarrow> pass (ctx\<lparr>rc_signed_body := Some merged\<rparr>, gw)
            | Inl e \<Rightarrow> refuse (ep_default_response (br_policy br))
                [(''key'', ''body''), (''route'', br_prefix br)] (ctx, gw))))"

definition bind_gate :: "('p, 'v, 'k, 'm, 'i) gate" where
  "bind_gate X now br = (\<lambda>(ctx, gw). pass (ctx\<lparr>
     rc_route := Some \<lparr>rb_prefix = br_prefix br, rb_provider = ru_provider (br_route br),
       rb_kind = pv_kind (br_provider br)\<rparr>,
     rc_adapter := Some (new_adapter (pv_kind (br_provider br))),
     rc_attr_headers := ep_headers (br_policy br), rc_tags := br_tags br, rc_caps := br_caps br,
     rc_cut_streaming := rt_streaming (ep_default_response (br_policy br)),
     rc_cap_cut_streaming :=
       rt_streaming (unwrap_or (ep_cap_exceeded (br_policy br)) (ep_default_response (br_policy br)))\<rparr>, gw))"

definition wasm_gate :: "('p, 'v, 'k, 'm, 'i) gate" where
  "wasm_gate X now br = (\<lambda>(ctx, gw).
     case Option.bind (rc_modules ctx) (\<lambda>ms.
         apply_on_request (px_wasm X) ms (br_method br) (br_path br) (ec_headers (br_cel br)) (rc_tags ctx)) of
       None \<Rightarrow> pass (ctx, gw)
     | Some (Proceed set_h remove) \<Rightarrow>
         pass (ctx\<lparr>rc_wasm_header_set := set_h, rc_wasm_header_remove := remove\<rparr>, gw)
     | Some (RejectRequest reason) \<Rightarrow> refuse (ep_default_response (br_policy br))
         [(''key'', reason), (''route'', br_prefix br)] (ctx, gw))"

definition gates :: "('p, 'v, 'k, 'm, 'i) gate list" where
  "gates = [labels_gate, sts_gate, location_gate, bearer_gate, injection_gate, path_model_gate,
     body_gate, bind_gate, wasm_gate]"

fun run_gates ::
  "('s \<Rightarrow> (request_outcome option \<times> 's) option) list \<Rightarrow> 's \<Rightarrow> (request_outcome \<times> 's) option"
where
  "run_gates [] st = Some (Forwarded, st)"
| "run_gates (g # gs) st = (case g st of
     None \<Rightarrow> None
   | Some (Some outcome, st') \<Rightarrow> Some (outcome, st')
   | Some (None, st') \<Rightarrow> run_gates gs st')"

section \<open>The request filter\<close>

text \<open>\<open>request_filter\<close>: \<open>Responded\<close> is the code's \<open>Ok(true)\<close>, \<open>Forwarded\<close> its \<open>Ok(false)\<close>, \<open>Failed\<close> an error with
  a status and \<open>Broken\<close> an error of \<open>pingora\<close> itself.\<close>

definition request_filter ::
  "('p, 'v, 'k, 'm, 'i) proxy_env \<Rightarrow> u64 \<Rightarrow> incoming \<Rightarrow> ('p, 'k, 'm) proxy_state \<Rightarrow>
   (request_outcome \<times> ('p, 'k, 'm) proxy_state) option"
where
  "request_filter X now req st =
     (let cfg = sn_config (rc_snapshot (fst st)) in
      case normalize_and_rewrite (px_uri X) (in_path req) (in_query req) of
        None \<Rightarrow> Some (Responded (respond_rejection (rj_unknown_route (cf_rejections cfg)) [(''route'', in_path req)]), st)
      | Some (path, _) \<Rightarrow>
          (let claims = verified_claims (px_jwt X) cfg (in_head req) now;
               cel = request_ctx (in_head req) path claims in
           case match_route (px_cel X) (cf_routes cfg) path cel of
             None \<Rightarrow> None
           | Some None \<Rightarrow> Some (Responded (respond_rejection (rj_unknown_route (cf_rejections cfg)) [(''route'', path)]), st)
           | Some (Some route) \<Rightarrow>
               (case route_policy route of
                  None \<Rightarrow> None
                | Some base \<Rightarrow>
                    (case resolve_with_app_scope (px_cel X) (px_json X) route (cf_apps cfg)
                        (caller_attrs (in_head req) (ep_headers base)) claims cel of
                       None \<Rightarrow> None
                     | Some (policy, res) \<Rightarrow>
                         if \<not> rs_ok res then Some (Responded (respond_rejection (ep_default_response policy)
                           [(''key'', join_with '', '' (rs_missing res)), (''route'', ru_prefix route)]), st)
                         else (case admit_caps (px_cal X) policy now (rs_tags res) (gw_budgets (snd st)) of
                           (Inl d, b) \<Rightarrow> Some (Responded (respond_rejection
                             (unwrap_or (ep_cap_exceeded policy) (ep_default_response policy))
                             [(''key'', show_cap_id (dn_id d)), (''route'', ru_prefix route),
                              (''cap'', show_u64 (dn_cap d)), (''spend'', show_u64 (dn_spent d))]),
                             fst st, (snd st)\<lparr>gw_budgets := b\<rparr>)
                         | (Inr caps, b) \<Rightarrow>
                             (case bt_get (cf_providers cfg) (ru_provider route) of
                                None \<Rightarrow> None
                              | Some provider \<Rightarrow>
                                  (let br = \<lparr>br_route = route, br_policy = policy, br_tags = rs_tags res,
                                     br_caps = caps, br_provider = provider, br_method = rh_method (in_head req),
                                     br_path = path, br_cel = cel, br_body = in_body req\<rparr>
                                   in run_gates (map (\<lambda>g. g X now br) gates)
                                        (fst st, (snd st)\<lparr>gw_budgets := b\<rparr>))))))))"

section \<open>What goes upstream\<close>

record upstream_head =
  uh_method :: string
  uh_path :: string
  uh_query :: "string option"
  uh_headers :: "(string \<times> string) list"

definition remove_header :: "string \<Rightarrow> upstream_head \<Rightarrow> upstream_head" where
  "remove_header name h = h\<lparr>uh_headers := filter (\<lambda>(n, _). n \<noteq> to_ascii_lowercase name) (uh_headers h)\<rparr>"

text \<open>\<open>insert_header\<close> replaces every value of the name; it fails on a name or a value HTTP does not
  allow, which the \<open>http\<close> crate decides (\<open>ok\<close>).\<close>

definition insert_header :: "(string \<Rightarrow> string \<Rightarrow> bool) \<Rightarrow> string \<Rightarrow> string \<Rightarrow> upstream_head \<Rightarrow> upstream_head option" where
  "insert_header ok name v h =
     (if ok name v
      then Some ((remove_header name h)\<lparr>uh_headers := uh_headers (remove_header name h) @ [(to_ascii_lowercase name, v)]\<rparr>)
      else None)"

fun insert_headers ::
  "(string \<Rightarrow> string \<Rightarrow> bool) \<Rightarrow> (string \<times> string) list \<Rightarrow> upstream_head \<Rightarrow> upstream_head option"
where
  "insert_headers ok [] h = Some h"
| "insert_headers ok ((name, v) # hs) h = Option.bind (insert_header ok name v h) (insert_headers ok hs)"

definition uh_get :: "upstream_head \<Rightarrow> string \<Rightarrow> string option" where
  "uh_get h name = map_of (uh_headers h) (to_ascii_lowercase name)"

definition attribution_inserts :: "(string, string) btree \<Rightarrow> tag list \<Rightarrow> (string \<times> string) list" where
  "attribution_inserts names tags =
     List.map_filter (\<lambda>t. map_option (\<lambda>name. (name, tg_value t)) (bt_get names (tg_key t))) tags"

definition apply_attribution ::
  "(string \<Rightarrow> string \<Rightarrow> bool) \<Rightarrow> (string, string) btree \<Rightarrow> tag list \<Rightarrow> upstream_head \<Rightarrow> upstream_head option"
where
  "apply_attribution ok names tags h =
     insert_headers ok (attribution_inserts names tags) (fold remove_header (bt_values names) h)"

definition apply_header_mutations ::
  "(string \<Rightarrow> string \<Rightarrow> bool) \<Rightarrow> (string, string) btree \<Rightarrow> string list \<Rightarrow> upstream_head \<Rightarrow> upstream_head option"
where
  "apply_header_mutations ok set_h remove h = insert_headers ok set_h (fold remove_header remove h)"

text \<open>A Bedrock request the caller signed and the gateway does not re-credential keeps its headers.\<close>

definition caller_sigv4 :: "upstream_head \<Rightarrow> bool" where
  "caller_sigv4 h = (case Option.bind (uh_get h ''authorization'') value_str of
     Some v \<Rightarrow> starts_with (trim_start v) ''AWS4-HMAC-SHA256''
   | None \<Rightarrow> False)"

definition forced_headers :: "('p, 'k, 'm) req_ctx \<Rightarrow> (string \<times> string) list" where
  "forced_headers ctx = (case rc_forced ctx of Some f \<Rightarrow> ri_headers f | None \<Rightarrow> [])"

definition caller_signed_passthrough :: "('p, 'k, 'm) req_ctx \<Rightarrow> upstream_head \<Rightarrow> bool" where
  "caller_signed_passthrough ctx h \<longleftrightarrow>
     (case rc_route ctx of Some b \<Rightarrow> rb_kind b = Bedrock | None \<Rightarrow> False) \<and>
     rc_aws ctx = None \<and> rc_gcp_bearer ctx = None \<and> caller_sigv4 h \<and>
     \<not> list_ex (\<lambda>(n, _). eq_ignore_ascii_case n ''authorization'') (forced_headers ctx)"

definition host_value :: "upstream \<Rightarrow> string option \<Rightarrow> string" where
  "host_value up vertex_host =
     (let host = unwrap_or vertex_host (up_host up);
          host' = (if contains_char host CHR '':'' \<and> \<not> starts_with host ''['' then ''['' @ host @ '']'' else host)
      in if up_port up = 443 \<or> up_port up = 80 then host' else host' @ '':'' @ show_word (up_port up))"

definition rewrites_body :: "('p, 'k, 'm) req_ctx \<Rightarrow> bool" where
  "rewrites_body ctx \<longleftrightarrow> rc_signed_body ctx = None \<and> (rc_vertex_labels ctx \<noteq> None \<or> forced_body ctx \<noteq> [])"

definition frame_body ::
  "(string \<Rightarrow> string \<Rightarrow> bool) \<Rightarrow> ('p, 'k, 'm) req_ctx \<Rightarrow> upstream_head \<Rightarrow> upstream_head option"
where
  "frame_body ok ctx h =
     (if rewrites_body ctx
      then insert_header ok ''transfer-encoding'' ''chunked'' (remove_header ''content-length'' h)
      else case rc_signed_body ctx of
        None \<Rightarrow> Some h
      | Some body \<Rightarrow> insert_header ok ''content-length'' (dec_of_nat (length body)) (remove_header ''transfer-encoding'' h))"

definition bedrock_sign_params ::
  "aws_lib \<Rightarrow> upstream \<Rightarrow> string \<Rightarrow> credentials \<Rightarrow> u64 \<Rightarrow> string \<Rightarrow> (string \<times> string) list \<Rightarrow> upstream_head \<Rightarrow> sign_params"
where
  "bedrock_sign_params A up region creds now payload_hash extra h =
     (let timestamp = fst (amz_date A now) in
      \<lparr>sp_method = uh_method h, sp_path = uh_path h, sp_query = unwrap_or (uh_query h) [], sp_region = region,
       sp_service = ''bedrock'',
       sp_headers = [(''host'', address up), (''x-amz-content-sha256'', payload_hash), (''x-amz-date'', timestamp),
           (''x-amz-security-token'', cd_session_token creds)] @
         map (\<lambda>(n, v). (to_ascii_lowercase n, v)) extra,
       sp_payload_hash = payload_hash, sp_timestamp = timestamp\<rparr>)"

definition sign_bedrock_request ::
  "(string \<Rightarrow> string \<Rightarrow> bool) \<Rightarrow> aws_lib \<Rightarrow> upstream \<Rightarrow> string \<Rightarrow> credentials \<Rightarrow> u64 \<Rightarrow> string \<Rightarrow> (string \<times> string) list \<Rightarrow>
   upstream_head \<Rightarrow> upstream_head option"
where
  "sign_bedrock_request ok A up region creds now payload_hash extra h =
     (let p = bedrock_sign_params A up region creds now payload_hash extra h
      in insert_headers ok [(''host'', address up), (''x-amz-date'', sp_timestamp p),
           (''x-amz-security-token'', cd_session_token creds), (''x-amz-content-sha256'', payload_hash),
           (''authorization'', authorization A p (cd_access_key_id creds) (cd_secret_access_key creds))] h)"

definition upstream_of :: "('p, 'k, 'm) req_ctx \<Rightarrow> upstream option" where
  "upstream_of ctx = Option.bind (rc_route ctx) (\<lambda>b.
     map_option pv_upstream (bt_get (cf_providers (sn_config (rc_snapshot ctx))) (rb_provider b)))"

definition upstream_peer :: "('p, 'k, 'm) req_ctx \<Rightarrow> (string \<times> bool \<times> string) option" where
  "upstream_peer ctx = map_option (\<lambda>up.
     let host = unwrap_or (rc_vertex_host ctx) (up_host up);
         sni = (if rc_vertex_host ctx \<noteq> None then host else upstream_sni up)
     in (host @ '':'' @ show_word (up_port up), up_tls up, sni)) (upstream_of ctx)"

text \<open>The edits after the attribution and the modules' mutations; \<open>signed\<close> is the answer of
  \<open>caller_signed_passthrough\<close>.\<close>

definition operator_inserts :: "upstream \<Rightarrow> bool \<Rightarrow> ('p, 'k, 'm) req_ctx \<Rightarrow> (string \<times> string) list" where
  "operator_inserts up passthrough ctx =
     (if passthrough then [] else [(''accept-encoding'', ''identity'')]) @
     (case rc_gcp_bearer ctx of Some b \<Rightarrow> [(''authorization'', ''Bearer '' @ b)] | None \<Rightarrow> []) @
     (if passthrough then [] else [(''host'', host_value up (rc_vertex_host ctx))]) @
     forced_headers ctx"

definition sign_step ::
  "(string \<Rightarrow> string \<Rightarrow> bool) \<Rightarrow> aws_lib \<Rightarrow> u64 \<Rightarrow> upstream \<Rightarrow> ('p, 'k, 'm) req_ctx \<Rightarrow> upstream_head \<Rightarrow> upstream_head option"
where
  "sign_step ok A now up ctx h = (case rc_aws ctx of
     None \<Rightarrow> Some h
   | Some (creds, region) \<Rightarrow> sign_bedrock_request ok A up region creds now
       (sha256_hex A (unwrap_or (rc_signed_body ctx) [])) (forced_headers ctx) h)"

text \<open>\<open>upstream_request_filter\<close>; the inner \<open>None\<close> is a header HTTP does not allow.\<close>

definition upstream_request_filter ::
  "('p, 'v, 'k, 'm, 'i) proxy_env \<Rightarrow> u64 \<Rightarrow> ('p, 'k, 'm) req_ctx \<Rightarrow> upstream_head \<Rightarrow>
   (upstream_head option \<times> ('p, 'k, 'm) req_ctx) option"
where
  "upstream_request_filter X now ctx head =
     map_option (\<lambda>up.
       let ok = px_header_ok X in
       (Option.bind (apply_attribution ok (rc_attr_headers ctx) (rc_tags ctx) head) (\<lambda>h1.
        Option.bind (apply_header_mutations ok (rc_wasm_header_set ctx) (rc_wasm_header_remove ctx) h1) (\<lambda>h2.
        Option.bind (insert_headers ok (operator_inserts up (caller_signed_passthrough ctx h2) ctx) h2) (\<lambda>h3.
        Option.bind (frame_body ok ctx h3) (sign_step ok (px_aws X) now up ctx)))),
        ctx\<lparr>rc_proxying := True\<rparr>)) (upstream_of ctx)"

section \<open>The request body\<close>

text \<open>\<open>None\<close>: the panic of \<open>expect\<close> on a rewritten body without a bound route.\<close>

definition request_body_filter ::
  "('p, 'v, 'k, 'm, 'i) proxy_env \<Rightarrow> string option \<Rightarrow> bool \<Rightarrow> ('p, 'k, 'm) req_ctx \<Rightarrow>
   ((request_outcome + string option) \<times> ('p, 'k, 'm) req_ctx) option"
where
  "request_body_filter X body end_of_stream ctx =
     (if rc_signed_body ctx \<noteq> None then Some (Inr (rc_signed_body ctx), ctx\<lparr>rc_signed_body := None\<rparr>)
      else if rc_vertex_labels ctx = None \<and> forced_body ctx = [] then Some (Inr body, ctx)
      else
        (let ctx1 = ctx\<lparr>rc_body_buf := rc_body_buf ctx @ unwrap_or body []\<rparr> in
         if \<not> end_of_stream then Some (Inr None, ctx1)
         else
           (case (case rc_vertex_labels ctx of
                    Some ls \<Rightarrow> merge_into_body (px_json X) (rc_body_buf ctx1) ls
                  | None \<Rightarrow> Inr (rc_body_buf ctx1)) of
              Inl e \<Rightarrow> Some (Inl (Failed 400), ctx1)
            | Inr merged \<Rightarrow>
                (case inject_into_body (px_json X) merged (forced_body ctx) of
                   Inl e \<Rightarrow> Some (Inl (Failed 400), ctx1)
                 | Inr out \<Rightarrow>
                     (case rc_route ctx1 of
                        None \<Rightarrow> None
                      | Some binding \<Rightarrow> Some (Inr (Some out), ctx1\<lparr>rc_body_buf := []\<rparr>))))))"

lemma request_body_filter_total:
  "rc_route ctx \<noteq> None \<Longrightarrow> \<exists>r ctx'. request_body_filter X body eos ctx = Some (r, ctx') \<and> rc_route ctx' = rc_route ctx"
  by (auto simp: request_body_filter_def Let_def split: option.split sum.split)

section \<open>What a gate that lets a request pass has done\<close>

lemma outcome_simps [simp]:
  "refuse t vars st = Some (None, st') \<longleftrightarrow> False" "refuse t vars st = Some (Some Forwarded, st') \<longleftrightarrow> False"
  "refuse_model br model st = Some (None, st') \<longleftrightarrow> False" "refuse_model br model st = Some (Some Forwarded, st') \<longleftrightarrow> False"
  "pass st = Some (o', st') \<longleftrightarrow> o' = None \<and> st' = st"
  by (auto simp: refuse_def refuse_model_def pass_def)

lemma labels_pass: "labels_gate X now br (ctx, gw) = Some (None, ctx', gw') \<Longrightarrow>
    (\<exists>v. ctx' = ctx\<lparr>rc_vertex_labels := v\<rparr>) \<and> gw' = gw"
  by (cases ctx) (auto simp: labels_gate_def split: if_splits sum.splits)

lemma sts_pass: "sts_gate X now br (ctx, gw) = Some (None, ctx', gw') \<Longrightarrow>
    (\<exists>v. ctx' = ctx\<lparr>rc_aws := v\<rparr>) \<and> gw_budgets gw' = gw_budgets gw"
  by (cases ctx) (auto simp: sts_gate_def split: option.splits sum.splits prod.splits gb7_failure.splits)

lemma location_pass: "location_gate X now br (ctx, gw) = Some (None, ctx', gw') \<Longrightarrow>
    gw' = gw \<and> (case pv_locations (br_provider br) of
       None \<Rightarrow> ctx' = ctx
     | Some locs \<Rightarrow> (\<exists>loc \<in> set locs. vertex_path_location (br_path br) = Some loc \<and>
         ctx' = ctx\<lparr>rc_vertex_host := Some (derive_vertex_host loc (up_host (pv_upstream (br_provider br))))\<rparr>))"
  by (auto simp: location_gate_def split: option.splits if_splits)

lemma bearer_pass: "bearer_gate X now br (ctx, gw) = Some (None, ctx', gw') \<Longrightarrow>
    (\<exists>v. ctx' = ctx\<lparr>rc_gcp_bearer := v\<rparr>) \<and> gw_budgets gw' = gw_budgets gw"
  by (cases ctx) (auto simp: bearer_gate_def split: option.splits sum.splits prod.splits)

lemma injection_pass: "injection_gate X now br (ctx, gw) = Some (None, ctx', gw') \<Longrightarrow>
    gw' = gw \<and> (case pv_inject (br_provider br) of
       None \<Rightarrow> ctx' = ctx
     | Some inject \<Rightarrow> (\<exists>f. resolve_injection inject (br_tags br) = Inr f \<and> ctx' = ctx\<lparr>rc_forced := Some f\<rparr>))"
  by (auto simp: injection_gate_def split: option.splits sum.splits)

lemma path_model_pass: "path_model_gate X now br (ctx, gw) = Some (None, ctx', gw') \<Longrightarrow>
    ctx' = ctx \<and> gw' = gw \<and>
    (\<forall>allow. ep_models (br_policy br) = Some allow \<longrightarrow> pv_kind (br_provider br) \<in> {Bedrock, Vertex} \<longrightarrow>
       model_ok allow (model_from_path (pv_kind (br_provider br)) (br_path br)))"
  by (auto simp: path_model_gate_def Let_def split: option.splits if_splits)

lemma body_pass: "body_gate X now br (ctx, gw) = Some (None, ctx', gw') \<Longrightarrow>
    gw' = gw \<and>
    (if signed_payload br \<or> body_model_gate br then
       (\<exists>buf out. br_body br = Some buf \<and> ctx' = ctx\<lparr>rc_signed_body := Some out\<rparr> \<and>
          (\<not> signed_payload br \<longrightarrow> out = buf) \<and>
          (body_model_gate br \<longrightarrow>
             model_ok (unwrap_or (ep_models (br_policy br)) []) (model_from_body (px_json X) buf)))
     else ctx' = ctx)"
  by (auto simp: body_gate_def split: option.splits if_splits sum.splits)

lemma bind_pass: "bind_gate X now br (ctx, gw) = Some (None, ctx', gw') \<Longrightarrow>
    gw' = gw \<and> rc_tags ctx' = br_tags br \<and> rc_caps ctx' = br_caps br \<and> rc_modules ctx' = rc_modules ctx \<and>
    rc_attr_headers ctx' = ep_headers (br_policy br) \<and> rc_vertex_host ctx' = rc_vertex_host ctx \<and>
    rc_forced ctx' = rc_forced ctx \<and> rc_signed_body ctx' = rc_signed_body ctx \<and>
    rc_snapshot ctx' = rc_snapshot ctx \<and>
    rc_route ctx' = Some \<lparr>rb_prefix = br_prefix br, rb_provider = ru_provider (br_route br),
       rb_kind = pv_kind (br_provider br)\<rparr>"
  by (auto simp: bind_gate_def)

text \<open>The decision of the request chain let the request go on.\<close>

definition modules_agreed :: "('m, 'i) wasm_lib \<Rightarrow> 'm module_set option \<Rightarrow> request_view \<Rightarrow> bool" where
  "modules_agreed W modules view \<longleftrightarrow> (case modules of
     None \<Rightarrow> True
   | Some ms \<Rightarrow> (case bm_on_request W ms view of
       PolicyModule.Continue \<Rightarrow> True | MutateHeaders _ _ \<Rightarrow> True | _ \<Rightarrow> False))"

lemma chain_without_modules: "\<not> wants_hook OnRequest ms \<Longrightarrow> bm_on_request W ms view = PolicyModule.Continue"
  by (simp add: wants_hook_def bm_on_request_def)

lemma wasm_pass: "wasm_gate X now br (ctx, gw) = Some (None, ctx', gw') \<Longrightarrow>
    gw' = gw \<and> (\<exists>s r. ctx' = ctx\<lparr>rc_wasm_header_set := s, rc_wasm_header_remove := r\<rparr>) \<and>
    modules_agreed (px_wasm X) (rc_modules ctx)
      (build_request_view (br_method br) (br_path br) (ec_headers (br_cel br)) (rc_tags ctx))"
  by (cases ctx) (auto simp: wasm_gate_def apply_on_request_def run_on_request_def modules_agreed_def
    chain_without_modules split: option.splits on_request_action.splits decision.splits if_splits bind_splits)

lemma gates_do_not_forward:
  "g \<in> set gates \<Longrightarrow> g X now br (ctx, gw) \<noteq> Some (Some Forwarded, st')"
  by (auto simp: gates_def labels_gate_def sts_gate_def location_gate_def bearer_gate_def injection_gate_def
    path_model_gate_def body_gate_def bind_gate_def wasm_gate_def Let_def
    split: option.splits sum.splits prod.splits gb7_failure.splits on_request_action.splits if_splits)

lemma run_gates_step:
  assumes "run_gates (g # gs) st = Some (Forwarded, st')" "\<And>u. g st \<noteq> Some (Some Forwarded, u)"
  obtains st1 where "g st = Some (None, st1)" "run_gates gs st1 = Some (Forwarded, st')"
  using assms by (auto split: option.splits prod.splits)

lemma gate_at:
  fixes X :: "('p, 'v, 'k, 'm, 'i) proxy_env"
  assumes "run_gates (map (\<lambda>g. g X now br) (drop k gates)) (c, w) = Some (Forwarded, st')" "k < 9"
  shows "\<exists>c1 w1. (gates ! k) X now br (c, w) = Some (None, c1, w1) \<and>
      run_gates (map (\<lambda>g. g X now br) (drop (Suc k) gates)) (c1, w1) = Some (Forwarded, st')"
proof -
  let ?gs = "gates :: ('p, 'v, 'k, 'm, 'i) gate list"
  have k: "k < length ?gs" using assms(2) by (simp add: gates_def)
  have "run_gates ((?gs ! k) X now br # map (\<lambda>g. g X now br) (drop (Suc k) ?gs)) (c, w) = Some (Forwarded, st')"
    using assms(1) unfolding Cons_nth_drop_Suc [OF k, symmetric] by (simp only: list.map)
  then show ?thesis
    by (rule run_gates_step) (use gates_do_not_forward nth_mem [OF k] in \<open>blast, auto\<close>)
qed

text \<open>What a request knows once it is forwarded.\<close>

lemma gates_forwarded:
  assumes "run_gates (map (\<lambda>g. g X now br) gates) (ctx, gw) = Some (Forwarded, ctx', gw')"
  shows "rc_tags ctx' = br_tags br \<and> rc_caps ctx' = br_caps br \<and> gw_budgets gw' = gw_budgets gw \<and>
      rc_snapshot ctx' = rc_snapshot ctx \<and> rc_attr_headers ctx' = ep_headers (br_policy br) \<and>
      rc_route ctx' = Some \<lparr>rb_prefix = br_prefix br, rb_provider = ru_provider (br_route br),
        rb_kind = pv_kind (br_provider br)\<rparr>"
    and "case pv_locations (br_provider br) of None \<Rightarrow> rc_vertex_host ctx' = rc_vertex_host ctx
      | Some locs \<Rightarrow> (\<exists>loc \<in> set locs. vertex_path_location (br_path br) = Some loc \<and>
          rc_vertex_host ctx' = Some (derive_vertex_host loc (up_host (pv_upstream (br_provider br)))))"
    and "case pv_inject (br_provider br) of None \<Rightarrow> rc_forced ctx' = rc_forced ctx
      | Some inject \<Rightarrow> (\<exists>f. resolve_injection inject (br_tags br) = Inr f \<and> rc_forced ctx' = Some f)"
    and "\<And>allow. ep_models (br_policy br) = Some allow \<Longrightarrow> pv_kind (br_provider br) \<in> {Bedrock, Vertex} \<Longrightarrow>
       model_ok allow (model_from_path (pv_kind (br_provider br)) (br_path br))"
    and "if signed_payload br \<or> body_model_gate br then
       (\<exists>buf out. br_body br = Some buf \<and> rc_signed_body ctx' = Some out \<and> (\<not> signed_payload br \<longrightarrow> out = buf) \<and>
          (body_model_gate br \<longrightarrow>
             model_ok (unwrap_or (ep_models (br_policy br)) []) (model_from_body (px_json X) buf)))
     else rc_signed_body ctx' = rc_signed_body ctx"
    and "modules_agreed (px_wasm X) (rc_modules ctx)
      (build_request_view (br_method br) (br_path br) (ec_headers (br_cel br)) (br_tags br))"
proof -
  note step = gate_at [where X = X and now = now and br = br and st' = "(ctx', gw')"]
  have "run_gates (map (\<lambda>g. g X now br) (drop 0 gates)) (ctx, gw) = Some (Forwarded, ctx', gw')" using assms by simp
  from step [OF this] obtain c1 w1 where 1: "labels_gate X now br (ctx, gw) = Some (None, c1, w1)"
    and "run_gates (map (\<lambda>g. g X now br) (drop 1 gates)) (c1, w1) = Some (Forwarded, ctx', gw')"
    by (auto simp: gates_def numeral_nat)
  from step [OF this(2)] obtain c2 w2 where 2: "sts_gate X now br (c1, w1) = Some (None, c2, w2)"
    and "run_gates (map (\<lambda>g. g X now br) (drop 2 gates)) (c2, w2) = Some (Forwarded, ctx', gw')"
    by (auto simp: gates_def numeral_nat)
  from step [OF this(2)] obtain c3 w3 where 3: "location_gate X now br (c2, w2) = Some (None, c3, w3)"
    and "run_gates (map (\<lambda>g. g X now br) (drop 3 gates)) (c3, w3) = Some (Forwarded, ctx', gw')"
    by (auto simp: gates_def numeral_nat)
  from step [OF this(2)] obtain c4 w4 where 4: "bearer_gate X now br (c3, w3) = Some (None, c4, w4)"
    and "run_gates (map (\<lambda>g. g X now br) (drop 4 gates)) (c4, w4) = Some (Forwarded, ctx', gw')"
    by (auto simp: gates_def numeral_nat)
  from step [OF this(2)] obtain c5 w5 where 5: "injection_gate X now br (c4, w4) = Some (None, c5, w5)"
    and "run_gates (map (\<lambda>g. g X now br) (drop 5 gates)) (c5, w5) = Some (Forwarded, ctx', gw')"
    by (auto simp: gates_def numeral_nat)
  from step [OF this(2)] obtain c6 w6 where 6: "path_model_gate X now br (c5, w5) = Some (None, c6, w6)"
    and "run_gates (map (\<lambda>g. g X now br) (drop 6 gates)) (c6, w6) = Some (Forwarded, ctx', gw')"
    by (auto simp: gates_def numeral_nat)
  from step [OF this(2)] obtain c7 w7 where 7: "body_gate X now br (c6, w6) = Some (None, c7, w7)"
    and "run_gates (map (\<lambda>g. g X now br) (drop 7 gates)) (c7, w7) = Some (Forwarded, ctx', gw')"
    by (auto simp: gates_def numeral_nat)
  from step [OF this(2)] obtain c8 w8 where 8: "bind_gate X now br (c7, w7) = Some (None, c8, w8)"
    and "run_gates (map (\<lambda>g. g X now br) (drop 8 gates)) (c8, w8) = Some (Forwarded, ctx', gw')"
    by (auto simp: gates_def numeral_nat)
  from step [OF this(2)] obtain c9 w9 where 9: "wasm_gate X now br (c8, w8) = Some (None, c9, w9)"
    and "run_gates (map (\<lambda>g. g X now br) (drop 9 gates)) (c9, w9) = Some (Forwarded, ctx', gw')"
    by (auto simp: gates_def numeral_nat)
  then have 10: "ctx' = c9" "gw' = w9" by (simp_all add: gates_def)
  note done_ = labels_pass [OF 1] sts_pass [OF 2] location_pass [OF 3] bearer_pass [OF 4]
    injection_pass [OF 5] path_model_pass [OF 6] body_pass [OF 7] bind_pass [OF 8] wasm_pass [OF 9] 10
  show "rc_tags ctx' = br_tags br \<and> rc_caps ctx' = br_caps br \<and> gw_budgets gw' = gw_budgets gw \<and>
      rc_snapshot ctx' = rc_snapshot ctx \<and> rc_attr_headers ctx' = ep_headers (br_policy br) \<and>
      rc_route ctx' = Some \<lparr>rb_prefix = br_prefix br, rb_provider = ru_provider (br_route br),
        rb_kind = pv_kind (br_provider br)\<rparr>"
    using done_ by (auto split: option.splits if_splits)
  show "case pv_locations (br_provider br) of None \<Rightarrow> rc_vertex_host ctx' = rc_vertex_host ctx
      | Some locs \<Rightarrow> (\<exists>loc \<in> set locs. vertex_path_location (br_path br) = Some loc \<and>
          rc_vertex_host ctx' = Some (derive_vertex_host loc (up_host (pv_upstream (br_provider br)))))"
    using done_ by (auto split: option.splits if_splits)
  show "case pv_inject (br_provider br) of None \<Rightarrow> rc_forced ctx' = rc_forced ctx
      | Some inject \<Rightarrow> (\<exists>f. resolve_injection inject (br_tags br) = Inr f \<and> rc_forced ctx' = Some f)"
    using done_ by (auto split: option.splits if_splits)
  show "\<And>allow. ep_models (br_policy br) = Some allow \<Longrightarrow> pv_kind (br_provider br) \<in> {Bedrock, Vertex} \<Longrightarrow>
       model_ok allow (model_from_path (pv_kind (br_provider br)) (br_path br))"
    using done_ by auto
  have pre: "rc_signed_body c6 = rc_signed_body ctx"
    using labels_pass [OF 1] sts_pass [OF 2] location_pass [OF 3] bearer_pass [OF 4] injection_pass [OF 5]
      path_model_pass [OF 6] by (auto split: option.splits)
  have post: "rc_signed_body ctx' = rc_signed_body c7" using bind_pass [OF 8] wasm_pass [OF 9] 10 by auto
  show "if signed_payload br \<or> body_model_gate br then
       (\<exists>buf out. br_body br = Some buf \<and> rc_signed_body ctx' = Some out \<and> (\<not> signed_payload br \<longrightarrow> out = buf) \<and>
          (body_model_gate br \<longrightarrow>
             model_ok (unwrap_or (ep_models (br_policy br)) []) (model_from_body (px_json X) buf)))
     else rc_signed_body ctx' = rc_signed_body ctx"
    using body_pass [OF 7] pre post by (cases "signed_payload br \<or> body_model_gate br") auto
  show "modules_agreed (px_wasm X) (rc_modules ctx)
      (build_request_view (br_method br) (br_path br) (ec_headers (br_cel br)) (br_tags br))"
    using done_ by (auto split: option.splits if_splits)
qed

end
