(* ===== verification/ProxyResponse.thy ===== *)
theory ProxyResponse
  imports ProxyRequest
begin

text \<open>
  The response half of \<open>gatewayd/src/proxy.rs\<close> with \<open>proxy_stream.rs\<close> and \<open>proxy_wasm.rs\<close>: the tap that
  the response head selects, the filter every chunk of the body passes, the cut of a stream by a
  module or by a cap, and the settlement at its end.  A settlement is the record the code prints:
  the rpt, how the stream ended, what the module hook said and the alerts that fired.  The
  clock is read once per call.  Lemmas: what a client is shown, when a request is settled, and
  what the capped spenders are billed.
\<close>

section \<open>The adapter bound to a response\<close>

definition adapter_feed ::
  "('p, 'v, 'k, 'm, 'i) proxy_env \<Rightarrow> stream_adapter \<Rightarrow> string \<Rightarrow> event list \<times> stream_adapter"
where
  "adapter_feed X a chunk = (case a of
     AnthropicAd s \<Rightarrow> apsnd AnthropicAd (anthropic_feed (px_json X) s chunk)
   | OpenAiAd s \<Rightarrow> apsnd OpenAiAd (openai_feed (px_json X) s chunk)
   | VertexAd s \<Rightarrow> apsnd VertexAd (vertex_feed (px_json X) s chunk)
   | BedrockAd s \<Rightarrow> apsnd BedrockAd (bedrock_feed (px_crc X) (px_json X) s chunk)
   | JsonTap t \<Rightarrow> apsnd JsonTap (tap_feed t chunk))"

definition adapter_finish :: "json_lib \<Rightarrow> stream_adapter \<Rightarrow> event list" where
  "adapter_finish J a = (case a of JsonTap t \<Rightarrow> tap_finish J t | _ \<Rightarrow> [])"

definition event_index :: "event \<Rightarrow> nat" where
  "event_index e = (case e of MessageStart _ _ \<Rightarrow> 0 | ContentDelta _ _ \<Rightarrow> 1 | ToolCallDelta _ _ _ _ \<Rightarrow> 2
     | UsageDelta _ _ \<Rightarrow> 3 | MessageEnd _ \<Rightarrow> 4 | EError _ _ \<Rightarrow> 5)"

text \<open>\<open>meter.observe\<close> followed by \<open>count\<close>.\<close>

definition meter_event :: "event \<Rightarrow> ('p, 'k, 'm) req_ctx \<Rightarrow> ('p, 'k, 'm) req_ctx" where
  "meter_event e ctx = ctx\<lparr>rc_meter := observe e (rc_meter ctx),
     rc_event_counts := (rc_event_counts ctx)[event_index e := Suc (rc_event_counts ctx ! event_index e)]\<rparr>"

record response_head =
  sh_status :: "16 word"
  sh_headers :: "(string \<times> string) list"

definition upstream_response_filter ::
  "response_head \<Rightarrow> ('p, 'k, 'm) req_ctx \<Rightarrow> ('p, 'k, 'm) req_ctx"
where
  "upstream_response_filter head ctx = (case rc_route ctx of
     None \<Rightarrow> ctx
   | Some rb \<Rightarrow>
       if 100 \<le> sh_status head \<and> sh_status head < 200 then ctx
       else
         (case decide_tap (sh_status head) (Option.bind (map_of (sh_headers head) ''content-type'') value_str)
             (Option.bind (map_of (sh_headers head) ''content-encoding'') value_str) (rb_kind rb) of
            Stream \<Rightarrow> ctx\<lparr>rc_tap := Some StreamMode\<rparr>
          | JsonTerminal \<Rightarrow> ctx\<lparr>rc_adapter := Some (JsonTap (tap_new (rb_kind rb))), rc_tap := Some JsonMode\<rparr>
          | Degraded reason \<Rightarrow>
              ctx\<lparr>rc_adapter := None, rc_error := Some (''meter_degraded: '' @ reason), rc_tap := None\<rparr>
          | NotApplicable reason \<Rightarrow> ctx\<lparr>rc_adapter := None, rc_tap := None\<rparr>))"

section \<open>The module hooks of a response\<close>

definition event_cut_reason :: "('m, 'i) wasm_lib \<Rightarrow> 'm module_set \<Rightarrow> event \<Rightarrow> u64 \<Rightarrow> string option" where
  "event_cut_reason W ms e est =
     (case bm_on_response_event W ms \<lparr>ev_event = wire_event_of e, ev_est_output = est\<rparr> of
        PolicyModule.Continue \<Rightarrow> None
      | MutateHeaders _ _ \<Rightarrow> None
      | CutStream reason \<Rightarrow> Some reason
      | Reject reason \<Rightarrow> Some reason)"

definition run_on_response_end :: "('m, 'i) wasm_lib \<Rightarrow> 'm module_set \<Rightarrow> meter_report \<Rightarrow> decision option" where
  "run_on_response_end W ms rpt =
     (if \<not> wants_hook OnResponseEnd ms then None
      else Some (bm_on_response_end W ms \<lparr>nv_est_output = mr_estimated rpt,
        nv_auth_input = mr_input rpt, nv_auth_output = mr_output rpt\<rparr>))"

definition render_wasm_cut ::
  "crc32 \<Rightarrow> streaming_rejection option \<Rightarrow> provider_kind \<Rightarrow> string \<Rightarrow> string \<Rightarrow> string"
where
  "render_wasm_cut crc streaming kind reason prefix =
     render_cut_event crc streaming kind (CapId ''wasm-policy'' reason) 0 0 prefix"

section \<open>Charging the capped spenders\<close>

fun charge_caps ::
  "calendar \<Rightarrow> (cap_id \<times> cap_terms) list \<Rightarrow> u64 \<Rightarrow> u64 \<Rightarrow> node_budgets \<Rightarrow>
   (cap_id \<times> u64) option \<times> alert list \<times> node_budgets"
where
  "charge_caps cal [] delta now b = (None, [], b)"
| "charge_caps cal ((i, terms) # caps) delta now b =
     (case meter cal i (Some terms) delta now b of
        (Cut j cap, as, b1) \<Rightarrow> (Some (j, cap), as, b1)
      | (NodeBudget.Continue, as, b1) \<Rightarrow>
          (let (c, bs, b2) = charge_caps cal caps delta now b1 in (c, as @ bs, b2)))"

definition charge_caps_and_cut ::
  "calendar \<Rightarrow> crc32 \<Rightarrow> (cap_id \<times> cap_terms) list \<Rightarrow> u64 \<Rightarrow> streaming_rejection option \<Rightarrow> provider_kind \<Rightarrow>
   string \<Rightarrow> u64 \<Rightarrow> node_budgets \<Rightarrow> string option \<times> alert list \<times> node_budgets"
where
  "charge_caps_and_cut cal crc caps delta streaming kind prefix now b =
     (if delta = 0 then (None, [], b)
      else (case charge_caps cal caps delta now b of
        (None, as, b1) \<Rightarrow> (None, as, b1)
      | (Some (i, cap), as, b1) \<Rightarrow>
          (Some (render_cut_event crc streaming kind i cap (spent_of i cap b1) prefix), as, b1)))"

section \<open>Settlement\<close>

record settlement =
  sm_report :: meter_report
  sm_disposition :: disposition
  sm_end_hook :: "decision option"
  sm_alerts :: "alert list"

definition METER_HOLES :: "string list" where
  "METER_HOLES = [''json_body_overflow'', ''json_body_parse'', ''json_body_shape'']"

definition finish_event :: "event \<Rightarrow> ('p, 'k, 'm) req_ctx \<Rightarrow> ('p, 'k, 'm) req_ctx" where
  "finish_event e ctx = meter_event e (case e of
     EError code message \<Rightarrow>
       if code \<in> set METER_HOLES then ctx\<lparr>rc_error := Some (''meter_degraded: '' @ code)\<rparr> else ctx
   | _ \<Rightarrow> ctx)"

definition drain_tap :: "json_lib \<Rightarrow> ('p, 'k, 'm) req_ctx \<Rightarrow> ('p, 'k, 'm) req_ctx" where
  "drain_tap J ctx = (case rc_adapter ctx of
     None \<Rightarrow> ctx
   | Some a \<Rightarrow> fold finish_event (adapter_finish J a) ctx)"

definition disposition_of :: "bool \<Rightarrow> disposition option \<Rightarrow> meter_report \<Rightarrow> disposition" where
  "disposition_of was_cut abort rpt =
     (if was_cut then GatewayCut
      else case abort of
        Some a \<Rightarrow> a
      | None \<Rightarrow> if mr_input rpt \<noteq> None \<or> mr_output rpt \<noteq> None then CompletedFrame else CompletedNoFrame)"

definition auth_total :: "meter_report \<Rightarrow> u64 option" where
  "auth_total rpt = (case (mr_input rpt, mr_output rpt) of
     (None, None) \<Rightarrow> None
   | (i, out) \<Rightarrow> Some (sat_add (unwrap_or i 0) (unwrap_or out 0)))"

definition settle_caps ::
  "calendar \<Rightarrow> u64 \<Rightarrow> meter_report \<Rightarrow> ('p, 'k, 'm) req_ctx \<Rightarrow> node_budgets \<Rightarrow>
   alert list \<times> ('p, 'k, 'm) req_ctx \<times> node_budgets"
where
  "settle_caps cal now rpt ctx b =
     (if rc_tap ctx = Some JsonMode then
        (case auth_total rpt of
           Some charged \<Rightarrow>
             (let (outcomes, as, b1) = charge_terminal_and_log cal (rc_caps ctx) charged now b
              in (as, ctx\<lparr>rc_authoritative_tokens := Some charged\<rparr>, b1))
         | None \<Rightarrow>
             ([], ctx\<lparr>rc_authoritative_tokens := None,
                rc_error := (if rc_caps ctx \<noteq> [] \<and> rc_error ctx = None
                  then Some ''meter_degraded: no_usage_on_capped_route'' else rc_error ctx)\<rparr>, b))
      else ([], ctx\<lparr>rc_authoritative_tokens := mr_output rpt\<rparr>,
             settle_and_log cal (rc_caps ctx) (estimated_output_tokens (rc_meter ctx)) (mr_output rpt) now b))"

definition settle_stream ::
  "('p, 'v, 'k, 'm, 'i) proxy_env \<Rightarrow> u64 \<Rightarrow> disposition option \<Rightarrow> ('p, 'k, 'm) proxy_state \<Rightarrow>
   settlement option \<times> ('p, 'k, 'm) proxy_state"
where
  "settle_stream X now abort = (\<lambda>(ctx, gw).
     if rc_settled ctx \<or> \<not> rc_proxying ctx \<or> rc_route ctx = None then (None, ctx, gw)
     else
       (let c1 = drain_tap (px_json X) (ctx\<lparr>rc_settled := True\<rparr>);
            rpt = meter_report_of (rc_meter c1);
            d = disposition_of (rc_cut c1) abort rpt;
            hook = Option.bind (rc_modules c1) (\<lambda>ms. run_on_response_end (px_wasm X) ms rpt);
            (as, c2, b) = settle_caps (px_cal X) now rpt (c1\<lparr>rc_disposition := Some d\<rparr>) (gw_budgets gw)
        in (Some \<lparr>sm_report = rpt, sm_disposition = d, sm_end_hook = hook, sm_alerts = as\<rparr>,
            c2, gw\<lparr>gw_budgets := b\<rparr>)))"

section \<open>The body filter\<close>

definition observe_event ::
  "('p, 'v, 'k, 'm, 'i) proxy_env \<Rightarrow> event \<Rightarrow> ('p, 'k, 'm) req_ctx \<times> string option \<Rightarrow>
   ('p, 'k, 'm) req_ctx \<times> string option"
where
  "observe_event X e = (\<lambda>(ctx, reason).
     let c1 = meter_event e ctx in
     (c1, if rc_wasm_per_event c1 \<and> reason = None
          then Option.bind (rc_modules c1) (\<lambda>ms.
            event_cut_reason (px_wasm X) ms e (estimated_output_tokens (rc_meter c1)))
          else reason))"

definition tap_chunk ::
  "('p, 'v, 'k, 'm, 'i) proxy_env \<Rightarrow> string option \<Rightarrow> ('p, 'k, 'm) req_ctx \<Rightarrow>
   ('p, 'k, 'm) req_ctx \<times> string option"
where
  "tap_chunk X body ctx = (case body of
     None \<Rightarrow> (ctx, None)
   | Some chunk \<Rightarrow>
       if chunk = [] then (ctx, None)
       else
         (let c1 = ctx\<lparr>rc_body_bytes := rc_body_bytes ctx + length chunk, rc_body_chunks := Suc (rc_body_chunks ctx)\<rparr> in
          case rc_adapter c1 of
            None \<Rightarrow> (c1, None)
          | Some a \<Rightarrow>
              (let (es, a') = adapter_feed X a chunk;
                   (c2, reason) = fold (observe_event X) es (c1, None)
               in (c2\<lparr>rc_adapter := Some a'\<rparr>, reason))))"

definition wasm_cut ::
  "crc32 \<Rightarrow> route_binding \<Rightarrow> string option \<Rightarrow> string option \<Rightarrow> ('p, 'k, 'm) req_ctx \<Rightarrow>
   string option \<times> ('p, 'k, 'm) req_ctx"
where
  "wasm_cut crc rb reason body ctx = (case reason of
     None \<Rightarrow> (body, ctx)
   | Some r \<Rightarrow>
       if rc_cut ctx then (body, ctx)
       else (Some (render_wasm_cut crc (rc_cut_streaming ctx) (rb_kind rb) r (rb_prefix rb)), ctx\<lparr>rc_cut := True\<rparr>))"

definition cap_cut ::
  "('p, 'v, 'k, 'm, 'i) proxy_env \<Rightarrow> u64 \<Rightarrow> route_binding \<Rightarrow> string option \<Rightarrow> ('p, 'k, 'm) req_ctx \<Rightarrow> node_budgets \<Rightarrow>
   string option \<times> alert list \<times> ('p, 'k, 'm) req_ctx \<times> node_budgets"
where
  "cap_cut X now rb body ctx b =
     (if rc_caps ctx = [] \<or> rc_cut ctx then (body, [], ctx, b)
      else
        (let est = estimated_output_tokens (rc_meter ctx);
             c1 = ctx\<lparr>rc_last_metered_est := est\<rparr>
         in case charge_caps_and_cut (px_cal X) (px_crc X) (rc_caps ctx) (sat_sub est (rc_last_metered_est ctx))
               (rc_cap_cut_streaming ctx) (rb_kind rb) (rb_prefix rb) now b of
              (Some terminal, as, b1) \<Rightarrow> (Some terminal, as, c1\<lparr>rc_cut := True\<rparr>, b1)
            | (None, as, b1) \<Rightarrow> (body, as, c1, b1)))"

text \<open>\<open>Torn\<close> is the error that tears the session down after a cut.\<close>

datatype body_result = Passed "string option" | Torn

definition response_body_filter ::
  "('p, 'v, 'k, 'm, 'i) proxy_env \<Rightarrow> u64 \<Rightarrow> string option \<Rightarrow> bool \<Rightarrow> ('p, 'k, 'm) proxy_state \<Rightarrow>
   (body_result \<times> alert list \<times> settlement option) \<times> ('p, 'k, 'm) proxy_state"
where
  "response_body_filter X now body end_of_stream = (\<lambda>(ctx, gw).
     case rc_route ctx of
       None \<Rightarrow> ((Passed body, [], None), ctx, gw)
     | Some rb \<Rightarrow>
         if rc_cut ctx \<and> \<not> end_of_stream then ((Torn, [], None), ctx, gw)
         else
           (let (c1, reason) = tap_chunk X body ctx;
                (body1, c2) = wasm_cut (px_crc X) rb reason body c1;
                (body2, as, c3, b) = cap_cut X now rb body1 c2 (gw_budgets gw);
                shown = (if rc_cut ctx \<and> end_of_stream then None else body2);
                st = (c3, gw\<lparr>gw_budgets := b\<rparr>)
            in if end_of_stream then (let (s, st') = settle_stream X now None st in ((Passed shown, as, s), st'))
               else ((Passed shown, as, None), st)))"

section \<open>The end of a request\<close>

datatype error_source = Upstream | Downstream | Internal | Unset

definition logging ::
  "('p, 'v, 'k, 'm, 'i) proxy_env \<Rightarrow> u64 \<Rightarrow> error_source option \<Rightarrow> ('p, 'k, 'm) proxy_state \<Rightarrow>
   settlement option \<times> ('p, 'k, 'm) proxy_state"
where
  "logging X now err st =
     (if rc_proxying (fst st) \<and> \<not> rc_settled (fst st)
      then settle_stream X now (Some (if err = Some Upstream then UpstreamCut else ClientAbort)) st
      else (None, st))"

section \<open>A whole response\<close>

definition opt_list :: "'a option \<Rightarrow> 'a list" where
  "opt_list x = (case x of Some v \<Rightarrow> [v] | None \<Rightarrow> [])"

text \<open>The calls \<open>pingora\<close> makes for the chunks of a body: the clock, the chunk and whether it ends the
  stream.  An error ends them.\<close>

fun run_bodies ::
  "('p, 'v, 'k, 'm, 'i) proxy_env \<Rightarrow> (u64 \<times> string option \<times> bool) list \<Rightarrow> ('p, 'k, 'm) proxy_state \<Rightarrow>
   (body_result list \<times> settlement list) \<times> ('p, 'k, 'm) proxy_state"
where
  "run_bodies X [] st = (([], []), st)"
| "run_bodies X ((now, body, end_of_stream) # calls) st =
     (let ((r, as, s), st1) = response_body_filter X now body end_of_stream st in
      if r = Torn then (([Torn], opt_list s), st1)
      else (let ((rs, ss), st2) = run_bodies X calls st1 in ((r # rs, opt_list s @ ss), st2)))"

text \<open>The response heads, the chunks, and \<open>logging\<close>, which runs at the end of every request.\<close>

definition run_response ::
  "('p, 'v, 'k, 'm, 'i) proxy_env \<Rightarrow> response_head list \<Rightarrow> (u64 \<times> string option \<times> bool) list \<Rightarrow>
   u64 \<Rightarrow> error_source option \<Rightarrow> ('p, 'k, 'm) proxy_state \<Rightarrow> (body_result list \<times> settlement list) \<times> ('p, 'k, 'm) proxy_state"
where
  "run_response X heads calls now err = (\<lambda>(ctx, gw).
     let ((rs, ss), st1) = run_bodies X calls (fold upstream_response_filter heads ctx, gw);
         (s, st2) = logging X now err st1
     in ((rs, ss @ opt_list s), st2))"

section \<open>What the steps leave alone\<close>

lemma fold_keeps: "(\<And>e c. f (g e c) = f c) \<Longrightarrow> f (fold g es c) = f c"
  by (induction es arbitrary: c) simp_all

lemma meter_event_frame [simp]:
  "rc_route (meter_event e ctx) = rc_route ctx" "rc_proxying (meter_event e ctx) = rc_proxying ctx"
  "rc_settled (meter_event e ctx) = rc_settled ctx" "rc_cut (meter_event e ctx) = rc_cut ctx"
  "rc_caps (meter_event e ctx) = rc_caps ctx" "rc_tap (meter_event e ctx) = rc_tap ctx"
  "rc_modules (meter_event e ctx) = rc_modules ctx" "rc_adapter (meter_event e ctx) = rc_adapter ctx"
  "rc_last_metered_est (meter_event e ctx) = rc_last_metered_est ctx"
  "rc_cut_streaming (meter_event e ctx) = rc_cut_streaming ctx"
  "rc_cap_cut_streaming (meter_event e ctx) = rc_cap_cut_streaming ctx"
  "rc_wasm_per_event (meter_event e ctx) = rc_wasm_per_event ctx"
  "rc_meter (meter_event e ctx) = observe e (rc_meter ctx)"
  by (simp_all add: meter_event_def)

lemma finish_event_frame [simp]:
  "rc_route (finish_event e ctx) = rc_route ctx" "rc_proxying (finish_event e ctx) = rc_proxying ctx"
  "rc_settled (finish_event e ctx) = rc_settled ctx" "rc_cut (finish_event e ctx) = rc_cut ctx"
  "rc_caps (finish_event e ctx) = rc_caps ctx" "rc_tap (finish_event e ctx) = rc_tap ctx"
  "rc_modules (finish_event e ctx) = rc_modules ctx"
  by (simp_all add: finish_event_def split: event.splits)

lemma fold_meter_event [simp]:
  "rc_route (fold meter_event es ctx) = rc_route ctx" "rc_proxying (fold meter_event es ctx) = rc_proxying ctx"
  "rc_settled (fold meter_event es ctx) = rc_settled ctx" "rc_cut (fold meter_event es ctx) = rc_cut ctx"
  "rc_caps (fold meter_event es ctx) = rc_caps ctx" "rc_tap (fold meter_event es ctx) = rc_tap ctx"
  "rc_modules (fold meter_event es ctx) = rc_modules ctx" "rc_adapter (fold meter_event es ctx) = rc_adapter ctx"
  "rc_last_metered_est (fold meter_event es ctx) = rc_last_metered_est ctx"
  "rc_cut_streaming (fold meter_event es ctx) = rc_cut_streaming ctx"
  "rc_cap_cut_streaming (fold meter_event es ctx) = rc_cap_cut_streaming ctx"
  "rc_meter (fold meter_event es ctx) = fold observe es (rc_meter ctx)"
  by (simp_all add: fold_keeps) (induction es arbitrary: ctx, simp_all)

lemma drain_tap_frame [simp]:
  "rc_route (drain_tap J ctx) = rc_route ctx" "rc_proxying (drain_tap J ctx) = rc_proxying ctx"
  "rc_settled (drain_tap J ctx) = rc_settled ctx" "rc_cut (drain_tap J ctx) = rc_cut ctx"
  "rc_caps (drain_tap J ctx) = rc_caps ctx" "rc_tap (drain_tap J ctx) = rc_tap ctx"
  by (simp_all add: drain_tap_def fold_keeps split: option.splits)

lemma fst_fold_observe_event: "fst (fold (observe_event X) es (ctx, r)) = fold meter_event es ctx"
  by (induction es arbitrary: ctx r) (simp_all add: observe_event_def Let_def)

definition tapped :: "('p, 'v, 'k, 'm, 'i) proxy_env \<Rightarrow> string option \<Rightarrow> stream_adapter option \<Rightarrow> event list" where
  "tapped X body a = (case body of
     Some chunk \<Rightarrow> if chunk = [] then [] else (case a of Some a \<Rightarrow> fst (adapter_feed X a chunk) | None \<Rightarrow> [])
   | None \<Rightarrow> [])"

lemma tap_chunk_frame:
  assumes "tap_chunk X body ctx = (ctx', reason)"
  shows "rc_route ctx' = rc_route ctx" "rc_proxying ctx' = rc_proxying ctx" "rc_settled ctx' = rc_settled ctx"
    "rc_cut ctx' = rc_cut ctx" "rc_caps ctx' = rc_caps ctx" "rc_tap ctx' = rc_tap ctx"
    "rc_last_metered_est ctx' = rc_last_metered_est ctx" "rc_cut_streaming ctx' = rc_cut_streaming ctx"
    "rc_cap_cut_streaming ctx' = rc_cap_cut_streaming ctx"
    "rc_meter ctx' = fold observe (tapped X body (rc_adapter ctx)) (rc_meter ctx)"
proof -
  have "rc_route ctx' = rc_route ctx \<and> rc_proxying ctx' = rc_proxying ctx \<and> rc_settled ctx' = rc_settled ctx \<and>
    rc_cut ctx' = rc_cut ctx \<and> rc_caps ctx' = rc_caps ctx \<and> rc_tap ctx' = rc_tap ctx \<and>
    rc_last_metered_est ctx' = rc_last_metered_est ctx \<and> rc_cut_streaming ctx' = rc_cut_streaming ctx \<and>
    rc_cap_cut_streaming ctx' = rc_cap_cut_streaming ctx \<and>
    rc_meter ctx' = fold observe (tapped X body (rc_adapter ctx)) (rc_meter ctx)"
  proof (cases "\<exists>chunk a. body = Some chunk \<and> chunk \<noteq> [] \<and> rc_adapter ctx = Some a")
    case False
    then show ?thesis using assms by (auto simp: tap_chunk_def tapped_def split: option.splits if_splits)
  next
    case True
    then obtain chunk a where b: "body = Some chunk" "chunk \<noteq> []" "rc_adapter ctx = Some a" by blast
    obtain es a' where f: "adapter_feed X a chunk = (es, a')" by force
    let ?c = "ctx\<lparr>rc_body_bytes := rc_body_bytes ctx + length chunk, rc_body_chunks := Suc (rc_body_chunks ctx)\<rparr>"
    have "ctx' = (fst (fold (observe_event X) es (?c, None)))\<lparr>rc_adapter := Some a'\<rparr>"
      using assms b f by (simp add: tap_chunk_def Let_def split: prod.splits)
    then show ?thesis using b f by (simp add: fst_fold_observe_event tapped_def)
  qed
  then show "rc_route ctx' = rc_route ctx" "rc_proxying ctx' = rc_proxying ctx" "rc_settled ctx' = rc_settled ctx"
    "rc_cut ctx' = rc_cut ctx" "rc_caps ctx' = rc_caps ctx" "rc_tap ctx' = rc_tap ctx"
    "rc_last_metered_est ctx' = rc_last_metered_est ctx" "rc_cut_streaming ctx' = rc_cut_streaming ctx"
    "rc_cap_cut_streaming ctx' = rc_cap_cut_streaming ctx"
    "rc_meter ctx' = fold observe (tapped X body (rc_adapter ctx)) (rc_meter ctx)" by auto
qed

lemma wasm_cut_cases:
  assumes "wasm_cut crc rb reason body ctx = (body', ctx')"
  obtains (kept) "body' = body" "ctx' = ctx" "reason = None \<or> rc_cut ctx"
  | (wasm) r where "reason = Some r" "\<not> rc_cut ctx" "ctx' = ctx\<lparr>rc_cut := True\<rparr>"
      "body' = Some (render_wasm_cut crc (rc_cut_streaming ctx) (rb_kind rb) r (rb_prefix rb))"
  using assms by (auto simp: wasm_cut_def split: option.splits if_splits)

lemma cap_cut_cases:
  assumes "cap_cut X now rb body ctx b = (body', as, ctx', b')"
  obtains (idle) "body' = body" "ctx' = ctx" "b' = b" "rc_caps ctx = [] \<or> rc_cut ctx"
  | (charged) "\<not> rc_cut ctx" "body' = body"
      "ctx' = ctx\<lparr>rc_last_metered_est := estimated_output_tokens (rc_meter ctx)\<rparr>" "rc_caps ctx \<noteq> []"
      "charge_caps_and_cut (px_cal X) (px_crc X) (rc_caps ctx)
         (sat_sub (estimated_output_tokens (rc_meter ctx)) (rc_last_metered_est ctx))
         (rc_cap_cut_streaming ctx) (rb_kind rb) (rb_prefix rb) now b = (None, as, b')"
  | (cut) i cap spent where "\<not> rc_cut ctx"
      "ctx' = ctx\<lparr>rc_last_metered_est := estimated_output_tokens (rc_meter ctx), rc_cut := True\<rparr>"
      "body' = Some (render_cut_event (px_crc X) (rc_cap_cut_streaming ctx) (rb_kind rb) i cap spent (rb_prefix rb))"
proof (cases "rc_caps ctx = [] \<or> rc_cut ctx")
  case True
  with assms show ?thesis by (intro idle) (auto simp: cap_cut_def)
next
  case False
  obtain t as1 b1 where c: "charge_caps_and_cut (px_cal X) (px_crc X) (rc_caps ctx)
         (sat_sub (estimated_output_tokens (rc_meter ctx)) (rc_last_metered_est ctx))
         (rc_cap_cut_streaming ctx) (rb_kind rb) (rb_prefix rb) now b = (t, as1, b1)" by (metis prod_cases3)
  show ?thesis
  proof (cases t)
    case None
    with c False assms show ?thesis by (intro charged) (auto simp: cap_cut_def Let_def)
  next
    case (Some m)
    then obtain i cap spent where
      "m = render_cut_event (px_crc X) (rc_cap_cut_streaming ctx) (rb_kind rb) i cap spent (rb_prefix rb)"
      using c by (auto simp: charge_caps_and_cut_def split: if_splits prod.splits option.splits)
    with Some c False assms show ?thesis by (intro cut) (auto simp: cap_cut_def Let_def)
  qed
qed

section \<open>Settling\<close>

lemma settle_caps_frame:
  assumes "settle_caps cal now rpt ctx b = (as, ctx', b')"
  shows "rc_route ctx' = rc_route ctx" "rc_proxying ctx' = rc_proxying ctx" "rc_settled ctx' = rc_settled ctx"
    "rc_cut ctx' = rc_cut ctx"
  using assms by (auto simp: settle_caps_def Let_def split: if_splits option.splits prod.splits)

lemma settle_stream_flow:
  assumes "settle_stream X now abort (ctx, gw) = (s, ctx', gw')"
  shows "s \<noteq> None \<longleftrightarrow> \<not> rc_settled ctx \<and> rc_proxying ctx \<and> rc_route ctx \<noteq> None"
    "rc_settled ctx' \<longleftrightarrow> rc_settled ctx \<or> s \<noteq> None"
    "rc_route ctx' = rc_route ctx" "rc_proxying ctx' = rc_proxying ctx" "rc_cut ctx' = rc_cut ctx"
  using assms by (auto simp: settle_stream_def Let_def split: if_splits prod.splits dest: settle_caps_frame)

section \<open>One call of the body filter\<close>

lemma body_filter_cases:
  assumes "response_body_filter X now body eos (ctx, gw) = ((r, as, s), ctx', gw')" "rc_route ctx = Some rb"
  obtains (torn) "rc_cut ctx" "\<not> eos" "r = Torn" "s = None" "ctx' = ctx" "gw' = gw"
  | (fed) reason body1 body2 c1 c2 c3 b where "\<not> rc_cut ctx \<or> eos" "tap_chunk X body ctx = (c1, reason)"
      "wasm_cut (px_crc X) rb reason body c1 = (body1, c2)"
      "cap_cut X now rb body1 c2 (gw_budgets gw) = (body2, as, c3, b)"
      "r = Passed (if rc_cut ctx \<and> eos then None else body2)"
      "(s, ctx', gw') = (if eos then settle_stream X now None (c3, gw\<lparr>gw_budgets := b\<rparr>)
         else (None, c3, gw\<lparr>gw_budgets := b\<rparr>))"
  using assms by (auto simp: response_body_filter_def Let_def split: if_splits prod.splits)

lemma cuts_frame:
  assumes "wasm_cut crc rb reason body c1 = (body1, c2)" "cap_cut X now rb body1 c2 b = (body2, as, c3, b')"
  shows "rc_route c3 = rc_route c1 \<and> rc_proxying c3 = rc_proxying c1 \<and> rc_settled c3 = rc_settled c1 \<and>
     rc_caps c3 = rc_caps c1 \<and> rc_tap c3 = rc_tap c1 \<and> rc_meter c3 = rc_meter c1 \<and> rc_adapter c3 = rc_adapter c1 \<and>
     rc_cut_streaming c3 = rc_cut_streaming c1 \<and> rc_cap_cut_streaming c3 = rc_cap_cut_streaming c1"
  using assms(1) by (cases rule: wasm_cut_cases) (cases rule: cap_cut_cases [OF assms(2)]; simp)+

lemma body_filter_flow:
  assumes "response_body_filter X now body eos (ctx, gw) = ((r, as, s), ctx', gw')"
  shows "rc_route ctx' = rc_route ctx" "rc_proxying ctx' = rc_proxying ctx"
    "s \<noteq> None \<longleftrightarrow> eos \<and> \<not> rc_settled ctx \<and> rc_proxying ctx \<and> rc_route ctx \<noteq> None"
    "rc_settled ctx' \<longleftrightarrow> rc_settled ctx \<or> s \<noteq> None"
proof -
  have "rc_route ctx' = rc_route ctx \<and> rc_proxying ctx' = rc_proxying ctx \<and>
    (s \<noteq> None \<longleftrightarrow> eos \<and> \<not> rc_settled ctx \<and> rc_proxying ctx \<and> rc_route ctx \<noteq> None) \<and>
    (rc_settled ctx' \<longleftrightarrow> rc_settled ctx \<or> s \<noteq> None)"
  proof (cases "rc_route ctx")
    case None
    then show ?thesis using assms by (auto simp: response_body_filter_def)
  next
    case (Some rb)
    from assms Some show ?thesis
    proof (cases rule: body_filter_cases)
      case (fed reason body1 body2 c1 c2 c3 b)
      note f = tap_chunk_frame [OF fed(2)] cuts_frame [OF fed(3,4)]
      show ?thesis
      proof (cases eos)
        case False
        then show ?thesis using fed(6) f by simp
      next
        case True
        then have "settle_stream X now None (c3, gw\<lparr>gw_budgets := b\<rparr>) = (s, ctx', gw')" using fed(6) by simp
        from settle_stream_flow [OF this] show ?thesis using True f by auto
      qed
    qed auto
  qed
  then show "rc_route ctx' = rc_route ctx" "rc_proxying ctx' = rc_proxying ctx"
    "s \<noteq> None \<longleftrightarrow> eos \<and> \<not> rc_settled ctx \<and> rc_proxying ctx \<and> rc_route ctx \<noteq> None"
    "rc_settled ctx' \<longleftrightarrow> rc_settled ctx \<or> s \<noteq> None" by auto
qed

text \<open>What the client may be shown in place of a chunk: a terminal event in the operator's words.\<close>

definition terminal_of :: "crc32 \<Rightarrow> ('p, 'k, 'm) req_ctx \<Rightarrow> route_binding \<Rightarrow> string \<Rightarrow> bool" where
  "terminal_of crc ctx rb m \<longleftrightarrow>
     (\<exists>r. m = render_wasm_cut crc (rc_cut_streaming ctx) (rb_kind rb) r (rb_prefix rb)) \<or>
     (\<exists>i cap spent. m = render_cut_event crc (rc_cap_cut_streaming ctx) (rb_kind rb) i cap spent (rb_prefix rb))"

lemma settle_stream_templates:
  assumes "settle_stream X now abort (ctx, gw) = (s, ctx', gw')"
  shows "rc_cut_streaming ctx' = rc_cut_streaming ctx \<and> rc_cap_cut_streaming ctx' = rc_cap_cut_streaming ctx"
proof -
  have 1: "rc_cut_streaming (finish_event e c) = rc_cut_streaming c \<and>
      rc_cap_cut_streaming (finish_event e c) = rc_cap_cut_streaming c" for e and c :: "('a, 'b, 'c) req_ctx"
    by (simp add: finish_event_def split: event.splits)
  have 2: "rc_cut_streaming (drain_tap J c) = rc_cut_streaming c \<and>
      rc_cap_cut_streaming (drain_tap J c) = rc_cap_cut_streaming c" for J and c :: "('a, 'b, 'c) req_ctx"
    using 1 by (auto simp: drain_tap_def fold_keeps split: option.splits)
  have 3: "rc_cut_streaming c' = rc_cut_streaming c \<and> rc_cap_cut_streaming c' = rc_cap_cut_streaming c"
    if "settle_caps cal now rpt c b = (as, c', b')"
    for cal now rpt b as b' and c :: "('a, 'b, 'c) req_ctx" and c'
    using that by (auto simp: settle_caps_def Let_def split: if_splits option.splits prod.splits)
  show ?thesis
    using assms 2 by (auto simp: settle_stream_def Let_def split: if_splits prod.splits dest: 3)
qed

lemma body_filter_shown:
  assumes "response_body_filter X now body eos (ctx, gw) = ((r, as, s), ctx', gw')" "rc_route ctx = Some rb"
  shows "rc_cut_streaming ctx' = rc_cut_streaming ctx \<and> rc_cap_cut_streaming ctx' = rc_cap_cut_streaming ctx"
    "rc_cut ctx \<Longrightarrow> rc_cut ctx' \<and> r \<in> {Torn, Passed None}"
    "\<not> rc_cut ctx \<Longrightarrow> \<not> rc_cut ctx' \<Longrightarrow> r = Passed body"
    "\<not> rc_cut ctx \<Longrightarrow> rc_cut ctx' \<Longrightarrow> \<exists>m. r = Passed (Some m) \<and> terminal_of (px_crc X) ctx rb m"
proof -
  have "rc_cut_streaming ctx' = rc_cut_streaming ctx \<and> rc_cap_cut_streaming ctx' = rc_cap_cut_streaming ctx \<and>
    (rc_cut ctx \<longrightarrow> rc_cut ctx' \<and> r \<in> {Torn, Passed None}) \<and>
    (\<not> rc_cut ctx \<longrightarrow> \<not> rc_cut ctx' \<longrightarrow> r = Passed body) \<and>
    (\<not> rc_cut ctx \<longrightarrow> rc_cut ctx' \<longrightarrow> (\<exists>m. r = Passed (Some m) \<and> terminal_of (px_crc X) ctx rb m))"
    using assms
  proof (cases rule: body_filter_cases)
    case (fed reason body1 body2 c1 c2 c3 b)
    note f = tap_chunk_frame [OF fed(2)]
    have end_: "rc_cut ctx' = rc_cut c3 \<and> rc_cut_streaming ctx' = rc_cut_streaming c3 \<and>
        rc_cap_cut_streaming ctx' = rc_cap_cut_streaming c3"
    proof (cases eos)
      case True
      then have "settle_stream X now None (c3, gw\<lparr>gw_budgets := b\<rparr>) = (s, ctx', gw')" using fed(6) by simp
      then show ?thesis using settle_stream_flow(5) settle_stream_templates by blast
    qed (use fed(6) in simp)
    have mid: "(rc_cut c1 \<longrightarrow> rc_cut c3) \<and> (\<not> rc_cut c3 \<longrightarrow> body2 = body) \<and>
        (\<not> rc_cut c1 \<longrightarrow> rc_cut c3 \<longrightarrow> (\<exists>m. body2 = Some m \<and> terminal_of (px_crc X) c1 rb m))"
      using fed(3)
      by (cases rule: wasm_cut_cases) (cases rule: cap_cut_cases [OF fed(4)]; auto simp: terminal_of_def)+
    show ?thesis using end_ mid f cuts_frame [OF fed(3,4)] fed(1,5) by (auto simp: terminal_of_def)
  qed auto
  then show "rc_cut_streaming ctx' = rc_cut_streaming ctx \<and> rc_cap_cut_streaming ctx' = rc_cap_cut_streaming ctx"
    "rc_cut ctx \<Longrightarrow> rc_cut ctx' \<and> r \<in> {Torn, Passed None}"
    "\<not> rc_cut ctx \<Longrightarrow> \<not> rc_cut ctx' \<Longrightarrow> r = Passed body"
    "\<not> rc_cut ctx \<Longrightarrow> rc_cut ctx' \<Longrightarrow> \<exists>m. r = Passed (Some m) \<and> terminal_of (px_crc X) ctx rb m" by auto
qed

end
