(* ===== verification/Proxy.thy ===== *)
theory Proxy
  imports ProxyResponse Deployment
begin

text \<open>
  The properties of the proxy as a whole: what a request that is forwarded has passed, what of it
  goes upstream, what its client is shown, and what its spenders are billed; and the concrete
  gateway on which the witnesses run.
\<close>

section \<open>A concrete gateway\<close>

text \<open>An OpenAI route behind a model list, whose provider forces a body field.\<close>

definition gate_json :: json_lib where
  "gate_json = \<lparr>jl_parse = (\<lambda>s. if s = ''bad'' then Inl ''no'' else Inr (JObject [(''model'', JString ''m'')])),
     jl_print = (\<lambda>_. ''{forced}''), jl_show_f64 = (\<lambda>_. [])\<rparr>"

definition gate_env :: "(unit, unit, unit, unit, unit) proxy_env" where
  "gate_env = \<lparr>px_cel = sample_cel, px_json = gate_json, px_jwt = sample_jwt, px_wasm = broken_lib,
     px_net = page_net [], px_aws = page_aws, px_cal = (\<lambda>_. None), px_crc = (\<lambda>_. 0), px_uri = (\<lambda>_. True),
     px_header_ok = (\<lambda>_ _. True), px_show_exchange = (\<lambda>_. [])\<rparr>"

definition gate_provider :: provider where
  "gate_provider = \<lparr>pv_kind = OpenAi, pv_upstream = sample_upstream,
     pv_inject = Some \<lparr>ij_headers = [],
       ij_body = [\<lparr>bf_path = ''user'', bf_value = Bare ''gw'', bf_if_absent = False\<rparr>]\<rparr>,
     pv_auth = None, pv_locations = None, pv_sts = None\<rparr>"

definition gate_cap :: "cap_id \<times> cap_terms" where
  "gate_cap = (CapId ''team'' ''ml'', \<lparr>ct_cap = 100, ct_window = None, ct_alert_fraction = FFin (1 / 2)\<rparr>)"

definition gate_route :: "unit route" where
  "gate_route = sample_route\<lparr>ru_prefix := ''/v1'', ru_provider := ''up'',
     ru_attribution := sample_attribution\<lparr>at_models := Some [''m'']\<rparr>,
     ru_compiled := Some \<lparr>cr_condition = None, cr_effective = sample_policy\<lparr>ep_models := Some [''m'']\<rparr>, cr_apps = []\<rparr>\<rparr>"

definition gate_snapshot :: "(unit, unit) config snapshot" where
  "gate_snapshot = \<lparr>sn_config = sample_config\<lparr>cf_providers := [(''up'', gate_provider)], cf_routes := [gate_route]\<rparr>,
     sn_version = 1, sn_source = [], sn_content_hash = []\<rparr>"

definition gate_request :: incoming where
  "gate_request = \<lparr>in_head = \<lparr>rh_method = ''POST'', rh_headers = [(''x-team'', ''ml'')]\<rparr>,
     in_path = ''/v1/chat'', in_query = None, in_body = Some ''{}''\<rparr>"

definition gate_start :: "(unit, unit, unit) proxy_state" where
  "gate_start = (new_ctx gate_snapshot None 0, \<lparr>gw_sts_cache = [], gw_gcp_tokens = [], gw_budgets = nb_new ''n''\<rparr>)"

lemma gate_match: "match_route (px_cel gate_env) (cf_routes (sn_config gate_snapshot)) ''/v1/chat''
   (request_ctx (in_head gate_request) ''/v1/chat'' None) = Some (Some gate_route)"
  by code_simp

lemma gate_path: "normalize_and_rewrite (px_uri gate_env) (in_path gate_request) (in_query gate_request) = Some (''/v1/chat'', None)"
  by code_simp

lemma gate_resolves: "resolve_with_app_scope (px_cel gate_env) (px_json gate_env) gate_route None
    (caller_attrs (in_head gate_request) (ep_headers sample_policy)) None ctx =
    Some (sample_policy\<lparr>ep_models := Some [''m'']\<rparr>, \<lparr>rs_tags = sample_tags ''ml'', rs_missing = []\<rparr>)"
proof -
  have "policy_keys (sample_policy\<lparr>ep_models := Some [''m'']\<rparr>) = [''cost_center'', ''team'']"
    "caller_attrs (in_head gate_request) (ep_headers sample_policy) = [(''team'', ''ml'')]"
    by code_simp+
  then show ?thesis
    by (simp add: resolve_with_app_scope_def route_policy_def gate_route_def resolve_policy_def resolve_def Let_def
      map_filter_simps resolve_key_def sample_policy_def bt_contains_def non_empty_def sample_tags_def)
qed

definition gate_bound :: "unit bound_request" where
  "gate_bound = \<lparr>br_route = gate_route, br_policy = sample_policy\<lparr>ep_models := Some [''m'']\<rparr>,
     br_tags = sample_tags ''ml'', br_caps = [], br_provider = gate_provider, br_method = ''POST'',
     br_path = ''/v1/chat'', br_cel = request_ctx (in_head gate_request) ''/v1/chat'' None, br_body = Some ''{}''\<rparr>"

lemma gate_gates: "case run_gates (map (\<lambda>g. g gate_env 0 gate_bound) gates) gate_start of
     Some (Forwarded, ctx, gw) \<Rightarrow> rc_tags ctx = sample_tags ''ml'' \<and> rc_signed_body ctx = Some ''{}''
   | _ \<Rightarrow> False"
  by code_simp

lemma gate_run: "request_filter gate_env 0 gate_request (fst gate_start, snd gate_start) =
    run_gates (map (\<lambda>g. g gate_env 0 gate_bound) gates) gate_start"
proof -
  have snap: "rc_snapshot (fst gate_start) = gate_snapshot"
    by (simp add: gate_start_def new_ctx_def ctx_bound_def)
  have cfg: "verified_claims J (sn_config gate_snapshot) head now = None" "cf_apps (sn_config gate_snapshot) = None"
    "bt_get (cf_providers (sn_config gate_snapshot)) (ru_provider gate_route) = Some gate_provider" for J head now
    by (simp_all add: gate_snapshot_def verified_claims_def sample_config_def gate_route_def bt_get_def)
  have route: "route_policy gate_route = Some (sample_policy\<lparr>ep_models := Some [''m'']\<rparr>)"
    by (simp add: gate_route_def route_policy_def)
  have caps: "admit_caps cal (sample_policy\<lparr>ep_models := Some [''m'']\<rparr>) now ts b = (Inr [], b)" for cal now ts b
    by (induction ts) (simp_all add: policy_terms_for_def sample_policy_def bt_get_def)
  have headers: "ep_headers (sample_policy\<lparr>ep_models := Some [''m'']\<rparr>) = ep_headers sample_policy" by simp
  show ?thesis
    by (simp add: request_filter_def snap gate_path cfg gate_match route headers gate_resolves rs_ok_def caps Let_def
        gate_bound_def) (simp add: gate_request_def)
qed

section \<open>A request that is forwarded\<close>

text \<open>What the response half starts from; no gate touches it.\<close>

definition response_state :: "('p, 'k, 'm) req_ctx \<Rightarrow> token_meter \<times> u64 \<times> bool \<times> bool \<times> bool" where
  "response_state ctx =
     (rc_meter ctx, rc_last_metered_est ctx, rc_cut ctx, rc_proxying ctx, rc_settled ctx)"

lemma gate_keeps:
  "labels_gate X now br (ctx, gw) = Some (o', ctx', gw') \<Longrightarrow> response_state ctx' = response_state ctx"
  "sts_gate X now br (ctx, gw) = Some (o', ctx', gw') \<Longrightarrow> response_state ctx' = response_state ctx"
  "location_gate X now br (ctx, gw) = Some (o', ctx', gw') \<Longrightarrow> response_state ctx' = response_state ctx"
  "bearer_gate X now br (ctx, gw) = Some (o', ctx', gw') \<Longrightarrow> response_state ctx' = response_state ctx"
  "injection_gate X now br (ctx, gw) = Some (o', ctx', gw') \<Longrightarrow> response_state ctx' = response_state ctx"
  "path_model_gate X now br (ctx, gw) = Some (o', ctx', gw') \<Longrightarrow> response_state ctx' = response_state ctx"
  "body_gate X now br (ctx, gw) = Some (o', ctx', gw') \<Longrightarrow> response_state ctx' = response_state ctx"
  "bind_gate X now br (ctx, gw) = Some (o', ctx', gw') \<Longrightarrow> response_state ctx' = response_state ctx"
  "wasm_gate X now br (ctx, gw) = Some (o', ctx', gw') \<Longrightarrow> response_state ctx' = response_state ctx"
  subgoal by (auto simp: labels_gate_def refuse_def response_state_def split: if_splits sum.splits)
  subgoal by (auto simp: sts_gate_def refuse_def response_state_def
      split: option.splits sum.splits prod.splits gb7_failure.splits)
  subgoal by (auto simp: location_gate_def refuse_def response_state_def split: option.splits if_splits)
  subgoal by (auto simp: bearer_gate_def response_state_def split: option.splits sum.splits prod.splits)
  subgoal by (auto simp: injection_gate_def refuse_def response_state_def split: option.splits sum.splits prod.splits)
  subgoal by (auto simp: path_model_gate_def Let_def refuse_model_def refuse_def split: option.splits if_splits)
  subgoal by (auto simp: body_gate_def refuse_model_def refuse_def response_state_def
      split: option.splits sum.splits if_splits)
  subgoal by (auto simp: bind_gate_def response_state_def)
  subgoal by (auto simp: wasm_gate_def refuse_def response_state_def split: option.splits on_request_action.splits)
  done

lemma gates_keep:
  assumes "g \<in> set gates" "g X now br (ctx, gw) = Some (o', ctx', gw')"
  shows "response_state ctx' = response_state ctx"
proof -
  from assms(1) consider "g = labels_gate" | "g = sts_gate" | "g = location_gate" | "g = bearer_gate" | "g = injection_gate"
    | "g = path_model_gate" | "g = body_gate" | "g = bind_gate" | "g = wasm_gate"
    by (auto simp: gates_def)
  then show ?thesis using assms(2) by cases (simp_all add: gate_keeps)
qed

lemma run_gates_keep:
  assumes "run_gates gs st = Some (o', st')" "\<And>g u o' u'. g \<in> set gs \<Longrightarrow> g u = Some (o', u') \<Longrightarrow> f u' = f u"
  shows "f st' = f st"
  using assms
proof (induction gs arbitrary: st)
  case (Cons g gs)
  from Cons.prems(1) consider "g st = Some (Some o', st')" | u where "g st = Some (None, u)" "run_gates gs u = Some (o', st')"
    by (auto split: option.splits prod.splits)
  then show ?case
  proof cases
    case (2 u)
    then show ?thesis using Cons.IH [of u] Cons.prems(2) by (metis list.set_intros)
  qed (use Cons.prems(2) in auto)
qed simp

lemma request_filter_keeps:
  assumes "request_filter X now req (ctx, gw) = Some (o', ctx', gw')"
  shows "response_state ctx' = response_state ctx"
proof -
  have step: "(response_state \<circ> fst) u' = (response_state \<circ> fst) u"
    if "h \<in> set (map (\<lambda>g. g X now br) gates)" "h u = Some (out, u')" for h br u out u'
  proof -
    from that(1) obtain g where "g \<in> set gates" "h = g X now br" by auto
    then show ?thesis using gates_keep [of g X now br "fst u" "snd u" out "fst u'" "snd u'"] that(2) by simp
  qed
  have "response_state (fst st') = response_state (fst st)"
    if "run_gates (map (\<lambda>g. g X now br) gates) st = Some (out, st')" for br st st' out
    using run_gates_keep [OF that, where f = "response_state \<circ> fst"] step by simp
  then show ?thesis using assms
    by (fastforce simp: request_filter_def Let_def split: option.splits prod.splits sum.splits if_splits)
qed

lemma request_filter_forwarded:
  fixes req X now
  defines "head \<equiv> in_head req"
  assumes "request_filter X now req (ctx, gw) = Some (Forwarded, ctx', gw')"
  obtains path q route policy res caps b provider claims cel br where
    "normalize_and_rewrite (px_uri X) (in_path req) (in_query req) = Some (path, q)"
    "claims = verified_claims (px_jwt X) (sn_config (rc_snapshot ctx)) head now"
    "cel = request_ctx head path claims"
    "match_route (px_cel X) (cf_routes (sn_config (rc_snapshot ctx))) path cel = Some (Some route)"
    "\<exists>base. route_policy route = Some base \<and>
       resolve_with_app_scope (px_cel X) (px_json X) route (cf_apps (sn_config (rc_snapshot ctx)))
         (caller_attrs head (ep_headers base)) claims cel = Some (policy, res)"
    "rs_ok res" "admit_caps (px_cal X) policy now (rs_tags res) (gw_budgets gw) = (Inr caps, b)"
    "bt_get (cf_providers (sn_config (rc_snapshot ctx))) (ru_provider route) = Some provider"
    "br = \<lparr>br_route = route, br_policy = policy, br_tags = rs_tags res, br_caps = caps, br_provider = provider,
       br_method = rh_method head, br_path = path, br_cel = cel, br_body = in_body req\<rparr>"
    "run_gates (map (\<lambda>g. g X now br) gates) (ctx, gw\<lparr>gw_budgets := b\<rparr>) = Some (Forwarded, ctx', gw')"
  using assms(2)
  by (auto simp: request_filter_def head_def Let_def split: option.splits prod.splits sum.splits if_splits)

section \<open>The spenders of a request that is admitted\<close>

lemma admit_entry:
  "nb_wf b \<Longrightarrow> admit cal i terms now b = (v, b') \<Longrightarrow>
     nb_wf b' \<and> nb_partitioned b' = nb_partitioned b \<and>
     (\<exists>e. bt_get (nb_inner b') i = Some e \<and>
        v = (if nb_partitioned b then check_partitioned (ne_budget e) 1 else check (ne_budget e) 1)) \<and>
     (\<forall>j. j \<noteq> i \<longrightarrow> bt_get (nb_inner b') j = bt_get (nb_inner b) j)"
  by (auto simp: admit_def Let_def intro: wf_intros)

text \<open>A spender that has room for one more token: under its cap, and under the share the node holds
  when it is cut off from the control plane.\<close>

definition has_room :: "node_budgets \<Rightarrow> cap_id \<Rightarrow> bool" where
  "has_room b i \<longleftrightarrow> (\<exists>cap share spent. nb_snapshot i b = Some (cap, share, spent) \<and>
     (case cap of None \<Rightarrow> True | Some c \<Rightarrow> sat_add spent 1 \<le> (if nb_partitioned b then min share c else c)))"

lemma admitted_has_room:
  assumes "(if nb_partitioned b then check_partitioned (ne_budget e) 1 else check (ne_budget e) 1) = v"
    "\<forall>c. v \<noteq> Deny c" "bt_get (nb_inner b) i = Some e"
  shows "has_room b i"
  using assms
  by (auto simp: has_room_def nb_snapshot_def check_def check_partitioned_def Let_def not_less
      split: option.splits if_splits)

lemma admit_keeps_room:
  assumes "nb_wf b" "admit cal i (Some terms) now b = (v, b')" "\<forall>c. v \<noteq> Deny c"
  shows "has_room b' i" "has_room b j \<Longrightarrow> has_room b' j"
proof -
  note e = admit_entry [OF assms(1,2)]
  then show room: "has_room b' i" using admitted_has_room assms(3) by metis
  show "has_room b' j" if "has_room b j"
  proof (cases "j = i")
    case False
    then have "nb_snapshot j b' = nb_snapshot j b" "nb_partitioned b' = nb_partitioned b"
      using e by (simp_all add: nb_snapshot_def)
    then show ?thesis using that by (simp only: has_room_def)
  qed (use room in simp)
qed

lemma admit_caps_admits:
  "nb_wf b \<Longrightarrow> admit_caps cal policy now tags b = (Inr caps, b') \<Longrightarrow>
     nb_wf b' \<and> (\<forall>j. has_room b j \<longrightarrow> has_room b' j) \<and>
     (\<forall>t \<in> set tags. \<forall>terms. policy_terms_for policy (tg_key t) (tg_value t) = Some terms \<longrightarrow>
        (CapId (tg_key t) (tg_value t), terms) \<in> set caps \<and> has_room b' (CapId (tg_key t) (tg_value t)))"
proof (induction tags arbitrary: b caps)
  case (Cons tag tags)
  let ?i = "CapId (tg_key tag) (tg_value tag)"
  show ?case
  proof (cases "policy_terms_for policy (tg_key tag) (tg_value tag)")
    case None
    then show ?thesis using Cons by simp
  next
    case (Some terms)
    obtain v b1 where a: "admit cal ?i (Some terms) now b = (v, b1)" by force
    from Cons.prems(2) Some a obtain caps1 where ok: "\<forall>c. v \<noteq> Deny c" "caps = (?i, terms) # caps1"
      "admit_caps cal policy now tags b1 = (Inr caps1, b')"
      by (cases v) (auto simp: Let_def split: sum.splits prod.splits)
    have wf1: "nb_wf b1" using admit_entry [OF Cons.prems(1) a] by simp
    from Cons.IH [OF wf1 ok(3)] admit_keeps_room [OF Cons.prems(1) a ok(1)] show ?thesis
      using Some ok(2) by auto
  qed
qed simp

section \<open>Headers\<close>

text \<open>Every value a header carries upstream.\<close>

definition sent :: "string \<Rightarrow> upstream_head \<Rightarrow> string list" where
  "sent name h = map snd (filter (\<lambda>(n, _). n = to_ascii_lowercase name) (uh_headers h))"

definition same_target :: "upstream_head \<Rightarrow> upstream_head \<Rightarrow> bool" where
  "same_target h h' \<longleftrightarrow> uh_method h' = uh_method h \<and> uh_path h' = uh_path h \<and> uh_query h' = uh_query h"

lemma sent_remove [simp]:
  "sent name (remove_header n h) = (if to_ascii_lowercase n = to_ascii_lowercase name then [] else sent name h)"
  by (auto simp: sent_def remove_header_def filter_empty_conv intro!: arg_cong [where f = "map snd"] filter_cong)

lemma target_remove [simp]: "same_target h (remove_header n h') = same_target h h'"
  by (simp add: same_target_def remove_header_def)

lemma insert_header_sent:
  assumes "insert_header ok n v h = Some h'"
  shows "sent name h' = (if to_ascii_lowercase n = to_ascii_lowercase name then [v] else sent name h)" "same_target h h'"
proof -
  have h': "h' = (remove_header n h)\<lparr>uh_headers := uh_headers (remove_header n h) @ [(to_ascii_lowercase n, v)]\<rparr>"
    using assms by (simp add: insert_header_def split: if_splits)
  then have "sent name h' = sent name (remove_header n h) @ (if to_ascii_lowercase n = to_ascii_lowercase name then [v] else [])"
    by (simp add: sent_def)
  then show "sent name h' = (if to_ascii_lowercase n = to_ascii_lowercase name then [v] else sent name h)" by simp
  show "same_target h h'" by (simp add: h' same_target_def remove_header_def)
qed

text \<open>The values written under a name: the last one stands.\<close>

definition written :: "string \<Rightarrow> (string \<times> string) list \<Rightarrow> string list" where
  "written name hs = map snd (filter (\<lambda>(n, _). to_ascii_lowercase n = to_ascii_lowercase name) hs)"

lemma insert_headers_sent:
  "insert_headers ok hs h = Some h' \<Longrightarrow>
     sent name h' = (if written name hs = [] then sent name h else [last (written name hs)]) \<and> same_target h h'"
proof (induction hs arbitrary: h)
  case (Cons x hs)
  obtain n v where x: "x = (n, v)" by force
  from Cons.prems obtain h1 where h1: "insert_header ok n v h = Some h1" "insert_headers ok hs h1 = Some h'"
    by (auto simp: x split: bind_splits)
  from Cons.IH [OF h1(2)] insert_header_sent [OF h1(1)] show ?case
    by (auto simp: x written_def same_target_def)
qed (simp add: written_def same_target_def)

lemma sent_fold_remove:
  "sent name (fold remove_header ns h) = (if to_ascii_lowercase name \<in> to_ascii_lowercase ` set ns then [] else sent name h)"
  by (induction ns arbitrary: h) auto

section \<open>What the gates and the edits guarantee\<close>

text \<open>Property C1. A request that the gateway forwards has passed every gate, in the policy of the route
  it matched: its path was normalised; no required attribution is missing, and the tags it carries
  are the resolved ones; every tag the policy caps is billed, to a spender that has room for
  another token; a model the policy allows is named where the provider reads it, in the path or in
  the body, which is then sent as it was checked; the location is one of the provider's, and the
  request goes to the host of that location; and no module of the set bound to it objected.\<close>

theorem forwarded_request_passed_every_gate:
  assumes "request_filter X now req (ctx, gw) = Some (Forwarded, ctx', gw')" "nb_wf (gw_budgets gw)"
  shows "\<exists>path q claims cel route base policy res provider.
    normalize_and_rewrite (px_uri X) (in_path req) (in_query req) = Some (path, q) \<and>
    claims = verified_claims (px_jwt X) (sn_config (rc_snapshot ctx)) (in_head req) now \<and>
    cel = request_ctx (in_head req) path claims \<and>
    match_route (px_cel X) (cf_routes (sn_config (rc_snapshot ctx))) path cel = Some (Some route) \<and>
    bt_get (cf_providers (sn_config (rc_snapshot ctx))) (ru_provider route) = Some provider \<and>
    route_policy route = Some base \<and>
    resolve_with_app_scope (px_cel X) (px_json X) route (cf_apps (sn_config (rc_snapshot ctx)))
      (caller_attrs (in_head req) (ep_headers base)) claims cel = Some (policy, res) \<and>
    rs_missing res = [] \<and> rc_tags ctx' = rs_tags res \<and>
    (\<forall>t \<in> set (rs_tags res). \<forall>terms. policy_terms_for policy (tg_key t) (tg_value t) = Some terms \<longrightarrow>
       (CapId (tg_key t) (tg_value t), terms) \<in> set (rc_caps ctx') \<and>
       has_room (gw_budgets gw') (CapId (tg_key t) (tg_value t))) \<and>
    (\<forall>allow. ep_models policy = Some allow \<longrightarrow> (\<exists>m. model_allowed allow m \<and>
       (if pv_kind provider \<in> {Bedrock, Vertex} then model_from_path (pv_kind provider) path = Some m
        else \<exists>body. in_body req = Some body \<and> model_from_body (px_json X) body = Some m \<and>
          rc_signed_body ctx' = Some body))) \<and>
    (\<forall>locs. pv_locations provider = Some locs \<longrightarrow> (\<exists>loc \<in> set locs. vertex_path_location path = Some loc \<and>
       rc_vertex_host ctx' = Some (derive_vertex_host loc (up_host (pv_upstream provider))))) \<and>
    modules_agreed (px_wasm X) (rc_modules ctx)
      (build_request_view (rh_method (in_head req)) path (ec_headers cel) (rs_tags res))"
proof -
  from request_filter_forwarded [OF assms(1)] obtain path q route policy res caps b provider claims cel br base where
    r: "normalize_and_rewrite (px_uri X) (in_path req) (in_query req) = Some (path, q)"
      "claims = verified_claims (px_jwt X) (sn_config (rc_snapshot ctx)) (in_head req) now"
      "cel = request_ctx (in_head req) path claims"
      "match_route (px_cel X) (cf_routes (sn_config (rc_snapshot ctx))) path cel = Some (Some route)"
      "route_policy route = Some base"
      "resolve_with_app_scope (px_cel X) (px_json X) route (cf_apps (sn_config (rc_snapshot ctx)))
         (caller_attrs (in_head req) (ep_headers base)) claims cel = Some (policy, res)"
      "rs_ok res"
    and caps: "admit_caps (px_cal X) policy now (rs_tags res) (gw_budgets gw) = (Inr caps, b)"
    and prov: "bt_get (cf_providers (sn_config (rc_snapshot ctx))) (ru_provider route) = Some provider"
    and br: "br = \<lparr>br_route = route, br_policy = policy, br_tags = rs_tags res, br_caps = caps,
       br_provider = provider, br_method = rh_method (in_head req), br_path = path, br_cel = cel, br_body = in_body req\<rparr>"
    and run: "run_gates (map (\<lambda>g. g X now br) gates) (ctx, gw\<lparr>gw_budgets := b\<rparr>) = Some (Forwarded, ctx', gw')"
    by metis
  note g = gates_forwarded [OF run, unfolded br, simplified]
  have model: "\<exists>m. model_allowed allow m \<and>
       (if pv_kind provider \<in> {Bedrock, Vertex} then model_from_path (pv_kind provider) path = Some m
        else \<exists>body. in_body req = Some body \<and> model_from_body (px_json X) body = Some m \<and>
          rc_signed_body ctx' = Some body)" if "ep_models policy = Some allow" for allow
    using that g(4) g(5) by (cases "pv_kind provider")
      (auto simp: model_ok_def body_model_gate_def signed_payload_def split: option.splits)
  have loc: "\<exists>loc \<in> set locs. vertex_path_location path = Some loc \<and>
       rc_vertex_host ctx' = Some (derive_vertex_host loc (up_host (pv_upstream provider)))"
    if "pv_locations provider = Some locs" for locs using that g(2) by simp
  have cap: "\<forall>t \<in> set (rs_tags res). \<forall>terms. policy_terms_for policy (tg_key t) (tg_value t) = Some terms \<longrightarrow>
       (CapId (tg_key t) (tg_value t), terms) \<in> set (rc_caps ctx') \<and>
       has_room (gw_budgets gw') (CapId (tg_key t) (tg_value t))"
    using admit_caps_admits [OF assms(2) caps] g(1) by simp
  show ?thesis using r prov g(1,6) model loc cap unfolding rs_ok_def by blast
qed

lemma gate_forwards:
  obtains ctx gw where "request_filter gate_env 0 gate_request (fst gate_start, snd gate_start) = Some (Forwarded, ctx, gw)"
    "rc_tags ctx = sample_tags ''ml''" "rc_signed_body ctx = Some ''{}''"
proof -
  obtain out ctx gw where r: "run_gates (map (\<lambda>g. g gate_env 0 gate_bound) gates) gate_start = Some (out, ctx, gw)"
    using gate_gates by (auto split: option.splits)
  show thesis
    by (rule that [of ctx gw]; use gate_gates r in \<open>cases out; simp add: gate_run [unfolded prod.collapse]\<close>)
qed

lemma gate_wf: "nb_wf (gw_budgets (snd gate_start))"
  by (simp add: gate_start_def nb_wf_new)

theorem forwarded_request_passed_every_gate_witness:
  "\<exists>ctx gw path q. request_filter gate_env 0 gate_request gate_start = Some (Forwarded, ctx, gw) \<and>
     rc_tags ctx = sample_tags ''ml'' \<and> rc_signed_body ctx = Some ''{}'' \<and>
     normalize_and_rewrite (px_uri gate_env) ''/v1/chat'' None = Some (path, q)"
proof -
  obtain ctx gw where f: "request_filter gate_env 0 gate_request (fst gate_start, snd gate_start) = Some (Forwarded, ctx, gw)"
    "rc_tags ctx = sample_tags ''ml''" "rc_signed_body ctx = Some ''{}''" by (rule gate_forwards)
  from forwarded_request_passed_every_gate [OF f(1) gate_wf] obtain path q where
    "normalize_and_rewrite (px_uri gate_env) (in_path gate_request) (in_query gate_request) = Some (path, q)" by blast
  then show ?thesis using f by (auto simp: gate_request_def)
qed

text \<open>The names a request's headers are written under after its attribution.\<close>

definition written_after :: "('p, 'k, 'm) req_ctx \<Rightarrow> string list" where
  "written_after ctx = bt_keys (rc_wasm_header_set ctx) @ rc_wasm_header_remove ctx @ map fst (forced_headers ctx) @
     [''accept-encoding'', ''authorization'', ''host'', ''content-length'', ''transfer-encoding'', ''x-amz-date'',
      ''x-amz-security-token'', ''x-amz-content-sha256'']"

lemma written_Nil:
  assumes "to_ascii_lowercase name \<notin> to_ascii_lowercase ` set (map fst hs)"
  shows "written name hs = []"
proof -
  have "to_ascii_lowercase n \<noteq> to_ascii_lowercase name" if "(n, v) \<in> set hs" for n v
    using assms that by (metis fst_conv image_eqI list.set_map)
  then show ?thesis by (auto simp: written_def filter_empty_conv)
qed

lemma sign_step_writes:
  assumes "sign_step ok A now up ctx h = Some h'"
  obtains "h' = h" | ps where "insert_headers ok ps h = Some h'" "set (map fst ps) \<subseteq> set (written_after ctx)"
proof (cases "rc_aws ctx")
  case None
  then show thesis using assms that(1) by (simp add: sign_step_def)
next
  case (Some signing)
  obtain creds region where c: "signing = (creds, region)" by force
  let ?hash = "sha256_hex A (unwrap_or (rc_signed_body ctx) [])"
  let ?p = "bedrock_sign_params A up region creds now ?hash (forced_headers ctx) h"
  let ?ps = "[(''host'', address up), (''x-amz-date'', sp_timestamp ?p),
    (''x-amz-security-token'', cd_session_token creds), (''x-amz-content-sha256'', ?hash),
    (''authorization'', authorization A ?p (cd_access_key_id creds) (cd_secret_access_key creds))]"
  show thesis
  proof (rule that(2))
    show "insert_headers ok ?ps h = Some h'"
      using assms by (simp only: sign_step_def sign_bedrock_request_def Let_def Some c option.case prod.case)
    show "set (map fst ?ps) \<subseteq> set (written_after ctx)" by (simp add: written_after_def)
  qed
qed

lemma edits_keep_sent:
  assumes "to_ascii_lowercase name \<notin> to_ascii_lowercase ` set (written_after ctx)"
  shows "apply_header_mutations ok (rc_wasm_header_set ctx) (rc_wasm_header_remove ctx) h = Some h' \<Longrightarrow> sent name h' = sent name h"
    "insert_headers ok (operator_inserts up p ctx) h = Some h' \<Longrightarrow> sent name h' = sent name h"
    "frame_body ok ctx h = Some h' \<Longrightarrow> sent name h' = sent name h"
    "sign_step ok A now up ctx h = Some h' \<Longrightarrow> sent name h' = sent name h"
proof -
  note out = written_Nil [of name]
  show "apply_header_mutations ok (rc_wasm_header_set ctx) (rc_wasm_header_remove ctx) h = Some h' \<Longrightarrow> sent name h' = sent name h"
    using assms out [of "rc_wasm_header_set ctx"] insert_headers_sent
    by (fastforce simp: apply_header_mutations_def written_after_def bt_keys_def sent_fold_remove)
  have "written name (operator_inserts up p ctx) = []"
    by (rule out) (use assms in \<open>auto simp: operator_inserts_def written_after_def split: option.splits\<close>)
  then show "insert_headers ok (operator_inserts up p ctx) h = Some h' \<Longrightarrow> sent name h' = sent name h"
    using insert_headers_sent by fastforce
  have names: "to_ascii_lowercase name \<noteq> to_ascii_lowercase n" if "n \<in> set (written_after ctx)" for n
    using assms that by force
  show "frame_body ok ctx h = Some h' \<Longrightarrow> sent name h' = sent name h"
    using names [of "''content-length''"] names [of "''transfer-encoding''"]
    by (auto simp: frame_body_def written_after_def dest!: insert_header_sent(1) [where name = name] split: if_splits option.splits)
  show "sign_step ok A now up ctx h = Some h' \<Longrightarrow> sent name h' = sent name h"
  proof -
    assume "sign_step ok A now up ctx h = Some h'"
    then consider "h' = h" | ps where "insert_headers ok ps h = Some h'"
      "set (map fst ps) \<subseteq> set (written_after ctx)" by (rule sign_step_writes)
    then show ?thesis
    proof cases
      case (2 ps)
      then have "written name ps = []" using assms by (intro out) auto
      then show ?thesis using insert_headers_sent [OF 2(1)] by simp
    qed simp
  qed
qed

lemma bind_Some:
  assumes "Option.bind x f = Some z"
  obtains y where "x = Some y" "f y = Some z"
  using assms by (cases x) simp_all

lemma upstream_steps:
  assumes "upstream_request_filter X now ctx head = Some (Some h, ctx')"
  obtains up h1 h2 h3 h4 where "upstream_of ctx = Some up" "ctx' = ctx\<lparr>rc_proxying := True\<rparr>"
    "apply_attribution (px_header_ok X) (rc_attr_headers ctx) (rc_tags ctx) head = Some h1"
    "apply_header_mutations (px_header_ok X) (rc_wasm_header_set ctx) (rc_wasm_header_remove ctx) h1 = Some h2"
    "insert_headers (px_header_ok X) (operator_inserts up (caller_signed_passthrough ctx h2) ctx) h2 = Some h3"
    "frame_body (px_header_ok X) ctx h3 = Some h4" "sign_step (px_header_ok X) (px_aws X) now up ctx h4 = Some h"
proof -
  obtain up where up: "upstream_of ctx = Some up" using assms by (auto simp: upstream_request_filter_def)
  have edits: "ctx' = ctx\<lparr>rc_proxying := True\<rparr> \<and>
      Option.bind (apply_attribution (px_header_ok X) (rc_attr_headers ctx) (rc_tags ctx) head) (\<lambda>h1.
        Option.bind (apply_header_mutations (px_header_ok X) (rc_wasm_header_set ctx) (rc_wasm_header_remove ctx) h1) (\<lambda>h2.
        Option.bind (insert_headers (px_header_ok X) (operator_inserts up (caller_signed_passthrough ctx h2) ctx) h2) (\<lambda>h3.
        Option.bind (frame_body (px_header_ok X) ctx h3) (sign_step (px_header_ok X) (px_aws X) now up ctx)))) = Some h"
    using assms by (simp add: upstream_request_filter_def up Let_def)
  show thesis
    using edits [THEN conjunct2] edits [THEN conjunct1]
    by (elim bind_Some) (rule that [OF up]; assumption)
qed

text \<open>Property C3. Under a header name the operator gave to an attribution key, and that nothing else
  writes, the upstream is sent exactly what the gateway resolved: the value of the tag of such a key
  (the last when two keys share the name), or no value at all; whatever the caller sent under the
  name is gone.\<close>

theorem upstream_carries_resolved_attribution:
  assumes "upstream_request_filter X now ctx head = Some (Some h, ctx')"
    and "name \<in> set (bt_values (rc_attr_headers ctx))"
    and "to_ascii_lowercase name \<notin> to_ascii_lowercase ` set (written_after ctx)"
  shows "sent name h =
    (let vs = written name (attribution_inserts (rc_attr_headers ctx) (rc_tags ctx)) in if vs = [] then [] else [last vs])"
proof -
  obtain up h1 h2 h3 h4 where st: "apply_attribution (px_header_ok X) (rc_attr_headers ctx) (rc_tags ctx) head = Some h1"
    "apply_header_mutations (px_header_ok X) (rc_wasm_header_set ctx) (rc_wasm_header_remove ctx) h1 = Some h2"
    "insert_headers (px_header_ok X) (operator_inserts up (caller_signed_passthrough ctx h2) ctx) h2 = Some h3"
    "frame_body (px_header_ok X) ctx h3 = Some h4" "sign_step (px_header_ok X) (px_aws X) now up ctx h4 = Some h"
    by (rule upstream_steps [OF assms(1)])
  have "sent name h = sent name h1"
    using edits_keep_sent [OF assms(3)] st(2-5) by metis
  also have "\<dots> = (let vs = written name (attribution_inserts (rc_attr_headers ctx) (rc_tags ctx)) in
      if vs = [] then [] else [last vs])"
    using insert_headers_sent [OF st(1) [unfolded apply_attribution_def], of name] assms(2)
    by (simp add: sent_fold_remove Let_def)
  finally show ?thesis .
qed

definition gate_ctx :: "(unit, unit, unit) req_ctx" where
  "gate_ctx = (ctx_bound gate_snapshot None False)\<lparr>
     rc_route := Some \<lparr>rb_prefix = ''/v1'', rb_provider = ''up'', rb_kind = Bedrock\<rparr>,
     rc_tags := sample_tags ''ml'', rc_attr_headers := [(''team'', ''X-Team'')],
     rc_forced := Some \<lparr>ri_headers = [(''X-Guardrail'', ''g'')], ri_body = []\<rparr>,
     rc_aws := Some (page_creds, ''r''), rc_signed_body := Some ''{}''\<rparr>"

definition gate_head :: upstream_head where
  "gate_head = \<lparr>uh_method = ''POST'', uh_path = ''/v1/chat'', uh_query = None,
     uh_headers = [(''x-team'', ''intruder''), (''authorization'', ''theirs''), (''x-guardrail'', ''off'')]\<rparr>"

lemma edits_total:
  assumes "upstream_of ctx = Some up" "px_header_ok X = (\<lambda>_ _. True)"
  obtains h where "upstream_request_filter X now ctx head = Some (Some h, ctx\<lparr>rc_proxying := True\<rparr>)"
proof -
  have ins: "\<exists>h'. insert_headers (\<lambda>_ _. True) hs h = Some h'" for hs h
    by (induction hs arbitrary: h) (auto simp: insert_header_def)
  obtain h1 where 1: "apply_attribution (\<lambda>_ _. True) (rc_attr_headers ctx) (rc_tags ctx) head = Some h1"
    using ins unfolding apply_attribution_def by blast
  obtain h2 where 2: "apply_header_mutations (\<lambda>_ _. True) (rc_wasm_header_set ctx) (rc_wasm_header_remove ctx) h1 = Some h2"
    using ins unfolding apply_header_mutations_def by blast
  obtain h3 where 3: "insert_headers (\<lambda>_ _. True) (operator_inserts up (caller_signed_passthrough ctx h2) ctx) h2 = Some h3"
    using ins by blast
  have "\<exists>h4. frame_body (\<lambda>_ _. True) ctx h3 = Some h4"
    by (simp add: frame_body_def insert_header_def split: option.split)
  then obtain h4 where 4: "frame_body (\<lambda>_ _. True) ctx h3 = Some h4" by blast
  have "\<exists>h. sign_step (\<lambda>_ _. True) (px_aws X) now up ctx h4 = Some h"
  proof (cases "rc_aws ctx")
    case (Some signing)
    then show ?thesis
      by (cases signing) (simp add: sign_step_def sign_bedrock_request_def Let_def ins del: insert_headers.simps)
  qed (simp add: sign_step_def)
  then obtain h where 5: "sign_step (\<lambda>_ _. True) (px_aws X) now up ctx h4 = Some h" by blast
  show thesis
    by (rule that [of h]) (simp add: upstream_request_filter_def assms 1 2 3 4 5 Let_def)
qed

lemma gate_upstream: "upstream_of gate_ctx = Some sample_upstream"
  by (simp add: upstream_of_def gate_ctx_def ctx_bound_def gate_snapshot_def bt_get_def gate_provider_def)

theorem upstream_carries_resolved_attribution_witness:
  "\<exists>h c. upstream_request_filter gate_env 0 gate_ctx gate_head = Some (Some h, c) \<and> sent ''x-team'' h = [''ml'']"
proof -
  have ok: "px_header_ok gate_env = (\<lambda>_ _. True)" by (simp add: gate_env_def)
  obtain h where h: "upstream_request_filter gate_env 0 gate_ctx gate_head = Some (Some h, gate_ctx\<lparr>rc_proxying := True\<rparr>)"
    by (rule edits_total [OF gate_upstream ok])
  have "''X-Team'' \<in> set (bt_values (rc_attr_headers gate_ctx))" "written_after gate_ctx = ''X-Guardrail'' #
      [''accept-encoding'', ''authorization'', ''host'', ''content-length'', ''transfer-encoding'', ''x-amz-date'',
      ''x-amz-security-token'', ''x-amz-content-sha256'']"
    "written ''X-Team'' (attribution_inserts (rc_attr_headers gate_ctx) (rc_tags gate_ctx)) = [''ml'']"
    by (simp_all add: gate_ctx_def ctx_bound_def written_after_def forced_headers_def bt_keys_def bt_values_def written_def
        attribution_inserts_def sample_tags_def map_filter_simps bt_get_def)
  moreover have "to_ascii_lowercase ''X-Team'' \<notin> to_ascii_lowercase ` set (''X-Guardrail'' #
      [''accept-encoding'', ''authorization'', ''host'', ''content-length'', ''transfer-encoding'', ''x-amz-date'',
      ''x-amz-security-token'', ''x-amz-content-sha256''])" by code_simp
  ultimately have "sent ''X-Team'' h = [''ml'']"
    using upstream_carries_resolved_attribution [OF h, of "''X-Team''"] by (simp del: image_insert)
  moreover have "to_ascii_lowercase ''X-Team'' = to_ascii_lowercase ''x-team''" by code_simp
  ultimately show ?thesis using h by (auto simp: sent_def)
qed

text \<open>The values under which a name is signed are those it is sent under.\<close>

lemma lower_idem [simp]: "to_ascii_lowercase (to_ascii_lowercase s) = to_ascii_lowercase s"
proof -
  have "to_ascii_lower (to_ascii_lower c) = to_ascii_lower c" for c
  proof -
    have "of_char (char_of (n + 32) :: char) = n + 32" if "n \<le> 90" for n :: nat
      using that by (simp add: of_char_of)
    then show ?thesis by (auto simp: to_ascii_lower_def is_ascii_upper_def)
  qed
  then show ?thesis by (simp add: to_ascii_lowercase_def)
qed

lemma written_append: "written name (xs @ ys) = written name xs @ written name ys"
  by (simp add: written_def)

lemma written_distinct:
  "distinct (map (\<lambda>(n, _). to_ascii_lowercase n) hs) \<Longrightarrow> (n, v) \<in> set hs \<Longrightarrow> written (to_ascii_lowercase n) hs = [v]"
proof (induction hs)
  case (Cons x hs)
  obtain n' v' where x: "x = (n', v')" by force
  show ?case
  proof (cases "(n, v) \<in> set hs")
    case True
    then have "to_ascii_lowercase n' \<noteq> to_ascii_lowercase n" using Cons.prems(1) by (force simp: x)
    then show ?thesis using Cons True by (auto simp: x written_def)
  next
    case False
    then have "n' = n" "v' = v" using Cons.prems(2) by (auto simp: x)
    moreover have "to_ascii_lowercase n \<notin> to_ascii_lowercase ` set (map fst hs)"
      using Cons.prems(1) calculation by (auto simp: x image_iff split: prod.splits)
    ultimately show ?thesis using written_Nil [of "to_ascii_lowercase n" hs] by (simp add: x written_def)
  qed
qed simp

lemma signed_names_lower:
  "to_ascii_lowercase ''host'' = ''host''" "to_ascii_lowercase ''x-amz-date'' = ''x-amz-date''"
    "to_ascii_lowercase ''x-amz-security-token'' = ''x-amz-security-token''"
    "to_ascii_lowercase ''x-amz-content-sha256'' = ''x-amz-content-sha256''"
    "to_ascii_lowercase ''authorization'' = ''authorization''" "to_ascii_lowercase ''content-length'' = ''content-length''"
    "to_ascii_lowercase ''transfer-encoding'' = ''transfer-encoding''"
  by code_simp+

text \<open>Property C7. A Bedrock request that the gateway signs: the \<open>Authorization\<close> that goes upstream is the
  SigV4 signature, under the credentials minted for the request, of the method, path and query that
  go upstream, of headers that are all sent with exactly the values signed, the operator's forced
  headers among them, and of the hash of the body; and those bytes, with their length, are the body
  that is sent whatever chunk the filter is given.\<close>

theorem signature_covers_what_is_sent:
  assumes "upstream_request_filter X now ctx head = Some (Some h, ctx')" "upstream_of ctx = Some up"
    and "rc_aws ctx = Some (creds, region)" "rc_signed_body ctx = Some body"
    and "distinct (map (\<lambda>(n, _). to_ascii_lowercase n) (forced_headers ctx))"
    and "\<forall>n \<in> set (map fst (forced_headers ctx)). to_ascii_lowercase n \<notin> set RESERVED_INJECT_HEADERS"
    and "p = bedrock_sign_params (px_aws X) up region creds now (sha256_hex (px_aws X) body) (forced_headers ctx) h"
  shows "sent ''authorization'' h = [authorization (px_aws X) p (cd_access_key_id creds) (cd_secret_access_key creds)] \<and>
     (\<forall>(n, v) \<in> set (sp_headers p). sent n h = [v]) \<and>
     (sp_method p, sp_path p, sp_query p) = (uh_method h, uh_path h, unwrap_or (uh_query h) []) \<and>
     sent ''content-length'' h = [dec_of_nat (length body)] \<and> sent ''transfer-encoding'' h = [] \<and>
     map_option fst (request_body_filter X chunk eos ctx') = Some (Inr (Some body))"
proof -
  obtain h1 h2 h3 h4 where c': "ctx' = ctx\<lparr>rc_proxying := True\<rparr>"
    and st: "insert_headers (px_header_ok X) (operator_inserts up (caller_signed_passthrough ctx h2) ctx) h2 = Some h3"
    "frame_body (px_header_ok X) ctx h3 = Some h4" "sign_step (px_header_ok X) (px_aws X) now up ctx h4 = Some h"
    by (rule upstream_steps [OF assms(1)]) (use assms(2) in auto)
  let ?hash = "sha256_hex (px_aws X) body"
  let ?p4 = "bedrock_sign_params (px_aws X) up region creds now ?hash (forced_headers ctx) h4"
  let ?ps = "[(''host'', address up), (''x-amz-date'', sp_timestamp ?p4),
    (''x-amz-security-token'', cd_session_token creds), (''x-amz-content-sha256'', ?hash),
    (''authorization'', authorization (px_aws X) ?p4 (cd_access_key_id creds) (cd_secret_access_key creds))]"
  have sign: "insert_headers (px_header_ok X) ?ps h4 = Some h"
    using st(3) by (simp add: sign_step_def sign_bedrock_request_def Let_def assms(3,4))
  have p: "?p4 = p"
    using insert_headers_sent [OF sign] by (simp add: assms(7) bedrock_sign_params_def same_target_def)
  note out = insert_headers_sent [OF sign [unfolded p], THEN conjunct1]
  have frame: "insert_header (px_header_ok X) ''content-length'' (dec_of_nat (length body)) (remove_header ''transfer-encoding'' h3) = Some h4"
    using st(2) by (simp add: frame_body_def rewrites_body_def assms(4))
  have own: "sent ''host'' h = [address up]" "sent ''x-amz-date'' h = [sp_timestamp p]"
    "sent ''x-amz-security-token'' h = [cd_session_token creds]" "sent ''x-amz-content-sha256'' h = [?hash]"
    "sent ''authorization'' h = [authorization (px_aws X) p (cd_access_key_id creds) (cd_secret_access_key creds)]"
    "sent ''content-length'' h = [dec_of_nat (length body)]" "sent ''transfer-encoding'' h = []"
    using insert_header_sent(1) [OF frame] by (simp_all add: out written_def signed_names_lower)
  have forced: "sent (to_ascii_lowercase n) h = [v]" if nv: "(n, v) \<in> set (forced_headers ctx)" for n v
  proof -
    have res: "to_ascii_lowercase n \<notin> set RESERVED_INJECT_HEADERS" using assms(6) nv by force
    have "written (to_ascii_lowercase n) ?ps = []"
      using res by (auto simp: written_def signed_names_lower RESERVED_INJECT_HEADERS_def)
    then have "sent (to_ascii_lowercase n) h = sent (to_ascii_lowercase n) h3"
      using insert_headers_sent [OF sign, of "to_ascii_lowercase n"] insert_header_sent(1) [OF frame, of "to_ascii_lowercase n"] res
      by (auto simp: signed_names_lower RESERVED_INJECT_HEADERS_def)
    also have "\<dots> = [v]"
      using insert_headers_sent [OF st(1), of "to_ascii_lowercase n"] written_distinct [OF assms(5) nv]
      by (simp add: operator_inserts_def written_append)
    finally show ?thesis .
  qed
  have "\<forall>(n, v) \<in> set (sp_headers p). sent n h = [v]"
    using own(1-4) forced by (auto simp: assms(7) bedrock_sign_params_def Let_def)
  moreover have "(sp_method p, sp_path p, sp_query p) = (uh_method h, uh_path h, unwrap_or (uh_query h) [])"
    by (simp add: assms(7) bedrock_sign_params_def Let_def)
  moreover have "map_option fst (request_body_filter X chunk eos ctx') = Some (Inr (Some body))"
    by (simp add: c' request_body_filter_def assms(4))
  ultimately show ?thesis using own by blast
qed

theorem signature_covers_what_is_sent_witness:
  "\<exists>h c. upstream_request_filter gate_env 0 gate_ctx gate_head = Some (Some h, c) \<and>
     sent ''x-guardrail'' h = [''g''] \<and> sent ''content-length'' h = [''2''] \<and>
     map_option fst (request_body_filter gate_env (Some ''theirs'') True c) = Some (Inr (Some ''{}''))"
proof -
  have ok: "px_header_ok gate_env = (\<lambda>_ _. True)" by (simp add: gate_env_def)
  obtain h where h: "upstream_request_filter gate_env 0 gate_ctx gate_head = Some (Some h, gate_ctx\<lparr>rc_proxying := True\<rparr>)"
    by (rule edits_total [OF gate_upstream ok])
  have c: "rc_aws gate_ctx = Some (page_creds, ''r'')" "rc_signed_body gate_ctx = Some ''{}''"
    "forced_headers gate_ctx = [(''X-Guardrail'', ''g'')]"
    by (simp_all add: gate_ctx_def forced_headers_def)
  have low: "to_ascii_lowercase ''X-Guardrail'' = ''x-guardrail''" "''x-guardrail'' \<notin> set RESERVED_INJECT_HEADERS"
    "dec_of_nat (length ''{}'') = ''2''"
    by code_simp+
  have pre: "distinct (map (\<lambda>(n, _). to_ascii_lowercase n) (forced_headers gate_ctx))"
    "\<forall>n \<in> set (map fst (forced_headers gate_ctx)). to_ascii_lowercase n \<notin> set RESERVED_INJECT_HEADERS"
    by (simp_all add: c(3) low)
  let ?p = "bedrock_sign_params (px_aws gate_env) sample_upstream ''r'' page_creds 0
      (sha256_hex (px_aws gate_env) ''{}'') (forced_headers gate_ctx) h"
  note s = signature_covers_what_is_sent [OF h gate_upstream c(1,2) pre refl, of "Some ''theirs''" True]
  have "(''x-guardrail'', ''g'') \<in> set (sp_headers ?p)"
    by (simp add: bedrock_sign_params_def Let_def c(3) low)
  then have "sent ''x-guardrail'' h = [''g'']" using s [THEN conjunct2, THEN conjunct1] by blast
  moreover have "sent ''content-length'' h = [''2'']" using s unfolding low by blast
  moreover have "map_option fst (request_body_filter gate_env (Some ''theirs'') True (gate_ctx\<lparr>rc_proxying := True\<rparr>)) = Some (Inr (Some ''{}''))"
    using s by blast
  ultimately show ?thesis using h by blast
qed

text \<open>Property C37. The fields an operator forces into the body are dropped on an OpenAI or Anthropic route that
  gates models: the body was already read to find the model and is stored as the client sent it, so
  the filter that merges the fields is never reached, and the upstream gets the client's bytes
  whatever the provider forces.\<close>

theorem forced_body_is_dropped:
  assumes "request_filter X now req (ctx, gw) = Some (Forwarded, ctx', gw')" "rc_signed_body ctx = None"
    and "rc_route ctx' = Some rb" "rb_kind rb \<in> {OpenAi, Anthropic}" "rc_signed_body ctx' \<noteq> None"
    and "upstream_request_filter X now' ctx' head = Some (h, ctx'')"
  shows "in_body req \<noteq> None \<and> map_option fst (request_body_filter X chunk eos ctx'') = Some (Inr (in_body req))"
proof -
  from request_filter_forwarded [OF assms(1)] obtain br b where
    br: "br_body br = in_body req"
    and run: "run_gates (map (\<lambda>g. g X now br) gates) (ctx, gw\<lparr>gw_budgets := b\<rparr>) = Some (Forwarded, ctx', gw')"
    by (metis bound_request.select_convs(9))
  note g = gates_forwarded [OF run]
  have kind: "pv_kind (br_provider br) \<in> {OpenAi, Anthropic}" using g(1) assms(3,4) by auto
  then have "\<not> signed_payload br" by (auto simp: signed_payload_def)
  then obtain buf where buf: "in_body req = Some buf" "rc_signed_body ctx' = Some buf"
    using g(5) assms(2,5) br by (auto split: if_splits)
  have "ctx'' = ctx'\<lparr>rc_proxying := True\<rparr>"
    using assms(6) by (auto simp: upstream_request_filter_def Let_def)
  then show ?thesis using buf by (simp add: request_body_filter_def)
qed

lemma gate_route_bound:
  assumes "request_filter gate_env 0 gate_request (fst gate_start, snd gate_start) = Some (Forwarded, ctx, gw)"
  shows "rc_route ctx = Some \<lparr>rb_prefix = ''/v1'', rb_provider = ''up'', rb_kind = OpenAi\<rparr>"
    "rc_forced ctx = Some \<lparr>ri_headers = [], ri_body = [\<lparr>rb_path = ''user'', rb_value = ''gw'', rb_if_absent = False\<rparr>]\<rparr>"
    "rc_snapshot ctx = gate_snapshot"
proof -
  have run: "run_gates (map (\<lambda>g. g gate_env 0 gate_bound) gates) (fst gate_start, snd gate_start) = Some (Forwarded, ctx, gw)"
    using assms unfolding gate_run by simp
  have inj: "resolve_injection \<lparr>ij_headers = [], ij_body = [\<lparr>bf_path = ''user'', bf_value = Bare ''gw'', bf_if_absent = False\<rparr>]\<rparr>
      (sample_tags ''ml'') = Inr \<lparr>ri_headers = [], ri_body = [\<lparr>rb_path = ''user'', rb_value = ''gw'', rb_if_absent = False\<rparr>]\<rparr>"
    by code_simp
  note g = gates_forwarded [OF run]
  show "rc_route ctx = Some \<lparr>rb_prefix = ''/v1'', rb_provider = ''up'', rb_kind = OpenAi\<rparr>"
    using g(1) by (simp add: gate_bound_def gate_route_def gate_provider_def)
  show "rc_snapshot ctx = gate_snapshot"
    using g(1) by (simp add: gate_start_def new_ctx_def ctx_bound_def)
  show "rc_forced ctx = Some \<lparr>ri_headers = [], ri_body = [\<lparr>rb_path = ''user'', rb_value = ''gw'', rb_if_absent = False\<rparr>]\<rparr>"
    using g(3) inj by (simp add: gate_bound_def gate_provider_def)
qed

theorem forced_body_is_dropped_witness:
  "\<exists>ctx gw h ctx'. request_filter gate_env 0 gate_request gate_start = Some (Forwarded, ctx, gw) \<and>
     upstream_request_filter gate_env 0 ctx gate_head = Some (h, ctx') \<and>
     inject_into_body gate_json ''{}'' (forced_body ctx) = Inr ''{forced}'' \<and>
     map_option fst (request_body_filter gate_env (Some ''{}'') True ctx') = Some (Inr (Some ''{}''))"
proof -
  obtain ctx gw where f: "request_filter gate_env 0 gate_request (fst gate_start, snd gate_start) = Some (Forwarded, ctx, gw)"
    "rc_signed_body ctx = Some ''{}''" by (rule gate_forwards)
  note r = gate_route_bound [OF f(1)]
  have ok: "px_header_ok gate_env = (\<lambda>_ _. True)" by (simp add: gate_env_def)
  have up: "upstream_of ctx = Some sample_upstream"
    by (simp add: upstream_of_def r gate_snapshot_def bt_get_def gate_provider_def)
  obtain h where h: "upstream_request_filter gate_env 0 ctx gate_head = Some (Some h, ctx\<lparr>rc_proxying := True\<rparr>)"
    by (rule edits_total [OF up ok])
  have none: "rc_signed_body (fst gate_start) = None" by (simp add: gate_start_def new_ctx_def ctx_bound_def)
  have "map_option fst (request_body_filter gate_env (Some ''{}'') True (ctx\<lparr>rc_proxying := True\<rparr>)) = Some (Inr (in_body gate_request))"
    using forced_body_is_dropped [OF f(1) none r(1) _ _ h, of "Some ''{}''" True] f(2) by simp
  moreover have "inject_into_body gate_json ''{}'' (forced_body ctx) = Inr ''{forced}''"
    by (simp add: forced_body_def r inject_into_body_def gate_json_def as_object_def)
  ultimately show ?thesis using f(1) h by (auto simp: gate_request_def)
qed

end
