(* ===== verification/ProxyRuns.thy ===== *)
theory ProxyRuns
  imports Proxy
begin

text \<open>
  Whole runs of the proxy: an accepted configuration never makes it panic, every request that is
  forwarded is settled once, and what the client sees and the spenders are billed over a stream.
\<close>

section \<open>An accepted configuration does not panic\<close>

lemma finalize_known_provider:
  assumes "finalize_config L J cfg = Inr cfg'" "r \<in> set (cf_routes cfg')"
  shows "bt_get (cf_providers cfg') (ru_provider r) \<noteq> None"
    and "validate_providers (cf_providers cfg') = []" and "ru_compiled r \<noteq> None"
proof -
  obtain fleet fes where 1: "fleet_layers L cfg = (fleet, fes)" by (cases "fleet_layers L cfg")
  obtain projects pes where 2: "project_layers L (cf_projects cfg) = (projects, pes)"
    by (cases "project_layers L (cf_projects cfg)")
  obtain apps aes where 3: "apps_of L cfg = (apps, aes)" by (cases "apps_of L cfg")
  obtain crs res where 4: "finalize_routes L cfg fleet projects apps {} (cf_routes cfg) = (crs, res)"
    by (cases "finalize_routes L cfg fleet projects apps {} (cf_routes cfg)")
  have res: "res = []" "validate_providers (cf_providers cfg) = []" and cfg': "cf_providers cfg' = cf_providers cfg"
    "cf_routes cfg' = map2 (\<lambda>r c. r\<lparr>ru_compiled := Some c\<rparr>) (cf_routes cfg) crs"
    using assms(1) by (auto simp: finalize_config_def Let_def 1 2 3 4 split: if_splits)
  then show "validate_providers (cf_providers cfg') = []" by simp
  from finalize_routes_ok 4 res have each:
    "\<forall>i < length crs. \<exists>seen. finalize_route L cfg fleet projects apps seen (cf_routes cfg ! i) = (crs ! i, [])"
    by fastforce
  from assms(2) obtain i where i: "i < length crs" "r = (cf_routes cfg ! i)\<lparr>ru_compiled := Some (crs ! i)\<rparr>"
    unfolding cfg' by (auto simp: in_set_conv_nth)
  then show "ru_compiled r \<noteq> None" by simp
  from each i obtain seen where
    "finalize_route L cfg fleet projects apps seen (cf_routes cfg ! i) = (crs ! i, [])" by blast
  then have "bt_get (cf_providers cfg) (ru_provider (cf_routes cfg ! i)) \<noteq> None"
    by (auto simp: finalize_route_def Let_def split: prod.splits)
  then show "bt_get (cf_providers cfg') (ru_provider r) \<noteq> None" by (simp add: i(2) cfg'(1))
qed

lemma session_tags_total:
  "\<forall>t \<in> set specs. (sg_value t = None) \<noteq> (sg_from_attribution t = None) \<Longrightarrow> session_tags_of specs tags \<noteq> None"
proof (induction specs)
  case (Cons spec specs)
  then have "session_tag_value spec tags \<noteq> None" by (auto simp: session_tag_value_def split: option.splits)
  then show ?case using Cons by (auto split: option.splits sum.splits)
qed simp

lemma accepted_session_tags:
  assumes "validate_providers ps = []" "bt_get ps name = Some pv" "pv_sts pv = Some sts"
  shows "resolve_session_tags sts tags \<noteq> None"
proof -
  have "(name, pv) \<in> set ps" using bt_get_in_set assms(2) by fast
  then have "validate_provider name pv = []" using assms(1) by (auto simp: validate_providers_def)
  then have "validate_sts name (pv_kind pv) sts = []"
    unfolding validate_provider_def append_is_Nil_conv assms(3) option.case by blast
  then have "validate_tags {} (sc_tags sts) [''provider'', name, ''sts''] = []"
    unfolding validate_sts_def Let_def append_is_Nil_conv by blast
  from validate_tags_distinct [OF this, THEN conjunct2, THEN conjunct2]
  show ?thesis unfolding resolve_session_tags_def by (rule session_tags_total)
qed

lemma run_gates_total: "(\<And>g u. g \<in> set gs \<Longrightarrow> g u \<noteq> None) \<Longrightarrow> run_gates gs st \<noteq> None"
proof (induction gs arbitrary: st)
  case (Cons g gs)
  then have "g st \<noteq> None" "\<And>u. run_gates gs u \<noteq> None" by simp_all
  then show ?case by (auto split: option.splits prod.splits)
qed simp

lemma gate_total:
  assumes "\<And>sts. pv_sts (br_provider br) = Some sts \<Longrightarrow> resolve_session_tags sts (br_tags br) \<noteq> None"
  shows "labels_gate X now br st \<noteq> None" "sts_gate X now br st \<noteq> None" "location_gate X now br st \<noteq> None"
    "bearer_gate X now br st \<noteq> None" "injection_gate X now br st \<noteq> None" "path_model_gate X now br st \<noteq> None"
    "body_gate X now br st \<noteq> None" "bind_gate X now br st \<noteq> None" "wasm_gate X now br st \<noteq> None"
proof -
  show "sts_gate X now br st \<noteq> None"
  proof (cases "pv_sts (br_provider br)")
    case (Some sts)
    have "resolve_gb7_credentials (px_net X) (px_aws X) sts (br_tags br) now (gw_sts_cache (snd st)) \<noteq> None"
      using assms [OF Some] by (auto simp: resolve_gb7_credentials_def split: sum.splits option.splits)
    then show ?thesis using Some
      by (cases st) (auto simp: sts_gate_def refuse_def pass_def split: option.splits sum.splits prod.splits gb7_failure.splits)
  qed (cases st; simp add: sts_gate_def pass_def)
  show "labels_gate X now br st \<noteq> None" by (cases st) (auto simp: labels_gate_def refuse_def pass_def split: sum.splits)
  show "location_gate X now br st \<noteq> None"
    by (cases st) (auto simp: location_gate_def refuse_def pass_def split: option.splits)
  show "bearer_gate X now br st \<noteq> None"
    by (cases st) (auto simp: bearer_gate_def pass_def split: option.splits sum.splits prod.splits)
  show "injection_gate X now br st \<noteq> None"
    by (cases st) (auto simp: injection_gate_def refuse_def pass_def split: option.splits sum.splits prod.splits)
  show "path_model_gate X now br st \<noteq> None"
    by (cases st) (auto simp: path_model_gate_def Let_def refuse_model_def refuse_def pass_def split: option.splits)
  show "body_gate X now br st \<noteq> None"
    by (cases st) (auto simp: body_gate_def refuse_model_def refuse_def pass_def split: option.splits sum.splits)
  show "bind_gate X now br st \<noteq> None" by (cases st) (simp add: bind_gate_def pass_def)
  show "wasm_gate X now br st \<noteq> None"
    by (cases st) (auto simp: wasm_gate_def refuse_def pass_def split: option.splits on_request_action.splits)
qed

lemma gates_total:
  assumes "\<And>sts. pv_sts (br_provider br) = Some sts \<Longrightarrow> resolve_session_tags sts (br_tags br) \<noteq> None"
  shows "run_gates (map (\<lambda>g. g X now br) gates) st \<noteq> None"
  using gate_total [of br, OF assms] by (intro run_gates_total) (auto simp: gates_def)

lemma resolve_app_total: "ru_compiled r \<noteq> None \<Longrightarrow> resolve_with_app_scope L K r apps caller claims ctx \<noteq> None"
  by (auto simp: resolve_with_app_scope_def route_policy_def route_app_policy_def Let_def split: option.splits)

lemma upstream_of_known:
  "rc_route ctx = Some rb \<Longrightarrow> bt_get (cf_providers (sn_config (rc_snapshot ctx))) (rb_provider rb) = Some pv \<Longrightarrow>
     upstream_of ctx = Some (pv_upstream pv)"
  by (simp add: upstream_of_def)

lemma request_filter_decides:
  assumes "finalize_config L J cfg = Inr (sn_config (rc_snapshot ctx))"
  shows "request_filter X now req (ctx, gw) \<noteq> None"
proof -
  let ?cfg = "sn_config (rc_snapshot ctx)"
  have known: "bt_get (cf_providers ?cfg) (ru_provider r) \<noteq> None" "ru_compiled r \<noteq> None"
    "validate_providers (cf_providers ?cfg) = []" if "r \<in> set (cf_routes ?cfg)" for r
    using finalize_known_provider [OF assms that] by blast+
  have match: "\<exists>x. match_route (px_cel X) (cf_routes ?cfg) path cel = Some x \<and> set_option x \<subseteq> set (cf_routes ?cfg)" for path cel
  proof -
    obtain x where x: "match_route (px_cel X) (cf_routes ?cfg) path cel = Some x"
      using known(2) by (auto simp: match_route_def list_ex_iff)
    show ?thesis using match_route_spec [OF x] x by (cases x) auto
  qed
  have run: "run_gates (map (\<lambda>g. g X now br) gates) st \<noteq> None"
    if "bt_get (cf_providers ?cfg) (ru_provider r) = Some (br_provider br)" "r \<in> set (cf_routes ?cfg)" for br r st
    by (rule gates_total) (rule accepted_session_tags [OF known(3) [OF that(2)] that(1)])
  show ?thesis
  proof (cases "normalize_and_rewrite (px_uri X) (in_path req) (in_query req)")
    case (Some pq)
    obtain path q where pq: "pq = (path, q)" by force
    let ?claims = "verified_claims (px_jwt X) ?cfg (in_head req) now"
    let ?cel = "request_ctx (in_head req) path ?claims"
    obtain x where x: "match_route (px_cel X) (cf_routes ?cfg) path ?cel = Some x" "set_option x \<subseteq> set (cf_routes ?cfg)"
      using match by blast
    show ?thesis
    proof (cases x)
      case (Some r)
      then have r: "r \<in> set (cf_routes ?cfg)" using x(2) by simp
      obtain base where base: "route_policy r = Some base" using known(2) [OF r] by (auto simp: route_policy_def)
      obtain policy res where res: "resolve_with_app_scope (px_cel X) (px_json X) r (cf_apps ?cfg)
          (caller_attrs (in_head req) (ep_headers base)) ?claims ?cel = Some (policy, res)"
        using resolve_app_total [OF known(2) [OF r]] by fast
      obtain provider where prov: "bt_get (cf_providers ?cfg) (ru_provider r) = Some provider" using known(1) [OF r] by blast
      show ?thesis
        using run [OF _ r] prov
        by (simp add: request_filter_def \<open>normalize_and_rewrite _ _ _ = _\<close> pq x(1) Some base res Let_def
            split: sum.splits prod.splits)
    qed (simp add: request_filter_def \<open>normalize_and_rewrite _ _ _ = _\<close> pq x(1) Let_def)
  qed (simp add: request_filter_def)
qed

lemma forwarded_has_upstream:
  assumes "request_filter X now req (ctx, gw) = Some (Forwarded, ctx', gw')"
  shows "upstream_of ctx' \<noteq> None"
proof -
  from request_filter_forwarded [OF assms] obtain br route provider b where
    br: "br_route br = route" "br_provider br = provider"
    and prov: "bt_get (cf_providers (sn_config (rc_snapshot ctx))) (ru_provider route) = Some provider"
    and run: "run_gates (map (\<lambda>g. g X now br) gates) (ctx, gw\<lparr>gw_budgets := b\<rparr>) = Some (Forwarded, ctx', gw')"
    by (metis bound_request.select_convs(1,5))
  from gates_forwarded(1) [OF run] br prov show ?thesis by (simp add: upstream_of_def)
qed

text \<open>The body of a request: the filter is called with each chunk in turn until it fails.\<close>

fun send_body ::
  "('p, 'v, 'k, 'm, 'i) proxy_env \<Rightarrow> (string option \<times> bool) list \<Rightarrow> ('p, 'k, 'm) req_ctx \<Rightarrow>
   ((request_outcome + string option) list \<times> ('p, 'k, 'm) req_ctx) option"
where
  "send_body X [] ctx = Some ([], ctx)"
| "send_body X ((body, eos) # chunks) ctx =
     (case request_body_filter X body eos ctx of
        None \<Rightarrow> None
      | Some (Inl failure, ctx') \<Rightarrow> Some ([Inl failure], ctx')
      | Some (Inr out, ctx') \<Rightarrow> map_option (\<lambda>(outs, c). (Inr out # outs, c)) (send_body X chunks ctx'))"

lemma send_body_total: "rc_route ctx \<noteq> None \<Longrightarrow> send_body X chunks ctx \<noteq> None"
proof (induction chunks arbitrary: ctx)
  case (Cons chunk chunks)
  obtain body eos where chunk: "chunk = (body, eos)" by force
  from request_body_filter_total [OF Cons.prems] obtain r ctx' where
    r: "request_body_filter X body eos ctx = Some (r, ctx')" "rc_route ctx' = rc_route ctx" by blast
  then show ?case using Cons.IH [of ctx'] Cons.prems by (cases r) (auto simp: chunk r(1))
qed simp

text \<open>Property C5. Under a configuration that \<open>finalize\<close> accepted none of the four filters of a request
  that can panic does, whatever the request, the libraries and the network do: the request filter
  always decides; and when it forwards the request there is an upstream to connect to, the upstream
  request is built (or fails as a value), and the body filter answers every chunk of every body.\<close>

theorem accepted_configuration_never_panics:
  assumes "finalize_config L J cfg = Inr (sn_config (rc_snapshot ctx))"
  shows "\<exists>outcome ctx' gw'. request_filter X now req (ctx, gw) = Some (outcome, ctx', gw') \<and>
     (outcome = Forwarded \<longrightarrow> upstream_peer ctx' \<noteq> None \<and> send_body X chunks ctx' \<noteq> None \<and>
        (\<exists>h ctx''. upstream_request_filter X now' ctx' head = Some (h, ctx'') \<and>
           send_body X chunks ctx'' \<noteq> None))"
proof -
  obtain outcome ctx' gw' where f: "request_filter X now req (ctx, gw) = Some (outcome, ctx', gw')"
    using request_filter_decides [OF assms] by (metis not_None_eq prod_cases3)
  have "upstream_peer ctx' \<noteq> None \<and> send_body X chunks ctx' \<noteq> None \<and>
      (\<exists>h ctx''. upstream_request_filter X now' ctx' head = Some (h, ctx'') \<and> send_body X chunks ctx'' \<noteq> None)"
    if "outcome = Forwarded"
  proof -
    have up: "upstream_of ctx' \<noteq> None" using forwarded_has_upstream f that by blast
    then have route: "rc_route ctx' \<noteq> None" by (cases "rc_route ctx'") (simp_all add: upstream_of_def)
    then have "send_body X chunks (ctx'\<lparr>rc_proxying := True\<rparr>) \<noteq> None" by (intro send_body_total) simp
    then show ?thesis using up send_body_total [OF route] by (auto simp: upstream_peer_def upstream_request_filter_def Let_def)
  qed
  with f show ?thesis by blast
qed

text \<open>The concrete gateway's configuration is one that \<open>finalize\<close> accepts.\<close>

definition gate_config :: "(unit, unit) config" where
  "gate_config = sample_config\<lparr>cf_providers := [(''up'', gate_provider)], cf_routes := [gate_route\<lparr>ru_compiled := None\<rparr>]\<rparr>"

lemma gate_texts: "placeholders ''gw'' = Inr []" "\<not> is_blank ''up''" "\<not> is_blank ''user''" "\<not> is_blank ''m''" "\<not> is_blank ''gw''"
  "\<not> bad_model_pattern ''m''"
  by code_simp+

lemma gate_providers_ok: "validate_providers [(''up'', gate_provider)] = []"
  by (simp add: validate_providers_def validate_provider_def gate_provider_def sample_upstream_def Let_def
      validate_operator_value_def validate_inject_def as_template_def gate_texts sample_simps)

lemma gate_route_ok:
  "finalize_route sample_cel gate_config [] [] [] {} (gate_route\<lparr>ru_compiled := None\<rparr>) =
     (the (ru_compiled gate_route), [])"
  by (simp add: finalize_route_def gate_config_def gate_route_def sample_route_def Let_def condition_of_def project_of_def
      compile_route_layer_def compile_layer_def sample_attribution_def same_scope_errs_def
      spend_cap_errs_def model_errs_def BASE_MARKER_def sample_simps bt_keys_def
      compose_def final_labels_def best_depths_def label_step_def splice_required_def dedup_keep_first_def
      merge_maps_def lower_headers_def last_some_def last_or_def opt_or_def layer_origins_def origin_step_def
      sample_config_def starts_with_def policy_errs_def validate_attr_headers_def has_source_def established_def
      bt_contains_def gate_provider_def validate_effective_for_provider_def inject_ref_errs_def
      key_ref_errs_def template_keys_def as_template_def key_universe_def sts_ref_errs_def
      sample_policy_def unwrap_or_def enumerate_eq_zip header_char_def is_ascii_lower_def gate_texts)

lemma gate_accepted: "finalize_config sample_cel sample_jwt gate_config = Inr (sn_config gate_snapshot)"
proof -
  have "fleet_layers sample_cel gate_config = ([], [])" "project_layers sample_cel (cf_projects gate_config) = ([], [])"
    "apps_of sample_cel gate_config = ([], [])" "validate_auth sample_jwt (cf_auth gate_config) = []"
    "validate_telemetry (cf_telemetry gate_config) = []" "validate_alerts (cf_alerts gate_config) = []"
    "validate_wasm (cf_wasm gate_config) = []" "cf_routes gate_config = [gate_route\<lparr>ru_compiled := None\<rparr>]"
    "cf_auth gate_config = None" "validate_providers (cf_providers gate_config) = []"
    "validate_rejections (cf_rejections gate_config) c = []" for c
    using gate_providers_ok sample_rejections_ok
    by (simp_all add: gate_config_def sample_config_def fleet_layers_def apps_of_def validate_auth_def
        validate_telemetry_def validate_alerts_def validate_wasm_def)
  then show ?thesis
    by (simp add: finalize_config_def gate_route_ok Let_def) (simp add: gate_config_def gate_snapshot_def gate_route_def)
qed

theorem accepted_configuration_never_panics_witness:
  "\<exists>ctx gw h ctx'. request_filter gate_env 0 gate_request gate_start = Some (Forwarded, ctx, gw) \<and>
     upstream_peer ctx \<noteq> None \<and> upstream_request_filter gate_env 0 ctx gate_head = Some (h, ctx') \<and>
     send_body gate_env [(Some ''{'', False), (Some ''}'', True)] ctx' \<noteq> None"
proof -
  have accepted: "finalize_config sample_cel sample_jwt gate_config = Inr (sn_config (rc_snapshot (fst gate_start)))"
    by (simp add: gate_accepted gate_start_def new_ctx_def ctx_bound_def)
  obtain ctx gw where f: "request_filter gate_env 0 gate_request (fst gate_start, snd gate_start) = Some (Forwarded, ctx, gw)"
    by (rule gate_forwards)
  from accepted_configuration_never_panics [OF accepted, of gate_env 0 gate_request "snd gate_start"
      "[(Some ''{'', False), (Some ''}'', True)]" 0 gate_head] f
  show ?thesis by auto
qed

section \<open>Settled once\<close>

lemma opt_list_simps [simp]: "opt_list None = []" "opt_list (Some v) = [v]" "opt_list x = [] \<longleftrightarrow> x = None"
  by (simp_all add: opt_list_def split: option.splits)

lemma run_bodies_flow:
  "run_bodies X calls (ctx, gw) = ((rs, ss), ctx', gw') \<Longrightarrow>
     rc_route ctx' = rc_route ctx \<and> rc_proxying ctx' = rc_proxying ctx \<and>
     (rc_settled ctx' \<longleftrightarrow> rc_settled ctx \<or> ss \<noteq> []) \<and> length ss \<le> 1 \<and>
     (rc_settled ctx \<or> \<not> rc_proxying ctx \<or> rc_route ctx = None \<longrightarrow> ss = [])"
proof (induction calls arbitrary: ctx gw rs ss)
  case (Cons c calls)
  obtain now body eos where c: "c = (now, body, eos)" by (metis prod_cases3)
  obtain r as s ctx1 gw1 where b: "response_body_filter X now body eos (ctx, gw) = ((r, as, s), ctx1, gw1)"
    by (metis prod_cases3)
  note f = body_filter_flow [OF b]
  have one: "length (opt_list s) \<le> 1" by (cases s) simp_all
  show ?case
  proof (cases "r = Torn")
    case True
    then show ?thesis using Cons.prems f one by (auto simp: c b)
  next
    case False
    obtain rs1 ss1 where rec: "run_bodies X calls (ctx1, gw1) = ((rs1, ss1), ctx', gw')" "ss = opt_list s @ ss1"
      using Cons.prems False by (auto simp: c b Let_def split: prod.splits)
    from Cons.IH [OF rec(1)] f one show ?thesis unfolding rec(2) by (cases s) auto
  qed
qed simp

lemma heads_keep:
  "rc_route (fold upstream_response_filter heads ctx) = rc_route ctx"
  "response_state (fold upstream_response_filter heads ctx) = response_state ctx"
proof -
  have "rc_route (upstream_response_filter h c) = rc_route c \<and> response_state (upstream_response_filter h c) = response_state c"
    for h and c :: "('a, 'b, 'c) req_ctx"
    by (auto simp: upstream_response_filter_def response_state_def split: option.splits tap_plan.splits)
  then show "rc_route (fold upstream_response_filter heads ctx) = rc_route ctx"
    "response_state (fold upstream_response_filter heads ctx) = response_state ctx"
    by (simp_all add: fold_keeps)
qed

lemma run_response_settles:
  assumes "run_response X heads calls now err (ctx, gw) = ((rs, ss), st)" "\<not> rc_settled ctx"
  shows "length ss = (if rc_proxying ctx \<and> rc_route ctx \<noteq> None then 1 else 0)"
proof -
  let ?c = "fold upstream_response_filter heads ctx"
  have c: "rc_route ?c = rc_route ctx" "rc_proxying ?c = rc_proxying ctx" "\<not> rc_settled ?c"
    using heads_keep [of heads ctx] assms(2) by (simp_all add: response_state_def)
  obtain rs1 ss1 ctx1 gw1 where b: "run_bodies X calls (?c, gw) = ((rs1, ss1), ctx1, gw1)" by (metis prod.collapse)
  obtain s st2 where l: "logging X now err (ctx1, gw1) = (s, st2)" by (cases "logging X now err (ctx1, gw1)")
  note f = run_bodies_flow [OF b]
  have ss: "ss = ss1 @ opt_list s" using assms(1) by (auto simp: run_response_def Let_def b l)
  have s: "s \<noteq> None \<longleftrightarrow> rc_proxying ctx1 \<and> \<not> rc_settled ctx1 \<and> rc_route ctx1 \<noteq> None"
  proof (cases "rc_proxying ctx1 \<and> \<not> rc_settled ctx1")
    case True
    obtain c2 g2 where "settle_stream X now (Some (if err = Some Upstream then UpstreamCut else ClientAbort)) (ctx1, gw1) = (s, c2, g2)"
      using l True by (cases st2) (simp add: logging_def)
    from settle_stream_flow(1) [OF this] show ?thesis using True by blast
  next
    case False
    then have "s = None" using l by (auto simp: logging_def)
    then show ?thesis using False by blast
  qed
  show ?thesis
  proof (cases "rc_proxying ctx \<and> rc_route ctx \<noteq> None")
    case True
    then have "s \<noteq> None \<longleftrightarrow> ss1 = []" using s f c by auto
    then show ?thesis using True f ss by (cases s; cases ss1) auto
  next
    case False
    then show ?thesis using s f c ss by auto
  qed
qed

text \<open>Property C2. Every request is billed once or not at all, on every path: one that is forwarded and sent
  upstream is settled exactly once, whatever heads and chunks follow, whoever ends it and however; one
  that a filter refused, or that was never sent, is not settled.\<close>

theorem forwarded_request_is_settled_once:
  assumes "request_filter X now req (new_ctx snap wasm started, gw) = Some (outcome, ctx, gw')"
    and "outcome = Forwarded \<Longrightarrow> upstream_request_filter X now' ctx head = Some (h, ctx')"
    and "outcome \<noteq> Forwarded \<Longrightarrow> ctx' = ctx"
  shows "length (snd (fst (run_response X heads calls later err (ctx', gw')))) = (if outcome = Forwarded then 1 else 0)"
proof -
  have fresh: "response_state (new_ctx snap wasm started) = (meter_new, 0, False, False, False)"
    by (simp add: response_state_def new_ctx_def ctx_bound_def split: option.split)
  have ctx: "\<not> rc_proxying ctx" "\<not> rc_settled ctx"
    using request_filter_keeps [OF assms(1)] fresh by (simp_all add: response_state_def)
  obtain rs ss st where r: "run_response X heads calls later err (ctx', gw') = ((rs, ss), st)" by (metis prod.collapse)
  show ?thesis
  proof (cases "outcome = Forwarded")
    case True
    from request_filter_forwarded [OF assms(1) [unfolded True]] obtain br b where
      "run_gates (map (\<lambda>g. g X now br) gates) (new_ctx snap wasm started, gw\<lparr>gw_budgets := b\<rparr>) = Some (Forwarded, ctx, gw')"
      by metis
    then have "rc_route ctx \<noteq> None" using gates_forwarded(1) by fastforce
    moreover have "ctx' = ctx\<lparr>rc_proxying := True\<rparr>"
      using assms(2) [OF True] by (auto simp: upstream_request_filter_def Let_def)
    ultimately have "length ss = 1" using run_response_settles [OF r] ctx by simp
    then show ?thesis by (simp only: r fst_conv snd_conv True if_True refl)
  next
    case False
    then have "ctx' = ctx" by (rule assms(3))
    then have "length ss = 0" using run_response_settles [OF r] ctx by simp
    then show ?thesis by (simp only: r fst_conv snd_conv False if_False)
  qed
qed

lemma gate_sent:
  assumes "request_filter gate_env 0 gate_request gate_start = Some (Forwarded, ctx, gw)"
  obtains h where "upstream_request_filter gate_env 0 ctx gate_head = Some (Some h, ctx\<lparr>rc_proxying := True\<rparr>)"
proof -
  have ok: "px_header_ok gate_env = (\<lambda>_ _. True)" by (simp add: gate_env_def)
  have f: "request_filter gate_env 0 gate_request (fst gate_start, snd gate_start) = Some (Forwarded, ctx, gw)"
    using assms by simp
  have up: "upstream_of ctx = Some sample_upstream"
    by (simp add: upstream_of_def gate_route_bound [OF f] gate_snapshot_def bt_get_def gate_provider_def)
  show thesis by (rule edits_total [OF up ok]) (rule that)
qed

theorem forwarded_request_is_settled_once_witness:
  "\<exists>ctx. length (snd (fst (run_response gate_env [] [(0, Some ''data'', False), (1, None, True), (2, Some ''x'', False)] 3
     (Some Upstream) ctx))) = 1"
proof -
  obtain ctx gw where f: "request_filter gate_env 0 gate_request (fst gate_start, snd gate_start) = Some (Forwarded, ctx, gw)"
    by (rule gate_forwards)
  then have f': "request_filter gate_env 0 gate_request gate_start = Some (Forwarded, ctx, gw)" by simp
  obtain h where h: "upstream_request_filter gate_env 0 ctx gate_head = Some (Some h, ctx\<lparr>rc_proxying := True\<rparr>)"
    by (rule gate_sent [OF f'])
  have "length (snd (fst (run_response gate_env [] [(0, Some ''data'', False), (1, None, True), (2, Some ''x'', False)] 3
     (Some Upstream) (ctx\<lparr>rc_proxying := True\<rparr>, gw)))) = (if Forwarded = Forwarded then 1 else 0)"
    by (rule forwarded_request_is_settled_once [OF f' [unfolded gate_start_def]]) (rule h, simp)
  then show ?thesis by (simp only: refl if_True) blast
qed

section \<open>What the client sees\<close>

lemma cut_stays:
  "run_bodies X calls (ctx, gw) = ((rs, ss), ctx', gw') \<Longrightarrow> rc_route ctx = Some rb \<Longrightarrow> rc_cut ctx \<Longrightarrow>
     rc_cut ctx' \<and> set rs \<subseteq> {Torn, Passed None}"
proof (induction calls arbitrary: ctx gw rs ss)
  case (Cons c calls)
  obtain now body eos where c: "c = (now, body, eos)" by (metis prod_cases3)
  obtain r as s ctx1 gw1 where b: "response_body_filter X now body eos (ctx, gw) = ((r, as, s), ctx1, gw1)"
    by (metis prod_cases3)
  have one: "rc_cut ctx1 \<and> r \<in> {Torn, Passed None}" "rc_route ctx1 = Some rb"
    using body_filter_shown(2) [OF b Cons.prems(2,3)] body_filter_flow(1) [OF b] Cons.prems(2) by simp_all
  show ?case
  proof (cases "r = Torn")
    case True
    then show ?thesis using Cons.prems(1) one by (auto simp: c b)
  next
    case False
    obtain rs1 ss1 where rec: "run_bodies X calls (ctx1, gw1) = ((rs1, ss1), ctx', gw')" "rs = r # rs1"
      using Cons.prems(1) False by (auto simp: c b Let_def split: prod.splits)
    from Cons.IH [OF rec(1) one(2)] one show ?thesis unfolding rec(2) by auto
  qed
qed simp

abbreviation passed_on :: "(u64 \<times> string option \<times> bool) list \<Rightarrow> body_result list" where
  "passed_on calls \<equiv> map (\<lambda>(_, body, _). Passed body) calls"

lemma terminal_of_cong: "rc_cut_streaming c = rc_cut_streaming c' \<Longrightarrow> rc_cap_cut_streaming c = rc_cap_cut_streaming c' \<Longrightarrow>
    terminal_of crc c rb m = terminal_of crc c' rb m"
  by (simp add: terminal_of_def)

lemma client_view:
  assumes "run_bodies X calls (ctx, gw) = ((rs, ss), ctx', gw')" "rc_route ctx = Some rb" "\<not> rc_cut ctx"
  shows "if rc_cut ctx' then \<exists>k m after. k < length calls \<and> rs = passed_on (take k calls) @ Passed (Some m) # after \<and>
       terminal_of (px_crc X) ctx rb m \<and> set after \<subseteq> {Torn, Passed None}
     else rs = passed_on calls"
  using assms
proof (induction calls arbitrary: ctx gw rs ss)
  case (Cons c calls)
  obtain now body eos where c: "c = (now, body, eos)" by (metis prod_cases3)
  obtain r as s ctx1 gw1 where b: "response_body_filter X now body eos (ctx, gw) = ((r, as, s), ctx1, gw1)"
    by (metis prod_cases3)
  note sh = body_filter_shown [OF b Cons.prems(2)]
  have route: "rc_route ctx1 = Some rb" using body_filter_flow(1) [OF b] Cons.prems(2) by simp
  have nt: "r \<noteq> Torn" using sh(3,4) Cons.prems(3) by blast
  obtain rs1 ss1 where rec: "run_bodies X calls (ctx1, gw1) = ((rs1, ss1), ctx', gw')" "rs = r # rs1"
    using Cons.prems(1) nt by (auto simp: c b Let_def split: prod.splits)
  show ?case
  proof (cases "rc_cut ctx1")
    case True
    then obtain m where m: "r = Passed (Some m)" "terminal_of (px_crc X) ctx rb m" using sh(4) Cons.prems(3) by blast
    from cut_stays [OF rec(1) route True] have rest: "rc_cut ctx'" "set rs1 \<subseteq> {Torn, Passed None}" by simp_all
    have "0 < length (c # calls) \<and> rs = passed_on (take 0 (c # calls)) @ Passed (Some m) # rs1"
      by (simp add: rec(2) m)
    then show ?thesis using rest m(2) by (simp only: if_True) blast
  next
    case False
    then have r: "r = Passed body" using sh(3) Cons.prems(3) by blast
    note IH = Cons.IH [OF rec(1) route False]
    show ?thesis
    proof (cases "rc_cut ctx'")
      case True
      then obtain k m after where k: "k < length calls" "rs1 = passed_on (take k calls) @ Passed (Some m) # after"
        "terminal_of (px_crc X) ctx1 rb m" "set after \<subseteq> {Torn, Passed None}" using IH by auto
      have "Suc k < length (c # calls) \<and> rs = passed_on (take (Suc k) (c # calls)) @ Passed (Some m) # after \<and>
          terminal_of (px_crc X) ctx rb m"
        using k terminal_of_cong [of ctx1 ctx] sh(1) by (simp add: rec(2) r c)
      then show ?thesis using True k(4) by (simp only: if_True) blast
    next
      case False
      then show ?thesis using IH by (simp add: rec(2) r c)
    qed
  qed
qed simp

text \<open>Property C4. A stream reaches its client byte for byte until it is cut, and once only: the chunks before
  the cut are passed on as they came; the chunk of the cut is replaced by one terminal event, in the
  words of the module's or the cap's template and under the route's prefix; and nothing of the
  upstream's is shown after it.\<close>

theorem client_sees_the_stream_until_the_cut:
  assumes "run_bodies X calls (ctx, gw) = ((rs, ss), ctx', gw')" "rc_route ctx = Some rb" "\<not> rc_cut ctx"
  shows "(\<not> rc_cut ctx' \<and> rs = passed_on calls) \<or>
     (rc_cut ctx' \<and> (\<exists>k m after. k < length calls \<and> rs = passed_on (take k calls) @ Passed (Some m) # after \<and>
        terminal_of (px_crc X) ctx rb m \<and> set after \<subseteq> {Torn, Passed None}))"
  using client_view [OF assms] by (simp split: if_splits)

definition cut_set :: "unit module_set" where
  "cut_set = \<lparr>ms_modules = [\<lparr>lm_module = \<lparr>pm_module = (), pm_limits = default_limits, pm_name = ''m''\<rparr>,
     lm_hooks = [OnResponseEvent], lm_schema = 1\<rparr>], ms_by_name = [(''m'', 0)]\<rparr>"

definition cut_ctx :: "(unit, unit, unit) req_ctx" where
  "cut_ctx = (ctx_bound gate_snapshot (Some cut_set) True)\<lparr>
     rc_route := Some \<lparr>rb_prefix = ''/v1'', rb_provider = ''up'', rb_kind = OpenAi\<rparr>,
     rc_adapter := Some (OpenAiAd openai_new)\<rparr>"

definition cut_calls :: "(u64 \<times> string option \<times> bool) list" where
  "cut_calls = [(0, Some ''data: b'', False), (0, Some (''ad'' @ [nl, nl]), False), (0, Some ''more'', False)]"

lemma cut_feed:
  "openai_feed gate_json openai_new ''data: b'' = ([], ''data: b'', snd openai_new)"
  "openai_feed gate_json (''data: b'', snd openai_new) (''ad'' @ [nl, nl]) = ([bad_chunk ''no''], [], snd openai_new)"
  by code_simp+

lemma cut_reason: "event_cut_reason broken_lib cut_set e est = Some ''wasm-module-fault:m''"
  by (simp add: event_cut_reason_def bm_on_response_event_def for_hook_def cut_set_def implements_hook_def
      pm_on_response_event_def invoke_view_def invoke_module_def call_hook_def broken_lib_def fail_closed_def
      fail_closed_decision_def lm_name_def)

lemma gate_libs: "px_json gate_env = gate_json" "px_wasm gate_env = broken_lib"
  by (simp_all add: gate_env_def)

lemma cut_run: "rc_cut (fst (snd (run_bodies gate_env cut_calls (cut_ctx, snd gate_start))))"
proof -
  have wants: "wants_hook OnResponseEvent cut_set" by (simp add: wants_hook_def for_hook_def cut_set_def implements_hook_def)
  have feeds: "adapter_feed gate_env (OpenAiAd openai_new) ''data: b'' = ([], OpenAiAd (''data: b'', snd openai_new))"
    "adapter_feed gate_env (OpenAiAd (''data: b'', snd openai_new)) (''ad'' @ [nl, nl]) =
      ([bad_chunk ''no''], OpenAiAd ([], snd openai_new))"
    using cut_feed by (simp_all add: adapter_feed_def gate_libs)
  let ?one = "cut_ctx\<lparr>rc_body_bytes := 7, rc_body_chunks := 1, rc_adapter := Some (OpenAiAd (''data: b'', snd openai_new))\<rparr>"
  have 1: "response_body_filter gate_env 0 (Some ''data: b'') False (cut_ctx, g) = ((Passed (Some ''data: b''), [], None), ?one, g)" for g
    by (simp add: response_body_filter_def tap_chunk_def feeds(1) wasm_cut_def cap_cut_def cut_ctx_def ctx_bound_def Let_def)
  have 2: "rc_cut (fst (snd (response_body_filter gate_env 0 (Some (''ad'' @ [nl, nl])) False (?one, g)))) \<and>
      rc_route (fst (snd (response_body_filter gate_env 0 (Some (''ad'' @ [nl, nl])) False (?one, g)))) \<noteq> None" for g
    by (simp add: response_body_filter_def tap_chunk_def feeds(2) [simplified] wasm_cut_def cap_cut_def cut_ctx_def ctx_bound_def
        Let_def observe_event_def wants gate_libs cut_reason meter_event_def split: prod.splits)
  obtain r as s c g where two: "response_body_filter gate_env 0 (Some (''ad'' @ [nl, nl])) False (?one, snd gate_start) = ((r, as, s), c, g)"
    by (metis prod_cases3)
  have cut2: "rc_cut c" "rc_route c \<noteq> None" using 2 [of "snd gate_start", unfolded two fst_conv snd_conv] by blast+
  obtain rs ss c' g' where rest: "run_bodies gate_env [(0, Some ''more'', False)] (c, g) = ((rs, ss), c', g')"
    by (metis prod.collapse)
  have "rc_cut c'" using cut_stays [OF rest _ cut2(1)] cut2(2) by blast
  then show ?thesis
    using rest by (cases "r = Torn") (simp_all add: cut_calls_def 1 two [simplified] cut2 Let_def)
qed

theorem client_sees_the_stream_until_the_cut_witness:
  "\<exists>k m after. k < 3 \<and> fst (fst (run_bodies gate_env cut_calls (cut_ctx, snd gate_start))) =
     passed_on (take k cut_calls) @ Passed (Some m) # after \<and> set after \<subseteq> {Torn, Passed None}"
proof -
  obtain rs ss ctx gw where r: "run_bodies gate_env cut_calls (cut_ctx, snd gate_start) = ((rs, ss), ctx, gw)"
    by (metis prod.collapse)
  have "rc_route cut_ctx = Some \<lparr>rb_prefix = ''/v1'', rb_provider = ''up'', rb_kind = OpenAi\<rparr>" "\<not> rc_cut cut_ctx"
    by (simp_all add: cut_ctx_def ctx_bound_def)
  note v = client_sees_the_stream_until_the_cut [OF r this]
  have "rc_cut ctx" using cut_run by (simp only: r fst_conv snd_conv)
  then obtain k m after where
    "k < length cut_calls" "rs = passed_on (take k cut_calls) @ Passed (Some m) # after" "set after \<subseteq> {Torn, Passed None}"
    using v by blast
  moreover have "length cut_calls = 3" by (simp add: cut_calls_def)
  ultimately show ?thesis unfolding r fst_conv by metis
qed

section \<open>What the spenders are billed\<close>

text \<open>The adapter after a chunk, the events a sequence of chunks yields, and the characters in them.\<close>

definition tap_next :: "('p, 'v, 'k, 'm, 'i) proxy_env \<Rightarrow> string option \<Rightarrow> stream_adapter option \<Rightarrow> stream_adapter option" where
  "tap_next X body a = (case body of
     Some chunk \<Rightarrow> if chunk = [] then a else map_option (\<lambda>a. snd (adapter_feed X a chunk)) a
   | None \<Rightarrow> a)"

fun stream_events ::
  "('p, 'v, 'k, 'm, 'i) proxy_env \<Rightarrow> (u64 \<times> string option \<times> bool) list \<Rightarrow> stream_adapter option \<Rightarrow> event list"
where
  "stream_events X [] a = []"
| "stream_events X ((now, body, eos) # calls) a = tapped X body a @ stream_events X calls (tap_next X body a)"

definition chars_of :: "event list \<Rightarrow> nat" where
  "chars_of es = sum_list (map event_chars es)"

definition streaming :: "('p, 'k, 'm) req_ctx \<Rightarrow> bool" where
  "streaming ctx \<longleftrightarrow> rc_tap ctx \<noteq> Some JsonMode \<and> (\<forall>t. rc_adapter ctx \<noteq> Some (JsonTap t))"

lemma tap_chunk_more:
  assumes "tap_chunk X body ctx = (ctx', reason)"
  shows "rc_adapter ctx' = tap_next X body (rc_adapter ctx)" "rc_wasm_per_event ctx' = rc_wasm_per_event ctx"
    "\<not> rc_wasm_per_event ctx \<Longrightarrow> reason = None"
proof -
  have quiet: "snd (fold (observe_event X) es (c, None)) = None" if "\<not> rc_wasm_per_event c" for es and c :: "('a, 'b, 'c) req_ctx"
    using that by (induction es arbitrary: c) (simp_all add: observe_event_def Let_def)
  have flag: "rc_wasm_per_event (fold meter_event es c) = rc_wasm_per_event c" for es and c :: "('a, 'b, 'c) req_ctx"
    by (simp add: fold_keeps)
  have "rc_adapter ctx' = tap_next X body (rc_adapter ctx) \<and> rc_wasm_per_event ctx' = rc_wasm_per_event ctx \<and>
    (\<not> rc_wasm_per_event ctx \<longrightarrow> reason = None)"
  proof (cases "\<exists>chunk a. body = Some chunk \<and> chunk \<noteq> [] \<and> rc_adapter ctx = Some a")
    case False
    then show ?thesis using assms by (auto simp: tap_chunk_def tap_next_def split: option.splits if_splits)
  next
    case True
    then obtain chunk a where b: "body = Some chunk" "chunk \<noteq> []" "rc_adapter ctx = Some a" by blast
    obtain es a' where f: "adapter_feed X a chunk = (es, a')" by (cases "adapter_feed X a chunk")
    let ?c = "ctx\<lparr>rc_body_bytes := rc_body_bytes ctx + length chunk, rc_body_chunks := Suc (rc_body_chunks ctx)\<rparr>"
    have "ctx' = (fst (fold (observe_event X) es (?c, None)))\<lparr>rc_adapter := Some a'\<rparr>"
      "reason = snd (fold (observe_event X) es (?c, None))"
      using assms b f by (simp_all add: tap_chunk_def Let_def split: prod.splits)
    then show ?thesis using b f quiet [of ?c es] flag [of es ?c] by (simp add: fst_fold_observe_event tap_next_def)
  qed
  then show "rc_adapter ctx' = tap_next X body (rc_adapter ctx)" "rc_wasm_per_event ctx' = rc_wasm_per_event ctx"
    "\<not> rc_wasm_per_event ctx \<Longrightarrow> reason = None" by auto
qed

lemma tap_next_stream: "\<forall>t. a \<noteq> Some (JsonTap t) \<Longrightarrow> \<forall>t. tap_next X body a \<noteq> Some (JsonTap t)"
  by (cases a; cases "the a") (auto simp: tap_next_def adapter_feed_def apsnd_def map_prod_def split: option.splits prod.splits)

text \<open>The estimate of a meter that has seen fewer than \<open>2 ^ 53\<close> characters.\<close>

lemma estimate_after:
  assumes "unat (mt_output_chars m) + chars_of es < 2 ^ 53"
  shows "unat (mt_output_chars (fold observe es m)) = unat (mt_output_chars m) + chars_of es"
    "unat (estimated_output_tokens (fold observe es m)) = (unat (mt_output_chars m) + chars_of es + 3) div 4"
    "estimated_output_tokens m \<le> estimated_output_tokens (fold observe es m)"
proof -
  have "chars_of es < 2 ^ 64" using assms by simp
  then have "unat (of_nat (chars_of es) :: u64) = chars_of es" by (simp add: unat_of_nat)
  then show n: "unat (mt_output_chars (fold observe es m)) = unat (mt_output_chars m) + chars_of es"
    using assms unfolding observe_chars chars_of_def [symmetric]
    by (subst unat_add_lem [THEN iffD1]) simp_all
  show e: "unat (estimated_output_tokens (fold observe es m)) = (unat (mt_output_chars m) + chars_of es + 3) div 4"
    using estimate_exact [of "fold observe es m"] assms n by simp
  have "unat (estimated_output_tokens m) = (unat (mt_output_chars m) + 3) div 4"
    using estimate_exact [of m] assms by simp
  then show "estimated_output_tokens m \<le> estimated_output_tokens (fold observe es m)"
    unfolding word_le_nat_alt e by (simp add: div_le_mono)
qed

lemma meter_frame:
  assumes "nb_wf b" "meter cal i (Some t) delta now b = (out, as, b')"
  shows "nb_wf b'" "j \<noteq> i \<Longrightarrow> bt_get (nb_inner b') j = bt_get (nb_inner b) j"
proof -
  have b': "b' = snd (snd (meter cal i (Some t) delta now b))" by (simp add: assms(2))
  show "nb_wf b'" unfolding b' by (rule meter_op.step_wf [OF assms(1)])
  show "j \<noteq> i \<Longrightarrow> bt_get (nb_inner b') j = bt_get (nb_inner b) j"
    unfolding b' by (rule meter_op.step_other [OF assms(1)])
qed

lemma charge_other:
  "nb_wf b \<Longrightarrow> charge_caps cal caps delta now b = (res, as, b') \<Longrightarrow>
     nb_wf b' \<and> (j \<notin> fst ` set caps \<longrightarrow> bt_get (nb_inner b') j = bt_get (nb_inner b) j)"
proof (induction caps arbitrary: b res as)
  case (Cons c caps)
  obtain i t where c: "c = (i, t)" by force
  obtain out as1 b1 where m: "meter cal i (Some t) delta now b = (out, as1, b1)" by (metis prod_cases3)
  note f = meter_frame [OF Cons.prems(1) m]
  show ?case
  proof (cases out)
    case Continue
    then obtain res2 as2 where "charge_caps cal caps delta now b1 = (res2, as2, b')"
      using Cons.prems(2) by (auto simp: c m Let_def split: prod.splits)
    from Cons.IH [OF f(1) this] f(2) show ?thesis by (auto simp: c)
  next
    case (Cut j' cap)
    then show ?thesis using Cons.prems(2) f by (auto simp: c m)
  qed
qed simp

text \<open>A spender whose entry is in the window of the request and has been charged what the stream was
  metered, on top of what it had spent before.\<close>

definition charged :: "nat \<Rightarrow> cap_id \<Rightarrow> cap_terms \<Rightarrow> u64 \<Rightarrow> nat \<Rightarrow> node_budgets \<Rightarrow> bool" where
  "charged before i t wid n b \<longleftrightarrow> nb_wf b \<and> (\<exists>e. bt_get (nb_inner b) i = Some e \<and> settled_in t wid e \<and>
     unat (lb_spent (ne_budget e)) = before + n)"

lemma meter_charged:
  assumes "charged before i t wid n b" "same_window cal t wid now" "before + n + unat delta < 2 ^ 64"
    "meter cal i (Some t) delta now b = (out, as, b')"
  shows "charged before i t wid (n + unat delta) b'"
proof -
  from assms(1) obtain e where e: "nb_wf b" "bt_get (nb_inner b) i = Some e" "settled_in t wid e"
    "unat (lb_spent (ne_budget e)) = before + n" by (auto simp: charged_def)
  obtain e' where e': "nb_wf b'" "bt_get (nb_inner b') i = Some e'" "settled_in t wid e'"
    "ne_budget e' = commit delta (ne_budget e)"
    using meter_settled(2) [OF e(1-3) assms(2,4)] by blast
  have "unat (lb_spent (ne_budget e')) = before + (n + unat delta)"
    using assms(3) e(4) by (simp add: e'(4) spent_commit)
  then show ?thesis using e' by (auto simp: charged_def)
qed

lemma charge_charged:
  assumes "charged before i t wid n b" "same_window cal t wid now" "before + n + unat delta < 2 ^ 64"
    "charge_caps cal caps delta now b = (res, as, b')" "(i, t) \<in> set caps" "distinct (map fst caps)"
    "res = None \<or> caps = [(i, t)]"
  shows "charged before i t wid (n + unat delta) b'"
  using assms(1,4-7)
proof (induction caps arbitrary: b res as)
  case (Cons c caps)
  obtain k u where c: "c = (k, u)" by force
  obtain out as1 b1 where m: "meter cal k (Some u) delta now b = (out, as1, b1)" by (metis prod_cases3)
  have wf: "nb_wf b" using Cons.prems(1) by (simp add: charged_def)
  show ?case
  proof (cases "(k, u) = (i, t)")
    case True
    then have ch: "charged before i t wid (n + unat delta) b1"
      using meter_charged [OF Cons.prems(1) assms(2,3)] m by simp
    show ?thesis
    proof (cases out)
      case Continue
      then obtain res2 as2 where r: "charge_caps cal caps delta now b1 = (res2, as2, b')"
        using Cons.prems(2) by (auto simp: c m Let_def split: prod.splits)
      have "i \<notin> fst ` set caps" using Cons.prems(4) True by (simp add: c)
      then show ?thesis using ch charge_other [OF _ r, of i] by (auto simp: charged_def)
    next
      case (Cut j' cap)
      then show ?thesis using Cons.prems(2) ch by (auto simp: c m)
    qed
  next
    case False
    then have i: "(i, t) \<in> set caps" "res = None" using Cons.prems(3,5) by (auto simp: c)
    then have "k \<noteq> i" using Cons.prems(4) by (force simp: c)
    then have ch: "charged before i t wid n b1"
      using Cons.prems(1) meter_frame [OF wf m] by (auto simp: charged_def)
    obtain as2 where r: "charge_caps cal caps delta now b1 = (None, as2, b')"
      using Cons.prems(2) i(2) by (cases out) (auto simp: c m Let_def split: prod.splits)
    show ?thesis using Cons.IH [OF ch r i(1)] Cons.prems(4) by simp
  qed
qed simp

text \<open>Settlement replaces the estimate by the count of the last usage frame, if there was one.\<close>

lemma settle_charged:
  assumes "charged before i t wid (unat est) b" "same_window cal t wid now"
    "before + max (unat est) (unat auth) < 2 ^ 64"
  shows "charged before i t wid (unat auth) (settle cal i est auth now b)"
proof -
  from assms(1) obtain e where e: "nb_wf b" "bt_get (nb_inner b) i = Some e" "settled_in t wid e"
    "unat (lb_spent (ne_budget e)) = before + unat est" by (auto simp: charged_def)
  have ro: "roll cal now e = e" using e(3) assms(2) by (intro roll_current settled_current)
  have "unat (lb_spent (lb_reconcile est auth (ne_budget e))) = before + unat auth"
    using e(4) assms(3) by (auto simp: lb_reconcile_def unat_sat_add unat_sat_sub unat_sub word_le_nat_alt)
  moreover have "settled_in t wid (e\<lparr>ne_budget := bb\<rparr>)" for bb using e(3) by (simp add: settled_in_def)
  ultimately show ?thesis using e(1,2) by (auto simp: charged_def settle_def ro Let_def intro: wf_intros)
qed

lemma settle_all_charged:
  assumes "charged before i t wid (unat est) b" "same_window cal t wid now"
    "before + max (unat est) (unat auth) < 2 ^ 64" "(i, t) \<in> set caps" "distinct (map fst caps)"
  shows "charged before i t wid (unat auth) (settle_and_log cal caps est (Some auth) now b)"
  using assms(1,4,5)
proof (induction caps arbitrary: b)
  case (Cons c caps)
  obtain k u where c: "c = (k, u)" by force
  have wf: "nb_wf b" using Cons.prems(1) by (simp add: charged_def)
  have other: "bt_get (nb_inner (settle_and_log cal cs est (Some auth) now b2)) i = bt_get (nb_inner b2) i \<and>
      nb_wf (settle_and_log cal cs est (Some auth) now b2)" if "i \<notin> fst ` set cs" "nb_wf b2" for cs b2
    using that by (induction cs arbitrary: b2) (auto simp: settle_op.step_wf settle_op.step_other)
  show ?case
  proof (cases "k = i")
    case True
    then have "u = t" "i \<notin> fst ` set caps" using Cons.prems(2,3) by (force simp: c)+
    moreover have ch: "charged before i t wid (unat auth) (settle cal i est auth now b)"
      by (rule settle_charged [OF Cons.prems(1) assms(2,3)])
    ultimately show ?thesis using other [of caps "settle cal i est auth now b"] True by (auto simp: charged_def c)
  next
    case False
    then have "charged before i t wid (unat est) (settle cal k est auth now b)"
      using Cons.prems(1) settle_op.step_other [OF wf, of i k] settle_op.step_wf [OF wf] by (auto simp: charged_def)
    then show ?thesis using Cons.IH [of "settle cal k est auth now b"] Cons.prems False by (auto simp: c)
  qed
qed simp

lemma settle_none: "settle_and_log cal caps est None now b = b"
  by (induction caps) auto

definition billed :: "nat \<Rightarrow> cap_id \<Rightarrow> cap_terms \<Rightarrow> u64 \<Rightarrow> ('p, 'k, 'm) req_ctx \<Rightarrow> node_budgets \<Rightarrow> bool" where
  "billed before i t wid ctx b \<longleftrightarrow> charged before i t wid (unat (rc_last_metered_est ctx)) b \<and>
     rc_last_metered_est ctx = estimated_output_tokens (rc_meter ctx) \<and>
     (i, t) \<in> set (rc_caps ctx) \<and> distinct (map fst (rc_caps ctx)) \<and> streaming ctx \<and> before + 2 ^ 53 < 2 ^ 64"

lemma cap_cut_charges:
  assumes "cap_cut X now rb body ctx b = (body', as, ctx', b')" "rc_caps ctx \<noteq> []" "\<not> rc_cut ctx"
  obtains res where "charge_caps_and_cut (px_cal X) (px_crc X) (rc_caps ctx)
      (sat_sub (estimated_output_tokens (rc_meter ctx)) (rc_last_metered_est ctx))
      (rc_cap_cut_streaming ctx) (rb_kind rb) (rb_prefix rb) now b = (res, as, b')"
    "rc_cut ctx' \<longleftrightarrow> res \<noteq> None" "rc_last_metered_est ctx' = estimated_output_tokens (rc_meter ctx)"
    "rc_wasm_per_event ctx' = rc_wasm_per_event ctx"
proof -
  obtain res as1 b1 where c: "charge_caps_and_cut (px_cal X) (px_crc X) (rc_caps ctx)
      (sat_sub (estimated_output_tokens (rc_meter ctx)) (rc_last_metered_est ctx))
      (rc_cap_cut_streaming ctx) (rb_kind rb) (rb_prefix rb) now b = (res, as1, b1)" by (metis prod_cases3)
  show thesis
    by (rule that [of res]) (use assms c in \<open>auto simp: cap_cut_def Let_def split: option.splits\<close>)
qed

lemma chunk_billed:
  assumes "tap_chunk X body ctx = (c1, reason)" "wasm_cut crc rb reason body c1 = (body1, c2)"
    "cap_cut X now rb body1 c2 b = (body2, as, c3, b')" "billed before i t wid ctx b" "same_window (px_cal X) t wid now"
    "unat (mt_output_chars (rc_meter ctx)) + chars_of (tapped X body (rc_adapter ctx)) < 2 ^ 53" "\<not> rc_cut ctx"
    "\<not> rc_cut c3 \<or> (rc_caps ctx = [(i, t)] \<and> \<not> rc_wasm_per_event ctx)"
  shows "billed before i t wid c3 b'" "rc_meter c3 = fold observe (tapped X body (rc_adapter ctx)) (rc_meter ctx)"
    "rc_adapter c3 = tap_next X body (rc_adapter ctx)" "rc_wasm_per_event c3 = rc_wasm_per_event ctx" "rc_caps c3 = rc_caps ctx"
proof -
  note f = tap_chunk_frame [OF assms(1)] tap_chunk_more [OF assms(1)]
  note g = cuts_frame [OF assms(2,3)]
  have b: "charged before i t wid (unat (rc_last_metered_est ctx)) b"
    "rc_last_metered_est ctx = estimated_output_tokens (rc_meter ctx)" "(i, t) \<in> set (rc_caps ctx)"
    "distinct (map fst (rc_caps ctx))" "streaming ctx" "before + 2 ^ 53 < 2 ^ 64"
    using assms(4) by (auto simp: billed_def)
  have c2: "c2 = c1"
    using assms(2)
  proof (cases rule: wasm_cut_cases)
    case (wasm r)
    then have "c3 = c2" using assms(3) by (auto simp: cap_cut_def)
    then have "rc_cut c3" using wasm(3) by simp
    then show ?thesis using assms(8) f wasm(1) by simp
  qed
  obtain res where ch: "charge_caps_and_cut (px_cal X) (px_crc X) (rc_caps c1)
      (sat_sub (estimated_output_tokens (rc_meter c1)) (rc_last_metered_est c1))
      (rc_cap_cut_streaming c1) (rb_kind rb) (rb_prefix rb) now b = (res, as, b')"
    and c3: "rc_cut c3 \<longleftrightarrow> res \<noteq> None" "rc_last_metered_est c3 = estimated_output_tokens (rc_meter c1)"
    "rc_wasm_per_event c3 = rc_wasm_per_event c1"
    by (rule cap_cut_charges [OF assms(3) [unfolded c2]]) (use f assms(7) b(3) in auto)
  let ?est = "estimated_output_tokens (rc_meter c1)" and ?old = "rc_last_metered_est ctx"
  let ?delta = "sat_sub ?est ?old"
  note est = estimate_after [OF assms(6)]
  have le: "?old \<le> ?est" using est(3) b(2) f(10) by simp
  then have sum: "unat ?old + unat ?delta = unat ?est" by (simp add: unat_sat_sub word_le_nat_alt)
  have small: "before + unat ?old + unat ?delta < 2 ^ 64"
    using b(6) sum est(2) assms(6) f(10) by simp
  have "charged before i t wid (unat ?est) b'"
  proof (cases "?delta = 0")
    case True
    then have "b' = b" using ch by (simp add: charge_caps_and_cut_def f)
    moreover have "unat ?est = unat ?old" using sum True by simp
    ultimately show ?thesis using b(1) by simp
  next
    case False
    then obtain r2 as2 where "charge_caps (px_cal X) (rc_caps ctx) ?delta now b = (r2, as2, b')" "r2 = None \<longleftrightarrow> res = None"
      using ch by (auto simp: charge_caps_and_cut_def f split: prod.splits option.splits)
    then show ?thesis
      using charge_charged [OF b(1) assms(5) small _ b(3,4), of r2 as2 b'] sum assms(8) c3(1) by auto
  qed
  moreover have "streaming c3"
    using b(5) tap_next_stream [of "rc_adapter ctx" X body] f g by (simp add: streaming_def)
  ultimately show "billed before i t wid c3 b'" using b f g c3 by (simp add: billed_def)
  show "rc_meter c3 = fold observe (tapped X body (rc_adapter ctx)) (rc_meter ctx)"
    "rc_adapter c3 = tap_next X body (rc_adapter ctx)" "rc_wasm_per_event c3 = rc_wasm_per_event ctx" "rc_caps c3 = rc_caps ctx"
    using f g c3 by simp_all
qed

lemma chars_of_append: "chars_of (xs @ ys) = chars_of xs + chars_of ys"
  by (simp add: chars_of_def)

lemma run_billed:
  assumes "run_bodies X calls (ctx, gw) = ((rs, ss), ctx', gw')" "rc_route ctx = Some rb"
    "\<forall>(now, body, eos) \<in> set calls. \<not> eos \<and> same_window (px_cal X) t wid now"
    "billed before i t wid ctx (gw_budgets gw)"
    "unat (mt_output_chars (rc_meter ctx)) + chars_of (stream_events X calls (rc_adapter ctx)) < 2 ^ 53"
    "\<not> rc_cut ctx' \<or> (rc_caps ctx = [(i, t)] \<and> \<not> rc_wasm_per_event ctx)"
  shows "billed before i t wid ctx' (gw_budgets gw') \<and> ss = [] \<and> rc_caps ctx' = rc_caps ctx \<and>
     rc_wasm_per_event ctx' = rc_wasm_per_event ctx \<and>
     (\<not> rc_cut ctx' \<longrightarrow> rc_meter ctx' = fold observe (stream_events X calls (rc_adapter ctx)) (rc_meter ctx) \<and>
        rc_adapter ctx' = fold (\<lambda>(now, body, eos). tap_next X body) calls (rc_adapter ctx))"
  using assms
proof (induction calls arbitrary: ctx gw rs ss)
  case (Cons c calls)
  obtain now body eos where c: "c = (now, body, eos)" by (metis prod_cases3)
  obtain r as s ctx1 gw1 where b: "response_body_filter X now body eos (ctx, gw) = ((r, as, s), ctx1, gw1)"
    by (metis prod_cases3)
  have now: "\<not> eos" "same_window (px_cal X) t wid now" using Cons.prems(3) by (auto simp: c)
  from b Cons.prems(2) show ?case
  proof (cases rule: body_filter_cases)
    case torn
    have "run_bodies X (c # calls) (ctx, gw) = (([Torn], []), ctx, gw)"
      unfolding c run_bodies.simps b by (simp add: torn)
    then have run: "ss = []" "ctx' = ctx" "gw' = gw" using Cons.prems(1) by simp_all
    then show ?thesis using Cons.prems(4) torn(1) by simp
  next
    case (fed reason body1 body2 c1 c2 c3 bb)
    have st: "s = None" "ctx1 = c3" "gw1 = gw\<lparr>gw_budgets := bb\<rparr>" "\<not> rc_cut ctx" "r \<noteq> Torn"
      using fed(1,5,6) now(1) by auto
    obtain rs1 where rec: "run_bodies X calls (ctx1, gw1) = ((rs1, ss), ctx', gw')"
      using Cons.prems(1) st(1,5) by (auto simp: c b Let_def split: prod.splits)
    have route1: "rc_route ctx1 = Some rb" using body_filter_flow(1) [OF b] Cons.prems(2) by simp
    have keep: "\<not> rc_cut c3 \<or> (rc_caps ctx = [(i, t)] \<and> \<not> rc_wasm_per_event ctx)"
    proof (cases "rc_cut c3")
      case True
      then have "rc_cut ctx'" using cut_stays [OF rec route1] st(2) by simp
      then show ?thesis using Cons.prems(6) by simp
    qed simp
    have chars: "unat (mt_output_chars (rc_meter ctx)) + chars_of (tapped X body (rc_adapter ctx)) < 2 ^ 53"
      using Cons.prems(5) by (simp add: c chars_of_append)
    note ch = chunk_billed [OF fed(2-4) Cons.prems(4) now(2) chars st(4) keep]
    have "unat (mt_output_chars (rc_meter c3)) + chars_of (stream_events X calls (rc_adapter c3)) < 2 ^ 53"
      unfolding ch(2,3) estimate_after(1) [OF chars] using Cons.prems(5) by (simp add: c chars_of_append)
    from Cons.IH [OF rec route1 _ _ this [folded st(2)]] Cons.prems(3,6) ch show ?thesis
      by (auto simp: st(2,3) c)
  qed
qed simp

lemma settle_billed:
  assumes "settle_stream X now abort (ctx, gw) = (s, ctx', gw')" "billed before i t wid ctx (gw_budgets gw)"
    "rc_proxying ctx" "\<not> rc_settled ctx" "rc_route ctx \<noteq> None" "same_window (px_cal X) t wid now"
    "unat (mt_output_chars (rc_meter ctx)) < 2 ^ 53"
    "\<forall>a. mt_output (rc_meter ctx) = Some a \<longrightarrow> before + unat a < 2 ^ 64"
  shows "charged before i t wid (case mt_output (rc_meter ctx) of Some a \<Rightarrow> unat a
      | None \<Rightarrow> (unat (mt_output_chars (rc_meter ctx)) + 3) div 4) (gw_budgets gw')"
proof -
  have b: "charged before i t wid (unat (estimated_output_tokens (rc_meter ctx))) (gw_budgets gw)" "(i, t) \<in> set (rc_caps ctx)"
    "distinct (map fst (rc_caps ctx))" "streaming ctx" "before + 2 ^ 53 < 2 ^ 64"
    using assms(2) by (auto simp: billed_def)
  have est: "unat (estimated_output_tokens (rc_meter ctx)) = (unat (mt_output_chars (rc_meter ctx)) + 3) div 4"
    using assms(7) by (rule estimate_exact)
  have drain: "drain_tap J (ctx\<lparr>rc_settled := True\<rparr>) = ctx\<lparr>rc_settled := True\<rparr>" for J
    using b(4) by (auto simp: drain_tap_def streaming_def adapter_finish_def split: option.splits stream_adapter.splits)
  have "gw_budgets gw' = settle_and_log (px_cal X) (rc_caps ctx) (estimated_output_tokens (rc_meter ctx))
      (mt_output (rc_meter ctx)) now (gw_budgets gw)"
    using assms(1,3-5) b(4) by (auto simp: settle_stream_def drain settle_caps_def streaming_def meter_report_of_def Let_def)
  then show ?thesis
  proof (cases "mt_output (rc_meter ctx)")
    case None
    then show ?thesis using b(1) est \<open>gw_budgets gw' = _\<close> by (simp add: settle_none)
  next
    case (Some a)
    have "before + max (unat (estimated_output_tokens (rc_meter ctx))) (unat a) < 2 ^ 64"
      using est assms(7,8) b(5) Some by simp
    from settle_all_charged [OF b(1) assms(6) this b(2,3)] show ?thesis
      using Some \<open>gw_budgets gw' = _\<close> by simp
  qed
qed

lemma stream_events_append:
  "stream_events X (xs @ ys) a = stream_events X xs a @
     stream_events X ys (fold (\<lambda>(now, body, eos). tap_next X body) xs a)"
  by (induction X xs a rule: stream_events.induct) simp_all

lemma fresh_billed:
  assumes "rc_meter ctx = meter_new" "rc_last_metered_est ctx = 0" "streaming ctx" "(i, t) \<in> set (rc_caps ctx)"
    "distinct (map fst (rc_caps ctx))" "charged before i t wid 0 b" "before + 2 ^ 53 < 2 ^ 64"
  shows "billed before i t wid ctx b" "unat (mt_output_chars (rc_meter ctx)) = 0"
proof -
  have "unat (estimated_output_tokens meter_new) = 0" using estimate_exact [of meter_new] by (simp add: meter_new_def)
  then have "estimated_output_tokens meter_new = 0" by (simp add: unat_eq_0)
  then show "billed before i t wid ctx b" using assms by (simp add: billed_def)
  show "unat (mt_output_chars (rc_meter ctx)) = 0" by (simp add: assms(1) meter_new_def)
qed

text \<open>Property C6. A stream that runs to its end is billed what the provider counted: each capped spender of
  the request is charged, on top of what it had spent before, the output tokens of the last usage
  frame, however the stream was chunked and whatever the live estimates were; without a usage frame
  it is charged the estimate, a token for every four characters of output.  (No module and no cap
  cut the stream before its last chunk, and it ran within one window of the cap.)\<close>

theorem finished_stream_is_billed_the_last_usage:
  assumes "run_bodies X calls (ctx, gw) = ((rs, ss), ctx1, gw1)"
    and "\<forall>(now, body, eos) \<in> set calls. \<not> eos \<and> same_window (px_cal X) t wid now"
    and "response_body_filter X now body True (ctx1, gw1) = ((r, as, s), ctx', gw')" "same_window (px_cal X) t wid now"
    and "\<not> rc_cut ctx1" "\<not> rc_cut ctx' \<or> (rc_caps ctx = [(i, t)] \<and> \<not> rc_wasm_per_event ctx)"
    and "rc_route ctx = Some rb" "rc_proxying ctx" "\<not> rc_settled ctx"
    and "rc_meter ctx = meter_new" "rc_last_metered_est ctx = 0" "streaming ctx" "(i, t) \<in> set (rc_caps ctx)"
      "distinct (map fst (rc_caps ctx))" "charged before i t wid 0 (gw_budgets gw)" "before + 2 ^ 53 < 2 ^ 64"
    and "es = stream_events X (calls @ [(now, body, True)]) (rc_adapter ctx)" "chars_of es < 2 ^ 53"
    and "\<forall>a. mt_output (fold observe es meter_new) = Some a \<longrightarrow> before + unat a < 2 ^ 64"
  shows "charged before i t wid (case mt_output (fold observe es meter_new) of
      Some a \<Rightarrow> unat a | None \<Rightarrow> (chars_of es + 3) div 4) (gw_budgets gw')"
proof -
  note fresh = fresh_billed [OF assms(10-16)]
  let ?as = "stream_events X calls (rc_adapter ctx)"
  have es: "es = ?as @ tapped X body (fold (\<lambda>(now, body, eos). tap_next X body) calls (rc_adapter ctx))"
    by (simp add: assms(17) stream_events_append)
  have "unat (mt_output_chars (rc_meter ctx)) + chars_of ?as < 2 ^ 53"
    using assms(18) fresh(2) by (simp add: es chars_of_append)
  from run_billed [OF assms(1,7,2) fresh(1) this] assms(5) have run: "billed before i t wid ctx1 (gw_budgets gw1)" "ss = []"
    "rc_caps ctx1 = rc_caps ctx" "rc_wasm_per_event ctx1 = rc_wasm_per_event ctx" "rc_meter ctx1 = fold observe ?as meter_new"
    "rc_adapter ctx1 = fold (\<lambda>(now, body, eos). tap_next X body) calls (rc_adapter ctx)"
    by (auto simp: assms(10))
  have flow: "rc_route ctx1 = Some rb" "rc_proxying ctx1" "\<not> rc_settled ctx1"
    using run_bodies_flow [OF assms(1)] assms(7-9) run(2) by auto
  have zero: "unat (mt_output_chars meter_new) = 0" by (simp add: meter_new_def)
  have chars1: "unat (mt_output_chars (rc_meter ctx1)) = chars_of ?as"
    using estimate_after(1) [of meter_new ?as] assms(18) zero by (simp add: run(5) es chars_of_append)
  from assms(3) flow(1) show ?thesis
  proof (cases rule: body_filter_cases)
    case (fed reason body1 body2 c1 c2 c3 bb)
    have settle: "settle_stream X now None (c3, gw1\<lparr>gw_budgets := bb\<rparr>) = (s, ctx', gw')" using fed(6) by simp
    have keep: "\<not> rc_cut c3 \<or> (rc_caps ctx1 = [(i, t)] \<and> \<not> rc_wasm_per_event ctx1)"
      using assms(6) settle_stream_flow(5) [OF settle] run(3,4) by simp
    have small: "unat (mt_output_chars (rc_meter ctx1)) + chars_of (tapped X body (rc_adapter ctx1)) < 2 ^ 53"
      using assms(18) by (simp add: chars1 es chars_of_append run(6))
    note ch = chunk_billed [OF fed(2-4) run(1) assms(4) small assms(5) keep]
    have meter: "rc_meter c3 = fold observe es meter_new" by (simp add: ch(2) run(5,6) es)
    have chars: "unat (mt_output_chars (rc_meter c3)) = chars_of es"
      using estimate_after(1) [of meter_new es] assms(18) zero by (simp add: meter)
    have flow3: "rc_proxying c3" "\<not> rc_settled c3" "rc_route c3 \<noteq> None"
      using tap_chunk_frame [OF fed(2)] cuts_frame [OF fed(3,4)] flow by simp_all
    have "unat (mt_output_chars (rc_meter c3)) < 2 ^ 53"
      "\<forall>a. mt_output (rc_meter c3) = Some a \<longrightarrow> before + unat a < 2 ^ 64"
      using assms(18,19) chars by (simp_all add: meter)
    moreover have "billed before i t wid c3 (gw_budgets (gw1\<lparr>gw_budgets := bb\<rparr>))" using ch(1) by simp
    ultimately show ?thesis
      using settle_billed [OF settle _ flow3 assms(4)] unfolding chars unfolding meter by blast
  qed simp
qed

text \<open>Property C36. A stream that is interrupted, by its client, by its upstream or by the gateway's own cut, is
  not billed at the estimate the gateway publishes for it: the settlement takes the last usage frame
  it has seen for the final one, so a spender is charged the count that frame happened to carry,
  however many tokens the estimate had metered since; Anthropic opens its streams with such a
  frame, which counts the first token.\<close>

theorem interrupted_stream_is_billed_an_early_frame:
  assumes "run_bodies X calls (ctx, gw) = ((rs, ss), ctx1, gw1)"
    and "\<forall>(now, body, eos) \<in> set calls. \<not> eos \<and> same_window (px_cal X) t wid now"
    and "logging X now err (ctx1, gw1) = (s, ctx', gw')" "same_window (px_cal X) t wid now"
    and "\<not> rc_cut ctx1 \<or> (rc_caps ctx = [(i, t)] \<and> \<not> rc_wasm_per_event ctx)"
    and "rc_route ctx = Some rb" "rc_proxying ctx" "\<not> rc_settled ctx"
    and "rc_meter ctx = meter_new" "rc_last_metered_est ctx = 0" "streaming ctx" "(i, t) \<in> set (rc_caps ctx)"
      "distinct (map fst (rc_caps ctx))" "charged before i t wid 0 (gw_budgets gw)" "before + 2 ^ 53 < 2 ^ 64"
    and "chars_of (stream_events X calls (rc_adapter ctx)) < 2 ^ 53" "unat (mt_output_chars (rc_meter ctx1)) < 2 ^ 53"
    and "mt_output (rc_meter ctx1) = Some early" "before + unat early < 2 ^ 64"
  shows "charged before i t wid (unat early) (gw_budgets gw')"
proof -
  note fresh = fresh_billed [OF assms(9-15)]
  have "unat (mt_output_chars (rc_meter ctx)) + chars_of (stream_events X calls (rc_adapter ctx)) < 2 ^ 53"
    using assms(16) fresh(2) by simp
  from run_billed [OF assms(1,6,2) fresh(1) this assms(5)] have run: "billed before i t wid ctx1 (gw_budgets gw1)" "ss = []"
    by simp_all
  have flow: "rc_route ctx1 \<noteq> None" "rc_proxying ctx1" "\<not> rc_settled ctx1"
    using run_bodies_flow [OF assms(1)] assms(6-8) run(2) by auto
  have "settle_stream X now (Some (if err = Some Upstream then UpstreamCut else ClientAbort)) (ctx1, gw1) = (s, ctx', gw')"
    using assms(3) flow by (simp add: logging_def)
  from settle_billed [OF this run(1) flow(2,3,1) assms(4,17)] assms(18,19) show ?thesis by simp
qed

lemma one_chunk:
  assumes "rc_route ctx = Some rb" "\<not> rc_cut ctx"
  obtains rs ctx1 gw1 where "run_bodies X [(now, body, False)] (ctx, gw) = ((rs, []), ctx1, gw1)"
    "rc_meter ctx1 = fold observe (tapped X body (rc_adapter ctx)) (rc_meter ctx)"
proof -
  obtain r as s ctx1 gw1 where b: "response_body_filter X now body False (ctx, gw) = ((r, as, s), ctx1, gw1)"
    by (metis prod_cases3)
  from b assms(1) show thesis
  proof (cases rule: body_filter_cases)
    case (fed reason body1 body2 c1 c2 c3 bb)
    have "run_bodies X [(now, body, False)] (ctx, gw) = (([r], []), ctx1, gw1)"
      using fed(5,6) by (simp add: b)
    moreover have "rc_meter ctx1 = fold observe (tapped X body (rc_adapter ctx)) (rc_meter ctx)"
      using fed(6) tap_chunk_frame(10) [OF fed(2)] cuts_frame [OF fed(3,4)] by simp
    ultimately show thesis by (rule that)
  qed (use assms(2) in simp)
qed

text \<open>A client of Anthropic that hangs up after twelve characters: three tokens are metered, one is billed.\<close>

definition claude_json :: json_lib where
  "claude_json = \<lparr>jl_parse = (\<lambda>s.
       if s = ''s'' then Inr (JObject [(''type'', JString ''message_start''), (''message'',
         JObject [(''usage'', JObject [(''input_tokens'', JNumber (PosInt 8)), (''output_tokens'', JNumber (PosInt 1))])])])
       else Inr (JObject [(''type'', JString ''content_block_delta''), (''delta'',
         JObject [(''type'', JString ''text_delta''), (''text'', JString ''to be or not'')])])),
     jl_print = (\<lambda>_. []), jl_show_f64 = (\<lambda>_. [])\<rparr>"

definition claude_env :: "(unit, unit, unit, unit, unit) proxy_env" where
  "claude_env = gate_env\<lparr>px_json := claude_json\<rparr>"

definition claude_chunk :: string where
  "claude_chunk = ''data: s'' @ [nl, nl] @ ''data: d'' @ [nl, nl]"

definition claude_ctx :: "(unit, unit, unit) req_ctx" where
  "claude_ctx = (ctx_bound gate_snapshot None False)\<lparr>
     rc_route := Some \<lparr>rb_prefix = ''/v1'', rb_provider = ''up'', rb_kind = Anthropic\<rparr>,
     rc_adapter := Some (AnthropicAd anthropic_new), rc_caps := [gate_cap], rc_tap := Some StreamMode, rc_proxying := True\<rparr>"

definition claude_gateway :: gateway where
  "claude_gateway = \<lparr>gw_sts_cache = [], gw_gcp_tokens = [],
     gw_budgets = put_entry (fst gate_cap) (fresh_entry (fst gate_cap) (Some 100)) (nb_new ''n'')\<rparr>"

definition claude_es :: "event list" where
  "claude_es = [MessageStart None None, UsageDelta (Some 8) (Some 1), ContentDelta 0 ''to be or not'']"

lemma claude_events: "fst (anthropic_feed claude_json anthropic_new claude_chunk) = claude_es"
  by (simp only: claude_es_def) code_simp

lemma claude_tapped: "tapped claude_env (Some claude_chunk) (rc_adapter claude_ctx) = claude_es"
proof -
  have "claude_chunk \<noteq> []" by (simp add: claude_chunk_def)
  then show ?thesis
    using claude_events by (simp add: tapped_def claude_ctx_def adapter_feed_def claude_env_def)
qed

lemma claude_meter: "mt_output (fold observe claude_es meter_new) = Some 1"
  "chars_of claude_es = 12"
  "mt_output_chars (fold observe claude_es meter_new) = 12"
proof -
  have "char_count ''to be or not'' = 12" by code_simp
  then show "mt_output (fold observe claude_es meter_new) = Some 1"
    "chars_of claude_es = 12"
    "mt_output_chars (fold observe claude_es meter_new) = 12"
    by (simp_all add: claude_es_def observe_def meter_new_def chars_of_def)
qed

lemma claude_start:
  "rc_route claude_ctx = Some \<lparr>rb_prefix = ''/v1'', rb_provider = ''up'', rb_kind = Anthropic\<rparr>" "rc_proxying claude_ctx"
  "\<not> rc_settled claude_ctx" "\<not> rc_cut claude_ctx" "rc_meter claude_ctx = meter_new" "rc_last_metered_est claude_ctx = 0"
  "streaming claude_ctx" "rc_caps claude_ctx = [gate_cap]" "\<not> rc_wasm_per_event claude_ctx"
  "charged 0 (fst gate_cap) (snd gate_cap) 0 0 (gw_budgets claude_gateway)" "same_window cal (snd gate_cap) 0 now"
  by (simp_all add: claude_ctx_def ctx_bound_def streaming_def charged_def claude_gateway_def nb_wf_put_entry nb_wf_new
      settled_in_def fresh_entry_def gate_cap_def lb_new_def same_window_def)

theorem interrupted_stream_is_billed_an_early_frame_witness:
  "\<exists>ctx1 gw1 s ctx gw. rc_meter ctx1 = fold observe claude_es meter_new \<and>
     logging claude_env 0 None (ctx1, gw1) = (s, ctx, gw) \<and> charged 0 (fst gate_cap) (snd gate_cap) 0 1 (gw_budgets gw)"
proof -
  obtain rs ctx1 gw1 where r: "run_bodies claude_env [(0, Some claude_chunk, False)] (claude_ctx, claude_gateway) = ((rs, []), ctx1, gw1)"
    and m: "rc_meter ctx1 = fold observe (tapped claude_env (Some claude_chunk) (rc_adapter claude_ctx)) (rc_meter claude_ctx)"
    by (rule one_chunk [OF claude_start(1,4)])
  obtain s ctx gw where l: "logging claude_env 0 None (ctx1, gw1) = (s, ctx, gw)" by (metis prod_cases3)
  have "charged 0 (fst gate_cap) (snd gate_cap) 0 (unat (1 :: u64)) (gw_budgets gw)"
    by (rule interrupted_stream_is_billed_an_early_frame [OF r _ l claude_start(11) _ claude_start(1-3,5-7) _ _ claude_start(10)])
      (simp_all add: claude_start claude_tapped claude_meter m same_window_def gate_cap_def)
  then have "charged 0 (fst gate_cap) (snd gate_cap) 0 1 (gw_budgets gw)" by simp
  moreover have "rc_meter ctx1 = fold observe claude_es meter_new" using m by (simp only: claude_tapped claude_start)
  ultimately show ?thesis using l by blast
qed

theorem finished_stream_is_billed_the_last_usage_witness:
  "\<exists>r ctx gw. response_body_filter claude_env 0 (Some claude_chunk) True (claude_ctx, claude_gateway) = (r, ctx, gw) \<and>
     charged 0 (fst gate_cap) (snd gate_cap) 0 1 (gw_budgets gw)"
proof -
  obtain r as s ctx gw where b: "response_body_filter claude_env 0 (Some claude_chunk) True (claude_ctx, claude_gateway) = ((r, as, s), ctx, gw)"
    by (metis prod_cases3)
  have r: "run_bodies claude_env [] (claude_ctx, claude_gateway) = (([], []), claude_ctx, claude_gateway)" by simp
  have "charged 0 (fst gate_cap) (snd gate_cap) 0 (case mt_output (fold observe claude_es meter_new) of
      Some a \<Rightarrow> unat a | None \<Rightarrow> (chars_of claude_es + 3) div 4) (gw_budgets gw)"
    by (rule finished_stream_is_billed_the_last_usage [OF r _ b claude_start(11) claude_start(4) _ claude_start(1-3,5-7) _ _ claude_start(10)])
      (simp_all add: claude_start claude_tapped claude_meter gate_cap_def)
  then show ?thesis using b by (auto simp: claude_meter)
qed

end
