(* ===== verification/Otel.thy ===== *)
theory Otel
  imports ProxyResponse "HOL-Library.Sublist"
begin

text \<open>
  \<open>gatewayd/src/otel.rs\<close> and the end of \<open>logging\<close> in \<open>proxy.rs\<close>: the span of a request and its export.  The
  queue between the proxy's threads and the flusher is bounded; the flusher's loop is a machine
  whose events are what the two sides do: a span is offered, the flusher takes the oldest one, its
  deadline comes.  The collector is the \<open>net_lib\<close> of \<open>Exchange\<close>.  Lemmas: what becomes of a span.
\<close>

section \<open>Spans\<close>

record span_record =
  os_start :: u64
  os_end :: u64
  os_method :: string
  os_path :: string
  os_status :: "16 word option"
  os_route :: "string option"
  os_provider :: "string option"
  os_attribution :: "(string \<times> string) list"
  os_estimated :: u64
  os_authoritative :: "u64 option"
  os_was_cut :: bool
  os_disposition :: "string option"
  os_config_version :: u64
  os_error :: "string option"

text \<open>The span of a request that is over; what the session was answered is \<open>status\<close>.\<close>

definition span_of ::
  "u64 \<Rightarrow> u64 \<Rightarrow> string \<Rightarrow> string \<Rightarrow> 16 word option \<Rightarrow> ('p, 'k, 'm) req_ctx \<Rightarrow> span_record \<times> ('p, 'k, 'm) req_ctx"
where
  "span_of start now method path status ctx =
     (\<lparr>os_start = start, os_end = now, os_method = method, os_path = path, os_status = status,
       os_route = map_option rb_prefix (rc_route ctx), os_provider = map_option rb_provider (rc_route ctx),
       os_attribution = map (\<lambda>t. (tg_key t, tg_value t)) (rc_tags ctx),
       os_estimated = estimated_output_tokens (rc_meter ctx), os_authoritative = rc_authoritative_tokens ctx,
       os_was_cut = rc_cut ctx, os_disposition = map_option disposition_label (rc_disposition ctx),
       os_config_version = sn_version (rc_snapshot ctx), os_error = rc_error ctx\<rparr>,
      ctx\<lparr>rc_error := None\<rparr>)"

section \<open>The document\<close>

definition attr :: "string \<Rightarrow> string \<Rightarrow> json \<Rightarrow> json" where
  "attr key type v = JObject (bt_of_list [(''key'', JString key), (''value'', JObject [(type, v)])])"

definition str_attr :: "string \<Rightarrow> string \<Rightarrow> json" where
  "str_attr key v = attr key ''stringValue'' (JString v)"

definition int_attr :: "string \<Rightarrow> u64 \<Rightarrow> json" where
  "int_attr key v = attr key ''intValue'' (JString (show_u64 v))"

definition bool_attr :: "string \<Rightarrow> bool \<Rightarrow> json" where
  "bool_attr key v = attr key ''boolValue'' (JBool v)"

definition attributes_of :: "span_record \<Rightarrow> json list" where
  "attributes_of s =
     [str_attr ''http.request.method'' (os_method s), str_attr ''url.path'' (os_path s),
      int_attr ''gateway.config.version'' (os_config_version s),
      int_attr ''gateway.tokens.estimated'' (os_estimated s), bool_attr ''gateway.stream.cut'' (os_was_cut s)] @
     map (\<lambda>c. int_attr ''http.response.status_code'' (ucast c)) (opt_list (os_status s)) @
     map (str_attr ''gateway.route'') (opt_list (os_route s)) @
     map (str_attr ''gateway.provider'') (opt_list (os_provider s)) @
     map (int_attr ''gateway.tokens.authoritative'') (opt_list (os_authoritative s)) @
     map (str_attr ''gateway.stream.disposition'') (opt_list (os_disposition s)) @
     map (str_attr ''gateway.error'') (opt_list (os_error s)) @
     map (\<lambda>(k, v). str_attr (''gateway.attribution.'' @ k) v) (os_attribution s)"

definition span_json :: "aws_lib \<Rightarrow> string \<Rightarrow> u64 \<Rightarrow> span_record \<Rightarrow> json" where
  "span_json A node seq s =
     (let digest = sha256_hex A (node @ ''|'' @ show_u64 seq @ ''|'' @ show_u64 (os_start s));
          status = (case os_status s of Some c \<Rightarrow> if 500 \<le> c then 2 else 1 | None \<Rightarrow> (1 :: u64))
      in JObject (bt_of_list [(''traceId'', JString (take 32 digest)), (''spanId'', JString (take 16 (drop 32 digest))),
           (''name'', JString ''gateway.request''), (''kind'', JNumber (PosInt 2)),
           (''startTimeUnixNano'', JString (show_u64 (os_start s))),
           (''endTimeUnixNano'', JString (show_u64 (os_end s))), (''attributes'', JArray (attributes_of s)),
           (''status'', JObject [(''code'', JNumber (PosInt status))])]))"

fun spans_json :: "aws_lib \<Rightarrow> string \<Rightarrow> span_record list \<Rightarrow> u64 \<Rightarrow> json list \<times> u64" where
  "spans_json A node [] seq = ([], seq)"
| "spans_json A node (s # batch) seq =
     (let (js, seq') = spans_json A node batch (seq + 1) in (span_json A node (seq + 1) s # js, seq'))"

definition otlp_traces_json ::
  "aws_lib \<Rightarrow> otlp_config \<Rightarrow> string \<Rightarrow> span_record list \<Rightarrow> u64 \<Rightarrow> json \<times> u64"
where
  "otlp_traces_json A cfg node batch seq =
     (let (spans, seq') = spans_json A node batch seq in
      (JObject [(''resourceSpans'', JArray [JObject (bt_of_list
         [(''resource'', JObject [(''attributes'', JArray
             [str_attr ''service.name'' (ot_service_name cfg), str_attr ''service.instance.id'' node])]),
          (''scopeSpans'', JArray [JObject (bt_of_list
             [(''scope'', JObject [(''name'', JString ''gatewayd'')]), (''spans'', JArray spans)])])])])], seq'))"

section \<open>The exporter\<close>

definition QUEUE_DEPTH :: nat where "QUEUE_DEPTH = 4096"
definition BATCH_CAP :: nat where "BATCH_CAP = 512"

record exporter =
  ox_queue :: "span_record list"
  ox_dropped :: u64
  ox_batch :: "span_record list"
  ox_seq :: u64

definition exporter_new :: exporter where
  "exporter_new = \<lparr>ox_queue = [], ox_dropped = 0, ox_batch = [], ox_seq = 0\<rparr>"

definition record_span :: "span_record \<Rightarrow> exporter \<Rightarrow> exporter" where
  "record_span s x =
     (if length (ox_queue x) < QUEUE_DEPTH then x\<lparr>ox_queue := ox_queue x @ [s]\<rparr>
      else x\<lparr>ox_dropped := ox_dropped x + 1\<rparr>)"

text \<open>\<open>recv_timeout\<close> that does not time out, in a batch that is not full.\<close>

definition receive :: "exporter \<Rightarrow> exporter" where
  "receive x = (case ox_queue x of
     s # q \<Rightarrow> if length (ox_batch x) < BATCH_CAP then x\<lparr>ox_queue := q, ox_batch := ox_batch x @ [s]\<rparr> else x
   | [] \<Rightarrow> x)"

text \<open>The end of a round: the counter is read and reset, and a batch that is not empty is posted once,
  whatever the answer.\<close>

record flushed =
  of_lost :: u64
  of_spans :: "span_record list"
  of_body :: "json option"
  of_answer :: "(exchange_error + 16 word \<times> string) option"

definition flush ::
  "net_lib \<Rightarrow> aws_lib \<Rightarrow> json_lib \<Rightarrow> otlp_config \<Rightarrow> string \<Rightarrow> exporter \<Rightarrow> flushed \<times> exporter"
where
  "flush N A J cfg node x =
     (if ox_batch x = []
      then (\<lparr>of_lost = ox_dropped x, of_spans = [], of_body = None, of_answer = None\<rparr>, x\<lparr>ox_dropped := 0\<rparr>)
      else (let (body, seq) = otlp_traces_json A cfg node (ox_batch x) (ox_seq x) in
        (\<lparr>of_lost = ox_dropped x, of_spans = ox_batch x, of_body = Some body,
          of_answer = Some (http_post N (ot_endpoint cfg) ''/v1/traces'' ''application/json'' (jl_print J body) [])\<rparr>,
         \<lparr>ox_queue = ox_queue x, ox_dropped = 0, ox_batch = [], ox_seq = seq\<rparr>)))"

datatype otel_event = Offer span_record | Receive | Flush net_lib

fun run_otel ::
  "aws_lib \<Rightarrow> json_lib \<Rightarrow> otlp_config \<Rightarrow> string \<Rightarrow> otel_event list \<Rightarrow> exporter \<Rightarrow> flushed list \<times> exporter"
where
  "run_otel A J cfg node [] x = ([], x)"
| "run_otel A J cfg node (Offer s # es) x = run_otel A J cfg node es (record_span s x)"
| "run_otel A J cfg node (Receive # es) x = run_otel A J cfg node es (receive x)"
| "run_otel A J cfg node (Flush N # es) x =
     (let (f, x1) = flush N A J cfg node x; (fs, x2) = run_otel A J cfg node es x1 in (f # fs, x2))"

section \<open>What becomes of a span\<close>

fun offered :: "otel_event list \<Rightarrow> span_record list" where
  "offered [] = []"
| "offered (Offer s # es) = s # offered es"
| "offered (e # es) = offered es"

lemma spans_json_seq: "snd (spans_json A node batch seq) = seq + of_nat (length batch)"
  by (induction batch arbitrary: seq) (simp_all add: split_beta)

lemma flush_simps [simp]:
  "of_spans (fst (flush N A J cfg node x)) = ox_batch x" "of_lost (fst (flush N A J cfg node x)) = ox_dropped x"
  "ox_queue (snd (flush N A J cfg node x)) = ox_queue x" "ox_dropped (snd (flush N A J cfg node x)) = 0"
  "ox_batch (snd (flush N A J cfg node x)) = []"
  "ox_seq (snd (flush N A J cfg node x)) = ox_seq x + of_nat (length (ox_batch x))"
  by (simp_all add: flush_def split_beta otlp_traces_json_def Let_def spans_json_seq)

definition exporter_wf :: "exporter \<Rightarrow> bool" where
  "exporter_wf x \<longleftrightarrow> length (ox_queue x) \<le> QUEUE_DEPTH \<and> length (ox_batch x) \<le> BATCH_CAP"

text \<open>One step of either side keeps, in order, what it does not drop and count.\<close>

lemma record_span_keeps:
  assumes "exporter_wf x"
  shows "exporter_wf (record_span s x)"
    and "subseq (ox_batch (record_span s x) @ ox_queue (record_span s x)) ((ox_batch x @ ox_queue x) @ [s])"
    and "of_nat (length (ox_batch (record_span s x) @ ox_queue (record_span s x))) + ox_dropped (record_span s x) =
      of_nat (length (ox_batch x @ ox_queue x)) + ox_dropped x + 1"
    and "ox_seq (record_span s x) = ox_seq x"
  using assms by (auto simp: record_span_def exporter_wf_def)

lemma receive_keeps:
  assumes "exporter_wf x"
  shows "exporter_wf (receive x)" "ox_batch (receive x) @ ox_queue (receive x) = ox_batch x @ ox_queue x"
    "ox_dropped (receive x) = ox_dropped x" "ox_seq (receive x) = ox_seq x"
  using assms by (auto simp: receive_def exporter_wf_def split: list.splits)

lemma run_otel_keeps:
  "run_otel A J cfg node es x = (fs, x') \<Longrightarrow> exporter_wf x \<Longrightarrow>
     exporter_wf x' \<and> list_all (\<lambda>f. length (of_spans f) \<le> BATCH_CAP) fs \<and>
     subseq (concat (map of_spans fs) @ ox_batch x' @ ox_queue x') ((ox_batch x @ ox_queue x) @ offered es) \<and>
     of_nat (length (concat (map of_spans fs) @ ox_batch x' @ ox_queue x')) + sum_list (map of_lost fs) + ox_dropped x' =
       of_nat (length (ox_batch x @ ox_queue x)) + ox_dropped x + of_nat (length (offered es)) \<and>
     ox_seq x' = ox_seq x + of_nat (length (concat (map of_spans fs)))"
proof (induction es arbitrary: x fs)
  case (Cons e es)
  show ?case
  proof (cases e)
    case (Offer s)
    note k = record_span_keeps [OF Cons.prems(2), of s]
    have run: "run_otel A J cfg node es (record_span s x) = (fs, x')" using Cons.prems(1) Offer by simp
    note IH = Cons.IH [OF run k(1)]
    have "subseq (concat (map of_spans fs) @ ox_batch x' @ ox_queue x')
        ((ox_batch (record_span s x) @ ox_queue (record_span s x)) @ offered es)" using IH by blast
    moreover have "subseq ((ox_batch (record_span s x) @ ox_queue (record_span s x)) @ offered es)
        (((ox_batch x @ ox_queue x) @ [s]) @ offered es)" using k(2) by (rule list_emb_append_mono) simp
    ultimately have "subseq (concat (map of_spans fs) @ ox_batch x' @ ox_queue x')
        (((ox_batch x @ ox_queue x) @ [s]) @ offered es)" by (rule subseq_order.trans)
    then show ?thesis using IH k(3,4) Offer by (simp add: algebra_simps)
  next
    case Receive
    note k = receive_keeps [OF Cons.prems(2)]
    have run: "run_otel A J cfg node es (receive x) = (fs, x')" using Cons.prems(1) Receive by simp
    show ?thesis using Cons.IH [OF run k(1)] unfolding k(2,3,4) Receive by simp
  next
    case (Flush N)
    let ?x = "snd (flush N A J cfg node x)"
    obtain fs' x2 where r: "run_otel A J cfg node es ?x = (fs', x2)" by (cases "run_otel A J cfg node es ?x")
    then have fs': "run_otel A J cfg node es ?x = (fs', x')" "fs = fst (flush N A J cfg node x) # fs'"
      using Cons.prems(1) by (simp_all add: Flush split_beta)
    have wf: "exporter_wf ?x" using Cons.prems(2) by (simp add: exporter_wf_def)
    show ?thesis using Cons.IH [OF fs'(1) wf] Cons.prems(2)
      by (auto simp: fs'(2) Flush exporter_wf_def algebra_simps intro: list_emb_append_mono)
  qed
qed (auto simp: algebra_simps)

text \<open>However the requests and the flusher interleave and whatever the collector answers, the
  spans that were posted, in order, then those of the batch and of the queue, are a subsequence of
  the spans offered, so none is posted twice or reordered; each of the others was counted as
  dropped; and neither the queue nor a batch outgrows its bound.\<close>

theorem spans_are_posted_once_or_counted:
  "let (fs, x) = run_otel A J cfg node es exporter_new; kept = concat (map of_spans fs) @ ox_batch x @ ox_queue x in
     subseq kept (offered es) \<and>
     of_nat (length (offered es)) = of_nat (length kept) + sum_list (map of_lost fs) + ox_dropped x \<and>
     ox_seq x = of_nat (length (concat (map of_spans fs))) \<and>
     length (ox_queue x) \<le> QUEUE_DEPTH \<and> length (ox_batch x) \<le> BATCH_CAP \<and>
     list_all (\<lambda>f. length (of_spans f) \<le> BATCH_CAP) fs"
proof -
  obtain fs x where run: "run_otel A J cfg node es exporter_new = (fs, x)" by (cases "run_otel A J cfg node es exporter_new")
  have new: "ox_queue exporter_new = []" "ox_batch exporter_new = []" "ox_dropped exporter_new = 0" "ox_seq exporter_new = 0"
    by (simp_all add: exporter_new_def)
  then have "exporter_wf exporter_new" by (simp add: exporter_wf_def)
  from run_otel_keeps [OF run this] show ?thesis by (simp add: run exporter_wf_def new)
qed

end
