(* ===== verification/NodeMain.thy ===== *)
theory NodeMain
  imports Budget Exchange
begin

text \<open>
  The node's entry point: the command line of \<open>gatewayd/src/main.rs\<close>, and the delivery of alerts, which is
  the body of \<open>WebhookAlertSink\<close> in \<open>gateway-core/src/budget.rs\<close> and the sink of \<open>gatewayd/src/budget.rs\<close>.  A
  call of \<open>usage\<close>, which ends the process, is the left of a sum.  Lemmas: an accepted command line names
  exactly one source, and the body of an alert does not determine the alert.
\<close>

section \<open>The command line\<close>

definition DEFAULT_POLL_INTERVAL_SECS :: u64 where "DEFAULT_POLL_INTERVAL_SECS = 3"
definition WASM_BREAK_GLASS_TTL_SECS :: u64 where "WASM_BREAK_GLASS_TTL_SECS = 300"

datatype node_source =
    FromFile string
  | FromControlPlane string string string

record node_flags =
  nf_config :: "string option"
  nf_control_plane :: "string option"
  nf_node_id :: "string option"
  nf_join_token :: "string option"
  nf_config_source :: "string option"
  nf_listen :: string
  nf_poll_secs :: u64

definition node_flags_default :: "string option \<Rightarrow> node_flags" where
  "node_flags_default listen_env = \<lparr>nf_config = None, nf_control_plane = None, nf_node_id = None,
     nf_join_token = None, nf_config_source = None, nf_listen = unwrap_or listen_env ''127.0.0.1:6188'',
     nf_poll_secs = DEFAULT_POLL_INTERVAL_SECS\<rparr>"

definition node_flag :: "string \<Rightarrow> string \<Rightarrow> node_flags \<Rightarrow> string + node_flags" where
  "node_flag flag v f =
     (if flag = ''--config'' then Inr (f\<lparr>nf_config := Some v\<rparr>)
      else if flag = ''--config-source'' then Inr (f\<lparr>nf_config_source := Some v\<rparr>)
      else if flag = ''--control-plane'' then Inr (f\<lparr>nf_control_plane := Some v\<rparr>)
      else if flag = ''--node-id'' then Inr (f\<lparr>nf_node_id := Some v\<rparr>)
      else if flag = ''--join-token'' then Inr (f\<lparr>nf_join_token := Some v\<rparr>)
      else if flag = ''--listen'' then Inr (f\<lparr>nf_listen := v\<rparr>)
      else if flag = ''--poll-interval'' then
        (case parse_u64 v of None \<Rightarrow> Inl ''--poll-interval takes whole seconds (0 disables)''
         | Some n \<Rightarrow> Inr (f\<lparr>nf_poll_secs := n\<rparr>))
      else Inl (''unknown flag '' @ flag))"

fun node_args :: "string list \<Rightarrow> node_flags \<Rightarrow> string + node_flags" where
  "node_args (flag # v # args) f = (case node_flag flag v f of Inl e \<Rightarrow> Inl e | Inr f' \<Rightarrow> node_args args f')"
| "node_args [x] f = Inl (''dangling argument '' @ x)"
| "node_args [] f = Inr f"

definition quoted :: "string \<Rightarrow> string" where
  "quoted s = CHR 0x27 # s @ [CHR 0x27]"

definition node_source_of :: "node_flags \<Rightarrow> string + node_source" where
  "node_source_of f =
     (let source = nf_config_source f;
          wants_cp = (source = Some ''control-plane'' \<or> (source = None \<and> nf_control_plane f \<noteq> None));
          wants_file = (source = Some ''file'' \<or> (source = None \<and> nf_control_plane f = None))
      in if source \<notin> {None, Some ''file'', Some ''control-plane''}
         then Inl (''--config-source must be '' @ quoted ''file'' @ '' or '' @ quoted ''control-plane'')
         else if wants_cp then
           (case nf_control_plane f of
              None \<Rightarrow> Inl ''control-plane mode requires --control-plane <endpoint>''
            | Some endpoint \<Rightarrow> (case nf_node_id f of
                None \<Rightarrow> Inl ''control-plane mode requires --node-id <id>''
              | Some node_id \<Rightarrow> (case nf_join_token f of
                  None \<Rightarrow> Inl ''control-plane mode requires --join-token <secret>''
                | Some token \<Rightarrow>
                    if nf_config f \<noteq> None then Inl ''--config and --control-plane are mutually exclusive''
                    else Inr (FromControlPlane endpoint node_id token))))
         else if wants_file then
           (case nf_config f of None \<Rightarrow> Inl ''--config is required in file mode'' | Some c \<Rightarrow> Inr (FromFile c))
         else Inl ''specify exactly one config source: --config or --control-plane'')"

record node_cli =
  nc_source :: node_source
  nc_listen :: string
  nc_poll_interval :: u64

definition node_cli_parse :: "string option \<Rightarrow> string list \<Rightarrow> string + node_cli" where
  "node_cli_parse listen_env args = (case node_args args (node_flags_default listen_env) of
     Inl e \<Rightarrow> Inl e
   | Inr f \<Rightarrow> map_sum id (\<lambda>source. \<lparr>nc_source = source, nc_listen = nf_listen f, nc_poll_interval = nf_poll_secs f\<rparr>)
       (node_source_of f))"

definition node_label :: "node_source \<Rightarrow> string" where
  "node_label s = (case s of FromControlPlane _ node_id _ \<Rightarrow> node_id | FromFile _ \<Rightarrow> ''standalone'')"

section \<open>Alerts\<close>

definition alert_kind_label :: "alert_kind \<Rightarrow> string" where
  "alert_kind_label k = (case k of
     SoftThreshold fraction \<Rightarrow> ''SOFT-'' @ show_u64 (f_to_u64 (f_round (f_mul fraction (FFin 100)))) @ ''%''
   | HardCap \<Rightarrow> ''HARD-CAP'')"

definition alert_body :: "json_lib \<Rightarrow> alert \<Rightarrow> string" where
  "alert_body J a =
     ''{\"kind\":\"'' @
     (case al_kind a of
        SoftThreshold fraction \<Rightarrow> ''soft_threshold\",\"fraction\":'' @ jl_show_f64 J fraction
      | HardCap \<Rightarrow> ''hard_cap\",\"fraction\":1.0'') @
     '',\"key\":\"'' @ ci_key (al_id a) @ ''\",\"value\":\"'' @ ci_value (al_id a) @
     ''\",\"cap_tokens\":'' @ show_u64 (al_cap a) @ '',\"spend_tokens\":'' @ show_u64 (al_spend a) @
     '',\"node\":\"'' @ al_node a @ ''\"}''"

definition alert_request :: "webhook_target \<Rightarrow> string \<Rightarrow> string" where
  "alert_request target body =
     ''POST '' @ wt_path target @ '' HTTP/1.1'' @ crlf @ ''Host: '' @ address (wt_endpoint target) @ crlf @
     ''Content-Type: application/json'' @ crlf @ ''Content-Length: '' @ dec_of_nat (length body) @ crlf @
     ''Connection: close'' @ crlf @ crlf @ body"

definition post_alert :: "net_lib \<Rightarrow> webhook_target \<Rightarrow> string \<Rightarrow> string + unit" where
  "post_alert N target body =
     (case nl_send N (address (wt_endpoint target)) (alert_request target body) of
        Inl e \<Rightarrow> Inl e
      | Inr response \<Rightarrow>
          (let parts = split_ws [] (from_utf8_lossy response);
               status = (if 1 < length parts then unwrap_or (parse_u16 (parts ! 1)) 0 else 0)
           in if 200 \<le> status \<and> status < 300 then Inr () else Inl (''webhook returned '' @ show_word status)))"

text \<open>The sink's webhook is set once; later calls are ignored.\<close>

definition configure_sink :: "webhook_target \<Rightarrow> webhook_target option \<Rightarrow> webhook_target option" where
  "configure_sink target sink = (case sink of None \<Rightarrow> Some target | Some t \<Rightarrow> Some t)"

definition emit_alert :: "json_lib \<Rightarrow> net_lib \<Rightarrow> webhook_target option \<Rightarrow> alert \<Rightarrow> (string + unit) option" where
  "emit_alert J N sink a = map_option (\<lambda>target. post_alert N target (alert_body J a)) sink"

section \<open>What they guarantee\<close>

lemma one_source:
  assumes "node_source_of f = Inr s"
  shows "case s of FromFile c \<Rightarrow> nf_config f = Some c \<and> nf_config_source f \<noteq> Some ''control-plane''
    | FromControlPlane endpoint node_id token \<Rightarrow> nf_config f = None \<and> nf_control_plane f = Some endpoint \<and>
        nf_node_id f = Some node_id \<and> nf_join_token f = Some token"
  using assms by (auto simp: node_source_of_def Let_def split: if_splits option.splits)

text \<open>The values are not escaped: two alerts about different spenders may have the same body.\<close>

lemma alert_body_confuses_spenders:
  "alert_body J (a\<lparr>al_id := CapId ''team'' (v @ ''\",\"value\":\"'' @ w)\<rparr>) =
   alert_body J (a\<lparr>al_id := CapId (''team\",\"value\":\"'' @ v) w\<rparr>)"
  by (simp add: alert_body_def)

end
