(* ===== verification/Spec2Isabelle.thy ===== *)
theory Spec2Isabelle
  imports Reconcile Client CtlMain Sources ProxyRuns Otel NodeMain
begin

text \<open>
  A model of smallgateway, an LLM gateway made of a data plane (\<open>gatewayd\<close>, built on
  \<open>gateway-core\<close> and \<open>gateway-wasm\<close>) and a control plane (\<open>gatewayctl\<close>) that speak over one
  gRPC stream per node (\<open>gateway-proto\<close>).  File names below are under \<open>src/crates/\<close>.

  \<^bold>\<open>How the parts interact.\<close>  The control plane reads a repository of configuration, renders a flat
  configuration per node (\<open>Render\<close>, \<open>GatewaySet\<close>), pushes it in ordered waves (\<open>Waves\<close>, \<open>Rollout\<close>,
  \<open>CanaryRollout\<close>), adjudicates the answers (\<open>Fleet\<close>), heals nodes that drift (\<open>Reconcile\<close>), admits
  nodes by single-use tokens (\<open>JoinToken\<close>), correlates pushes and answers (\<open>ControlPlane\<close>) and divides
  budgets (\<open>FleetBudget\<close>).  A node binds a push to its one snapshot cell (\<open>Client\<close>, \<open>Reloader\<close>) together
  with the policy modules of that configuration (\<open>WasmRuntime\<close>), and on every request matches a route,
  resolves attribution, enforces the budget, injects credentials and headers, and meters and possibly
  cuts the response.

  \<^bold>\<open>Foundations.\<close>
  \<^item> \<open>Prelude\<close>: machine integers (a \<open>u64\<close> is a \<open>64 word\<close> whose plain \<open>+\<close> wraps as in a release build, with
    the saturating operations written out) and Rust's string helpers on bytes; \<open>RustStr\<close>, \<open>Scan\<close>: UTF-8
    white space, \<open>trim\<close>, \<open>find\<close>, \<open>split\<close>, \<open>join\<close>; \<open>OrdMap\<close>: a \<open>BTreeMap\<close> as its sorted entry list, with
    the locale of its laws; \<open>F64\<close>: binary64 with round to nearest even; \<open>Json\<close>: \<open>serde_json::Value\<close>.

  \<^bold>\<open>The data plane's library (\<open>gateway-core\<close>).\<close>
  \<^item> \<open>Config\<close>, \<open>Routing\<close>: \<open>config.rs\<close>, \<open>wasm_config.rs\<close>; the configuration types, path normalisation, route
    matching.  \<open>Validate\<close>: \<open>validate.rs\<close>.  \<open>Scope\<close>, \<open>Finalize\<close>: \<open>scope.rs\<close>, the policy chain, its composition,
    and the acceptance of a configuration.  \<open>Attribution\<close>: \<open>attribution.rs\<close>.
  \<^item> \<open>Expr\<close>, \<open>Jwt\<close>, \<open>Labels\<close>, \<open>Template\<close>, \<open>Aws\<close>: \<open>expr.rs\<close>, \<open>jwt.rs\<close>, \<open>labels.rs\<close>, \<open>template.rs\<close>, \<open>aws.rs\<close>.
  \<^item> \<open>Sse\<close>, \<open>EventStream\<close>, \<open>Adapters\<close>, \<open>Metering\<close>: \<open>sse.rs\<close>, \<open>eventstream.rs\<close>, \<open>event.rs\<close>, \<open>adapters/\<close> and
    \<open>metering.rs\<close>; the streams of four providers normalised into one event type and metered.
  \<^item> \<open>Budget\<close>: \<open>budget.rs\<close>, the counter of one capped spender, composed caps and the alert latch.

  \<^bold>\<open>The data plane (\<open>gatewayd\<close>, \<open>gateway-wasm\<close>).\<close>
  \<^item> \<open>NodeBudget\<close>: \<open>gatewayd/src/budget.rs\<close>; \<open>Adjudicate\<close>, \<open>Deployment\<close>, \<open>Terminal\<close>: \<open>proxy_support.rs\<close>, the
    decisions of a request, the properties of an accepted configuration, and the event that ends a
    cut stream.
  \<^item> \<open>ModuleState\<close>, \<open>PolicyModule\<close>: the \<open>gateway-wasm\<close> crate; \<open>Reloader\<close>, \<open>WasmRuntime\<close>, \<open>Client\<close>:
    \<open>reload.rs\<close>, \<open>wasm_runtime.rs\<close>, \<open>client.rs\<close>.
  \<^item> \<open>Exchange\<close>: \<open>aws_auth.rs\<close>, \<open>gcp_auth.rs\<close>, the credential exchanges behind their caches.
  \<^item> \<open>ProxyRequest\<close>, \<open>ProxyResponse\<close>: \<open>proxy.rs\<close>, \<open>proxy_stream.rs\<close>, \<open>proxy_wasm.rs\<close>; the filters \<open>pingora\<close> calls,
    each a function of the request's context (\<open>req_ctx\<close>) and the shared state (\<open>gateway\<close>).
    \<open>Proxy\<close> states what a forwarded request has passed and what goes upstream, \<open>ProxyRuns\<close> what a
    whole run of filters does: no panics, one settlement, the stream shown and the stream billed.
    \<open>Otel\<close>: \<open>otel.rs\<close>, the span of a request and the rounds of its export;
    \<open>NodeMain\<close>: \<open>gatewayd/src/main.rs\<close>, the command line, and the delivery of alerts.

  \<^bold>\<open>The control plane (\<open>gatewayctl\<close>).\<close>
  \<^item> \<open>FleetBudget\<close>: \<open>budget.rs\<close>; \<open>Waves\<close>, \<open>GatewaySet\<close>, \<open>Render\<close> (with \<open>source.rs\<close> and the core's
    \<open>snapshot.rs\<close>), \<open>Canary\<close>, \<open>Fleet\<close>, \<open>Telemetry\<close>, \<open>Store\<close>, \<open>Rollout\<close>, \<open>CanaryRollout\<close>, \<open>Reconcile\<close>,
    \<open>JoinToken\<close>, \<open>ControlPlane\<close>: the files of those names, and \<open>server.rs\<close>; \<open>Admission\<close>: \<open>admission.rs\<close>,
    the rules a candidate passes before a rollout; \<open>CtlMain\<close>: \<open>main.rs\<close>, \<open>status_http.rs\<close>, the command line, the
    reload that admits, renders and rolls out, and the status document; \<open>Sources\<close>: \<open>source.rs\<close>, the
    repository read from a directory or a commit.

  \<^bold>\<open>Parameters.\<close>  Code that is not in the repository is an argument with its documented behaviour as a
  named hypothesis: the YAML reader, serde\_json, the CEL interpreter, SHA-256, HMAC and RSA, base64,
  crc32fast, chrono (\<open>calendar\<close>), wasmtime (\<open>wasm_lib\<close>), the network and the clock.

  \<^bold>\<open>What the lemmas show.\<close>  Budgets: granted shares sum to at most the cap, and a counter that is asked
  before each spend never passes it.  Requests: the most specific route is taken, normalised paths hold
  no traversal, a proven tag is vouched for by a signed token, the head of a request reaches what an accepted
  configuration injects only where the operator lets it, a forwarded request has
  passed every gate, the upstream gets the resolved attribution, and what is signed is what is sent.
  Streams: decoding does not depend on how the network cut the bytes, a client sees its stream until
  one cut, which reads back as the operator's event when its block can be framed, and every forwarded request is settled once, at the last usage the provider reported.  Configuration: every composed
  policy is sound, renders are reproducible, an admitted repository keeps the baseline rules
  and a reload distributes only what was admitted.
  Rollouts: waves are all-or-nothing, stop at the first
  failure and, when their sends complete and their approvals come, return; a send has no timeout, and one
  stream that is not read stops the control plane.  Nodes: tokens admit one node, answers are correlated,
  a committed wave is served, a node keeps serving and dialling until a push makes its client panic, a
  node refines the register of the last accepted text, modules bind with their configuration.
  Some theorems state defects; the findings of the manifest name them.

  \<^bold>\<open>Panics and waiting.\<close>  A filter that can panic has \<open>option\<close> type and so do the operations of the
  control plane that await a send (\<open>None\<close>: the channel of sixteen messages is full, or, for an
  acknowledgement, its log line panicked); a push that waits keeps the lock of the session table in
  \<open>cp_waiting\<close>.  The client's panic is a value that ends its supervisor.  \<open>Rollout\<close>, \<open>CanaryRollout\<close> and
  \<open>Reconcile\<close> are about pushes whose sends complete.

  \<^bold>\<open>Bounds and fuel.\<close>  Nothing runs on fuel.  \<open>await_gate\<close> and \<open>migrate_loop\<close> are partial functions whose
  \<open>None\<close> is not returning, and their termination is proved under stated conditions
  (\<open>canary_rollout_returns\<close>, \<open>plan_follows_declared_path\<close>).  The conservation of shares is proved for caps
  up to \<open>2 ^ 50\<close> tokens and the ninety-percent escalation for shares up to \<open>2 ^ 49\<close>, where the code's doubles
  are exact enough; the meter's estimate for fewer than \<open>2 ^ 53\<close> characters.  Sequences of reloads are
  bounded by \<open>2 ^ 63\<close>, below the wrap of the version counter.

  \<^bold>\<open>Not modelled.\<close>  Sockets, timers, threads, signals and log lines, and the wiring of the two
  processes in their \<open>main\<close> functions, which are I/O; the generated gRPC code; mock servers, spikes,
  examples and tests.
\<close>

end
